(* ===== verification/Prelude.thy ===== *)
theory Prelude
  imports Complex_Main "HOL-Library.Word" "HOL-Library.Monad_Syntax"
begin

text \<open>
  Shared vocabulary of the development: the enumerations and limits of
  \<^verbatim>\<open>ChatServerShared/const.h\<close>, the parts of the C++ standard library the servers rely on
  (\<^verbatim>\<open>std::to_string\<close>, \<^verbatim>\<open>std::stoi\<close>, \<^verbatim>\<open>std::stoull\<close>, the
  \<^verbatim>\<open><cctype>\<close> classifiers), and the generic facts on lists and strings that the
  component theories use. A \<^verbatim>\<open>std::string\<close> is a \<^typ>\<open>string\<close>, one
  \<^typ>\<open>char\<close> per byte.
\<close>

named_theorems inv_simps \<open>unfolding rules for the invariants of the components\<close>
named_theorems key_simps \<open>equalities between storage keys\<close>

section \<open>Error codes, message numbers and limits\<close>

datatype ErrorCodes =
    NetworkError | Success | Error_Json | RPCFailed | VerifyExpired | VerifyCodeErr | UserExist
  | PasswdErr | EmailNotMatch | PasswdUpFailed | PasswdInvalid | TokenInvalid | UidInvalid
  | CreateChatFailed | LoadChatFailed | DatabaseError | RedisError | InternalError | FriendNotFound
  | GroupForbidden | GroupOwnerMustTransfer | GroupFull | VoiceBusy | VoiceOffline | VoiceInvalid
  | VoiceUnavailable | VoiceRateLimited

text \<open>The value an enumerator has on the wire and in the Lua scripts.\<close>

primrec error_value :: "ErrorCodes \<Rightarrow> int" where
  "error_value NetworkError = -1"
| "error_value Success = 0"
| "error_value Error_Json = 1001"
| "error_value RPCFailed = 1002"
| "error_value VerifyExpired = 1003"
| "error_value VerifyCodeErr = 1004"
| "error_value UserExist = 1005"
| "error_value PasswdErr = 1006"
| "error_value EmailNotMatch = 1007"
| "error_value PasswdUpFailed = 1008"
| "error_value PasswdInvalid = 1009"
| "error_value TokenInvalid = 1010"
| "error_value UidInvalid = 1011"
| "error_value CreateChatFailed = 1012"
| "error_value LoadChatFailed = 1013"
| "error_value DatabaseError = 1014"
| "error_value RedisError = 1015"
| "error_value InternalError = 1016"
| "error_value FriendNotFound = 1017"
| "error_value GroupForbidden = 1018"
| "error_value GroupOwnerMustTransfer = 1019"
| "error_value GroupFull = 1020"
| "error_value VoiceBusy = 1021"
| "error_value VoiceOffline = 1022"
| "error_value VoiceInvalid = 1023"
| "error_value VoiceUnavailable = 1024"
| "error_value VoiceRateLimited = 1025"

text \<open>The enumerator with a given value, for the scripts' integer replies.\<close>

definition error_of_value :: "int \<Rightarrow> ErrorCodes option" where
  "error_of_value n = map_of (map (\<lambda>e. (error_value e, e))
     [NetworkError, Success, Error_Json, RPCFailed, VerifyExpired, VerifyCodeErr, UserExist,
      PasswdErr, EmailNotMatch, PasswdUpFailed, PasswdInvalid, TokenInvalid, UidInvalid,
      CreateChatFailed, LoadChatFailed, DatabaseError, RedisError, InternalError, FriendNotFound,
      GroupForbidden, GroupOwnerMustTransfer, GroupFull, VoiceBusy, VoiceOffline, VoiceInvalid,
      VoiceUnavailable, VoiceRateLimited]) n"

lemma error_of_error_value [simp]: "error_of_value (error_value e) = Some e"
  by (cases e) (simp_all add: error_of_value_def)

lemma error_value_inj [simp]: "(error_value a = error_value b) = (a = b)"
  by (metis error_of_error_value option.inject)

lemma error_value_eq_0 [simp]: "(error_value a = 0) = (a = Success)"
  by (cases a) simp_all

definition MAX_LENGTH :: nat where "MAX_LENGTH = 1024 * 16"
definition HEAD_TOTAL_LEN :: nat where "HEAD_TOTAL_LEN = 4"
definition HEAD_ID_LEN :: nat where "HEAD_ID_LEN = 2"
definition HEAD_DATA_LEN :: nat where "HEAD_DATA_LEN = 2"
definition MAX_RECVQUE :: nat where "MAX_RECVQUE = 10000"
definition MAX_SENDQUE :: nat where "MAX_SENDQUE = 1000"

datatype MessageIds =
    MSG_CHAT_LOGIN | MSG_CHAT_LOGIN_RSP | ID_SEARCH_USER_REQ | ID_SEARCH_USER_RSP
  | ID_ADD_FRIEND_REQ | ID_ADD_FRIEND_RSP | ID_NOTIFY_ADD_FRIEND_REQ | ID_AUTH_FRIEND_REQ
  | ID_AUTH_FRIEND_RSP | ID_NOTIFY_AUTH_FRIEND_REQ | ID_TEXT_CHAT_MSG_REQ | ID_TEXT_CHAT_MSG_RSP
  | ID_NOTIFY_TEXT_CHAT_MSG_REQ | ID_NOTIFY_OFF_LINE_REQ | ID_HEART_BEAT_REQ | ID_HEARTBEAT_RSP
  | ID_LOAD_CHAT_THREAD_REQ | ID_LOAD_CHAT_THREAD_RSP | ID_CREATE_PRIVATE_CHAT_REQ
  | ID_CREATE_PRIVATE_CHAT_RSP | ID_LOAD_CHAT_MSG_REQ | ID_LOAD_CHAT_MSG_RSP
  | ID_UPDATE_PROFILE_REQ | ID_UPDATE_PROFILE_RSP | ID_GET_AVATAR_REQ | ID_GET_AVATAR_RSP
  | ID_DELETE_FRIEND_REQ | ID_DELETE_FRIEND_RSP | ID_NOTIFY_DELETE_FRIEND
  | ID_SET_CONTACT_TAGS_REQ | ID_SET_CONTACT_TAGS_RSP | ID_GROUP_REQ | ID_GROUP_RSP
  | ID_VOICE_REQ | ID_VOICE_EVENT | ID_VOICE_FRAME | ID_VOICE_AUDIO | ID_VIDEO_FRAME
  | ID_VIDEO_IMAGE

primrec message_id_value :: "MessageIds \<Rightarrow> int" where
  "message_id_value MSG_CHAT_LOGIN = 1005"
| "message_id_value MSG_CHAT_LOGIN_RSP = 1006"
| "message_id_value ID_SEARCH_USER_REQ = 1007"
| "message_id_value ID_SEARCH_USER_RSP = 1008"
| "message_id_value ID_ADD_FRIEND_REQ = 1009"
| "message_id_value ID_ADD_FRIEND_RSP = 1010"
| "message_id_value ID_NOTIFY_ADD_FRIEND_REQ = 1011"
| "message_id_value ID_AUTH_FRIEND_REQ = 1013"
| "message_id_value ID_AUTH_FRIEND_RSP = 1014"
| "message_id_value ID_NOTIFY_AUTH_FRIEND_REQ = 1015"
| "message_id_value ID_TEXT_CHAT_MSG_REQ = 1017"
| "message_id_value ID_TEXT_CHAT_MSG_RSP = 1018"
| "message_id_value ID_NOTIFY_TEXT_CHAT_MSG_REQ = 1019"
| "message_id_value ID_NOTIFY_OFF_LINE_REQ = 1021"
| "message_id_value ID_HEART_BEAT_REQ = 1023"
| "message_id_value ID_HEARTBEAT_RSP = 1024"
| "message_id_value ID_LOAD_CHAT_THREAD_REQ = 1025"
| "message_id_value ID_LOAD_CHAT_THREAD_RSP = 1026"
| "message_id_value ID_CREATE_PRIVATE_CHAT_REQ = 1027"
| "message_id_value ID_CREATE_PRIVATE_CHAT_RSP = 1028"
| "message_id_value ID_LOAD_CHAT_MSG_REQ = 1029"
| "message_id_value ID_LOAD_CHAT_MSG_RSP = 1030"
| "message_id_value ID_UPDATE_PROFILE_REQ = 1031"
| "message_id_value ID_UPDATE_PROFILE_RSP = 1032"
| "message_id_value ID_GET_AVATAR_REQ = 1033"
| "message_id_value ID_GET_AVATAR_RSP = 1034"
| "message_id_value ID_DELETE_FRIEND_REQ = 1035"
| "message_id_value ID_DELETE_FRIEND_RSP = 1036"
| "message_id_value ID_NOTIFY_DELETE_FRIEND = 1037"
| "message_id_value ID_SET_CONTACT_TAGS_REQ = 1038"
| "message_id_value ID_GROUP_REQ = 1060"
| "message_id_value ID_GROUP_RSP = 1061"
| "message_id_value ID_VOICE_REQ = 1070"
| "message_id_value ID_VOICE_EVENT = 1071"
| "message_id_value ID_VOICE_FRAME = 1072"
| "message_id_value ID_VOICE_AUDIO = 1073"
| "message_id_value ID_VIDEO_FRAME = 1074"
| "message_id_value ID_VIDEO_IMAGE = 1075"
| "message_id_value ID_SET_CONTACT_TAGS_RSP = 1039"

lemma message_id_value_range: "1005 \<le> message_id_value i \<and> message_id_value i \<le> 1075"
  by (cases i) simp_all

section \<open>The C++ standard library: character classes and number formats\<close>

text \<open>Classifiers of \<^verbatim>\<open><cctype>\<close> in the C locale, on the byte's value.\<close>

definition byte :: "char \<Rightarrow> nat" where
  "byte c = of_char c"

definition isdigit :: "char \<Rightarrow> bool" where
  "isdigit c \<longleftrightarrow> 48 \<le> byte c \<and> byte c \<le> 57"

definition isspace :: "char \<Rightarrow> bool" where
  "isspace c \<longleftrightarrow> byte c = 32 \<or> (9 \<le> byte c \<and> byte c \<le> 13)"

definition isxdigit :: "char \<Rightarrow> bool" where
  "isxdigit c \<longleftrightarrow> isdigit c \<or> (65 \<le> byte c \<and> byte c \<le> 70) \<or> (97 \<le> byte c \<and> byte c \<le> 102)"

definition digit_char :: "nat \<Rightarrow> char" where
  "digit_char d = char_of (48 + d)"

lemma byte_digit_char [simp]: "d < 10 \<Longrightarrow> byte (digit_char d) = 48 + d"
  by (simp add: byte_def digit_char_def)

lemma isdigit_digit_char [simp]: "d < 10 \<Longrightarrow> isdigit (digit_char d)"
  by (simp add: isdigit_def)

text \<open>Decimal digits, and the value of a digit string.\<close>

fun nat_digits :: "nat \<Rightarrow> string" where
  "nat_digits n = (if n < 10 then [digit_char n] else nat_digits (n div 10) @ [digit_char (n mod 10)])"

declare nat_digits.simps [simp del]

definition digits_value :: "string \<Rightarrow> nat" where
  "digits_value ds = foldl (\<lambda>acc c. 10 * acc + (byte c - 48)) 0 ds"

lemma digits_value_snoc [simp]:
  "digits_value (ds @ [c]) = 10 * digits_value ds + (byte c - 48)"
  by (simp add: digits_value_def)

lemma digits_value_nat_digits [simp]: "digits_value (nat_digits n) = n"
proof (induction n rule: nat_digits.induct)
  case (1 n)
  show ?case
  proof (cases "n < 10")
    case True
    then show ?thesis by (simp add: nat_digits.simps [of n] digits_value_def)
  next
    case False
    with 1 show ?thesis by (simp add: nat_digits.simps [of n])
  qed
qed

lemma nat_digits_inj [simp]: "(nat_digits m = nat_digits n) = (m = n)"
  by (metis digits_value_nat_digits)

lemma nat_digits_isdigit: "c \<in> set (nat_digits n) \<Longrightarrow> isdigit c"
proof (induction n rule: nat_digits.induct)
  case (1 n)
  then show ?case
    by (cases "n < 10") (auto simp: nat_digits.simps [of n])
qed

lemma nat_digits_not_Nil [simp]: "nat_digits n \<noteq> []"
  by (subst nat_digits.simps) simp

text \<open>\<^verbatim>\<open>std::to_string\<close> on an integer.\<close>

definition to_string :: "int \<Rightarrow> string" where
  "to_string i = (if i < 0 then CHR ''-'' # nat_digits (nat (- i)) else nat_digits (nat i))"

lemma to_string_chars: "c \<in> set (to_string i) \<Longrightarrow> isdigit c \<or> c = CHR ''-''"
  by (auto simp: to_string_def dest: nat_digits_isdigit split: if_splits)

lemma minus_not_digit: "\<not> isdigit (CHR ''-'')"
  by (simp add: isdigit_def byte_def)

lemma nat_digits_no_minus: "nat_digits n \<noteq> CHR ''-'' # xs"
proof
  assume "nat_digits n = CHR ''-'' # xs"
  then have "CHR ''-'' \<in> set (nat_digits n)" by simp
  then show False using nat_digits_isdigit minus_not_digit by blast
qed

lemma to_string_inj [simp]: "(to_string i = to_string j) = (i = j)"
  using nat_digits_no_minus [of "nat j"] nat_digits_no_minus [of "nat i"]
  by (auto simp: to_string_def dest: sym)

lemma colon_notin_to_string [simp]: "CHR '':'' \<notin> set (to_string i)"
  using to_string_chars [of "CHR '':''" i] by (auto simp: isdigit_def byte_def)

text \<open>
  \<^verbatim>\<open>std::stoi\<close> and \<^verbatim>\<open>std::stoull\<close>: leading white space, an optional sign,
  then as many digits as there are; \<^term>\<open>None\<close> is the exception
  (\<^verbatim>\<open>invalid_argument\<close> without digits, \<^verbatim>\<open>out_of_range\<close> past the type). The
  second component is the number of characters consumed. \<^verbatim>\<open>strtoull\<close> accepts a minus
  sign and negates modulo \<open>2^64\<close>.
\<close>

definition int_min :: int where "int_min = - (2 ^ 31)"
definition int_max :: int where "int_max = 2 ^ 31 - 1"

definition scan_integer :: "string \<Rightarrow> (bool \<times> nat \<times> nat) option" where
  "scan_integer s =
     (let ws = length (takeWhile isspace s);
          r = dropWhile isspace s;
          neg = (r \<noteq> [] \<and> hd r = CHR ''-'');
          sign = (r \<noteq> [] \<and> (hd r = CHR ''-'' \<or> hd r = CHR ''+''));
          ds = takeWhile isdigit (if sign then tl r else r)
      in if ds = [] then None
         else Some (neg, digits_value ds, ws + (if sign then 1 else 0) + length ds))"

definition stoi :: "string \<Rightarrow> (int \<times> nat) option" where
  "stoi s = (case scan_integer s of None \<Rightarrow> None
     | Some (neg, v, used) \<Rightarrow>
         (let i = (if neg then - int v else int v)
          in if int_min \<le> i \<and> i \<le> int_max then Some (i, used) else None))"

definition stoull :: "string \<Rightarrow> (nat \<times> nat) option" where
  "stoull s = (case scan_integer s of None \<Rightarrow> None
     | Some (neg, v, used) \<Rightarrow>
         if v < 2 ^ 64 then Some (if neg then nat ((- int v) mod 2 ^ 64) else v, used) else None)"

lemma takeWhile_isdigit_nat_digits [simp]: "takeWhile isdigit (nat_digits n) = nat_digits n"
  by (simp add: nat_digits_isdigit takeWhile_eq_all_conv)

lemma digit_not_space: "isdigit c \<Longrightarrow> \<not> isspace c"
  by (auto simp: isdigit_def isspace_def)

lemma nat_digits_hd: "isdigit (hd (nat_digits n))"
  by (rule nat_digits_isdigit [of _ n]) simp

lemma dropWhile_isspace_nat_digits [simp]:
  "dropWhile isspace (nat_digits n) = nat_digits n" "takeWhile isspace (nat_digits n) = []"
proof -
  obtain c cs where cs: "nat_digits n = c # cs" by (cases "nat_digits n") auto
  then have "isdigit c" using nat_digits_hd [of n] by simp
  with cs show "dropWhile isspace (nat_digits n) = nat_digits n"
    "takeWhile isspace (nat_digits n) = []"
    by (auto dest: digit_not_space)
qed

lemma scan_integer_nat_digits:
  "scan_integer (nat_digits n) = Some (False, n, length (nat_digits n))"
proof -
  have "hd (nat_digits n) \<noteq> CHR ''-''" "hd (nat_digits n) \<noteq> CHR ''+''"
    using nat_digits_hd [of n] by (auto simp: isdigit_def byte_def)
  then show ?thesis by (simp add: scan_integer_def)
qed

lemma stoull_nat_digits: "n < 2 ^ 64 \<Longrightarrow> stoull (nat_digits n) = Some (n, length (nat_digits n))"
  by (simp add: stoull_def scan_integer_nat_digits)

lemma stoi_nat_digits:
  "int n \<le> int_max \<Longrightarrow> stoi (nat_digits n) = Some (int n, length (nat_digits n))"
  by (simp add: stoi_def scan_integer_nat_digits int_min_def)

section \<open>Generic facts\<close>

lemma append_eq_sep:
  assumes "x \<notin> set a" "x \<notin> set b" "a @ x # c = b @ x # d"
  shows "a = b \<and> c = d"
proof -
  have "takeWhile (\<lambda>y. y \<noteq> x) (a @ x # c) = a" "takeWhile (\<lambda>y. y \<noteq> x) (b @ x # d) = b"
    using assms(1,2) by (auto simp: takeWhile_append intro!: takeWhile_eq_all_conv [THEN iffD2])
  with assms(3) show ?thesis by simp
qed

lemma list_all_prefix: "list_all P (xs @ ys) \<Longrightarrow> list_all P xs"
  by simp

lemma butlast_take_Suc: "length xs = Suc n \<Longrightarrow> butlast xs = take n xs"
  by (simp add: butlast_conv_take)

section \<open>Transition systems and their invariants\<close>

text \<open>
  The states a component can get into from an initial state by its steps, and the contract of an
  invariant: the initial states satisfy it and every step keeps it. The components interpret the
  locale with their own initial states, step relation and invariant.
\<close>

inductive reachable :: "('s \<Rightarrow> bool) \<Rightarrow> ('s \<Rightarrow> 's \<Rightarrow> bool) \<Rightarrow> 's \<Rightarrow> bool"
  for init :: "'s \<Rightarrow> bool" and step :: "'s \<Rightarrow> 's \<Rightarrow> bool" where
  reach_init: "init s \<Longrightarrow> reachable init step s"
| reach_step: "reachable init step s \<Longrightarrow> step s s' \<Longrightarrow> reachable init step s'"

locale invariant_system =
  fixes init :: "'s \<Rightarrow> bool" and step :: "'s \<Rightarrow> 's \<Rightarrow> bool" and inv :: "'s \<Rightarrow> bool"
  assumes inv_init: "init s \<Longrightarrow> inv s"
    and inv_preserved: "step s s' \<Longrightarrow> inv s \<Longrightarrow> inv s'"
begin

lemma reachable_inv: "reachable init step s \<Longrightarrow> inv s"
  by (induction rule: reachable.induct) (auto intro: inv_init inv_preserved)

lemma steps_inv: "step\<^sup>*\<^sup>* s s' \<Longrightarrow> inv s \<Longrightarrow> inv s'"
  by (induction rule: rtranclp_induct) (auto intro: inv_preserved)

text \<open>A property of every step from invariant states holds of every reachable step.\<close>

lemma reachable_step:
  assumes "reachable init step s" "step s s'" "\<And>s s'. inv s \<Longrightarrow> step s s' \<Longrightarrow> P s s'"
  shows "P s s'"
  using assms reachable_inv by blast

text \<open>A measured quantity that no step decreases grows along every run.\<close>

lemma steps_monotone:
  fixes f :: "'s \<Rightarrow> 'b :: preorder"
  assumes "step\<^sup>*\<^sup>* s s'" "inv s" "\<And>s s'. inv s \<Longrightarrow> step s s' \<Longrightarrow> f s \<le> f s'"
  shows "f s \<le> f s'"
  using assms(1,2)
proof (induction rule: rtranclp_induct)
  case (step y z)
  then show ?case using assms(3) [of y z] steps_inv [of s y] order_trans by blast
qed simp

end

end
