(* ===== verification/Json.thy ===== *)
theory Json
  imports Prelude "HOL-Library.AList"
begin

text \<open>
  JSON documents as the servers see them. The documents are a datatype; jsoncpp itself is not part
  of the repository, so its parser, its two serialisers and its formatting of reals are the
  components of a record that every definition using them takes as an argument. The accessors
  below follow the documented behaviour of \<^verbatim>\<open>Json::Value\<close>: \<^term>\<open>None\<close> is a
  thrown \<^verbatim>\<open>Json::Exception\<close>, and reading a member of anything but an object or null
  throws. The order of an object's members is visible to the serialisers only.
\<close>

datatype json =
    JNull
  | JBool bool
  | JInt int
  | JReal rat
  | JStr string
  | JArr "json list"
  | JObj "(string \<times> json) list"

text \<open>
  \<^verbatim>\<open>Reader::parse\<close> returns whether the text was accepted and fills the document even
  when it was not; \<^verbatim>\<open>toStyledString\<close> and \<^verbatim>\<open>writeString\<close> (no indentation) are
  the serialisers.
\<close>

record jsoncpp =
  parse :: "string \<Rightarrow> bool \<times> json"
  toStyledString :: "json \<Rightarrow> string"
  writeString :: "json \<Rightarrow> string"
  realToString :: "rat \<Rightarrow> string"

section \<open>Type tests\<close>

definition isNull :: "json \<Rightarrow> bool" where "isNull v \<longleftrightarrow> v = JNull"

fun isBool :: "json \<Rightarrow> bool" where
  "isBool (JBool _) = True"
| "isBool _ = False"

fun isString :: "json \<Rightarrow> bool" where
  "isString (JStr _) = True"
| "isString _ = False"

fun isArray :: "json \<Rightarrow> bool" where
  "isArray (JArr _) = True"
| "isArray _ = False"

fun isObject :: "json \<Rightarrow> bool" where
  "isObject (JObj _) = True"
| "isObject _ = False"

definition in_int_range :: "int \<Rightarrow> bool" where
  "in_int_range i \<longleftrightarrow> int_min \<le> i \<and> i \<le> int_max"

fun isInt :: "json \<Rightarrow> bool" where
  "isInt (JInt i) = in_int_range i"
| "isInt (JReal r) = (rat_of_int \<lfloor>r\<rfloor> = r \<and> in_int_range \<lfloor>r\<rfloor>)"
| "isInt _ = False"

fun isUInt64 :: "json \<Rightarrow> bool" where
  "isUInt64 (JInt i) = (0 \<le> i \<and> i < 2 ^ 64)"
| "isUInt64 (JReal r) = (rat_of_int \<lfloor>r\<rfloor> = r \<and> 0 \<le> r \<and> r < 2 ^ 64)"
| "isUInt64 _ = False"

section \<open>Conversions\<close>

definition trunc_rat :: "rat \<Rightarrow> int" where
  "trunc_rat r = (if 0 \<le> r then \<lfloor>r\<rfloor> else \<lceil>r\<rceil>)"

fun asInt :: "json \<Rightarrow> int option" where
  "asInt (JInt i) = (if in_int_range i then Some i else None)"
| "asInt (JReal r) =
     (if rat_of_int int_min \<le> r \<and> r \<le> rat_of_int int_max then Some (trunc_rat r) else None)"
| "asInt JNull = Some 0"
| "asInt (JBool b) = Some (if b then 1 else 0)"
| "asInt _ = None"

fun asUInt64 :: "json \<Rightarrow> nat option" where
  "asUInt64 (JInt i) = (if 0 \<le> i \<and> i < 2 ^ 64 then Some (nat i) else None)"
| "asUInt64 (JReal r) = (if 0 \<le> r \<and> r < 2 ^ 64 then Some (nat \<lfloor>r\<rfloor>) else None)"
| "asUInt64 JNull = Some 0"
| "asUInt64 (JBool b) = Some (if b then 1 else 0)"
| "asUInt64 _ = None"

fun asString :: "jsoncpp \<Rightarrow> json \<Rightarrow> string option" where
  "asString J (JStr s) = Some s"
| "asString J JNull = Some []"
| "asString J (JBool b) = Some (if b then ''true'' else ''false'')"
| "asString J (JInt i) = Some (to_string i)"
| "asString J (JReal r) = Some (realToString J r)"
| "asString J _ = None"

fun asBool :: "json \<Rightarrow> bool option" where
  "asBool (JBool b) = Some b"
| "asBool JNull = Some False"
| "asBool (JInt i) = Some (i \<noteq> 0)"
| "asBool (JReal r) = Some (r \<noteq> 0)"
| "asBool _ = None"

text \<open>The text of a value that \<^const>\<open>isString\<close> accepted.\<close>

fun str_of :: "json \<Rightarrow> string" where
  "str_of (JStr s) = s"
| "str_of _ = []"

text \<open>The number of a value that \<^const>\<open>isInt\<close> accepted.\<close>

fun int_of_json :: "json \<Rightarrow> int" where
  "int_of_json (JInt i) = i"
| "int_of_json (JReal r) = \<lfloor>r\<rfloor>"
| "int_of_json _ = 0"

lemma asString_isString [simp]: "isString v \<Longrightarrow> asString J v = Some (str_of v)"
  by (cases v) simp_all

lemma asInt_isInt [simp]: "isInt v \<Longrightarrow> asInt v = Some (int_of_json v)"
proof (cases v)
  case (JReal r)
  assume "isInt v"
  then have r: "rat_of_int \<lfloor>r\<rfloor> = r" and b: "in_int_range \<lfloor>r\<rfloor>" using JReal by simp_all
  have "rat_of_int int_min \<le> rat_of_int \<lfloor>r\<rfloor> \<and> rat_of_int \<lfloor>r\<rfloor> \<le> rat_of_int int_max"
    using b by (simp add: in_int_range_def)
  moreover have "trunc_rat r = \<lfloor>r\<rfloor>"
    using r by (metis trunc_rat_def ceiling_of_int)
  ultimately show ?thesis using JReal r by simp
qed (simp_all)

section \<open>Containers\<close>

fun elements :: "json \<Rightarrow> json list" where
  "elements (JArr xs) = xs"
| "elements (JObj kvs) = map snd kvs"
| "elements _ = []"

definition jsize :: "json \<Rightarrow> nat" where
  "jsize v = length (elements v)"

text \<open>\<^verbatim>\<open>Value::empty\<close>: null and containers without elements.\<close>

fun jempty :: "json \<Rightarrow> bool" where
  "jempty JNull = True"
| "jempty (JArr xs) = (xs = [])"
| "jempty (JObj kvs) = (kvs = [])"
| "jempty _ = False"

fun jfind :: "json \<Rightarrow> string \<Rightarrow> json option" where
  "jfind (JObj kvs) k = map_of kvs k"
| "jfind _ k = None"

text \<open>
  On a value known to be an object or null: \<^verbatim>\<open>isMember\<close>, \<^verbatim>\<open>get\<close> with a
  default and \<^verbatim>\<open>operator[]\<close>. On a value of unknown type, \<open>index_const\<close> is the
  constant \<^verbatim>\<open>operator[]\<close>, which throws on anything but an object or null.
\<close>

definition isMember :: "json \<Rightarrow> string \<Rightarrow> bool" where
  "isMember v k \<longleftrightarrow> jfind v k \<noteq> None"

definition get_default :: "json \<Rightarrow> string \<Rightarrow> json \<Rightarrow> json" where
  "get_default v k d = (case jfind v k of Some x \<Rightarrow> x | None \<Rightarrow> d)"

definition index :: "json \<Rightarrow> string \<Rightarrow> json" where
  "index v k = get_default v k JNull"

definition object_like :: "json \<Rightarrow> bool" where
  "object_like v \<longleftrightarrow> isNull v \<or> isObject v"

definition index_const :: "json \<Rightarrow> string \<Rightarrow> json option" where
  "index_const v k = (if object_like v then Some (index v k) else None)"

definition get_const :: "json \<Rightarrow> string \<Rightarrow> json \<Rightarrow> json option" where
  "get_const v k d = (if object_like v then Some (get_default v k d) else None)"

text \<open>Building a document: member assignment, \<^verbatim>\<open>append\<close>, \<^verbatim>\<open>removeMember\<close>.\<close>

fun set_member :: "string \<Rightarrow> json \<Rightarrow> json \<Rightarrow> json" where
  "set_member k x (JObj kvs) = JObj (AList.update k x kvs)"
| "set_member k x _ = JObj [(k, x)]"

definition set_members :: "(string \<times> json) list \<Rightarrow> json \<Rightarrow> json" where
  "set_members kvs v = fold (\<lambda>(k, x). set_member k x) kvs v"

fun jappend :: "json \<Rightarrow> json \<Rightarrow> json" where
  "jappend (JArr xs) x = JArr (xs @ [x])"
| "jappend _ x = JArr [x]"

fun removeMember :: "string \<Rightarrow> json \<Rightarrow> json" where
  "removeMember k (JObj kvs) = JObj (AList.delete k kvs)"
| "removeMember k v = v"

lemma jfind_set_member [simp]:
  "isObject v \<or> v = JNull \<Longrightarrow> jfind (set_member k x v) k' = (if k' = k then Some x else jfind v k')"
  by (cases v) (auto simp: update_conv' map_upd_Some_unfold)

lemma isObject_set_member [simp]: "isObject (set_member k x v)"
  by (cases v) simp_all

lemma isObject_set_members [simp]: "isObject v \<Longrightarrow> isObject (set_members kvs v)"
  unfolding set_members_def by (induction kvs arbitrary: v) auto

lemma index_set_member [simp]:
  "isObject v \<Longrightarrow> index (set_member k x v) k' = (if k' = k then x else index v k')"
  by (simp add: index_def get_default_def)

lemma set_members_Nil [simp]: "set_members [] v = v"
  by (simp add: set_members_def)

lemma set_members_Cons [simp]: "set_members ((k, x) # kvs) v = set_members kvs (set_member k x v)"
  by (simp add: set_members_def)

lemma isMember_object: "isMember v k \<Longrightarrow> isObject v"
  by (cases v) (simp_all add: isMember_def)

end
