(* ===== verification/Contract.thy ===== *)
theory Contract
  imports Json
begin

text \<open>
  The small header-only policies of the chat servers: request envelopes
  (\<^verbatim>\<open>RequestContract.h\<close>), device slots and credential prefixes
  (\<^verbatim>\<open>ServicePolicy.h\<close>), contact tags and remarks (\<^verbatim>\<open>ContactTags.h\<close>) and the
  chunked login snapshot (\<^verbatim>\<open>LoginSnapshot.h\<close>).
\<close>

section \<open>Request envelopes\<close>

definition ValidId :: "json \<Rightarrow> bool" where
  "ValidId i \<longleftrightarrow> isString i \<and> str_of i \<noteq> [] \<and> length (str_of i) \<le> 64"

definition ParseRequest :: "jsoncpp \<Rightarrow> string \<Rightarrow> bool \<times> json" where
  "ParseRequest J text =
     (let (ok, request) = parse J text
      in (ok \<and> isObject request \<and>
            (\<not> isMember request ''request_id'' \<or> ValidId (index request ''request_id'')),
          request))"

definition EchoId :: "json \<Rightarrow> json \<Rightarrow> json" where
  "EchoId request response =
     (if isObject request \<and> ValidId (index request ''request_id'')
      then set_member ''request_id'' (index request ''request_id'') response else response)"

lemma isObject_EchoId [simp]: "isObject v \<Longrightarrow> isObject (EchoId r v)"
  by (simp add: EchoId_def)

lemma index_EchoId_other [simp]:
  "isObject v \<Longrightarrow> k \<noteq> ''request_id'' \<Longrightarrow> index (EchoId r v) k = index v k"
  by (simp add: EchoId_def)

lemma ParseRequest_object: "ParseRequest J text = (True, r) \<Longrightarrow> isObject r"
  by (auto simp: ParseRequest_def split: prod.splits)

section \<open>Devices and credential keys\<close>

definition PendingTokenPrefix :: string where "PendingTokenPrefix = ''utoken_''"
definition ActiveTokenPrefix :: string where "ActiveTokenPrefix = ''resource_token_''"
definition NodeHealthPrefix :: string where "NodeHealthPrefix = ''chat_node_''"
definition PendingTokenSeconds :: int where "PendingTokenSeconds = 300"
definition ActiveSessionSeconds :: int where "ActiveSessionSeconds = 3600"
definition NodeLeaseSeconds :: int where "NodeLeaseSeconds = 30"

definition USER_IP_PREFIX :: string where "USER_IP_PREFIX = ''uip_''"
definition USER_BASE_INFO :: string where "USER_BASE_INFO = ''ubaseinfo_''"
definition NAME_INFO :: string where "NAME_INFO = ''nameinfo_''"
definition LOCK_PREFIX :: string where "LOCK_PREFIX = ''lock_''"
definition USER_SESSION_PREFIX :: string where "USER_SESSION_PREFIX = ''usession_''"
definition RESOURCE_TOKEN_PREFIX :: string where "RESOURCE_TOKEN_PREFIX = ''resource_token_''"

definition ValidDevice :: "string \<Rightarrow> bool" where
  "ValidDevice device \<longleftrightarrow> device = ''desktop'' \<or> device = ''android''"

definition DeviceKey :: "int \<Rightarrow> string \<Rightarrow> string" where
  "DeviceKey uid device = to_string uid @ (if device = ''android'' then '':android'' else [])"

lemma DeviceKey_inj:
  assumes "ValidDevice d" "ValidDevice d'"
  shows "(DeviceKey u d = DeviceKey u' d') = (u = u' \<and> d = d')"
proof -
  have no: "to_string a \<noteq> to_string b @ '':android''" for a b
  proof
    assume "to_string a = to_string b @ '':android''"
    then have "CHR '':'' \<in> set (to_string a)" by simp
    then show False by simp
  qed
  show ?thesis
    using assms no [of u u'] no [of u' u]
    by (auto simp: DeviceKey_def ValidDevice_def dest: sym)
qed

section \<open>Contact tags and remarks\<close>

definition tag_blank :: "char \<Rightarrow> bool" where
  "tag_blank c \<longleftrightarrow> byte c = 32 \<or> byte c = 9 \<or> byte c = 13 \<or> byte c = 10"

text \<open>The two searches and the \<^verbatim>\<open>substr\<close> that cut blanks off both ends.\<close>

definition trim_tag :: "string \<Rightarrow> string" where
  "trim_tag text = rev (dropWhile tag_blank (rev (dropWhile tag_blank text)))"

fun normalize_tags :: "json list \<Rightarrow> string list \<Rightarrow> bool \<times> string list" where
  "normalize_tags [] tags = (True, tags)"
| "normalize_tags (item # rest) tags =
     (if \<not> isString item then (False, tags)
      else let text = trim_tag (str_of item) in
        if list_all tag_blank (str_of item) then (False, tags)
        else if length text > 128 then (False, tags)
        else if list_ex (\<lambda>c. byte c < 32) text then (False, tags)
        else normalize_tags rest (if text \<in> set tags then tags else tags @ [text]))"

text \<open>The result and the output array, which keeps what was accepted before a failure.\<close>

definition NormalizeContactTags :: "json \<Rightarrow> bool \<times> json" where
  "NormalizeContactTags input =
     (if \<not> isArray input \<or> jsize input > 12 then (False, JArr [])
      else let (ok, tags) = normalize_tags (elements input) [] in (ok, JArr (map JStr tags)))"

definition SerializeContactTags :: "jsoncpp \<Rightarrow> json \<Rightarrow> string" where
  "SerializeContactTags J tags = writeString J tags"

definition ValidContactRemark :: "json \<Rightarrow> bool" where
  "ValidContactRemark value \<longleftrightarrow>
     isString value \<and>
     (let text = str_of value in
        length text \<le> 256 \<and> \<not> list_ex (\<lambda>c. byte c < 32 \<or> byte c = 127) text \<and>
        length (filter (\<lambda>c. byte c div 64 \<noteq> 2) text) \<le> 64)"

definition ParseContactTags :: "jsoncpp \<Rightarrow> string \<Rightarrow> json" where
  "ParseContactTags J text =
     (let (ok, input) = parse J text
      in if ok then snd (NormalizeContactTags input) else JArr [])"

text \<open>What a normalised tag looks like.\<close>

definition good_tag :: "string \<Rightarrow> bool" where
  "good_tag t \<longleftrightarrow> t \<noteq> [] \<and> \<not> tag_blank (hd t) \<and> \<not> tag_blank (last t) \<and> length t \<le> 128 \<and>
     list_all (\<lambda>c. 32 \<le> byte c) t"

lemma trim_tag_Nil: "trim_tag t = [] \<longleftrightarrow> list_all tag_blank t"
proof
  assume "trim_tag t = []"
  then have all: "\<forall>c \<in> set (dropWhile tag_blank t). tag_blank c"
    unfolding trim_tag_def rev_is_Nil_conv dropWhile_eq_Nil_conv set_rev .
  have "dropWhile tag_blank t = []"
    using all hd_dropWhile [of tag_blank t] hd_in_set by blast
  then show "list_all tag_blank t" by (simp add: dropWhile_eq_Nil_conv list_all_iff)
next
  assume "list_all tag_blank t"
  then have "dropWhile tag_blank t = []" by (simp add: dropWhile_eq_Nil_conv list_all_iff)
  then show "trim_tag t = []" unfolding trim_tag_def by (simp only: rev.simps dropWhile.simps)
qed

lemma last_trim_tag: "trim_tag t \<noteq> [] \<Longrightarrow> \<not> tag_blank (last (trim_tag t))"
  unfolding trim_tag_def by (simp add: last_rev hd_dropWhile)

lemma hd_trim_tag: "trim_tag t \<noteq> [] \<Longrightarrow> \<not> tag_blank (hd (trim_tag t))"
proof -
  define d where "d = dropWhile tag_blank t"
  assume ne: "trim_tag t \<noteq> []"
  then have dne: "d \<noteq> []" unfolding trim_tag_def d_def by (metis dropWhile.simps(1) rev.simps(1))
  have eq: "trim_tag t = rev (dropWhile tag_blank (rev d))" by (simp add: trim_tag_def d_def)
  obtain ys where ys: "d = trim_tag t @ ys"
    by (metis eq takeWhile_dropWhile_id rev_append rev_rev_ident)
  then have "hd (trim_tag t) = hd d" using ne by simp
  then show ?thesis using dne hd_dropWhile [of tag_blank t] by (simp add: d_def)
qed

lemma trim_tag_good: "good_tag t \<Longrightarrow> trim_tag t = t"
proof -
  assume g: "good_tag t"
  then have "dropWhile tag_blank t = t" by (cases t) (auto simp: good_tag_def)
  moreover have "dropWhile tag_blank (rev t) = rev t"
    using g by (cases "rev t") (auto simp: good_tag_def last_rev hd_rev [symmetric])
  ultimately show ?thesis by (simp add: trim_tag_def)
qed

lemma normalize_tags_good:
  assumes "normalize_tags items tags = (ok, out)" "distinct tags" "list_all good_tag tags"
  shows "distinct out \<and> list_all good_tag out \<and> length out \<le> length tags + length items"
  using assms
proof (induction items tags arbitrary: ok out rule: normalize_tags.induct)
  case (1 tags)
  then show ?case by simp
next
  case (2 item rest tags)
  define tg where "tg = trim_tag (str_of item)"
  show ?case
  proof (cases "isString item \<and> \<not> list_all tag_blank (str_of item) \<and> length tg \<le> 128 \<and>
      \<not> list_ex (\<lambda>c. byte c < 32) tg")
    case False
    with "2.prems" show ?thesis
      by (auto simp: Let_def tg_def split: if_splits)
  next
    case True
    define tags' where "tags' = (if tg \<in> set tags then tags else tags @ [tg])"
    have ne: "tg \<noteq> []" using True trim_tag_Nil [of "str_of item"] by (simp add: tg_def)
    then have "good_tag tg"
      using True hd_trim_tag [of "str_of item"] last_trim_tag [of "str_of item"]
      by (simp add: good_tag_def tg_def [symmetric] list_all_iff list_ex_iff not_less)
    then have t': "distinct tags'" "list_all good_tag tags'" "length tags' \<le> Suc (length tags)"
      using "2.prems" by (auto simp: tags'_def)
    have rec: "normalize_tags rest tags' = (ok, out)"
      using "2.prems"(1) True by (simp add: Let_def tg_def tags'_def not_less split: if_splits)
    have "distinct out \<and> list_all good_tag out \<and> length out \<le> length tags' + length rest"
      using "2.IH" [of tg ok out] True rec t' unfolding tags'_def tg_def by (simp add: not_less)
    then show ?thesis using t'(3) by simp
  qed
qed

lemma normalize_good_id:
  "distinct (acc @ ts) \<Longrightarrow> list_all good_tag ts \<Longrightarrow>
    normalize_tags (map JStr ts) acc = (True, acc @ ts)"
proof (induction ts arbitrary: acc)
  case (Cons t ts)
  then have g: "good_tag t" by simp
  then have "trim_tag t = t" "\<not> list_all tag_blank t" "\<not> length t > 128"
    "\<not> list_ex (\<lambda>c. byte c < 32) t" "t \<notin> set acc"
    using Cons.prems trim_tag_good [OF g]
    by (auto simp: good_tag_def list_all_iff list_ex_iff not_less)
  with Cons show ?case by (simp add: Let_def)
qed simp

lemma NormalizeContactTags_shape:
  assumes "NormalizeContactTags input = (ok, tags)"
  shows "\<exists>ts. tags = JArr (map JStr ts) \<and> distinct ts \<and> list_all good_tag ts \<and> length ts \<le> 12"
proof (cases "\<not> isArray input \<or> jsize input > 12")
  case True
  with assms show ?thesis by (auto simp: NormalizeContactTags_def intro: exI [of _ "[]"])
next
  case False
  obtain b ts where n: "normalize_tags (elements input) [] = (b, ts)" by (metis surj_pair)
  have "distinct ts \<and> list_all good_tag ts \<and> length ts \<le> length (elements input)"
    using normalize_tags_good [OF n] by simp
  then show ?thesis using False assms n by (auto simp: NormalizeContactTags_def jsize_def)
qed

text \<open>Whatever document a client or a database row holds, the tags that
  \<^verbatim>\<open>NormalizeContactTags\<close> hands on are at most twelve distinct strings, each non-empty,
  without blanks at either end, at most 128 bytes long and free of control characters; and
  normalising them again accepts them unchanged.\<close>

theorem normalized_contact_tags:
  assumes "NormalizeContactTags input = (ok, tags)"
  shows "\<exists>ts. tags = JArr (map JStr ts) \<and> distinct ts \<and> length ts \<le> 12 \<and>
     (\<forall>t \<in> set ts. t \<noteq> [] \<and> \<not> tag_blank (hd t) \<and> \<not> tag_blank (last t) \<and> length t \<le> 128 \<and>
        (\<forall>c \<in> set t. 32 \<le> byte c)) \<and>
     NormalizeContactTags tags = (True, tags)"
proof -
  obtain ts where ts: "tags = JArr (map JStr ts)" "distinct ts" "list_all good_tag ts" "length ts \<le> 12"
    using NormalizeContactTags_shape [OF assms] by blast
  have "NormalizeContactTags tags = (True, tags)"
    using ts normalize_good_id [of "[]" ts] by (simp add: NormalizeContactTags_def jsize_def)
  then show ?thesis using ts by (auto simp: list_all_iff good_tag_def)
qed

theorem normalized_contact_tags_witness:
  "NormalizeContactTags (JArr [JStr '' work '', JStr ''work'', JStr ''a b'']) =
     (True, JArr [JStr ''work'', JStr ''a b'']) \<and>
   NormalizeContactTags (JArr [JStr ''work'', JStr ''a b'']) = (True, JArr [JStr ''work'', JStr ''a b''])"
proof -
  have n: "NormalizeContactTags (JArr [JStr '' work '', JStr ''work'', JStr ''a b'']) =
     (True, JArr [JStr ''work'', JStr ''a b''])"
    by (simp add: NormalizeContactTags_def jsize_def trim_tag_def tag_blank_def byte_def)
  then show ?thesis using normalized_contact_tags [OF n] by blast
qed

end
