(* ===== verification/Wire.thy ===== *)
theory Wire
  imports Contract
begin

text \<open>
  Frames on a chat connection: \<^verbatim>\<open>MsgNode.cpp\<close> (buffers whose lengths are C++
  \<^verbatim>\<open>short\<close>s, here \<^typ>\<open>16 word\<close>) and the reading half of \<^verbatim>\<open>CSession.cpp\<close>
  (\<^verbatim>\<open>AsyncReadHead\<close>, \<^verbatim>\<open>AsyncReadBody\<close>, \<^verbatim>\<open>AsyncReadFull\<close>,
  \<^verbatim>\<open>AsyncReadLength\<close>). A completion of \<^verbatim>\<open>async_read_some\<close> is an event; what the
  rest of the server answers while it is handled (whether the session was closed, whether the
  server is stopping, whether the logic queue took the request) is part of the event. Writing
  outside a buffer is the error \<open>OutOfBounds\<close>.
\<close>

section \<open>Message nodes\<close>

datatype node_error = InvalidArgument | OutOfBounds

definition size_t_of :: "16 word \<Rightarrow> nat" where
  "size_t_of w = (if sint w < 0 then nat (2 ^ 64 + sint w) else nat (sint w))"

definition memcpy :: "string \<Rightarrow> nat \<Rightarrow> string \<Rightarrow> nat \<Rightarrow> node_error + string" where
  "memcpy dst off src n =
     (if off + n \<le> length dst \<and> n \<le> length src
      then Inr (take off dst @ take n src @ drop (off + n) dst) else Inl OutOfBounds)"

definition host_to_network_short :: "16 word \<Rightarrow> string" where
  "host_to_network_short w = [char_of (unat w div 256), char_of (unat w mod 256)]"

definition network_to_host_short :: "string \<Rightarrow> 16 word" where
  "network_to_host_short bs = word_of_nat (256 * byte (bs ! 0) + byte (bs ! 1))"

record msg_node =
  cur_len :: "16 word"
  total_len :: "16 word"
  node_data :: string

record recv_node = msg_node +
  recv_msg_id :: "16 word"

record send_node = msg_node +
  send_msg_id :: "16 word"

definition MsgNode :: "16 word \<Rightarrow> node_error + msg_node" where
  "MsgNode max_length =
     (if sint max_length \<le> 0 then Inl InvalidArgument
      else Inr \<lparr>cur_len = 0, total_len = max_length,
                node_data = replicate (size_t_of max_length + 1) (char_of (0 :: nat))\<rparr>)"

definition Clear :: "msg_node \<Rightarrow> msg_node" where
  "Clear n = n\<lparr>cur_len := 0,
     node_data := replicate (size_t_of (total_len n)) (char_of (0 :: nat)) @ drop (size_t_of (total_len n)) (node_data n)\<rparr>"

definition RecvNode :: "16 word \<Rightarrow> 16 word \<Rightarrow> node_error + recv_node" where
  "RecvNode max_length message_id =
     (case MsgNode max_length of Inl e \<Rightarrow> Inl e
      | Inr n \<Rightarrow> Inr \<lparr>cur_len = cur_len n, total_len = total_len n, node_data = node_data n,
                      recv_msg_id = message_id\<rparr>)"

definition SendNode :: "string \<Rightarrow> 16 word \<Rightarrow> 16 word \<Rightarrow> node_error + send_node" where
  "SendNode message message_length message_id =
     (case MsgNode (message_length + of_nat HEAD_TOTAL_LEN) of Inl e \<Rightarrow> Inl e
      | Inr n \<Rightarrow>
     (case memcpy (node_data n) 0 (host_to_network_short message_id) HEAD_ID_LEN of Inl e \<Rightarrow> Inl e
      | Inr d1 \<Rightarrow>
     (case memcpy d1 HEAD_ID_LEN (host_to_network_short message_length) HEAD_DATA_LEN of Inl e \<Rightarrow> Inl e
      | Inr d2 \<Rightarrow>
     (case memcpy d2 HEAD_TOTAL_LEN message (size_t_of message_length) of Inl e \<Rightarrow> Inl e
      | Inr d3 \<Rightarrow> Inr \<lparr>cur_len = cur_len n, total_len = total_len n, node_data = d3,
                       send_msg_id = message_id\<rparr>))))"

text \<open>What \<^verbatim>\<open>async_write\<close> puts on the socket: \<^verbatim>\<open>_total_len\<close> bytes of the node.\<close>

definition wire_bytes :: "send_node \<Rightarrow> string" where
  "wire_bytes n = take (size_t_of (total_len n)) (node_data n)"

section \<open>The reader\<close>

datatype stage = Header | Body

record reader =
  buffer :: string
  stage_of :: stage
  read_length :: nat
  total_length :: nat
  receive_header_node :: msg_node
  receive_message_node :: "recv_node option"

record completion =
  failed :: bool
  received :: string
  session_closed :: bool
  stopping :: bool
  posted :: bool
  stopping_after :: bool

text \<open>
  What a completion leads to: another pending read, no further read (the server is stopping), a
  closed session, or a write outside a buffer; the request that the logic queue took; and whether
  the heartbeat was refreshed.
\<close>

datatype reading = Reading reader | Stopped | Closed | Fault

record read_result =
  outcome :: reading
  request :: "recv_node option"
  heartbeat :: bool

definition quiet :: "reading \<Rightarrow> read_result" where
  "quiet out = \<lparr>outcome = out, request = None, heartbeat = False\<rparr>"

definition AsyncReadFull :: "nat \<Rightarrow> stage \<Rightarrow> reader \<Rightarrow> reader" where
  "AsyncReadFull len st r =
     r\<lparr>buffer := replicate (length (buffer r)) (char_of (0 :: nat)), stage_of := st,
       read_length := 0, total_length := len\<rparr>"

definition AsyncReadHead :: "reader \<Rightarrow> reader" where
  "AsyncReadHead r = AsyncReadFull HEAD_TOTAL_LEN Header r"

definition head_complete :: "bool \<Rightarrow> nat \<Rightarrow> reader \<Rightarrow> reading" where
  "head_complete err bytes r =
     (if err then Closed
      else if bytes \<noteq> HEAD_TOTAL_LEN then Closed
      else case memcpy (node_data (Clear (receive_header_node r))) 0 (buffer r) HEAD_TOTAL_LEN of
        Inl e \<Rightarrow> Fault
      | Inr d \<Rightarrow>
         (let header = (Clear (receive_header_node r))\<lparr>node_data := d\<rparr>;
              message_id = network_to_host_short (take HEAD_ID_LEN d);
              message_length = network_to_host_short (take HEAD_DATA_LEN (drop HEAD_ID_LEN d))
          in if sint message_id \<le> 0 \<or> sint message_length \<le> 0 \<or> size_t_of message_length > MAX_LENGTH
             then Closed
             else (case RecvNode message_length message_id of Inl e \<Rightarrow> Fault
               | Inr m \<Rightarrow> Reading (AsyncReadFull (size_t_of message_length) Body
                   (r\<lparr>receive_header_node := header, receive_message_node := Some m\<rparr>)))))"

definition body_complete :: "bool \<Rightarrow> nat \<Rightarrow> completion \<Rightarrow> reader \<Rightarrow> read_result" where
  "body_complete err bytes c r =
     (if err then quiet Closed
      else if bytes \<noteq> total_length r then quiet Closed
      else case receive_message_node r of None \<Rightarrow> quiet Fault
      | Some m \<Rightarrow>
        (case memcpy (node_data m) 0 (buffer r) bytes of Inl e \<Rightarrow> quiet Fault
         | Inr d \<Rightarrow>
          (if total_length r \<ge> length d then quiet Fault
           else let m' = m\<lparr>node_data := d[total_length r := char_of (0 :: nat)], cur_len := of_nat bytes\<rparr>
             in if stopping c then \<lparr>outcome = Stopped, request = None, heartbeat = True\<rparr>
                else if \<not> posted c
                then \<lparr>outcome = (if stopping_after c then Stopped else Closed), request = None, heartbeat = True\<rparr>
                else \<lparr>outcome = Reading (AsyncReadHead (r\<lparr>receive_message_node := Some m'\<rparr>)),
                      request = Some m', heartbeat = True\<rparr>)))"

definition read_handler :: "bool \<Rightarrow> nat \<Rightarrow> completion \<Rightarrow> reader \<Rightarrow> read_result" where
  "read_handler err bytes c r =
     (case stage_of r of Header \<Rightarrow> quiet (head_complete err bytes r)
      | Body \<Rightarrow> body_complete err bytes c r)"

text \<open>
  \<^verbatim>\<open>AsyncReadLength\<close>: \<^verbatim>\<open>async_read_some\<close> stores the received bytes behind those
  already read, then its handler runs.
\<close>

definition AsyncReadLength :: "completion \<Rightarrow> reader \<Rightarrow> read_result" where
  "AsyncReadLength c r =
     (case memcpy (buffer r) (read_length r) (received c) (length (received c)) of
        Inl e \<Rightarrow> quiet Fault
      | Inr d \<Rightarrow>
         (let r' = r\<lparr>buffer := d\<rparr>; completed = read_length r + length (received c)
          in if session_closed c then read_handler True completed c r'
             else if failed c \<or> completed \<ge> total_length r then read_handler (failed c) completed c r'
             else quiet (Reading (r'\<lparr>read_length := completed\<rparr>))))"

text \<open>A connection's reads: the completions in order, until no read is pending.\<close>

fun read_all :: "completion list \<Rightarrow> reader \<Rightarrow> reading \<times> recv_node list" where
  "read_all [] r = (Reading r, [])"
| "read_all (c # cs) r =
     (let res = AsyncReadLength c r; now = (case request res of None \<Rightarrow> [] | Some m \<Rightarrow> [m]) in
      case outcome res of
        Reading r' \<Rightarrow> (let (out, ms) = read_all cs r' in (out, now @ ms))
      | out \<Rightarrow> (out, now))"

text \<open>\<^verbatim>\<open>async_read_some\<close> never transfers more than the buffer it was given.\<close>

fun within_buffer :: "completion list \<Rightarrow> reader \<Rightarrow> bool" where
  "within_buffer [] r = True"
| "within_buffer (c # cs) r =
     (read_length r + length (received c) \<le> total_length r \<and>
      (case outcome (AsyncReadLength c r) of Reading r' \<Rightarrow> within_buffer cs r' | _ \<Rightarrow> True))"

text \<open>The reader a new session starts with (\<^verbatim>\<open>CSession::Start\<close>).\<close>

definition initial_reader :: reader where
  "initial_reader = AsyncReadHead
     \<lparr>buffer = replicate MAX_LENGTH (char_of (0 :: nat)), stage_of = Header, read_length = 0,
      total_length = 0,
      receive_header_node = \<lparr>cur_len = 0, total_len = of_nat HEAD_TOTAL_LEN,
        node_data = replicate (HEAD_TOTAL_LEN + 1) (char_of (0 :: nat))\<rparr>,
      receive_message_node = None\<rparr>"

section \<open>Shorts on the wire\<close>

lemma byte_char_of [simp]: "n < 256 \<Longrightarrow> byte (char_of n) = n"
  by (simp add: byte_def)

lemma byte_less [simp]: "byte c < 256"
  unfolding byte_def by (metis of_char_mod_256 mod_less_divisor zero_less_numeral)

lemma char_of_byte [simp]: "char_of (byte c) = c"
  by (simp add: byte_def)

lemma unat_short: "unat (w :: 16 word) < 65536"
  using unsigned_less [of w, where ?'a = nat] by simp

lemma short_bytes [simp]: "length (host_to_network_short w) = 2"
  by (simp add: host_to_network_short_def)

lemma unat_of_short: "n < 65536 \<Longrightarrow> unat (word_of_nat n :: 16 word) = n"
  by (simp add: unat_of_nat)

lemma network_host_short [simp]: "network_to_host_short (host_to_network_short w @ bs) = w"
proof -
  have "unat w div 256 < 256" using unat_short [of w] by simp
  then have "256 * byte (char_of (unat w div 256)) + byte (char_of (unat w mod 256)) = unat w"
    by (simp only: byte_char_of mod_less_divisor zero_less_numeral mult_div_mod_eq)
  then show ?thesis
    unfolding network_to_host_short_def host_to_network_short_def
    by (metis append_Cons nth_Cons_0 nth_Cons_Suc One_nat_def word_unat_eq_iff unat_of_short unat_short)
qed

lemma host_network_short:
  "length bs = 2 \<Longrightarrow> host_to_network_short (network_to_host_short bs) = bs"
proof -
  assume "length bs = 2"
  then obtain a b where bs: "bs = [a, b]"
    by (metis length_0_conv length_Suc_conv numeral_2_eq_2)
  have "256 * byte a + byte b < 65536" using byte_less [of a] byte_less [of b] by linarith
  then have "unat (word_of_nat (256 * byte a + byte b) :: 16 word) = 256 * byte a + byte b"
    by (rule unat_of_short)
  then have "host_to_network_short (network_to_host_short bs) =
      [char_of ((256 * byte a + byte b) div 256), char_of ((256 * byte a + byte b) mod 256)]"
    unfolding host_to_network_short_def network_to_host_short_def bs nth_Cons_0 One_nat_def
      nth_Cons_Suc by (simp only:)
  also have "\<dots> = bs"
    using byte_less [of b] by (simp add: bs del: byte_less)
  finally show ?thesis .
qed

lemma sint_short_shift: "sint (w :: 16 word) = (int (unat w) + 32768) mod 65536 - 32768"
  by (simp add: sint_uint signed_take_bit_eq_take_bit_shift take_bit_int_def)

lemma sint_short: "unat (w :: 16 word) < 32768 \<Longrightarrow> sint w = int (unat w)"
  unfolding sint_short_shift by (subst mod_pos_pos_trivial) linarith+

lemma shift_mod_neg: "32768 \<le> n \<Longrightarrow> n < 65536 \<Longrightarrow> (n + 32768) mod 65536 - 32768 < (0 :: int)"
  using mod_add_self2 [of "n - 32768" 65536] by (simp add: add.commute)

lemma sint_short_neg: "32768 \<le> unat (w :: 16 word) \<Longrightarrow> sint w < 0"
  unfolding sint_short_shift using unat_short [of w] by (intro shift_mod_neg) linarith+

lemma size_t_short: "0 < sint w \<Longrightarrow> size_t_of w = unat w \<and> sint w = int (unat w) \<and> unat w < 32768 \<and> 0 < unat w"
  using sint_short [of w] sint_short_neg [of w] by (cases "unat w < 32768") (auto simp: size_t_of_def simp del: of_nat_unat)

section \<open>The byte stream as a sequence of frames\<close>

text \<open>What a stream of bytes means: the requests it carries, and whether a header was refused.\<close>

definition header_id :: "string \<Rightarrow> 16 word" where
  "header_id h = network_to_host_short (take HEAD_ID_LEN h)"

definition header_len :: "string \<Rightarrow> 16 word" where
  "header_len h = network_to_host_short (take HEAD_DATA_LEN (drop HEAD_ID_LEN h))"

definition header_ok :: "string \<Rightarrow> bool" where
  "header_ok h \<longleftrightarrow> 0 < sint (header_id h) \<and> 0 < sint (header_len h) \<and> unat (header_len h) \<le> MAX_LENGTH"

function parse_frames :: "string \<Rightarrow> (16 word \<times> string) list \<times> bool" where
  "parse_frames bs =
     (if length bs < HEAD_TOTAL_LEN then ([], True)
      else if \<not> header_ok bs then ([], False)
      else let n = unat (header_len bs) in
        if length bs < HEAD_TOTAL_LEN + n then ([], True)
        else let (fs, ok) = parse_frames (drop (HEAD_TOTAL_LEN + n) bs)
          in ((header_id bs, take n (drop HEAD_TOTAL_LEN bs)) # fs, ok))"
  by auto
termination
  by (relation "measure length") (auto simp: HEAD_TOTAL_LEN_def)

declare parse_frames.simps [simp del]

definition request_of :: "16 word \<times> string \<Rightarrow> recv_node" where
  "request_of f = \<lparr>cur_len = of_nat (length (snd f)), total_len = of_nat (length (snd f)),
     node_data = snd f @ [char_of (0 :: nat)], recv_msg_id = fst f\<rparr>"

lemmas head_simps = HEAD_TOTAL_LEN_def HEAD_ID_LEN_def HEAD_DATA_LEN_def

lemma header_append:
  assumes "4 \<le> length h"
  shows "header_id (h @ bs) = header_id h" "header_len (h @ bs) = header_len h"
    "header_ok (h @ bs) = header_ok h"
  using assms by (simp_all add: header_id_def header_len_def header_ok_def head_simps)

lemma parse_short: "length bs < 4 \<Longrightarrow> parse_frames bs = ([], True)"
  by (simp add: parse_frames.simps head_simps)

lemma parse_refused: "length h = 4 \<Longrightarrow> \<not> header_ok h \<Longrightarrow> parse_frames (h @ bs) = ([], False)"
  by (subst parse_frames.simps) (simp add: head_simps header_append)

lemma parse_incomplete:
  "length h = 4 \<Longrightarrow> header_ok h \<Longrightarrow> length bs < unat (header_len h) \<Longrightarrow> parse_frames (h @ bs) = ([], True)"
  by (subst parse_frames.simps) (simp add: head_simps header_append)

lemma parse_frame:
  "length h = 4 \<Longrightarrow> header_ok h \<Longrightarrow> length body = unat (header_len h) \<Longrightarrow>
    parse_frames (h @ body @ rest) =
      ((header_id h, body) # fst (parse_frames rest), snd (parse_frames rest))"
  by (subst parse_frames.simps) (simp add: head_simps header_append split: prod.splits)

section \<open>The reader refines the stream\<close>

definition wf_node :: "nat \<Rightarrow> recv_node \<Rightarrow> bool" where
  "wf_node n m \<longleftrightarrow> 0 < sint (recv_msg_id m) \<and> 0 < sint (total_len m) \<and> unat (total_len m) = n \<and>
     n \<le> MAX_LENGTH \<and> length (node_data m) = Suc n"

definition wf_reader :: "reader \<Rightarrow> bool" where
  "wf_reader r \<longleftrightarrow> length (buffer r) = MAX_LENGTH \<and> read_length r < total_length r \<and>
     total_length r \<le> MAX_LENGTH \<and> total_len (receive_header_node r) = 4 \<and>
     length (node_data (receive_header_node r)) = 5 \<and>
     (case stage_of r of Header \<Rightarrow> total_length r = 4
      | Body \<Rightarrow> (case receive_message_node r of None \<Rightarrow> False | Some m \<Rightarrow> wf_node (total_length r) m))"

text \<open>The bytes of the frame being read that have arrived.\<close>

definition pending :: "reader \<Rightarrow> string" where
  "pending r = (case stage_of r of Header \<Rightarrow> []
      | Body \<Rightarrow> host_to_network_short (recv_msg_id (the (receive_message_node r))) @
          host_to_network_short (total_len (the (receive_message_node r)))) @ take (read_length r) (buffer r)"

lemma wf_initial_reader [simp]: "wf_reader initial_reader" "pending initial_reader = []"
  by (simp_all add: initial_reader_def wf_reader_def AsyncReadHead_def AsyncReadFull_def head_simps
      pending_def MAX_LENGTH_def)

lemma size_t_four [simp]: "size_t_of 4 = 4"
  using sint_short [of 4] by (simp add: size_t_of_def)

lemma memcpy_ok:
  "off + length src \<le> length dst \<Longrightarrow>
    memcpy dst off src (length src) = Inr (take off dst @ src @ drop (off + length src) dst)"
  by (simp add: memcpy_def)

lemma body_header:
  assumes "wf_node n m"
  defines "h \<equiv> host_to_network_short (recv_msg_id m) @ host_to_network_short (total_len m)"
  shows "length h = 4" "header_ok h" "header_id h = recv_msg_id m" "header_len h = total_len m"
    "unat (header_len h) = n"
proof -
  show id: "header_id h = recv_msg_id m" and len: "header_len h = total_len m"
    using network_host_short [of _ "[]"] by (simp_all add: h_def header_id_def header_len_def head_simps)
  show "length h = 4" by (simp add: h_def)
  show "header_ok h" "unat (header_len h) = n"
    using assms(1) by (simp_all add: header_ok_def id len wf_node_def)
qed

lemma pending_incomplete:
  assumes "wf_reader r"
  shows "parse_frames (pending r) = ([], True)"
proof (cases "stage_of r")
  case Header
  with assms show ?thesis by (simp add: pending_def wf_reader_def parse_short)
next
  case Body
  with assms obtain m where m: "receive_message_node r = Some m" "wf_node (total_length r) m"
    by (auto simp: wf_reader_def split: option.splits)
  note h = body_header [OF m(2)]
  have "pending r = (host_to_network_short (recv_msg_id m) @ host_to_network_short (total_len m)) @
      take (read_length r) (buffer r)"
    by (simp add: pending_def Body m)
  then show ?thesis using parse_incomplete [OF h(1,2)] h(5) assms by (simp add: wf_reader_def)
qed

lemma length_Clear:
  "total_len n = 4 \<Longrightarrow> length (node_data n) = 5 \<Longrightarrow> length (node_data (Clear n)) = 5"
  "total_len (Clear n) = total_len n"
  by (simp_all add: Clear_def)

lemma head_complete_header:
  assumes "wf_reader r" and d: "take 4 (buffer r) = h"
  shows "if header_ok h
    then (\<exists>r'. head_complete False 4 r = Reading r' \<and> wf_reader r' \<and> pending r' = h)
    else head_complete False 4 r = Closed"
proof -
  let ?n = "Clear (receive_header_node r)"
  have len: "length (node_data ?n) = 5" "total_len ?n = 4" "length (buffer r) = MAX_LENGTH"
    using assms(1) length_Clear [of "receive_header_node r"] by (simp_all add: wf_reader_def)
  then have lh: "length h = 4" using d by (auto simp: MAX_LENGTH_def)
  define dd where "dd = h @ drop 4 (node_data ?n)"
  have cp: "memcpy (node_data ?n) 0 (buffer r) HEAD_TOTAL_LEN = Inr dd"
    using len by (simp add: memcpy_def head_simps MAX_LENGTH_def dd_def d)
  have id: "network_to_host_short (take HEAD_ID_LEN dd) = header_id h"
    and ln: "network_to_host_short (take HEAD_DATA_LEN (drop HEAD_ID_LEN dd)) = header_len h"
    using header_append [of h "drop 4 (node_data ?n)"] lh
    unfolding dd_def header_id_def [symmetric] header_len_def [symmetric] by simp_all
  have len_dd: "length dd = 5" using lh len by (simp add: dd_def)
  show ?thesis
  proof (cases "header_ok h")
    case False
    then have "sint (header_id h) \<le> 0 \<or> sint (header_len h) \<le> 0 \<or> MAX_LENGTH < size_t_of (header_len h)"
      using size_t_short [of "header_len h"] by (cases "0 < sint (header_len h)") (auto simp: header_ok_def)
    with False show ?thesis
      unfolding head_complete_def cp sum.case Let_def id ln by (simp add: HEAD_TOTAL_LEN_def)
  next
    case True
    then have ok: "0 < sint (header_id h)" "0 < sint (header_len h)" "unat (header_len h) \<le> MAX_LENGTH"
      by (simp_all add: header_ok_def)
    note sz = size_t_short [OF ok(2)]
    define m where "m = \<lparr>cur_len = 0, total_len = header_len h,
      node_data = replicate (size_t_of (header_len h) + 1) (char_of (0 :: nat)), recv_msg_id = header_id h\<rparr>"
    have m: "RecvNode (header_len h) (header_id h) = Inr m"
      using ok(2) by (simp add: RecvNode_def MsgNode_def m_def)
    define r' where "r' = AsyncReadFull (size_t_of (header_len h)) Body
      (r\<lparr>receive_header_node := ?n\<lparr>node_data := dd\<rparr>, receive_message_node := Some m\<rparr>)"
    have "head_complete False 4 r = Reading r'"
      unfolding head_complete_def cp sum.case Let_def id ln m r'_def using ok sz
      by (simp add: HEAD_TOTAL_LEN_def)
    moreover have "wf_reader r'"
      using assms(1) ok sz len_dd len
      by (simp add: r'_def wf_reader_def AsyncReadFull_def m_def wf_node_def)
    moreover have "pending r' = host_to_network_short (header_id h) @ host_to_network_short (header_len h)"
      by (simp add: r'_def pending_def AsyncReadFull_def m_def)
    then have "pending r' = h"
      using lh by (simp add: header_id_def header_len_def head_simps host_network_short)
    ultimately show ?thesis using True by simp
  qed
qed

lemma body_complete_request:
  assumes wf: "wf_reader r" and st: "stage_of r = Body" and m: "receive_message_node r = Some m"
  shows "body_complete False (total_length r) c r =
     (if stopping c then \<lparr>outcome = Stopped, request = None, heartbeat = True\<rparr>
      else if \<not> posted c
      then \<lparr>outcome = (if stopping_after c then Stopped else Closed), request = None, heartbeat = True\<rparr>
      else \<lparr>outcome = Reading (AsyncReadHead (r\<lparr>receive_message_node :=
               Some (request_of (recv_msg_id m, take (total_length r) (buffer r)))\<rparr>)),
            request = Some (request_of (recv_msg_id m, take (total_length r) (buffer r))),
            heartbeat = True\<rparr>)"
proof -
  let ?n = "total_length r"
  have w: "wf_node ?n m" and b: "length (buffer r) = MAX_LENGTH" "?n \<le> MAX_LENGTH"
    using wf st m by (simp_all add: wf_reader_def)
  have d: "memcpy (node_data m) 0 (buffer r) ?n = Inr (take ?n (buffer r) @ drop ?n (node_data m))"
    using w b by (simp add: memcpy_def wf_node_def)
  have "length (drop ?n (node_data m)) = 1" using w by (simp add: wf_node_def)
  then obtain x where dl: "drop ?n (node_data m) = [x]" by (metis One_nat_def length_0_conv length_Suc_conv)
  have "unat (total_len m) = ?n" using w by (simp add: wf_node_def)
  then have tl: "total_len m = word_of_nat ?n" by (metis unat_of_short unat_short word_unat_eq_iff)
  have "min (length (buffer r)) ?n = ?n" using b by simp
  then have eq: "m\<lparr>node_data := (take ?n (buffer r) @ drop ?n (node_data m))[?n := char_of (0 :: nat)],
      cur_len := of_nat ?n\<rparr> = request_of (recv_msg_id m, take ?n (buffer r))"
    by (cases m) (use dl tl in \<open>simp add: request_of_def list_update_append\<close>)
  show ?thesis
    unfolding body_complete_def m option.case d sum.case Let_def eq
    using w b by (simp add: wf_node_def)
qed

text \<open>One completion, within what \<^verbatim>\<open>async_read_some\<close> may deliver.\<close>

definition got :: "completion \<Rightarrow> reader \<Rightarrow> reader" where
  "got c r = r\<lparr>buffer := take (read_length r) (buffer r) @ received c @
     drop (read_length r + length (received c)) (buffer r)\<rparr>"

lemma AsyncReadLength_got:
  assumes "wf_reader r" "read_length r + length (received c) \<le> total_length r"
  shows "AsyncReadLength c r =
     (if session_closed c \<or> failed c then quiet Closed
      else if read_length r + length (received c) = total_length r
      then read_handler False (total_length r) c (got c r)
      else quiet (Reading ((got c r)\<lparr>read_length := read_length r + length (received c)\<rparr>)))"
proof -
  have "memcpy (buffer r) (read_length r) (received c) (length (received c)) = Inr (buffer (got c r))"
    using assms memcpy_ok [of "read_length r" "received c" "buffer r"]
    by (simp add: wf_reader_def got_def)
  moreover have "read_handler True n c r' = quiet Closed" for n r'
    by (simp add: read_handler_def head_complete_def body_complete_def split: stage.split)
  ultimately show ?thesis
    using assms(2) by (auto simp: AsyncReadLength_def got_def Let_def)
qed

lemma got_facts:
  assumes "wf_reader r" "read_length r + length (received c) \<le> total_length r"
  shows "wf_reader (got c r)" "stage_of (got c r) = stage_of r" "total_length (got c r) = total_length r"
    "receive_message_node (got c r) = receive_message_node r" "read_length (got c r) = read_length r"
    "take (read_length r + length (received c)) (buffer (got c r)) = take (read_length r) (buffer r) @ received c"
  using assms by (auto simp: wf_reader_def got_def MAX_LENGTH_def split: stage.splits option.splits)

lemma wf_AsyncReadHead:
  "wf_reader r \<Longrightarrow> wf_reader (AsyncReadHead (r\<lparr>receive_message_node := x\<rparr>))"
  "pending (AsyncReadHead r) = []"
  by (simp_all add: wf_reader_def AsyncReadHead_def AsyncReadFull_def head_simps pending_def MAX_LENGTH_def)

text \<open>
  The four things a completion can do to a well-formed reader: nothing more is read, the bytes
  stay pending, a header is taken or refused, or a frame is complete.
\<close>

lemma read_step:
  assumes wf: "wf_reader r" and len: "read_length r + length (received c) \<le> total_length r"
    and "AsyncReadLength c r = res"
  obtains (stop) "outcome res = Closed \<or> outcome res = Stopped" "request res = None"
      "session_closed c \<or> failed c \<or> stopping c \<or> \<not> posted c"
  | (more_bytes) r' where "outcome res = Reading r'" "request res = None" "wf_reader r'"
      "pending r' = pending r @ received c"
  | (refused) "outcome res = Closed" "request res = None" "length (pending r @ received c) = 4"
      "\<not> header_ok (pending r @ received c)"
  | (frame) r' m body where "outcome res = Reading r'" "request res = Some (request_of (recv_msg_id m, body))"
      "wf_reader r'" "pending r' = []" "wf_node (length body) m" "\<not> stopping c" "posted c"
      "pending r @ received c =
        host_to_network_short (recv_msg_id m) @ host_to_network_short (total_len m) @ body"
proof -
  note g = got_facts [OF wf len] and a = AsyncReadLength_got [OF wf len]
  consider (closed) "session_closed c \<or> failed c"
    | (part) "\<not> session_closed c" "\<not> failed c" "read_length r + length (received c) < total_length r"
    | (head) "\<not> session_closed c" "\<not> failed c" "read_length r + length (received c) = total_length r"
        "stage_of r = Header"
    | (body) m where "\<not> session_closed c" "\<not> failed c"
        "read_length r + length (received c) = total_length r"
        "stage_of r = Body" "receive_message_node r = Some m" "wf_node (total_length r) m"
    using wf len
    by (cases "stage_of r") (auto simp: wf_reader_def le_less split: option.splits)
  then show thesis
  proof cases
    case closed
    with a assms(3) show thesis by (intro stop) (auto simp: quiet_def)
  next
    case part
    define r' where "r' = (got c r)\<lparr>read_length := read_length r + length (received c)\<rparr>"
    have "pending r' = pending r @ received c" "wf_reader r'"
      using g part wf by (simp_all add: r'_def pending_def wf_reader_def split: stage.splits option.splits)
    then show thesis
      using a assms(3) part by (intro more_bytes [of r']) (auto simp: quiet_def r'_def)
  next
    case head
    have t: "total_length r = 4" using head wf by (simp add: wf_reader_def)
    have p: "pending r @ received c = take 4 (buffer (got c r))"
      using g(6) head t by (simp add: pending_def)
    have res: "res = quiet (head_complete False 4 (got c r))"
      using a assms(3) head t by (simp add: read_handler_def g)
    have "length (buffer (got c r)) = MAX_LENGTH" using g(1) by (simp add: wf_reader_def)
    then have l4: "length (pending r @ received c) = 4" by (simp add: p MAX_LENGTH_def)
    show thesis
    proof (cases "header_ok (pending r @ received c)")
      case True
      with head_complete_header [OF g(1) p [symmetric]] res more_bytes show thesis
        by (auto simp: quiet_def)
    next
      case False
      with head_complete_header [OF g(1) p [symmetric]] res refused l4 show thesis
        by (auto simp: quiet_def)
    qed
  next
    case body
    define b where "b = take (total_length r) (buffer (got c r))"
    have m: "stage_of (got c r) = Body" "receive_message_node (got c r) = Some m"
      using g body by simp_all
    have "length (buffer (got c r)) = MAX_LENGTH" "total_length r \<le> MAX_LENGTH"
      using g(1) wf by (simp_all add: wf_reader_def)
    then have lb: "length b = total_length r" by (simp add: b_def)
    have p: "pending r @ received c =
        host_to_network_short (recv_msg_id m) @ host_to_network_short (total_len m) @ b"
      using g(6) body by (simp add: pending_def b_def)
    have res: "res = body_complete False (total_length (got c r)) c (got c r)"
      using a assms(3) body by (simp add: read_handler_def g)
    note bc = body_complete_request [OF g(1) m, of c]
    show thesis
    proof (cases "stopping c \<or> \<not> posted c")
      case True
      with bc res show thesis by (intro stop) (auto split: if_splits)
    next
      case False
      with bc res show thesis
        by (intro frame [OF _ _ wf_AsyncReadHead(1) [OF g(1)] wf_AsyncReadHead(2) _ _ _ p])
          (use lb body in \<open>simp_all add: b_def g(3)\<close>)
    qed
  qed
qed

section \<open>Properties of the wire\<close>

lemma request_of_wf:
  assumes "m = request_of (recv_msg_id n, b) \<and> wf_node (length b) n"
  shows "0 < sint (recv_msg_id m) \<and> cur_len m = total_len m \<and> 0 < sint (total_len m) \<and>
      unat (total_len m) \<le> MAX_LENGTH \<and> length (node_data m) = Suc (unat (total_len m)) \<and>
      node_data m ! unat (total_len m) = char_of (0 :: nat)"
proof -
  have "length b < 65536" "0 < sint (total_len n)" "unat (total_len n) = length b"
    using assms by (auto simp: wf_node_def MAX_LENGTH_def)
  then have "word_of_nat (length b) = total_len n" "unat (word_of_nat (length b) :: 16 word) = length b"
    by (auto simp: unat_of_short word_unat_eq_iff)
  with assms show ?thesis by (simp add: request_of_def wf_node_def nth_append)
qed

lemma pending_frame:
  assumes "wf_node (length body) m"
    "p = host_to_network_short (recv_msg_id m) @ host_to_network_short (total_len m) @ body"
  shows "parse_frames (p @ rest) =
    ((recv_msg_id m, body) # fst (parse_frames rest), snd (parse_frames rest))"
  using parse_frame [OF body_header(1,2) [OF assms(1)], of body rest] body_header [OF assms(1)]
  by (simp add: assms(2))

text \<open>A completion that delivers bytes while nothing else goes wrong.\<close>

definition arrives :: "string \<Rightarrow> completion" where
  "arrives bs = \<lparr>failed = False, received = bs, session_closed = False, stopping = False,
     posted = True, stopping_after = False\<rparr>"

lemma arrives_simps [simp]:
  "received (arrives bs) = bs" "\<not> failed (arrives bs)" "\<not> session_closed (arrives bs)"
  "\<not> stopping (arrives bs)" "posted (arrives bs)"
  by (simp_all add: arrives_def)

lemma read_all_parse:
  assumes "wf_reader r" "within_buffer (map arrives css) r"
  shows "snd (read_all (map arrives css) r) = map request_of (fst (parse_frames (pending r @ concat css)))
    \<and> (if snd (parse_frames (pending r @ concat css))
       then \<exists>r'. fst (read_all (map arrives css) r) = Reading r' \<and> wf_reader r'
       else fst (read_all (map arrives css) r) = Closed)"
  using assms
proof (induction css arbitrary: r)
  case Nil
  then show ?case by (simp add: pending_incomplete)
next
  case (Cons bs css)
  then have len: "read_length r + length (received (arrives bs)) \<le> total_length r" by simp
  from Cons.prems(1) len refl show ?case
  proof (cases rule: read_step)
    case stop
    then show ?thesis by simp
  next
    case (more_bytes r')
    with Cons show ?thesis by (simp add: Let_def case_prod_beta)
  next
    case refused
    with parse_refused [of "pending r @ bs" "concat css"] show ?thesis by simp
  next
    case (frame r' m body)
    have "parse_frames (pending r @ bs @ concat css) =
        ((recv_msg_id m, body) # fst (parse_frames (concat css)), snd (parse_frames (concat css)))"
      using pending_frame [OF frame(5,8), of "concat css"] by simp
    with Cons frame(1-4) show ?thesis by (simp add: Let_def case_prod_beta)
  qed
qed

lemma read_all_safe:
  assumes "wf_reader r" "within_buffer cs r"
  shows "fst (read_all cs r) \<noteq> Fault \<and>
    (\<forall>m \<in> set (snd (read_all cs r)). \<exists>b n. m = request_of (recv_msg_id n, b) \<and> wf_node (length b) n)"
  using assms
proof (induction cs arbitrary: r)
  case (Cons c cs)
  then have len: "read_length r + length (received c) \<le> total_length r" by simp
  from Cons.prems(1) len refl show ?case
  proof (cases rule: read_step)
    case (more_bytes r')
    with Cons show ?thesis by (auto simp: Let_def case_prod_beta)
  next
    case (frame r' m body)
    with Cons.IH [of r'] Cons.prems(2) show ?thesis by (auto simp: Let_def case_prod_beta)
  qed auto
qed simp

text \<open>C1: The reader refines the meaning of the byte stream. However TCP cuts a stream of
  bytes into reads (each at most the space the session offered), the requests handed to the logic
  queue are exactly the frames the stream carries, in order, with their message id and a
  zero-terminated copy of their body; and the session is closed if and only if the stream contains a
  header whose id is not positive or whose length is not between 1 and \<^verbatim>\<open>MAX_LENGTH\<close>.\<close>

theorem reader_refines_stream:
  assumes "within_buffer (map arrives css) initial_reader"
  shows "snd (read_all (map arrives css) initial_reader) = map request_of (fst (parse_frames (concat css))) \<and>
    (fst (read_all (map arrives css) initial_reader) = Closed \<longleftrightarrow> \<not> snd (parse_frames (concat css)))"
  using read_all_parse [OF wf_initial_reader(1) assms] by (auto split: if_splits)

text \<open>C3: Whatever bytes a peer sends, however they are cut, and whatever the rest of the server
  does meanwhile, the reader never writes outside its receive buffer, its header node or a message
  node, and every request it hands on has a positive id and a body of 1 to \<^verbatim>\<open>MAX_LENGTH\<close>
  bytes followed by the terminating zero.\<close>

theorem reader_memory_safe:
  assumes "within_buffer cs initial_reader"
  shows "fst (read_all cs initial_reader) \<noteq> Fault \<and>
    (\<forall>m \<in> set (snd (read_all cs initial_reader)).
      0 < sint (recv_msg_id m) \<and> cur_len m = total_len m \<and> 0 < sint (total_len m) \<and>
      unat (total_len m) \<le> MAX_LENGTH \<and> length (node_data m) = Suc (unat (total_len m)) \<and>
      node_data m ! unat (total_len m) = char_of (0 :: nat))"
  using read_all_safe [OF wf_initial_reader(1) assms] request_of_wf by blast

section \<open>Sending and receiving\<close>

lemma SendNode_bytes:
  assumes "0 < length msg" "length msg \<le> MAX_LENGTH"
  shows "\<exists>n. SendNode msg (of_nat (length msg)) i = Inr n \<and>
    wire_bytes n = host_to_network_short i @ host_to_network_short (of_nat (length msg)) @ msg"
proof -
  let ?l = "of_nat (length msg) :: 16 word"
  have l: "length msg + 4 < 32768" using assms(2) by (simp add: MAX_LENGTH_def)
  have u: "unat ?l = length msg" "unat (?l + 4) = length msg + 4"
    using l unat_of_short [of "length msg"] unat_of_short [of "length msg + 4"] by simp_all
  then have s: "sint ?l = int (length msg)" "sint (?l + 4) = int (length msg + 4)"
    using l sint_short [of ?l] sint_short [of "?l + 4"] by (simp_all del: of_nat_unat)
  then have z: "size_t_of ?l = length msg" "size_t_of (?l + 4) = length msg + 4"
    by (simp_all add: size_t_of_def)
  have n: "MsgNode (?l + of_nat HEAD_TOTAL_LEN) =
      Inr \<lparr>cur_len = 0, total_len = ?l + 4, node_data = replicate (length msg + 5) (char_of (0 :: nat))\<rparr>"
    using s z by (simp add: MsgNode_def HEAD_TOTAL_LEN_def)
  show ?thesis
    unfolding SendNode_def n using z
    by (simp add: memcpy_def head_simps wire_bytes_def)
qed

text \<open>A message as the peer hands it to \<^verbatim>\<open>Send\<close>, and the bytes its node puts on the socket.\<close>

definition sendable :: "16 word \<times> string \<Rightarrow> bool" where
  "sendable f \<longleftrightarrow> 0 < sint (fst f) \<and> 0 < length (snd f) \<and> length (snd f) \<le> MAX_LENGTH"

definition sent_bytes :: "16 word \<times> string \<Rightarrow> string" where
  "sent_bytes f = (case SendNode (snd f) (of_nat (length (snd f))) (fst f) of
     Inl e \<Rightarrow> [] | Inr n \<Rightarrow> wire_bytes n)"

lemma parse_sent_bytes:
  "list_all sendable fs \<Longrightarrow> parse_frames (concat (map sent_bytes fs)) = (fs, True)"
proof (induction fs)
  case Nil
  then show ?case by (simp add: parse_short)
next
  case (Cons f fs)
  obtain i b where f: "f = (i, b)" by (cases f)
  have b: "0 < sint i" "0 < length b" "length b \<le> MAX_LENGTH"
    using Cons.prems by (simp_all add: sendable_def f)
  have u: "unat (word_of_nat (length b) :: 16 word) = length b"
    using b(3) by (intro unat_of_short) (simp add: MAX_LENGTH_def)
  obtain n where "SendNode b (of_nat (length b)) i = Inr n"
    and "wire_bytes n = host_to_network_short i @ host_to_network_short (of_nat (length b)) @ b"
    using SendNode_bytes [OF b(2,3), of i] by blast
  then have s: "sent_bytes f = host_to_network_short i @ host_to_network_short (of_nat (length b)) @ b"
    by (simp add: f sent_bytes_def)
  define m where "m = \<lparr>cur_len = 0, total_len = word_of_nat (length b) :: 16 word,
    node_data = replicate (Suc (length b)) (CHR ''x''), recv_msg_id = i\<rparr>"
  have "sint (word_of_nat (length b) :: 16 word) = int (length b)"
    using sint_short [of "word_of_nat (length b)"] u b(3) by (simp add: MAX_LENGTH_def del: of_nat_unat)
  then have "wf_node (length b) m" using b u by (simp add: wf_node_def m_def)
  from pending_frame [OF this, of "sent_bytes f"] s Cons show ?case by (simp add: m_def f)
qed

text \<open>C2: A frame survives the wire. Whatever messages of 1 to \<^verbatim>\<open>MAX_LENGTH\<close> bytes with
  positive ids are encoded by \<^verbatim>\<open>SendNode\<close> and written back to back, and however the
  stream is cut into reads, the receiving session hands exactly those messages to its logic queue,
  in order, and stays open.\<close>

theorem frames_survive_the_wire:
  assumes "list_all sendable fs" "concat css = concat (map sent_bytes fs)"
    and "within_buffer (map arrives css) initial_reader"
  shows "snd (read_all (map arrives css) initial_reader) = map request_of fs \<and>
    fst (read_all (map arrives css) initial_reader) \<noteq> Closed"
  using read_all_parse [OF wf_initial_reader(1) assms(3)] parse_sent_bytes [OF assms(1)]
  by (auto simp: assms(2))

section \<open>A session of two frames in five reads\<close>

definition demo_frames :: "(16 word \<times> string) list" where
  "demo_frames = [(1005, ''hi''), (1023, ''{}'')]"

definition demo_chunks :: "string list" where
  "demo_chunks = [[char_of (3 :: nat), char_of (237 :: nat), char_of (0 :: nat)], [char_of (2 :: nat)], ''h'', ''i'',
     [char_of (3 :: nat), char_of (255 :: nat), char_of (0 :: nat), char_of (2 :: nat)], ''{}'']"

lemmas reader_evals = initial_reader_def AsyncReadHead_def AsyncReadFull_def AsyncReadLength_def memcpy_def
      MAX_LENGTH_def head_simps quiet_def read_handler_def arrives_def head_complete_def
      Clear_def network_to_host_short_def size_t_of_def RecvNode_def MsgNode_def body_complete_def

lemma demo_within: "within_buffer (map arrives demo_chunks) initial_reader"
  unfolding demo_chunks_def
  by (simp add: reader_evals byte_def numeral_2_eq_2 Let_def)

lemma demo_bytes: "concat demo_chunks = concat (map sent_bytes demo_frames)"
  by (simp add: demo_chunks_def demo_frames_def sent_bytes_def SendNode_def reader_evals wire_bytes_def
      host_to_network_short_def)

lemma demo_sendable: "list_all sendable demo_frames"
  by (simp add: demo_frames_def sendable_def MAX_LENGTH_def)

theorem reader_refines_stream_witness:
  "snd (read_all (map arrives demo_chunks) initial_reader) = map request_of demo_frames"
  using reader_refines_stream [OF demo_within] parse_sent_bytes [OF demo_sendable] by (simp add: demo_bytes)

theorem reader_memory_safe_witness:
  "fst (read_all (map arrives demo_chunks) initial_reader) \<noteq> Fault"
  using reader_memory_safe [OF demo_within] by blast

theorem frames_survive_the_wire_witness:
  "snd (read_all (map arrives demo_chunks) initial_reader) = [request_of (1005, ''hi''), request_of (1023, ''{}'')]"
  using frames_survive_the_wire [OF demo_sendable demo_bytes demo_within] by (simp add: demo_frames_def)

end
