(* ===== verification/Session.thy ===== *)
theory Session
  imports Wire "HOL-Library.Multiset" "HOL-Library.Sublist"
begin

text \<open>
  The sending and closing half of \<^verbatim>\<open>CSession.cpp\<close>. A session is a record; the calls
  other threads make (\<^verbatim>\<open>Send\<close>, \<^verbatim>\<open>Close\<close>, \<^verbatim>\<open>DrainAndClose\<close>,
  \<^verbatim>\<open>NotifyOffline\<close>, \<^verbatim>\<open>BindAuthenticatedUser\<close>) and the handlers that run on
  the session's strand are functions on it, and a step relation interleaves them. A call that
  schedules work does so in two steps, as in the code: its critical section leaves a task in
  \<open>posting\<close>, and a later step moves the task to the strand. Tasks on the strand run one at a
  time in the order they were posted. The fields from \<open>admitted\<close> on record history and are read
  by no operation.
\<close>

datatype task =
    PostedWrite bool          \<comment> \<open>the lambda \<^verbatim>\<open>QueueSend\<close> posts\<close>
  | PostedClose "nat option"  \<comment> \<open>the lambda \<^verbatim>\<open>Close\<close> dispatches, with its callback\<close>
  | PostedDrain int nat       \<comment> \<open>the lambda \<^verbatim>\<open>DrainAndClose\<close> dispatches\<close>

record csession =
  closed :: bool
  retiring :: bool
  cleanup_started :: bool
  user_id :: int
  device :: string
  voice_messages :: bool
  file_messages :: bool
  last_heartbeat :: int
  send_queue :: "send_node list"
  close_after_write :: bool
  write_active :: bool
  in_flight :: "send_node option"
  drain_timer_active :: bool
  drain_timer :: "int option"
  close_handlers :: "nat list"
  socket_open :: bool
  posting :: "task list"
  strand :: "task list"
  admitted :: "send_node list"
  started :: "send_node list"
  cleanups :: "int list"
  registered :: "nat list"
  called :: "nat list"

definition CSession :: "int \<Rightarrow> csession" where
  "CSession now = \<lparr>closed = False, retiring = False, cleanup_started = False, user_id = 0,
     device = ''desktop'', voice_messages = False, file_messages = False, last_heartbeat = now,
     send_queue = [], close_after_write = False, write_active = False, in_flight = None,
     drain_timer_active = False, drain_timer = None, close_handlers = [], socket_open = True,
     posting = [], strand = [], admitted = [], started = [], cleanups = [], registered = [],
     called = []\<rparr>"

definition IsClosed :: "csession \<Rightarrow> bool" where
  "IsClosed s \<longleftrightarrow> closed s \<or> retiring s"

definition SetVoiceMessages :: "bool \<Rightarrow> csession \<Rightarrow> csession" where
  "SetVoiceMessages enabled s = s\<lparr>voice_messages := enabled\<rparr>"

definition SetFileMessages :: "bool \<Rightarrow> csession \<Rightarrow> csession" where
  "SetFileMessages enabled s = s\<lparr>file_messages := enabled\<rparr>"

definition HEARTBEAT_TIMEOUT_SECONDS :: int where "HEARTBEAT_TIMEOUT_SECONDS = 20"

definition IsHeartbeatExpired :: "int \<Rightarrow> csession \<Rightarrow> bool" where
  "IsHeartbeatExpired now s \<longleftrightarrow> now - last_heartbeat s > HEARTBEAT_TIMEOUT_SECONDS"

definition UpdateHeartbeat :: "int \<Rightarrow> csession \<Rightarrow> csession" where
  "UpdateHeartbeat now s = s\<lparr>last_heartbeat := now\<rparr>"

text \<open>The entry in the user map is made by the caller of this model (see \<open>Server\<close>).\<close>

definition BindAuthenticatedUser :: "int \<Rightarrow> string \<Rightarrow> csession \<Rightarrow> bool \<times> csession" where
  "BindAuthenticatedUser uid dev s =
     (if uid \<le> 0 \<or> IsClosed s \<or> cleanup_started s \<or> user_id s \<noteq> 0 then (False, s)
      else (True, s\<lparr>device := dev, user_id := uid\<rparr>))"

definition DealExceptionSession :: "csession \<Rightarrow> csession" where
  "DealExceptionSession s =
     (if cleanup_started s then s
      else s\<lparr>cleanup_started := True, cleanups := cleanups s @ [user_id s]\<rparr>)"

definition CloseOnExecutor :: "csession \<Rightarrow> csession" where
  "CloseOnExecutor s =
     (let s1 = DealExceptionSession (s\<lparr>drain_timer := None, socket_open := False, send_queue := []\<rparr>)
      in s1\<lparr>close_handlers := [], called := called s1 @ close_handlers s1\<rparr>)"

text \<open>
  \<^verbatim>\<open>Close\<close> on the strand runs its lambda at once, because \<^verbatim>\<open>dispatch\<close> does;
  called from another thread it leaves the lambda to be queued.
\<close>

definition run_close :: "nat option \<Rightarrow> csession \<Rightarrow> csession" where
  "run_close on_closed s =
     (let s1 = CloseOnExecutor s
      in case on_closed of None \<Rightarrow> s1 | Some h \<Rightarrow> s1\<lparr>called := called s1 @ [h]\<rparr>)"

definition Close_on_strand :: "csession \<Rightarrow> csession" where
  "Close_on_strand s = (if closed s then s else run_close None (s\<lparr>closed := True\<rparr>))"

definition Close :: "nat option \<Rightarrow> csession \<Rightarrow> csession" where
  "Close on_closed s =
     (if closed s \<and> on_closed = None then s
      else s\<lparr>closed := True, posting := posting s @ [PostedClose on_closed],
             registered := registered s @ (case on_closed of None \<Rightarrow> [] | Some h \<Rightarrow> [h])\<rparr>)"

definition QueueSend :: "send_node \<Rightarrow> bool \<Rightarrow> bool \<Rightarrow> csession \<Rightarrow> bool \<times> csession" where
  "QueueSend message caw realtime s =
     (if closed s \<or> close_after_write s then (False, s)
      else if realtime \<and> length (send_queue s) \<ge> 10 then (False, s)
      else if length (send_queue s) \<ge> MAX_SENDQUE then (False, Close None s)
      else let start_write = (send_queue s = []);
               s1 = s\<lparr>send_queue := send_queue s @ [message], close_after_write := caw,
                      retiring := retiring s \<or> caw, admitted := admitted s @ [message]\<rparr>
           in (True, if start_write \<or> caw then s1\<lparr>posting := posting s1 @ [PostedWrite caw]\<rparr> else s1))"

definition Send_buffer :: "string \<Rightarrow> 16 word \<Rightarrow> 16 word \<Rightarrow> csession \<Rightarrow> csession" where
  "Send_buffer message message_length message_id s =
     (if sint message_length \<le> 0 \<or> size_t_of message_length > MAX_LENGTH then s
      else case SendNode message message_length message_id of
        Inl e \<Rightarrow> s
      | Inr n \<Rightarrow> snd (QueueSend n False
          (sint message_id = message_id_value ID_VOICE_AUDIO \<or>
           sint message_id = message_id_value ID_VIDEO_IMAGE) s))"

definition Send :: "string \<Rightarrow> 16 word \<Rightarrow> csession \<Rightarrow> csession" where
  "Send message message_id s =
     (if message = [] \<or> length message > MAX_LENGTH \<or> length message > 32767 then s
      else Send_buffer message (of_nat (length message)) message_id s)"

definition NotifyOffline :: "jsoncpp \<Rightarrow> int \<Rightarrow> csession \<Rightarrow> csession" where
  "NotifyOffline J uid s =
     (let response = set_members [(''error'', JInt (error_value Success)), (''uid'', JInt uid)] JNull;
          message = toStyledString J response
      in case SendNode message (of_nat (length message)) (of_int (message_id_value ID_NOTIFY_OFF_LINE_REQ)) of
           Inl e \<Rightarrow> s
         | Inr n \<Rightarrow> snd (QueueSend n True False s))"

definition StartWrite :: "csession \<Rightarrow> csession" where
  "StartWrite s =
     (if closed s \<or> write_active s then s
      else case send_queue s of [] \<Rightarrow> s
        | n # _ \<Rightarrow> s\<lparr>write_active := True, in_flight := Some n, started := started s @ [n]\<rparr>)"

definition HandleWrite :: "bool \<Rightarrow> csession \<Rightarrow> csession" where
  "HandleWrite err s =
     (let s1 = s\<lparr>write_active := False, in_flight := None\<rparr> in
      if closed s1 then s1
      else if err then Close_on_strand s1
      else let s2 = s1\<lparr>send_queue := tl (send_queue s1)\<rparr> in
        if send_queue s2 = [] \<and> close_after_write s2 then Close_on_strand s2 else StartWrite s2)"

definition ArmDrainDeadline :: "int \<Rightarrow> int \<Rightarrow> csession \<Rightarrow> csession" where
  "ArmDrainDeadline now timeout s =
     (if closed s then s
      else if drain_timer_active s \<and> (case drain_timer s of None \<Rightarrow> False | Some e \<Rightarrow> e \<le> now + timeout) then s
      else s\<lparr>drain_timer_active := True, drain_timer := Some (now + timeout)\<rparr>)"

definition DrainAndClose :: "int \<Rightarrow> nat \<Rightarrow> csession \<Rightarrow> csession" where
  "DrainAndClose timeout on_closed s =
     s\<lparr>posting := posting s @ [PostedDrain timeout on_closed], registered := registered s @ [on_closed]\<rparr>"

definition run_drain :: "int \<Rightarrow> int \<Rightarrow> nat \<Rightarrow> csession \<Rightarrow> csession" where
  "run_drain now timeout on_closed s =
     (if closed s then (let s1 = CloseOnExecutor s in s1\<lparr>called := called s1 @ [on_closed]\<rparr>)
      else let s1 = s\<lparr>close_handlers := close_handlers s @ [on_closed], retiring := True,
                      close_after_write := True\<rparr>
        in if send_queue s1 = [] then Close_on_strand s1
           else StartWrite (ArmDrainDeadline now timeout s1))"

definition run_write :: "int \<Rightarrow> bool \<Rightarrow> csession \<Rightarrow> csession" where
  "run_write now caw s = StartWrite (if caw then ArmDrainDeadline now 3 s else s)"

definition run_task :: "int \<Rightarrow> task \<Rightarrow> csession \<Rightarrow> csession" where
  "run_task now t s =
     (case t of PostedWrite caw \<Rightarrow> run_write now caw s
      | PostedClose on_closed \<Rightarrow> run_close on_closed s
      | PostedDrain timeout on_closed \<Rightarrow> run_drain now timeout on_closed s)"

definition HandleReadFailure :: "csession \<Rightarrow> csession" where
  "HandleReadFailure s = Close_on_strand s"

definition drain_expired :: "csession \<Rightarrow> csession" where
  "drain_expired s = Close_on_strand (s\<lparr>drain_timer := None\<rparr>)"

section \<open>Interleavings\<close>

inductive session_step :: "csession \<Rightarrow> csession \<Rightarrow> bool" where
  send: "session_step s (Send message message_id s)"
| notify: "session_step s (NotifyOffline J uid s)"
| close: "session_step s (Close on_closed s)"
| drain: "session_step s (DrainAndClose timeout on_done s)"
| bind: "session_step s (snd (BindAuthenticatedUser uid dev s))"
| voice: "session_step s (SetVoiceMessages b s)"
| files: "session_step s (SetFileMessages b s)"
| beat: "session_step s (UpdateHeartbeat now s)"
| post: "posting s = xs @ t # ys \<Longrightarrow> session_step s (s\<lparr>posting := xs @ ys, strand := strand s @ [t]\<rparr>)"
| run: "strand s = t # ts \<Longrightarrow> session_step s (run_task now t (s\<lparr>strand := ts\<rparr>))"
| written: "write_active s \<Longrightarrow> session_step s (HandleWrite err s)"
| timeout: "drain_timer s = Some e \<Longrightarrow> session_step s (drain_expired s)"
| read_failed: "session_step s (HandleReadFailure s)"

definition session_init :: "csession \<Rightarrow> bool" where
  "session_init s \<longleftrightarrow> (\<exists>now. s = CSession now)"

abbreviation session_reachable :: "csession \<Rightarrow> bool" where
  "session_reachable \<equiv> reachable session_init session_step"

section \<open>The invariant\<close>

definition tasks :: "csession \<Rightarrow> task list" where
  "tasks s = posting s @ strand s"

primrec callback :: "task \<Rightarrow> nat list" where
  "callback (PostedWrite b) = []"
| "callback (PostedClose h) = (case h of None \<Rightarrow> [] | Some c \<Rightarrow> [c])"
| "callback (PostedDrain t c) = [c]"

text \<open>While the session is open: what was admitted and not yet given to the socket is the queue
  (less the node being written), and a non-empty queue has a writer or one on its way.\<close>

definition open_inv :: "csession \<Rightarrow> bool" where
  "open_inv s \<longleftrightarrow> socket_open s \<and>
     admitted s = started s @ (if write_active s then tl (send_queue s) else send_queue s) \<and>
     (write_active s \<longrightarrow> send_queue s \<noteq> [] \<and> in_flight s = Some (hd (send_queue s))) \<and>
     (send_queue s \<noteq> [] \<longrightarrow> write_active s \<or> (\<exists>b. PostedWrite b \<in> set (tasks s))) \<and>
     (close_after_write s \<longrightarrow> send_queue s \<noteq> [] \<and> retiring s \<and>
        (drain_timer s \<noteq> None \<or> PostedWrite True \<in> set (tasks s)))"

definition close_inv :: "csession \<Rightarrow> bool" where
  "close_inv s \<longleftrightarrow> (closed s \<and> socket_open s \<longrightarrow> (\<exists>h. PostedClose h \<in> set (tasks s))) \<and>
     (\<forall>h. PostedClose h \<in> set (tasks s) \<longrightarrow> closed s) \<and>
     (\<not> socket_open s \<longrightarrow> closed s \<and> send_queue s = [] \<and> close_handlers s = []) \<and>
     cleanup_started s = (\<not> socket_open s) \<and>
     cleanups s = (if cleanup_started s then [user_id s] else []) \<and>
     (called s \<noteq> [] \<longrightarrow> \<not> socket_open s) \<and>
     mset (registered s) = mset (called s) + mset (close_handlers s) + mset (concat (map callback (tasks s)))"

definition session_inv :: "csession \<Rightarrow> bool" where
  "session_inv s \<longleftrightarrow> length (send_queue s) \<le> MAX_SENDQUE \<and> prefix (started s) (admitted s) \<and>
     (\<not> closed s \<longrightarrow> open_inv s) \<and> close_inv s"

lemmas [inv_simps] = session_inv_def open_inv_def close_inv_def tasks_def

lemma inv_CSession: "session_inv (CSession now)"
  by (simp add: inv_simps CSession_def)

lemma inv_Close: "session_inv s \<Longrightarrow> session_inv (Close h s)"
  by (auto simp: inv_simps Close_def split: option.splits)

lemma inv_QueueSend: "session_inv s \<Longrightarrow> session_inv (snd (QueueSend n caw rt s))"
proof (cases "closed s \<or> close_after_write s \<or> (rt \<and> length (send_queue s) \<ge> 10) \<or> length (send_queue s) \<ge> MAX_SENDQUE")
  case True
  then show "session_inv s \<Longrightarrow> ?thesis" using inv_Close [of s None] by (auto simp: QueueSend_def)
next
  case False
  then have "snd (QueueSend n caw rt s) =
      (let s1 = s\<lparr>send_queue := send_queue s @ [n], close_after_write := caw,
                  retiring := retiring s \<or> caw, admitted := admitted s @ [n]\<rparr>
       in if send_queue s = [] \<or> caw then s1\<lparr>posting := posting s1 @ [PostedWrite caw]\<rparr> else s1)"
    by (auto simp: QueueSend_def Let_def)
  with False show "session_inv s \<Longrightarrow> ?thesis" by (auto simp: inv_simps Let_def)
qed

lemma inv_Send: "session_inv s \<Longrightarrow> session_inv (Send m i s)"
  by (auto simp: Send_def Send_buffer_def inv_QueueSend split: sum.split)

lemma inv_NotifyOffline: "session_inv s \<Longrightarrow> session_inv (NotifyOffline J u s)"
  by (auto simp: NotifyOffline_def Let_def inv_QueueSend split: sum.split)

lemma inv_DrainAndClose: "session_inv s \<Longrightarrow> session_inv (DrainAndClose t h s)"
  by (auto simp: inv_simps DrainAndClose_def)

lemma inv_Bind: "session_inv s \<Longrightarrow> session_inv (snd (BindAuthenticatedUser u d s))"
  by (auto simp: inv_simps BindAuthenticatedUser_def)

lemma inv_flags:
  "session_inv s \<Longrightarrow> session_inv (SetVoiceMessages b s)"
  "session_inv s \<Longrightarrow> session_inv (SetFileMessages b s)"
  "session_inv s \<Longrightarrow> session_inv (UpdateHeartbeat now s)"
  by (auto simp: inv_simps SetVoiceMessages_def SetFileMessages_def UpdateHeartbeat_def)

lemma inv_post:
  "session_inv s \<Longrightarrow> posting s = xs @ t # ys \<Longrightarrow>
    session_inv (s\<lparr>posting := xs @ ys, strand := strand s @ [t]\<rparr>)"
  by (auto simp: inv_simps)

text \<open>Closing on the strand: the callbacks \<open>extra\<close> are those the running handler still owes.\<close>

definition closing :: "nat list \<Rightarrow> csession \<Rightarrow> bool" where
  "closing extra s \<longleftrightarrow> prefix (started s) (admitted s) \<and> cleanup_started s = (\<not> socket_open s) \<and>
     cleanups s = (if cleanup_started s then [user_id s] else []) \<and>
     mset (registered s) = mset (called s) + mset (close_handlers s) +
       mset (concat (map callback (tasks s))) + mset extra"

lemma inv_CloseOnExecutor:
  "closed s \<Longrightarrow> closing extra s \<Longrightarrow>
    session_inv ((CloseOnExecutor s)\<lparr>called := called (CloseOnExecutor s) @ extra\<rparr>)"
  by (auto simp: inv_simps closing_def CloseOnExecutor_def DealExceptionSession_def)

lemma inv_run_close:
  "closed s \<Longrightarrow> closing (case h of None \<Rightarrow> [] | Some c \<Rightarrow> [c]) s \<Longrightarrow> session_inv (run_close h s)"
  using inv_CloseOnExecutor [of s "case h of None \<Rightarrow> [] | Some c \<Rightarrow> [c]"]
  by (cases h) (simp_all add: run_close_def Let_def)

lemma closing_inv: "session_inv s \<Longrightarrow> closing [] s"
  by (auto simp: inv_simps closing_def)

lemma inv_Close_on_strand:
  "session_inv s \<or> (\<not> closed s \<and> closing [] s) \<Longrightarrow> session_inv (Close_on_strand s)"
  using closing_inv [of s] inv_run_close [of "s\<lparr>closed := True\<rparr>" None]
  by (auto simp: Close_on_strand_def closing_def tasks_def)

lemma inv_HandleWrite: "session_inv s \<Longrightarrow> write_active s \<Longrightarrow> session_inv (HandleWrite err s)"
proof -
  assume inv: "session_inv s" and w: "write_active s"
  define s1 where "s1 = s\<lparr>write_active := False, in_flight := None\<rparr>"
  define s2 where "s2 = s1\<lparr>send_queue := tl (send_queue s1)\<rparr>"
  have c1: "closing [] s1" "closing [] s2"
    using closing_inv [OF inv] by (simp_all add: closing_def s1_def s2_def tasks_def)
  have eq: "HandleWrite err s = (if closed s1 then s1 else if err then Close_on_strand s1
      else if send_queue s2 = [] \<and> close_after_write s2 then Close_on_strand s2 else StartWrite s2)"
    by (simp add: HandleWrite_def s1_def s2_def Let_def)
  show ?thesis
  proof (cases "closed s")
    case True
    with inv eq show ?thesis by (auto simp: inv_simps s1_def)
  next
    case False
    then have "session_inv (Close_on_strand s1)" "session_inv (Close_on_strand s2)"
      using c1 inv_Close_on_strand [of s1] inv_Close_on_strand [of s2] by (auto simp: s1_def s2_def)
    moreover have "session_inv (StartWrite s2)" if "\<not> (send_queue s2 = [] \<and> close_after_write s2)"
      using inv w False that
      by (cases "send_queue s"; cases "send_queue s2") (auto simp: inv_simps StartWrite_def s1_def s2_def)
    ultimately show ?thesis using eq False by (auto simp: s1_def)
  qed
qed

lemma ArmDrainDeadline_simps [simp]:
  "closed (ArmDrainDeadline now t s) = closed s"
  "retiring (ArmDrainDeadline now t s) = retiring s"
  "cleanup_started (ArmDrainDeadline now t s) = cleanup_started s"
  "user_id (ArmDrainDeadline now t s) = user_id s"
  "send_queue (ArmDrainDeadline now t s) = send_queue s"
  "close_after_write (ArmDrainDeadline now t s) = close_after_write s"
  "write_active (ArmDrainDeadline now t s) = write_active s"
  "in_flight (ArmDrainDeadline now t s) = in_flight s"
  "close_handlers (ArmDrainDeadline now t s) = close_handlers s"
  "socket_open (ArmDrainDeadline now t s) = socket_open s"
  "posting (ArmDrainDeadline now t s) = posting s"
  "strand (ArmDrainDeadline now t s) = strand s"
  "admitted (ArmDrainDeadline now t s) = admitted s"
  "started (ArmDrainDeadline now t s) = started s"
  "cleanups (ArmDrainDeadline now t s) = cleanups s"
  "registered (ArmDrainDeadline now t s) = registered s"
  "called (ArmDrainDeadline now t s) = called s"
  by (simp_all add: ArmDrainDeadline_def)

lemma drain_timer_Arm [simp]:
  "(drain_timer (ArmDrainDeadline now t s) = None) = (closed s \<and> drain_timer s = None)"
  by (auto simp: ArmDrainDeadline_def split: option.splits)

text \<open>What \<^verbatim>\<open>StartWrite\<close> needs of a session whose strand it runs on.\<close>

lemma inv_StartWrite:
  assumes "\<not> closed s" "length (send_queue s) \<le> MAX_SENDQUE" "socket_open s" "close_inv s"
    "admitted s = started s @ (if write_active s then tl (send_queue s) else send_queue s)"
    "write_active s \<Longrightarrow> send_queue s \<noteq> [] \<and> in_flight s = Some (hd (send_queue s))"
    "close_after_write s \<Longrightarrow> send_queue s \<noteq> [] \<and> retiring s \<and>
       (drain_timer s \<noteq> None \<or> PostedWrite True \<in> set (tasks s))"
  shows "session_inv (StartWrite s)"
  using assms
  by (cases "send_queue s"; cases "write_active s") (auto simp: inv_simps StartWrite_def)

lemma inv_run_write:
  assumes "session_inv s" "strand s = PostedWrite caw # ts"
  shows "session_inv (run_write now caw (s\<lparr>strand := ts\<rparr>))"
proof (cases "closed s")
  case True
  with assms show ?thesis
    by (auto simp: inv_simps run_write_def StartWrite_def ArmDrainDeadline_def)
next
  case False
  show ?thesis
    unfolding run_write_def
    by (cases caw; rule inv_StartWrite) (use assms False in \<open>auto simp: inv_simps\<close>)
qed

lemma closing_strand:
  "session_inv s \<Longrightarrow> strand s = t # ts \<Longrightarrow> closing (callback t) (s\<lparr>strand := ts\<rparr>)"
  by (auto simp: inv_simps closing_def)

lemma inv_run_drain:
  assumes "session_inv s" "strand s = PostedDrain t h # ts"
  shows "session_inv (run_drain now t h (s\<lparr>strand := ts\<rparr>))"
proof (cases "closed s")
  case True
  then show ?thesis
    using inv_CloseOnExecutor [OF _ closing_strand [OF assms]] by (simp add: run_drain_def Let_def)
next
  case False
  define s1 where "s1 = s\<lparr>strand := ts, close_handlers := close_handlers s @ [h], retiring := True,
    close_after_write := True\<rparr>"
  have c: "closing [] s1" using closing_strand [OF assms] by (simp add: closing_def s1_def tasks_def)
  have eq: "run_drain now t h (s\<lparr>strand := ts\<rparr>) =
      (if send_queue s = [] then Close_on_strand s1 else StartWrite (ArmDrainDeadline now t s1))"
    using False by (simp add: run_drain_def s1_def)
  have "session_inv (StartWrite (ArmDrainDeadline now t s1))" if "send_queue s \<noteq> []"
    by (rule inv_StartWrite) (use assms False that in \<open>auto simp: inv_simps s1_def\<close>)
  moreover have "session_inv (Close_on_strand s1)"
    using inv_Close_on_strand [of s1] False c by (simp add: s1_def)
  ultimately show ?thesis by (simp add: eq)
qed

lemma inv_run_task:
  assumes "session_inv s" "strand s = t # ts"
  shows "session_inv (run_task now t (s\<lparr>strand := ts\<rparr>))"
proof (cases t)
  case (PostedWrite b)
  with assms inv_run_write show ?thesis by (simp add: run_task_def)
next
  case (PostedDrain tm h)
  with assms inv_run_drain show ?thesis by (simp add: run_task_def)
next
  case (PostedClose h)
  have "closed s" using assms PostedClose by (auto simp: inv_simps)
  then show ?thesis
    using inv_run_close [of "s\<lparr>strand := ts\<rparr>" h] closing_strand [OF assms] PostedClose
    by (simp add: run_task_def)
qed

lemma inv_drain_expired: "session_inv s \<Longrightarrow> session_inv (drain_expired s)"
proof -
  assume inv: "session_inv s"
  show ?thesis
  proof (cases "closed s")
    case True
    with inv show ?thesis by (auto simp: drain_expired_def Close_on_strand_def inv_simps)
  next
    case False
    with inv_Close_on_strand [of "s\<lparr>drain_timer := None\<rparr>"] closing_inv [OF inv]
    show ?thesis by (simp add: drain_expired_def closing_def tasks_def)
  qed
qed

lemma inv_step: "session_step s s' \<Longrightarrow> session_inv s \<Longrightarrow> session_inv s'"
  by (induction rule: session_step.induct)
    (simp_all add: inv_Send inv_NotifyOffline inv_Close inv_DrainAndClose inv_Bind inv_flags inv_post
      inv_run_task inv_HandleWrite inv_drain_expired HandleReadFailure_def inv_Close_on_strand)

interpretation session: invariant_system session_init session_step session_inv
  by unfold_locales (auto simp: session_init_def intro: inv_CSession inv_step)

section \<open>Letting the strand finish\<close>

text \<open>The scheduler left alone: every posted task reaches the strand and runs, in order.\<close>

fun run_strand :: "int \<Rightarrow> nat \<Rightarrow> csession \<Rightarrow> csession" where
  "run_strand now 0 s = s"
| "run_strand now (Suc n) s =
     (case strand s of [] \<Rightarrow> s | t # ts \<Rightarrow> run_strand now n (run_task now t (s\<lparr>strand := ts\<rparr>)))"

definition settle :: "int \<Rightarrow> csession \<Rightarrow> csession" where
  "settle now s = run_strand now (length (tasks s)) (s\<lparr>posting := [], strand := strand s @ posting s\<rparr>)"

lemmas task_defs = run_task_def run_write_def run_close_def run_drain_def StartWrite_def
  Close_on_strand_def CloseOnExecutor_def DealExceptionSession_def Let_def

lemma run_task_frame [simp]:
  "posting (run_task now t s) = posting s" "strand (run_task now t s) = strand s"
  by (cases t; simp add: task_defs split: option.split list.split)+

lemma run_task_closed: "closed s \<Longrightarrow> closed (run_task now t s)"
  by (cases t) (simp_all add: task_defs split: option.split list.split)

lemma run_task_caw: "close_after_write s \<Longrightarrow> close_after_write (run_task now t s)"
  by (cases t) (simp_all add: task_defs split: option.split list.split)

lemma run_strand_inv:
  assumes "session_inv s" "posting s = []" "length (strand s) = n"
  shows "session_inv (run_strand now n s)" "tasks (run_strand now n s) = []"
    "closed s \<Longrightarrow> closed (run_strand now n s)"
    "close_after_write s \<Longrightarrow> close_after_write (run_strand now n s)"
proof -
  have "session_inv (run_strand now n s) \<and> tasks (run_strand now n s) = [] \<and>
      (closed s \<longrightarrow> closed (run_strand now n s)) \<and>
      (close_after_write s \<longrightarrow> close_after_write (run_strand now n s))"
    using assms
  proof (induction n arbitrary: s)
    case 0
    then show ?case by (simp add: tasks_def)
  next
    case (Suc n)
    then obtain t ts where t: "strand s = t # ts" by (cases "strand s") auto
    let ?s = "run_task now t (s\<lparr>strand := ts\<rparr>)"
    have "session_inv ?s" "posting ?s = []" "length (strand ?s) = n"
      using Suc.prems t inv_run_task [of s t ts] by simp_all
    from Suc.IH [OF this] show ?case
      using t run_task_closed [of "s\<lparr>strand := ts\<rparr>" now t] run_task_caw [of "s\<lparr>strand := ts\<rparr>" now t]
      by auto
  qed
  then show "session_inv (run_strand now n s)" "tasks (run_strand now n s) = []"
    "closed s \<Longrightarrow> closed (run_strand now n s)"
    "close_after_write s \<Longrightarrow> close_after_write (run_strand now n s)" by blast+
qed

lemma inv_all_posted:
  "session_inv s \<Longrightarrow> session_inv (s\<lparr>posting := [], strand := strand s @ posting s\<rparr>)"
  by (auto simp: inv_simps)

lemma settle_inv:
  assumes "session_inv s"
  shows "session_inv (settle now s)" "tasks (settle now s) = []"
    "closed s \<Longrightarrow> closed (settle now s)"
    "close_after_write s \<Longrightarrow> close_after_write (settle now s)"
  using run_strand_inv [OF inv_all_posted [OF assms], of "length (tasks s)" now]
  by (simp_all add: settle_def tasks_def)

lemma settled_closed:
  "session_inv s \<Longrightarrow> tasks s = [] \<Longrightarrow> closed s \<Longrightarrow>
    \<not> socket_open s \<and> send_queue s = [] \<and> mset (called s) = mset (registered s)"
  by (auto simp: inv_simps)

lemma Close_on_strand_open:
  "\<not> closed s \<Longrightarrow> \<not> socket_open (Close_on_strand s) \<and> started (Close_on_strand s) = started s \<and>
    admitted (Close_on_strand s) = admitted s"
  by (simp add: task_defs)

text \<open>Successful writes alone empty a retiring session and then close it.\<close>

lemma writes_drain:
  assumes "session_inv s" "\<not> closed s" "write_active s" "close_after_write s"
  shows "\<not> socket_open ((HandleWrite False ^^ length (send_queue s)) s) \<and>
    started ((HandleWrite False ^^ length (send_queue s)) s) = admitted s"
  using assms
proof (induction "length (send_queue s)" arbitrary: s)
  case 0
  then show ?case by (auto simp: inv_simps)
next
  case (Suc n)
  define s1 where "s1 = s\<lparr>write_active := False, in_flight := None, send_queue := tl (send_queue s)\<rparr>"
  from Suc.prems have adm: "admitted s = started s @ tl (send_queue s)" by (simp add: inv_simps)
  have step: "HandleWrite False s = (if tl (send_queue s) = [] then Close_on_strand s1 else StartWrite s1)"
    using Suc.prems by (simp add: HandleWrite_def s1_def)
  show ?case
  proof (cases "tl (send_queue s) = []")
    case True
    with Suc have "n = 0" by (cases "send_queue s") auto
    with True step adm Close_on_strand_open [of s1] Suc.hyps Suc.prems show ?thesis
      by (simp flip: Suc.hyps(2) add: s1_def)
  next
    case False
    let ?s = "HandleWrite False s"
    have inv: "session_inv ?s" using inv_HandleWrite Suc.prems by blast
    have f: "send_queue ?s = tl (send_queue s)" "\<not> closed ?s" "write_active ?s" "close_after_write ?s"
      "admitted ?s = admitted s"
      using step False Suc.prems by (auto simp: StartWrite_def s1_def split: list.splits)
    have "n = length (send_queue ?s)" using f Suc.hyps(2) by simp
    with Suc.hyps(1) [OF this inv f(2-4)] f(5) show ?thesis
      by (simp flip: Suc.hyps(2) add: funpow_Suc_right del: funpow.simps)
  qed
qed

section \<open>Properties of a session\<close>

text \<open>C4: Under every interleaving of senders, closers and strand handlers, the send queue
  holds at most \<^verbatim>\<open>MAX_SENDQUE\<close> nodes; the nodes handed to the socket are a prefix of the
  nodes admitted, in admission order; and while the session is open the node being written is
  the head of the queue, nothing admitted is lost, and a non-empty queue always has a write in
  flight or a \<^verbatim>\<open>StartWrite\<close> on its way (no lost wakeup).\<close>

theorem session_sends_in_order:
  assumes "session_reachable s"
  shows "length (send_queue s) \<le> MAX_SENDQUE \<and> prefix (started s) (admitted s) \<and>
    (\<not> closed s \<longrightarrow>
      (write_active s \<longrightarrow> send_queue s \<noteq> [] \<and> in_flight s = Some (hd (send_queue s))) \<and>
      admitted s = started s @ (if write_active s then tl (send_queue s) else send_queue s) \<and>
      (send_queue s \<noteq> [] \<longrightarrow> write_active s \<or> (\<exists>b. PostedWrite b \<in> set (posting s @ strand s))))"
  using session.reachable_inv [OF assms] unfolding session_inv_def open_inv_def tasks_def by blast

text \<open>C5: A session cleans up exactly once, after its socket is closed, and with the user it
  ended up bound to: a login that races the close is either refused or seen by the cleanup. Every
  callback given to \<^verbatim>\<open>Close\<close> or \<^verbatim>\<open>DrainAndClose\<close> is called at most once and never
  before the socket is closed; the callbacks not yet called are held by the session or by a task
  still to run.\<close>

theorem session_cleans_up_once:
  assumes "session_reachable s"
  shows "cleanups s = (if socket_open s then [] else [user_id s]) \<and>
    (called s \<noteq> [] \<longrightarrow> \<not> socket_open s) \<and>
    mset (registered s) =
      mset (called s) + mset (close_handlers s) + mset (concat (map callback (posting s @ strand s)))"
  using session.reachable_inv [OF assms] unfolding session_inv_def close_inv_def tasks_def by auto

text \<open>C6: Closing completes. From any reachable state in which the session was closed, once the
  tasks already scheduled have run the socket is closed, the queue is empty, the cleanup has
  happened and every registered callback has been called exactly once.\<close>

theorem session_close_completes:
  assumes "session_reachable s" "closed s"
  shows "\<not> socket_open (settle now s) \<and> send_queue (settle now s) = [] \<and>
    cleanups (settle now s) = [user_id (settle now s)] \<and>
    mset (called (settle now s)) = mset (registered (settle now s))"
proof -
  note st = settle_inv [OF session.reachable_inv [OF assms(1)], of now]
  note cl = settled_closed [OF st(1,2) st(3) [OF assms(2)]]
  have "cleanups (settle now s) = (if socket_open (settle now s) then [] else [user_id (settle now s)])"
    using st(1) unfolding session_inv_def close_inv_def by simp
  with cl show ?thesis by simp
qed

text \<open>A retiring session drains and then closes. From any reachable state in which a final
  notice was admitted or a drain requested, once the scheduled tasks have run either the socket is
  already closed, or a write is in flight and the drain deadline is armed; then expiry of the
  deadline closes the socket, and successful completion of the queued writes hands every admitted
  node to the socket before closing it.\<close>

theorem retiring_session_drains:
  assumes "session_reachable s" "close_after_write s"
  shows "let s' = settle now s in
    \<not> socket_open s' \<or>
    (write_active s' \<and> drain_timer s' \<noteq> None \<and> \<not> socket_open (drain_expired s') \<and>
     \<not> socket_open ((HandleWrite False ^^ length (send_queue s')) s') \<and>
     started ((HandleWrite False ^^ length (send_queue s')) s') = admitted s')"
proof -
  define s' where "s' = settle now s"
  note st = settle_inv [OF session.reachable_inv [OF assms(1)], of now, folded s'_def]
  show ?thesis
  proof (cases "closed s'")
    case True
    with settled_closed [OF st(1,2)] show ?thesis by (simp add: s'_def [symmetric])
  next
    case False
    with st assms(2) have w: "write_active s'" "drain_timer s' \<noteq> None"
      by (auto simp: inv_simps)
    moreover have "\<not> socket_open (drain_expired s')"
      using Close_on_strand_open [of "s'\<lparr>drain_timer := None\<rparr>"] False by (simp add: drain_expired_def)
    ultimately show ?thesis
      using writes_drain [OF st(1) False w(1) st(4)] assms(2) by (simp add: s'_def [symmetric])
  qed
qed

text \<open>A session that was sent one message and then told that its user logged in elsewhere.\<close>

definition bye_json :: jsoncpp where
  "bye_json = \<lparr>parse = (\<lambda>s. (False, JNull)), toStyledString = (\<lambda>d. ''bye''),
     writeString = (\<lambda>d. []), realToString = (\<lambda>r. [])\<rparr>"

definition kicked :: csession where
  "kicked = NotifyOffline bye_json 7 (Send ''hi'' 1006 (CSession 0))"

lemma session_reachI: "session_reachable s \<Longrightarrow> session_step s s' \<Longrightarrow> session_reachable s'"
  by (rule reachable.reach_step)

lemma fresh_reachable: "session_reachable (CSession now)"
  by (rule reachable.reach_init) (auto simp: session_init_def)

lemma kicked_reachable: "session_reachable kicked"
  unfolding kicked_def
  by (rule session_reachI [OF session_reachI [OF fresh_reachable session_step.send] session_step.notify])

lemmas kicked_evals = kicked_def NotifyOffline_def Send_def Send_buffer_def CSession_def SendNode_def
  MsgNode_def memcpy_def size_t_of_def head_simps MAX_LENGTH_def QueueSend_def MAX_SENDQUE_def
  host_to_network_short_def bye_json_def Let_def

lemma kicked_facts:
  "close_after_write kicked" "length (send_queue kicked) = 2" "length (admitted kicked) = 2" "\<not> closed kicked"
  by (simp_all add: kicked_evals)

theorem session_sends_in_order_witness:
  "session_reachable kicked \<and> (write_active kicked \<or> (\<exists>b. PostedWrite b \<in> set (posting kicked @ strand kicked)))"
proof -
  have "send_queue kicked \<noteq> []" using kicked_facts(2) by (metis list.size(3) zero_neq_numeral)
  then show ?thesis
    using session_sends_in_order [OF kicked_reachable] kicked_reachable kicked_facts(4) by blast
qed

theorem session_cleans_up_once_witness:
  "cleanups (HandleReadFailure kicked) = (if socket_open (HandleReadFailure kicked) then [] else [user_id (HandleReadFailure kicked)])"
  using session_cleans_up_once [OF session_reachI [OF kicked_reachable session_step.read_failed]] by blast

lemma close_reachable: "session_reachable (Close (Some 3) kicked)" "closed (Close (Some 3) kicked)"
  by (rule session_reachI [OF kicked_reachable session_step.close]) (simp add: Close_def)

theorem session_close_completes_witness:
  "\<not> socket_open (settle 5 (Close (Some 3) kicked)) \<and>
   mset (called (settle 5 (Close (Some 3) kicked))) = mset (registered (settle 5 (Close (Some 3) kicked)))"
  using session_close_completes [OF close_reachable] by blast

lemma kicked_settled: "socket_open (settle 5 kicked)"
  by (simp add: kicked_evals settle_def tasks_def run_task_def run_write_def StartWrite_def ArmDrainDeadline_def)

theorem retiring_session_drains_witness:
  "socket_open (settle 5 kicked) \<and>
   started ((HandleWrite False ^^ length (send_queue (settle 5 kicked))) (settle 5 kicked)) = admitted (settle 5 kicked)"
  using retiring_session_drains [OF kicked_reachable kicked_facts(1), of 5] kicked_settled by (simp add: Let_def)

end
