(* ===== verification/Executor.thy ===== *)
theory Executor
  imports Prelude "HOL-Library.Sublist"
begin

text \<open>
  \<^verbatim>\<open>BusinessExecutor\<close> (the bounded, keyed worker pool that runs every request, cleanup
  and maintenance task) and \<^verbatim>\<open>MetricsLogPolicy.h\<close>. Each critical section of the code is
  one step on the record: \<^verbatim>\<open>Submit\<close>, \<^verbatim>\<open>BeginStop\<close>, \<^verbatim>\<open>Stop\<close>, and the
  two sections of a worker's loop in \<^verbatim>\<open>RunLane\<close>, between which its task runs. The hash
  function is a parameter (\<^verbatim>\<open>std::hash\<close> promises only a function of the key). Times are
  rationals in milliseconds. The fields from \<open>submitted\<close> on record history.
\<close>

record business_metrics =
  m_queued :: nat
  m_active :: nat
  m_high_water :: nat
  m_completed :: nat
  m_rejected :: nat
  m_failed :: nat
  total_wait_ms :: rat
  total_run_ms :: rat
  max_wait_ms :: rat
  max_run_ms :: rat

definition BusinessMetrics :: business_metrics where
  "BusinessMetrics = \<lparr>m_queued = 0, m_active = 0, m_high_water = 0, m_completed = 0, m_rejected = 0,
     m_failed = 0, total_wait_ms = 0, total_run_ms = 0, max_wait_ms = 0, max_run_ms = 0\<rparr>"

record btask =
  task_key :: string
  task_run :: nat
  enqueued :: rat

record lane =
  lane_tasks :: "btask list"
  lane_running :: "(btask \<times> rat) option"
  lane_exited :: bool

record executor =
  queue_limit :: nat
  lanes :: "lane list"
  accepting :: bool
  metrics :: business_metrics
  submitted :: "btask list"
  begun :: "btask list"
  discarded :: nat

text \<open>Starting the threads may fail, which stops the executor and rethrows: \<^term>\<open>None\<close>.\<close>

definition BusinessExecutor :: "nat \<Rightarrow> nat \<Rightarrow> bool \<Rightarrow> executor option" where
  "BusinessExecutor workers limit threads_start =
     (if workers = 0 \<or> workers > 16 \<or> limit = 0 \<or> \<not> threads_start then None
      else Some \<lparr>queue_limit = limit,
        lanes = replicate workers \<lparr>lane_tasks = [], lane_running = None, lane_exited = False\<rparr>,
        accepting = True, metrics = BusinessMetrics, submitted = [], begun = [], discarded = 0\<rparr>)"

definition lane_of :: "(string \<Rightarrow> nat) \<Rightarrow> executor \<Rightarrow> string \<Rightarrow> nat" where
  "lane_of hash e key = hash key mod length (lanes e)"

definition Submit :: "(string \<Rightarrow> nat) \<Rightarrow> string \<Rightarrow> nat option \<Rightarrow> rat \<Rightarrow> executor \<Rightarrow> bool \<times> executor" where
  "Submit hash key run now e =
     (case run of
        None \<Rightarrow> (False, e\<lparr>metrics := (metrics e)\<lparr>m_rejected := m_rejected (metrics e) + 1\<rparr>\<rparr>)
      | Some r \<Rightarrow>
         if \<not> accepting e \<or> m_queued (metrics e) \<ge> queue_limit e
         then (False, e\<lparr>metrics := (metrics e)\<lparr>m_rejected := m_rejected (metrics e) + 1\<rparr>\<rparr>)
         else let t = \<lparr>task_key = key, task_run = r, enqueued = now\<rparr>;
                  i = lane_of hash e key; l = lanes e ! i; q = m_queued (metrics e) + 1
              in (True, e\<lparr>lanes := (lanes e)[i := l\<lparr>lane_tasks := lane_tasks l @ [t]\<rparr>],
                     metrics := (metrics e)\<lparr>m_queued := q, m_high_water := max (m_high_water (metrics e)) q\<rparr>,
                     submitted := submitted e @ [t]\<rparr>))"

definition Snapshot :: "executor \<Rightarrow> business_metrics" where
  "Snapshot e = metrics e"

definition BeginStop :: "executor \<Rightarrow> executor" where
  "BeginStop e = e\<lparr>accepting := False\<rparr>"

text \<open>The condition \<^verbatim>\<open>WaitIdleUntil\<close> waits for; its result at the deadline.\<close>

definition idle :: "executor \<Rightarrow> bool" where
  "idle e \<longleftrightarrow> m_queued (metrics e) = 0 \<and> m_active (metrics e) = 0"

text \<open>The locked part of \<^verbatim>\<open>Stop\<close>; joining the workers waits until all have exited.\<close>

definition waiting :: "executor \<Rightarrow> nat" where
  "waiting e = sum_list (map (\<lambda>l. length (lane_tasks l)) (lanes e))"

definition Stop :: "bool \<Rightarrow> executor \<Rightarrow> nat \<times> executor" where
  "Stop drain e =
     (if drain then (0, e\<lparr>accepting := False\<rparr>)
      else (waiting e, e\<lparr>accepting := False, lanes := map (\<lambda>l. l\<lparr>lane_tasks := []\<rparr>) (lanes e),
              metrics := (metrics e)\<lparr>m_queued := m_queued (metrics e) - waiting e\<rparr>,
              discarded := discarded e + waiting e\<rparr>))"

definition joined :: "executor \<Rightarrow> bool" where
  "joined e \<longleftrightarrow> list_all lane_exited (lanes e)"

text \<open>A worker of lane \<open>i\<close> past its wait: it returns on an empty lane, else takes the head.\<close>

definition worker_ready :: "nat \<Rightarrow> executor \<Rightarrow> bool" where
  "worker_ready i e \<longleftrightarrow> i < length (lanes e) \<and> \<not> lane_exited (lanes e ! i) \<and>
     lane_running (lanes e ! i) = None \<and> (\<not> accepting e \<or> lane_tasks (lanes e ! i) \<noteq> [])"

definition take_task :: "nat \<Rightarrow> rat \<Rightarrow> executor \<Rightarrow> executor" where
  "take_task i now e =
     (let l = lanes e ! i in
      case lane_tasks l of
        [] \<Rightarrow> e\<lparr>lanes := (lanes e)[i := l\<lparr>lane_exited := True\<rparr>]\<rparr>
      | t # ts \<Rightarrow>
          e\<lparr>lanes := (lanes e)[i := l\<lparr>lane_tasks := ts, lane_running := Some (t, now)\<rparr>],
            metrics := (metrics e)\<lparr>m_queued := m_queued (metrics e) - 1, m_active := m_active (metrics e) + 1\<rparr>,
            begun := begun e @ [t]\<rparr>)"

definition finish_task :: "nat \<Rightarrow> bool \<Rightarrow> rat \<Rightarrow> executor \<Rightarrow> executor" where
  "finish_task i failed finished e =
     (case lane_running (lanes e ! i) of None \<Rightarrow> e
      | Some (t, began) \<Rightarrow>
         (let m = metrics e; wait = began - enqueued t; run = finished - began
          in e\<lparr>lanes := (lanes e)[i := (lanes e ! i)\<lparr>lane_running := None\<rparr>],
               metrics := m\<lparr>m_active := m_active m - 1, m_completed := m_completed m + 1,
                 m_failed := m_failed m + (if failed then 1 else 0),
                 total_wait_ms := total_wait_ms m + wait, total_run_ms := total_run_ms m + run,
                 max_wait_ms := max (max_wait_ms m) wait, max_run_ms := max (max_run_ms m) run\<rparr>\<rparr>))"

inductive executor_step :: "(string \<Rightarrow> nat) \<Rightarrow> executor \<Rightarrow> executor \<Rightarrow> bool" for hash where
  submit: "executor_step hash e (snd (Submit hash key run now e))"
| begin_stop: "executor_step hash e (BeginStop e)"
| stop: "executor_step hash e (snd (Stop drain e))"
| worker_take: "worker_ready i e \<Longrightarrow> executor_step hash e (take_task i now e)"
| worker_finish: "i < length (lanes e) \<Longrightarrow> lane_running (lanes e ! i) \<noteq> None \<Longrightarrow>
    executor_step hash e (finish_task i failed finished e)"

definition executor_init :: "executor \<Rightarrow> bool" where
  "executor_init e \<longleftrightarrow> (\<exists>workers limit. BusinessExecutor workers limit True = Some e)"

section \<open>The invariant\<close>

definition running :: "executor \<Rightarrow> nat" where
  "running e = sum_list (map (\<lambda>l. if lane_running l = None then 0 else 1) (lanes e))"

definition keyed :: "string \<Rightarrow> btask list \<Rightarrow> btask list" where
  "keyed k ts = filter (\<lambda>t. task_key t = k) ts"

definition counts_inv :: "executor \<Rightarrow> bool" where
  "counts_inv e \<longleftrightarrow>
     m_queued (metrics e) = waiting e \<and> m_active (metrics e) = running e \<and>
     m_queued (metrics e) \<le> queue_limit e \<and> m_queued (metrics e) \<le> m_high_water (metrics e) \<and>
     m_high_water (metrics e) \<le> queue_limit e \<and>
     length (submitted e) = m_completed (metrics e) + running e + waiting e + discarded e \<and>
     m_failed (metrics e) \<le> m_completed (metrics e) \<and> (accepting e \<longrightarrow> discarded e = 0)"

definition lane_inv :: "(string \<Rightarrow> nat) \<Rightarrow> nat \<Rightarrow> nat \<Rightarrow> bool \<Rightarrow> lane \<Rightarrow> bool" where
  "lane_inv hash n i acc l \<longleftrightarrow>
     (\<forall>t \<in> set (lane_tasks l). hash (task_key t) mod n = i) \<and>
     (\<forall>t s. lane_running l = Some (t, s) \<longrightarrow> hash (task_key t) mod n = i) \<and>
     (lane_exited l \<longrightarrow> \<not> acc \<and> lane_tasks l = [] \<and> lane_running l = None)"

definition lanes_inv :: "(string \<Rightarrow> nat) \<Rightarrow> executor \<Rightarrow> bool" where
  "lanes_inv hash e \<longleftrightarrow> 0 < length (lanes e) \<and> length (lanes e) \<le> 16 \<and>
     (\<forall>i < length (lanes e). lane_inv hash (length (lanes e)) i (accepting e) (lanes e ! i))"

definition fifo_inv :: "(string \<Rightarrow> nat) \<Rightarrow> executor \<Rightarrow> bool" where
  "fifo_inv hash e \<longleftrightarrow>
     (\<forall>k. let ts = keyed k (begun e) @ keyed k (lane_tasks (lanes e ! lane_of hash e k)) in
        prefix ts (keyed k (submitted e)) \<and> (discarded e = 0 \<longrightarrow> ts = keyed k (submitted e)))"

definition executor_inv :: "(string \<Rightarrow> nat) \<Rightarrow> executor \<Rightarrow> bool" where
  "executor_inv hash e \<longleftrightarrow> counts_inv e \<and> lanes_inv hash e \<and> fifo_inv hash e"

lemma sum_list_upd:
  fixes f :: "'a \<Rightarrow> nat"
  shows "i < length xs \<Longrightarrow> sum_list (map f (xs[i := x])) + f (xs ! i) = sum_list (map f xs) + f x"
  by (induction xs arbitrary: i) (auto split: nat.split)

lemma waiting_upd:
  "i < length (lanes e) \<Longrightarrow>
    sum_list (map (\<lambda>l. length (lane_tasks l)) ((lanes e)[i := l])) + length (lane_tasks (lanes e ! i)) =
    waiting e + length (lane_tasks l)"
  unfolding waiting_def by (rule sum_list_upd)

lemma running_upd:
  "i < length (lanes e) \<Longrightarrow>
    sum_list (map (\<lambda>l. if lane_running l = None then 0 else 1) ((lanes e)[i := l])) +
      (if lane_running (lanes e ! i) = None then 0 else 1) =
    running e + (if lane_running l = None then 0 else (1 :: nat))"
  unfolding running_def by (rule sum_list_upd)

lemma waiting_nth: "i < length (lanes e) \<Longrightarrow> length (lane_tasks (lanes e ! i)) \<le> waiting e"
  unfolding waiting_def by (rule member_le_sum_list) auto

lemma running_nth: "i < length (lanes e) \<Longrightarrow> lane_running (lanes e ! i) \<noteq> None \<Longrightarrow> 0 < running e"
  using running_upd [of i e "(lanes e ! i)\<lparr>lane_running := None\<rparr>"] by (auto split: if_splits)

lemma lane_of_less [simp]: "lanes_inv hash e \<Longrightarrow> lane_of hash e k < length (lanes e)"
  by (simp add: lane_of_def lanes_inv_def)

lemma inv_init: "executor_init e \<Longrightarrow> executor_inv hash e"
  by (auto simp: executor_init_def BusinessExecutor_def executor_inv_def counts_inv_def lanes_inv_def
      lane_inv_def fifo_inv_def waiting_def running_def BusinessMetrics_def keyed_def lane_of_def
      sum_list_replicate split: if_splits)

subsection \<open>Submission\<close>

lemma Submit_cases:
  obtains (rejected) m where "Submit hash k r now e = (False, e\<lparr>metrics := (metrics e)\<lparr>m_rejected := m\<rparr>\<rparr>)"
  | (accepted) t where "task_key t = k" "accepting e" "m_queued (metrics e) < queue_limit e"
      "Submit hash k r now e = (True, e\<lparr>
         lanes := (lanes e)[lane_of hash e k := (lanes e ! lane_of hash e k)\<lparr>lane_tasks :=
           lane_tasks (lanes e ! lane_of hash e k) @ [t]\<rparr>],
         metrics := (metrics e)\<lparr>m_queued := m_queued (metrics e) + 1,
           m_high_water := max (m_high_water (metrics e)) (m_queued (metrics e) + 1)\<rparr>,
         submitted := submitted e @ [t]\<rparr>)"
proof (cases "r = None \<or> \<not> accepting e \<or> m_queued (metrics e) \<ge> queue_limit e")
  case True
  then have "Submit hash k r now e =
      (False, e\<lparr>metrics := (metrics e)\<lparr>m_rejected := m_rejected (metrics e) + 1\<rparr>\<rparr>)"
    by (auto simp: Submit_def split: option.split)
  then show thesis by (rule rejected)
next
  case False
  then obtain x where "r = Some x" by auto
  with False show thesis
    by (intro accepted [of "\<lparr>task_key = k, task_run = x, enqueued = now\<rparr>"]) (auto simp: Submit_def Let_def)
qed

lemma inv_rejected:
  "executor_inv hash e \<Longrightarrow> executor_inv hash (e\<lparr>metrics := (metrics e)\<lparr>m_rejected := m\<rparr>\<rparr>)"
  by (simp add: executor_inv_def counts_inv_def lanes_inv_def fifo_inv_def waiting_def running_def lane_of_def)

lemma inv_submit: "executor_inv hash e \<Longrightarrow> executor_inv hash (snd (Submit hash k r now e))"
proof (cases rule: Submit_cases [of hash k r now e])
  case (rejected m)
  then show "executor_inv hash e \<Longrightarrow> ?thesis" by (simp add: inv_rejected)
next
  case (accepted t)
  assume inv: "executor_inv hash e"
  define i where "i = lane_of hash e k"
  have i: "i < length (lanes e)" using inv by (simp add: i_def executor_inv_def)
  let ?l = "(lanes e ! i)\<lparr>lane_tasks := lane_tasks (lanes e ! i) @ [t]\<rparr>"
  let ?e = "snd (Submit hash k r now e)"
  have e: "lanes ?e = (lanes e)[i := ?l]" "accepting ?e" "submitted ?e = submitted e @ [t]"
    "begun ?e = begun e" "discarded ?e = discarded e" "queue_limit ?e = queue_limit e"
    "metrics ?e = (metrics e)\<lparr>m_queued := m_queued (metrics e) + 1,
           m_high_water := max (m_high_water (metrics e)) (m_queued (metrics e) + 1)\<rparr>"
    using accepted by (simp_all add: i_def)
  have "waiting ?e = waiting e + 1" "running ?e = running e"
    using waiting_upd [OF i, of ?l] running_upd [OF i, of ?l] by (simp_all add: waiting_def running_def e)
  then have "counts_inv ?e"
    using inv accepted(2,3) by (simp add: executor_inv_def counts_inv_def e)
  moreover have "lanes_inv hash ?e"
    using inv accepted(1,2) by (auto simp: executor_inv_def lanes_inv_def lane_inv_def e nth_list_update
        i_def lane_of_def)
  moreover have "fifo_inv hash ?e"
    unfolding fifo_inv_def
  proof (intro allI)
    fix k'
    have eq: "lane_of hash ?e k' = lane_of hash e k'" by (simp add: lane_of_def e)
    have "discarded e = 0" using inv accepted(2) by (simp add: executor_inv_def counts_inv_def)
    then have old: "keyed k' (begun e) @ keyed k' (lane_tasks (lanes e ! lane_of hash e k')) = keyed k' (submitted e)"
      using inv by (simp add: executor_inv_def fifo_inv_def Let_def)
    have "keyed k' (begun e) @ keyed k' (lane_tasks (lanes ?e ! lane_of hash e k')) = keyed k' (submitted e @ [t])"
    proof (cases "lane_of hash e k' = i")
      case True
      with old i show ?thesis by (simp add: e keyed_def)
    next
      case False
      then have "task_key t \<noteq> k'" using accepted(1) by (auto simp: i_def)
      with old False show ?thesis by (simp add: e keyed_def)
    qed
    then show "let ts = keyed k' (begun ?e) @ keyed k' (lane_tasks (lanes ?e ! lane_of hash ?e k')) in
        prefix ts (keyed k' (submitted ?e)) \<and> (discarded ?e = 0 \<longrightarrow> ts = keyed k' (submitted ?e))"
      by (simp add: Let_def eq e(3,4,5))
  qed
  ultimately show ?thesis by (simp add: executor_inv_def)
qed

subsection \<open>Stopping\<close>

lemma inv_BeginStop: "executor_inv hash e \<Longrightarrow> executor_inv hash (BeginStop e)"
  by (simp add: executor_inv_def counts_inv_def lanes_inv_def lane_inv_def fifo_inv_def waiting_def
      running_def lane_of_def BeginStop_def)

lemma sum_list_zero_map: "sum_list (map (\<lambda>x. 0) xs) = (0 :: nat)"
  by (induction xs) auto

lemma inv_Stop: "executor_inv hash e \<Longrightarrow> executor_inv hash (snd (Stop drain e))"
proof (cases drain)
  case True
  then show "executor_inv hash e \<Longrightarrow> ?thesis" using inv_BeginStop by (simp add: Stop_def BeginStop_def)
next
  case False
  assume inv: "executor_inv hash e"
  let ?e = "snd (Stop drain e)"
  have e: "lanes ?e = map (\<lambda>l. l\<lparr>lane_tasks := []\<rparr>) (lanes e)" "\<not> accepting ?e" "submitted ?e = submitted e"
    "begun ?e = begun e" "discarded ?e = discarded e + waiting e" "queue_limit ?e = queue_limit e"
    "metrics ?e = (metrics e)\<lparr>m_queued := m_queued (metrics e) - waiting e\<rparr>"
    using False by (simp_all add: Stop_def)
  have "waiting ?e = 0" "running ?e = running e"
    by (simp_all add: waiting_def running_def e comp_def sum_list_zero_map)
  then have "counts_inv ?e" using inv by (simp add: executor_inv_def counts_inv_def e)
  moreover have "lanes_inv hash ?e"
    using inv by (auto simp: executor_inv_def lanes_inv_def lane_inv_def e)
  moreover have "fifo_inv hash ?e"
    unfolding fifo_inv_def
  proof (intro allI)
    fix k
    have i: "lane_of hash e k < length (lanes e)" using inv by (simp add: executor_inv_def)
    have eq: "lane_of hash ?e k = lane_of hash e k" by (simp add: lane_of_def e)
    have none: "waiting e = 0 \<Longrightarrow> lane_tasks (lanes e ! lane_of hash e k) = []"
      using waiting_nth [OF i] by simp
    have "prefix (keyed k (begun e)) (keyed k (submitted e))"
      "discarded e = 0 \<Longrightarrow> keyed k (begun e) @ keyed k (lane_tasks (lanes e ! lane_of hash e k)) = keyed k (submitted e)"
      using inv by (auto simp: executor_inv_def fifo_inv_def Let_def dest: append_prefixD)
    moreover have "lane_tasks (lanes ?e ! lane_of hash e k) = []" using i by (simp add: e)
    ultimately show "let ts = keyed k (begun ?e) @ keyed k (lane_tasks (lanes ?e ! lane_of hash ?e k)) in
        prefix ts (keyed k (submitted ?e)) \<and> (discarded ?e = 0 \<longrightarrow> ts = keyed k (submitted ?e))"
      using none by (auto simp: e eq keyed_def)
  qed
  ultimately show ?thesis by (simp add: executor_inv_def)
qed

subsection \<open>Workers\<close>

lemma inv_take: "executor_inv hash e \<Longrightarrow> worker_ready i e \<Longrightarrow> executor_inv hash (take_task i now e)"
proof (cases "lane_tasks (lanes e ! i)")
  case Nil
  assume inv: "executor_inv hash e" and w: "worker_ready i e"
  let ?l = "(lanes e ! i)\<lparr>lane_exited := True\<rparr>"
  have i: "i < length (lanes e)" using w by (simp add: worker_ready_def)
  have e: "take_task i now e = e\<lparr>lanes := (lanes e)[i := ?l]\<rparr>" by (simp add: take_task_def Let_def Nil)
  have "lane_tasks ((lanes e)[i := ?l] ! j) = lane_tasks (lanes e ! j)" for j
    using i by (simp add: nth_list_update Nil)
  moreover have "counts_inv (e\<lparr>lanes := (lanes e)[i := ?l]\<rparr>)"
    using inv waiting_upd [OF i, of ?l] running_upd [OF i, of ?l]
    by (auto simp: executor_inv_def counts_inv_def waiting_def running_def split: if_splits)
  moreover have "lanes_inv hash (e\<lparr>lanes := (lanes e)[i := ?l]\<rparr>)"
    using inv w Nil by (auto simp: executor_inv_def lanes_inv_def lane_inv_def nth_list_update worker_ready_def)
  ultimately show ?thesis
    using inv unfolding e by (simp add: executor_inv_def fifo_inv_def lane_of_def)
next
  case (Cons t ts)
  assume inv: "executor_inv hash e" and w: "worker_ready i e"
  let ?l = "(lanes e ! i)\<lparr>lane_tasks := ts, lane_running := Some (t, now)\<rparr>"
  let ?e = "take_task i now e"
  have i: "i < length (lanes e)" "lane_running (lanes e ! i) = None" using w by (simp_all add: worker_ready_def)
  have e: "lanes ?e = (lanes e)[i := ?l]" "accepting ?e = accepting e" "submitted ?e = submitted e"
    "begun ?e = begun e @ [t]" "discarded ?e = discarded e" "queue_limit ?e = queue_limit e"
    "metrics ?e = (metrics e)\<lparr>m_queued := m_queued (metrics e) - 1, m_active := m_active (metrics e) + 1\<rparr>"
    by (simp_all add: take_task_def Let_def Cons)
  have "waiting e = waiting ?e + 1" "running ?e = running e + 1"
    using waiting_upd [OF i(1), of ?l] running_upd [OF i(1), of ?l] i(2) Cons
    by (simp_all add: waiting_def running_def e)
  then have "counts_inv ?e" using inv by (auto simp: executor_inv_def counts_inv_def e)
  moreover have "lanes_inv hash ?e"
    using inv w Cons by (auto simp: executor_inv_def lanes_inv_def lane_inv_def nth_list_update worker_ready_def e)
  moreover have "fifo_inv hash ?e"
    unfolding fifo_inv_def
  proof (intro allI)
    fix k
    have ki: "task_key t = k \<Longrightarrow> lane_of hash e k = i"
      using inv i(1) Cons by (auto simp: executor_inv_def lanes_inv_def lane_inv_def lane_of_def)
    have "lane_of hash ?e k = lane_of hash e k" by (simp add: lane_of_def e)
    moreover have "keyed k (begun ?e) @ keyed k (lane_tasks (lanes ?e ! lane_of hash e k)) =
        keyed k (begun e) @ keyed k (lane_tasks (lanes e ! lane_of hash e k))"
      using Cons i(1) ki by (cases "lane_of hash e k = i") (auto simp: e keyed_def)
    ultimately show "let ts = keyed k (begun ?e) @ keyed k (lane_tasks (lanes ?e ! lane_of hash ?e k)) in
        prefix ts (keyed k (submitted ?e)) \<and> (discarded ?e = 0 \<longrightarrow> ts = keyed k (submitted ?e))"
      using inv by (simp add: executor_inv_def fifo_inv_def Let_def e)
  qed
  ultimately show ?thesis by (simp add: executor_inv_def)
qed

lemma inv_finish:
  assumes inv: "executor_inv hash e" and i: "i < length (lanes e)" "lane_running (lanes e ! i) \<noteq> None"
  shows "executor_inv hash (finish_task i failed now e)"
proof -
  let ?l = "(lanes e ! i)\<lparr>lane_running := None\<rparr>"
  obtain t b where t: "lane_running (lanes e ! i) = Some (t, b)" using i(2) by auto
  let ?e = "finish_task i failed now e"
  have e: "lanes ?e = (lanes e)[i := ?l]" "accepting ?e = accepting e" "submitted ?e = submitted e"
    "begun ?e = begun e" "discarded ?e = discarded e" "queue_limit ?e = queue_limit e"
    "m_queued (metrics ?e) = m_queued (metrics e)" "m_active (metrics ?e) = m_active (metrics e) - 1"
    "m_completed (metrics ?e) = m_completed (metrics e) + 1"
    "m_failed (metrics ?e) = m_failed (metrics e) + (if failed then 1 else 0)"
    "m_high_water (metrics ?e) = m_high_water (metrics e)"
    by (simp_all add: finish_task_def Let_def t)
  have "waiting e = waiting ?e" "running e = running ?e + 1"
    using waiting_upd [OF i(1), of ?l] running_upd [OF i(1), of ?l] t
    by (simp_all add: waiting_def running_def e)
  then have "counts_inv ?e" using inv by (auto simp: executor_inv_def counts_inv_def e)
  moreover have "lanes_inv hash ?e"
    using inv t i by (auto simp: executor_inv_def lanes_inv_def lane_inv_def nth_list_update e)
  moreover have "lane_tasks (lanes ?e ! j) = lane_tasks (lanes e ! j)" for j
    using i(1) by (simp add: nth_list_update e)
  ultimately show ?thesis using inv by (simp add: executor_inv_def fifo_inv_def lane_of_def e)
qed

lemma executor_inv_step: "executor_step hash e e' \<Longrightarrow> executor_inv hash e \<Longrightarrow> executor_inv hash e'"
  by (induction rule: executor_step.induct) (simp_all add: inv_submit inv_BeginStop inv_Stop inv_take inv_finish)

interpretation executor: invariant_system executor_init "executor_step hash" "executor_inv hash" for hash
  by unfold_locales (auto intro: inv_init executor_inv_step)

section \<open>Properties of the executor\<close>

abbreviation executor_reachable :: "(string \<Rightarrow> nat) \<Rightarrow> executor \<Rightarrow> bool" where
  "executor_reachable hash \<equiv> reachable executor_init (executor_step hash)"

lemma sum_list_indicator_le: "sum_list (map (\<lambda>x. if P x then 0 else 1) xs) \<le> length xs"
  by (induction xs) auto

lemma running_le: "running e \<le> length (lanes e)"
  unfolding running_def by (rule sum_list_indicator_le)

text \<open>C8: The executor's bounds and accounts. In every reachable state the counters are exact
  (queued tasks are those in the lanes, active ones those being run), the queue never exceeds its
  limit, at most one task runs per worker and at most sixteen in all, and every accepted task is
  completed, running, waiting or was discarded by a stop: none is lost or counted twice.\<close>

theorem executor_bounded:
  assumes "executor_reachable hash e"
  shows "m_queued (Snapshot e) = waiting e \<and> waiting e \<le> queue_limit e \<and>
    m_high_water (Snapshot e) \<le> queue_limit e \<and>
    m_active (Snapshot e) = running e \<and> running e \<le> length (lanes e) \<and> length (lanes e) \<le> 16 \<and>
    length (submitted e) = m_completed (Snapshot e) + running e + waiting e + discarded e"
  using executor.reachable_inv [OF assms] running_le [of e]
  by (simp add: executor_inv_def counts_inv_def lanes_inv_def Snapshot_def)

text \<open>C7: Work of one connection is serialised. Whatever the hash function, the tasks of a key
  start in the order they were submitted, with none skipped, and two tasks of the same key never
  run at the same time.\<close>

theorem executor_keyed_fifo:
  assumes "executor_reachable hash e"
  shows "prefix (keyed k (begun e)) (keyed k (submitted e)) \<and>
    (\<forall>i < length (lanes e). \<forall>j < length (lanes e). \<forall>t u a b.
       lane_running (lanes e ! i) = Some (t, a) \<and> lane_running (lanes e ! j) = Some (u, b) \<and>
       task_key t = task_key u \<longrightarrow> i = j)"
proof -
  have inv: "lanes_inv hash e" "fifo_inv hash e"
    using executor.reachable_inv [OF assms] by (simp_all add: executor_inv_def)
  have "prefix (keyed k (begun e)) (keyed k (submitted e))"
    using inv(2) by (auto simp: fifo_inv_def Let_def dest: append_prefixD)
  moreover have "hash (task_key t) mod length (lanes e) = i"
    if "i < length (lanes e)" "lane_running (lanes e ! i) = Some (t, a)" for i t a
    using inv(1) that by (auto simp: lanes_inv_def lane_inv_def)
  ultimately show ?thesis by metis
qed

text \<open>C9: A draining stop runs everything. Once all workers have exited and no stop discarded
  tasks, every accepted task has been started in its key's order and has completed, and the
  executor is idle; a worker never exits while the executor accepts work.\<close>

theorem executor_drains:
  assumes "executor_reachable hash e" "joined e" "discarded e = 0"
  shows "idle e \<and> \<not> accepting e \<and> m_completed (Snapshot e) = length (submitted e) \<and>
    (\<forall>k. keyed k (begun e) = keyed k (submitted e))"
proof -
  have inv: "counts_inv e" "lanes_inv hash e" "fifo_inv hash e"
    using executor.reachable_inv [OF assms(1)] by (simp_all add: executor_inv_def)
  have l: "lane_tasks (lanes e ! i) = [] \<and> lane_running (lanes e ! i) = None \<and> \<not> accepting e"
    if "i < length (lanes e)" for i
    using inv(2) assms(2) that by (auto simp: lanes_inv_def lane_inv_def joined_def list_all_length)
  have "\<forall>x \<in> set (lanes e). lane_tasks x = [] \<and> lane_running x = None" using l by (auto simp: in_set_conv_nth)
  then have "waiting e = 0" "running e = 0" by (auto simp: waiting_def running_def)
  moreover have "\<not> accepting e" using l [of 0] inv(2) by (simp add: lanes_inv_def)
  moreover have "keyed k (begun e) = keyed k (submitted e)" for k
  proof -
    have "keyed k (begun e) @ keyed k (lane_tasks (lanes e ! lane_of hash e k)) = keyed k (submitted e)"
      using inv(3) assms(3) by (simp add: fifo_inv_def Let_def)
    then show ?thesis using l [of "lane_of hash e k"] inv(2) by (simp add: keyed_def)
  qed
  ultimately show ?thesis using inv(1) assms(3) by (simp add: counts_inv_def idle_def Snapshot_def)
qed

section \<open>When metrics are logged\<close>

datatype decision = Quiet | Summary | Warning

record log_policy =
  reported :: business_metrics
  last_summary :: rat
  last_warning :: rat
  interval :: rat
  warned :: bool

definition MetricsLogPolicy :: "rat \<Rightarrow> log_policy" where
  "MetricsLogPolicy now = \<lparr>reported = BusinessMetrics, last_summary = now, last_warning = 0,
     interval = 300 * 1000, warned = False\<rparr>"

definition SetInterval :: "rat \<Rightarrow> log_policy \<Rightarrow> log_policy" where
  "SetInterval seconds p = p\<lparr>interval := seconds * 1000\<rparr>"

definition Check :: "business_metrics \<Rightarrow> rat \<Rightarrow> bool \<Rightarrow> log_policy \<Rightarrow> decision \<times> log_policy" where
  "Check m now force p =
     (let r = reported p;
          errors = (m_failed m \<noteq> m_failed r \<or> m_rejected m \<noteq> m_rejected r);
          activity = (errors \<or> m_completed m \<noteq> m_completed r \<or> m_queued m \<noteq> 0 \<or> m_active m \<noteq> 0 \<or>
            m_queued r \<noteq> 0 \<or> m_active r \<noteq> 0)
      in if \<not> activity then (Quiet, p)
         else if errors
         then (if \<not> force \<and> warned p \<and> now - last_warning p < 60 * 1000 then (Quiet, p)
               else (Warning, p\<lparr>last_warning := now, warned := True, reported := m, last_summary := now\<rparr>))
         else (if \<not> force \<and> now - last_summary p < interval p then (Quiet, p)
               else (Summary, p\<lparr>reported := m, last_summary := now\<rparr>)))"

text \<open>Log reporting is rate limited and loses nothing: when no error is pending or sixty
  seconds have passed since the last warning, new failures or rejections are reported as a warning;
  an unforced warning never follows another within sixty seconds; and the policy forgets an
  unreported difference only by reporting it.\<close>

theorem error_reports:
  assumes "Check m now force p = (d, p')"
  shows "((m_failed m \<noteq> m_failed (reported p) \<or> m_rejected m \<noteq> m_rejected (reported p)) \<and>
      (force \<or> \<not> warned p \<or> 60 * 1000 \<le> now - last_warning p) \<longrightarrow>
      d = Warning \<and> reported p' = m \<and> last_warning p' = now \<and> warned p') \<and>
    (d = Warning \<and> \<not> force \<and> warned p \<longrightarrow> 60 * 1000 \<le> now - last_warning p) \<and>
    (d = Quiet \<longrightarrow> p' = p)"
  using assms by (auto simp: Check_def Let_def split: if_splits)

section \<open>A run of the executor\<close>

definition demo_executor :: executor where
  "demo_executor = the (BusinessExecutor 2 8 True)"

definition demo_hash :: "string \<Rightarrow> nat" where
  "demo_hash k = length k"

definition demo_running :: executor where
  "demo_running = take_task 1 5 (snd (Submit demo_hash ''b'' (Some 2) 1 (snd (Submit demo_hash ''a'' (Some 1) 0 demo_executor))))"

definition demo_stopped :: executor where
  "demo_stopped = take_task 0 9 (take_task 1 9 (finish_task 1 False 8 (take_task 1 7 (BeginStop (finish_task 1 False 6 demo_running)))))"

lemmas demo_evals = demo_executor_def demo_hash_def demo_running_def demo_stopped_def BusinessExecutor_def
  Submit_def take_task_def finish_task_def BeginStop_def worker_ready_def lane_of_def Let_def BusinessMetrics_def
  numeral_2_eq_2

lemma executor_reachI: "executor_reachable hash e \<Longrightarrow> executor_step hash e e' \<Longrightarrow> executor_reachable hash e'"
  by (rule reachable.reach_step)

lemma demo_executor_reachable: "executor_reachable demo_hash demo_executor"
  by (rule reachable.reach_init)
    (unfold executor_init_def, rule exI [of _ 2], rule exI [of _ 8], simp add: demo_executor_def BusinessExecutor_def)

lemma demo_running_reachable: "executor_reachable demo_hash demo_running"
  unfolding demo_running_def
  by (intro executor_reachI [OF _ executor_step.worker_take] executor_reachI [OF _ executor_step.submit]
      demo_executor_reachable) (simp add: demo_evals)

lemma demo_stopped_reachable: "executor_reachable demo_hash demo_stopped"
  unfolding demo_stopped_def
  by (intro executor_reachI [OF _ executor_step.worker_take] executor_reachI [OF _ executor_step.worker_finish]
      executor_reachI [OF _ executor_step.begin_stop] demo_running_reachable)
    (simp_all add: demo_evals)

theorem executor_bounded_witness: "m_queued (Snapshot demo_running) = waiting demo_running \<and> running demo_running \<le> 2"
  using executor_bounded [OF demo_running_reachable] by (simp add: demo_evals)

theorem executor_keyed_fifo_witness: "prefix (keyed ''a'' (begun demo_running)) (keyed ''a'' (submitted demo_running))"
  using executor_keyed_fifo [OF demo_running_reachable] by blast

theorem executor_drains_witness: "idle demo_stopped \<and> m_completed (Snapshot demo_stopped) = 2"
proof -
  have "joined demo_stopped" "discarded demo_stopped = 0" "length (submitted demo_stopped) = 2"
    by (simp_all add: demo_evals joined_def)
  then show ?thesis using executor_drains [OF demo_stopped_reachable] by simp
qed

theorem error_reports_witness:
  "fst (Check (BusinessMetrics\<lparr>m_failed := 1\<rparr>) 7 False (MetricsLogPolicy 0)) = Warning"
proof -
  obtain d p' where c: "Check (BusinessMetrics\<lparr>m_failed := 1\<rparr>) 7 False (MetricsLogPolicy 0) = (d, p')"
    by (metis surj_pair)
  then show ?thesis
    using error_reports [OF c] by (simp add: MetricsLogPolicy_def BusinessMetrics_def)
qed

end
