(* ===== verification/Database.thy ===== *)
theory Database
  imports Json
begin

text \<open>
  The relational database under the chat servers. MySQL itself is third-party: the tables are those of
  \<^verbatim>\<open>database/mysql/schema.sql\<close>, lists of rows with the schema's unique and foreign keys, and a
  prepared statement is a function on them. What the documentation leaves to the installation is a
  component of the state that no statement changes: the collation (two texts are equal for the
  database when their weights are), how a text is stored in a \<^verbatim>\<open>DATETIME\<close> column, and
  the current time. Every statement, commit and request for a connection takes the next entry of a list
  of faults: it runs, it fails with an error code and no effect, or its effect happens and the
  reply is lost. Lengths and encodings that a column refuses are among the faults. A rollback restores the
  rows but not the auto-increment counters. A transaction is one step: the row locks it takes keep
  others out. Identifiers are unbounded integers.
\<close>

section \<open>Tables\<close>

record user_row =
  u_id :: int
  u_username :: string
  u_email :: string
  u_nick :: string
  u_desc :: string
  u_sex :: int
  u_icon :: string
  u_hash :: string
  u_salt :: string
  u_iterations :: int

record apply_row =
  ap_id :: int
  ap_from :: int
  ap_to :: int
  ap_descs :: string
  ap_back :: string
  ap_status :: int
  ap_tags :: "string option"

record friend_row =
  fr_self :: int
  fr_friend :: int
  fr_back :: string
  fr_tags :: "string option"

record private_row =
  pc_thread :: int
  pc_user1 :: int
  pc_user2 :: int

record group_row =
  gr_thread :: int
  gr_name :: string
  gr_owner :: int
  gr_creator :: int
  gr_key :: string
  gr_spec :: string
  gr_active :: bool

record message_row =
  ms_id :: int
  ms_thread :: int
  ms_sender :: int
  ms_recv :: int
  ms_unique :: string
  ms_content :: string
  ms_type :: int
  ms_size :: nat
  ms_created :: string
  ms_status :: int

record tables =
  users_t :: "user_row list"
  avatars_t :: "(int \<times> string) list"
  applies_t :: "apply_row list"
  friends_t :: "friend_row list"
  threads_t :: "(int \<times> string) list"
  privates_t :: "private_row list"
  members_t :: "(int \<times> int) list"
  groups_t :: "group_row list"
  messages_t :: "message_row list"

record database =
  rows :: tables
  next_user :: int
  next_apply :: int
  next_thread :: int
  next_message :: int
  last_insert_id :: int
  weight :: "string \<Rightarrow> string"
  stored_datetime :: "string \<Rightarrow> string option"
  now_text :: string

text \<open>The connection a request works on: the database, the rows at the start of an open transaction and
  the faults to come. Past the end of the list everything runs.\<close>

datatype fault = Runs | Fails int | Lost int

record mysql =
  db :: database
  saved :: "tables option"
  faults :: "fault list"

type_synonym 'a sql = "mysql \<Rightarrow> (int + 'a) \<times> mysql"

abbreviation tbl :: "mysql \<Rightarrow> tables" where "tbl c \<equiv> rows (db c)"

section \<open>Statements\<close>

definition next_fault :: "mysql \<Rightarrow> fault \<times> mysql" where
  "next_fault c = (case faults c of [] \<Rightarrow> (Runs, c) | f # fs \<Rightarrow> (f, c\<lparr>faults := fs\<rparr>))"

definition statement :: "(database \<Rightarrow> (int + 'a) \<times> database) \<Rightarrow> 'a sql" where
  "statement f c = (case next_fault c of
       (Runs, c') \<Rightarrow> (fst (f (db c')), c'\<lparr>db := snd (f (db c'))\<rparr>)
     | (Fails e, c') \<Rightarrow> (Inl e, c')
     | (Lost e, c') \<Rightarrow> (Inl e, c'\<lparr>db := snd (f (db c'))\<rparr>))"

definition select :: "(database \<Rightarrow> 'a) \<Rightarrow> 'a sql" where
  "select q = statement (\<lambda>d. (Inr (q d), d))"

definition sql_return :: "'a \<Rightarrow> 'a sql" where
  "sql_return x c = (Inr x, c)"

definition sql_bind :: "'a sql \<Rightarrow> ('a \<Rightarrow> 'b sql) \<Rightarrow> 'b sql" where
  "sql_bind m f c = (case m c of (Inl e, c') \<Rightarrow> (Inl e, c') | (Inr x, c') \<Rightarrow> f x c')"

abbreviation sql_then :: "'a sql \<Rightarrow> 'b sql \<Rightarrow> 'b sql" where
  "sql_then m n \<equiv> sql_bind m (\<lambda>_. n)"

definition sql_when :: "bool \<Rightarrow> unit sql \<Rightarrow> unit sql" where
  "sql_when b m = (if b then m else sql_return ())"

primrec sql_for :: "'a list \<Rightarrow> ('a \<Rightarrow> unit sql) \<Rightarrow> unit sql" where
  "sql_for [] f = sql_return ()"
| "sql_for (x # xs) f = sql_then (f x) (sql_for xs f)"

text \<open>\<^verbatim>\<open>catch (const sql::SQLException &)\<close> around a block that returns.\<close>

definition sql_catch :: "(int \<Rightarrow> 'a) \<Rightarrow> 'a sql \<Rightarrow> mysql \<Rightarrow> 'a \<times> mysql" where
  "sql_catch h m c = (case m c of (Inl e, c') \<Rightarrow> (h e, c') | (Inr x, c') \<Rightarrow> (x, c'))"

text \<open>Borrowing a connection; \<open>x\<close> is what the caller answers without one.\<close>

definition with_connection :: "'a \<Rightarrow> (mysql \<Rightarrow> 'a \<times> mysql) \<Rightarrow> mysql \<Rightarrow> 'a \<times> mysql" where
  "with_connection x m c = (case next_fault c of (Runs, c') \<Rightarrow> m c' | (_, c') \<Rightarrow> (x, c'))"

section \<open>Transactions\<close>

definition roll_back :: "mysql \<Rightarrow> mysql" where
  "roll_back c = (case saved c of None \<Rightarrow> c
     | Some t \<Rightarrow> c\<lparr>db := (db c)\<lparr>rows := t\<rparr>, saved := None\<rparr>)"

definition begun :: "mysql \<Rightarrow> mysql" where
  "begun c = c\<lparr>saved := Some (tbl c)\<rparr>"

definition Commit :: "unit sql" where
  "Commit c = (case next_fault c of
       (Runs, c1) \<Rightarrow> (case next_fault (c1\<lparr>saved := None\<rparr>) of
            (Runs, c2) \<Rightarrow> (Inr (), c2) | (Fails e, c2) \<Rightarrow> (Inl e, c2) | (Lost e, c2) \<Rightarrow> (Inl e, c2))
     | (Fails e, c1) \<Rightarrow> (Inl e, c1)
     | (Lost e, c1) \<Rightarrow> (Inl e, c1\<lparr>saved := None\<rparr>))"

text \<open>
  The scope of a \<^verbatim>\<open>MySqlTransaction\<close>: its constructor, the block and its destructor. The
  block says with its value whether it returns early or goes on to the commit.
\<close>

definition transaction :: "(bool \<times> 'a) sql \<Rightarrow> 'a sql" where
  "transaction body c = (case next_fault c of
       (Runs, c1) \<Rightarrow>
         (case sql_bind body (\<lambda>(commit, x). sql_then (sql_when commit Commit) (sql_return x)) (begun c1) of
            (r, c2) \<Rightarrow> (r, roll_back c2))
     | (Fails e, c1) \<Rightarrow> (Inl e, c1)
     | (Lost e, c1) \<Rightarrow> (Inl e, c1))"

definition Rollback :: "unit sql" where
  "Rollback c = (case next_fault c of
       (Runs, c1) \<Rightarrow> (case next_fault (roll_back c1) of
            (Runs, c2) \<Rightarrow> (Inr (), c2) | (Fails e, c2) \<Rightarrow> (Inl e, c2) | (Lost e, c2) \<Rightarrow> (Inl e, c2))
     | (Fails e, c1) \<Rightarrow> (Inl e, roll_back c1)
     | (Lost e, c1) \<Rightarrow> (Inl e, roll_back c1))"

section \<open>The records of the data access layer\<close>

record UserInfo =
  ui_name :: string
  ui_pwd :: string
  ui_uid :: int
  ui_email :: string
  ui_nick :: string
  ui_desc :: string
  ui_sex :: int
  ui_icon :: string
  ui_back :: string
  ui_tags_json :: string

record ApplyInfo =
  ai_id :: int
  ai_uid :: int
  ai_name :: string
  ai_desc :: string
  ai_icon :: string
  ai_nick :: string
  ai_sex :: int
  ai_status :: int

record ChatThreadInfo =
  ct_thread_id :: int
  ct_type :: string
  ct_user1_id :: int
  ct_user2_id :: int
  ct_last_message_id :: int
  ct_last_chat_time :: string

record ChatMessage =
  cm_message_id :: int
  cm_thread_id :: int
  cm_sender_id :: int
  cm_recv_id :: int
  cm_unique_id :: string
  cm_content :: string
  cm_chat_time :: string
  cm_status :: int
  cm_msg_type :: int
  cm_media_size :: nat

record PageResult =
  pr_messages :: "ChatMessage list"
  pr_load_more :: bool
  pr_next_cursor :: int

text \<open>The columns that \<^verbatim>\<open>ReadUserInfo\<close> copies; the rest keeps its default.\<close>

definition ReadUserInfo :: "user_row \<Rightarrow> UserInfo" where
  "ReadUserInfo u = \<lparr>ui_name = u_username u, ui_pwd = [], ui_uid = u_id u, ui_email = u_email u, ui_nick = u_nick u,
     ui_desc = u_desc u, ui_sex = u_sex u, ui_icon = u_icon u, ui_back = [], ui_tags_json = ''[]''\<rparr>"

section \<open>Rows that several components read or write\<close>

definition has_user :: "tables \<Rightarrow> int \<Rightarrow> bool" where
  "has_user t u \<longleftrightarrow> u \<in> u_id ` set (users_t t)"

definition has_thread :: "tables \<Rightarrow> int \<Rightarrow> bool" where
  "has_thread t i \<longleftrightarrow> i \<in> fst ` set (threads_t t)"

definition are_friends :: "tables \<Rightarrow> int \<Rightarrow> int \<Rightarrow> bool" where
  "are_friends t a b \<longleftrightarrow> (\<exists>r\<in>set (friends_t t). fr_self r = a \<and> fr_friend r = b)"

definition is_member :: "tables \<Rightarrow> int \<Rightarrow> int \<Rightarrow> bool" where
  "is_member t thread u \<longleftrightarrow> (thread, u) \<in> set (members_t t)"

definition find_private :: "tables \<Rightarrow> int \<Rightarrow> int \<Rightarrow> private_row option" where
  "find_private t a b = find (\<lambda>r. pc_user1 r = a \<and> pc_user2 r = b) (privates_t t)"

definition find_group :: "tables \<Rightarrow> int \<Rightarrow> group_row option" where
  "find_group t i = find (\<lambda>g. gr_thread g = i \<and> gr_active g) (groups_t t)"

definition coalesce_tags :: "string option \<Rightarrow> string" where
  "coalesce_tags tags = (case tags of None \<Rightarrow> ''[]'' | Some s \<Rightarrow> s)"

definition insert_thread :: "string \<Rightarrow> unit sql" where
  "insert_thread kind = statement (\<lambda>d. (Inr (), d\<lparr>rows := (rows d)\<lparr>threads_t := threads_t (rows d) @ [(next_thread d, kind)]\<rparr>,
     next_thread := next_thread d + 1, last_insert_id := next_thread d\<rparr>))"

definition insert_private :: "int \<Rightarrow> int \<Rightarrow> int \<Rightarrow> unit sql" where
  "insert_private thread a b = statement (\<lambda>d. let t = rows d in
     if (\<exists>r\<in>set (privates_t t). pc_thread r = thread) \<or> find_private t a b \<noteq> None then (Inl 1062, d)
     else if \<not> (has_thread t thread \<and> has_user t a \<and> has_user t b) then (Inl 1452, d)
     else (Inr (), d\<lparr>rows := t\<lparr>privates_t := privates_t t @ [\<lparr>pc_thread = thread, pc_user1 = a, pc_user2 = b\<rparr>]\<rparr>\<rparr>))"

text \<open>The idempotency key of \<^verbatim>\<open>chat_message\<close> ignores rows whose identifier is empty.\<close>

definition same_key :: "database \<Rightarrow> int \<Rightarrow> int \<Rightarrow> string \<Rightarrow> message_row \<Rightarrow> bool" where
  "same_key d thread sender unique r \<longleftrightarrow> ms_thread r = thread \<and> ms_sender r = sender \<and> weight d (ms_unique r) = weight d unique"

definition duplicate_message :: "database \<Rightarrow> message_row \<Rightarrow> bool" where
  "duplicate_message d r \<longleftrightarrow> ms_unique r \<noteq> [] \<and> (\<exists>x\<in>set (messages_t (rows d)).
     ms_unique x \<noteq> [] \<and> same_key d (ms_thread r) (ms_sender r) (ms_unique r) x)"

definition insert_message_row :: "message_row \<Rightarrow> database \<Rightarrow> (int + unit) \<times> database" where
  "insert_message_row r d = (let t = rows d; d' = d\<lparr>next_message := next_message d + 1\<rparr> in
     if duplicate_message d r then (Inl 1062, d')
     else if \<not> (has_thread t (ms_thread r) \<and> has_user t (ms_sender r) \<and> has_user t (ms_recv r)) then (Inl 1452, d')
     else (Inr (), d'\<lparr>rows := t\<lparr>messages_t := messages_t t @ [r]\<rparr>, last_insert_id := next_message d\<rparr>))"

definition insert_message :: "(database \<Rightarrow> message_row) \<Rightarrow> unit sql" where
  "insert_message mk = statement (\<lambda>d. insert_message_row (mk d) d)"

section \<open>Facts about statements and transactions\<close>

text \<open>A computation ends normally with a value and a state.\<close>

definition gives :: "'a sql \<Rightarrow> mysql \<Rightarrow> 'a \<Rightarrow> mysql \<Rightarrow> bool" where
  "gives m c x c' \<longleftrightarrow> m c = (Inr x, c')"

lemma next_fault_db [simp]: "db (snd (next_fault c)) = db c" "saved (snd (next_fault c)) = saved c"
  by (simp_all add: next_fault_def split: list.split)

lemma next_fault_eq: "next_fault c = (f, c') \<Longrightarrow> db c' = db c \<and> saved c' = saved c"
  using next_fault_db [of c] by simp

lemma next_fault_Nil [simp]: "faults c = [] \<Longrightarrow> next_fault c = (Runs, c)"
  by (simp add: next_fault_def)

lemma gives_return [simp]: "gives (sql_return x) c y c' \<longleftrightarrow> y = x \<and> c' = c"
  by (auto simp: gives_def sql_return_def)

lemma gives_bind: "gives (sql_bind m f) c y c2 \<longleftrightarrow> (\<exists>x c1. gives m c x c1 \<and> gives (f x) c1 y c2)"
  by (auto simp: gives_def sql_bind_def split: prod.splits sum.splits)

lemma gives_bindE [elim!]:
  assumes "gives (sql_bind m f) c y c2"
  obtains x c1 where "gives m c x c1" "gives (f x) c1 y c2"
  using assms by (auto simp: gives_bind)

lemma gives_statement:
  assumes "gives (statement f) c x c'"
  shows "fst (f (db c)) = Inr x \<and> db c' = snd (f (db c)) \<and> saved c' = saved c"
  using assms next_fault_db [of c]
  by (auto simp: gives_def statement_def prod_eq_iff split: fault.splits prod.splits)

lemma gives_select:
  assumes "gives (select q) c x c'"
  shows "x = q (db c) \<and> db c' = db c \<and> saved c' = saved c"
  using gives_statement [OF assms [unfolded select_def]] by auto

lemma gives_when: "gives (sql_when b m) c x c' \<longleftrightarrow> (if b then gives m c x c' else c' = c)"
  by (simp add: sql_when_def)

lemma gives_for_induct:
  assumes "gives (sql_for xs f) c u c'" "P [] c"
    and "\<And>ys x zs c1 u c2. xs = ys @ x # zs \<Longrightarrow> P ys c1 \<Longrightarrow> gives (f x) c1 u c2 \<Longrightarrow> P (ys @ [x]) c2"
  shows "P xs c'"
proof -
  have "P (us @ ys) c'" if "gives (sql_for ys f) d u c'" "P us d" "xs = us @ ys" for us ys d
    using that
  proof (induction ys arbitrary: us d)
    case (Cons y ys)
    from Cons.prems(1) obtain v d1 where d1: "gives (f y) d v d1" "gives (sql_for ys f) d1 u c'" by auto
    have "P (us @ [y]) d1" using assms(3) [OF Cons.prems(3,2) d1(1)] .
    then show ?case using Cons.IH [OF d1(2), of "us @ [y]"] Cons.prems(3) by simp
  qed simp
  from this [OF assms(1), of "[]"] assms(2) show ?thesis by simp
qed

text \<open>
  Frame of a computation inside a transaction: on every path, errors included, it keeps the rows
  saved at the start and what the installation fixes, and counters only grow.
\<close>

definition framed_db :: "database \<Rightarrow> database \<Rightarrow> bool" where
  "framed_db d d' \<longleftrightarrow> weight d' = weight d \<and> stored_datetime d' = stored_datetime d \<and> now_text d' = now_text d \<and>
     next_user d \<le> next_user d' \<and> next_apply d \<le> next_apply d' \<and> next_thread d \<le> next_thread d' \<and>
     next_message d \<le> next_message d'"

definition framed :: "'a sql \<Rightarrow> bool" where
  "framed m \<longleftrightarrow> (\<forall>c. framed_db (db c) (db (snd (m c))) \<and> saved (snd (m c)) = saved c)"

named_theorems framed_rules \<open>computations that keep their frame\<close>

lemma framed_db_refl [simp]: "framed_db d d"
  by (simp add: framed_db_def)

lemma framed_db_trans: "framed_db a b \<Longrightarrow> framed_db b c \<Longrightarrow> framed_db a c"
  by (auto simp: framed_db_def)

lemma framed_db_rows [simp]: "framed_db d (e\<lparr>rows := t\<rparr>) = framed_db d e" "framed_db d (e\<lparr>last_insert_id := i\<rparr>) = framed_db d e"
  by (simp_all add: framed_db_def)

lemma framed_return [framed_rules]: "framed (sql_return x)"
  by (simp add: framed_def sql_return_def)

lemma framed_statement: "(\<And>d. framed_db d (snd (f d))) \<Longrightarrow> framed (statement f)"
  using next_fault_db by (auto simp: framed_def statement_def split: prod.splits fault.splits dest!: next_fault_eq)

lemma framed_select [framed_rules]: "framed (select q)"
  by (simp add: select_def framed_statement)

lemma framed_bind [framed_rules]:
  assumes "framed m" "\<And>x. framed (f x)"
  shows "framed (sql_bind m f)"
  unfolding framed_def
proof
  fix c
  obtain r c1 where c1: "m c = (r, c1)" by force
  have 1: "framed_db (db c) (db c1)" "saved c1 = saved c"
    using assms(1) c1 unfolding framed_def by (metis snd_conv)+
  show "framed_db (db c) (db (snd (sql_bind m f c))) \<and> saved (snd (sql_bind m f c)) = saved c"
  proof (cases r)
    case (Inr x)
    have "framed_db (db c1) (db (snd (f x c1)))" "saved (snd (f x c1)) = saved c1"
      using assms(2) [of x] unfolding framed_def by blast+
    then show ?thesis using c1 1 Inr framed_db_trans by (auto simp: sql_bind_def)
  qed (use c1 1 in \<open>simp add: sql_bind_def\<close>)
qed

lemma framed_when [framed_rules]: "framed m \<Longrightarrow> framed (sql_when b m)"
  by (simp add: sql_when_def framed_return)

lemma framed_for [framed_rules]: "(\<And>x. framed (f x)) \<Longrightarrow> framed (sql_for xs f)"
  by (induction xs) (auto intro: framed_rules)

lemma framed_if [framed_rules]: "framed m \<Longrightarrow> framed n \<Longrightarrow> framed (if b then m else n)"
  by simp

lemma framed_option [framed_rules]:
  "framed m \<Longrightarrow> (\<And>x. framed (f x)) \<Longrightarrow> framed (case v of None \<Rightarrow> m | Some x \<Rightarrow> f x)"
  by (cases v) simp_all

lemma roll_back_saved [simp]: "saved (roll_back c) = None"
  by (simp add: roll_back_def split: option.split)

lemma roll_back_None [simp]: "saved c = None \<Longrightarrow> roll_back c = c"
  by (simp add: roll_back_def)

lemma roll_back_Some: "saved c = Some t \<Longrightarrow> tbl (roll_back c) = t"
  by (simp add: roll_back_def)

lemma roll_back_framed [simp]: "framed_db d (db (roll_back c)) = framed_db d (db c)"
  by (simp add: roll_back_def split: option.split)

lemma begun_simps [simp]: "saved (begun c) = Some (tbl c)" "db (begun c) = db c"
  by (simp_all add: begun_def)

lemma Commit_cases:
  assumes "Commit c = (r, c')"
  obtains (committed) "r = Inr ()" "db c' = db c" "saved c' = None"
    | (unknown) e where "r = Inl e" "db c' = db c" "saved c' = None"
    | (refused) e where "r = Inl e" "db c' = db c" "saved c' = saved c"
  using assms next_fault_db
  by (auto simp: Commit_def split: fault.splits prod.splits dest!: next_fault_eq)

lemma Rollback_db:
  assumes "saved c = Some t"
  shows "tbl (snd (Rollback c)) = t" "saved (snd (Rollback c)) = None" "framed_db d (db (snd (Rollback c))) = framed_db d (db c)"
  using assms
  by (auto simp: Rollback_def roll_back_Some roll_back_def split: fault.splits prod.splits dest!: next_fault_eq)

text \<open>
  What a transaction leaves behind: the rows it found, or those of a block that reached its
  commit. A commit whose reply is lost reports an error although it happened.
\<close>

lemma framed_gives: "framed m \<Longrightarrow> gives m c x c' \<Longrightarrow> framed_db (db c) (db c') \<and> saved c' = saved c"
  unfolding framed_def gives_def by (metis snd_conv)

lemma transaction_cases:
  assumes run: "transaction work c = (r, c')" and "framed work" "saved c = None"
  obtains (unchanged) "tbl c' = tbl c" "saved c' = None" "framed_db (db c) (db c')"
      "\<And>x. r = Inr x \<Longrightarrow> \<exists>c1 c2. db c1 = db c \<and> gives work (begun c1) (False, x) c2"
    | (committed) x c1 c2 where "db c1 = db c" "gives work (begun c1) (True, x) c2" "db c' = db c2" "saved c' = None"
      "framed_db (db c) (db c')" "r = Inr x \<or> (\<exists>e. r = Inl e)"
proof -
  obtain f c1 where f: "next_fault c = (f, c1)" by force
  note c1 = next_fault_eq [OF f]
  show thesis
  proof (cases "f = Runs")
    case False
    then show thesis using run f c1 assms(3) unchanged by (cases f) (auto simp: transaction_def)
  next
    case True
    obtain w c2 where w: "work (begun c1) = (w, c2)" by force
    have 2: "framed_db (db c) (db c2)" "saved c2 = Some (tbl c)"
      using assms(2) w c1 unfolding framed_def by (metis snd_conv begun_simps)+
    show thesis
    proof (cases "\<exists>x. w = Inr (True, x)")
      case False
      then have "c' = roll_back c2" "\<And>x. r = Inr x \<Longrightarrow> w = Inr (False, x)"
        using run f w True by (auto simp: transaction_def sql_bind_def sql_when_def sql_return_def split: sum.splits)
      then show thesis using unchanged 2 w c1 roll_back_Some [OF 2(2)] unfolding gives_def by fastforce
    next
      case True': True
      then obtain x where x: "w = Inr (True, x)" by blast
      obtain r' c3 where c3: "Commit c2 = (r', c3)" by force
      have r: "r = (case r' of Inl e \<Rightarrow> Inl e | Inr _ \<Rightarrow> Inr x)" "c' = roll_back c3"
        using run f w x True c3
        by (auto simp: transaction_def sql_bind_def sql_when_def sql_return_def split: sum.splits)
      have g: "gives work (begun c1) (True, x) c2" using w x by (simp add: gives_def)
      from c3 show thesis
      proof (cases rule: Commit_cases)
        case committed
        then show thesis using r 2 g c1 by (intro that(2)) auto
      next
        case (unknown e)
        then show thesis using r 2 g c1 by (intro that(2)) auto
      next
        case (refused e)
        then show thesis using r 2 roll_back_Some [of c3] by (intro unchanged) auto
      qed
    qed
  qed
qed

section \<open>Facts about the shared rows\<close>

lemma framed_db_counters [simp]:
  "framed_db d (d\<lparr>next_apply := next_apply d + 1\<rparr>)" "framed_db d (d\<lparr>next_thread := next_thread d + 1\<rparr>)"
  "framed_db d (d\<lparr>next_message := next_message d + 1\<rparr>)" "framed_db d (d\<lparr>next_user := next_user d + 1\<rparr>)"
  by (simp_all add: framed_db_def)

lemma framed_inserts [framed_rules]:
  "framed (insert_thread kind)" "framed (insert_private i a b)" "framed (insert_message mk)"
  by (auto simp: insert_thread_def insert_private_def insert_message_def insert_message_row_def Let_def framed_db_def
      intro!: framed_statement)

lemma gives_insert_thread:
  assumes "gives (insert_thread kind) c u c'"
  shows "db c' = (db c)\<lparr>rows := (tbl c)\<lparr>threads_t := threads_t (tbl c) @ [(next_thread (db c), kind)]\<rparr>,
     next_thread := next_thread (db c) + 1, last_insert_id := next_thread (db c)\<rparr>"
  using gives_statement [OF assms [unfolded insert_thread_def]] by simp

lemma gives_insert_private:
  assumes "gives (insert_private i a b) c u c'"
  shows "db c' = (db c)\<lparr>rows := (tbl c)\<lparr>privates_t := privates_t (tbl c) @ [\<lparr>pc_thread = i, pc_user1 = a, pc_user2 = b\<rparr>]\<rparr>\<rparr>"
    "\<forall>r\<in>set (privates_t (tbl c)). pc_thread r \<noteq> i" "find_private (tbl c) a b = None"
    "has_thread (tbl c) i" "has_user (tbl c) a" "has_user (tbl c) b"
  using gives_statement [OF assms [unfolded insert_private_def]] by (simp_all add: Let_def split: if_splits)

lemma insert_message_row_ok:
  assumes "fst (insert_message_row r d) = Inr u"
  shows "snd (insert_message_row r d) = d\<lparr>next_message := next_message d + 1,
       rows := (rows d)\<lparr>messages_t := messages_t (rows d) @ [r]\<rparr>, last_insert_id := next_message d\<rparr>"
    "\<not> duplicate_message d r" "has_thread (rows d) (ms_thread r)" "has_user (rows d) (ms_sender r)" "has_user (rows d) (ms_recv r)"
  using assms by (simp_all add: insert_message_row_def Let_def split: if_splits)

lemma gives_insert_message:
  assumes "gives (insert_message mk) c u c'"
  shows "db c' = (db c)\<lparr>next_message := next_message (db c) + 1,
       rows := (tbl c)\<lparr>messages_t := messages_t (tbl c) @ [mk (db c)]\<rparr>, last_insert_id := next_message (db c)\<rparr>"
    "\<not> duplicate_message (db c) (mk (db c))" "has_thread (tbl c) (ms_thread (mk (db c)))"
  using gives_statement [OF assms [unfolded insert_message_def]] insert_message_row_ok [of "mk (db c)" "db c" u] by simp_all

section \<open>Calls of the data access layer\<close>

lemma with_connection_cases:
  assumes "with_connection x m c = (r, c')"
  obtains (none) "r = x" "db c' = db c" "saved c' = saved c"
    | (connected) c1 where "db c1 = db c" "saved c1 = saved c" "m c1 = (r, c')"
proof -
  obtain f c1 where f: "next_fault c = (f, c1)" by force
  show thesis using assms f next_fault_eq [OF f] none connected [of c1] by (cases f) (simp_all add: with_connection_def)
qed

lemma sql_catch_cases:
  assumes "sql_catch h m c = (r, c')"
  obtains (caught) e where "m c = (Inl e, c')" "r = h e" | (returned) "m c = (Inr r, c')"
  using assms by (auto simp: sql_catch_def split: prod.splits sum.splits)

lemma dao_transaction_cases:
  assumes "sql_catch h (transaction work) c = (r, c')" "framed work" "saved c = None"
  obtains (unchanged) "tbl c' = tbl c" "saved c' = None" "framed_db (db c) (db c')"
      "(\<exists>e. r = h e) \<or> (\<exists>c1 c2. db c1 = db c \<and> gives work (begun c1) (False, r) c2)"
    | (committed) y c1 c2 where "db c1 = db c" "gives work (begun c1) (True, y) c2" "db c' = db c2" "saved c' = None"
      "framed_db (db c) (db c')" "r = y \<or> (\<exists>e. r = h e)"
  using assms(1)
proof (cases rule: sql_catch_cases)
  case (caught e)
  from caught(1) assms(2,3) show thesis
  proof (cases rule: transaction_cases)
    case unchanged
    then show thesis using that(1) caught(2) by blast
  next
    case (committed x c1 c2)
    then show thesis using that(2) caught(2) by blast
  qed
next
  case returned
  from returned assms(2,3) show thesis
  proof (cases rule: transaction_cases)
    case unchanged
    then show thesis using that(1) by blast
  next
    case (committed x c1 c2)
    then show thesis using that(2) by blast
  qed
qed

text \<open>Computations that only read, and what a call leaves of the database.\<close>

definition reading :: "'a sql \<Rightarrow> bool" where
  "reading m \<longleftrightarrow> (\<forall>c. db (snd (m c)) = db c \<and> saved (snd (m c)) = saved c)"

named_theorems reading_rules \<open>computations that change nothing\<close>

lemma reading_return [reading_rules]: "reading (sql_return x)"
  by (simp add: reading_def sql_return_def)

lemma reading_select [reading_rules]: "reading (select q)"
  by (auto simp: reading_def select_def statement_def split: prod.splits fault.splits dest!: next_fault_eq)

lemma reading_bind [reading_rules]:
  assumes "reading m" "\<And>x. reading (f x)"
  shows "reading (sql_bind m f)"
  unfolding reading_def
proof
  fix c
  show "db (snd (sql_bind m f c)) = db c \<and> saved (snd (sql_bind m f c)) = saved c"
    using assms(1) [unfolded reading_def, rule_format, of c] assms(2) [unfolded reading_def]
    by (auto simp: sql_bind_def split: prod.split sum.split)
qed

lemma reading_if [reading_rules]: "reading m \<Longrightarrow> reading n \<Longrightarrow> reading (if b then m else n)"
  by simp

lemma reading_option [reading_rules]:
  "reading m \<Longrightarrow> (\<And>x. reading (f x)) \<Longrightarrow> reading (case v of None \<Rightarrow> m | Some x \<Rightarrow> f x)"
  by (cases v) simp_all

lemma reading_framed: "reading m \<Longrightarrow> framed m"
  by (simp add: reading_def framed_def)

lemma reading_gives: "reading m \<Longrightarrow> gives m c x c' \<Longrightarrow> db c' = db c"
  unfolding reading_def gives_def by (metis snd_conv)

definition unchanged_by :: "mysql \<Rightarrow> mysql \<Rightarrow> bool" where
  "unchanged_by c c' \<longleftrightarrow> tbl c' = tbl c \<and> saved c' = None \<and> framed_db (db c) (db c')"

lemma reading_call:
  assumes "reading m" "saved c = None"
  shows "unchanged_by c (snd (sql_catch h m c))"
  using assms(1) [unfolded reading_def, rule_format, of c] assms(2)
  by (auto simp: sql_catch_def unchanged_by_def split: prod.split sum.split)

lemma reading_transaction:
  assumes "reading m" "saved c = None"
  shows "unchanged_by c (snd (transaction m c))"
proof -
  obtain r c' where r: "transaction m c = (r, c')" by force
  from r reading_framed [OF assms(1)] assms(2) show ?thesis
  proof (cases rule: transaction_cases)
    case (committed x c1 c2)
    then show ?thesis using reading_gives [OF assms(1)] by (simp add: r unchanged_by_def)
  qed (simp add: r unchanged_by_def)
qed

lemma unchanged_refl [simp]: "saved c = None \<Longrightarrow> unchanged_by c c"
  by (simp add: unchanged_by_def)

lemma unchanged_connection:
  assumes "\<And>c1. db c1 = db c \<Longrightarrow> saved c1 = saved c \<Longrightarrow> unchanged_by c1 (snd (m c1))" "saved c = None"
  shows "unchanged_by c (snd (with_connection x m c))"
proof -
  obtain r c' where r: "with_connection x m c = (r, c')" by force
  then show ?thesis
  proof (cases rule: with_connection_cases)
    case (connected c1)
    then show ?thesis using assms(1) [of c1] by (simp add: r unchanged_by_def)
  qed (use assms(2) r in \<open>simp add: unchanged_by_def\<close>)
qed

text \<open>Queries read the rows and change nothing.\<close>

lemma select_cases:
  assumes "sql_catch h (sql_bind (select q) (\<lambda>x. sql_return (f x))) c = (r, c')"
  obtains (caught) e where "r = h e" "db c' = db c" "saved c' = saved c"
    | (read) "r = f (q (db c))" "db c' = db c" "saved c' = saved c"
  using assms next_fault_db [of c]
  by (auto simp: sql_catch_def sql_bind_def select_def statement_def sql_return_def
      split: prod.splits fault.splits sum.splits dest!: next_fault_eq)

text \<open>Runs without faults.\<close>

lemma quiet [simp]:
  assumes "faults c = []"
  shows "statement f c = (fst (f (db c)), c\<lparr>db := snd (f (db c))\<rparr>)" "select q c = (Inr (q (db c)), c)"
    "with_connection x m c = m c" "Commit c = (Inr (), c\<lparr>saved := None\<rparr>)"
    "transaction work c = (case sql_bind work (\<lambda>(commit, x). sql_then (sql_when commit Commit) (sql_return x)) (begun c) of
       (r, c2) \<Rightarrow> (r, roll_back c2))"
  using assms by (simp_all add: statement_def select_def with_connection_def Commit_def transaction_def)

lemma begun_faults [simp]: "faults (begun c) = faults c"
  by (simp add: begun_def)

end
