(* ===== verification/Contacts.thy ===== *)
theory Contacts
  imports Database
begin

text \<open>
  Applications and friendships: \<^verbatim>\<open>MysqlDaoContacts.cpp\<close>. A friendship is two rows, one per
  direction; applying, accepting and deleting run as transactions that are retried, at most three times,
  when the database reports a deadlock or a lock timeout before the commit.
\<close>

section \<open>Reading under locks\<close>

record ContactApplication =
  ca_exists :: bool
  ca_remark :: string
  ca_tags :: string
  ca_description :: string

definition no_application :: ContactApplication where
  "no_application = \<lparr>ca_exists = False, ca_remark = [], ca_tags = ''[]'', ca_description = []\<rparr>"

definition find_apply :: "tables \<Rightarrow> int \<Rightarrow> int \<Rightarrow> apply_row option" where
  "find_apply t f g = find (\<lambda>r. ap_from r = f \<and> ap_to r = g) (applies_t t)"

definition application_of :: "tables \<Rightarrow> int \<Rightarrow> int \<Rightarrow> ContactApplication" where
  "application_of t f g = (case find_apply t f g of None \<Rightarrow> no_application
     | Some r \<Rightarrow> \<lparr>ca_exists = True, ca_remark = ap_back r, ca_tags = coalesce_tags (ap_tags r), ca_description = ap_descs r\<rparr>)"

definition LockApplications :: "int \<Rightarrow> int \<Rightarrow> (ContactApplication \<times> ContactApplication) sql" where
  "LockApplications first_uid second_uid =
     sql_bind (select (\<lambda>d. application_of (rows d) first_uid second_uid)) (\<lambda>a.
     sql_bind (select (\<lambda>d. application_of (rows d) second_uid first_uid)) (\<lambda>b.
     sql_return (a, b)))"

definition LockFriends :: "int \<Rightarrow> int \<Rightarrow> (bool \<times> bool) sql" where
  "LockFriends first_uid second_uid =
     sql_bind (select (\<lambda>d. are_friends (rows d) first_uid second_uid)) (\<lambda>a.
     sql_bind (select (\<lambda>d. are_friends (rows d) second_uid first_uid)) (\<lambda>b.
     sql_return (a, b)))"

section \<open>Retried transactions\<close>

text \<open>
  The attempts that are left; \<^term>\<open>None\<close> is the result \<^verbatim>\<open>false\<close>, \<^term>\<open>Some x\<close> is
  \<^verbatim>\<open>true\<close> with the variables that the operation captured. The pauses are left out.
\<close>

fun contact_attempts :: "nat \<Rightarrow> (bool \<times> 'a) sql \<Rightarrow> mysql \<Rightarrow> 'a option \<times> mysql" where
  "contact_attempts 0 operation c = (None, c)"
| "contact_attempts (Suc n) operation c = (case next_fault c of
      (Runs, c1) \<Rightarrow> (case operation (begun c1) of
          (Inr (False, x), c2) \<Rightarrow> (None, roll_back c2)
        | (Inr (True, x), c2) \<Rightarrow> (case Commit c2 of
              (Inr _, c3) \<Rightarrow> (Some x, roll_back c3) | (Inl _, c3) \<Rightarrow> (None, roll_back c3))
        | (Inl e, c2) \<Rightarrow>
            if (e = 1213 \<or> e = 1205) \<and> 0 < n then
              (case Rollback c2 of (Inr _, c3) \<Rightarrow> contact_attempts n operation c3 | (Inl _, c3) \<Rightarrow> (None, c3))
            else (None, roll_back c2))
    | (_, c1) \<Rightarrow> (None, c1))"

definition RunContactTransaction :: "(bool \<times> 'a) sql \<Rightarrow> mysql \<Rightarrow> 'a option \<times> mysql" where
  "RunContactTransaction operation = contact_attempts 3 operation"

section \<open>Statements\<close>

text \<open>\<^verbatim>\<open>INSERT ... ON DUPLICATE KEY UPDATE\<close> on the pair's unique key.\<close>

definition upsert_apply :: "int \<Rightarrow> int \<Rightarrow> string \<Rightarrow> string \<Rightarrow> string \<Rightarrow> unit sql" where
  "upsert_apply from_uid to_uid description remark tags = statement (\<lambda>d.
     let t = rows d; d' = d\<lparr>next_apply := next_apply d + 1\<rparr> in
     if \<not> (has_user t from_uid \<and> has_user t to_uid) then (Inl 1452, d')
     else if find_apply t from_uid to_uid = None then
       (Inr (), d'\<lparr>rows := t\<lparr>applies_t := applies_t t @
          [\<lparr>ap_id = next_apply d, ap_from = from_uid, ap_to = to_uid, ap_descs = description, ap_back = remark,
            ap_status = 0, ap_tags = Some tags\<rparr>]\<rparr>, last_insert_id := next_apply d\<rparr>)
     else (Inr (), d'\<lparr>rows := t\<lparr>applies_t := map (\<lambda>r. if ap_from r = from_uid \<and> ap_to r = to_uid
            then r\<lparr>ap_descs := description, ap_back := remark, ap_tags := Some tags, ap_status := 0\<rparr> else r) (applies_t t)\<rparr>\<rparr>))"

definition accept_apply :: "int \<Rightarrow> int \<Rightarrow> unit sql" where
  "accept_apply from_uid to_uid = statement (\<lambda>d. (Inr (), d\<lparr>rows := (rows d)\<lparr>applies_t :=
     map (\<lambda>r. if ap_from r = from_uid \<and> ap_to r = to_uid then r\<lparr>ap_status := 1\<rparr> else r) (applies_t (rows d))\<rparr>\<rparr>))"

definition insert_friend :: "int \<Rightarrow> int \<Rightarrow> string \<Rightarrow> string \<Rightarrow> unit sql" where
  "insert_friend self_uid friend_uid back tags = statement (\<lambda>d. let t = rows d in
     if are_friends t self_uid friend_uid then (Inl 1062, d)
     else if \<not> (has_user t self_uid \<and> has_user t friend_uid) then (Inl 1452, d)
     else (Inr (), d\<lparr>rows := t\<lparr>friends_t := friends_t t @
            [\<lparr>fr_self = self_uid, fr_friend = friend_uid, fr_back = back, fr_tags = Some tags\<rparr>]\<rparr>\<rparr>))"

definition delete_apply :: "int \<Rightarrow> int \<Rightarrow> unit sql" where
  "delete_apply from_uid to_uid = statement (\<lambda>d. (Inr (), d\<lparr>rows := (rows d)\<lparr>applies_t :=
     filter (\<lambda>r. \<not> (ap_from r = from_uid \<and> ap_to r = to_uid)) (applies_t (rows d))\<rparr>\<rparr>))"

definition delete_friend :: "int \<Rightarrow> int \<Rightarrow> unit sql" where
  "delete_friend self_uid friend_uid = statement (\<lambda>d. (Inr (), d\<lparr>rows := (rows d)\<lparr>friends_t :=
     filter (\<lambda>r. \<not> (fr_self r = self_uid \<and> fr_friend r = friend_uid)) (friends_t (rows d))\<rparr>\<rparr>))"

definition update_friend :: "int \<Rightarrow> int \<Rightarrow> string \<Rightarrow> string option \<Rightarrow> unit sql" where
  "update_friend self_uid friend_uid tags back = statement (\<lambda>d. (Inr (), d\<lparr>rows := (rows d)\<lparr>friends_t :=
     map (\<lambda>r. if fr_self r = self_uid \<and> fr_friend r = friend_uid
              then r\<lparr>fr_tags := Some tags, fr_back := (case back of None \<Rightarrow> fr_back r | Some b \<Rightarrow> b)\<rparr> else r)
       (friends_t (rows d))\<rparr>\<rparr>))"

section \<open>Applying and accepting\<close>

definition bad_pair :: "int \<Rightarrow> int \<Rightarrow> bool" where
  "bad_pair a b \<longleftrightarrow> a \<le> 0 \<or> b \<le> 0 \<or> a = b"

definition apply_operation :: "int \<Rightarrow> int \<Rightarrow> string \<Rightarrow> string \<Rightarrow> string \<Rightarrow> (bool \<times> bool) sql" where
  "apply_operation from_uid to_uid description remark tags_json =
     (let first_uid = min from_uid to_uid; second_uid = max from_uid to_uid in
      sql_then (LockApplications first_uid second_uid)
      (sql_bind (LockFriends first_uid second_uid) (\<lambda>(f0, f1).
       if f0 \<and> f1 then sql_return (True, False)
       else sql_then (upsert_apply from_uid to_uid description remark tags_json) (sql_return (True, True)))))"

text \<open>The result and \<^verbatim>\<open>*notify_application\<close>.\<close>

definition AddFriendApply :: "int \<Rightarrow> int \<Rightarrow> string \<Rightarrow> string \<Rightarrow> string \<Rightarrow> mysql \<Rightarrow> (bool \<times> bool) \<times> mysql" where
  "AddFriendApply from_uid to_uid description remark tags_json c =
     (if bad_pair from_uid to_uid then ((False, False), c)
      else with_connection (False, False) (\<lambda>c.
        case RunContactTransaction (apply_operation from_uid to_uid description remark tags_json) c of
          (None, c') \<Rightarrow> ((False, False), c') | (Some notify, c') \<Rightarrow> ((True, notify), c')) c)"

definition auth_operation :: "int \<Rightarrow> int \<Rightarrow> (bool \<times> unit) sql" where
  "auth_operation from_uid to_uid =
     (let first_uid = min from_uid to_uid; second_uid = max from_uid to_uid in
      sql_bind (LockApplications first_uid second_uid) (\<lambda>(a0, a1).
        if \<not> ca_exists (if to_uid = first_uid then a0 else a1) then sql_return (False, ())
        else sql_then (accept_apply to_uid from_uid) (sql_return (True, ()))))"

definition AuthFriendApply :: "int \<Rightarrow> int \<Rightarrow> mysql \<Rightarrow> bool \<times> mysql" where
  "AuthFriendApply from_uid to_uid c =
     (if bad_pair from_uid to_uid then (False, c)
      else with_connection False (\<lambda>c.
        case RunContactTransaction (auth_operation from_uid to_uid) c of (r, c') \<Rightarrow> (r \<noteq> None, c')) c)"

text \<open>The private thread of a pair, made when there is none.\<close>

definition private_thread :: "int \<Rightarrow> int \<Rightarrow> int sql" where
  "private_thread first_uid second_uid =
     sql_bind (select (\<lambda>d. case find_private (rows d) first_uid second_uid of None \<Rightarrow> 0 | Some r \<Rightarrow> pc_thread r)) (\<lambda>thread_id.
     if thread_id = 0 then
       sql_then (insert_thread ''private'')
       (sql_bind (select last_insert_id) (\<lambda>new_id.
        sql_then (insert_private new_id first_uid second_uid) (sql_return new_id)))
     else sql_return thread_id)"

definition initial_row :: "int \<Rightarrow> int \<Rightarrow> int \<Rightarrow> string \<Rightarrow> database \<Rightarrow> message_row" where
  "initial_row thread_id sender_uid receiver_uid content d =
     \<lparr>ms_id = next_message d, ms_thread = thread_id, ms_sender = sender_uid, ms_recv = receiver_uid, ms_unique = [], ms_content = content,
      ms_type = 0, ms_size = 0, ms_created = now_text d, ms_status = 2\<rparr>"

definition add_initial_message :: "int \<Rightarrow> int \<Rightarrow> int \<Rightarrow> string \<Rightarrow> ChatMessage list sql" where
  "add_initial_message thread_id sender_uid receiver_uid content =
     (if content = [] then sql_return []
      else sql_then (insert_message (initial_row thread_id sender_uid receiver_uid content))
           (sql_bind (select last_insert_id) (\<lambda>i.
            sql_return [\<lparr>cm_message_id = i, cm_thread_id = thread_id, cm_sender_id = sender_uid, cm_recv_id = receiver_uid,
              cm_unique_id = [], cm_content = content, cm_chat_time = [], cm_status = 2, cm_msg_type = 0, cm_media_size = 0\<rparr>])))"

text \<open>The operation of \<^verbatim>\<open>AddFriend\<close>: what follows the two locked reads, and the whole.\<close>

definition befriend_rows :: "int \<Rightarrow> int \<Rightarrow> string \<Rightarrow> string \<Rightarrow> ContactApplication \<times> ContactApplication \<Rightarrow> bool \<times> bool \<Rightarrow>
    (bool \<times> ChatMessage list) sql" where
  "befriend_rows from_uid to_uid remark tags_json applications friends =
     (let first_uid = min from_uid to_uid; second_uid = max from_uid to_uid;
          (a0, a1) = applications; (f0, f1) = friends;
          incoming = (if to_uid = first_uid then a0 else a1);
          back = (\<lambda>self_uid. if self_uid = from_uid then remark else ca_remark incoming);
          tags = (\<lambda>self_uid. if self_uid = from_uid then tags_json else ca_tags incoming) in
      if \<not> (f0 \<and> f1) \<and> \<not> ca_exists incoming then sql_return (False, [])
      else sql_then (sql_when (ca_exists a0) (accept_apply first_uid second_uid))
          (sql_then (sql_when (ca_exists a1) (accept_apply second_uid first_uid))
          (if f0 \<and> f1 then sql_return (True, [])
           else sql_then (sql_when (\<not> f0) (insert_friend first_uid second_uid (back first_uid) (tags first_uid)))
               (sql_then (sql_when (\<not> f1) (insert_friend second_uid first_uid (back second_uid) (tags second_uid)))
               (sql_bind (private_thread first_uid second_uid) (\<lambda>thread_id.
                sql_bind (add_initial_message thread_id to_uid from_uid (ca_description incoming)) (\<lambda>ms1.
                sql_bind (add_initial_message thread_id from_uid to_uid ''We are friends now!'') (\<lambda>ms2.
                sql_return (True, ms1 @ ms2)))))))))"

definition befriend_operation :: "int \<Rightarrow> int \<Rightarrow> string \<Rightarrow> string \<Rightarrow> (bool \<times> ChatMessage list) sql" where
  "befriend_operation from_uid to_uid remark tags_json =
     sql_bind (LockApplications (min from_uid to_uid) (max from_uid to_uid)) (\<lambda>applications.
     sql_bind (LockFriends (min from_uid to_uid) (max from_uid to_uid)) (\<lambda>friends.
     befriend_rows from_uid to_uid remark tags_json applications friends))"

definition AddFriend :: "int \<Rightarrow> int \<Rightarrow> string \<Rightarrow> string \<Rightarrow> mysql \<Rightarrow> (bool \<times> ChatMessage list) \<times> mysql" where
  "AddFriend from_uid to_uid remark tags_json c =
     (if bad_pair from_uid to_uid then ((False, []), c)
      else with_connection (False, []) (\<lambda>c.
        case RunContactTransaction (befriend_operation from_uid to_uid remark tags_json) c of
          (None, c') \<Rightarrow> ((False, []), c') | (Some ms, c') \<Rightarrow> ((True, ms), c')) c)"

definition delete_operation :: "int \<Rightarrow> int \<Rightarrow> (bool \<times> unit) sql" where
  "delete_operation self_uid friend_uid =
     (let first_uid = min self_uid friend_uid; second_uid = max self_uid friend_uid in
      sql_then (LockApplications first_uid second_uid)
      (sql_then (LockFriends first_uid second_uid)
      (sql_then (delete_apply first_uid second_uid)
      (sql_then (delete_apply second_uid first_uid)
      (sql_then (delete_friend first_uid second_uid)
      (sql_then (delete_friend second_uid first_uid)
      (sql_return (True, ()))))))))"

definition DeleteFriend :: "int \<Rightarrow> int \<Rightarrow> mysql \<Rightarrow> bool \<times> mysql" where
  "DeleteFriend self_uid friend_uid c =
     (if bad_pair self_uid friend_uid then (False, c)
      else with_connection False (\<lambda>c.
        case RunContactTransaction (delete_operation self_uid friend_uid) c of (r, c') \<Rightarrow> (r \<noteq> None, c')) c)"

section \<open>Reading and labelling contacts\<close>

definition apply_rows :: "tables \<Rightarrow> int \<Rightarrow> int \<Rightarrow> (apply_row \<times> user_row) list" where
  "apply_rows t to_uid begin_id = sort_key (\<lambda>(a, u). ap_id a)
     (filter (\<lambda>(a, u). u_id u = ap_from a \<and> ap_to a = to_uid \<and> begin_id < ap_id a) (List.product (applies_t t) (users_t t)))"

definition apply_info :: "apply_row \<times> user_row \<Rightarrow> ApplyInfo" where
  "apply_info = (\<lambda>(a, u). \<lparr>ai_id = ap_id a, ai_uid = ap_from a, ai_name = u_username u, ai_desc = ap_descs a,
     ai_icon = u_icon u, ai_nick = u_nick u, ai_sex = u_sex u, ai_status = ap_status a\<rparr>)"

text \<open>The rows are appended to what the caller's vector already holds.\<close>

definition GetApplyList :: "int \<Rightarrow> ApplyInfo list \<Rightarrow> int \<Rightarrow> int \<Rightarrow> mysql \<Rightarrow> (bool \<times> ApplyInfo list) \<times> mysql" where
  "GetApplyList to_uid applications begin_id limit c =
     (if to_uid \<le> 0 \<or> limit \<le> 0 then ((False, applications), c)
      else with_connection (False, applications) (sql_catch (\<lambda>_. (False, applications))
        (sql_bind (select (\<lambda>d. take (nat limit) (apply_rows (rows d) to_uid begin_id))) (\<lambda>result.
           sql_return (True, applications @ map apply_info result)))) c)"

definition friend_rows :: "tables \<Rightarrow> int \<Rightarrow> int \<Rightarrow> (friend_row \<times> user_row) list" where
  "friend_rows t self_uid begin_uid = sort_key (\<lambda>(f, u). fr_friend f)
     (filter (\<lambda>(f, u). u_id u = fr_friend f \<and> fr_self f = self_uid \<and> begin_uid < fr_friend f) (List.product (friends_t t) (users_t t)))"

definition friend_info :: "friend_row \<times> user_row \<Rightarrow> UserInfo" where
  "friend_info = (\<lambda>(f, u). (ReadUserInfo u)\<lparr>ui_back := fr_back f, ui_tags_json := coalesce_tags (fr_tags f)\<rparr>)"

definition GetFriendPage :: "int \<Rightarrow> int \<Rightarrow> int \<Rightarrow> mysql \<Rightarrow> (bool \<times> UserInfo list) \<times> mysql" where
  "GetFriendPage self_uid begin_uid limit c =
     (if self_uid \<le> 0 \<or> begin_uid < 0 \<or> limit \<le> 0 then ((False, []), c)
      else with_connection (False, []) (sql_catch (\<lambda>_. (False, []))
        (sql_bind (select (\<lambda>d. take (nat limit) (friend_rows (rows d) self_uid begin_uid))) (\<lambda>result.
           sql_return (True, map friend_info result)))) c)"

definition GetFriendList :: "int \<Rightarrow> mysql \<Rightarrow> (bool \<times> UserInfo list) \<times> mysql" where
  "GetFriendList self_uid = GetFriendPage self_uid 0 int_max"

definition GetFriendIds :: "int \<Rightarrow> mysql \<Rightarrow> (bool \<times> int list) \<times> mysql" where
  "GetFriendIds self_uid c =
     (if self_uid \<le> 0 then ((False, []), c)
      else with_connection (False, []) (sql_catch (\<lambda>_. (False, []))
        (sql_bind (select (\<lambda>d. sort (map fr_friend (filter (\<lambda>f. fr_self f = self_uid) (friends_t (rows d)))))) (\<lambda>ids.
           sql_return (True, ids)))) c)"

definition CheckFriendship :: "int \<Rightarrow> int \<Rightarrow> mysql \<Rightarrow> ErrorCodes \<times> mysql" where
  "CheckFriendship self_uid friend_uid c =
     (if bad_pair self_uid friend_uid then (UidInvalid, c)
      else with_connection DatabaseError (sql_catch (\<lambda>_. DatabaseError)
        (sql_bind (select (\<lambda>d. are_friends (rows d) self_uid friend_uid)) (\<lambda>found.
           sql_return (if found then Success else FriendNotFound)))) c)"

definition find_friend :: "tables \<Rightarrow> int \<Rightarrow> int \<Rightarrow> friend_row option" where
  "find_friend t a b = find (\<lambda>r. fr_self r = a \<and> fr_friend r = b) (friends_t t)"

text \<open>The result with \<^verbatim>\<open>back\<close> and \<^verbatim>\<open>tags_json\<close>, which stay as given when nothing is found.\<close>

definition GetFriendMetadata :: "int \<Rightarrow> int \<Rightarrow> string \<times> string \<Rightarrow> mysql \<Rightarrow> (ErrorCodes \<times> string \<times> string) \<times> mysql" where
  "GetFriendMetadata self_uid friend_uid out c =
     (if self_uid \<le> 0 \<or> friend_uid \<le> 0 then ((UidInvalid, out), c)
      else with_connection (DatabaseError, out) (sql_catch (\<lambda>_. (DatabaseError, out))
        (sql_bind (select (\<lambda>d. find_friend (rows d) self_uid friend_uid)) (\<lambda>result.
           sql_return (case result of None \<Rightarrow> (FriendNotFound, out)
             | Some r \<Rightarrow> (Success, fr_back r, coalesce_tags (fr_tags r)))))) c)"

definition SetContactTags :: "int \<Rightarrow> int \<Rightarrow> string \<Rightarrow> string option \<Rightarrow> mysql \<Rightarrow> ErrorCodes \<times> mysql" where
  "SetContactTags self_uid friend_uid tags_json back c =
     (if bad_pair self_uid friend_uid then (UidInvalid, c)
      else with_connection DatabaseError (sql_catch (\<lambda>_. DatabaseError)
        (transaction (sql_bind (select (\<lambda>d. are_friends (rows d) self_uid friend_uid)) (\<lambda>found.
           if \<not> found then sql_return (False, FriendNotFound)
           else sql_then (update_friend self_uid friend_uid tags_json back) (sql_return (True, Success)))))) c)"

section \<open>What a retried transaction leaves behind\<close>

lemma contact_attempts_cases:
  assumes "contact_attempts n work c = (r, c')" "framed work" "saved c = None"
  obtains (unchanged) "r = None" "tbl c' = tbl c" "saved c' = None" "framed_db (db c) (db c')"
    | (committed) x c1 c2 where "tbl c1 = tbl c" "framed_db (db c) (db c1)" "gives work (begun c1) (True, x) c2"
      "db c' = db c2" "saved c' = None" "framed_db (db c) (db c')" "r = Some x \<or> r = None"
  using assms(1,3)
proof (induction n arbitrary: c thesis)
  case 0
  then show ?case by auto
next
  case (Suc n)
  note unch = Suc.prems(1) and comm = Suc.prems(2) and run = Suc.prems(3) and sv = Suc.prems(4)
  obtain f c1 where f: "next_fault c = (f, c1)" by force
  note c1 = next_fault_eq [OF f]
  show ?case
  proof (cases "f = Runs")
    case False
    then show ?thesis using run f c1 sv unch by (cases f) auto
  next
    case True
    obtain w c2 where w: "work (begun c1) = (w, c2)" by force
    have 2: "framed_db (db c) (db c2)" "saved c2 = Some (tbl c)"
      using assms(2) w c1 unfolding framed_def by (metis snd_conv begun_simps)+
    consider (early) x where "w = Inr (False, x)" | (finish) x where "w = Inr (True, x)" | (error) e where "w = Inl e"
      by (metis (full_types) old.sum.exhaust surj_pair)
    then show ?thesis
    proof cases
      case early
      then have "r = None" "c' = roll_back c2" using run f w True by auto
      then show ?thesis using unch 2 roll_back_Some [OF 2(2)] by simp
    next
      case (finish x)
      obtain r' c3 where c3: "Commit c2 = (r', c3)" by force
      have g: "gives work (begun c1) (True, x) c2" using w finish by (simp add: gives_def)
      have r: "r = (case r' of Inl e \<Rightarrow> None | Inr _ \<Rightarrow> Some x)" "c' = roll_back c3"
        using run f w finish True c3 by (auto split: sum.splits)
      from c3 show ?thesis
      proof (cases rule: Commit_cases)
        case committed
        then show ?thesis using r 2 g c1 by (intro comm) auto
      next
        case (unknown e)
        then show ?thesis using r 2 g c1 by (intro comm) auto
      next
        case (refused e)
        then show ?thesis using r 2 roll_back_Some [of c3] by (intro unch) auto
      qed
    next
      case (error e)
      show ?thesis
      proof (cases "(e = 1213 \<or> e = 1205) \<and> 0 < n")
        case False
        then have "r = None" "c' = roll_back c2" using run f w True error by auto
        then show ?thesis using unch 2 roll_back_Some [OF 2(2)] by simp
      next
        case retry: True
        obtain q c3 where q: "Rollback c2 = (q, c3)" by force
        have 3: "tbl c3 = tbl c" "saved c3 = None" "framed_db (db c) (db c3)"
          using Rollback_db [OF 2(2)] 2(1) q by auto
        show ?thesis
        proof (cases q)
          case (Inl e')
          then have "r = None" "c' = c3" using run f w True error retry q by auto
          then show ?thesis using unch 3 by simp
        next
          case (Inr u)
          then have "contact_attempts n work c3 = (r, c')" using run f w True error retry q by auto
          note run' = this
          show ?thesis
          proof (rule Suc.IH [OF _ _ run' 3(2)])
            assume "r = None" "tbl c' = tbl c3" "saved c' = None" "framed_db (db c3) (db c')"
            then show ?thesis using unch 3 framed_db_trans [OF 3(3)] by simp
          next
            fix x d1 d2
            assume a: "tbl d1 = tbl c3" "framed_db (db c3) (db d1)" "gives work (begun d1) (True, x) d2" "db c' = db d2"
              "saved c' = None" "framed_db (db c3) (db c')" "r = Some x \<or> r = None"
            then show ?thesis
              by (intro comm [OF _ _ a(3)]) (simp_all add: 3 framed_db_trans [OF 3(3)])
          qed
        qed
      qed
    qed
  qed
qed

section \<open>Effects of the statements\<close>

lemma framed_contacts [framed_rules]:
  "framed (upsert_apply a b x y z)" "framed (accept_apply a b)" "framed (insert_friend a b x y)"
  "framed (delete_apply a b)" "framed (delete_friend a b)" "framed (update_friend a b x v)"
  by (auto simp: upsert_apply_def accept_apply_def insert_friend_def delete_apply_def delete_friend_def
      update_friend_def Let_def framed_db_def intro!: framed_statement)

lemma framed_operations [framed_rules]:
  "framed (LockApplications a b)" "framed (LockFriends a b)" "framed (private_thread a b)" "framed (add_initial_message i a b s)"
  by (auto simp: LockApplications_def LockFriends_def private_thread_def add_initial_message_def intro!: framed_rules)

lemma framed_contact_operations [framed_rules]:
  "framed (apply_operation a b x y z)" "framed (auth_operation a b)" "framed (befriend_operation a b x y)"
  "framed (delete_operation a b)"
  by (auto simp: apply_operation_def auth_operation_def befriend_operation_def befriend_rows_def delete_operation_def Let_def split_beta
      intro!: framed_rules)

lemma gives_LockApplications:
  assumes "gives (LockApplications a b) c x c'"
  shows "x = (application_of (tbl c) a b, application_of (tbl c) b a)" "db c' = db c"
  using assms unfolding LockApplications_def by (auto dest!: gives_select)

lemma gives_LockFriends:
  assumes "gives (LockFriends a b) c x c'"
  shows "x = (are_friends (tbl c) a b, are_friends (tbl c) b a)" "db c' = db c"
  using assms unfolding LockFriends_def by (auto dest!: gives_select)

text \<open>Marking the applications of a pair as accepted.\<close>

definition accept_row :: "int \<Rightarrow> int \<Rightarrow> apply_row \<Rightarrow> apply_row" where
  "accept_row a b r = (if ap_from r = a \<and> ap_to r = b then r\<lparr>ap_status := 1\<rparr> else r)"

lemma accept_row_keys [simp]:
  "ap_from (accept_row a b r) = ap_from r" "ap_to (accept_row a b r) = ap_to r" "ap_id (accept_row a b r) = ap_id r"
  "ap_descs (accept_row a b r) = ap_descs r"
  by (simp_all add: accept_row_def)

lemma gives_accept_apply:
  assumes "gives (accept_apply a b) c u c'"
  shows "db c' = (db c)\<lparr>rows := (tbl c)\<lparr>applies_t := map (accept_row a b) (applies_t (tbl c))\<rparr>\<rparr>"
  using gives_statement [OF assms [unfolded accept_apply_def]] by (simp add: accept_row_def [abs_def])

lemma application_of_exists: "ca_exists (application_of t a b) \<longleftrightarrow> find_apply t a b \<noteq> None"
  by (simp add: application_of_def no_application_def split: option.split)

lemma accept_row_absent: "find_apply t a b = None \<Longrightarrow> map (accept_row a b) (applies_t t) = applies_t t"
  by (auto simp: find_apply_def find_None_iff accept_row_def intro!: map_idI)

lemma gives_accept_when:
  assumes "gives (sql_when (ca_exists (application_of (tbl c0) a b)) (accept_apply a b)) c u c'"
    "find_apply (tbl c0) a b = None \<longleftrightarrow> find_apply (tbl c) a b = None"
  shows "db c' = (db c)\<lparr>rows := (tbl c)\<lparr>applies_t := map (accept_row a b) (applies_t (tbl c))\<rparr>\<rparr>"
  using assms gives_accept_apply [of a b c u c'] accept_row_absent [of "tbl c" a b]
  by (auto simp: gives_when application_of_exists split: if_splits)

lemma gives_insert_friend:
  assumes "gives (insert_friend a b x y) c u c'"
  shows "db c' = (db c)\<lparr>rows := (tbl c)\<lparr>friends_t := friends_t (tbl c) @ [\<lparr>fr_self = a, fr_friend = b, fr_back = x, fr_tags = Some y\<rparr>]\<rparr>\<rparr>"
    "\<not> are_friends (tbl c) a b" "has_user (tbl c) a" "has_user (tbl c) b"
  using gives_statement [OF assms [unfolded insert_friend_def]] by (simp_all add: Let_def split: if_splits)

text \<open>The rows a private thread consists of.\<close>

lemma gives_private_thread:
  assumes "gives (private_thread a b) c i c'" "\<forall>r\<in>set (privates_t (tbl c)). pc_thread r \<noteq> 0"
  obtains (found) r where "find_private (tbl c) a b = Some r" "i = pc_thread r" "db c' = db c"
    | (created) "find_private (tbl c) a b = None" "i = next_thread (db c)" "has_user (tbl c) a" "has_user (tbl c) b"
      "db c' = (db c)\<lparr>rows := (tbl c)\<lparr>threads_t := threads_t (tbl c) @ [(i, ''private'')],
        privates_t := privates_t (tbl c) @ [\<lparr>pc_thread = i, pc_user1 = a, pc_user2 = b\<rparr>]\<rparr>, next_thread := i + 1, last_insert_id := i\<rparr>"
      "\<forall>r\<in>set (privates_t (tbl c)). pc_thread r \<noteq> i"
proof -
  from assms(1) obtain j c1 where j: "gives (select (\<lambda>d. case find_private (rows d) a b of None \<Rightarrow> 0 | Some r \<Rightarrow> pc_thread r)) c j c1"
    "gives (if j = 0 then sql_then (insert_thread ''private'') (sql_bind (select last_insert_id) (\<lambda>new_id.
        sql_then (insert_private new_id a b) (sql_return new_id))) else sql_return j) c1 i c'"
    unfolding private_thread_def by auto
  note j1 = gives_select [OF j(1)]
  show thesis
  proof (cases "find_private (tbl c) a b")
    case (Some r)
    then have "r \<in> set (privates_t (tbl c))" by (auto simp: find_private_def find_Some_iff)
    then have "j \<noteq> 0" "j = pc_thread r" using j1 Some assms(2) by auto
    then show thesis using j(2) j1 Some found by auto
  next
    case None
    then have "j = 0" using j1 by simp
    then obtain u1 c2 k c3 u2 c4 where s: "gives (insert_thread ''private'') c1 u1 c2" "gives (select last_insert_id) c2 k c3"
      "gives (insert_private k a b) c3 u2 c4" "i = k" "c' = c4" using j(2) by auto
    note t = gives_insert_thread [OF s(1)] and l = gives_select [OF s(2)] and p = gives_insert_private [OF s(3)]
    show thesis using created None j1 s(4,5) t l p by (simp add: has_user_def)
  qed
qed

lemma private_thread_keeps:
  assumes "gives (private_thread a b) c i c'"
  shows "next_message (db c') = next_message (db c)" "now_text (db c') = now_text (db c)" "messages_t (tbl c') = messages_t (tbl c)"
  using assms unfolding private_thread_def
  by (auto dest!: gives_select gives_insert_thread gives_insert_private(1) split: if_splits)

text \<open>Message rows and the records returned for them.\<close>

definition message_of_row :: "message_row \<Rightarrow> ChatMessage" where
  "message_of_row r = \<lparr>cm_message_id = ms_id r, cm_thread_id = ms_thread r, cm_sender_id = ms_sender r, cm_recv_id = ms_recv r,
     cm_unique_id = ms_unique r, cm_content = ms_content r, cm_chat_time = [], cm_status = ms_status r, cm_msg_type = ms_type r,
     cm_media_size = ms_size r\<rparr>"

lemma gives_add_initial_message:
  assumes "gives (add_initial_message i s r txt) c ms c'"
  defines "M \<equiv> (if txt = [] then [] else [initial_row i s r txt (db c)])"
  shows "tbl c' = (tbl c)\<lparr>messages_t := messages_t (tbl c) @ M\<rparr>" "ms = map message_of_row M"
    "next_message (db c') = next_message (db c) + int (length M)" "next_thread (db c') = next_thread (db c)"
    "now_text (db c') = now_text (db c)" "weight (db c') = weight (db c)" "next_apply (db c') = next_apply (db c)"
proof -
  have "db c' = (if txt = [] then db c else (db c)\<lparr>next_message := next_message (db c) + 1,
       rows := (tbl c)\<lparr>messages_t := messages_t (tbl c) @ M\<rparr>, last_insert_id := next_message (db c)\<rparr>) \<and> ms = map message_of_row M"
  proof (cases "txt = []")
    case True
    then show ?thesis using assms by (simp add: add_initial_message_def)
  next
    case False
    then obtain u c1 k c2 where s: "gives (insert_message (initial_row i s r txt)) c u c1" "gives (select last_insert_id) c1 k c2"
      "ms = [\<lparr>cm_message_id = k, cm_thread_id = i, cm_sender_id = s, cm_recv_id = r,
         cm_unique_id = [], cm_content = txt, cm_chat_time = [], cm_status = 2, cm_msg_type = 0, cm_media_size = 0\<rparr>]" "c' = c2"
      using assms(1) by (auto simp: add_initial_message_def)
    show ?thesis using False gives_insert_message(1) [OF s(1)] gives_select [OF s(2)] s(3,4)
      by (simp add: M_def message_of_row_def initial_row_def)
  qed
  then show "tbl c' = (tbl c)\<lparr>messages_t := messages_t (tbl c) @ M\<rparr>" "ms = map message_of_row M"
    "next_message (db c') = next_message (db c) + int (length M)" "next_thread (db c') = next_thread (db c)"
    "now_text (db c') = now_text (db c)" "weight (db c') = weight (db c)" "next_apply (db c') = next_apply (db c)"
    by (simp_all add: M_def)
qed

text \<open>The rows that accepting an application adds.\<close>

definition friend_pair :: "tables \<Rightarrow> int \<Rightarrow> int \<Rightarrow> (int \<Rightarrow> string) \<Rightarrow> (int \<Rightarrow> string) \<Rightarrow> friend_row list" where
  "friend_pair t a b back tags =
     (if are_friends t a b then [] else [\<lparr>fr_self = a, fr_friend = b, fr_back = back a, fr_tags = Some (tags a)\<rparr>]) @
     (if are_friends t b a then [] else [\<lparr>fr_self = b, fr_friend = a, fr_back = back b, fr_tags = Some (tags b)\<rparr>])"

definition accept_pair :: "int \<Rightarrow> int \<Rightarrow> apply_row list \<Rightarrow> apply_row list" where
  "accept_pair a b rs = map (accept_row b a) (map (accept_row a b) rs)"

lemma find_map_keys: "(\<And>x. P (f x) = P x) \<Longrightarrow> (find P (map f xs) = None) = (find P xs = None)"
  by (induction xs) auto

lemma are_friends_cong [simp]:
  "are_friends (t\<lparr>applies_t := A\<rparr>) a b = are_friends t a b" "are_friends (t\<lparr>threads_t := T\<rparr>) a b = are_friends t a b"
  "are_friends (t\<lparr>privates_t := P\<rparr>) a b = are_friends t a b" "are_friends (t\<lparr>messages_t := M\<rparr>) a b = are_friends t a b"
  "find_private (t\<lparr>applies_t := A\<rparr>) a b = find_private t a b" "find_private (t\<lparr>friends_t := F\<rparr>) a b = find_private t a b"
  "has_user (t\<lparr>applies_t := A\<rparr>) a = has_user t a" "has_user (t\<lparr>friends_t := F\<rparr>) a = has_user t a"
  "are_friends (t\<lparr>friends_t := friends_t t @ F\<rparr>) a b = (are_friends t a b \<or> (\<exists>r\<in>set F. fr_self r = a \<and> fr_friend r = b))"
  by (auto simp: are_friends_def find_private_def has_user_def)

lemma gives_insert_pair:
  assumes "gives (sql_when (\<not> are_friends t a b) (insert_friend a b (back a) (tags a))) c u c1"
    "gives (sql_when (\<not> are_friends t b a) (insert_friend b a (back b) (tags b))) c1 v c2"
    "a \<noteq> b" "\<not> (are_friends t a b \<and> are_friends t b a)"
  shows "db c2 = (db c)\<lparr>rows := (tbl c)\<lparr>friends_t := friends_t (tbl c) @ friend_pair t a b back tags\<rparr>\<rparr>"
    "has_user (tbl c) a" "has_user (tbl c) b"
  using assms gives_insert_friend [of a b "back a" "tags a" c u c1] gives_insert_friend [of b a "back b" "tags b" c1 v c2]
  by (auto simp: gives_when friend_pair_def split: if_splits)

lemma gives_befriend:
  assumes "gives (befriend_operation f g remark tags_json) c (True, ms) c'" "f \<noteq> g"
  defines "a \<equiv> min f g" and "b \<equiv> max f g" and "inc \<equiv> application_of (tbl c) g f"
  obtains (again) "are_friends (tbl c) f g" "are_friends (tbl c) g f" "ms = []"
      "db c' = (db c)\<lparr>rows := (tbl c)\<lparr>applies_t := accept_pair a b (applies_t (tbl c))\<rparr>\<rparr>"
    | (fresh) i c1 c2 where "\<not> (are_friends (tbl c) f g \<and> are_friends (tbl c) g f)" "ca_exists inc"
      "has_user (tbl c) f" "has_user (tbl c) g"
      "db c1 = (db c)\<lparr>rows := (tbl c)\<lparr>applies_t := accept_pair a b (applies_t (tbl c)),
         friends_t := friends_t (tbl c) @ friend_pair (tbl c) a b (\<lambda>s. if s = f then remark else ca_remark inc)
           (\<lambda>s. if s = f then tags_json else ca_tags inc)\<rparr>\<rparr>"
      "gives (private_thread a b) c1 i c2"
      "tbl c' = (tbl c2)\<lparr>messages_t := messages_t (tbl c2) @
         (if ca_description inc = [] then [] else [initial_row i g f (ca_description inc) (db c)]) @
         [initial_row i f g ''We are friends now!'' ((db c)\<lparr>next_message := next_message (db c) + (if ca_description inc = [] then 0 else 1)\<rparr>)]\<rparr>"
      "ms = map message_of_row ((if ca_description inc = [] then [] else [initial_row i g f (ca_description inc) (db c)]) @
         [initial_row i f g ''We are friends now!'' ((db c)\<lparr>next_message := next_message (db c) + (if ca_description inc = [] then 0 else 1)\<rparr>)])"
      "next_thread (db c') = next_thread (db c2)" "next_message (db c') = next_message (db c) + int (length ms)"
proof -
  let ?t = "tbl c"
  have ab: "a \<noteq> b" "(f = a \<and> g = b) \<or> (f = b \<and> g = a)" using assms(2) by (auto simp: a_def b_def)
  obtain as d1 fs d2 where la: "gives (LockApplications a b) c as d1" and lf: "gives (LockFriends a b) d1 fs d2"
    and rest: "gives (befriend_rows f g remark tags_json as fs) d2 (True, ms) c'"
    using assms(1) unfolding befriend_operation_def a_def b_def by auto
  note as = gives_LockApplications [OF la] and fs = gives_LockFriends [OF lf]
  have d2: "db d2 = db c" using as(2) fs(2) by simp
  have inc: "(if g = a then application_of ?t a b else application_of ?t b a) = inc" using ab by (auto simp: inc_def)
  note rest = rest [unfolded befriend_rows_def a_def [symmetric] b_def [symmetric] as(1) fs(1) as(2) Let_def prod.case inc]
  have k: "find_apply (x\<lparr>applies_t := map (accept_row a b) (applies_t x)\<rparr>) b a = None \<longleftrightarrow> find_apply x b a = None" for x
    by (simp add: find_apply_def find_map_keys)
  have acc: "db d4 = (db c)\<lparr>rows := ?t\<lparr>applies_t := accept_pair a b (applies_t ?t)\<rparr>\<rparr>"
    if "gives (sql_when (ca_exists (application_of ?t a b)) (accept_apply a b)) d2 u d3"
      "gives (sql_when (ca_exists (application_of ?t b a)) (accept_apply b a)) d3 v d4" for u d3 v d4
    using gives_accept_when [OF that(1)] gives_accept_when [OF that(2)] k d2 by (simp add: accept_pair_def)
  show thesis
  proof (cases "are_friends ?t a b \<and> are_friends ?t b a")
    case True
    then obtain u1 d3 u2 where s: "gives (sql_when (ca_exists (application_of ?t a b)) (accept_apply a b)) d2 u1 d3"
      "gives (sql_when (ca_exists (application_of ?t b a)) (accept_apply b a)) d3 u2 c'" and "ms = []"
      using rest by auto
    moreover have "are_friends ?t f g" "are_friends ?t g f" using True ab(2) by auto
    ultimately show thesis using acc [OF s] again by simp
  next
    case False
    then have e: "ca_exists inc" using rest by (auto split: if_splits)
    from rest False e obtain u1 d3 u2 d4 u3 d5 u4 d6 i d7 ms1 d8 ms2 where
      s: "gives (sql_when (ca_exists (application_of ?t a b)) (accept_apply a b)) d2 u1 d3"
      "gives (sql_when (ca_exists (application_of ?t b a)) (accept_apply b a)) d3 u2 d4"
      and ins: "gives (sql_when (\<not> are_friends ?t a b) (insert_friend a b (if a = f then remark else ca_remark inc) (if a = f then tags_json else ca_tags inc))) d4 u3 d5"
      "gives (sql_when (\<not> are_friends ?t b a) (insert_friend b a (if b = f then remark else ca_remark inc) (if b = f then tags_json else ca_tags inc))) d5 u4 d6"
      and p: "gives (private_thread a b) d6 i d7"
      and m: "gives (add_initial_message i g f (ca_description inc)) d7 ms1 d8"
        "gives (add_initial_message i f g ''We are friends now!'') d8 ms2 c'" "ms = ms1 @ ms2"
      by auto
    note d4 = acc [OF s]
    note d6 = gives_insert_pair [of ?t a b "\<lambda>s. if s = f then remark else ca_remark inc" "\<lambda>s. if s = f then tags_json else ca_tags inc",
        OF ins ab(1) False]
    note m1 = gives_add_initial_message [OF m(1)] and m2 = gives_add_initial_message [OF m(2)]
    have keep: "next_message (db d7) = next_message (db c)" "now_text (db d7) = now_text (db c)"
      using private_thread_keeps [OF p] d6(1) d4 by simp_all
    show thesis
    proof (rule fresh [OF _ e _ _ _ p])
      show "\<not> (are_friends ?t f g \<and> are_friends ?t g f)" using False ab(2) by auto
      show "has_user ?t f" "has_user ?t g" using d6(2,3) d4 ab(2) by auto
    qed (use d4 d6(1) m1 m2 m(3) keep in \<open>simp_all add: initial_row_def\<close>)
  qed
qed

end
