(* ===== verification/Messages.thy ===== *)
theory Messages
  imports Contacts
begin

text \<open>
  Threads and messages: \<^verbatim>\<open>MysqlDaoMessages.cpp\<close>. A message is stored under the sender's own
  identifier, so that a client may send it again; history and threads are read in pages by a cursor.
\<close>

section \<open>Access and threads\<close>

text \<open>The join of \<^verbatim>\<open>private_chat\<close> with the reader's row of \<^verbatim>\<open>friend\<close>; the primary
  key of \<^verbatim>\<open>friend\<close> makes the match unique.\<close>

definition accessible_private :: "tables \<Rightarrow> int \<Rightarrow> private_row \<Rightarrow> bool" where
  "accessible_private t uid p \<longleftrightarrow> (pc_user1 p = uid \<or> pc_user2 p = uid) \<and>
     are_friends t uid (if pc_user1 p = uid then pc_user2 p else pc_user1 p)"

definition CheckPrivateChatAccess :: "int \<Rightarrow> int \<Rightarrow> mysql \<Rightarrow> ErrorCodes \<times> mysql" where
  "CheckPrivateChatAccess self_uid thread_id c =
     (if self_uid \<le> 0 \<or> thread_id \<le> 0 then (UidInvalid, c)
      else with_connection DatabaseError (sql_catch (\<lambda>_. DatabaseError)
        (sql_bind (select (\<lambda>d. \<exists>p\<in>set (privates_t (rows d)). pc_thread p = thread_id \<and> accessible_private (rows d) self_uid p))
          (\<lambda>found. sql_return (if found then Success else FriendNotFound)))) c)"

text \<open>A result set of at most one row more than the page: the page and whether there is more.\<close>

definition cut_page :: "int \<Rightarrow> 'a list \<Rightarrow> 'a list \<times> bool" where
  "cut_page page_size result = (if page_size < int (length result) then (butlast result, True) else (result, False))"

definition user_threads :: "tables \<Rightarrow> int \<Rightarrow> int \<Rightarrow> (int \<times> string \<times> int \<times> int) list" where
  "user_threads t uid last_id =
     map (\<lambda>p. (pc_thread p, ''private'', pc_user1 p, pc_user2 p))
       (filter (\<lambda>p. accessible_private t uid p \<and> last_id < pc_thread p) (privates_t t)) @
     map (\<lambda>(i, u). (i, ''group'', 0, 0)) (filter (\<lambda>(i, u). u = uid \<and> last_id < i) (members_t t))"

definition latest_message :: "tables \<Rightarrow> int \<Rightarrow> message_row option" where
  "latest_message t thread = (case sort_key ms_id (filter (\<lambda>m. ms_thread m = thread) (messages_t t)) of
     [] \<Rightarrow> None | ms \<Rightarrow> Some (last ms))"

definition thread_info :: "tables \<Rightarrow> int \<times> string \<times> int \<times> int \<Rightarrow> ChatThreadInfo" where
  "thread_info t = (\<lambda>(i, kind, u1, u2). \<lparr>ct_thread_id = i, ct_type = kind, ct_user1_id = u1, ct_user2_id = u2,
     ct_last_message_id = (case latest_message t i of None \<Rightarrow> 0 | Some m \<Rightarrow> ms_id m),
     ct_last_chat_time = (case latest_message t i of None \<Rightarrow> [] | Some m \<Rightarrow> ms_created m)\<rparr>)"

text \<open>The result, the threads, \<^verbatim>\<open>load_more\<close> and \<^verbatim>\<open>next_last_id\<close>.\<close>

definition GetUserThreads :: "int \<Rightarrow> int \<Rightarrow> int \<Rightarrow> mysql \<Rightarrow> (bool \<times> ChatThreadInfo list \<times> bool \<times> int) \<times> mysql" where
  "GetUserThreads user_id last_id page_size c =
     (if user_id \<le> 0 \<or> page_size \<le> 0 then ((False, [], False, last_id), c)
      else with_connection (False, [], False, last_id) (sql_catch (\<lambda>_. (False, [], False, last_id))
        (sql_bind (select (\<lambda>d. map (thread_info (rows d))
             (take (nat (page_size + 1)) (sort_key fst (user_threads (rows d) user_id last_id))))) (\<lambda>result.
           let (threads, load_more) = cut_page page_size result in
           sql_return (True, threads, load_more, if threads = [] then last_id else ct_thread_id (last threads))))) c)"

definition create_operation :: "int \<Rightarrow> int \<Rightarrow> (bool \<times> int option) sql" where
  "create_operation user1_uid user2_uid =
     (let first_uid = min user1_uid user2_uid; second_uid = max user1_uid user2_uid in
      sql_bind (select (\<lambda>d. are_friends (rows d) user1_uid user2_uid)) (\<lambda>friendship.
        if \<not> friendship then sql_return (False, None)
        else sql_bind (select (\<lambda>d. find_private (rows d) first_uid second_uid)) (\<lambda>result.
          case result of Some r \<Rightarrow> sql_return (True, Some (pc_thread r))
          | None \<Rightarrow> sql_then (insert_thread ''private'')
              (sql_bind (select last_insert_id) (\<lambda>thread_id.
               sql_then (insert_private thread_id first_uid second_uid) (sql_return (True, Some thread_id)))))))"

text \<open>\<^term>\<open>None\<close> is \<^verbatim>\<open>false\<close>, after which no caller reads \<^verbatim>\<open>thread_id\<close>.\<close>

definition CreatePrivateChat :: "int \<Rightarrow> int \<Rightarrow> mysql \<Rightarrow> int option \<times> mysql" where
  "CreatePrivateChat user1_uid user2_uid c =
     (if bad_pair user1_uid user2_uid then (None, c)
      else with_connection None (sql_catch (\<lambda>_. None) (transaction (create_operation user1_uid user2_uid))) c)"

section \<open>History\<close>

definition read_message :: "message_row \<Rightarrow> ChatMessage" where
  "read_message r = \<lparr>cm_message_id = ms_id r, cm_thread_id = ms_thread r, cm_sender_id = ms_sender r, cm_recv_id = ms_recv r,
     cm_unique_id = ms_unique r, cm_content = ms_content r, cm_chat_time = ms_created r, cm_status = ms_status r,
     cm_msg_type = ms_type r, cm_media_size = ms_size r\<rparr>"

definition history_rows :: "tables \<Rightarrow> int \<Rightarrow> int \<Rightarrow> message_row list" where
  "history_rows t thread_id last_message_id =
     sort_key ms_id (filter (\<lambda>m. ms_thread m = thread_id \<and> last_message_id < ms_id m) (messages_t t))"

definition LoadChatMsg :: "int \<Rightarrow> int \<Rightarrow> int \<Rightarrow> mysql \<Rightarrow> PageResult option \<times> mysql" where
  "LoadChatMsg thread_id last_message_id page_size c =
     (if thread_id \<le> 0 \<or> page_size \<le> 0 then (None, c)
      else with_connection None (sql_catch (\<lambda>_. None)
        (sql_bind (select (\<lambda>d. take (nat (page_size + 1)) (history_rows (rows d) thread_id last_message_id))) (\<lambda>result.
           let (messages, load_more) = cut_page page_size (map read_message result) in
           sql_return (Some \<lparr>pr_messages = messages, pr_load_more = load_more,
             pr_next_cursor = (if messages = [] then last_message_id else cm_message_id (last messages))\<rparr>)))) c)"

section \<open>Storing messages\<close>

definition chat_row :: "ChatMessage \<Rightarrow> string \<Rightarrow> int \<Rightarrow> message_row" where
  "chat_row m created i = \<lparr>ms_id = i, ms_thread = cm_thread_id m, ms_sender = cm_sender_id m, ms_recv = cm_recv_id m,
     ms_unique = cm_unique_id m, ms_content = cm_content m, ms_type = cm_msg_type m, ms_size = cm_media_size m,
     ms_created = created, ms_status = cm_status m\<rparr>"

definition insert_chat :: "ChatMessage \<Rightarrow> unit sql" where
  "insert_chat m = statement (\<lambda>d. case stored_datetime d (cm_chat_time m) of None \<Rightarrow> (Inl 1292, d)
     | Some created \<Rightarrow> insert_message_row (chat_row m created (next_message d)) d)"

definition find_message :: "database \<Rightarrow> ChatMessage \<Rightarrow> message_row option" where
  "find_message d m = (case sort_key ms_id (filter (same_key d (cm_thread_id m) (cm_sender_id m) (cm_unique_id m)) (messages_t (rows d))) of
     [] \<Rightarrow> None | r # _ \<Rightarrow> Some r)"

primrec store_messages :: "ChatMessage list \<Rightarrow> (bool \<times> ChatMessage list) sql" where
  "store_messages [] = sql_return (True, [])"
| "store_messages (m # ms) = sql_bind (select (\<lambda>d. find_message d m)) (\<lambda>existing.
     case existing of
       Some r \<Rightarrow>
         if ms_recv r \<noteq> cm_recv_id m \<or> ms_content r \<noteq> cm_content m \<or> ms_type r \<noteq> cm_msg_type m then sql_return (False, [])
         else sql_bind (store_messages ms) (\<lambda>(ok, rest). sql_return (ok,
                m\<lparr>cm_message_id := ms_id r, cm_chat_time := ms_created r, cm_status := ms_status r\<rparr> # rest))
     | None \<Rightarrow> sql_then (insert_chat m) (sql_bind (select last_insert_id) (\<lambda>i.
         sql_bind (store_messages ms) (\<lambda>(ok, rest). sql_return (ok, m\<lparr>cm_message_id := i\<rparr> # rest)))))"

definition may_send :: "ChatMessage \<Rightarrow> bool sql" where
  "may_send m =
     (if cm_sender_id m = cm_recv_id m then
        sql_bind (select (\<lambda>d. find_group (rows d) (cm_thread_id m) \<noteq> None)) (\<lambda>active.
        if \<not> active then sql_return False
        else select (\<lambda>d. is_member (rows d) (cm_thread_id m) (cm_sender_id m)))
      else select (\<lambda>d. are_friends (rows d) (cm_sender_id m) (cm_recv_id m) \<and>
        (\<exists>p\<in>set (privates_t (rows d)). pc_thread p = cm_thread_id m \<and>
           pc_user1 p = min (cm_sender_id m) (cm_recv_id m) \<and> pc_user2 p = max (cm_sender_id m) (cm_recv_id m))))"

definition valid_batch :: "ChatMessage option list \<Rightarrow> bool" where
  "valid_batch messages = (case messages of
       Some first # _ \<Rightarrow> 0 < cm_thread_id first \<and> 0 < cm_sender_id first \<and> 0 < cm_recv_id first \<and>
         list_all (\<lambda>m. case m of None \<Rightarrow> False
           | Some m \<Rightarrow> cm_unique_id m \<noteq> [] \<and> length (cm_unique_id m) \<le> 64 \<and> cm_thread_id m = cm_thread_id first \<and>
               cm_sender_id m = cm_sender_id first \<and> cm_recv_id m = cm_recv_id first) messages
     | _ \<Rightarrow> False)"

definition add_operation :: "ChatMessage list \<Rightarrow> (bool \<times> ChatMessage list option) sql" where
  "add_operation messages = sql_bind (may_send (hd messages)) (\<lambda>allowed.
     if \<not> allowed then sql_return (False, None)
     else sql_bind (store_messages messages) (\<lambda>(ok, stored). sql_return (ok, if ok then Some stored else None)))"

text \<open>
  The batch is a list of pointers, \<^term>\<open>None\<close> the null one. The result is the messages with the
  fields the call filled in, or \<^term>\<open>None\<close> for \<^verbatim>\<open>false\<close>, after which no caller reads them.
\<close>

definition AddChatMsg :: "ChatMessage option list \<Rightarrow> mysql \<Rightarrow> ChatMessage list option \<times> mysql" where
  "AddChatMsg messages c =
     (if messages = [] then (None, c)
      else with_connection None (\<lambda>c. if \<not> valid_batch messages then (None, c)
        else sql_catch (\<lambda>_. None) (transaction (add_operation (map the messages))) c) c)"

section \<open>Looking a message up and storing it\<close>

lemma same_key_sym:
  "same_key d (cm_thread_id m) (cm_sender_id m) (cm_unique_id m) r \<Longrightarrow>
   same_key d (cm_thread_id m) (cm_sender_id m) (cm_unique_id m) r' \<longleftrightarrow> same_key d (ms_thread r) (ms_sender r) (ms_unique r) r'"
  by (auto simp: same_key_def)

abbreviation keyed :: "database \<Rightarrow> ChatMessage \<Rightarrow> message_row \<Rightarrow> bool" where
  "keyed d m \<equiv> same_key d (cm_thread_id m) (cm_sender_id m) (cm_unique_id m)"

lemma find_message_None: "find_message d m = None \<longleftrightarrow> (\<forall>r\<in>set (messages_t (rows d)). \<not> keyed d m r)"
proof -
  have "find_message d m = None \<longleftrightarrow> sort_key ms_id (filter (keyed d m) (messages_t (rows d))) = []"
    by (simp add: find_message_def split: list.split)
  also have "\<dots> \<longleftrightarrow> filter (keyed d m) (messages_t (rows d)) = []" by (metis set_empty set_sort)
  finally show ?thesis by (simp add: filter_empty_conv)
qed

lemma find_message_Some:
  assumes "find_message d m = Some r"
  shows "r \<in> set (messages_t (rows d))" "keyed d m r"
proof -
  obtain rs where "sort_key ms_id (filter (keyed d m) (messages_t (rows d))) = r # rs"
    using assms unfolding find_message_def by (auto split: list.splits)
  then have "r \<in> set (sort_key ms_id (filter (keyed d m) (messages_t (rows d))))" by (simp only: list.set_intros)
  then show "r \<in> set (messages_t (rows d))" "keyed d m r" by (simp_all only: set_sort set_filter mem_Collect_eq)
qed

lemma find_message_append:
  assumes "messages_t (rows d') = messages_t (rows d) @ [x]" "weight d' = weight d"
  shows "\<not> keyed d m x \<Longrightarrow> find_message d' m = find_message d m"
    "find_message d m = None \<Longrightarrow> keyed d m x \<Longrightarrow> find_message d' m = Some x"
proof -
  have k: "keyed d' m r = keyed d m r" for r using assms(2) by (simp add: same_key_def)
  show "\<not> keyed d m x \<Longrightarrow> find_message d' m = find_message d m"
    by (simp add: find_message_def assms(1) k [abs_def])
  show "find_message d m = None \<Longrightarrow> keyed d m x \<Longrightarrow> find_message d' m = Some x"
    by (simp add: find_message_None) (simp add: find_message_def assms(1) k [abs_def])
qed

lemma framed_insert_chat [framed_rules]: "framed (insert_chat m)"
  by (auto simp: insert_chat_def insert_message_row_def Let_def framed_db_def intro!: framed_statement split: option.split)

lemma framed_store [framed_rules]: "framed (store_messages ms)"
  by (induction ms) (auto intro!: framed_rules split: option.split simp: split_beta)

lemma framed_may_send [framed_rules]: "framed (may_send m)"
  by (auto simp: may_send_def intro!: framed_rules)

lemma framed_add_operation [framed_rules]: "framed (add_operation ms)"
  by (auto simp: add_operation_def split_beta intro!: framed_rules)

lemma gives_insert_chat:
  assumes "gives (insert_chat m) c u c'"
  obtains created where "stored_datetime (db c) (cm_chat_time m) = Some created"
    "db c' = (db c)\<lparr>next_message := next_message (db c) + 1, rows := (tbl c)\<lparr>messages_t := messages_t (tbl c) @
       [chat_row m created (next_message (db c))]\<rparr>, last_insert_id := next_message (db c)\<rparr>"
    "\<not> duplicate_message (db c) (chat_row m created (next_message (db c)))" "has_thread (tbl c) (cm_thread_id m)"
proof -
  note g = gives_statement [OF assms [unfolded insert_chat_def]]
  obtain created where cr: "stored_datetime (db c) (cm_chat_time m) = Some created"
    using g by (cases "stored_datetime (db c) (cm_chat_time m)") auto
  then have "fst (insert_message_row (chat_row m created (next_message (db c))) (db c)) = Inr u" using g by simp
  from insert_message_row_ok [OF this] show thesis using that [OF cr] g cr by (simp add: chat_row_def)
qed

text \<open>A row holds a message: the same key and the same payload.\<close>

definition holds :: "database \<Rightarrow> ChatMessage \<Rightarrow> message_row \<Rightarrow> bool" where
  "holds d m r \<longleftrightarrow> find_message d m = Some r \<and> ms_recv r = cm_recv_id m \<and> ms_content r = cm_content m \<and> ms_type r = cm_msg_type m"

text \<open>One round of the loop.\<close>

lemma store_step:
  assumes "gives (store_messages (m # ms)) c (True, stored) c'"
  obtains m' rest c1 r where "stored = m' # rest" "gives (store_messages ms) c1 (True, rest) c'"
    "holds (db c1) m r" "cm_message_id m' = ms_id r"
    "db c1 = db c \<or> (find_message (db c) m = None \<and> has_thread (tbl c) (cm_thread_id m) \<and>
       \<not> duplicate_message (db c) r \<and> (\<exists>created. r = chat_row m created (next_message (db c))) \<and>
       db c1 = (db c)\<lparr>next_message := next_message (db c) + 1, rows := (tbl c)\<lparr>messages_t := messages_t (tbl c) @ [r]\<rparr>,
         last_insert_id := next_message (db c)\<rparr>)"
proof -
  from assms obtain ex c0 where ex: "gives (select (\<lambda>d. find_message d m)) c ex c0"
    and rest: "gives (case ex of
       Some r \<Rightarrow>
         if ms_recv r \<noteq> cm_recv_id m \<or> ms_content r \<noteq> cm_content m \<or> ms_type r \<noteq> cm_msg_type m then sql_return (False, [])
         else sql_bind (store_messages ms) (\<lambda>(ok, rest). sql_return (ok,
                m\<lparr>cm_message_id := ms_id r, cm_chat_time := ms_created r, cm_status := ms_status r\<rparr> # rest))
     | None \<Rightarrow> sql_then (insert_chat m) (sql_bind (select last_insert_id) (\<lambda>i.
         sql_bind (store_messages ms) (\<lambda>(ok, rest). sql_return (ok, m\<lparr>cm_message_id := i\<rparr> # rest))))) c0 (True, stored) c'"
    by auto
  note e = gives_select [OF ex]
  show thesis
  proof (cases ex)
    case (Some r)
    then show thesis using rest e that [of _ _ c0 r] by (auto simp: holds_def split: if_splits)
  next
    case None
    with rest obtain u c1 i c2 b rs where s: "gives (insert_chat m) c0 u c1" "gives (select last_insert_id) c1 i c2"
      "gives (store_messages ms) c2 (True, rs) c'" "stored = m\<lparr>cm_message_id := i\<rparr> # rs"
      by auto
    from s(1) obtain created where cr: "db c1 = (db c0)\<lparr>next_message := next_message (db c0) + 1,
        rows := (tbl c0)\<lparr>messages_t := messages_t (tbl c0) @ [chat_row m created (next_message (db c0))]\<rparr>,
        last_insert_id := next_message (db c0)\<rparr>"
      "\<not> duplicate_message (db c0) (chat_row m created (next_message (db c0)))" "has_thread (tbl c0) (cm_thread_id m)"
      by (rule gives_insert_chat)
    let ?r = "chat_row m created (next_message (db c))"
    have k: "keyed (db c) m ?r" by (simp add: same_key_def chat_row_def)
    have "find_message (db c1) m = Some ?r"
      by (rule find_message_append(2) [of _ "db c"]) (use cr e None k in auto)
    then have "holds (db c2) m ?r" using gives_select [OF s(2)] by (simp add: holds_def chat_row_def)
    moreover have "cm_message_id (m\<lparr>cm_message_id := i\<rparr>) = ms_id ?r"
      using gives_select [OF s(2)] cr(1) e by (simp add: chat_row_def)
    ultimately show thesis
      by (rule that [OF s(4,3)]) (use gives_select [OF s(2)] cr e None in auto)
  qed
qed

text \<open>The rows a batch adds, and what it leaves of the others.\<close>

lemma gives_store:
  assumes "gives (store_messages ms) c (True, stored) c'"
  shows "\<exists>new. tbl c' = (tbl c)\<lparr>messages_t := messages_t (tbl c) @ new\<rparr> \<and>
      (\<forall>r\<in>set new. \<exists>m\<in>set ms. \<exists>created i. r = chat_row m created i) \<and>
      list_all2 (\<lambda>m m'. \<exists>r. holds (db c') m r \<and> cm_message_id m' = ms_id r) ms stored \<and>
      (\<forall>m r. find_message (db c) m = Some r \<longrightarrow> find_message (db c') m = Some r)"
  using assms
proof (induction ms arbitrary: c stored)
  case Nil
  then show ?case by (auto intro!: exI [of _ "[]"])
next
  case (Cons m ms)
  from Cons.prems obtain m' rest c1 r where s: "stored = m' # rest" "gives (store_messages ms) c1 (True, rest) c'"
    "holds (db c1) m r" "cm_message_id m' = ms_id r" and
    ch: "db c1 = db c \<or> (find_message (db c) m = None \<and> has_thread (tbl c) (cm_thread_id m) \<and>
       \<not> duplicate_message (db c) r \<and> (\<exists>created. r = chat_row m created (next_message (db c))) \<and>
       db c1 = (db c)\<lparr>next_message := next_message (db c) + 1, rows := (tbl c)\<lparr>messages_t := messages_t (tbl c) @ [r]\<rparr>,
         last_insert_id := next_message (db c)\<rparr>)"
    by (rule store_step)
  from Cons.IH [OF s(2)] obtain new where n: "tbl c' = (tbl c1)\<lparr>messages_t := messages_t (tbl c1) @ new\<rparr>"
    "\<forall>r\<in>set new. \<exists>m\<in>set ms. \<exists>created i. r = chat_row m created i"
    "list_all2 (\<lambda>m m'. \<exists>r. holds (db c') m r \<and> cm_message_id m' = ms_id r) ms rest"
    "\<forall>m r. find_message (db c1) m = Some r \<longrightarrow> find_message (db c') m = Some r" by blast
  have h: "holds (db c') m r" using s(3) n(4) by (simp add: holds_def)
  have mono: "find_message (db c1) x = Some y" if "find_message (db c) x = Some y" for x y
  proof (cases "db c1 = db c")
    case False
    then have f: "find_message (db c) m = None" and d: "messages_t (tbl c1) = messages_t (tbl c) @ [r]" "weight (db c1) = weight (db c)"
      and "keyed (db c) m r" using ch by (auto simp: chat_row_def same_key_def)
    then have "\<not> keyed (db c) x r"
      using find_message_Some [OF that] f by (auto simp: find_message_None same_key_def)
    then show ?thesis using find_message_append(1) [OF d] that by simp
  qed (use that in simp)
  obtain new1 where n1: "tbl c1 = (tbl c)\<lparr>messages_t := messages_t (tbl c) @ new1\<rparr>"
    "\<forall>x\<in>set new1. \<exists>created i. x = chat_row m created i"
  proof (cases "db c1 = db c")
    case True
    then show thesis by (intro that [of "[]"]) simp_all
  next
    case False
    then show thesis using ch by (intro that [of "[r]"]) auto
  qed
  show ?case
    by (rule exI [of _ "new1 @ new"]) (use n n1 h s(1,4) mono in auto)
qed

section \<open>Sending again\<close>

definition allowed :: "tables \<Rightarrow> ChatMessage \<Rightarrow> bool" where
  "allowed t m \<longleftrightarrow> (if cm_sender_id m = cm_recv_id m
     then find_group t (cm_thread_id m) \<noteq> None \<and> is_member t (cm_thread_id m) (cm_sender_id m)
     else are_friends t (cm_sender_id m) (cm_recv_id m) \<and> (\<exists>p\<in>set (privates_t t). pc_thread p = cm_thread_id m \<and>
        pc_user1 p = min (cm_sender_id m) (cm_recv_id m) \<and> pc_user2 p = max (cm_sender_id m) (cm_recv_id m)))"

lemma allowed_messages [simp]: "allowed (t\<lparr>messages_t := M\<rparr>) m = allowed t m"
  by (simp add: allowed_def find_group_def is_member_def)

lemma gives_may_send:
  assumes "gives (may_send m) c b c'"
  shows "b = allowed (tbl c) m \<and> db c' = db c"
  using assms unfolding may_send_def allowed_def by (auto dest!: gives_select split: if_splits)

lemma may_send_quiet: "faults c = [] \<Longrightarrow> may_send m c = (Inr (allowed (tbl c) m), c)"
  by (simp add: may_send_def allowed_def sql_bind_def sql_return_def)

lemma store_again:
  assumes "list_all2 (\<lambda>m m'. \<exists>r. holds (db c) m r \<and> cm_message_id m' = ms_id r) ms stored" "faults c = []"
  shows "\<exists>again. store_messages ms c = (Inr (True, again), c) \<and> map cm_message_id again = map cm_message_id stored"
  using assms(1)
proof (induction ms stored rule: list_all2_induct)
  case Nil
  then show ?case by (simp add: sql_return_def)
next
  case (Cons m ms m' stored)
  then obtain r again where r: "holds (db c) m r" "cm_message_id m' = ms_id r"
    and a: "store_messages ms c = (Inr (True, again), c)" "map cm_message_id again = map cm_message_id stored" by blast
  then show ?case using assms(2) by (simp add: sql_bind_def holds_def sql_return_def)
qed

lemma gives_add_operation:
  assumes "gives (add_operation ms) c (True, y) c'"
  obtains stored new where "y = Some stored" "allowed (tbl c) (hd ms)"
    "tbl c' = (tbl c)\<lparr>messages_t := messages_t (tbl c) @ new\<rparr>"
    "\<forall>r\<in>set new. \<exists>m\<in>set ms. \<exists>created i. r = chat_row m created i"
    "list_all2 (\<lambda>m m'. \<exists>r. holds (db c') m r \<and> cm_message_id m' = ms_id r) ms stored"
proof -
  from assms obtain b c1 where b: "gives (may_send (hd ms)) c b c1"
    and r: "gives (if \<not> b then sql_return (False, None)
       else sql_bind (store_messages ms) (\<lambda>(ok, stored). sql_return (ok, if ok then Some stored else None))) c1 (True, y) c'"
    unfolding add_operation_def by auto
  note b' = gives_may_send [OF b]
  have "b" using r by (auto split: if_splits)
  with r obtain stored where s: "gives (store_messages ms) c1 (True, stored) c'" "y = Some stored" by auto
  from gives_store [OF s(1)] obtain new where n: "tbl c' = (tbl c1)\<lparr>messages_t := messages_t (tbl c1) @ new\<rparr>"
    "\<forall>r\<in>set new. \<exists>m\<in>set ms. \<exists>created i. r = chat_row m created i"
    "list_all2 (\<lambda>m m'. \<exists>r. holds (db c') m r \<and> cm_message_id m' = ms_id r) ms stored" by blast
  then show thesis using that [OF s(2)] b' \<open>b\<close> by simp
qed

lemma add_again:
  assumes "allowed (tbl c) (hd ms)" "faults c = []" "saved c = None"
    "list_all2 (\<lambda>m m'. \<exists>r. holds (db c) m r \<and> cm_message_id m' = ms_id r) ms stored"
  shows "\<exists>again. sql_catch h (transaction (add_operation ms)) c = (Some again, c) \<and>
    map cm_message_id again = map cm_message_id stored"
proof -
  from store_again [of "begun c" ms stored] assms obtain again where
    a: "store_messages ms (begun c) = (Inr (True, again), begun c)" "map cm_message_id again = map cm_message_id stored" by auto
  have "may_send (hd ms) (begun c) = (Inr True, begun c)" using may_send_quiet [of "begun c"] assms by simp
  then have "add_operation ms (begun c) = (Inr (True, Some again), begun c)"
    using a by (simp add: add_operation_def sql_bind_def sql_return_def)
  moreover have "(begun c)\<lparr>saved := None\<rparr> = c" using assms(3) by (simp add: begun_def)
  ultimately show ?thesis using a assms(2,3)
    by (simp add: sql_catch_def sql_bind_def sql_when_def sql_return_def roll_back_def)
qed


section \<open>Reading in pages\<close>

text \<open>
  A query that returns, in order, the rows after a cursor; one page of it, as the callers cut it; and
  the reader that follows the cursor while there is more, for at most \<open>fuel\<close> pages.
\<close>

definition page_at :: "('r \<Rightarrow> int) \<Rightarrow> int \<Rightarrow> (int \<Rightarrow> 'r list) \<Rightarrow> int \<Rightarrow> 'r list \<times> bool \<times> int" where
  "page_at key n after k = (let (rs, more_rows) = cut_page n (take (nat (n + 1)) (after k))
     in (rs, more_rows, if rs = [] then k else key (last rs)))"

primrec follow :: "nat \<Rightarrow> (int \<Rightarrow> 'r list \<times> bool \<times> int) \<Rightarrow> int \<Rightarrow> 'r list" where
  "follow 0 page k = []"
| "follow (Suc fuel) page k = (case page k of (rs, more_rows, next_k) \<Rightarrow>
     rs @ (if more_rows then follow fuel page next_k else []))"

lemma cut_page_take:
  "0 < n \<Longrightarrow> cut_page n (take (nat (n + 1)) xs) = (take (nat n) xs, nat n < length xs)"
  by (auto simp: cut_page_def butlast_take nat_add_distrib)

locale cursor_pages =
  fixes valid :: "'s \<Rightarrow> bool" and after :: "'s \<Rightarrow> int \<Rightarrow> 'r list" and key :: "'r \<Rightarrow> int"
  assumes ordered: "valid s \<Longrightarrow> sorted_wrt (<) (map key (after s k))"
    and beyond: "valid s \<Longrightarrow> r \<in> set (after s k) \<Longrightarrow> k < key r"
    and resumed: "valid s \<Longrightarrow> k \<le> l \<Longrightarrow> after s l = filter (\<lambda>r. l < key r) (after s k)"
begin

lemma rest_of_page:
  assumes "valid s" "0 < n" "n < length (after s k)"
  shows "after s (key (last (take n (after s k)))) = drop n (after s k)"
proof -
  let ?xs = "after s k" and ?l = "key (last (take n (after s k)))"
  have last: "last (take n ?xs) = ?xs ! (n - 1)" using assms(2,3) by (subst last_conv_nth) auto
  have s: "sorted_wrt (<) (map key (take n ?xs @ drop n ?xs))" using ordered [OF assms(1)] by simp
  have "?xs ! (n - 1) \<in> set ?xs" using assms(2,3) by simp
  then have k: "k \<le> ?l" using beyond [OF assms(1)] last by force
  have low: "\<not> ?l < key r" if r: "r \<in> set (take n ?xs)" for r
  proof -
    obtain i where i: "i < n" "r = ?xs ! i" using r assms(3) by (auto simp: in_set_conv_nth)
    show ?thesis
    proof (cases "i = n - 1")
      case False
      then have "i < n - 1" "n - 1 < length ?xs" using i assms by auto
      then have "key (?xs ! i) < key (?xs ! (n - 1))"
        using sorted_wrt_nth_less [OF ordered [OF assms(1)], of i "n - 1" k] by simp
      then show ?thesis using i last by simp
    qed (use i last in simp)
  qed
  have high: "?l < key r" if "r \<in> set (drop n ?xs)" for r
  proof -
    have "?xs ! (n - 1) \<in> set (take n ?xs)" using assms(2,3) by (auto simp: in_set_conv_nth intro!: exI [of _ "n - 1"])
    then show ?thesis using s that last unfolding map_append sorted_wrt_append by simp
  qed
  have "after s ?l = filter (\<lambda>r. ?l < key r) (take n ?xs @ drop n ?xs)" using resumed [OF assms(1) k] by simp
  also have "\<dots> = drop n ?xs" using low high by (simp only: filter_append) (simp add: filter_id_conv filter_empty_conv)
  finally show ?thesis .
qed

theorem follow_complete:
  assumes "valid s" "0 < n" "length (after s k) < fuel"
  shows "follow fuel (page_at key n (after s)) k = after s k"
  using assms(3)
proof (induction fuel arbitrary: k)
  case (Suc fuel)
  let ?m = "nat n"
  have p: "page_at key n (after s) k = (take ?m (after s k), ?m < length (after s k),
      if take ?m (after s k) = [] then k else key (last (take ?m (after s k))))"
    by (simp only: page_at_def cut_page_take [OF assms(2)] Let_def prod.case)
  show ?case
  proof (cases "?m < length (after s k)")
    case True
    then have "after s (key (last (take ?m (after s k)))) = drop ?m (after s k)"
      using rest_of_page [OF assms(1)] assms(2) by simp
    moreover from this have "follow fuel (page_at key n (after s)) (key (last (take ?m (after s k)))) = drop ?m (after s k)"
      using Suc.IH Suc.prems True assms(2) by simp
    moreover have "after s k \<noteq> []" "?m \<noteq> 0" using True assms(2) by auto
    ultimately show ?thesis using p True by auto
  qed (use p in simp)
qed simp

end

text \<open>Both queries of this theory are of that kind, when the identifiers they order by are unique.\<close>

lemma sort_key_strict: "distinct (map f xs) \<Longrightarrow> sorted_wrt (<) (map f (sort_key f xs))"
  by (simp add: strict_sorted_iff distinct_map)

interpretation history: cursor_pages "\<lambda>(t, thread). distinct (map ms_id (messages_t t))"
  "\<lambda>(t, thread). history_rows t thread" ms_id
proof (unfold_locales, goal_cases)
  case (1 s k)
  then show ?case
    by (cases s) (simp add: history_rows_def, rule sort_key_strict, simp add: distinct_map_filter)
next
  case (2 s r k)
  then show ?case by (cases s) (simp add: history_rows_def)
next
  case (3 s k l)
  then show ?case by (cases s) (auto simp: history_rows_def filter_sort intro!: arg_cong [where f = "sort_key ms_id"] filter_cong)
qed

interpretation threads: cursor_pages "\<lambda>(t, uid). \<forall>k. distinct (map fst (user_threads t uid k))"
  "\<lambda>(t, uid) k. sort_key fst (user_threads t uid k)" fst
proof (unfold_locales, goal_cases)
  case (1 s k)
  then show ?case by (cases s) (simp add: sort_key_strict)
next
  case (2 s r k)
  then show ?case by (cases s) (auto simp: user_threads_def)
next
  case (3 s k l)
  then show ?case
    by (cases s) (auto simp: user_threads_def filter_sort filter_map comp_def split_beta
        intro!: arg_cong [where f = "sort_key fst"] arg_cong2 [where f = append] arg_cong [where f = "map _"] filter_cong)
qed

lemma follow_map:
  assumes "\<And>k. page' k = (case page k of (rs, b, l) \<Rightarrow> (map f rs, b, l))"
  shows "follow fuel page' k = map f (follow fuel page k)"
  by (induction fuel arbitrary: k) (simp_all add: assms split: prod.split)

lemma cut_page_map: "cut_page n (map f xs) = (case cut_page n xs of (rs, b) \<Rightarrow> (map f rs, b))"
  by (simp add: cut_page_def map_butlast)

text \<open>The pages that a client gets, read without faults.\<close>

definition history_page :: "mysql \<Rightarrow> int \<Rightarrow> int \<Rightarrow> int \<Rightarrow> ChatMessage list \<times> bool \<times> int" where
  "history_page c thread n k = (case fst (LoadChatMsg thread k n (c\<lparr>faults := []\<rparr>)) of
     None \<Rightarrow> ([], False, k) | Some p \<Rightarrow> (pr_messages p, pr_load_more p, pr_next_cursor p))"

definition threads_page :: "mysql \<Rightarrow> int \<Rightarrow> int \<Rightarrow> int \<Rightarrow> ChatThreadInfo list \<times> bool \<times> int" where
  "threads_page c uid n k = snd (fst (GetUserThreads uid k n (c\<lparr>faults := []\<rparr>)))"

lemma history_page_at:
  assumes "0 < thread" "0 < n"
  shows "history_page c thread n k = (case page_at ms_id n (history_rows (tbl c) thread) k of (rs, b, l) \<Rightarrow> (map read_message rs, b, l))"
  using assms
  by (simp add: history_page_def LoadChatMsg_def sql_catch_def sql_bind_def sql_return_def Let_def page_at_def
      cut_page_map last_map read_message_def split: prod.split)

lemma threads_page_at:
  assumes "0 < uid" "0 < n"
  shows "threads_page c uid n k =
    (case page_at fst n (\<lambda>k. sort_key fst (user_threads (tbl c) uid k)) k of (rs, b, l) \<Rightarrow> (map (thread_info (tbl c)) rs, b, l))"
  using assms
  by (simp add: threads_page_def GetUserThreads_def sql_catch_def sql_bind_def sql_return_def Let_def page_at_def
      cut_page_map last_map thread_info_def split_beta split: prod.split)

lemma history_pages:
  assumes "distinct (map ms_id (messages_t (tbl c)))" "0 < thread" "0 < n" "length (history_rows (tbl c) thread k) < fuel"
  shows "follow fuel (history_page c thread n) k = map read_message (history_rows (tbl c) thread k)"
  using follow_map [OF history_page_at [OF assms(2,3)]] history.follow_complete [of "(tbl c, thread)" n k fuel] assms by simp

lemma threads_pages:
  assumes "\<forall>k. distinct (map fst (user_threads (tbl c) uid k))" "0 < uid" "0 < n" "length (user_threads (tbl c) uid k) < fuel"
  shows "follow fuel (threads_page c uid n) k = map (thread_info (tbl c)) (sort_key fst (user_threads (tbl c) uid k))"
  using follow_map [OF threads_page_at [OF assms(2,3)]] threads.follow_complete [of "(tbl c, uid)" n k fuel] assms by simp

section \<open>Private threads\<close>

lemma framed_create [framed_rules]: "framed (create_operation a b)"
  by (auto simp: create_operation_def Let_def intro!: framed_rules split: option.split)

lemma gives_create:
  assumes "gives (create_operation f g) c (True, y) c'" 
  defines "a \<equiv> min f g" and "b \<equiv> max f g"
  obtains (found) r where "find_private (tbl c) a b = Some r" "y = Some (pc_thread r)" "db c' = db c"
    | (created) i where "find_private (tbl c) a b = None" "y = Some i" "i = next_thread (db c)" "has_user (tbl c) a" "has_user (tbl c) b"
      "are_friends (tbl c) f g"
      "db c' = (db c)\<lparr>rows := (tbl c)\<lparr>threads_t := threads_t (tbl c) @ [(i, ''private'')],
        privates_t := privates_t (tbl c) @ [\<lparr>pc_thread = i, pc_user1 = a, pc_user2 = b\<rparr>]\<rparr>, next_thread := i + 1, last_insert_id := i\<rparr>"
      "\<forall>r\<in>set (privates_t (tbl c)). pc_thread r \<noteq> i"
proof -
  from assms(1) obtain fr c1 where f: "gives (select (\<lambda>d. are_friends (rows d) f g)) c fr c1" and
    r1: "gives (if \<not> fr then sql_return (False, None)
        else sql_bind (select (\<lambda>d. find_private (rows d) a b)) (\<lambda>result.
          case result of Some r \<Rightarrow> sql_return (True, Some (pc_thread r))
          | None \<Rightarrow> sql_then (insert_thread ''private'')
              (sql_bind (select last_insert_id) (\<lambda>thread_id.
               sql_then (insert_private thread_id a b) (sql_return (True, Some thread_id)))))) c1 (True, y) c'"
    unfolding create_operation_def Let_def a_def b_def by auto
  note f' = gives_select [OF f]
  have "fr" using r1 by (auto split: if_splits)
  with r1 obtain q c2 where q: "gives (select (\<lambda>d. find_private (rows d) a b)) c1 q c2" and
    r2: "gives (case q of Some r \<Rightarrow> sql_return (True, Some (pc_thread r))
          | None \<Rightarrow> sql_then (insert_thread ''private'')
              (sql_bind (select last_insert_id) (\<lambda>thread_id.
               sql_then (insert_private thread_id a b) (sql_return (True, Some thread_id))))) c2 (True, y) c'" by auto
  note q' = gives_select [OF q]
  show thesis
  proof (cases q)
    case (Some r)
    then show thesis using r2 q' f' found by auto
  next
    case None
    with r2 obtain u1 c3 k c4 u2 c5 where s: "gives (insert_thread ''private'') c2 u1 c3" "gives (select last_insert_id) c3 k c4"
      "gives (insert_private k a b) c4 u2 c5" "y = Some k" "c' = c5" by auto
    show thesis using created [of k] None q' f' \<open>fr\<close> s(4,5) gives_insert_thread [OF s(1)] gives_select [OF s(2)] gives_insert_private [OF s(3)]
      by (simp add: has_user_def)
  qed
qed

end
