(* ===== verification/GroupChats.thy ===== *)
theory GroupChats
  imports Messages
begin

text \<open>
  Group chats: \<^verbatim>\<open>MysqlDaoGroups.cpp\<close>. A group has one owner, who is a member, and at most 32
  members; a creation key makes creating a group repeatable. Every operation answers an error code and
  the group's JSON document, which the caller's \<^verbatim>\<open>group\<close> keeps unchanged on an early error. The
  JSON serialiser is a parameter.
\<close>

section \<open>Reading groups\<close>

definition group_json :: "group_row \<Rightarrow> json" where
  "group_json g = set_members [(''thread_id'', JInt (gr_thread g)), (''name'', JStr (gr_name g)), (''owner_uid'', JInt (gr_owner g))] JNull"

definition member_users :: "tables \<Rightarrow> int \<Rightarrow> user_row list" where
  "member_users t thread = sort_key u_id (map snd (filter (\<lambda>((i, m), u). i = thread \<and> u_id u = m) (List.product (members_t t) (users_t t))))"

definition member_json :: "user_row \<Rightarrow> json" where
  "member_json u = set_members [(''uid'', JInt (u_id u)), (''name'', JStr (u_username u))] JNull"

definition ReadGroup :: "int \<Rightarrow> bool \<Rightarrow> json sql" where
  "ReadGroup thread members = sql_bind (select (\<lambda>d. find_group (rows d) thread)) (\<lambda>row.
     case row of None \<Rightarrow> sql_return JNull
     | Some g \<Rightarrow> if members
         then sql_bind (select (\<lambda>d. member_users (rows d) thread)) (\<lambda>result.
           sql_return (set_member ''members'' (JArr (map member_json result)) (group_json g)))
         else sql_return (group_json g))"

definition IsMember :: "int \<Rightarrow> int \<Rightarrow> bool sql" where
  "IsMember uid thread = select (\<lambda>d. is_member (rows d) thread uid)"

definition Friend :: "int \<Rightarrow> int \<Rightarrow> bool sql" where
  "Friend uid other = select (\<lambda>d. are_friends (rows d) uid other)"

definition NameValid :: "json \<Rightarrow> bool" where
  "NameValid value \<longleftrightarrow> isString value \<and> str_of value \<noteq> [] \<and> length (str_of value) \<le> 64 \<and>
     list_ex (\<lambda>c. 32 < byte c) (str_of value) \<and> list_all (\<lambda>c. \<not> (byte c < 32 \<or> byte c = 127)) (str_of value)"

section \<open>Statements\<close>

definition duplicate_group :: "tables \<Rightarrow> int \<Rightarrow> int \<Rightarrow> string \<Rightarrow> bool" where
  "duplicate_group t thread creator key \<longleftrightarrow> (\<exists>g\<in>set (groups_t t). gr_thread g = thread \<or> (gr_creator g = creator \<and> gr_key g = key))"

definition insert_group :: "int \<Rightarrow> string \<Rightarrow> int \<Rightarrow> int \<Rightarrow> string \<Rightarrow> string \<Rightarrow> unit sql" where
  "insert_group thread name owner creator key spec = statement (\<lambda>d. let t = rows d in
     if duplicate_group t thread creator key then (Inl 1062, d)
     else if \<not> (has_thread t thread \<and> has_user t owner \<and> has_user t creator) then (Inl 1452, d)
     else (Inr (), d\<lparr>rows := t\<lparr>groups_t := groups_t t @ [\<lparr>gr_thread = thread, gr_name = name, gr_owner = owner, gr_creator = creator,
            gr_key = key, gr_spec = spec, gr_active = True\<rparr>]\<rparr>\<rparr>))"

definition insert_member :: "int \<Rightarrow> int \<Rightarrow> unit sql" where
  "insert_member thread uid = statement (\<lambda>d. let t = rows d in
     if is_member t thread uid then (Inl 1062, d)
     else if \<not> (has_thread t thread \<and> has_user t uid) then (Inl 1452, d)
     else (Inr (), d\<lparr>rows := t\<lparr>members_t := members_t t @ [(thread, uid)]\<rparr>\<rparr>))"

definition update_group :: "int \<Rightarrow> (group_row \<Rightarrow> group_row) \<Rightarrow> unit sql" where
  "update_group thread f = statement (\<lambda>d. (Inr (), d\<lparr>rows := (rows d)\<lparr>groups_t :=
     map (\<lambda>g. if gr_thread g = thread then f g else g) (groups_t (rows d))\<rparr>\<rparr>))"

definition delete_members :: "(int \<times> int \<Rightarrow> bool) \<Rightarrow> unit sql" where
  "delete_members P = statement (\<lambda>d. (Inr (), d\<lparr>rows := (rows d)\<lparr>members_t := filter (\<lambda>m. \<not> P m) (members_t (rows d))\<rparr>\<rparr>))"

section \<open>Creating a group\<close>

definition valid_key :: "json \<Rightarrow> bool" where
  "valid_key v \<longleftrightarrow> isString v \<and> str_of v \<noteq> [] \<and> length (str_of v) \<le> 64 \<and>
     list_all (\<lambda>c. (97 \<le> byte c \<and> byte c \<le> 122) \<or> (65 \<le> byte c \<and> byte c \<le> 90) \<or> (48 \<le> byte c \<and> byte c \<le> 57) \<or> c = CHR ''-'') (str_of v)"

text \<open>The \<^verbatim>\<open>std::set<int>\<close> of the members, in its iteration order.\<close>

definition member_ids :: "int \<Rightarrow> json \<Rightarrow> int list" where
  "member_ids uid members = sort (remdups (uid # map int_of_json (elements members)))"

definition creation_valid :: "int \<Rightarrow> json \<Rightarrow> bool" where
  "creation_valid uid request \<longleftrightarrow>
     NameValid (index request ''name'') \<and> isArray (index request ''members'') \<and> \<not> jempty (index request ''members'') \<and>
     jsize (index request ''members'') \<le> 31 \<and> valid_key (index request ''creation_key'') \<and>
     list_all (\<lambda>m. isInt m \<and> 0 < int_of_json m) (elements (index request ''members'')) \<and>
     2 \<le> length (member_ids uid (index request ''members'')) \<and> length (member_ids uid (index request ''members'')) \<le> 32"

definition creation_spec :: "jsoncpp \<Rightarrow> json \<Rightarrow> int list \<Rightarrow> string" where
  "creation_spec J name ids = writeString J (JObj [(''name'', name), (''members'', JArr (map JInt ids))])"

text \<open>The loop that looks for a member who is no friend of the creator.\<close>

primrec all_friends :: "int \<Rightarrow> int list \<Rightarrow> bool sql" where
  "all_friends uid [] = sql_return True"
| "all_friends uid (i # ids) =
     (if i = uid then all_friends uid ids
      else sql_bind (Friend uid i) (\<lambda>f. if \<not> f then sql_return False else all_friends uid ids))"

definition CreateGroup :: "jsoncpp \<Rightarrow> int \<Rightarrow> json \<Rightarrow> (ErrorCodes \<times> int) sql" where
  "CreateGroup J uid request =
     (if \<not> creation_valid uid request then sql_return (Error_Json, 0)
      else let ids = member_ids uid (index request ''members''); key = str_of (index request ''creation_key'');
               spec = creation_spec J (index request ''name'') ids in
        sql_bind (select (\<lambda>d. has_user (rows d) uid)) (\<lambda>actor.
        if \<not> actor then sql_return (UidInvalid, 0)
        else sql_bind (select (\<lambda>d. find (\<lambda>g. gr_creator g = uid \<and> gr_key g = key) (groups_t (rows d)))) (\<lambda>previous.
          case previous of
            Some g \<Rightarrow>
              if gr_spec g \<noteq> spec then sql_return (Error_Json, 0)
              else if \<not> gr_active g then sql_return (GroupForbidden, gr_thread g)
              else sql_bind (IsMember uid (gr_thread g)) (\<lambda>m.
                sql_return (if m then Success else GroupForbidden, gr_thread g))
          | None \<Rightarrow> sql_bind (all_friends uid ids) (\<lambda>friends.
              if \<not> friends then sql_return (FriendNotFound, 0)
              else sql_then (insert_thread ''group'')
                  (sql_bind (select last_insert_id) (\<lambda>thread.
                   sql_then (insert_group thread (str_of (index request ''name'')) uid uid key spec)
                   (sql_then (sql_for ids (insert_member thread)) (sql_return (Success, thread)))))))))"

section \<open>Changing a group\<close>

text \<open>The member an operation is about, and the operations on one member.\<close>

definition target_of :: "int \<Rightarrow> string \<Rightarrow> json \<Rightarrow> int" where
  "target_of uid op request = (if op = ''leave'' then uid
     else if isInt (index request ''member_uid'') then int_of_json (index request ''member_uid'') else 0)"

definition member_count :: "tables \<Rightarrow> int \<Rightarrow> nat" where
  "member_count t thread = length (filter (\<lambda>m. fst m = thread) (members_t t))"

definition change_member :: "int \<Rightarrow> string \<Rightarrow> int \<Rightarrow> int \<Rightarrow> ErrorCodes sql" where
  "change_member uid op thread target =
     (if op = ''add'' then
        sql_bind (Friend uid target) (\<lambda>f.
        if \<not> f then sql_return FriendNotFound
        else sql_bind (IsMember target thread) (\<lambda>present.
          if present then sql_return Success
          else sql_bind (select (\<lambda>d. member_count (rows d) thread)) (\<lambda>n.
            if 32 \<le> n then sql_return GroupFull
            else sql_then (insert_member thread target) (sql_return Success))))
      else if op = ''transfer'' then
        sql_bind (IsMember target thread) (\<lambda>present.
        if \<not> present then sql_return GroupForbidden
        else sql_then (update_group thread (\<lambda>g. g\<lparr>gr_owner := target\<rparr>)) (sql_return Success))
      else sql_then (delete_members (\<lambda>m. m = (thread, target))) (sql_return Success))"

text \<open>What follows once the group's row is locked and the actor is known to be a member.\<close>

definition update_locked :: "int \<Rightarrow> string \<Rightarrow> json \<Rightarrow> int \<Rightarrow> int \<Rightarrow> ErrorCodes sql" where
  "update_locked uid op request thread owner =
     (if op \<noteq> ''leave'' \<and> uid \<noteq> owner then sql_return GroupForbidden
      else if op = ''leave'' \<and> uid = owner then sql_return GroupOwnerMustTransfer
      else if op = ''rename'' then
        (if \<not> NameValid (index request ''name'') then sql_return Error_Json
         else sql_then (update_group thread (\<lambda>g. g\<lparr>gr_name := str_of (index request ''name'')\<rparr>)) (sql_return Success))
      else if op = ''disband'' then
        sql_then (update_group thread (\<lambda>g. g\<lparr>gr_active := False\<rparr>))
        (sql_then (delete_members (\<lambda>(i, u). i = thread)) (sql_return Success))
      else if target_of uid op request \<le> 0 \<or> target_of uid op request = owner then sql_return Error_Json
      else change_member uid op thread (target_of uid op request))"

definition UpdateGroup :: "int \<Rightarrow> string \<Rightarrow> json \<Rightarrow> (ErrorCodes \<times> int) sql" where
  "UpdateGroup uid op request =
     (if \<not> isInt (index request ''thread_id'') \<or> int_of_json (index request ''thread_id'') \<le> 0 then sql_return (Error_Json, 0)
      else let thread = int_of_json (index request ''thread_id'') in
       sql_bind (select (\<lambda>d. map_option gr_owner (find_group (rows d) thread))) (\<lambda>locked.
       case locked of None \<Rightarrow> sql_return (GroupForbidden, thread)
       | Some owner \<Rightarrow> sql_bind (IsMember uid thread) (\<lambda>m.
         if \<not> m then sql_return (GroupForbidden, thread)
         else sql_bind (update_locked uid op request thread owner) (\<lambda>result. sql_return (result, thread)))))"

section \<open>The operations\<close>

text \<open>
  A transaction whose block fills the caller's document before the commit: when an exception leaves the
  block, the document is the one it had; when the commit throws, it is the new one.
\<close>

definition catch_out :: "json \<Rightarrow> (bool \<times> ErrorCodes \<times> json) sql \<Rightarrow> mysql \<Rightarrow> (ErrorCodes \<times> json) \<times> mysql" where
  "catch_out doc work c = (case transaction work c of
       (Inr x, c') \<Rightarrow> (x, c')
     | (Inl _, c') \<Rightarrow> ((DatabaseError, case next_fault c of
           (Runs, c1) \<Rightarrow> (case work (begun c1) of (Inr (_, _, g), _) \<Rightarrow> g | _ \<Rightarrow> doc)
         | _ \<Rightarrow> doc), c'))"

definition GetGroup :: "int \<Rightarrow> int \<Rightarrow> json \<Rightarrow> bool \<Rightarrow> mysql \<Rightarrow> (ErrorCodes \<times> json) \<times> mysql" where
  "GetGroup uid thread doc members c =
     (if uid \<le> 0 \<or> thread \<le> 0 then ((UidInvalid, doc), c)
      else with_connection (DatabaseError, doc) (catch_out doc
        (sql_bind (select (\<lambda>d. find_group (rows d) thread \<noteq> None)) (\<lambda>found.
         if \<not> found then sql_return (False, GroupForbidden, doc)
         else sql_bind (IsMember uid thread) (\<lambda>m.
           if \<not> m then sql_return (False, GroupForbidden, doc)
           else sql_bind (ReadGroup thread members) (\<lambda>g. sql_return (True, Success, g)))))) c)"

definition common_rows :: "tables \<Rightarrow> int \<Rightarrow> int \<Rightarrow> int \<Rightarrow> group_row list" where
  "common_rows t uid friend_uid after = sort_key gr_thread (filter (\<lambda>g. is_member t (gr_thread g) uid \<and>
     is_member t (gr_thread g) friend_uid \<and> gr_active g \<and> after < gr_thread g) (groups_t t))"

definition CommonGroups :: "int \<Rightarrow> json \<Rightarrow> json \<Rightarrow> mysql \<Rightarrow> (ErrorCodes \<times> json) \<times> mysql" where
  "CommonGroups uid request result c =
     (let friend = index request ''friend_uid''; after = get_default request ''after'' (JInt 0) in
      if \<not> isInt friend \<or> int_of_json friend \<le> 0 \<or> int_of_json friend = uid \<or>
         (isMember request ''after'' \<and> (\<not> isInt after \<or> int_of_json after < 0)) then ((Error_Json, result), c)
      else with_connection (DatabaseError, result) (catch_out result
        (sql_bind (select (\<lambda>d. are_friends (rows d) uid (int_of_json friend))) (\<lambda>friends.
         if \<not> friends then sql_return (False, FriendNotFound, result)
         else sql_bind (select (\<lambda>d. take 51 (common_rows (rows d) uid (int_of_json friend) (int_of_json after)))) (\<lambda>found.
           let page = take 50 found in
           sql_return (True, Success, set_members
             [(''friend_uid'', friend), (''groups'', JArr (map group_json page)), (''has_more'', JBool (50 < length found)),
              (''next_thread_id'', if page = [] then after else JInt (gr_thread (last page)))] result))))) c)"

definition known_op :: "string \<Rightarrow> bool" where
  "known_op op \<longleftrightarrow> op \<in> set [''create'', ''info'', ''rename'', ''add'', ''remove'', ''leave'', ''transfer'', ''disband'']"

definition change_operation :: "jsoncpp \<Rightarrow> int \<Rightarrow> string \<Rightarrow> json \<Rightarrow> json \<Rightarrow> (bool \<times> ErrorCodes \<times> json) sql" where
  "change_operation J uid op request doc =
     sql_bind (if op = ''create'' then CreateGroup J uid request else UpdateGroup uid op request) (\<lambda>(result, thread).
     if result \<noteq> Success then sql_return (False, result, doc)
     else if op = ''leave'' \<or> op = ''disband'' then
       sql_return (True, Success, set_members [(''thread_id'', JInt thread), (''removed'', JBool True)] doc)
     else sql_bind (ReadGroup thread True) (\<lambda>g. sql_return (True, Success, g)))"

definition ChangeGroup :: "jsoncpp \<Rightarrow> int \<Rightarrow> json \<Rightarrow> json \<Rightarrow> mysql \<Rightarrow> (ErrorCodes \<times> json) \<times> mysql" where
  "ChangeGroup J uid request doc c =
     (if uid \<le> 0 then ((TokenInvalid, doc), c)
      else if \<not> isString (index request ''op'') then ((Error_Json, doc), c)
      else let op = str_of (index request ''op'') in
        if op = ''common'' then CommonGroups uid request doc c
        else if \<not> known_op op then ((Error_Json, doc), c)
        else if op = ''info'' then
          (if isInt (index request ''thread_id'') then GetGroup uid (int_of_json (index request ''thread_id'')) doc True c
           else ((Error_Json, doc), c))
        else with_connection (DatabaseError, doc) (catch_out doc (change_operation J uid op request doc)) c)"

section \<open>Effects\<close>

lemma framed_group_statements [framed_rules]:
  "framed (insert_group a b x y z v)" "framed (insert_member i u)" "framed (update_group i f)" "framed (delete_members P)"
  "framed (IsMember i u)" "framed (Friend i u)"
  by (auto simp: insert_group_def insert_member_def update_group_def delete_members_def IsMember_def Friend_def Let_def framed_db_def
      intro!: framed_statement framed_select)

lemma framed_all_friends [framed_rules]: "framed (all_friends uid ids)"
  by (induction ids) (auto intro!: framed_rules)

lemma framed_ReadGroup [framed_rules]: "framed (ReadGroup i b)"
  by (auto simp: ReadGroup_def intro!: framed_rules split: option.split)

lemma framed_CreateGroup [framed_rules]: "framed (CreateGroup J uid request)"
  by (auto simp: CreateGroup_def Let_def intro!: framed_rules split: option.split)

lemma framed_UpdateGroup [framed_rules]: "framed (UpdateGroup uid op request)"
  unfolding UpdateGroup_def update_locked_def change_member_def Let_def by (intro framed_rules)

lemma framed_change [framed_rules]: "framed (change_operation J uid op request doc)"
  by (auto simp: change_operation_def split_beta intro!: framed_rules)

lemma gives_insert_group:
  assumes "gives (insert_group thread name owner creator key spec) c u c'"
  shows "db c' = (db c)\<lparr>rows := (tbl c)\<lparr>groups_t := groups_t (tbl c) @ [\<lparr>gr_thread = thread, gr_name = name, gr_owner = owner,
       gr_creator = creator, gr_key = key, gr_spec = spec, gr_active = True\<rparr>]\<rparr>\<rparr>"
    "\<not> duplicate_group (tbl c) thread creator key"
    "has_thread (tbl c) thread" "has_user (tbl c) owner"
  using gives_statement [OF assms [unfolded insert_group_def]] by (simp_all add: Let_def split: if_splits)

lemma gives_insert_member:
  assumes "gives (insert_member thread uid) c u c'"
  shows "db c' = (db c)\<lparr>rows := (tbl c)\<lparr>members_t := members_t (tbl c) @ [(thread, uid)]\<rparr>\<rparr> \<and>
    \<not> is_member (tbl c) thread uid \<and> has_thread (tbl c) thread \<and> has_user (tbl c) uid"
  using gives_statement [OF assms [unfolded insert_member_def]] by (simp_all add: Let_def split: if_splits)

lemma gives_update_group:
  assumes "gives (update_group thread f) c u c'"
  shows "db c' = (db c)\<lparr>rows := (tbl c)\<lparr>groups_t := map (\<lambda>g. if gr_thread g = thread then f g else g) (groups_t (tbl c))\<rparr>\<rparr>"
  using gives_statement [OF assms [unfolded update_group_def]] by simp

lemma gives_delete_members:
  assumes "gives (delete_members P) c u c'"
  shows "db c' = (db c)\<lparr>rows := (tbl c)\<lparr>members_t := filter (\<lambda>m. \<not> P m) (members_t (tbl c))\<rparr>\<rparr>"
  using gives_statement [OF assms [unfolded delete_members_def]] by simp

lemma gives_IsMember: "gives (IsMember uid thread) c b c' \<Longrightarrow> b = is_member (tbl c) thread uid \<and> db c' = db c"
  unfolding IsMember_def by (auto dest!: gives_select)

lemma gives_Friend: "gives (Friend uid other) c b c' \<Longrightarrow> b = are_friends (tbl c) uid other \<and> db c' = db c"
  unfolding Friend_def by (auto dest!: gives_select)

lemma gives_all_friends:
  "gives (all_friends uid ids) c b c' \<Longrightarrow> b = (\<forall>i\<in>set ids. i = uid \<or> are_friends (tbl c) uid i) \<and> db c' = db c"
proof (induction ids arbitrary: c)
  case (Cons i ids)
  show ?case
  proof (cases "i = uid")
    case True
    then show ?thesis using Cons by auto
  next
    case False
    with Cons.prems obtain f c1 where f: "gives (Friend uid i) c f c1"
      "gives (if \<not> f then sql_return False else all_friends uid ids) c1 b c'" by auto
    show ?thesis using gives_Friend [OF f(1)] f(2) Cons.IH [of c1] False by (auto split: if_splits)
  qed
qed auto

lemma gives_insert_members:
  assumes "gives (sql_for ids (insert_member thread)) c u c'"
  shows "db c' = (db c)\<lparr>rows := (tbl c)\<lparr>members_t := members_t (tbl c) @ map (Pair thread) ids\<rparr>\<rparr> \<and>
    (\<forall>i\<in>set ids. has_user (tbl c) i)"
  using assms
proof (induction ids arbitrary: c)
  case (Cons i ids)
  then obtain v c1 where "gives (insert_member thread i) c v c1" "gives (sql_for ids (insert_member thread)) c1 u c'" by auto
  with Cons.IH [OF this(2)] gives_insert_member [OF this(1)] show ?case by (simp add: has_user_def)
qed simp

text \<open>The change that an accepted update makes.\<close>

datatype group_update = Rename string | Disband | Keep | Join int | Transfer int | Drop int

definition apply_update :: "int \<Rightarrow> group_update \<Rightarrow> tables \<Rightarrow> tables" where
  "apply_update thread x t = (case x of
       Rename n \<Rightarrow> t\<lparr>groups_t := map (\<lambda>g. if gr_thread g = thread then g\<lparr>gr_name := n\<rparr> else g) (groups_t t)\<rparr>
     | Disband \<Rightarrow> t\<lparr>groups_t := map (\<lambda>g. if gr_thread g = thread then g\<lparr>gr_active := False\<rparr> else g) (groups_t t),
         members_t := filter (\<lambda>m. fst m \<noteq> thread) (members_t t)\<rparr>
     | Keep \<Rightarrow> t
     | Join u \<Rightarrow> t\<lparr>members_t := members_t t @ [(thread, u)]\<rparr>
     | Transfer u \<Rightarrow> t\<lparr>groups_t := map (\<lambda>g. if gr_thread g = thread then g\<lparr>gr_owner := u\<rparr> else g) (groups_t t)\<rparr>
     | Drop u \<Rightarrow> t\<lparr>members_t := filter (\<lambda>m. m \<noteq> (thread, u)) (members_t t)\<rparr>)"

text \<open>The update that a request asks for, and when the rules of groups permit it.\<close>

definition update_of :: "tables \<Rightarrow> int \<Rightarrow> int \<Rightarrow> string \<Rightarrow> json \<Rightarrow> group_update" where
  "update_of t thread uid op request =
     (if op = ''rename'' then Rename (str_of (index request ''name'')) else if op = ''disband'' then Disband
      else if op = ''add'' then (if is_member t thread (target_of uid op request) then Keep else Join (target_of uid op request))
      else if op = ''transfer'' then Transfer (target_of uid op request) else Drop (target_of uid op request))"

definition update_permitted :: "tables \<Rightarrow> int \<Rightarrow> int \<Rightarrow> string \<Rightarrow> json \<Rightarrow> group_row \<Rightarrow> bool" where
  "update_permitted t thread uid op request g \<longleftrightarrow> is_member t thread uid \<and>
     (if op = ''leave'' then uid \<noteq> gr_owner g else uid = gr_owner g) \<and>
     (op = ''rename'' \<longrightarrow> NameValid (index request ''name'')) \<and>
     (op \<noteq> ''rename'' \<and> op \<noteq> ''disband'' \<longrightarrow> 0 < target_of uid op request \<and> target_of uid op request \<noteq> gr_owner g) \<and>
     (op = ''add'' \<longrightarrow> are_friends t uid (target_of uid op request) \<and>
        (is_member t thread (target_of uid op request) \<or> member_count t thread < 32)) \<and>
     (op = ''transfer'' \<longrightarrow> is_member t thread (target_of uid op request))"

lemma gives_change_member:
  assumes "gives (change_member uid op thread target) c Success c'" "op \<noteq> ''rename''" "op \<noteq> ''disband''" "target = target_of uid op request"
  shows "tbl c' = apply_update thread (update_of (tbl c) thread uid op request) (tbl c)"
    "op = ''add'' \<Longrightarrow> are_friends (tbl c) uid target \<and> (is_member (tbl c) thread target \<or>
       member_count (tbl c) thread < 32 \<and> has_user (tbl c) target)"
    "op = ''transfer'' \<Longrightarrow> is_member (tbl c) thread target"
    "next_thread (db c') = next_thread (db c)" "next_message (db c') = next_message (db c)"
  using assms unfolding change_member_def
  by (auto split: if_splits simp: apply_update_def update_of_def
      dest!: gives_select gives_Friend gives_IsMember gives_insert_member gives_update_group gives_delete_members)

lemma gives_update_locked:
  assumes "gives (update_locked uid op request thread owner) c Success c'" "is_member (tbl c) thread uid" "owner = gr_owner g"
  shows "update_permitted (tbl c) thread uid op request g"
    "tbl c' = apply_update thread (update_of (tbl c) thread uid op request) (tbl c)"
    "op = ''add'' \<Longrightarrow> \<not> is_member (tbl c) thread (target_of uid op request) \<Longrightarrow> has_user (tbl c) (target_of uid op request)"
    "next_thread (db c') = next_thread (db c)" "next_message (db c') = next_message (db c)"
proof -
  have *: "update_permitted (tbl c) thread uid op request g \<and>
    tbl c' = apply_update thread (update_of (tbl c) thread uid op request) (tbl c) \<and>
    (op = ''add'' \<longrightarrow> \<not> is_member (tbl c) thread (target_of uid op request) \<longrightarrow> has_user (tbl c) (target_of uid op request)) \<and>
    next_thread (db c') = next_thread (db c) \<and> next_message (db c') = next_message (db c)"
  proof (cases "op = ''rename'' \<or> op = ''disband''")
    case True
    then show ?thesis using assms unfolding update_locked_def
      by (auto split: if_splits simp: apply_update_def update_of_def update_permitted_def split_beta
          dest!: gives_update_group gives_delete_members)
  next
    case False
    then have n: "op \<noteq> ''rename''" "op \<noteq> ''disband''" by auto
    then have m: "gives (change_member uid op thread (target_of uid op request)) c Success c'"
      "0 < target_of uid op request" "target_of uid op request \<noteq> owner" "if op = ''leave'' then uid \<noteq> owner else uid = owner"
      using assms(1) unfolding update_locked_def by (auto split: if_splits)
    note ch = gives_change_member [OF m(1) n refl]
    have "update_permitted (tbl c) thread uid op request g"
      unfolding update_permitted_def using m(2-4) n ch(2,3) assms(2,3) by blast
    then show ?thesis using ch(1,2,4,5) by blast
  qed
  then show "update_permitted (tbl c) thread uid op request g"
    "tbl c' = apply_update thread (update_of (tbl c) thread uid op request) (tbl c)"
    "op = ''add'' \<Longrightarrow> \<not> is_member (tbl c) thread (target_of uid op request) \<Longrightarrow> has_user (tbl c) (target_of uid op request)"
    "next_thread (db c') = next_thread (db c)" "next_message (db c') = next_message (db c)"
    by blast+
qed

lemma gives_UpdateGroup:
  assumes "gives (UpdateGroup uid op request) c (Success, thread) c'"
  obtains g where "thread = int_of_json (index request ''thread_id'')" "0 < thread" "find_group (tbl c) thread = Some g"
    "update_permitted (tbl c) thread uid op request g"
    "tbl c' = apply_update thread (update_of (tbl c) thread uid op request) (tbl c)"
    "op = ''add'' \<Longrightarrow> \<not> is_member (tbl c) thread (target_of uid op request) \<Longrightarrow> has_user (tbl c) (target_of uid op request)"
    "next_thread (db c') = next_thread (db c)" "next_message (db c') = next_message (db c)"
proof -
  let ?i = "int_of_json (index request ''thread_id'')"
  have i: "0 < ?i" "thread = ?i" using assms by (auto simp: UpdateGroup_def Let_def split: if_splits option.splits)
  from assms i obtain l c1 m c2 where l: "gives (select (\<lambda>d. map_option gr_owner (find_group (rows d) ?i))) c (Some l) c1"
    "gives (IsMember uid ?i) c1 m c2" "m" "gives (update_locked uid op request ?i l) c2 Success c'"
    unfolding UpdateGroup_def Let_def by (auto split: option.splits if_splits)
  have d: "db c2 = db c" and m: "is_member (tbl c) ?i uid" using gives_select [OF l(1)] gives_IsMember [OF l(2)] l(3) by auto
  obtain g where g: "find_group (tbl c) ?i = Some g" "l = gr_owner g"
    using gives_select [OF l(1)] by (cases "find_group (tbl c) ?i") auto
  show thesis using that [OF i(2) _ _ _ _ _ _ _] i g gives_update_locked [OF l(4) _ g(2)] d m by simp
qed

lemma gives_CreateGroup:
  assumes "gives (CreateGroup J uid request) c (Success, thread) c'"
  defines "ids \<equiv> member_ids uid (index request ''members'')" and "key \<equiv> str_of (index request ''creation_key'')"
    and "spec \<equiv> creation_spec J (index request ''name'') (member_ids uid (index request ''members''))"
  obtains (repeated) g where "creation_valid uid request" "g \<in> set (groups_t (tbl c))" "gr_creator g = uid" "gr_key g = key"
      "gr_spec g = spec" "gr_active g" "gr_thread g = thread" "is_member (tbl c) thread uid" "db c' = db c"
    | (created) "creation_valid uid request" "thread = next_thread (db c)" "\<forall>i\<in>set ids. i = uid \<or> are_friends (tbl c) uid i"
      "\<forall>i\<in>set ids. has_user (tbl c) i" "\<not> duplicate_group (tbl c) thread uid key"
      "tbl c' = (tbl c)\<lparr>threads_t := threads_t (tbl c) @ [(thread, ''group'')],
         groups_t := groups_t (tbl c) @ [\<lparr>gr_thread = thread, gr_name = str_of (index request ''name''), gr_owner = uid,
           gr_creator = uid, gr_key = key, gr_spec = spec, gr_active = True\<rparr>],
         members_t := members_t (tbl c) @ map (Pair thread) ids\<rparr>"
      "next_thread (db c') = thread + 1" "next_message (db c') = next_message (db c)"
proof -
  let ?find = "\<lambda>t. find (\<lambda>g. gr_creator g = uid \<and> gr_key g = key) (groups_t t)"
  have v: "creation_valid uid request" using assms(1) by (auto simp: CreateGroup_def split: if_splits)
  from assms(1) v obtain a c1 p c2 where a: "gives (select (\<lambda>d. has_user (rows d) uid)) c a c1"
    "gives (select (\<lambda>d. ?find (rows d))) c1 p c2"
    and r: "gives (case p of
            Some g \<Rightarrow>
              if gr_spec g \<noteq> spec then sql_return (Error_Json, 0)
              else if \<not> gr_active g then sql_return (GroupForbidden, gr_thread g)
              else sql_bind (IsMember uid (gr_thread g)) (\<lambda>m.
                sql_return (if m then Success else GroupForbidden, gr_thread g))
          | None \<Rightarrow> sql_bind (all_friends uid ids) (\<lambda>friends.
              if \<not> friends then sql_return (FriendNotFound, 0)
              else sql_then (insert_thread ''group'')
                  (sql_bind (select last_insert_id) (\<lambda>thread.
                   sql_then (insert_group thread (str_of (index request ''name'')) uid uid key spec)
                   (sql_then (sql_for ids (insert_member thread)) (sql_return (Success, thread))))))) c2 (Success, thread) c'"
    unfolding CreateGroup_def Let_def ids_def key_def spec_def by (auto split: if_splits)
  have d: "db c2 = db c" "p = ?find (tbl c)" using gives_select [OF a(1)] gives_select [OF a(2)] by auto
  show thesis
  proof (cases p)
    case (Some g)
    then have "g \<in> set (groups_t (tbl c))" "gr_creator g = uid" "gr_key g = key" using d(2) by (auto simp: find_Some_iff)
    moreover have "gr_spec g = spec" "gr_active g" "gr_thread g = thread" "is_member (tbl c) thread uid" "db c' = db c"
      using r Some d(1) by (auto split: if_splits dest!: gives_IsMember)
    ultimately show thesis using repeated v by blast
  next
    case None
    with r obtain b c3 u1 c4 k c5 u2 c6 u3 where s: "gives (all_friends uid ids) c2 b c3" "b" "gives (insert_thread ''group'') c3 u1 c4"
      "gives (select last_insert_id) c4 k c5" "gives (insert_group k (str_of (index request ''name'')) uid uid key spec) c5 u2 c6"
      "gives (sql_for ids (insert_member k)) c6 u3 c'" "k = thread" by (auto split: if_splits)
    note f = gives_all_friends [OF s(1)] and t = gives_insert_thread [OF s(3)] and l = gives_select [OF s(4)]
      and g = gives_insert_group [OF s(5)] and m = gives_insert_members [OF s(6)]
    show thesis
    proof (rule created [OF v])
      show "thread = next_thread (db c)" using s(7) l t f d by simp
      show "\<forall>i\<in>set ids. i = uid \<or> are_friends (tbl c) uid i" using f s(2) d by simp
      show "\<forall>i\<in>set ids. has_user (tbl c) i" using m g t l f d by (simp add: has_user_def)
      show "\<not> duplicate_group (tbl c) thread uid key" using g t l f d s(7) by (simp add: duplicate_group_def)
    qed (use s(7) f t l g m d in simp_all)
  qed
qed

section \<open>Groups as their members see them\<close>

text \<open>The abstract view of a group and the effect an update has on it.\<close>

record group_view =
  view_name :: string
  view_owner :: int
  view_members :: "int set"

definition group_view :: "tables \<Rightarrow> int \<Rightarrow> group_view option" where
  "group_view t thread = map_option (\<lambda>g. \<lparr>view_name = gr_name g, view_owner = gr_owner g, view_members = {u. is_member t thread u}\<rparr>)
     (find_group t thread)"

definition spec_update :: "group_update \<Rightarrow> group_view \<Rightarrow> group_view option" where
  "spec_update x v = (case x of
       Rename n \<Rightarrow> Some (v\<lparr>view_name := n\<rparr>)
     | Disband \<Rightarrow> None
     | Keep \<Rightarrow> Some v
     | Join u \<Rightarrow> Some (v\<lparr>view_members := insert u (view_members v)\<rparr>)
     | Transfer u \<Rightarrow> Some (v\<lparr>view_owner := u\<rparr>)
     | Drop u \<Rightarrow> Some (v\<lparr>view_members := view_members v - {u}\<rparr>))"

lemma find_group_map:
  assumes "\<And>g. gr_thread (f g) = gr_thread g" "\<And>g. gr_active (f g) = gr_active g"
  shows "find_group (t\<lparr>groups_t := map (\<lambda>g. if gr_thread g = i then f g else g) (groups_t t)\<rparr>) j =
    (if j = i then map_option f (find_group t j) else find_group t j)"
proof -
  have "find (\<lambda>g. gr_thread g = j \<and> gr_active g) (map (\<lambda>g. if gr_thread g = i then f g else g) gs) =
    (if j = i then map_option f (find (\<lambda>g. gr_thread g = j \<and> gr_active g) gs) else find (\<lambda>g. gr_thread g = j \<and> gr_active g) gs)" for gs
    by (induction gs) (auto simp: assms)
  then show ?thesis by (simp add: find_group_def)
qed

lemma find_group_disband:
  "find_group (t\<lparr>groups_t := map (\<lambda>g. if gr_thread g = i then g\<lparr>gr_active := False\<rparr> else g) (groups_t t)\<rparr>) j =
    (if j = i then None else find_group t j)"
proof -
  have "find (\<lambda>g. gr_thread g = j \<and> gr_active g) (map (\<lambda>g. if gr_thread g = i then g\<lparr>gr_active := False\<rparr> else g) gs) =
    (if j = i then None else find (\<lambda>g. gr_thread g = j \<and> gr_active g) gs)" for gs
    by (induction gs) auto
  from this [of "groups_t t"] show ?thesis by (simp only: find_group_def tables.simps tables.update_convs tables.select_convs if_True) simp
qed

lemma find_group_cong [simp]:
  "find_group (t\<lparr>members_t := M\<rparr>) = find_group t" "find_group (t\<lparr>threads_t := T\<rparr>) = find_group t"
  "find_group (t\<lparr>messages_t := X\<rparr>) = find_group t" "find_group (t\<lparr>privates_t := P\<rparr>) = find_group t"
  "is_member (t\<lparr>groups_t := G\<rparr>) = is_member t" "is_member (t\<lparr>threads_t := T\<rparr>) = is_member t"
  by (auto simp: find_group_def is_member_def fun_eq_iff)

lemma group_view_update:
  assumes "find_group t thread = Some g"
  shows "group_view (apply_update thread x t) i =
    (if i = thread then Option.bind (group_view t thread) (spec_update x) else group_view t i)"
  using assms
  by (cases x) (auto simp: group_view_def apply_update_def spec_update_def find_group_map find_group_disband is_member_def)

text \<open>What holds of groups at all times.\<close>

definition groups_inv :: "tables \<Rightarrow> bool" where
  "groups_inv t \<longleftrightarrow> distinct (map gr_thread (groups_t t)) \<and> distinct (members_t t) \<and>
     (\<forall>g\<in>set (groups_t t). gr_active g \<longrightarrow> is_member t (gr_thread g) (gr_owner g)) \<and>
     (\<forall>i u. is_member t i u \<longrightarrow> find_group t i \<noteq> None) \<and>
     (\<forall>i. member_count t i \<le> 32) \<and>
     (\<forall>g\<in>set (groups_t t). (gr_thread g, ''group'') \<in> set (threads_t t))"

lemma find_group_unique:
  assumes "distinct (map gr_thread (groups_t t))" "g \<in> set (groups_t t)" "gr_active g"
  shows "find_group t (gr_thread g) = Some g"
proof -
  have "find (\<lambda>x. gr_thread x = gr_thread g \<and> gr_active x) gs = Some g" if "distinct (map gr_thread gs)" "g \<in> set gs" for gs
    using that assms(3) by (induction gs) (auto simp: image_iff)
  then show ?thesis using assms(1,2) by (simp add: find_group_def)
qed

lemma find_group_Some: "find_group t i = Some g \<Longrightarrow> g \<in> set (groups_t t) \<and> gr_thread g = i \<and> gr_active g"
  by (auto simp: find_group_def find_Some_iff)

lemma member_count_simps [simp]:
  "member_count (t\<lparr>groups_t := G\<rparr>) i = member_count t i" "member_count (t\<lparr>threads_t := T\<rparr>) i = member_count t i"
  "member_count (t\<lparr>members_t := members_t t @ M\<rparr>) i = member_count t i + length (filter (\<lambda>m. fst m = i) M)"
  by (simp_all add: member_count_def)

lemma length_filter_filter: "length (filter Q (filter P xs)) \<le> length (filter Q xs)"
  by (induction xs) auto

lemma member_count_filter: "member_count t i \<le> n \<Longrightarrow> member_count (t'\<lparr>members_t := filter P (members_t t)\<rparr>) i \<le> n"
  using length_filter_filter [of "\<lambda>m. fst m = i" P "members_t t"] by (simp add: member_count_def del: filter_filter)

lemma groups_inv_update:
  assumes "groups_inv t" "find_group t thread = Some g" "update_permitted t thread uid op request g"
  shows "groups_inv (apply_update thread (update_of t thread uid op request) t)"
proof -
  let ?u = "update_of t thread uid op request" and ?target = "target_of uid op request"
  note inv = assms(1) [unfolded groups_inv_def]
  have keys: "map gr_thread (map (\<lambda>g. if gr_thread g = thread then f g else g) (groups_t t)) = map gr_thread (groups_t t)"
    if "\<And>g. gr_thread (f g) = gr_thread g" for f using that by simp
  note p = assms(3) [unfolded update_permitted_def]
  show ?thesis
  proof (cases ?u)
    case (Rename n)
    then show ?thesis using inv
      by (auto simp: groups_inv_def apply_update_def find_group_map comp_def if_distrib cong: if_cong)
  next
    case Disband
    then show ?thesis using inv
      by (auto simp: groups_inv_def apply_update_def find_group_disband comp_def if_distrib is_member_def
          intro!: member_count_filter cong: if_cong split: if_splits)
  next
    case Keep
    then show ?thesis using assms(1) by (simp add: apply_update_def)
  next
    case (Join v)
    then have j: "v = ?target" "op = ''add''" "\<not> is_member t thread ?target" by (auto simp: update_of_def split: if_splits)
    then have "member_count t thread < 32" using p by auto
    then show ?thesis using inv Join j assms(2) by (auto simp: groups_inv_def apply_update_def is_member_def)
  next
    case (Transfer v)
    then have "v = ?target" "op = ''transfer''" by (auto simp: update_of_def split: if_splits)
    then have "is_member t thread v" using p by auto
    then show ?thesis using inv Transfer
      by (auto simp: groups_inv_def apply_update_def find_group_map comp_def if_distrib cong: if_cong)
  next
    case (Drop v)
    then have "v = ?target" "op \<noteq> ''rename''" "op \<noteq> ''disband''" by (auto simp: update_of_def split: if_splits)
    then have "v \<noteq> gr_owner g" using p by auto
    moreover have "x = g" if "x \<in> set (groups_t t)" "gr_thread x = thread" "gr_active x" for x
      using find_group_unique [of t x] that inv assms(2) by auto
    ultimately show ?thesis using inv Drop
      by (auto simp: groups_inv_def apply_update_def is_member_def intro!: member_count_filter)
  qed
qed

text \<open>Creating a group keeps the invariant and gives the group that was asked for.\<close>

lemma member_ids_set [simp]: "set (member_ids uid v) = insert uid (int_of_json ` set (elements v))" "distinct (member_ids uid v)"
  by (auto simp: member_ids_def)

lemma group_created:
  assumes "groups_inv t" "\<not> duplicate_group t thread uid key" "distinct ids" "uid \<in> set ids" "length ids \<le> 32"
    "t' = t\<lparr>threads_t := threads_t t @ [(thread, ''group'')],
       groups_t := groups_t t @ [\<lparr>gr_thread = thread, gr_name = name, gr_owner = uid, gr_creator = uid, gr_key = key, gr_spec = spec,
         gr_active = True\<rparr>], members_t := members_t t @ map (Pair thread) ids\<rparr>"
  shows "groups_inv t'" "group_view t' i = (if i = thread then Some \<lparr>view_name = name, view_owner = uid, view_members = set ids\<rparr> else group_view t i)"
proof -
  note inv = assms(1) [unfolded groups_inv_def]
  have new: "\<forall>g\<in>set (groups_t t). gr_thread g \<noteq> thread" using assms(2) by (auto simp: duplicate_group_def)
  then have fg: "find_group t' i = (if i = thread then Some \<lparr>gr_thread = thread, gr_name = name, gr_owner = uid, gr_creator = uid,
      gr_key = key, gr_spec = spec, gr_active = True\<rparr> else find_group t i)" for i
  proof -
    have "find P (gs @ [x]) = (case find P gs of Some y \<Rightarrow> Some y | None \<Rightarrow> if P x then Some x else None)"
      for P gs and x :: group_row by (induction gs) auto
    moreover have "find (\<lambda>g. gr_thread g = thread \<and> gr_active g) (groups_t t) = None" using new by (auto simp: find_None_iff)
    ultimately show ?thesis by (auto simp: assms(6) find_group_def split: option.split)
  qed
  have nomem: "\<not> is_member t thread u" for u using inv new by (auto dest!: find_group_Some)
  then have cnt: "member_count t thread = 0" by (auto simp: member_count_def is_member_def filter_empty_conv)
  show "groups_inv t'" unfolding groups_inv_def
  proof (intro conjI)
    show "distinct (map gr_thread (groups_t t'))" using inv new by (auto simp: assms(6))
    show "distinct (members_t t')" using inv nomem assms(3) by (auto simp: assms(6) is_member_def distinct_map inj_on_def)
    show "\<forall>g\<in>set (groups_t t'). gr_active g \<longrightarrow> is_member t' (gr_thread g) (gr_owner g)"
      using inv assms(4) by (auto simp: assms(6) is_member_def)
    show "\<forall>i u. is_member t' i u \<longrightarrow> find_group t' i \<noteq> None" using inv by (auto simp: fg) (auto simp: assms(6) is_member_def)
    have "length (filter (\<lambda>m. fst m = i) (map (Pair thread) ids)) = (if i = thread then length ids else 0)" for i
      by (induction ids) auto
    then show "\<forall>i. member_count t' i \<le> 32" using inv cnt assms(5) by (auto simp: assms(6) member_count_def)
    show "\<forall>g\<in>set (groups_t t'). (gr_thread g, ''group'') \<in> set (threads_t t')" using inv by (auto simp: assms(6))
  qed
  have "{u. is_member t' thread u} = set ids" "i \<noteq> thread \<Longrightarrow> is_member t' i u = is_member t i u" for u
    using nomem by (auto simp: assms(6) is_member_def)
  then show "group_view t' i = (if i = thread then Some \<lparr>view_name = name, view_owner = uid, view_members = set ids\<rparr> else group_view t i)"
    by (simp add: group_view_def fg)
qed

lemma catch_out_cases:
  assumes "catch_out doc work c = (r, c')" "framed work" "saved c = None"
  obtains (unchanged) "tbl c' = tbl c" "saved c' = None" "framed_db (db c) (db c')"
      "fst r = DatabaseError \<or> (\<exists>c1 c2. db c1 = db c \<and> gives work (begun c1) (False, r) c2)"
    | (committed) y c1 c2 where "db c1 = db c" "gives work (begun c1) (True, y) c2" "db c' = db c2" "saved c' = None"
      "framed_db (db c) (db c')" "r = y \<or> fst r = DatabaseError"
proof -
  obtain q where q: "transaction work c = (q, c')" "fst r = DatabaseError \<or> q = Inr r"
    using assms(1) by (auto simp: catch_out_def split: prod.splits sum.splits)
  from q(1) assms(2,3) show thesis
  proof (cases rule: transaction_cases)
    case unchanged
    then show thesis using q(2) that(1) by blast
  next
    case (committed y c1 c2)
    then show thesis using q(2) that(2) [of c1 y c2] by auto
  qed
qed

lemma gives_ReadGroup: "gives (ReadGroup thread b) c x c' \<Longrightarrow> db c' = db c"
  unfolding ReadGroup_def by (auto dest!: gives_select split: option.splits if_splits)

text \<open>The operations that only read.\<close>

lemma reading_groups [reading_rules]: "reading (ReadGroup i b)" "reading (IsMember i u)"
  by (auto simp: ReadGroup_def IsMember_def intro!: reading_rules)

lemma catch_out_snd: "snd (catch_out doc work c) = snd (transaction work c)"
  by (simp add: catch_out_def split: prod.split sum.split)

lemma GetGroup_reads: "saved c = None \<Longrightarrow> unchanged_by c (snd (GetGroup uid thread doc b c))"
  unfolding GetGroup_def
  by (auto simp: catch_out_snd intro!: unchanged_connection reading_transaction reading_rules)

lemma CommonGroups_reads: "saved c = None \<Longrightarrow> unchanged_by c (snd (CommonGroups uid request doc c))"
  unfolding CommonGroups_def Let_def
  by (auto simp: catch_out_snd Let_def intro!: unchanged_connection reading_transaction reading_rules)

section \<open>What a request to change a group does\<close>

text \<open>The outcome that the rules of groups allow for an accepted request.\<close>

definition group_outcome :: "jsoncpp \<Rightarrow> tables \<Rightarrow> int \<Rightarrow> json \<Rightarrow> tables \<Rightarrow> bool" where
  "group_outcome J t uid request t' \<longleftrightarrow> (let op = str_of (index request ''op''); thread = int_of_json (index request ''thread_id'') in
     if op = ''info'' \<or> op = ''common'' then t' = t
     else if op = ''create'' then
       (let ids = member_ids uid (index request ''members''); name = str_of (index request ''name'') in
        creation_valid uid request \<and>
        ((t' = t \<and> (\<exists>g\<in>set (groups_t t). gr_active g \<and> gr_creator g = uid \<and> gr_key g = str_of (index request ''creation_key'') \<and>
            gr_spec g = creation_spec J (index request ''name'') ids \<and> is_member t (gr_thread g) uid)) \<or>
         ((\<forall>i\<in>set ids. i = uid \<or> are_friends t uid i) \<and> (\<exists>new. group_view t new = None \<and>
            group_view t' = (group_view t)(new \<mapsto> \<lparr>view_name = name, view_owner = uid, view_members = set ids\<rparr>)))))
     else (\<exists>g. find_group t thread = Some g \<and> update_permitted t thread uid op request g \<and>
        group_view t' = (group_view t)(thread := Option.bind (group_view t thread) (spec_update (update_of t thread uid op request)))))"

lemma gives_change:
  assumes "gives (change_operation J uid op request doc) c (True, y) c'" "groups_inv (tbl c)" "op = str_of (index request ''op'')"
    "op \<noteq> ''info''" "op \<noteq> ''common''"
  shows "fst y = Success" "group_outcome J (tbl c) uid request (tbl c')" "groups_inv (tbl c')"
proof -
  from assms(1) obtain th c1 where r: "gives (if op = ''create'' then CreateGroup J uid request else UpdateGroup uid op request) c (Success, th) c1"
    and y: "fst y = Success" and d: "db c' = db c1"
    unfolding change_operation_def by (auto split: if_splits dest!: gives_ReadGroup)
  show "fst y = Success" by (rule y)
  have "group_outcome J (tbl c) uid request (tbl c') \<and> groups_inv (tbl c')"
  proof (cases "op = ''create''")
    case True
    with r have "gives (CreateGroup J uid request) c (Success, th) c1" by simp
    then show ?thesis
    proof (cases rule: gives_CreateGroup)
      case (repeated g)
      then show ?thesis using True assms(2,3) d by (auto simp: group_outcome_def Let_def)
    next
      case created
      have len: "length (member_ids uid (index request ''members'')) \<le> 32" using created(1) by (simp add: creation_valid_def)
      note g = group_created [OF assms(2) created(5) member_ids_set(2) _ len created(6)]
      have "group_view (tbl c) th = None"
      proof -
        have "find_group (tbl c) th = None"
          using created(5) by (auto simp: find_group_def find_None_iff duplicate_group_def)
        then show ?thesis by (simp add: group_view_def)
      qed
      then show ?thesis using g created(1,3) True assms(3) d
        by (auto simp: group_outcome_def Let_def fun_eq_iff intro!: exI [of _ th])
    qed
  next
    case False
    with r have "gives (UpdateGroup uid op request) c (Success, th) c1" by simp
    then obtain g where g: "th = int_of_json (index request ''thread_id'')" "find_group (tbl c) th = Some g"
      "update_permitted (tbl c) th uid op request g" "tbl c1 = apply_update th (update_of (tbl c) th uid op request) (tbl c)"
      by (rule gives_UpdateGroup) blast
    then show ?thesis using False assms(2-5) d groups_inv_update [OF assms(2) g(2,3)] group_view_update [OF g(2)]
      by (auto simp: group_outcome_def Let_def fun_eq_iff)
  qed
  then show "group_outcome J (tbl c) uid request (tbl c')" "groups_inv (tbl c')" by auto
qed

text \<open>Every call of \<^verbatim>\<open>ChangeGroup\<close> keeps the invariant; what it may do to the rows.\<close>

lemma ChangeGroup_outcome:
  assumes "ChangeGroup J uid request doc c = ((code, doc'), c')" "saved c = None" "groups_inv (tbl c)"
  shows "(tbl c' = tbl c \<and> (code = Success \<longrightarrow> group_outcome J (tbl c) uid request (tbl c')) \<or>
      (code = Success \<or> code = DatabaseError) \<and> group_outcome J (tbl c) uid request (tbl c')) \<and> groups_inv (tbl c') \<and> saved c' = None"
proof -
  let ?op = "str_of (index request ''op'')"
  consider (early) "c' = c" "code \<noteq> Success" | (common) "?op = ''common''" "CommonGroups uid request doc c = ((code, doc'), c')"
    | (info) i where "?op = ''info''" "GetGroup uid i doc True c = ((code, doc'), c')"
    | (change) "?op \<noteq> ''info''" "?op \<noteq> ''common''"
      "with_connection (DatabaseError, doc) (catch_out doc (change_operation J uid ?op request doc)) c = ((code, doc'), c')"
    using assms(1) unfolding ChangeGroup_def Let_def by (auto split: if_splits)
  then show ?thesis
  proof cases
    case early
    then show ?thesis using assms(2,3) by simp
  next
    case common
    then show ?thesis using CommonGroups_reads [OF assms(2), of uid request doc] assms(3)
      by (simp add: unchanged_by_def group_outcome_def)
  next
    case info
    then show ?thesis using GetGroup_reads [OF assms(2), of uid i doc True] assms(3)
      by (simp add: unchanged_by_def group_outcome_def)
  next
    case change
    from change(3) show ?thesis
    proof (cases rule: with_connection_cases)
      case none
      then show ?thesis using assms(2,3) by simp
    next
      case (connected c1)
      note inv = assms(3) [folded connected(1)]
      from connected(3) framed_change assms(2) [folded connected(2)] show ?thesis
      proof (cases rule: catch_out_cases)
        case unchanged
        have "code \<noteq> Success"
          using unchanged(4) by (auto simp: change_operation_def split: if_splits)
        then show ?thesis using unchanged connected assms(3) by simp
      next
        case (committed y d1 d2)
        have i: "groups_inv (tbl (begun d1))" using inv committed(1) by simp
        note g = gives_change [OF committed(2) i refl change(1,2)]
        then show ?thesis using committed connected by auto
      qed
    qed
  qed
qed

end
