(* ===== verification/Users.thy ===== *)
theory Users
  imports Contacts
begin

text \<open>
  Accounts and passwords: \<^verbatim>\<open>MysqlDaoUsers.cpp\<close>. OpenSSL is a parameter: the key derivation
  function as a component of a record, the bytes of \<^verbatim>\<open>RAND_bytes\<close> as an argument of the calls that
  draw a salt, each \<^term>\<open>None\<close> when OpenSSL reports a failure.
\<close>

section \<open>Hexadecimal text\<close>

definition hex_char :: "nat \<Rightarrow> char" where
  "hex_char n = (if n < 10 then char_of (48 + n) else char_of (87 + n))"

definition BytesToHex :: "8 word list \<Rightarrow> string" where
  "BytesToHex data = concat (map (\<lambda>b. [hex_char (unat b div 16), hex_char (unat b mod 16)]) data)"

definition hex_value :: "char \<Rightarrow> int" where
  "hex_value c = (if 48 \<le> byte c \<and> byte c \<le> 57 then int (byte c) - 48
     else if 97 \<le> byte c \<and> byte c \<le> 102 then int (byte c) - 97 + 10
     else if 65 \<le> byte c \<and> byte c \<le> 70 then int (byte c) - 65 + 10
     else -1)"

unbundle bit_operations_syntax

text \<open>The loop over pairs of characters; \<^term>\<open>None\<close> is \<^verbatim>\<open>false\<close>.\<close>

fun hex_pairs :: "string \<Rightarrow> 8 word list option" where
  "hex_pairs (a # b # rest) =
     (if hex_value a < 0 \<or> hex_value b < 0 then None
      else map_option (\<lambda>bs. (push_bit 4 (word_of_int (hex_value a)) OR word_of_int (hex_value b)) # bs) (hex_pairs rest))"
| "hex_pairs _ = Some []"

definition HexToBytes :: "string \<Rightarrow> 8 word list option" where
  "HexToBytes t = (if t = [] \<or> length t mod 2 \<noteq> 0 then None else hex_pairs t)"

section \<open>Passwords\<close>

definition kPasswordIterations :: int where "kPasswordIterations = 120000"
definition kPasswordSaltSize :: nat where "kPasswordSaltSize = 16"
definition kPasswordHashSize :: nat where "kPasswordHashSize = 32"

record openssl =
  PBKDF2 :: "string \<Rightarrow> 8 word list \<Rightarrow> int \<Rightarrow> nat \<Rightarrow> 8 word list option"

text \<open>\<open>salt\<close> is what \<^verbatim>\<open>RAND_bytes\<close> wrote; the result is the salt's and the hash's text.\<close>

definition HashPassword :: "openssl \<Rightarrow> 8 word list option \<Rightarrow> string \<Rightarrow> (string \<times> string) option" where
  "HashPassword ssl salt password =
     (if int_max < int (length password) then None
      else case salt of None \<Rightarrow> None
        | Some s \<Rightarrow> (case PBKDF2 ssl password s kPasswordIterations kPasswordHashSize of None \<Rightarrow> None
            | Some h \<Rightarrow> Some (BytesToHex s, BytesToHex h)))"

definition VerifyPassword :: "openssl \<Rightarrow> string \<Rightarrow> string \<Rightarrow> int \<Rightarrow> string \<Rightarrow> bool" where
  "VerifyPassword ssl password salt_hex iterations expected_hash_hex =
     (if password = [] \<or> int_max < int (length password) \<or> iterations \<le> 0 then False
      else case (HexToBytes salt_hex, HexToBytes expected_hash_hex) of
        (Some salt, Some expected) \<Rightarrow> salt \<noteq> [] \<and> expected \<noteq> [] \<and>
          PBKDF2 ssl password salt iterations (length expected) = Some expected
      | _ \<Rightarrow> False)"

section \<open>Statements\<close>

definition duplicate_user :: "database \<Rightarrow> string \<Rightarrow> string \<Rightarrow> bool" where
  "duplicate_user d name email \<longleftrightarrow>
     (\<exists>u\<in>set (users_t (rows d)). weight d (u_username u) = weight d name \<or> weight d (u_email u) = weight d email)"

definition add_user_row :: "string \<Rightarrow> string \<Rightarrow> string \<Rightarrow> string \<Rightarrow> int \<Rightarrow> database \<Rightarrow> (int + unit) \<times> database" where
  "add_user_row name email hash salt iterations d = (let t = rows d; d' = d\<lparr>next_user := next_user d + 1\<rparr> in
     if duplicate_user d name email then (Inl 1062, d')
     else (Inr (), d'\<lparr>rows := t\<lparr>users_t := users_t t @ [\<lparr>u_id = next_user d, u_username = name, u_email = email, u_nick = [],
        u_desc = [], u_sex = 0, u_icon = [], u_hash = hash, u_salt = salt, u_iterations = iterations\<rparr>]\<rparr>,
        last_insert_id := next_user d\<rparr>))"

definition insert_user :: "string \<Rightarrow> string \<Rightarrow> string \<Rightarrow> string \<Rightarrow> int \<Rightarrow> unit sql" where
  "insert_user name email hash salt iterations = statement (add_user_row name email hash salt iterations)"

definition set_password :: "database \<Rightarrow> string \<Rightarrow> string \<Rightarrow> string \<Rightarrow> user_row \<Rightarrow> user_row" where
  "set_password d name hash salt u = (if weight d (u_username u) = weight d name
     then u\<lparr>u_hash := hash, u_salt := salt, u_iterations := kPasswordIterations\<rparr> else u)"

lemma set_password_keys [simp]:
  "u_id (set_password d name hash salt u) = u_id u" "u_username (set_password d name hash salt u) = u_username u"
  "u_email (set_password d name hash salt u) = u_email u"
  by (simp_all add: set_password_def)

text \<open>The number of affected rows counts the rows whose values changed.\<close>

definition update_password :: "string \<Rightarrow> string \<Rightarrow> string \<Rightarrow> nat sql" where
  "update_password name hash salt = statement (\<lambda>d. let us = users_t (rows d) in
     (Inr (length (filter (\<lambda>u. set_password d name hash salt u \<noteq> u) us)),
      d\<lparr>rows := (rows d)\<lparr>users_t := map (set_password d name hash salt) us\<rparr>\<rparr>))"

definition set_profile :: "int \<Rightarrow> string \<Rightarrow> string \<Rightarrow> string \<Rightarrow> user_row \<Rightarrow> user_row" where
  "set_profile uid name nick description u =
     (if u_id u = uid then u\<lparr>u_username := name, u_nick := nick, u_desc := description\<rparr> else u)"

lemma set_profile_keys [simp]:
  "u_id (set_profile uid name nick description u) = u_id u" "u_email (set_profile uid name nick description u) = u_email u"
  "u_username (set_profile uid name nick description u) = (if u_id u = uid then name else u_username u)"
  by (simp_all add: set_profile_def)

definition name_taken :: "database \<Rightarrow> int \<Rightarrow> string \<Rightarrow> bool" where
  "name_taken d uid name \<longleftrightarrow> has_user (rows d) uid \<and>
     (\<exists>u\<in>set (users_t (rows d)). u_id u \<noteq> uid \<and> weight d (u_username u) = weight d name)"

definition update_profile :: "int \<Rightarrow> string \<Rightarrow> string \<Rightarrow> string \<Rightarrow> unit sql" where
  "update_profile uid name nick description = statement (\<lambda>d.
     if name_taken d uid name then (Inl 1062, d)
     else (Inr (), d\<lparr>rows := (rows d)\<lparr>users_t := map (set_profile uid name nick description) (users_t (rows d))\<rparr>\<rparr>))"

definition upsert_avatar :: "int \<Rightarrow> string \<Rightarrow> unit sql" where
  "upsert_avatar uid picture = statement (\<lambda>d. let t = rows d in
     if \<not> has_user t uid then (Inl 1452, d)
     else (Inr (), d\<lparr>rows := t\<lparr>avatars_t := AList.update uid picture (avatars_t t)\<rparr>\<rparr>))"

section \<open>The operations\<close>

definition RegUser :: "openssl \<Rightarrow> 8 word list option \<Rightarrow> string \<Rightarrow> string \<Rightarrow> string \<Rightarrow> mysql \<Rightarrow> int \<times> mysql" where
  "RegUser ssl salt name email password c =
     (if name = [] \<or> email = [] \<or> password = [] then (-1, c)
      else case HashPassword ssl salt password of None \<Rightarrow> (-1, c)
        | Some (salt_hex, hash_hex) \<Rightarrow>
            with_connection (-1) (sql_catch (\<lambda>e. if e = 1062 then 0 else -1)
              (sql_then (insert_user name email hash_hex salt_hex kPasswordIterations) (select last_insert_id))) c)"

definition CheckEmail :: "string \<Rightarrow> string \<Rightarrow> mysql \<Rightarrow> bool \<times> mysql" where
  "CheckEmail name email c =
     (if name = [] \<or> email = [] then (False, c)
      else with_connection False (sql_catch (\<lambda>_. False) (sql_bind (select (\<lambda>d. \<exists>u\<in>set (users_t (rows d)).
        weight d (u_username u) = weight d name \<and> weight d (u_email u) = weight d email)) (\<lambda>found. sql_return found))) c)"

text \<open>The result and \<^verbatim>\<open>user_info\<close>, which is written only on success.\<close>

definition CheckPwdByEmail :: "openssl \<Rightarrow> string \<Rightarrow> string \<Rightarrow> UserInfo \<Rightarrow> mysql \<Rightarrow> (bool \<times> UserInfo) \<times> mysql" where
  "CheckPwdByEmail ssl email password info c =
     (if email = [] \<or> password = [] then ((False, info), c)
      else with_connection (False, info) (sql_catch (\<lambda>_. (False, info))
        (sql_bind (select (\<lambda>d. find (\<lambda>u. weight d (u_email u) = weight d email) (users_t (rows d)))) (\<lambda>result.
           sql_return (case result of None \<Rightarrow> (False, info)
             | Some u \<Rightarrow> if VerifyPassword ssl password (u_salt u) (u_iterations u) (u_hash u)
                 then (True, info\<lparr>ui_name := u_username u, ui_email := u_email u, ui_uid := u_id u\<rparr>)
                 else (False, info))))) c)"

definition UpdatePwd :: "openssl \<Rightarrow> 8 word list option \<Rightarrow> string \<Rightarrow> string \<Rightarrow> mysql \<Rightarrow> bool \<times> mysql" where
  "UpdatePwd ssl salt name new_password c =
     (if name = [] \<or> new_password = [] then (False, c)
      else case HashPassword ssl salt new_password of None \<Rightarrow> (False, c)
        | Some (salt_hex, hash_hex) \<Rightarrow>
            with_connection False (sql_catch (\<lambda>_. False)
              (sql_bind (update_password name hash_hex salt_hex) (\<lambda>updated_rows. sql_return (updated_rows = 1)))) c)"

definition GetUser :: "int \<Rightarrow> mysql \<Rightarrow> UserInfo option \<times> mysql" where
  "GetUser uid c = (if uid \<le> 0 then (None, c)
     else with_connection None (sql_catch (\<lambda>_. None)
       (sql_bind (select (\<lambda>d. find (\<lambda>u. u_id u = uid) (users_t (rows d)))) (\<lambda>r. sql_return (map_option ReadUserInfo r)))) c)"

definition GetUserByName :: "string \<Rightarrow> mysql \<Rightarrow> UserInfo option \<times> mysql" where
  "GetUserByName name c = (if name = [] then (None, c)
     else with_connection None (sql_catch (\<lambda>_. None)
       (sql_bind (select (\<lambda>d. find (\<lambda>u. weight d (u_username u) = weight d name) (users_t (rows d))))
         (\<lambda>r. sql_return (map_option ReadUserInfo r)))) c)"

definition UpdateProfile :: "int \<Rightarrow> string \<Rightarrow> string \<Rightarrow> string \<Rightarrow> string \<Rightarrow> bool \<Rightarrow> mysql \<Rightarrow> ErrorCodes \<times> mysql" where
  "UpdateProfile uid name nick description avatar has_avatar c =
     (if uid \<le> 0 then (DatabaseError, c)
      else with_connection DatabaseError (sql_catch (\<lambda>e. if e = 1062 then UserExist else DatabaseError)
        (transaction (sql_then (update_profile uid name nick description)
          (sql_then (sql_when has_avatar (upsert_avatar uid avatar)) (sql_return (True, Success)))))) c)"

definition GetAvatar :: "int \<Rightarrow> mysql \<Rightarrow> (bool \<times> string) \<times> mysql" where
  "GetAvatar uid c = (if uid \<le> 0 then ((False, []), c)
     else with_connection (False, []) (sql_catch (\<lambda>e. (e = 1146, []))
       (sql_bind (select (\<lambda>d. map_of (avatars_t (rows d)) uid)) (\<lambda>r.
          sql_return (True, case r of None \<Rightarrow> [] | Some picture \<Rightarrow> picture)))) c)"

section \<open>Facts about the text of bytes\<close>

lemma hex_value_hex_char: "n < 16 \<Longrightarrow> hex_value (hex_char n) = int n"
  by (auto simp: hex_value_def hex_char_def byte_def)

lemma unat_bound: "unat (b :: 8 word) < 2 ^ 8"
  using unsigned_less [of b] by (simp only: len_of_numeral_defs) simp

lemma nibbles:
  fixes b :: "8 word"
  shows "push_bit 4 (word_of_int (int (unat b div 16))) OR word_of_int (int (unat b mod 16)) = b"
proof -
  have "unat b < 256" using unat_bound [of b] by simp
  then have "word_of_int (int (unat b div 16)) = drop_bit 4 b" "word_of_int (int (unat b mod 16)) = take_bit 4 b"
    by (simp_all add: word_unat_eq_iff drop_bit_eq_div take_bit_eq_mod unsigned_of_nat unat_div unat_mod)
  then show ?thesis by (simp add: bit_eq_iff bit_simps) auto
qed

lemma hex_pairs_BytesToHex: "hex_pairs (BytesToHex bs) = Some bs"
proof (induction bs)
  case (Cons b bs)
  have "unat b < 256" using unat_bound [of b] by simp
  then have "hex_value (hex_char (unat b div 16)) = int (unat b div 16)" "hex_value (hex_char (unat b mod 16)) = int (unat b mod 16)"
    by (simp_all add: hex_value_hex_char)
  then show ?case using Cons nibbles [of b] by (simp add: BytesToHex_def)
qed (simp add: BytesToHex_def)

lemma HexToBytes_BytesToHex: "bs \<noteq> [] \<Longrightarrow> HexToBytes (BytesToHex bs) = Some bs"
proof -
  have "length (BytesToHex bs) = 2 * length bs" by (induction bs) (simp_all add: BytesToHex_def)
  then show "bs \<noteq> [] \<Longrightarrow> HexToBytes (BytesToHex bs) = Some bs"
    using hex_pairs_BytesToHex [of bs] by (cases bs) (auto simp: HexToBytes_def BytesToHex_def)
qed

text \<open>
  What OpenSSL documents of its functions: as many bytes as were asked for, and never none.
\<close>

definition sound_openssl :: "openssl \<Rightarrow> bool" where
  "sound_openssl ssl \<longleftrightarrow> (\<forall>p s i n h. PBKDF2 ssl p s i n = Some h \<longrightarrow> length h = n)"

lemma verify_hashed:
  assumes "sound_openssl ssl" "HashPassword ssl (Some salt) password = Some (salt_hex, hash_hex)" "length salt = kPasswordSaltSize"
    "candidate \<noteq> []" "int (length candidate) \<le> int_max"
  shows "VerifyPassword ssl candidate salt_hex kPasswordIterations hash_hex \<longleftrightarrow>
    PBKDF2 ssl candidate salt kPasswordIterations kPasswordHashSize = PBKDF2 ssl password salt kPasswordIterations kPasswordHashSize"
proof -
  obtain h where h: "PBKDF2 ssl password salt kPasswordIterations kPasswordHashSize = Some h" "salt_hex = BytesToHex salt" "hash_hex = BytesToHex h"
    using assms(2) by (auto simp: HashPassword_def split: if_splits option.splits)
  have l: "length h = 32" using assms(1) h(1) by (auto simp: sound_openssl_def kPasswordHashSize_def)
  have ne: "salt \<noteq> []" "h \<noteq> []" using assms(3) l by (auto simp: kPasswordSaltSize_def)
  show ?thesis using assms(4,5) ne h l
    by (simp add: VerifyPassword_def HexToBytes_BytesToHex kPasswordHashSize_def) (simp add: kPasswordIterations_def)
qed

section \<open>Registering and logging in\<close>

lemma RegUser_ok:
  assumes "RegUser ssl salt name email password c = (uid, c')" "0 < uid" "\<forall>u\<in>set (users_t (tbl c)). 0 < u_id u" "0 < next_user (db c)"
  obtains s salt_hex hash_hex where "salt = Some s" "HashPassword ssl salt password = Some (salt_hex, hash_hex)" "name \<noteq> []" "email \<noteq> []" "password \<noteq> []"
    "\<not> duplicate_user (db c) name email" "uid = next_user (db c)" "weight (db c') = weight (db c)"
    "tbl c' = (tbl c)\<lparr>users_t := users_t (tbl c) @ [\<lparr>u_id = uid, u_username = name, u_email = email, u_nick = [],
        u_desc = [], u_sex = 0, u_icon = [], u_hash = hash_hex, u_salt = salt_hex, u_iterations = kPasswordIterations\<rparr>]\<rparr>"
proof -
  have ne: "name \<noteq> []" "email \<noteq> []" "password \<noteq> []" using assms(1,2) by (auto simp: RegUser_def split: if_splits)
  obtain salt_hex hash_hex where h: "HashPassword ssl salt password = Some (salt_hex, hash_hex)"
    using assms(1,2) ne by (auto simp: RegUser_def split: option.splits)
  then obtain s where s: "salt = Some s" by (auto simp: HashPassword_def split: if_splits option.splits)
  from assms(1) ne h have "with_connection (-1) (sql_catch (\<lambda>e. if e = 1062 then 0 else -1)
      (sql_then (insert_user name email hash_hex salt_hex kPasswordIterations) (select last_insert_id))) c = (uid, c')"
    by (simp add: RegUser_def)
  then obtain c1 where c1: "db c1 = db c" "sql_catch (\<lambda>e. if e = 1062 then 0 else -1)
      (sql_then (insert_user name email hash_hex salt_hex kPasswordIterations) (select last_insert_id)) c1 = (uid, c')"
    using assms(2) by (cases rule: with_connection_cases) auto
  from c1(2) have g: "gives (sql_then (insert_user name email hash_hex salt_hex kPasswordIterations) (select last_insert_id)) c1 uid c'"
  proof (cases rule: sql_catch_cases)
    case (caught e)
    then show ?thesis using assms(2) by (simp split: if_splits)
  qed (simp add: gives_def)
  then obtain u c2 where i: "gives (insert_user name email hash_hex salt_hex kPasswordIterations) c1 u c2" "gives (select last_insert_id) c2 uid c'"
    by auto
  note ins = gives_statement [OF i(1) [unfolded insert_user_def]] and l = gives_select [OF i(2)]
  have nd: "\<not> duplicate_user (db c) name email" using ins c1(1) by (auto simp: add_user_row_def Let_def split: if_splits)
  then show thesis using that [OF s h ne nd] ins l c1(1) by (simp add: add_user_row_def Let_def)
qed

lemma new_row_logs_in:
  assumes "HashPassword ssl (Some salt) password = Some (salt_hex, hash_hex)" "sound_openssl ssl" "length salt = kPasswordSaltSize"
    "\<not> duplicate_user (db c) name email" "weight (db c') = weight (db c)" "email \<noteq> []"
    "tbl c' = (tbl c)\<lparr>users_t := users_t (tbl c) @ [\<lparr>u_id = uid, u_username = name, u_email = email, u_nick = [],
        u_desc = [], u_sex = 0, u_icon = [], u_hash = hash_hex, u_salt = salt_hex, u_iterations = kPasswordIterations\<rparr>]\<rparr>"
    "pw \<noteq> []" "int (length pw) \<le> int_max"
  shows "fst (CheckPwdByEmail ssl email pw info (c'\<lparr>faults := []\<rparr>)) =
      (if PBKDF2 ssl pw salt kPasswordIterations kPasswordHashSize = PBKDF2 ssl password salt kPasswordIterations kPasswordHashSize
       then (True, info\<lparr>ui_name := name, ui_email := email, ui_uid := uid\<rparr>) else (False, info))"
proof -
  have "find P (xs @ [y]) = Some y" if "\<forall>x\<in>set xs. \<not> P x" "P y" for P xs and y :: user_row
    using that by (induction xs) auto
  then have "find (\<lambda>u. weight (db c') (u_email u) = weight (db c') email) (users_t (tbl c')) =
    Some \<lparr>u_id = uid, u_username = name, u_email = email, u_nick = [],
        u_desc = [], u_sex = 0, u_icon = [], u_hash = hash_hex, u_salt = salt_hex, u_iterations = kPasswordIterations\<rparr>"
    using assms(4,5,7) by (simp add: duplicate_user_def)
  then show ?thesis
    using verify_hashed [OF assms(2,1,3,8,9)] assms(6,8) by (simp add: CheckPwdByEmail_def sql_catch_def sql_bind_def sql_return_def)
qed

text \<open>Registering and logging in. A successful registration gives a new user id: nobody had the name or
  the e-mail, in the database's collation, and only the new row is added, with the fields that were given
  and no password in it. From then on, without faults, logging in with the e-mail and any candidate
  password succeeds, for that user, exactly when the key derivation function maps it to
  the same bytes as the password that was registered; in particular with that password itself.\<close>

theorem registered_user_logs_in:
  assumes "RegUser ssl (Some salt) name email password c = (uid, c')" "0 < uid" "sound_openssl ssl" "length salt = kPasswordSaltSize"
    "\<forall>u\<in>set (users_t (tbl c)). 0 < u_id u" "0 < next_user (db c)" "candidate \<noteq> []" "int (length candidate) \<le> int_max"
  shows "uid = next_user (db c) \<and> \<not> duplicate_user (db c) name email \<and>
    (\<exists>row. tbl c' = (tbl c)\<lparr>users_t := users_t (tbl c) @ [row]\<rparr> \<and> u_id row = uid \<and> u_username row = name \<and> u_email row = email) \<and>
    fst (fst (CheckPwdByEmail ssl email password info (c'\<lparr>faults := []\<rparr>))) \<and>
    fst (CheckPwdByEmail ssl email candidate info (c'\<lparr>faults := []\<rparr>)) =
      (if PBKDF2 ssl candidate salt kPasswordIterations kPasswordHashSize = PBKDF2 ssl password salt kPasswordIterations kPasswordHashSize
       then (True, info\<lparr>ui_name := name, ui_email := email, ui_uid := uid\<rparr>) else (False, info))"
proof -
  obtain salt_hex hash_hex where r: "HashPassword ssl (Some salt) password = Some (salt_hex, hash_hex)" "email \<noteq> []" "password \<noteq> []"
    "\<not> duplicate_user (db c) name email" "uid = next_user (db c)" "weight (db c') = weight (db c)"
    "tbl c' = (tbl c)\<lparr>users_t := users_t (tbl c) @ [\<lparr>u_id = uid, u_username = name, u_email = email, u_nick = [],
        u_desc = [], u_sex = 0, u_icon = [], u_hash = hash_hex, u_salt = salt_hex, u_iterations = kPasswordIterations\<rparr>]\<rparr>"
    using RegUser_ok [OF assms(1,2,5,6)] by blast
  have len: "int (length password) \<le> int_max" using r(1) by (auto simp: HashPassword_def split: if_splits)
  note login = new_row_logs_in [OF r(1) assms(3,4) r(4,6,2,7)]
  show ?thesis using login [OF r(3) len] login [OF assms(7,8)] r(4,5,7) by auto
qed

end
