(* ===== verification/Storage.thy ===== *)
theory Storage
  imports GroupChats Users
begin

text \<open>
  The invariant of the database under every sequence of calls of the data access layer, with any faults:
  accounts, contacts, threads, groups and messages, one predicate each on the rows and counters
  they concern.
\<close>

section \<open>The parts of the invariant\<close>

definition users_ok :: "(string \<Rightarrow> string) \<Rightarrow> int \<Rightarrow> tables \<Rightarrow> bool" where
  "users_ok w n t \<longleftrightarrow> distinct (map u_id (users_t t)) \<and> (\<forall>u\<in>set (users_t t). 0 < u_id u \<and> u_id u < n) \<and>
     distinct (map (\<lambda>u. w (u_username u)) (users_t t)) \<and> distinct (map (\<lambda>u. w (u_email u)) (users_t t))"

definition contacts_ok :: "tables \<Rightarrow> bool" where
  "contacts_ok t \<longleftrightarrow> distinct (map (\<lambda>r. (fr_self r, fr_friend r)) (friends_t t)) \<and>
     (\<forall>a b. are_friends t a b \<longrightarrow> are_friends t b a \<and> 0 < a \<and> a \<noteq> b \<and> has_user t a \<and> find_private t (min a b) (max a b) \<noteq> None)"

definition applies_ok :: "int \<Rightarrow> tables \<Rightarrow> bool" where
  "applies_ok n t \<longleftrightarrow> distinct (map (\<lambda>r. (ap_from r, ap_to r)) (applies_t t)) \<and> distinct (map ap_id (applies_t t)) \<and>
     (\<forall>r\<in>set (applies_t t). ap_id r < n)"

definition threads_ok :: "int \<Rightarrow> tables \<Rightarrow> bool" where
  "threads_ok n t \<longleftrightarrow> distinct (map fst (threads_t t)) \<and> (\<forall>x\<in>set (threads_t t). 0 < fst x \<and> fst x < n) \<and>
     distinct (map pc_thread (privates_t t)) \<and> distinct (map (\<lambda>p. (pc_user1 p, pc_user2 p)) (privates_t t)) \<and>
     (\<forall>p\<in>set (privates_t t). pc_user1 p < pc_user2 p \<and> (pc_thread p, ''private'') \<in> set (threads_t t))"

definition belongs :: "tables \<Rightarrow> int \<Rightarrow> int \<Rightarrow> int \<Rightarrow> bool" where
  "belongs t thread sender recv \<longleftrightarrow>
     (sender \<noteq> recv \<and> (\<exists>p\<in>set (privates_t t). pc_thread p = thread \<and> pc_user1 p = min sender recv \<and> pc_user2 p = max sender recv)) \<or>
     (sender = recv \<and> thread \<in> gr_thread ` set (groups_t t))"

definition messages_ok :: "(string \<Rightarrow> string) \<Rightarrow> int \<Rightarrow> tables \<Rightarrow> bool" where
  "messages_ok w n t \<longleftrightarrow> distinct (map ms_id (messages_t t)) \<and> (\<forall>r\<in>set (messages_t t). 0 < ms_id r \<and> ms_id r < n) \<and>
     sorted_wrt (\<lambda>x y. ms_unique x \<noteq> [] \<and> ms_unique y \<noteq> [] \<longrightarrow>
       \<not> (ms_thread x = ms_thread y \<and> ms_sender x = ms_sender y \<and> w (ms_unique x) = w (ms_unique y))) (messages_t t) \<and>
     (\<forall>r\<in>set (messages_t t). belongs t (ms_thread r) (ms_sender r) (ms_recv r))"

definition database_ok :: "database \<Rightarrow> bool" where
  "database_ok d \<longleftrightarrow> users_ok (weight d) (next_user d) (rows d) \<and> contacts_ok (rows d) \<and> applies_ok (next_apply d) (rows d) \<and>
     threads_ok (next_thread d) (rows d) \<and> groups_inv (rows d) \<and> messages_ok (weight d) (next_message d) (rows d) \<and>
     0 < next_user d \<and> 0 < next_thread d \<and> 0 < next_message d"

text \<open>The parts look only at their own tables and grow with the counters.\<close>

lemma ok_frames [simp]:
  "users_ok w n (t\<lparr>avatars_t := X1\<rparr>) = users_ok w n t" "users_ok w n (t\<lparr>applies_t := X2\<rparr>) = users_ok w n t"
  "users_ok w n (t\<lparr>friends_t := X3\<rparr>) = users_ok w n t" "users_ok w n (t\<lparr>threads_t := X4\<rparr>) = users_ok w n t"
  "users_ok w n (t\<lparr>privates_t := X5\<rparr>) = users_ok w n t" "users_ok w n (t\<lparr>members_t := X6\<rparr>) = users_ok w n t"
  "users_ok w n (t\<lparr>groups_t := X7\<rparr>) = users_ok w n t" "users_ok w n (t\<lparr>messages_t := X8\<rparr>) = users_ok w n t"
  "contacts_ok (t\<lparr>avatars_t := X1\<rparr>) = contacts_ok t" "contacts_ok (t\<lparr>applies_t := X2\<rparr>) = contacts_ok t"
  "contacts_ok (t\<lparr>threads_t := X4\<rparr>) = contacts_ok t" "contacts_ok (t\<lparr>members_t := X6\<rparr>) = contacts_ok t"
  "contacts_ok (t\<lparr>groups_t := X7\<rparr>) = contacts_ok t" "contacts_ok (t\<lparr>messages_t := X8\<rparr>) = contacts_ok t"
  "applies_ok n (t\<lparr>users_t := X0\<rparr>) = applies_ok n t" "applies_ok n (t\<lparr>avatars_t := X1\<rparr>) = applies_ok n t"
  "applies_ok n (t\<lparr>friends_t := X3\<rparr>) = applies_ok n t" "applies_ok n (t\<lparr>threads_t := X4\<rparr>) = applies_ok n t"
  "applies_ok n (t\<lparr>privates_t := X5\<rparr>) = applies_ok n t" "applies_ok n (t\<lparr>members_t := X6\<rparr>) = applies_ok n t"
  "applies_ok n (t\<lparr>groups_t := X7\<rparr>) = applies_ok n t" "applies_ok n (t\<lparr>messages_t := X8\<rparr>) = applies_ok n t"
  "threads_ok n (t\<lparr>users_t := X0\<rparr>) = threads_ok n t" "threads_ok n (t\<lparr>avatars_t := X1\<rparr>) = threads_ok n t"
  "threads_ok n (t\<lparr>applies_t := X2\<rparr>) = threads_ok n t" "threads_ok n (t\<lparr>friends_t := X3\<rparr>) = threads_ok n t"
  "threads_ok n (t\<lparr>members_t := X6\<rparr>) = threads_ok n t" "threads_ok n (t\<lparr>groups_t := X7\<rparr>) = threads_ok n t"
  "threads_ok n (t\<lparr>messages_t := X8\<rparr>) = threads_ok n t"
  "groups_inv (t\<lparr>users_t := X0\<rparr>) = groups_inv t" "groups_inv (t\<lparr>avatars_t := X1\<rparr>) = groups_inv t"
  "groups_inv (t\<lparr>applies_t := X2\<rparr>) = groups_inv t" "groups_inv (t\<lparr>friends_t := X3\<rparr>) = groups_inv t"
  "groups_inv (t\<lparr>privates_t := X5\<rparr>) = groups_inv t" "groups_inv (t\<lparr>messages_t := X8\<rparr>) = groups_inv t"
  "messages_ok w n (t\<lparr>users_t := X0\<rparr>) = messages_ok w n t" "messages_ok w n (t\<lparr>avatars_t := X1\<rparr>) = messages_ok w n t"
  "messages_ok w n (t\<lparr>applies_t := X2\<rparr>) = messages_ok w n t" "messages_ok w n (t\<lparr>friends_t := X3\<rparr>) = messages_ok w n t"
  "messages_ok w n (t\<lparr>threads_t := X4\<rparr>) = messages_ok w n t" "messages_ok w n (t\<lparr>members_t := X6\<rparr>) = messages_ok w n t"
  by (simp_all add: users_ok_def contacts_ok_def applies_ok_def threads_ok_def groups_inv_def messages_ok_def belongs_def
      are_friends_def find_private_def has_user_def is_member_def find_group_def member_count_def)

lemma ok_mono:
  assumes "framed_db d d'" "rows d' = rows d" "database_ok d"
  shows "database_ok d'"
proof -
  have "users_ok w n t \<Longrightarrow> n \<le> m \<Longrightarrow> users_ok w m t" "applies_ok n t \<Longrightarrow> n \<le> m \<Longrightarrow> applies_ok m t"
    "threads_ok n t \<Longrightarrow> n \<le> m \<Longrightarrow> threads_ok m t" "messages_ok w n t \<Longrightarrow> n \<le> m \<Longrightarrow> messages_ok w m t" for w n m t
    by (fastforce simp: users_ok_def applies_ok_def threads_ok_def messages_ok_def)+
  then show ?thesis using assms by (auto simp: database_ok_def framed_db_def)
qed

lemma belongs_mono:
  assumes "set (privates_t t) \<subseteq> set (privates_t t')" "gr_thread ` set (groups_t t) \<subseteq> gr_thread ` set (groups_t t')"
    "belongs t i s r"
  shows "belongs t' i s r"
  using assms unfolding belongs_def by blast

lemma messages_ok_cong:
  assumes "messages_ok w n t" "messages_t t' = messages_t t" "set (privates_t t) \<subseteq> set (privates_t t')"
    "gr_thread ` set (groups_t t) \<subseteq> gr_thread ` set (groups_t t')"
  shows "messages_ok w n t'"
  using assms belongs_mono [OF assms(3,4)] by (auto simp: messages_ok_def)

lemma messages_ok_append:
  assumes "messages_ok w n t" "ms_id r = n" "0 < n" "belongs t (ms_thread r) (ms_sender r) (ms_recv r)"
    "ms_unique r \<noteq> [] \<Longrightarrow> \<forall>x\<in>set (messages_t t). ms_unique x \<noteq> [] \<longrightarrow>
       \<not> (ms_thread x = ms_thread r \<and> ms_sender x = ms_sender r \<and> w (ms_unique x) = w (ms_unique r))"
  shows "messages_ok w (n + 1) (t\<lparr>messages_t := messages_t t @ [r]\<rparr>)"
  using assms by (fastforce simp: messages_ok_def sorted_wrt_append belongs_def)

lemma threads_ok_new:
  assumes "threads_ok n t" "0 < n"
  shows "threads_ok (n + 1) (t\<lparr>threads_t := threads_t t @ [(n, kind)]\<rparr>)"
  using assms by (fastforce simp: threads_ok_def)

lemma threads_ok_private:
  assumes "threads_ok n t" "a < b" "find_private t a b = None" "\<forall>r\<in>set (privates_t t). pc_thread r \<noteq> i" "(i, ''private'') \<in> set (threads_t t)"
  shows "threads_ok n (t\<lparr>privates_t := privates_t t @ [\<lparr>pc_thread = i, pc_user1 = a, pc_user2 = b\<rparr>]\<rparr>)"
  using assms by (auto simp: threads_ok_def find_private_def find_None_iff)

lemma find_private_Some:
  assumes "find_private t a b = Some r"
  shows "r \<in> set (privates_t t) \<and> pc_user1 r = a \<and> pc_user2 r = b"
proof -
  obtain i where "i < length (privates_t t)" "pc_user1 (privates_t t ! i) = a \<and> pc_user2 (privates_t t ! i) = b" "r = privates_t t ! i"
    using assms unfolding find_private_def find_Some_iff by blast
  then show ?thesis by simp
qed

lemma find_private_append:
  "find_private (t\<lparr>privates_t := privates_t t @ [p]\<rparr>) a b = (case find_private t a b of Some r \<Rightarrow> Some r
     | None \<Rightarrow> if pc_user1 p = a \<and> pc_user2 p = b then Some p else None)"
proof -
  have "find P (xs @ [x]) = (case find P xs of Some y \<Rightarrow> Some y | None \<Rightarrow> if P x then Some x else None)" for P xs and x :: private_row
    by (induction xs) auto
  then show ?thesis by (simp add: find_private_def)
qed

lemma thread_kind:
  assumes "threads_ok n t" "(i, k) \<in> set (threads_t t)" "(i, k') \<in> set (threads_t t)"
  shows "k = k'"
  using assms by (auto simp: threads_ok_def dest: eq_key_imp_eq_value)

lemma private_not_zero: "threads_ok n t \<Longrightarrow> \<forall>r\<in>set (privates_t t). pc_thread r \<noteq> 0"
  by (force simp: threads_ok_def)

section \<open>Every call keeps the invariant\<close>

text \<open>A call that leaves the rows alone, and a contact transaction whose operation keeps the invariant.\<close>

definition keeps :: "mysql \<Rightarrow> mysql \<Rightarrow> bool" where
  "keeps c c' \<longleftrightarrow> (database_ok (db c) \<longrightarrow> database_ok (db c')) \<and> saved c' = None"

lemma keeps_unchanged: "unchanged_by c c' \<Longrightarrow> keeps c c'"
  unfolding keeps_def unchanged_by_def using ok_mono by blast

lemma keeps_connection:
  assumes "\<And>c1. db c1 = db c \<Longrightarrow> saved c1 = None \<Longrightarrow> keeps c1 (snd (m c1))" "saved c = None"
  shows "keeps c (snd (with_connection x m c))"
proof -
  obtain r c' where r: "with_connection x m c = (r, c')" by force
  then show ?thesis
  proof (cases rule: with_connection_cases)
    case (connected c1)
    then show ?thesis using assms(1) [of c1] assms(2) by (simp add: r keeps_def)
  qed (use assms(2) r in \<open>simp add: keeps_def\<close>)
qed

lemma keeps_contact:
  assumes "framed work" "saved c = None"
    "\<And>c1 x c2. database_ok (db c1) \<Longrightarrow> gives work (begun c1) (True, x) c2 \<Longrightarrow> database_ok (db c2)"
  shows "keeps c (snd (RunContactTransaction work c))"
proof -
  obtain r c' where r: "RunContactTransaction work c = (r, c')" by force
  from r [unfolded RunContactTransaction_def] assms(1,2) show ?thesis
  proof (cases rule: contact_attempts_cases)
    case unchanged
    then show ?thesis using r ok_mono by (auto simp: keeps_def)
  next
    case (committed x c1 c2)
    then show ?thesis using r ok_mono [OF committed(2,1)] assms(3) [OF _ committed(3)] by (auto simp: keeps_def)
  qed
qed

lemma keeps_transaction:
  assumes "framed work" "saved c = None"
    "\<And>c1 x c2. database_ok (db c1) \<Longrightarrow> gives work (begun c1) (True, x) c2 \<Longrightarrow> database_ok (db c2)"
  shows "keeps c (snd (transaction work c))"
proof -
  obtain r c' where r: "transaction work c = (r, c')" by force
  from r assms(1,2) show ?thesis
  proof (cases rule: transaction_cases)
    case unchanged
    then show ?thesis using r ok_mono by (auto simp: keeps_def)
  next
    case (committed x c1 c2)
    then show ?thesis using r assms(3) [OF _ committed(2)] by (auto simp: keeps_def)
  qed
qed

lemma keeps_catch: "snd (sql_catch h m c) = snd (m c)"
  by (simp add: sql_catch_def split: prod.split sum.split)

text \<open>Tables that a call does not touch keep their part.\<close>

lemma ok_applies:
  assumes "database_ok d" "rows d' = (rows d)\<lparr>applies_t := A\<rparr>" "framed_db d d'" "applies_ok (next_apply d') (rows d')"
  shows "database_ok d'"
proof -
  have "database_ok (d'\<lparr>rows := rows d\<rparr>)" by (rule ok_mono [OF _ _ assms(1)]) (use assms(3) in simp_all)
  then show ?thesis using assms(2,4) by (simp add: database_ok_def)
qed

lemma applies_ok_map:
  assumes "applies_ok n t" "n \<le> m" "\<And>r. (ap_from (f r), ap_to (f r), ap_id (f r)) = (ap_from r, ap_to r, ap_id r)"
  shows "applies_ok m (t\<lparr>applies_t := map f (applies_t t)\<rparr>)"
  using assms by (fastforce simp: applies_ok_def comp_def)

lemma ok_upsert:
  assumes "gives (upsert_apply a b x y z) c u c'" "database_ok (db c)"
  shows "database_ok (db c')"
proof -
  note g = gives_statement [OF assms(1) [unfolded upsert_apply_def]]
  have fr: "framed_db (db c) (db c')" using framed_gives [OF framed_contacts(1) assms(1)] by blast
  have ok: "applies_ok (next_apply (db c)) (tbl c)" using assms(2) by (simp add: database_ok_def)
  have "\<exists>A. tbl c' = (tbl c)\<lparr>applies_t := A\<rparr> \<and> applies_ok (next_apply (db c')) (tbl c')"
  proof (cases "find_apply (tbl c) a b = None")
    case True
    then have r: "tbl c' = (tbl c)\<lparr>applies_t := applies_t (tbl c) @ [\<lparr>ap_id = next_apply (db c), ap_from = a, ap_to = b, ap_descs = x,
        ap_back = y, ap_status = 0, ap_tags = Some z\<rparr>]\<rparr>" "next_apply (db c') = next_apply (db c) + 1"
      using g by (simp_all add: Let_def split: if_splits)
    have "applies_ok (next_apply (db c')) (tbl c')"
      using ok True unfolding r applies_ok_def by (fastforce simp: find_apply_def find_None_iff)
    then show ?thesis using r by blast
  next
    case False
    then have r: "tbl c' = (tbl c)\<lparr>applies_t := map (\<lambda>r. if ap_from r = a \<and> ap_to r = b
            then r\<lparr>ap_descs := x, ap_back := y, ap_tags := Some z, ap_status := 0\<rparr> else r) (applies_t (tbl c))\<rparr>"
      "next_apply (db c') = next_apply (db c) + 1"
      using g by (simp_all add: Let_def split: if_splits)
    have "applies_ok (next_apply (db c')) (tbl c')" unfolding r by (rule applies_ok_map [OF ok]) simp_all
    then show ?thesis using r by blast
  qed
  then show ?thesis using ok_applies [OF assms(2) _ fr] by blast
qed

lemma ok_accept:
  assumes "database_ok d"
  shows "database_ok (d\<lparr>rows := (rows d)\<lparr>applies_t := map (accept_row a b) (applies_t (rows d))\<rparr>\<rparr>)"
  by (rule ok_applies [OF assms]) (use assms in \<open>auto simp: database_ok_def intro!: applies_ok_map\<close>)

lemma keeps_AddFriendApply: "saved c = None \<Longrightarrow> keeps c (snd (AddFriendApply a b x y z c))"
proof -
  have "database_ok (db c2)" if "database_ok (db c1)" "gives (apply_operation a b x y z) (begun c1) (True, v) c2" for c1 v c2
    using that unfolding apply_operation_def Let_def
    by (auto split: if_splits prod.splits dest!: gives_LockApplications(2) gives_LockFriends(2) elim!: ok_upsert)
  then have "keeps c (snd (RunContactTransaction (apply_operation a b x y z) c))" if "saved c = None" for c
    using that by (intro keeps_contact framed_rules)
  then show "saved c = None \<Longrightarrow> keeps c (snd (AddFriendApply a b x y z c))"
    by (auto simp: AddFriendApply_def keeps_def split_beta split: option.split intro!: keeps_connection [unfolded keeps_def])
qed

lemma keeps_AuthFriendApply: "saved c = None \<Longrightarrow> keeps c (snd (AuthFriendApply a b c))"
proof -
  have "database_ok (db c2)" if "database_ok (db c1)" "gives (auth_operation a b) (begun c1) (True, v) c2" for c1 v c2
    using that unfolding auth_operation_def Let_def
    by (auto split: if_splits prod.splits dest!: gives_LockApplications(2) gives_accept_apply simp: ok_accept)
  then have "keeps c (snd (RunContactTransaction (auth_operation a b) c))" if "saved c = None" for c
    using that by (intro keeps_contact framed_rules)
  then show "saved c = None \<Longrightarrow> keeps c (snd (AuthFriendApply a b c))"
    by (auto simp: AuthFriendApply_def keeps_def split_beta intro!: keeps_connection [unfolded keeps_def])
qed

text \<open>Becoming friends.\<close>

lemma are_friends_pair:
  "are_friends (t\<lparr>friends_t := friends_t t @ friend_pair t a b back tags\<rparr>) x y \<longleftrightarrow>
     are_friends t x y \<or> (x = a \<and> y = b) \<or> (x = b \<and> y = a)"
  by (auto simp: friend_pair_def)

lemma distinct_pair:
  assumes "distinct (map (\<lambda>r. (fr_self r, fr_friend r)) (friends_t t))" "a \<noteq> b"
  shows "distinct (map (\<lambda>r. (fr_self r, fr_friend r)) (friends_t t @ friend_pair t a b back tags))"
  using assms by (auto simp: friend_pair_def are_friends_def)

lemma groups_inv_threads: "groups_inv t \<Longrightarrow> groups_inv (t\<lparr>threads_t := threads_t t @ T\<rparr>)"
  by (auto simp: groups_inv_def)

text \<open>The thread that a pair has afterwards, and the parts that depend on it.\<close>

lemma ok_private_thread:
  assumes "gives (private_thread a b) c i c'" "a < b" "\<forall>r\<in>set (privates_t (tbl c)). pc_thread r \<noteq> 0"
    "threads_ok (next_thread (db c)) (tbl c)" "groups_inv (tbl c)" "messages_ok w n (tbl c)" "0 < next_thread (db c)"
  shows "threads_ok (next_thread (db c')) (tbl c')" "groups_inv (tbl c')" "messages_ok w n (tbl c')" "0 < next_thread (db c')"
    "\<exists>p\<in>set (privates_t (tbl c')). pc_thread p = i \<and> pc_user1 p = a \<and> pc_user2 p = b" "find_private (tbl c') a b \<noteq> None"
    "\<And>x y. find_private (tbl c) x y \<noteq> None \<Longrightarrow> find_private (tbl c') x y \<noteq> None"
    "\<exists>T P. tbl c' = (tbl c)\<lparr>threads_t := T, privates_t := P\<rparr>"
proof -
  from assms(1,3) have "threads_ok (next_thread (db c')) (tbl c') \<and> groups_inv (tbl c') \<and> messages_ok w n (tbl c') \<and> 0 < next_thread (db c') \<and>
    (\<exists>p\<in>set (privates_t (tbl c')). pc_thread p = i \<and> pc_user1 p = a \<and> pc_user2 p = b) \<and> find_private (tbl c') a b \<noteq> None \<and>
    (\<forall>x y. find_private (tbl c) x y \<noteq> None \<longrightarrow> find_private (tbl c') x y \<noteq> None) \<and> (\<exists>T P. tbl c' = (tbl c)\<lparr>threads_t := T, privates_t := P\<rparr>)"
  proof (cases rule: gives_private_thread)
    case (found r)
    note find_private_Some [OF found(1)]
    moreover have "tbl c = (tbl c)\<lparr>threads_t := threads_t (tbl c), privates_t := privates_t (tbl c)\<rparr>" by simp
    ultimately show ?thesis using found assms(4-7) by (auto intro!: exI [of _ "threads_t (tbl c)"] exI [of _ "privates_t (tbl c)"])
  next
    case created
    let ?t = "(tbl c)\<lparr>threads_t := threads_t (tbl c) @ [(i, ''private'')]\<rparr>" and ?p = "\<lparr>pc_thread = i, pc_user1 = a, pc_user2 = b\<rparr>"
    have t': "tbl c' = ?t\<lparr>privates_t := privates_t ?t @ [?p]\<rparr>" "next_thread (db c') = i + 1" using created(5) by simp_all
    have f: "find_private ?t x y = find_private (tbl c) x y" for x y by (simp add: find_private_def)
    have "threads_ok (i + 1) ?t" using threads_ok_new assms(4,7) created(2) by simp
    then have "threads_ok (next_thread (db c')) (tbl c')"
      unfolding t' by (rule threads_ok_private) (use created(1,6) f assms(2) in simp_all)
    moreover have "groups_inv (tbl c')" unfolding t' using groups_inv_threads [OF assms(5)] by simp
    moreover have "messages_ok w n (tbl c')" unfolding t' by (rule messages_ok_cong [OF assms(6)]) auto
    moreover have "0 < next_thread (db c')" using created(2) assms(7) t'(2) by simp
    moreover have "?p \<in> set (privates_t (tbl c'))" "find_private (tbl c') a b \<noteq> None"
      "\<forall>x y. find_private (tbl c) x y \<noteq> None \<longrightarrow> find_private (tbl c') x y \<noteq> None"
      unfolding t' find_private_append using f by (auto split: option.split)
    ultimately show ?thesis unfolding t' by (auto intro: bexI [of _ ?p])
  qed
  then show "threads_ok (next_thread (db c')) (tbl c')" "groups_inv (tbl c')" "messages_ok w n (tbl c')" "0 < next_thread (db c')"
    "\<exists>p\<in>set (privates_t (tbl c')). pc_thread p = i \<and> pc_user1 p = a \<and> pc_user2 p = b" "find_private (tbl c') a b \<noteq> None"
    "\<And>x y. find_private (tbl c) x y \<noteq> None \<Longrightarrow> find_private (tbl c') x y \<noteq> None"
    "\<exists>T P. tbl c' = (tbl c)\<lparr>threads_t := T, privates_t := P\<rparr>" by blast+
qed

lemma contacts_ok_pair:
  assumes "contacts_ok t" "a \<noteq> b" "0 < a" "0 < b" "has_user t a" "has_user t b" "find_private t' (min a b) (max a b) \<noteq> None"
    "\<And>x y. find_private t x y \<noteq> None \<Longrightarrow> find_private t' x y \<noteq> None" "users_t t' = users_t t"
    "friends_t t' = friends_t t @ friend_pair t a b back tags"
  shows "contacts_ok t'"
proof -
  have ar: "are_friends t' x y \<longleftrightarrow> are_friends t x y \<or> (x = a \<and> y = b) \<or> (x = b \<and> y = a)" for x y
    using are_friends_pair [of t a b "back" tags x y] assms(10) by (simp add: are_friends_def)
  have us: "has_user t' x = has_user t x" for x using assms(9) by (simp add: has_user_def)
  show ?thesis unfolding contacts_ok_def
  proof (intro conjI allI impI)
    show "distinct (map (\<lambda>r. (fr_self r, fr_friend r)) (friends_t t'))"
      unfolding assms(10) by (rule distinct_pair) (use assms(1,2) in \<open>simp_all add: contacts_ok_def\<close>)
  next
    fix x y
    assume "are_friends t' x y"
    then consider (old) "are_friends t x y" | (ab) "x = a" "y = b" | (ba) "x = b" "y = a" using ar by blast
    then have "are_friends t' y x \<and> 0 < x \<and> x \<noteq> y \<and> has_user t' x \<and> find_private t' (min x y) (max x y) \<noteq> None"
    proof cases
      case old
      then show ?thesis using assms(1,8) ar us unfolding contacts_ok_def by blast
    next
      case ab
      then show ?thesis using assms(2-7) ar us by simp
    next
      case ba
      then show ?thesis using assms(2-7) ar us by (simp add: min.commute max.commute)
    qed
    then show "are_friends t' y x" "0 < x" "x \<noteq> y" "has_user t' x" "find_private t' (min x y) (max x y) \<noteq> None" by blast+
  qed
qed

lemma ok_befriend:
  assumes "gives (befriend_operation f g remark tags) c (True, ms) c'" "f \<noteq> g" "0 < f" "0 < g" "database_ok (db c)"
  shows "database_ok (db c')"
  using assms(1,2)
proof (cases rule: gives_befriend)
  case again
  then show ?thesis using ok_accept [OF ok_accept [OF assms(5)], of "max f g" "min f g" "min f g" "max f g"] by (simp add: accept_pair_def)
next
  case (fresh i c1 c2)
  let ?a = "min f g" and ?b = "max f g" and ?inc = "application_of (tbl c) g f"
  note ok = assms(5) [unfolded database_ok_def]
  have fr: "framed_db (db c) (db c')" using framed_gives [OF framed_contact_operations(3) assms(1)] by blast
  have nz: "\<forall>r\<in>set (privates_t (tbl c1)). pc_thread r \<noteq> 0" using private_not_zero [of _ "tbl c"] ok fresh(5) by auto
  have m0: "messages_ok (weight (db c)) (next_message (db c)) (tbl c1)" using ok fresh(5) by simp
  have ab: "?a < ?b" "?a \<noteq> ?b" "0 < ?a" "0 < ?b" using assms(2-4) by auto
  have t0: "threads_ok (next_thread (db c1)) (tbl c1)" "groups_inv (tbl c1)" "0 < next_thread (db c1)" using ok fresh(5) by simp_all
  note pt = ok_private_thread [OF fresh(6) ab(1) nz t0(1,2) m0 t0(3)]
  obtain T P where tp: "tbl c2 = (tbl c1)\<lparr>threads_t := T, privates_t := P\<rparr>" using pt(8) by blast
  have bel: "belongs (tbl c2) i f g" "belongs (tbl c2) i g f"
    using pt(5) assms(2) by (auto simp: belongs_def min.commute max.commute)
  let ?M1 = "if ca_description ?inc = [] then [] else [initial_row i g f (ca_description ?inc) (db c)]"
  let ?n1 = "next_message (db c) + (if ca_description ?inc = [] then 0 else 1)"
  have m1: "messages_ok (weight (db c)) ?n1 ((tbl c2)\<lparr>messages_t := messages_t (tbl c2) @ ?M1\<rparr>)"
  proof (cases "ca_description ?inc = []")
    case False
    have "messages_ok (weight (db c)) (next_message (db c) + 1)
        ((tbl c2)\<lparr>messages_t := messages_t (tbl c2) @ [initial_row i g f (ca_description ?inc) (db c)]\<rparr>)"
      by (rule messages_ok_append [OF pt(3)]) (use ok bel in \<open>simp_all add: initial_row_def\<close>)
    then show ?thesis using False by simp
  qed (use pt(3) in simp)
  have "messages_ok (weight (db c)) (?n1 + 1) (tbl c')"
  proof -
    have "messages_ok (weight (db c)) (?n1 + 1) ((tbl c2)\<lparr>messages_t := messages_t (tbl c2) @ ?M1\<rparr>
       \<lparr>messages_t := messages_t ((tbl c2)\<lparr>messages_t := messages_t (tbl c2) @ ?M1\<rparr>) @
          [initial_row i f g ''We are friends now!'' ((db c)\<lparr>next_message := ?n1\<rparr>)]\<rparr>)"
      by (rule messages_ok_append [OF m1]) (use ok bel in \<open>simp_all add: initial_row_def belongs_def\<close>)
    then show ?thesis using fresh(7) by simp
  qed
  moreover have "?n1 + 1 = next_message (db c')" using fresh(8,10) by simp
  moreover have "0 < next_message (db c')" using fr ok by (simp add: framed_db_def)
  moreover have "weight (db c') = weight (db c)" "next_apply (db c) \<le> next_apply (db c')" "next_user (db c) \<le> next_user (db c')"
    using fr by (simp_all add: framed_db_def)
  moreover have "contacts_ok (tbl c')"
  proof (rule contacts_ok_pair [where t = "tbl c" and a = ?a and b = ?b])
    show "find_private (tbl c') (min ?a ?b) (max ?a ?b) \<noteq> None"
      using pt(6) fresh(7) ab(1) by (simp add: find_private_def)
    show "find_private (tbl c') x y \<noteq> None" if "find_private (tbl c) x y \<noteq> None" for x y
      using pt(7) [of x y] that fresh(5,7) by (simp add: find_private_def)
    show "has_user (tbl c) ?a" "has_user (tbl c) ?b" using fresh(3,4) by (simp_all add: min_def max_def)
  qed (use ok ab fresh(5,7) tp in simp_all)
  moreover have "applies_ok (next_apply (db c')) (tbl c')"
  proof -
    have "applies_ok (next_apply (db c')) ((tbl c)\<lparr>applies_t := accept_pair ?a ?b (applies_t (tbl c))\<rparr>)"
      unfolding accept_pair_def map_map by (rule applies_ok_map) (use ok calculation(5) in simp_all)
    then show ?thesis using fresh(5,7) tp by (simp add: applies_ok_def)
  qed
  moreover have "users_ok (weight (db c')) (next_user (db c')) (tbl c')"
  proof -
    have "users_ok (weight (db c)) (next_user (db c)) (tbl c')" using ok fresh(5,7) tp by simp
    then show ?thesis using calculation(4,6) by (force simp: users_ok_def)
  qed
  moreover have "threads_ok (next_thread (db c')) (tbl c')" "groups_inv (tbl c')" "0 < next_thread (db c')"
    using pt(1,2,4) fresh(7,9) by simp_all
  ultimately show ?thesis using ok by (simp add: database_ok_def)
qed

lemma keeps_AddFriend: "saved c = None \<Longrightarrow> keeps c (snd (AddFriend a b x y c))"
proof (cases "bad_pair a b")
  case False
  assume sv: "saved c = None"
  have "keeps c (snd (RunContactTransaction (befriend_operation a b x y) c))" if "saved c = None" for c
  proof (rule keeps_contact [OF framed_contact_operations(3) that])
    fix c1 v c2
    assume "database_ok (db c1)" "gives (befriend_operation a b x y) (begun c1) (True, v) c2"
    then show "database_ok (db c2)" using ok_befriend [of a b x y "begun c1" v c2] False by (simp add: bad_pair_def)
  qed
  then show ?thesis using sv False
    by (auto simp: AddFriend_def keeps_def split_beta split: option.split intro!: keeps_connection [unfolded keeps_def])
qed (simp add: AddFriend_def keeps_def)

text \<open>The other calls on contacts.\<close>

lemma contacts_ok_remove:
  assumes "contacts_ok t" "t' = t\<lparr>applies_t := A, friends_t := filter (\<lambda>r. \<not> (fr_self r = b \<and> fr_friend r = a))
     (filter (\<lambda>r. \<not> (fr_self r = a \<and> fr_friend r = b)) (friends_t t))\<rparr>"
  shows "contacts_ok t'"
proof -
  have ar: "are_friends t' x y \<longleftrightarrow> are_friends t x y \<and> {x, y} \<noteq> {a, b}" for x y
    unfolding assms(2) are_friends_def by (auto simp: doubleton_eq_iff)
  have "find_private t' = find_private t" "has_user t' = has_user t" by (simp_all add: assms(2) find_private_def has_user_def fun_eq_iff)
  moreover have "distinct (map (\<lambda>r. (fr_self r, fr_friend r)) (friends_t t'))"
    using assms(1) by (simp add: assms(2) contacts_ok_def distinct_map_filter)
  moreover have "are_friends t' y x \<and> 0 < x \<and> x \<noteq> y \<and> has_user t x \<and> find_private t (min x y) (max x y) \<noteq> None"
    if "are_friends t' x y" for x y
  proof -
    have "are_friends t x y" "{y, x} \<noteq> {a, b}" using that ar by (auto simp: insert_commute)
    then show ?thesis using assms(1) ar [of y x] unfolding contacts_ok_def by blast
  qed
  ultimately show ?thesis unfolding contacts_ok_def by simp
qed

lemma keeps_DeleteFriend: "saved c = None \<Longrightarrow> keeps c (snd (DeleteFriend a b c))"
proof -
  have "database_ok (db c2)" if ok: "database_ok (db c1)" and g: "gives (delete_operation a b) (begun c1) (True, v) c2" for c1 v c2
  proof -
    let ?a = "min a b" and ?b = "max a b"
    from g obtain e1 e2 u1 e3 u2 e4 u3 e5 u4 where s: "db e2 = db c1" "gives (delete_apply ?a ?b) e2 u1 e3" "gives (delete_apply ?b ?a) e3 u2 e4"
      "gives (delete_friend ?a ?b) e4 u3 e5" "gives (delete_friend ?b ?a) e5 u4 c2"
      unfolding delete_operation_def Let_def by (auto dest!: gives_LockApplications(2) gives_LockFriends(2))
    note d = gives_statement [OF s(2) [unfolded delete_apply_def]] gives_statement [OF s(3) [unfolded delete_apply_def]]
      gives_statement [OF s(4) [unfolded delete_friend_def]] gives_statement [OF s(5) [unfolded delete_friend_def]]
    let ?A = "filter (\<lambda>r. \<not> (ap_from r = ?b \<and> ap_to r = ?a)) (filter (\<lambda>r. \<not> (ap_from r = ?a \<and> ap_to r = ?b)) (applies_t (tbl c1)))"
    let ?F = "filter (\<lambda>r. \<not> (fr_self r = ?b \<and> fr_friend r = ?a)) (filter (\<lambda>r. \<not> (fr_self r = ?a \<and> fr_friend r = ?b)) (friends_t (tbl c1)))"
    have c2: "db c2 = (db c1)\<lparr>rows := (tbl c1)\<lparr>applies_t := ?A, friends_t := ?F\<rparr>\<rparr>"
      using d s(1) by (simp del: filter_filter de_Morgan_conj)
    have "contacts_ok (tbl c2)" by (rule contacts_ok_remove [of "tbl c1"]) (use ok c2 in \<open>simp_all add: database_ok_def del: filter_filter de_Morgan_conj\<close>)
    moreover have "applies_ok (next_apply (db c1)) ((tbl c1)\<lparr>applies_t := ?A\<rparr>)"
      using ok by (auto simp: database_ok_def applies_ok_def distinct_map_filter)
    ultimately show ?thesis using ok c2 by (simp add: database_ok_def applies_ok_def del: filter_filter de_Morgan_conj)
  qed
  then have "keeps c (snd (RunContactTransaction (delete_operation a b) c))" if "saved c = None" for c
    using that by (intro keeps_contact framed_rules)
  then show "saved c = None \<Longrightarrow> keeps c (snd (DeleteFriend a b c))"
    by (auto simp: DeleteFriend_def keeps_def split_beta intro!: keeps_connection [unfolded keeps_def])
qed

lemma contacts_ok_map:
  assumes "contacts_ok t" "\<And>r. (fr_self (f r), fr_friend (f r)) = (fr_self r, fr_friend r)"
  shows "contacts_ok (t\<lparr>friends_t := map f (friends_t t)\<rparr>)"
proof -
  have "are_friends (t\<lparr>friends_t := map f (friends_t t)\<rparr>) = are_friends t"
    using assms(2) by (auto simp: are_friends_def fun_eq_iff)
  then show ?thesis using assms by (simp add: contacts_ok_def comp_def)
qed

lemma keeps_SetContactTags: "saved c = None \<Longrightarrow> keeps c (snd (SetContactTags a b tags remark c))"
proof -
  let ?work = "sql_bind (select (\<lambda>d. are_friends (rows d) a b)) (\<lambda>found.
       if \<not> found then sql_return (False, FriendNotFound)
       else sql_then (update_friend a b tags remark) (sql_return (True, Success)))"
  have "database_ok (db c2)" if ok: "database_ok (db c1)" and g: "gives ?work (begun c1) (True, v) c2" for c1 v c2
  proof -
    from g obtain e u where e: "db e = db c1" "gives (update_friend a b tags remark) e u c2"
      by (auto dest!: gives_select split: if_splits)
    note d = gives_statement [OF e(2) [unfolded update_friend_def]]
    show ?thesis using ok d e(1) by (simp add: database_ok_def contacts_ok_map)
  qed
  then have "keeps c (snd (transaction ?work c))" if "saved c = None" for c
    using that by (intro keeps_transaction framed_rules)
  then show "saved c = None \<Longrightarrow> keeps c (snd (SetContactTags a b tags remark c))"
    by (auto simp: SetContactTags_def keeps_catch intro!: keeps_connection) (simp add: keeps_def)
qed

text \<open>Threads and messages.\<close>

lemma keeps_CreatePrivateChat: "saved c = None \<Longrightarrow> keeps c (snd (CreatePrivateChat a b c))"
proof (cases "bad_pair a b")
  case False
  assume sv: "saved c = None"
  have "database_ok (db c2)" if ok: "database_ok (db c1)" and g: "gives (create_operation a b) (begun c1) (True, v) c2" for c1 v c2
    using g
  proof (cases rule: gives_create)
    case (created i)
    let ?t = "(tbl c1)\<lparr>threads_t := threads_t (tbl c1) @ [(i, ''private'')]\<rparr>" and ?p = "\<lparr>pc_thread = i, pc_user1 = min a b, pc_user2 = max a b\<rparr>"
    note ok = ok [unfolded database_ok_def]
    have t: "tbl c2 = ?t\<lparr>privates_t := privates_t ?t @ [?p]\<rparr>" "next_thread (db c2) = i + 1" using created(7) by simp_all
    have i: "i = next_thread (db c1)" "0 < i" using created(3) ok by simp_all
    have "threads_ok (i + 1) ?t" using threads_ok_new [of i "tbl c1"] ok i by simp
    then have "threads_ok (i + 1) (tbl c2)"
      unfolding t by (rule threads_ok_private) (use False created(1,8) in \<open>auto simp: bad_pair_def find_private_def\<close>)
    moreover have "groups_inv (tbl c2)" unfolding t using groups_inv_threads ok by simp
    moreover have "messages_ok (weight (db c1)) (next_message (db c1)) (tbl c2)"
      unfolding t by (rule messages_ok_cong [of _ _ "tbl c1"]) (use ok in auto)
    moreover have "contacts_ok (tbl c2)"
    proof -
      have "find_private (tbl c2) x y \<noteq> None" if "find_private (tbl c1) x y \<noteq> None" for x y
        unfolding t find_private_append using that by (auto simp: find_private_def split: option.split)
      moreover have "are_friends (tbl c2) = are_friends (tbl c1)" "has_user (tbl c2) = has_user (tbl c1)" "friends_t (tbl c2) = friends_t (tbl c1)"
        by (simp_all add: t are_friends_def has_user_def fun_eq_iff)
      ultimately show ?thesis using ok unfolding contacts_ok_def by metis
    qed
    ultimately show ?thesis using ok created(7) i t by (simp add: database_ok_def)
  qed (use ok in simp)
  then have "keeps c (snd (transaction (create_operation a b) c))" if "saved c = None" for c
    using that by (intro keeps_transaction framed_rules)
  then show ?thesis using sv False by (auto simp: CreatePrivateChat_def keeps_catch intro!: keeps_connection)
qed (simp add: CreatePrivateChat_def keeps_def)

lemma ok_messages:
  assumes "database_ok d" "framed_db d d'" "rows d' = (rows d)\<lparr>messages_t := M\<rparr>" "messages_ok (weight d) (next_message d') (rows d')"
  shows "database_ok d'"
proof -
  have "database_ok (d'\<lparr>rows := rows d\<rparr>)" by (rule ok_mono [OF _ _ assms(1)]) (use assms(2) in simp_all)
  then show ?thesis using assms(2-4) by (simp add: database_ok_def framed_db_def)
qed

lemma store_messages_ok:
  assumes "gives (store_messages ms) c (True, stored) c'" "messages_ok (weight (db c)) (next_message (db c)) (tbl c)" "0 < next_message (db c)"
    "\<forall>m\<in>set ms. belongs (tbl c) (cm_thread_id m) (cm_sender_id m) (cm_recv_id m)"
  shows "messages_ok (weight (db c)) (next_message (db c')) (tbl c')"
  using assms
proof (induction ms arbitrary: c stored)
  case (Cons m ms)
  from Cons.prems(1) obtain m' rest c1 r where s: "gives (store_messages ms) c1 (True, rest) c'" and
    ch: "db c1 = db c \<or> (find_message (db c) m = None \<and> has_thread (tbl c) (cm_thread_id m) \<and>
       \<not> duplicate_message (db c) r \<and> (\<exists>created. r = chat_row m created (next_message (db c))) \<and>
       db c1 = (db c)\<lparr>next_message := next_message (db c) + 1, rows := (tbl c)\<lparr>messages_t := messages_t (tbl c) @ [r]\<rparr>,
         last_insert_id := next_message (db c)\<rparr>)"
    by (rule store_step)
  have st: "messages_ok (weight (db c1)) (next_message (db c1)) (tbl c1) \<and> 0 < next_message (db c1) \<and> weight (db c1) = weight (db c) \<and>
    (\<forall>i s r. belongs (tbl c1) i s r = belongs (tbl c) i s r)"
  proof (cases "db c1 = db c")
    case False
    with ch obtain created where r: "r = chat_row m created (next_message (db c))" "\<not> duplicate_message (db c) r"
      and d: "db c1 = (db c)\<lparr>next_message := next_message (db c) + 1, rows := (tbl c)\<lparr>messages_t := messages_t (tbl c) @ [r]\<rparr>,
         last_insert_id := next_message (db c)\<rparr>" by auto
    have "messages_ok (weight (db c)) (next_message (db c) + 1) ((tbl c)\<lparr>messages_t := messages_t (tbl c) @ [r]\<rparr>)"
      by (rule messages_ok_append [OF Cons.prems(2)])
        (use Cons.prems(3,4) r in \<open>auto simp: chat_row_def duplicate_message_def same_key_def\<close>)
    then show ?thesis using d Cons.prems(3) by (simp add: belongs_def)
  qed (use Cons.prems in simp)
  have "messages_ok (weight (db c1)) (next_message (db c')) (tbl c')"
    by (rule Cons.IH [OF s]) (use st Cons.prems(4) in auto)
  then show ?case using st by simp
qed simp

lemma keeps_AddChatMsg: "saved c = None \<Longrightarrow> keeps c (snd (AddChatMsg batch c))"
proof (cases "batch \<noteq> [] \<and> valid_batch batch")
  case True
  assume sv: "saved c = None"
  let ?ms = "map the batch"
  have "database_ok (db c2)" if ok: "database_ok (db c1)" and g: "gives (add_operation ?ms) (begun c1) (True, v) c2" for c1 v c2
  proof -
    from g obtain b e stored where b: "gives (may_send (hd ?ms)) (begun c1) b e" "b" and st: "gives (store_messages ?ms) e (True, stored) c2"
      unfolding add_operation_def by (auto split: if_splits)
    have e: "db e = db c1" "allowed (tbl c1) (hd ?ms)" using gives_may_send [OF b(1)] b(2) by simp_all
    from True obtain first rest where "batch = Some first # rest" by (auto simp: valid_batch_def split: list.splits option.splits)
    with True have same: "m \<in> set ?ms \<Longrightarrow> cm_thread_id m = cm_thread_id (hd ?ms) \<and> cm_sender_id m = cm_sender_id (hd ?ms) \<and>
        cm_recv_id m = cm_recv_id (hd ?ms)" for m
      by (auto simp: valid_batch_def list_all_iff split: option.splits)
    have "belongs (tbl c1) (cm_thread_id (hd ?ms)) (cm_sender_id (hd ?ms)) (cm_recv_id (hd ?ms))"
      using e(2) by (auto simp: allowed_def belongs_def dest!: find_group_Some intro!: rev_image_eqI split: if_splits)
    then have bel: "\<forall>m\<in>set ?ms. belongs (tbl e) (cm_thread_id m) (cm_sender_id m) (cm_recv_id m)" using same e(1) by metis
    have "messages_ok (weight (db c1)) (next_message (db c2)) (tbl c2)"
      using store_messages_ok [OF st _ _ bel] ok e(1) by (simp add: database_ok_def)
    moreover obtain M where "tbl c2 = (tbl c1)\<lparr>messages_t := M\<rparr>" using gives_store [OF st] e(1) by auto
    moreover have "framed_db (db c1) (db c2)" using framed_gives [OF framed_add_operation g] by simp
    ultimately show ?thesis using ok_messages [OF ok] by blast
  qed
  then have "keeps c (snd (transaction (add_operation ?ms) c))" if "saved c = None" for c
    using that by (intro keeps_transaction framed_rules)
  then show ?thesis using sv True by (auto simp: AddChatMsg_def keeps_catch intro!: keeps_connection)
next
  case False
  assume "saved c = None"
  then show ?thesis using False by (auto simp: AddChatMsg_def intro!: keeps_connection) (simp_all add: keeps_def)
qed

text \<open>Groups.\<close>

lemma ok_apply_update:
  assumes "database_ok d" "find_group (rows d) i = Some g" "update_permitted (rows d) i uid op request g"
  shows "database_ok (d\<lparr>rows := apply_update i (update_of (rows d) i uid op request) (rows d)\<rparr>)"
proof -
  let ?t' = "apply_update i (update_of (rows d) i uid op request) (rows d)"
  note ok = assms(1) [unfolded database_ok_def]
  have t': "?t' = (rows d)\<lparr>groups_t := groups_t ?t', members_t := members_t ?t'\<rparr>"
    by (cases "update_of (rows d) i uid op request") (simp_all add: apply_update_def)
  have "map gr_thread (groups_t ?t') = map gr_thread (groups_t (rows d))"
    by (cases "update_of (rows d) i uid op request") (simp_all add: apply_update_def comp_def if_distrib cong: if_cong)
  then have "gr_thread ` set (groups_t ?t') = gr_thread ` set (groups_t (rows d))" by (metis set_map)
  note t' = t' this
  have "messages_ok (weight d) (next_message d) ?t'"
    by (subst t'(1), rule messages_ok_cong [of _ _ "rows d"]) (use ok t'(2) in auto)
  moreover have "users_ok w n ?t' = users_ok w n (rows d)" "contacts_ok ?t' = contacts_ok (rows d)" "applies_ok n ?t' = applies_ok n (rows d)"
    "threads_ok n ?t' = threads_ok n (rows d)" for w n
    by (subst t'(1), simp)+
  ultimately show ?thesis using ok groups_inv_update [OF _ assms(2,3)] by (simp add: database_ok_def)
qed

lemma ok_change:
  assumes "database_ok (db c)" "gives (change_operation J uid op request doc) c (True, y) c'"
  shows "database_ok (db c')"
proof -
  from assms(2) obtain th c1 where r: "gives (if op = ''create'' then CreateGroup J uid request else UpdateGroup uid op request) c (Success, th) c1"
    and d: "db c' = db c1"
    unfolding change_operation_def by (auto split: if_splits dest!: gives_ReadGroup)
  note ok = assms(1) [unfolded database_ok_def]
  have fr: "framed_db (db c) (db c1)"
    using framed_gives [OF framed_if [OF framed_CreateGroup framed_UpdateGroup] r] by blast
  have mono: "database_ok ((db c1)\<lparr>rows := tbl c\<rparr>)" by (rule ok_mono [OF _ _ assms(1)]) (use fr in simp_all)
  have "database_ok (db c1)"
  proof (cases "op = ''create''")
    case True
    with r have "gives (CreateGroup J uid request) c (Success, th) c1" by simp
    then show ?thesis
    proof (cases rule: gives_CreateGroup)
      case created
      let ?ids = "member_ids uid (index request ''members'')"
      have "length ?ids \<le> 32" using created(1) by (simp add: creation_valid_def)
      then have "groups_inv (tbl c1)"
        using group_created(1) [OF _ created(5) member_ids_set(2) _ _ created(6)] ok by simp
      moreover have "threads_ok (th + 1) (tbl c1)"
        using threads_ok_new [of th "tbl c" "''group''"] ok created(2,6) by simp
      moreover have "messages_ok (weight (db c)) (next_message (db c1)) (tbl c1)"
        using messages_ok_cong [of "weight (db c)" "next_message (db c)" "tbl c" "tbl c1"] ok created(6,8) by auto
      ultimately show ?thesis using mono created(6,7) fr by (simp add: database_ok_def framed_db_def)
    qed (use assms(1) in simp)
  next
    case False
    with r have "gives (UpdateGroup uid op request) c (Success, th) c1" by simp
    then obtain g where g: "find_group (tbl c) th = Some g" "update_permitted (tbl c) th uid op request g"
      "tbl c1 = apply_update th (update_of (tbl c) th uid op request) (tbl c)"
      by (rule gives_UpdateGroup) blast
    show ?thesis using ok_apply_update [OF mono, of th g uid op request] g(1,2) by (simp flip: g(3))
  qed
  then show ?thesis using d by simp
qed

lemma keeps_ChangeGroup: "saved c = None \<Longrightarrow> keeps c (snd (ChangeGroup J uid request doc c))"
proof -
  assume sv: "saved c = None"
  have "keeps c (snd (catch_out doc (change_operation J uid op request doc) c))" if "saved c = None" for c op
    unfolding catch_out_snd
  proof (rule keeps_transaction [OF framed_change that])
    show "database_ok (db c1) \<Longrightarrow> gives (change_operation J uid op request doc) (begun c1) (True, x) c2 \<Longrightarrow> database_ok (db c2)" for c1 x c2
      using ok_change [of "begun c1"] by simp
  qed
  then show ?thesis using sv
    by (auto simp: ChangeGroup_def Let_def intro!: keeps_connection keeps_unchanged [OF GetGroup_reads] keeps_unchanged [OF CommonGroups_reads])
      (simp_all add: keeps_def)
qed

text \<open>Accounts.\<close>

lemma ok_users:
  assumes "database_ok d" "framed_db d d'" "rows d' = (rows d)\<lparr>users_t := U, avatars_t := V\<rparr>"
    "users_ok (weight d) (next_user d') (rows d')" "u_id ` set (users_t (rows d)) \<subseteq> u_id ` set U"
  shows "database_ok d'"
proof -
  have "database_ok (d'\<lparr>rows := rows d\<rparr>)" by (rule ok_mono [OF _ _ assms(1)]) (use assms(2) in simp_all)
  moreover have "contacts_ok (rows d')"
  proof -
    have "are_friends (rows d') = are_friends (rows d)" "find_private (rows d') = find_private (rows d)" "friends_t (rows d') = friends_t (rows d)"
      by (simp_all add: assms(3) are_friends_def find_private_def fun_eq_iff)
    moreover have "has_user (rows d) x \<Longrightarrow> has_user (rows d') x" for x using assms(5) by (auto simp: has_user_def assms(3))
    ultimately show ?thesis using assms(1) unfolding database_ok_def contacts_ok_def by metis
  qed
  ultimately show ?thesis using assms(2-4) by (simp add: database_ok_def framed_db_def)
qed

lemma keeps_statement:
  assumes "saved c = None" "\<And>d. database_ok d \<Longrightarrow> database_ok (snd (f d))"
  shows "keeps c (snd (statement f c))"
  using assms by (auto simp: keeps_def statement_def split: prod.splits fault.splits dest!: next_fault_eq)

lemma keeps_bind:
  assumes "saved c = None \<Longrightarrow> keeps c (snd (m c))" "\<And>x c. saved c = None \<Longrightarrow> keeps c (snd (g x c))" "saved c = None"
  shows "keeps c (snd (sql_bind m g c))"
  using assms by (auto simp: keeps_def sql_bind_def split: prod.split sum.split)

lemma keeps_reading: "reading m \<Longrightarrow> saved c = None \<Longrightarrow> keeps c (snd (m c))"
  by (auto simp: reading_def keeps_def)

lemma ok_add_user:
  assumes "database_ok d"
  shows "database_ok (snd (add_user_row name email h s n d))" (is "database_ok (snd ?r)")
proof (cases "duplicate_user d name email")
  case True
  then show ?thesis using ok_mono [OF _ _ assms, of "d\<lparr>next_user := next_user d + 1\<rparr>"] by (simp add: add_user_row_def Let_def)
next
  case False
  show ?thesis
  proof (rule ok_users [OF assms])
    show "rows (snd ?r) = (rows d)\<lparr>users_t := users_t (rows d) @ [\<lparr>u_id = next_user d, u_username = name, u_email = email, u_nick = [],
        u_desc = [], u_sex = 0, u_icon = [], u_hash = h, u_salt = s, u_iterations = n\<rparr>], avatars_t := avatars_t (rows d)\<rparr>"
      using False by (simp add: add_user_row_def Let_def)
    show "users_ok (weight d) (next_user (snd ?r)) (rows (snd ?r))"
      using assms False by (fastforce simp: add_user_row_def Let_def database_ok_def users_ok_def duplicate_user_def)
  qed (use False in \<open>auto simp: add_user_row_def Let_def\<close>)
qed

lemma keeps_RegUser: "saved c = None \<Longrightarrow> keeps c (snd (RegUser ssl salt name email password c))"
proof -
  assume sv: "saved c = None"
  have "keeps c (snd (sql_then (insert_user name email h s n) (select last_insert_id) c))" if "saved c = None" for c h s n
    unfolding insert_user_def
    by (rule keeps_bind [OF keeps_statement keeps_reading [OF reading_select]]) (use that ok_add_user in auto)
  then show ?thesis using sv
    by (auto simp: RegUser_def keeps_catch split: option.split intro!: keeps_connection) (simp_all add: keeps_def)
qed

lemma users_ok_map:
  assumes "users_ok w n t" "\<And>u. u_id (f u) = u_id u" "\<And>u. u_username (f u) = u_username u" "\<And>u. u_email (f u) = u_email u"
  shows "users_ok w n (t\<lparr>users_t := map f (users_t t)\<rparr>)"
  using assms by (simp add: users_ok_def comp_def)

lemma keeps_UpdatePwd: "saved c = None \<Longrightarrow> keeps c (snd (UpdatePwd ssl salt name password c))"
proof -
  assume sv: "saved c = None"
  have upd: "database_ok (d\<lparr>rows := (rows d)\<lparr>users_t := map (set_password d name h s) (users_t (rows d))\<rparr>\<rparr>)" if ok: "database_ok d" for d h s
  proof (rule ok_users [OF ok])
    show "users_ok (weight d) (next_user (d\<lparr>rows := (rows d)\<lparr>users_t := map (set_password d name h s) (users_t (rows d))\<rparr>\<rparr>))
        (rows (d\<lparr>rows := (rows d)\<lparr>users_t := map (set_password d name h s) (users_t (rows d))\<rparr>\<rparr>))"
      using users_ok_map [of "weight d" "next_user d" "rows d" "set_password d name h s"] ok by (simp add: database_ok_def)
    show "rows (d\<lparr>rows := (rows d)\<lparr>users_t := map (set_password d name h s) (users_t (rows d))\<rparr>\<rparr>) =
      (rows d)\<lparr>users_t := map (set_password d name h s) (users_t (rows d)), avatars_t := avatars_t (rows d)\<rparr>" by simp
  qed (simp_all add: image_image)
  have "keeps c (snd (sql_bind (update_password name h s) (\<lambda>n. sql_return (n = 1)) c))" if "saved c = None" for c h s
    unfolding update_password_def Let_def
    by (rule keeps_bind [OF keeps_statement keeps_reading [OF reading_return]]) (use that upd in auto)
  then show ?thesis using sv
    by (auto simp: UpdatePwd_def keeps_catch split: option.split intro!: keeps_connection) (simp_all add: keeps_def)
qed

lemma ok_update_profile:
  assumes "gives (update_profile uid name nick desc) c u c'" "database_ok (db c)"
  shows "database_ok (db c')"
proof -
  let ?f = "set_profile uid name nick desc" and ?w = "weight (db c)" and ?us = "users_t (tbl c)"
  note g = gives_statement [OF assms(1) [unfolded update_profile_def]]
  have d: "db c' = (db c)\<lparr>rows := (tbl c)\<lparr>users_t := map ?f ?us, avatars_t := avatars_t (tbl c)\<rparr>\<rparr>" and free: "\<not> name_taken (db c) uid name"
    using g by (simp_all split: if_splits)
  note ok = assms(2) [unfolded database_ok_def, THEN conjunct1, unfolded users_ok_def]
  have "x = y" if "x \<in> set ?us" "y \<in> set ?us" "?w (u_username (?f x)) = ?w (u_username (?f y))" for x y
  proof -
    have inj: "u_id x = u_id y \<Longrightarrow> x = y" "?w (u_username x) = ?w (u_username y) \<Longrightarrow> x = y"
      using ok that(1,2) by (auto simp: distinct_map inj_on_def)
    have no: "z \<in> set ?us \<Longrightarrow> u_id z = uid \<Longrightarrow> v \<in> set ?us \<Longrightarrow> u_id v \<noteq> uid \<Longrightarrow> ?w (u_username v) \<noteq> ?w name" for z v
      using free by (auto simp: name_taken_def has_user_def)
    show ?thesis using that inj no [of x y] no [of y x] by (auto split: if_splits)
  qed
  then have "inj_on (\<lambda>u. ?w (u_username (?f u))) (set ?us)" by (rule inj_onI)
  then have "users_ok ?w (next_user (db c)) ((tbl c)\<lparr>users_t := map ?f ?us\<rparr>)"
    using ok by (simp add: users_ok_def comp_def distinct_map)
  then show ?thesis
    by (intro ok_users [OF assms(2), where U = "map ?f ?us" and V = "avatars_t (tbl c)"]) (simp_all add: d image_image)
qed

lemma keeps_UpdateProfile: "saved c = None \<Longrightarrow> keeps c (snd (UpdateProfile uid name nick desc avatar has c))"
proof -
  assume sv: "saved c = None"
  let ?work = "sql_then (update_profile uid name nick desc) (sql_then (sql_when has (upsert_avatar uid avatar)) (sql_return (True, Success)))"
  have fr: "framed ?work"
    by (intro framed_rules) (auto simp: update_profile_def upsert_avatar_def Let_def intro!: framed_statement)
  have "database_ok (db c2)" if ok: "database_ok (db c1)" and g: "gives ?work (begun c1) (True, v) c2" for c1 v c2
  proof -
    from g obtain u e w where s: "gives (update_profile uid name nick desc) (begun c1) u e" "gives (sql_when has (upsert_avatar uid avatar)) e w c2" by auto
    have e: "database_ok (db e)" using ok_update_profile [OF s(1)] ok by simp
    show ?thesis
    proof (cases has)
      case True
      then have "gives (upsert_avatar uid avatar) e w c2" using s(2) by (simp add: gives_when)
      note d = gives_statement [OF this [unfolded upsert_avatar_def]]
      show ?thesis using d e by (auto simp: Let_def database_ok_def split: if_splits)
    qed (use s(2) e in \<open>simp add: gives_when\<close>)
  qed
  then have "keeps c (snd (transaction ?work c))" if "saved c = None" for c
    using that by (intro keeps_transaction fr)
  then show ?thesis using sv by (auto simp: UpdateProfile_def keeps_catch intro!: keeps_connection) (simp add: keeps_def)
qed

section \<open>Histories\<close>

text \<open>
  A step of the database: any call that writes, with any arguments and faults, or time passing. The readers
  change nothing. Initially the tables are empty, as after the schema is created.
\<close>

inductive db_step :: "jsoncpp \<Rightarrow> openssl \<Rightarrow> mysql \<Rightarrow> mysql \<Rightarrow> bool" for J ssl where
  asking: "db_step J ssl c (snd (AddFriendApply a b x y z (c\<lparr>faults := fs\<rparr>)))"
| auth: "db_step J ssl c (snd (AuthFriendApply a b (c\<lparr>faults := fs\<rparr>)))"
| befriend: "db_step J ssl c (snd (AddFriend a b x y (c\<lparr>faults := fs\<rparr>)))"
| unfriend: "db_step J ssl c (snd (DeleteFriend a b (c\<lparr>faults := fs\<rparr>)))"
| tag: "db_step J ssl c (snd (SetContactTags a b tags remark (c\<lparr>faults := fs\<rparr>)))"
| new_thread: "db_step J ssl c (snd (CreatePrivateChat a b (c\<lparr>faults := fs\<rparr>)))"
| send: "db_step J ssl c (snd (AddChatMsg batch (c\<lparr>faults := fs\<rparr>)))"
| change: "db_step J ssl c (snd (ChangeGroup J uid request doc (c\<lparr>faults := fs\<rparr>)))"
| register: "db_step J ssl c (snd (RegUser ssl salt name email password (c\<lparr>faults := fs\<rparr>)))"
| password: "db_step J ssl c (snd (UpdatePwd ssl salt name password (c\<lparr>faults := fs\<rparr>)))"
| profile: "db_step J ssl c (snd (UpdateProfile uid name nick desc avatar has (c\<lparr>faults := fs\<rparr>)))"
| time: "db_step J ssl c (c\<lparr>db := (db c)\<lparr>now_text := now\<rparr>\<rparr>)"

definition no_tables :: tables where
  "no_tables = \<lparr>users_t = [], avatars_t = [], applies_t = [], friends_t = [], threads_t = [], privates_t = [], members_t = [],
     groups_t = [], messages_t = []\<rparr>"

definition fresh_database :: "mysql \<Rightarrow> bool" where
  "fresh_database c \<longleftrightarrow> tbl c = no_tables \<and> saved c = None \<and> next_user (db c) = 1 \<and> next_apply (db c) = 1 \<and> next_thread (db c) = 1 \<and>
     next_message (db c) = 1"

definition storage_inv :: "mysql \<Rightarrow> bool" where
  "storage_inv c \<longleftrightarrow> saved c = None \<and> database_ok (db c)"

lemmas keeps_calls = keeps_AddFriendApply keeps_AuthFriendApply keeps_AddFriend keeps_DeleteFriend keeps_SetContactTags
  keeps_CreatePrivateChat keeps_AddChatMsg keeps_ChangeGroup keeps_RegUser keeps_UpdatePwd keeps_UpdateProfile

lemma keeps_inv: "keeps (c\<lparr>faults := fs\<rparr>) c' \<Longrightarrow> storage_inv c \<Longrightarrow> storage_inv c'"
  by (simp add: keeps_def storage_inv_def)

interpretation storage: invariant_system fresh_database "db_step J ssl" storage_inv for J ssl
proof (unfold_locales, goal_cases)
  case (1 c)
  then show ?case
    by (simp add: fresh_database_def storage_inv_def database_ok_def users_ok_def contacts_ok_def applies_ok_def threads_ok_def
        groups_inv_def messages_ok_def no_tables_def are_friends_def is_member_def member_count_def)
next
  case (2 c c')
  have sv: "saved (c\<lparr>faults := fs\<rparr>) = None" for fs using 2(2) by (simp add: storage_inv_def)
  note k = keeps_inv [OF _ 2(2)]
  from 2(1) show ?case
  proof cases
    case (time now)
    have "database_ok ((db c)\<lparr>now_text := now\<rparr>) = database_ok (db c)" by (simp add: database_ok_def)
    then show ?thesis using time 2(2) by (simp add: storage_inv_def)
  qed (simp_all only:, (rule k, rule keeps_calls, rule sv)+)
qed

section \<open>A database with two friends and a group\<close>

definition demo_ssl :: openssl where
  "demo_ssl = \<lparr>PBKDF2 = (\<lambda>p s i n. Some (map (\<lambda>k. word_of_nat (length p + k)) [0..<n]))\<rparr>"

definition demo_json :: jsoncpp where
  "demo_json = \<lparr>parse = (\<lambda>t. (False, JNull)), toStyledString = (\<lambda>v. []), writeString = (\<lambda>v. []), realToString = (\<lambda>r. [])\<rparr>"

definition empty_db :: mysql where
  "empty_db = \<lparr>db = \<lparr>rows = no_tables, next_user = 1, next_apply = 1, next_thread = 1, next_message = 1, last_insert_id = 0,
     weight = (\<lambda>s. s), stored_datetime = Some, now_text = ''2026-01-01 00:00:00''\<rparr>, saved = None, faults = []\<rparr>"

definition user_of :: "int \<Rightarrow> string \<Rightarrow> string \<Rightarrow> user_row" where
  "user_of i name email = \<lparr>u_id = i, u_username = name, u_email = email, u_nick = [], u_desc = [], u_sex = 0, u_icon = [],
     u_hash = BytesToHex (map (\<lambda>k. word_of_nat (length name + k)) [0..<32]), u_salt = BytesToHex (replicate 16 7), u_iterations = 120000\<rparr>"

definition db1 :: mysql where "db1 = snd (RegUser demo_ssl (Some (replicate 16 7)) ''ann'' ''a'' ''ann'' empty_db)"
definition db2 :: mysql where "db2 = snd (RegUser demo_ssl (Some (replicate 16 7)) ''bob'' ''b'' ''bob'' db1)"
definition db3 :: mysql where "db3 = snd (AddFriendApply 2 1 ''hi'' ''Ann'' ''[]'' db2)"
definition db4 :: mysql where "db4 = snd (AddFriend 1 2 ''Bob'' ''[]'' db3)"

lemma db1_eq: "db1 = empty_db\<lparr>db := (db empty_db)\<lparr>rows := no_tables\<lparr>users_t := [user_of 1 ''ann'' ''a'']\<rparr>, next_user := 2, last_insert_id := 1\<rparr>\<rparr>"
  by (simp add: db1_def RegUser_def HashPassword_def demo_ssl_def int_max_def empty_db_def sql_catch_def sql_bind_def insert_user_def
      add_user_row_def duplicate_user_def no_tables_def user_of_def kPasswordIterations_def kPasswordHashSize_def Let_def)

lemma db2_eq: "db2 = empty_db\<lparr>db := (db empty_db)\<lparr>rows := no_tables\<lparr>users_t := [user_of 1 ''ann'' ''a'', user_of 2 ''bob'' ''b'']\<rparr>,
    next_user := 3, last_insert_id := 2\<rparr>\<rparr>"
  by (simp add: db2_def db1_eq RegUser_def HashPassword_def demo_ssl_def int_max_def empty_db_def sql_catch_def sql_bind_def insert_user_def
      add_user_row_def duplicate_user_def no_tables_def user_of_def kPasswordIterations_def kPasswordHashSize_def Let_def)

lemma db3_eq: "db3 = db2\<lparr>db := (db db2)\<lparr>rows := (tbl db2)\<lparr>applies_t := [\<lparr>ap_id = 1, ap_from = 2, ap_to = 1, ap_descs = ''hi'', ap_back = ''Ann'',
    ap_status = 0, ap_tags = Some ''[]''\<rparr>]\<rparr>, next_apply := 2, last_insert_id := 1\<rparr>\<rparr>"
  by (simp add: db3_def db2_eq AddFriendApply_def bad_pair_def RunContactTransaction_def eval_nat_numeral empty_db_def begun_def apply_operation_def
      LockApplications_def LockFriends_def sql_bind_def sql_return_def upsert_apply_def has_user_def user_of_def no_tables_def find_apply_def
      are_friends_def Let_def roll_back_def)

lemma db4_eq: "db4 = db3\<lparr>db := (db db3)\<lparr>rows := (tbl db3)\<lparr>
    applies_t := [\<lparr>ap_id = 1, ap_from = 2, ap_to = 1, ap_descs = ''hi'', ap_back = ''Ann'', ap_status = 1, ap_tags = Some ''[]''\<rparr>],
    friends_t := [\<lparr>fr_self = 1, fr_friend = 2, fr_back = ''Bob'', fr_tags = Some ''[]''\<rparr>, \<lparr>fr_self = 2, fr_friend = 1, fr_back = ''Ann'', fr_tags = Some ''[]''\<rparr>],
    threads_t := [(1, ''private'')], privates_t := [\<lparr>pc_thread = 1, pc_user1 = 1, pc_user2 = 2\<rparr>],
    messages_t := [\<lparr>ms_id = 1, ms_thread = 1, ms_sender = 2, ms_recv = 1, ms_unique = [], ms_content = ''hi'', ms_type = 0, ms_size = 0,
        ms_created = ''2026-01-01 00:00:00'', ms_status = 2\<rparr>,
      \<lparr>ms_id = 2, ms_thread = 1, ms_sender = 1, ms_recv = 2, ms_unique = [], ms_content = ''We are friends now!'', ms_type = 0, ms_size = 0,
        ms_created = ''2026-01-01 00:00:00'', ms_status = 2\<rparr>]\<rparr>, next_thread := 2, next_message := 3, last_insert_id := 2\<rparr>\<rparr>"
  by (simp add: db4_def db3_eq db2_eq AddFriend_def bad_pair_def RunContactTransaction_def eval_nat_numeral empty_db_def begun_def befriend_operation_def
      befriend_rows_def LockApplications_def LockFriends_def sql_bind_def sql_return_def sql_when_def has_user_def user_of_def no_tables_def find_apply_def
      application_of_def coalesce_tags_def no_application_def accept_apply_def insert_friend_def private_thread_def find_private_def insert_thread_def
      insert_private_def has_thread_def add_initial_message_def insert_message_def insert_message_row_def initial_row_def duplicate_message_def
      are_friends_def Let_def roll_back_def)

abbreviation demo_reachable :: "mysql \<Rightarrow> bool" where
  "demo_reachable \<equiv> reachable fresh_database (db_step demo_json demo_ssl)"

lemma demo_step: "demo_reachable c \<Longrightarrow> faults c = [] \<Longrightarrow> db_step demo_json demo_ssl c (f (c\<lparr>faults := []\<rparr>)) \<Longrightarrow> demo_reachable (f c)"
proof -
  assume r: "demo_reachable c" and q: "faults c = []" and st: "db_step demo_json demo_ssl c (f (c\<lparr>faults := []\<rparr>))"
  have "c\<lparr>faults := []\<rparr> = c" using q by (cases c) simp
  with st have "db_step demo_json demo_ssl c (f c)" by simp
  with r show ?thesis by (rule reach_step)
qed

lemma demo_states: "demo_reachable db2" "demo_reachable db4" "demo_reachable db3"
proof -
  have q: "faults empty_db = []" "faults db1 = []" "faults db2 = []" "faults db3 = []" by (simp_all add: db1_eq db2_eq db3_eq empty_db_def)
  have 0: "demo_reachable empty_db" by (rule reach_init) (simp add: fresh_database_def empty_db_def)
  have 1: "demo_reachable db1" unfolding db1_def by (rule demo_step [OF 0 q(1)]) (rule db_step.register)
  show 2: "demo_reachable db2" unfolding db2_def by (rule demo_step [OF 1 q(2)]) (rule db_step.register)
  show 3: "demo_reachable db3" unfolding db3_def by (rule demo_step [OF 2 q(3)]) (rule db_step.asking)
  show "demo_reachable db4" unfolding db4_def by (rule demo_step [OF 3 q(4)]) (rule db_step.befriend)
qed

end
