(* ===== verification/StorageFacts.thy ===== *)
theory StorageFacts
  imports Storage
begin

text \<open>
  What the data access layer guarantees in every state the database can reach, whatever calls ran before and
  whatever statements failed in them.
\<close>

abbreviation stored :: "jsoncpp \<Rightarrow> openssl \<Rightarrow> mysql \<Rightarrow> bool" where
  "stored J ssl \<equiv> reachable fresh_database (db_step J ssl)"

lemma stored_inv: "stored J ssl c \<Longrightarrow> storage_inv c"
  by (rule storage.reachable_inv)

lemma stored_parts:
  assumes "stored J ssl c"
  shows "saved c = None" "users_ok (weight (db c)) (next_user (db c)) (tbl c)" "contacts_ok (tbl c)" "threads_ok (next_thread (db c)) (tbl c)"
    "groups_inv (tbl c)" "messages_ok (weight (db c)) (next_message (db c)) (tbl c)" "0 < next_user (db c)"
  using stored_inv [OF assms] by (auto simp: storage_inv_def database_ok_def)

section \<open>Contacts\<close>

lemma distinct_filter_one:
  assumes "distinct (map f xs)" "x \<in> set xs" "\<And>y. y \<in> set xs \<Longrightarrow> P y \<longleftrightarrow> f y = f x"
  shows "filter P xs = [x]"
proof -
  have s: "set (filter P xs) = {x}" using assms by (auto simp: distinct_map inj_on_def)
  have "distinct (filter P xs)" using assms(1) by (simp add: distinct_map)
  from distinct_card [OF this] s have "length (filter P xs) = 1" by simp
  then obtain y where "filter P xs = [y]" by (auto simp: length_Suc_conv)
  with s show ?thesis by simp
qed

lemma sorted_wrt_incomparable:
  assumes "sorted_wrt R xs" "x \<in> set xs" "y \<in> set xs" "\<not> R x y" "\<not> R y x"
  shows "x = y"
  using assms by (induction xs) auto

lemma private_unique:
  assumes "threads_ok n t" "p \<in> set (privates_t t)" "q \<in> set (privates_t t)" "pc_user1 p = pc_user1 q \<and> pc_user2 p = pc_user2 q \<or> pc_thread p = pc_thread q"
  shows "p = q"
  using assms by (auto simp: threads_ok_def distinct_map inj_on_def)

text \<open>C16: Contacts. Friendship is symmetric and only between two different registered users, is recorded once in
  each direction, and every two friends have exactly one private thread.\<close>

theorem friendship_symmetric:
  assumes "stored J ssl c" "are_friends (tbl c) a b"
  shows "are_friends (tbl c) b a \<and> a \<noteq> b \<and> has_user (tbl c) a \<and> has_user (tbl c) b \<and>
    length (filter (\<lambda>r. fr_self r = a \<and> fr_friend r = b) (friends_t (tbl c))) = 1 \<and>
    length (filter (\<lambda>p. pc_user1 p = min a b \<and> pc_user2 p = max a b) (privates_t (tbl c))) = 1"
proof -
  note ok = stored_parts(3,4) [OF assms(1)]
  have fr: "are_friends (tbl c) b a" "a \<noteq> b" "has_user (tbl c) a" "has_user (tbl c) b"
    using ok(1) assms(2) unfolding contacts_ok_def by blast+
  obtain r where r: "r \<in> set (friends_t (tbl c))" "fr_self r = a" "fr_friend r = b" using assms(2) by (auto simp: are_friends_def)
  have "filter (\<lambda>r. fr_self r = a \<and> fr_friend r = b) (friends_t (tbl c)) = [r]"
    using ok(1) r by (intro distinct_filter_one [where f = "\<lambda>r. (fr_self r, fr_friend r)"]) (auto simp: contacts_ok_def)
  moreover obtain p where p: "find_private (tbl c) (min a b) (max a b) = Some p" using ok(1) assms(2) unfolding contacts_ok_def by blast
  have "filter (\<lambda>p. pc_user1 p = min a b \<and> pc_user2 p = max a b) (privates_t (tbl c)) = [p]"
    using ok(2) find_private_Some [OF p]
    by (intro distinct_filter_one [where f = "\<lambda>p. (pc_user1 p, pc_user2 p)"]) (auto simp: threads_ok_def)
  ultimately show ?thesis using fr by simp
qed

theorem friendship_symmetric_witness: "are_friends (tbl db4) 2 1 \<and> has_user (tbl db4) 1"
  using friendship_symmetric [OF demo_states(2), of 1 2] by (simp add: db4_eq are_friends_def)

lemma befriended:
  assumes "gives (befriend_operation f g remark tags) c (True, ms) c'" "f \<noteq> g" "contacts_ok (tbl c)" "threads_ok n (tbl c)"
  shows "(are_friends (tbl c) f g \<or> find_apply (tbl c) g f \<noteq> None) \<and>
     (\<forall>x y. are_friends (tbl c') x y \<longleftrightarrow> are_friends (tbl c) x y \<or> (x = f \<and> y = g) \<or> (x = g \<and> y = f)) \<and>
     (\<exists>new. messages_t (tbl c') = messages_t (tbl c) @ new \<and> (new = [] \<longleftrightarrow> are_friends (tbl c) f g) \<and>
        ms = map message_of_row new \<and> (\<forall>m\<in>set new. {ms_sender m, ms_recv m} = {f, g}))"
  using assms(1,2)
proof (cases rule: gives_befriend)
  case again
  then show ?thesis by auto
next
  case (fresh i c1 c2)
  have nf: "\<not> are_friends (tbl c) f g" using fresh(1) assms(3) unfolding contacts_ok_def by blast
  have ap: "find_apply (tbl c) g f \<noteq> None" using fresh(2) by (simp add: application_of_exists)
  have nz: "\<forall>r\<in>set (privates_t (tbl c1)). pc_thread r \<noteq> 0" using fresh(5) private_not_zero [OF assms(4)] by simp
  have f2: "friends_t (tbl c2) = friends_t (tbl c1)" using fresh(6) nz by (cases rule: gives_private_thread) simp_all
  have "are_friends (tbl c') x y \<longleftrightarrow> are_friends (tbl c) x y \<or> (x = f \<and> y = g) \<or> (x = g \<and> y = f)" for x y
  proof -
    have "are_friends (tbl c') x y \<longleftrightarrow> are_friends ((tbl c)\<lparr>friends_t := friends_t (tbl c1)\<rparr>) x y"
      using fresh(7) f2 by (simp add: are_friends_def)
    then show ?thesis using fresh(5) are_friends_pair [of "tbl c"] by (auto simp: min_def max_def)
  qed
  moreover have "messages_t (tbl c2) = messages_t (tbl c)" using private_thread_keeps(3) [OF fresh(6)] fresh(5) by simp
  ultimately show ?thesis using nf ap fresh(7,8)
    by (simp add: initial_row_def insert_commute) 
qed

text \<open>C17: Accepting an application. A call of \<^verbatim>\<open>AddFriend\<close> either changes nothing and reports failure, or leaves both
  users friends and nobody else's friendships changed; it does so only if they were friends before or the other
  user had applied. Two users who were no friends get the opening messages, which lie in the end of
  the message table, between the two, and are what a successful call returns; two who were get none. A failure
  may be reported for work that was done when the reply to the commit is lost, never for half of it.\<close>

theorem accepting_befriends:
  assumes "stored J ssl c" "AddFriend f g remark tags c = ((ok, ms), c')"
  shows "(tbl c' = tbl c \<and> \<not> ok \<and> ms = []) \<or>
    ((are_friends (tbl c) f g \<or> find_apply (tbl c) g f \<noteq> None) \<and>
     (\<forall>x y. are_friends (tbl c') x y \<longleftrightarrow> are_friends (tbl c) x y \<or> (x = f \<and> y = g) \<or> (x = g \<and> y = f)) \<and>
     (\<exists>new. messages_t (tbl c') = messages_t (tbl c) @ new \<and> (new = [] \<longleftrightarrow> are_friends (tbl c) f g) \<and>
        ms = (if ok then map message_of_row new else []) \<and> (\<forall>m\<in>set new. {ms_sender m, ms_recv m} = {f, g})))"
proof (cases "bad_pair f g")
  case True
  then show ?thesis using assms(2) by (simp add: AddFriend_def)
next
  case False
  then have fg: "f \<noteq> g" by (simp add: bad_pair_def)
  note sv = stored_parts(1) [OF assms(1)] and ok = stored_parts(3,4) [OF assms(1)]
  let ?op = "befriend_operation f g remark tags"
  from assms(2) False have "with_connection (False, []) (\<lambda>c. case RunContactTransaction ?op c of
          (None, c') \<Rightarrow> ((False, []), c') | (Some ms, c') \<Rightarrow> ((True, ms), c')) c = ((ok, ms), c')" by (simp add: AddFriend_def)
  then show ?thesis
  proof (cases rule: with_connection_cases)
    case (connected c1)
    obtain r c2 where r: "RunContactTransaction ?op c1 = (r, c2)" by force
    have c2: "c' = c2" "ok = (r \<noteq> None)" "ms = (case r of None \<Rightarrow> [] | Some x \<Rightarrow> x)"
      using connected(3) r by (auto split: option.splits)
    have sv1: "saved c1 = None" using connected(2) sv by simp
    from r [unfolded RunContactTransaction_def] framed_contact_operations(3) sv1 show ?thesis
    proof (cases rule: contact_attempts_cases)
      case unchanged
      then show ?thesis using c2 connected(1) by simp
    next
      case (committed x d1 d2)
      have t: "tbl (begun d1) = tbl c" using committed(1) connected(1) by simp
      note effect = befriended [OF committed(3) fg, unfolded t, OF ok]
      have "tbl c' = tbl d2" using committed(4) c2(1) by simp
      moreover have "ms = (if ok then x else [])" using committed(7) c2(2,3) by auto
      moreover from effect obtain new where "messages_t (tbl d2) = messages_t (tbl c) @ new" "new = [] \<longleftrightarrow> are_friends (tbl c) f g"
        "x = map message_of_row new" "\<forall>m\<in>set new. {ms_sender m, ms_recv m} = {f, g}" by blast
      ultimately show ?thesis using effect by - (rule disjI2, intro conjI exI [of _ new], simp_all)
    qed
  qed simp
qed

theorem accepting_befriends_witness: "are_friends (tbl db4) 2 1 \<and> messages_t (tbl db4) \<noteq> []"
proof -
  have r: "demo_reachable db3" using demo_states(3) .
  have n: "\<not> are_friends (tbl db3) 1 2" by (simp add: db3_eq db2_eq are_friends_def no_tables_def)
  obtain ok ms where e: "AddFriend 1 2 ''Bob'' ''[]'' db3 = ((ok, ms), db4)" unfolding db4_def by (metis prod.exhaust snd_conv)
  have "are_friends (tbl db4) 1 2" by (simp add: db4_eq are_friends_def)
  then have "tbl db4 \<noteq> tbl db3" using n by auto
  then show ?thesis using accepting_befriends [OF r e] n by auto
qed

section \<open>Messages and threads\<close>

text \<open>C15: Messages stay in their thread. Every stored message of a private thread goes from one of the thread's
  two users to the other; every other message is in the thread of a group, with the sender as receiver.
  Message ids are unique, and so are client keys per thread and sender.\<close>

theorem messages_confined:
  assumes "stored J ssl c" "m \<in> set (messages_t (tbl c))"
  shows "(\<forall>p. p \<in> set (privates_t (tbl c)) \<and> pc_thread p = ms_thread m \<longrightarrow>
      {ms_sender m, ms_recv m} = {pc_user1 p, pc_user2 p} \<and> ms_sender m \<noteq> ms_recv m) \<and>
    ((\<exists>p. p \<in> set (privates_t (tbl c)) \<and> pc_thread p = ms_thread m) \<or>
     (ms_sender m = ms_recv m \<and> ms_thread m \<in> gr_thread ` set (groups_t (tbl c)))) \<and>
    (\<forall>m'. m' \<in> set (messages_t (tbl c)) \<and> ms_id m' = ms_id m \<longrightarrow> m' = m) \<and>
    (\<forall>m'. m' \<in> set (messages_t (tbl c)) \<and> ms_unique m \<noteq> [] \<and> ms_unique m' \<noteq> [] \<and> ms_thread m' = ms_thread m \<and> ms_sender m' = ms_sender m \<and>
       weight (db c) (ms_unique m') = weight (db c) (ms_unique m) \<longrightarrow> m' = m)"
proof -
  note ok = stored_parts(4,5,6) [OF assms(1)]
  have b: "belongs (tbl c) (ms_thread m) (ms_sender m) (ms_recv m)" using ok(3) assms(2) by (simp add: messages_ok_def)
  have group_kind: "(i, ''group'') \<in> set (threads_t (tbl c))" if "i \<in> gr_thread ` set (groups_t (tbl c))" for i
    using that ok(2) by (auto simp: groups_inv_def)
  have pair: "{ms_sender m, ms_recv m} = {pc_user1 p, pc_user2 p} \<and> ms_sender m \<noteq> ms_recv m"
    if p: "p \<in> set (privates_t (tbl c))" "pc_thread p = ms_thread m" for p
  proof -
    have "(ms_thread m, ''private'') \<in> set (threads_t (tbl c))" using ok(1) p by (auto simp: threads_ok_def)
    then have "ms_thread m \<notin> gr_thread ` set (groups_t (tbl c))" using thread_kind [OF ok(1)] group_kind by fastforce
    then obtain q where q: "ms_sender m \<noteq> ms_recv m" "q \<in> set (privates_t (tbl c))" "pc_thread q = ms_thread m"
      "pc_user1 q = min (ms_sender m) (ms_recv m)" "pc_user2 q = max (ms_sender m) (ms_recv m)"
      using b unfolding belongs_def by blast
    then have "q = p" using private_unique [OF ok(1), of q p] p by simp
    then show ?thesis using q by (auto simp: min_def max_def)
  qed
  have uniq: "m' = m" if "m' \<in> set (messages_t (tbl c))" "ms_id m' = ms_id m" for m'
    using ok(3) assms(2) that by (auto simp: messages_ok_def distinct_map inj_on_def)
  have keys: "m' = m" if "m' \<in> set (messages_t (tbl c))" "ms_unique m \<noteq> []" "ms_unique m' \<noteq> []" "ms_thread m' = ms_thread m"
      "ms_sender m' = ms_sender m" "weight (db c) (ms_unique m') = weight (db c) (ms_unique m)" for m'
  proof (rule sorted_wrt_incomparable [OF _ that(1) assms(2)])
    show "sorted_wrt (\<lambda>x y. ms_unique x \<noteq> [] \<and> ms_unique y \<noteq> [] \<longrightarrow>
       \<not> (ms_thread x = ms_thread y \<and> ms_sender x = ms_sender y \<and> weight (db c) (ms_unique x) = weight (db c) (ms_unique y))) (messages_t (tbl c))"
      using ok(3) by (simp add: messages_ok_def)
  qed (use that in simp_all)
  have "(\<exists>p. p \<in> set (privates_t (tbl c)) \<and> pc_thread p = ms_thread m) \<or>
     (ms_sender m = ms_recv m \<and> ms_thread m \<in> gr_thread ` set (groups_t (tbl c)))" using b unfolding belongs_def by blast
  moreover have "\<forall>p. p \<in> set (privates_t (tbl c)) \<and> pc_thread p = ms_thread m \<longrightarrow>
      {ms_sender m, ms_recv m} = {pc_user1 p, pc_user2 p} \<and> ms_sender m \<noteq> ms_recv m" using pair by blast
  moreover have "\<forall>m'. m' \<in> set (messages_t (tbl c)) \<and> ms_id m' = ms_id m \<longrightarrow> m' = m" using uniq by blast
  moreover have "\<forall>m'. m' \<in> set (messages_t (tbl c)) \<and> ms_unique m \<noteq> [] \<and> ms_unique m' \<noteq> [] \<and> ms_thread m' = ms_thread m \<and>
      ms_sender m' = ms_sender m \<and> weight (db c) (ms_unique m') = weight (db c) (ms_unique m) \<longrightarrow> m' = m" using keys by blast
  ultimately show ?thesis by (intro conjI)
qed

theorem messages_confined_witness: "\<exists>m\<in>set (messages_t (tbl db4)). {ms_sender m, ms_recv m} = {1, 2}"
proof -
  have m: "messages_t (tbl db4) \<noteq> []" and p: "\<lparr>pc_thread = 1, pc_user1 = 1, pc_user2 = 2\<rparr> \<in> set (privates_t (tbl db4))"
    "ms_thread (hd (messages_t (tbl db4))) = 1" by (simp_all add: db4_eq)
  have h: "hd (messages_t (tbl db4)) \<in> set (messages_t (tbl db4))" using m by simp
  have "{ms_sender (hd (messages_t (tbl db4))), ms_recv (hd (messages_t (tbl db4)))} = {1, 2}"
    using messages_confined [OF demo_states(2) h] p by (metis private_row.select_convs)
  then show ?thesis using h by blast
qed

text \<open>C19: Groups. A thread is never both private and a group's. An active group's owner is one of its members and
  it has at most 32 of them, each once; a group that was disbanded, or a thread that is no group, has none.\<close>

theorem groups_well_formed:
  assumes "stored J ssl c"
  shows "(\<forall>p g. p \<in> set (privates_t (tbl c)) \<and> g \<in> set (groups_t (tbl c)) \<longrightarrow> pc_thread p \<noteq> gr_thread g) \<and>
    (\<forall>thread. case group_view (tbl c) thread of None \<Rightarrow> \<forall>u. \<not> is_member (tbl c) thread u
       | Some v \<Rightarrow> view_owner v \<in> view_members v \<and> finite (view_members v) \<and> card (view_members v) \<le> 32 \<and>
           card (view_members v) = member_count (tbl c) thread)"
proof -
  note ok = stored_parts(4,5) [OF assms]
  have "pc_thread p \<noteq> gr_thread g" if "p \<in> set (privates_t (tbl c))" "g \<in> set (groups_t (tbl c))" for p g
  proof
    assume "pc_thread p = gr_thread g"
    with ok that have "(gr_thread g, ''private'') \<in> set (threads_t (tbl c))" "(gr_thread g, ''group'') \<in> set (threads_t (tbl c))"
      by (auto simp: threads_ok_def groups_inv_def)
    from thread_kind [OF ok(1) this] show False by simp
  qed
  moreover have "case group_view (tbl c) thread of None \<Rightarrow> \<forall>u. \<not> is_member (tbl c) thread u
       | Some v \<Rightarrow> view_owner v \<in> view_members v \<and> finite (view_members v) \<and> card (view_members v) \<le> 32 \<and>
           card (view_members v) = member_count (tbl c) thread" for thread
  proof (cases "find_group (tbl c) thread")
    case None
    then show ?thesis using ok(2) by (auto simp: group_view_def groups_inv_def)
  next
    case (Some g)
    let ?M = "filter (\<lambda>m. fst m = thread) (members_t (tbl c))"
    have own: "is_member (tbl c) thread (gr_owner g)" using ok(2) find_group_Some [OF Some] by (auto simp: groups_inv_def)
    have set: "{u. is_member (tbl c) thread u} = snd ` set ?M" by (force simp: is_member_def)
    have "card (snd ` set ?M) = card (set ?M)" by (rule card_image) (auto simp: inj_on_def)
    moreover have "distinct ?M" "member_count (tbl c) thread \<le> 32" using ok(2) by (auto simp: groups_inv_def)
    moreover have "member_count (tbl c) thread = length ?M" by (simp add: member_count_def)
    ultimately have card: "card {u. is_member (tbl c) thread u} = member_count (tbl c) thread \<and> member_count (tbl c) thread \<le> 32"
      using set distinct_card [of ?M] by simp
    have "finite {u. is_member (tbl c) thread u}" unfolding set by simp
    with card show ?thesis using Some own by (simp add: group_view_def)
  qed
  ultimately show ?thesis by blast
qed

theorem groups_well_formed_witness: "\<not> is_member (tbl db4) 1 1"
  using groups_well_formed [OF demo_states(2)] by (simp add: group_view_def find_group_def db4_eq db3_eq db2_eq no_tables_def is_member_def)

text \<open>C18: Changing groups. Requests to change a group refine the abstract rules: whatever statements fail, the groups
  that clients see (name, owner, set of members) are as before, or are what the rules of groups allow for
  this request; and a reply that reports success means the latter. Creating needs a valid request and friends as
  members, and repeating a creation finds the group made before; renaming, disbanding, adding, removing and
  transferring are for the owner, leaving for everyone else.\<close>

theorem group_changes_refine:
  assumes "stored J ssl c" "ChangeGroup J uid request doc c = ((code, doc'), c')"
  shows "(tbl c' = tbl c \<and> code \<noteq> Success) \<or>
    ((code = Success \<or> code = DatabaseError) \<and> group_outcome J (tbl c) uid request (tbl c'))"
  using ChangeGroup_outcome [OF assms(2) stored_parts(1,5) [OF assms(1)]] by blast

definition demo_request :: json where
  "demo_request = JObj [(''op'', JStr ''create''), (''name'', JStr ''tea''), (''creation_key'', JStr ''k1''),
     (''members'', JArr [JInt 2])]"

lemma demo_fields [simp]:
  "index demo_request ''op'' = JStr ''create''" "index demo_request ''name'' = JStr ''tea''" "index demo_request ''creation_key'' = JStr ''k1''"
  "index demo_request ''members'' = JArr [JInt 2]"
  by (simp_all add: demo_request_def index_def get_default_def)

lemma demo_valid: "creation_valid 1 demo_request" "member_ids 1 (JArr [JInt 2]) = [1, 2]"
  by (simp_all add: creation_valid_def NameValid_def valid_key_def member_ids_def jsize_def in_int_range_def int_max_def int_min_def byte_def)

lemma demo_group: "fst (fst (ChangeGroup demo_json 1 demo_request JNull db4)) = Success"
  by (simp add: db4_eq db3_eq db2_eq empty_db_def ChangeGroup_def demo_valid known_op_def catch_out_def transaction_def begun_def
      change_operation_def CreateGroup_def Friend_def
      sql_bind_def sql_return_def insert_thread_def insert_group_def insert_member_def duplicate_group_def has_user_def has_thread_def is_member_def
      are_friends_def user_of_def no_tables_def creation_spec_def demo_json_def ReadGroup_def find_group_def member_users_def Commit_def sql_when_def Let_def)

theorem group_changes_refine_witness:
  "\<exists>c'. snd (ChangeGroup demo_json 1 demo_request JNull db4) = c' \<and> group_outcome demo_json (tbl db4) 1 demo_request (tbl c')"
proof -
  obtain code doc' c' where e: "ChangeGroup demo_json 1 demo_request JNull db4 = ((code, doc'), c')"
    by (metis prod.exhaust)
  from group_changes_refine [OF demo_states(2) e] demo_group e show ?thesis by simp
qed

section \<open>Reading everything\<close>

text \<open>C20: Reading a thread's history. A client that asks for the messages of a thread page by page, passing the cursor
  of each reply to the next request while there is more, gets every stored message of the thread once,
  oldest first, whatever the page size, and is done after at most one request more than there are
  messages.\<close>

theorem history_complete:
  assumes "stored J ssl c" "0 < thread" "0 < n" "length (messages_t (tbl c)) < fuel"
  shows "\<exists>ms. follow fuel (history_page c thread n) 0 = map read_message ms \<and> sorted_wrt (\<lambda>x y. ms_id x < ms_id y) ms \<and>
    set ms = {m \<in> set (messages_t (tbl c)). ms_thread m = thread}"
proof -
  note ok = stored_parts(6) [OF assms(1)]
  have d: "distinct (map ms_id (messages_t (tbl c)))" using ok by (simp add: messages_ok_def)
  have "length (history_rows (tbl c) thread 0) < fuel"
    unfolding history_rows_def using assms(4) by (simp add: le_less_trans [OF length_filter_le])
  note f = history_pages [OF d assms(2,3) this]
  have "sorted_wrt (<) (map ms_id (history_rows (tbl c) thread 0))"
    unfolding history_rows_def by (rule sort_key_strict) (simp add: d distinct_map_filter)
  moreover have "set (history_rows (tbl c) thread 0) = {m \<in> set (messages_t (tbl c)). ms_thread m = thread}"
    using ok by (auto simp: history_rows_def messages_ok_def)
  ultimately show ?thesis using f by (auto simp: sorted_wrt_map)
qed

theorem history_complete_witness: "\<exists>ms. follow 3 (history_page db4 1 1) 0 = map read_message ms \<and> sorted_wrt (\<lambda>x y. ms_id x < ms_id y) ms"
  using history_complete [OF demo_states(2), of 1 1 3] by (auto simp: db4_eq)

lemma user_threads_distinct:
  assumes "stored J ssl c"
  shows "distinct (map fst (user_threads (tbl c) uid k))"
proof -
  note ok = stored_parts(4,5) [OF assms]
  let ?P = "filter (\<lambda>p. accessible_private (tbl c) uid p \<and> k < pc_thread p) (privates_t (tbl c))"
  let ?M = "filter (\<lambda>(i, u). u = uid \<and> k < i) (members_t (tbl c))"
  have e: "map fst (user_threads (tbl c) uid k) = map pc_thread ?P @ map fst ?M"
    by (simp add: user_threads_def comp_def split_beta)
  have "distinct (map pc_thread ?P)" using ok(1) by (simp add: threads_ok_def distinct_map_filter)
  moreover have "distinct ?M" using ok(2) by (simp add: groups_inv_def)
  then have "distinct (map fst ?M)" by (auto simp: distinct_map inj_on_def)
  moreover have "pc_thread p \<noteq> i" if "p \<in> set (privates_t (tbl c))" "(i, u) \<in> set (members_t (tbl c))" for p i u
  proof
    assume "pc_thread p = i"
    have "find_group (tbl c) i \<noteq> None" using ok(2) that(2) unfolding groups_inv_def is_member_def by blast
    then obtain g where "g \<in> set (groups_t (tbl c))" "gr_thread g = i" using find_group_Some by blast
    then have "(i, ''group'') \<in> set (threads_t (tbl c))" "(i, ''private'') \<in> set (threads_t (tbl c))"
      using ok that(1) \<open>pc_thread p = i\<close> by (auto simp: groups_inv_def threads_ok_def)
    from thread_kind [OF ok(1) this] show False by simp
  qed
  ultimately show ?thesis unfolding e by fastforce
qed

text \<open>Reading the list of threads. Following the cursor in the same way over a user's threads gives each of them
  once, in the order of their ids: exactly the private threads with the user's current friends and the groups
  that the user is a member of.\<close>

theorem threads_complete:
  assumes "stored J ssl c" "0 < uid" "0 < n" "length (privates_t (tbl c)) + length (members_t (tbl c)) < fuel"
  shows "\<exists>ts. follow fuel (threads_page c uid n) 0 = map (thread_info (tbl c)) ts \<and> sorted_wrt (\<lambda>x y. fst x < fst y) ts \<and>
    set ts = {(pc_thread p, ''private'', pc_user1 p, pc_user2 p) | p. p \<in> set (privates_t (tbl c)) \<and> accessible_private (tbl c) uid p} \<union>
      {(i, ''group'', 0, 0) | i. is_member (tbl c) i uid}"
proof -
  note ok = stored_parts(4,5) [OF assms(1)]
  have d: "\<forall>k. distinct (map fst (user_threads (tbl c) uid k))" using user_threads_distinct [OF assms(1)] by blast
  have "length (user_threads (tbl c) uid 0) \<le> length (privates_t (tbl c)) + length (members_t (tbl c))"
    by (auto simp: user_threads_def intro!: add_mono)
  note f = threads_pages [OF d assms(2,3) le_less_trans [OF this assms(4)]]
  have s: "sorted_wrt (\<lambda>x y. fst x < fst y) (sort_key fst (user_threads (tbl c) uid 0))"
    using sort_key_strict [OF d [rule_format, of 0]] by (simp add: sorted_wrt_map)
  have pos: "0 < i" if "(i, k) \<in> set (threads_t (tbl c))" for i k using that ok(1) by (auto simp: threads_ok_def)
  have "0 < pc_thread p" if "p \<in> set (privates_t (tbl c))" for p using ok(1) that pos by (auto simp: threads_ok_def)
  moreover have "0 < i" if "(i, u) \<in> set (members_t (tbl c))" for i u
  proof -
    have "find_group (tbl c) i \<noteq> None" using ok(2) that unfolding groups_inv_def is_member_def by blast
    then obtain g where "g \<in> set (groups_t (tbl c))" "gr_thread g = i" using find_group_Some by blast
    then show ?thesis using ok(2) pos by (auto simp: groups_inv_def)
  qed
  ultimately have "set (user_threads (tbl c) uid 0) =
      {(pc_thread p, ''private'', pc_user1 p, pc_user2 p) | p. p \<in> set (privates_t (tbl c)) \<and> accessible_private (tbl c) uid p} \<union>
      {(i, ''group'', 0, 0) | i. is_member (tbl c) i uid}"
    by (force simp: user_threads_def is_member_def)
  then show ?thesis using f s by (intro exI [of _ "sort_key fst (user_threads (tbl c) uid 0)"]) simp
qed

theorem threads_complete_witness: "\<exists>ts. follow 2 (threads_page db4 1 5) 0 = map (thread_info (tbl db4)) ts \<and> (1, ''private'', 1, 2) \<in> set ts"
proof -
  have "accessible_private (tbl db4) 1 \<lparr>pc_thread = 1, pc_user1 = 1, pc_user2 = 2\<rparr>" by (simp add: accessible_private_def are_friends_def db4_eq)
  moreover have "privates_t (tbl db4) = [\<lparr>pc_thread = 1, pc_user1 = 1, pc_user2 = 2\<rparr>]" "members_t (tbl db4) = []"
    by (simp_all add: db4_eq db3_eq db2_eq no_tables_def)
  ultimately show ?thesis using threads_complete [OF demo_states(2), of 1 5 2] by auto
qed

section \<open>Witnesses for the calls on users and messages\<close>

theorem registered_user_logs_in_witness:
  "\<forall>info. fst (CheckPwdByEmail demo_ssl ''a'' ''ann'' info (db1\<lparr>faults := []\<rparr>)) = (True, info\<lparr>ui_name := ''ann'', ui_email := ''a'', ui_uid := 1\<rparr>)"
proof -
  have r: "RegUser demo_ssl (Some (replicate 16 7)) ''ann'' ''a'' ''ann'' empty_db = (1, db1)"
    unfolding db1_def
    by (simp add: RegUser_def HashPassword_def demo_ssl_def int_max_def empty_db_def sql_catch_def sql_bind_def insert_user_def
      add_user_row_def duplicate_user_def no_tables_def user_of_def kPasswordIterations_def kPasswordHashSize_def Let_def)
  have s: "sound_openssl demo_ssl" by (simp add: sound_openssl_def demo_ssl_def)
  have u: "\<forall>u\<in>set (users_t (tbl empty_db)). 0 < u_id u" "0 < next_user (db empty_db)" by (simp_all add: empty_db_def no_tables_def)
  show ?thesis
    using registered_user_logs_in [OF r _ s _ u, of "''ann''"] by (simp add: kPasswordSaltSize_def int_max_def)
qed

definition demo_message :: ChatMessage where
  "demo_message = \<lparr>cm_message_id = 0, cm_thread_id = 1, cm_sender_id = 1, cm_recv_id = 2, cm_unique_id = ''u1'', cm_content = ''hello'',
     cm_chat_time = [], cm_status = 0, cm_msg_type = 0, cm_media_size = 0\<rparr>"

lemma demo_send: "fst (AddChatMsg [Some demo_message] db4) = Some [demo_message\<lparr>cm_message_id := 3\<rparr>]"
  by (simp add: db4_eq db3_eq db2_eq empty_db_def AddChatMsg_def valid_batch_def demo_message_def sql_catch_def transaction_def begun_def
      add_operation_def may_send_def sql_bind_def sql_return_def are_friends_def find_message_def same_key_def insert_chat_def
      insert_message_row_def duplicate_message_def chat_row_def Commit_def sql_when_def has_user_def has_thread_def user_of_def no_tables_def Let_def)


end
