(* ===== verification/Redis.thy ===== *)
theory Redis
  imports Contract
begin

text \<open>
  Redis as the servers use it. The server process itself is third-party: its keyspace is a map from
  keys to typed values with an optional expiry time, and the commands below follow its documentation.
  Two things the documentation leaves open are components of the state that no command changes: how
  \<^verbatim>\<open>TTL\<close> rounds a remaining time to seconds, and what \<^verbatim>\<open>cjson\<close> finds as
  \<^verbatim>\<open>instance_id\<close> in a stored text. Times are rationals in milliseconds. Every call of
  \<^verbatim>\<open>RedisMgr\<close> takes a delivery: the command may run, may run without its reply coming back, or may
  not run at all (no connection). The wrappers of \<^verbatim>\<open>RedisMgr.cpp\<close> and \<^verbatim>\<open>DistLock.cpp\<close>
  are functions from the state to a result and a state.
\<close>

section \<open>The keyspace\<close>

datatype rvalue = RStr string | RList "string list" | RHash "(string \<times> string) list"

record redis =
  store :: "string \<Rightarrow> (rvalue \<times> rat option) option"
  clock :: rat
  ttl_seconds :: "rat \<Rightarrow> int"
  instance_of :: "string \<Rightarrow> string option option"

definition live :: "redis \<Rightarrow> string \<Rightarrow> (rvalue \<times> rat option) option" where
  "live s k = (case store s k of None \<Rightarrow> None
     | Some (v, None) \<Rightarrow> Some (v, None)
     | Some (v, Some e) \<Rightarrow> if e \<le> clock s then None else Some (v, Some e))"

text \<open>The value of a string key, if it is there and a string.\<close>

definition value_of :: "redis \<Rightarrow> string \<Rightarrow> string option" where
  "value_of s k = (case live s k of Some (RStr v, _) \<Rightarrow> Some v | _ \<Rightarrow> None)"

definition wrong_type :: "redis \<Rightarrow> string \<Rightarrow> bool" where
  "wrong_type s k \<longleftrightarrow> (\<exists>v e. live s k = Some (v, e)) \<and> value_of s k = None"

definition ttl :: "redis \<Rightarrow> string \<Rightarrow> int" where
  "ttl s k = (case live s k of None \<Rightarrow> -2 | Some (v, None) \<Rightarrow> -1
     | Some (v, Some e) \<Rightarrow> ttl_seconds s (e - clock s))"

definition put :: "string \<Rightarrow> rvalue \<Rightarrow> rat option \<Rightarrow> redis \<Rightarrow> redis" where
  "put k v e s = s\<lparr>store := (store s)(k \<mapsto> (v, e))\<rparr>"

definition setex :: "string \<Rightarrow> string \<Rightarrow> int \<Rightarrow> redis \<Rightarrow> redis" where
  "setex k v seconds s = put k (RStr v) (Some (clock s + 1000 * of_int seconds)) s"

definition del :: "string \<Rightarrow> redis \<Rightarrow> redis" where
  "del k s = s\<lparr>store := (store s)(k := None)\<rparr>"

definition expire :: "string \<Rightarrow> int \<Rightarrow> redis \<Rightarrow> redis" where
  "expire k seconds s = (case live s k of None \<Rightarrow> s
     | Some (v, _) \<Rightarrow> put k v (Some (clock s + 1000 * of_int seconds)) s)"

definition exists_key :: "redis \<Rightarrow> string \<Rightarrow> bool" where
  "exists_key s k \<longleftrightarrow> live s k \<noteq> None"

datatype reply = RNil | RStatus string | RInteger int | RString string | RError

datatype delivery = Delivered | ReplyLost | NotDelivered

definition command :: "delivery \<Rightarrow> (redis \<Rightarrow> reply \<times> redis) \<Rightarrow> redis \<Rightarrow> reply option \<times> redis" where
  "command d c s =
     (case d of Delivered \<Rightarrow> (Some (fst (c s)), snd (c s))
      | ReplyLost \<Rightarrow> (None, snd (c s))
      | NotDelivered \<Rightarrow> (None, s))"

section \<open>Commands\<close>

definition GET :: "string \<Rightarrow> redis \<Rightarrow> reply \<times> redis" where
  "GET k s = (if wrong_type s k then RError
     else case value_of s k of None \<Rightarrow> RNil | Some v \<Rightarrow> RString v, s)"

definition SET :: "string \<Rightarrow> string \<Rightarrow> redis \<Rightarrow> reply \<times> redis" where
  "SET k v s = (RStatus ''OK'', put k (RStr v) None s)"

definition SET_EX :: "string \<Rightarrow> string \<Rightarrow> int \<Rightarrow> redis \<Rightarrow> reply \<times> redis" where
  "SET_EX k v seconds s = (RStatus ''OK'', setex k v seconds s)"

definition SET_NX_EX :: "string \<Rightarrow> string \<Rightarrow> int \<Rightarrow> redis \<Rightarrow> reply \<times> redis" where
  "SET_NX_EX k v seconds s =
     (if exists_key s k then (RNil, s) else (RStatus ''OK'', setex k v seconds s))"

definition DEL :: "string \<Rightarrow> redis \<Rightarrow> reply \<times> redis" where
  "DEL k s = (RInteger (if exists_key s k then 1 else 0), del k s)"

definition EXISTS :: "string \<Rightarrow> redis \<Rightarrow> reply \<times> redis" where
  "EXISTS k s = (RInteger (if exists_key s k then 1 else 0), s)"

text \<open>A list command sees the list and its expiry; a missing key is an empty list, an emptied list is removed.\<close>

definition on_list :: "(string list \<Rightarrow> reply \<times> string list) \<Rightarrow> string \<Rightarrow> redis \<Rightarrow> reply \<times> redis" where
  "on_list f k s =
     (case live s k of
        None \<Rightarrow> (case f [] of (r, xs) \<Rightarrow> (r, if xs = [] then s else put k (RList xs) None s))
      | Some (RList ys, e) \<Rightarrow> (case f ys of (r, xs) \<Rightarrow> (r, if xs = [] then del k s else put k (RList xs) e s))
      | Some _ \<Rightarrow> (RError, s))"

definition LPUSH :: "string \<Rightarrow> string \<Rightarrow> redis \<Rightarrow> reply \<times> redis" where
  "LPUSH k v = on_list (\<lambda>xs. (RInteger (int (length xs) + 1), v # xs)) k"

definition RPUSH :: "string \<Rightarrow> string \<Rightarrow> redis \<Rightarrow> reply \<times> redis" where
  "RPUSH k v = on_list (\<lambda>xs. (RInteger (int (length xs) + 1), xs @ [v])) k"

definition LPOP :: "string \<Rightarrow> redis \<Rightarrow> reply \<times> redis" where
  "LPOP k = on_list (\<lambda>xs. case xs of [] \<Rightarrow> (RNil, []) | x # ys \<Rightarrow> (RString x, ys)) k"

definition RPOP :: "string \<Rightarrow> redis \<Rightarrow> reply \<times> redis" where
  "RPOP k = on_list (\<lambda>xs. if xs = [] then (RNil, []) else (RString (last xs), butlast xs)) k"

definition on_hash :: "((string \<times> string) list \<Rightarrow> reply \<times> (string \<times> string) list) \<Rightarrow> string \<Rightarrow> redis \<Rightarrow> reply \<times> redis" where
  "on_hash f k s =
     (case live s k of
        None \<Rightarrow> (case f [] of (r, xs) \<Rightarrow> (r, if xs = [] then s else put k (RHash xs) None s))
      | Some (RHash ys, e) \<Rightarrow> (case f ys of (r, xs) \<Rightarrow> (r, if xs = [] then del k s else put k (RHash xs) e s))
      | Some _ \<Rightarrow> (RError, s))"

definition HSET :: "string \<Rightarrow> string \<Rightarrow> string \<Rightarrow> redis \<Rightarrow> reply \<times> redis" where
  "HSET k h v = on_hash (\<lambda>m. (RInteger (if map_of m h = None then 1 else 0), AList.update h v m)) k"

definition HGET :: "string \<Rightarrow> string \<Rightarrow> redis \<Rightarrow> reply \<times> redis" where
  "HGET k h = on_hash (\<lambda>m. (case map_of m h of None \<Rightarrow> RNil | Some v \<Rightarrow> RString v, m)) k"

definition HDEL :: "string \<Rightarrow> string \<Rightarrow> redis \<Rightarrow> reply \<times> redis" where
  "HDEL k h = on_hash (\<lambda>m. (RInteger (if map_of m h = None then 0 else 1), AList.delete h m)) k"

section \<open>The wrappers of RedisMgr\<close>

definition ParsePositiveInt :: "string \<Rightarrow> int \<Rightarrow> int" where
  "ParsePositiveInt s fallback = (case stoi s of None \<Rightarrow> fallback
     | Some (value, _) \<Rightarrow> if value > 0 then value else fallback)"

definition IsStatusOk :: "reply option \<Rightarrow> bool" where
  "IsStatusOk r \<longleftrightarrow> r = Some (RStatus ''OK'')"

definition as_string :: "reply option \<Rightarrow> string option" where
  "as_string r = (case r of Some (RString v) \<Rightarrow> Some v | _ \<Rightarrow> None)"

definition as_integer :: "reply option \<Rightarrow> int option" where
  "as_integer r = (case r of Some (RInteger i) \<Rightarrow> Some i | _ \<Rightarrow> None)"

definition Get :: "delivery \<Rightarrow> string \<Rightarrow> redis \<Rightarrow> string option \<times> redis" where
  "Get d key s = (let (r, s') = command d (GET key) s in (as_string r, s'))"

definition Set :: "delivery \<Rightarrow> string \<Rightarrow> string \<Rightarrow> redis \<Rightarrow> bool \<times> redis" where
  "Set d key value s = (let (r, s') = command d (SET key value) s in (IsStatusOk r, s'))"

definition LPush :: "delivery \<Rightarrow> string \<Rightarrow> string \<Rightarrow> redis \<Rightarrow> bool \<times> redis" where
  "LPush d key value s = (let (r, s') = command d (LPUSH key value) s
     in (case as_integer r of None \<Rightarrow> False | Some n \<Rightarrow> n > 0, s'))"

definition LPop :: "delivery \<Rightarrow> string \<Rightarrow> redis \<Rightarrow> string option \<times> redis" where
  "LPop d key s = (let (r, s') = command d (LPOP key) s in (as_string r, s'))"

definition RPush :: "delivery \<Rightarrow> string \<Rightarrow> string \<Rightarrow> redis \<Rightarrow> bool \<times> redis" where
  "RPush d key value s = (let (r, s') = command d (RPUSH key value) s
     in (case as_integer r of None \<Rightarrow> False | Some n \<Rightarrow> n > 0, s'))"

definition RPop :: "delivery \<Rightarrow> string \<Rightarrow> redis \<Rightarrow> string option \<times> redis" where
  "RPop d key s = (let (r, s') = command d (RPOP key) s in (as_string r, s'))"

text \<open>The string overload passes \<^verbatim>\<open>c_str()\<close>s, so key and field end at their first zero byte.\<close>

definition c_str :: "string \<Rightarrow> string" where
  "c_str s = takeWhile (\<lambda>c. byte c \<noteq> 0) s"

definition HSet :: "delivery \<Rightarrow> string \<Rightarrow> string \<Rightarrow> string \<Rightarrow> redis \<Rightarrow> bool \<times> redis" where
  "HSet d key hkey value s = (let (r, s') = command d (HSET (c_str key) (c_str hkey) value) s
     in (as_integer r \<noteq> None, s'))"

definition HGet :: "delivery \<Rightarrow> string \<Rightarrow> string \<Rightarrow> redis \<Rightarrow> string \<times> redis" where
  "HGet d key hkey s = (let (r, s') = command d (HGET key hkey) s
     in (case as_string r of None \<Rightarrow> [] | Some v \<Rightarrow> v, s'))"

definition HDel :: "delivery \<Rightarrow> string \<Rightarrow> string \<Rightarrow> redis \<Rightarrow> bool \<times> redis" where
  "HDel d key field s = (let (r, s') = command d (HDEL key field) s
     in (case as_integer r of None \<Rightarrow> False | Some n \<Rightarrow> n > 0, s'))"

definition Del :: "delivery \<Rightarrow> string \<Rightarrow> redis \<Rightarrow> bool \<times> redis" where
  "Del d key s = (let (r, s') = command d (DEL key) s in (as_integer r \<noteq> None, s'))"

definition ExistsKey :: "delivery \<Rightarrow> string \<Rightarrow> redis \<Rightarrow> bool \<times> redis" where
  "ExistsKey d key s = (let (r, s') = command d (EXISTS key) s
     in (case as_integer r of None \<Rightarrow> False | Some n \<Rightarrow> n > 0, s'))"

datatype RedisReadStatus = Found string | Missing | Error

definition read_script :: "string \<Rightarrow> redis \<Rightarrow> reply \<times> redis" where
  "read_script key s = (if ttl s key > 0 then GET key s else (RNil, s))"

definition Read :: "delivery \<Rightarrow> string \<Rightarrow> bool \<Rightarrow> redis \<Rightarrow> RedisReadStatus \<times> redis" where
  "Read d key require_expiry s =
     (let (r, s') = command d (if require_expiry then read_script key else GET key) s
      in (case r of None \<Rightarrow> Error
          | Some RNil \<Rightarrow> Missing
          | Some (RString v) \<Rightarrow> Found v
          | Some _ \<Rightarrow> Error, s'))"

definition SetEx :: "delivery \<Rightarrow> string \<Rightarrow> string \<Rightarrow> int \<Rightarrow> redis \<Rightarrow> bool \<times> redis" where
  "SetEx d key value seconds s =
     (if seconds \<le> 0 then (False, s)
      else let (r, s') = command d (SET_EX key value seconds) s in (IsStatusOk r, s'))"

definition Evaluate :: "delivery \<Rightarrow> (redis \<Rightarrow> reply \<times> redis) \<Rightarrow> redis \<Rightarrow> int option \<times> redis" where
  "Evaluate d script s = (let (r, s') = command d script s in (as_integer r, s'))"

section \<open>Laws of the keyspace\<close>

lemma put_fields [simp]:
  "clock (put k v e s) = clock s" "ttl_seconds (put k v e s) = ttl_seconds s"
  "instance_of (put k v e s) = instance_of s"
  "clock (setex k w n s) = clock s" "ttl_seconds (setex k w n s) = ttl_seconds s"
  "instance_of (setex k w n s) = instance_of s"
  "clock (del k s) = clock s" "ttl_seconds (del k s) = ttl_seconds s" "instance_of (del k s) = instance_of s"
  by (simp_all add: put_def setex_def del_def)

lemma live_put [simp]:
  "live (put k v e s) k' =
    (if k' = k then (case e of None \<Rightarrow> Some (v, None) | Some x \<Rightarrow> if x \<le> clock s then None else Some (v, Some x))
     else live s k')"
  by (simp add: live_def put_def split: option.split)

lemma live_del [simp]: "live (del k s) k' = (if k' = k then None else live s k')"
  by (simp add: live_def del_def split: option.split)

lemma live_setex [simp]:
  "0 < n \<Longrightarrow> live (setex k v n s) k' =
    (if k' = k then Some (RStr v, Some (clock s + 1000 * of_int n)) else live s k')"
  by (simp add: setex_def)

lemma value_of_setex [simp]:
  "0 < n \<Longrightarrow> value_of (setex k v n s) k' = (if k' = k then Some v else value_of s k')"
  by (simp add: value_of_def)

lemma value_of_del [simp]: "value_of (del k s) k' = (if k' = k then None else value_of s k')"
  by (simp add: value_of_def)

lemma live_expire:
  "0 < n \<Longrightarrow> live (expire k n s) k' =
    (if k' = k then (case live s k of None \<Rightarrow> None | Some (v, _) \<Rightarrow> Some (v, Some (clock s + 1000 * of_int n)))
     else live s k')"
  by (auto simp: expire_def split: option.split prod.split)

lemma expire_fields [simp]:
  "clock (expire k n s) = clock s" "ttl_seconds (expire k n s) = ttl_seconds s"
  "instance_of (expire k n s) = instance_of s"
  by (simp_all add: expire_def split: option.split)

lemma value_of_expire [simp]: "0 < n \<Longrightarrow> value_of (expire k n s) k' = value_of s k'"
  by (auto simp: value_of_def live_expire split: option.splits rvalue.splits)

lemma wrong_type_live: "wrong_type s k \<Longrightarrow> live s k \<noteq> None"
  by (auto simp: wrong_type_def)

lemma value_not_wrong: "value_of s k = Some v \<Longrightarrow> \<not> wrong_type s k"
  by (simp add: wrong_type_def)

text \<open>A lookup after an update, for lists and hashes as for strings.\<close>

text \<open>Values put into Redis come back. A delivered \<^verbatim>\<open>Set\<close> or \<^verbatim>\<open>SetEx\<close> is seen by
  \<^verbatim>\<open>Get\<close>; a field set by \<^verbatim>\<open>HSet\<close> is returned by \<^verbatim>\<open>HGet\<close>; an element pushed on
  either end of a list is what the pop at that end returns, and the list is then as before the push.\<close>

theorem redis_round_trips:
  assumes "live s k = Some (RList xs, e) \<or> live s k = None \<and> xs = [] \<and> e = None"
    and "\<forall>c \<in> set h. byte c \<noteq> 0" "\<forall>c \<in> set g. byte c \<noteq> 0"
    and "live s g = Some (RHash m, e') \<or> live s g = None" "0 < n"
  shows "fst (Get Delivered k' (snd (Set Delivered k' v s))) = Some v \<and>
    fst (Get Delivered k' (snd (SetEx Delivered k' v n s))) = Some v \<and>
    fst (HGet Delivered g h (snd (HSet Delivered g h v s))) = v \<and>
    fst (LPop Delivered k (snd (LPush Delivered k v s))) = Some v \<and>
    fst (RPop Delivered k (snd (RPush Delivered k v s))) = Some v \<and>
    live (snd (LPop Delivered k (snd (LPush Delivered k v s)))) k = (if xs = [] then None else live s k) \<and>
    live (snd (RPop Delivered k (snd (RPush Delivered k v s)))) k = (if xs = [] then None else live s k)"
proof -
  have c: "c_str g = g" "c_str h = h" using assms(2,3) by (simp_all add: c_str_def takeWhile_eq_all_conv)
  have "\<forall>x. e = Some x \<longrightarrow> \<not> x \<le> clock s" "\<forall>x. live s g = Some (RHash m, Some x) \<longrightarrow> \<not> x \<le> clock s"
    using assms(1) by (auto simp: live_def split: option.splits if_splits)
  then show ?thesis
    using assms(1,4,5)
    by (auto simp: Get_def Set_def SetEx_def HGet_def HSet_def LPop_def LPush_def RPop_def RPush_def
        command_def GET_def SET_def SET_EX_def HGET_def HSET_def LPUSH_def LPOP_def RPUSH_def RPOP_def
        on_list_def on_hash_def as_string_def value_of_def wrong_type_def c update_conv'
        split: option.splits)
qed

definition empty_redis :: redis where
  "empty_redis = \<lparr>store = (\<lambda>_. None), clock = 0, ttl_seconds = (\<lambda>ms. \<lfloor>ms / 1000\<rfloor>),
     instance_of = (\<lambda>v. Some (Some v))\<rparr>"

theorem redis_round_trips_witness:
  "fst (HGet Delivered ''g'' ''h'' (snd (HSet Delivered ''g'' ''h'' ''v'' empty_redis))) = ''v'' \<and>
   fst (LPop Delivered ''k'' (snd (LPush Delivered ''k'' ''v'' empty_redis))) = Some ''v''"
proof -
  have "live empty_redis k = None" for k by (simp add: live_def empty_redis_def)
  then show ?thesis
    using redis_round_trips [of empty_redis "''k''" "[]" None "''h''" "''g''" "[]" None 1 "''q''" "''v''"]
    by (simp add: byte_def)
qed

end
