(* ===== verification/Leases.thy ===== *)
theory Leases
  imports Redis
begin

text \<open>
  The two leases kept in Redis under an owner's name: the distributed lock (\<^verbatim>\<open>DistLock.cpp\<close>,
  \<^verbatim>\<open>RedisMgr::AcquireLock\<close>, \<^verbatim>\<open>ReleaseLock\<close>) and a chat node's health record
  (\<^verbatim>\<open>PublishNode\<close>, \<^verbatim>\<open>RemoveNode\<close>). What both promise their clients is the locale
  \<open>owner_lease\<close>; exclusion is proved there once and both are interpretations of it; so is the gate server's lease on a verification code.
\<close>

section \<open>The contract of a lease\<close>

datatype lease_op = Acquire_op string string | Release_op string string | Wait_op rat

text \<open>Who performs an operation, and the time it takes.\<close>

primrec foreign :: "string \<Rightarrow> lease_op \<Rightarrow> bool" where
  "foreign a (Acquire_op n me) \<longleftrightarrow> me \<noteq> a"
| "foreign a (Release_op n me) \<longleftrightarrow> me \<noteq> a"
| "foreign a (Wait_op dt) \<longleftrightarrow> 0 \<le> dt"

primrec elapsed :: "lease_op \<Rightarrow> rat" where
  "elapsed (Acquire_op n me) = 0"
| "elapsed (Release_op n me) = 0"
| "elapsed (Wait_op dt) = dt"

lemma elapsed_foreign: "foreign a x \<Longrightarrow> 0 \<le> elapsed x"
  by (cases x) auto

locale owner_lease =
  fixes owner :: "'st \<Rightarrow> string \<Rightarrow> string option"
    and left :: "'st \<Rightarrow> string \<Rightarrow> rat"
    and acquire :: "string \<Rightarrow> string \<Rightarrow> 'st \<Rightarrow> bool \<times> 'st"
    and release :: "string \<Rightarrow> string \<Rightarrow> 'st \<Rightarrow> bool \<times> 'st"
    and advance :: "rat \<Rightarrow> 'st \<Rightarrow> 'st"
    and lease :: rat
    and ok :: "'st \<Rightarrow> bool"
  assumes acquire_taken: "ok s \<Longrightarrow> owner s n = Some a \<Longrightarrow> a \<noteq> me \<Longrightarrow>
      \<not> fst (acquire m me s) \<and> m = n \<or> m \<noteq> n"
    and acquire_keeps: "ok s \<Longrightarrow> owner s n = Some a \<Longrightarrow> a \<noteq> me \<Longrightarrow>
      owner (snd (acquire m me s)) n = Some a \<and> left (snd (acquire m me s)) n = left s n"
    and acquire_done: "ok s \<Longrightarrow> fst (acquire n me s) \<Longrightarrow>
      owner (snd (acquire n me s)) n = Some me \<and> left (snd (acquire n me s)) n = lease"
    and release_keeps: "ok s \<Longrightarrow> owner s n = Some a \<Longrightarrow> a \<noteq> me \<Longrightarrow>
      owner (snd (release m me s)) n = Some a \<and> left (snd (release m me s)) n = left s n"
    and release_done: "ok s \<Longrightarrow> fst (release n me s) \<Longrightarrow>
      owner s n = Some me \<and> owner (snd (release n me s)) n = None"
    and advance_keeps: "ok s \<Longrightarrow> owner s n = Some a \<Longrightarrow> 0 \<le> dt \<Longrightarrow> dt < left s n \<Longrightarrow>
      owner (advance dt s) n = Some a \<and> left (advance dt s) n = left s n - dt"
    and ok_acquire: "ok s \<Longrightarrow> ok (snd (acquire n me s))"
    and ok_release: "ok s \<Longrightarrow> ok (snd (release n me s))"
    and ok_advance: "ok s \<Longrightarrow> ok (advance dt s)"
begin

primrec perform :: "lease_op \<Rightarrow> 'st \<Rightarrow> 'st" where
  "perform (Acquire_op n me) s = snd (acquire n me s)"
| "perform (Release_op n me) s = snd (release n me s)"
| "perform (Wait_op dt) s = advance dt s"

lemma ok_perform: "ok s \<Longrightarrow> ok (perform x s)"
  by (cases x) (simp_all add: ok_acquire ok_release ok_advance)

lemma foreign_keeps:
  "ok s \<Longrightarrow> owner s n = Some a \<Longrightarrow> foreign a x \<Longrightarrow> elapsed x < left s n \<Longrightarrow>
    owner (perform x s) n = Some a \<and> left (perform x s) n = left s n - elapsed x"
  using acquire_keeps [of s n a] release_keeps [of s n a] advance_keeps [of s n a] by (cases x) auto

lemma foreigners_keep:
  assumes "ok s" "owner s n = Some a" "list_all (foreign a) xs" "sum_list (map elapsed xs) < left s n"
  shows "ok (fold perform xs s) \<and> owner (fold perform xs s) n = Some a"
  using assms
proof (induction xs arbitrary: s)
  case (Cons x xs)
  have "0 \<le> sum_list (map elapsed xs)"
    using Cons.prems(3) by (intro sum_list_nonneg) (auto simp: list_all_iff elapsed_foreign)
  then have "elapsed x < left s n" using Cons.prems(4) by simp
  then have "owner (perform x s) n = Some a" "left (perform x s) n = left s n - elapsed x"
    using foreign_keeps Cons.prems by auto
  with Cons ok_perform [of s x] show ?case by simp
qed simp

text \<open>While its lease lasts, nobody takes from an owner what it acquired.\<close>

lemma exclusive:
  assumes "ok s" "fst (acquire n a s)" "list_all (foreign a) xs" "sum_list (map elapsed xs) < lease" "b \<noteq> a"
  shows "owner (fold perform xs (snd (acquire n a s))) n = Some a \<and>
    \<not> fst (acquire n b (fold perform xs (snd (acquire n a s)))) \<and>
    \<not> fst (release n b (fold perform xs (snd (acquire n a s))))"
proof -
  let ?t = "fold perform xs (snd (acquire n a s))"
  have t: "ok ?t" "owner ?t n = Some a"
    using foreigners_keep [of "snd (acquire n a s)" n a xs] ok_acquire [OF assms(1)]
      acquire_done [OF assms(1,2)] assms(3,4) by auto
  then show ?thesis using acquire_taken [of ?t n a b n] release_done [of ?t n b] assms(5) by auto
qed

end

section \<open>The distributed lock\<close>

definition lock_key :: "string \<Rightarrow> string" where
  "lock_key lock_name = ''lock:'' @ lock_name"

text \<open>One turn of the loop in \<^verbatim>\<open>DistLock::Acquire\<close>.\<close>

definition try_lock :: "delivery \<Rightarrow> int \<Rightarrow> string \<Rightarrow> string \<Rightarrow> redis \<Rightarrow> bool \<times> redis" where
  "try_lock d seconds lock_name identifier s =
     (let (r, s') = command d (SET_NX_EX (lock_key lock_name) identifier seconds) s
      in (IsStatusOk r, s'))"

text \<open>
  The loop: each turn has the delivery of its command and whether the connection then reports an
  error; between turns other clients and time move Redis on (\<open>others\<close>). The turns before the
  deadline are a list, and the loop gives up at its end.
\<close>

record turn =
  turn_delivery :: delivery
  context_err :: bool
  others :: "redis \<Rightarrow> redis"

fun acquire_loop :: "turn list \<Rightarrow> int \<Rightarrow> string \<Rightarrow> string \<Rightarrow> redis \<Rightarrow> string \<times> redis" where
  "acquire_loop [] seconds lock_name identifier s = ([], s)"
| "acquire_loop (t # ts) seconds lock_name identifier s =
     (let (got, s') = try_lock (turn_delivery t) seconds lock_name identifier s
      in if got then (identifier, s')
         else if context_err t then ([], s')
         else acquire_loop ts seconds lock_name identifier (others t s'))"

definition Acquire :: "turn list \<Rightarrow> string \<Rightarrow> int \<Rightarrow> int \<Rightarrow> string \<Rightarrow> redis \<Rightarrow> string \<times> redis" where
  "Acquire turns lock_name lock_timeout acquire_timeout identifier s =
     (if lock_name = [] \<or> lock_timeout \<le> 0 \<or> acquire_timeout \<le> 0 then ([], s)
      else acquire_loop turns lock_timeout lock_name identifier s)"

definition release_script :: "string \<Rightarrow> string \<Rightarrow> redis \<Rightarrow> reply \<times> redis" where
  "release_script key identifier s =
     (if wrong_type s key then (RError, s)
      else if value_of s key = Some identifier then DEL key s else (RInteger 0, s))"

definition Release :: "delivery \<Rightarrow> string \<Rightarrow> string \<Rightarrow> redis \<Rightarrow> bool \<times> redis" where
  "Release d lock_name identifier s =
     (if lock_name = [] \<or> identifier = [] then (False, s)
      else let (r, s') = command d (release_script (lock_key lock_name) identifier) s
        in (r = Some (RInteger 1), s'))"

definition AcquireLock :: "bool \<Rightarrow> turn list \<Rightarrow> string \<Rightarrow> int \<Rightarrow> int \<Rightarrow> string \<Rightarrow> redis \<Rightarrow> string \<times> redis" where
  "AcquireLock has_connection turns lock_name lock_timeout acquire_timeout identifier s =
     (if \<not> has_connection then ([], s) else Acquire turns lock_name lock_timeout acquire_timeout identifier s)"

definition ReleaseLock :: "delivery \<Rightarrow> string \<Rightarrow> string \<Rightarrow> redis \<Rightarrow> bool \<times> redis" where
  "ReleaseLock d lock_name identifier s =
     (if identifier = [] then (False, s) else Release d lock_name identifier s)"

text \<open>Who holds a key, for how long, and the passing of time.\<close>

definition time_left :: "redis \<Rightarrow> string \<Rightarrow> rat" where
  "time_left s k = (case live s k of Some (_, Some e) \<Rightarrow> e - clock s | _ \<Rightarrow> 0)"

definition tick :: "rat \<Rightarrow> redis \<Rightarrow> redis" where
  "tick dt s = s\<lparr>clock := clock s + dt\<rparr>"

definition LOCK_TIME_OUT :: int where "LOCK_TIME_OUT = 30"
definition ACQUIRE_TIME_OUT :: int where "ACQUIRE_TIME_OUT = 5"

lemma lock_key_inj [key_simps, simp]: "(lock_key a = lock_key b) = (a = b)"
  by (simp add: lock_key_def)

lemma value_live: "value_of s k = Some v \<Longrightarrow> exists_key s k"
  by (auto simp: value_of_def exists_key_def split: option.splits)

lemma no_value: "\<not> exists_key s k \<Longrightarrow> value_of s k = None"
  using value_live by (cases "value_of s k") auto

lemma tick_live:
  "0 \<le> dt \<Longrightarrow> dt < time_left s k \<Longrightarrow> live (tick dt s) k = live s k \<and> time_left (tick dt s) k = time_left s k - dt"
  by (auto simp: live_def tick_def time_left_def split: option.splits if_splits)

lemma tick_value:
  "0 \<le> dt \<Longrightarrow> dt < time_left s k \<Longrightarrow> value_of (tick dt s) k = value_of s k"
  using tick_live by (simp add: value_of_def)

lemma time_left_setex [simp]:
  "0 < n \<Longrightarrow> time_left (setex k v n s) k' = (if k' = k then 1000 * of_int n else time_left s k')"
  by (simp add: time_left_def split: option.split)

lemma time_left_del [simp]: "k' \<noteq> k \<Longrightarrow> time_left (del k s) k' = time_left s k'"
  by (simp add: time_left_def split: option.split)

definition lock_owner :: "redis \<Rightarrow> string \<Rightarrow> string option" where
  "lock_owner s n = value_of s (lock_key n)"

definition lock_left :: "redis \<Rightarrow> string \<Rightarrow> rat" where
  "lock_left s n = time_left s (lock_key n)"

lemma try_lock_cases:
  obtains (untouched) r where "try_lock d LOCK_TIME_OUT n me s = (r, s)" "\<not> r"
  | (set) r where "try_lock d LOCK_TIME_OUT n me s = (r, setex (lock_key n) me LOCK_TIME_OUT s)" "lock_owner s n = None"
proof (cases "d = NotDelivered \<or> exists_key s (lock_key n)")
  case True
  then show thesis
    by (intro untouched [of False]) (auto simp: try_lock_def command_def SET_NX_EX_def IsStatusOk_def split: delivery.split)
next
  case False
  then have "lock_owner s n = None" using value_live by (fastforce simp: lock_owner_def)
  with False show thesis
    by (intro set [of "d = Delivered"]) (cases d; simp add: try_lock_def command_def SET_NX_EX_def IsStatusOk_def)+
qed

lemma ReleaseLock_cases:
  obtains (untouched) "ReleaseLock d n me s = (False, s)"
  | (deleted) r where "ReleaseLock d n me s = (r, del (lock_key n) s)" "lock_owner s n = Some me"
  by (cases d; cases "lock_owner s n = Some me"; cases "wrong_type s (lock_key n)"; cases "n = []"; cases "me = []")
    (auto simp: ReleaseLock_def Release_def command_def release_script_def DEL_def lock_owner_def)

interpretation dist_lock: owner_lease lock_owner lock_left "try_lock d LOCK_TIME_OUT" "ReleaseLock d'" tick
    "1000 * of_int LOCK_TIME_OUT" "\<lambda>s. True" for d d'
proof unfold_locales
  fix s n a me m
  assume o: "lock_owner s n = Some a" "a \<noteq> me"
  show "\<not> fst (try_lock d LOCK_TIME_OUT m me s) \<and> m = n \<or> m \<noteq> n"
    using o(1) by (cases rule: try_lock_cases [of d m me s]) auto
  show "lock_owner (snd (try_lock d LOCK_TIME_OUT m me s)) n = Some a \<and>
      lock_left (snd (try_lock d LOCK_TIME_OUT m me s)) n = lock_left s n"
    using o(1) by (cases rule: try_lock_cases [of d m me s]) (auto simp: lock_owner_def lock_left_def LOCK_TIME_OUT_def)
  show "lock_owner (snd (ReleaseLock d' m me s)) n = Some a \<and>
      lock_left (snd (ReleaseLock d' m me s)) n = lock_left s n"
    using o by (cases rule: ReleaseLock_cases [of d' m me s]) (auto simp: lock_owner_def lock_left_def)
next
  fix s n me
  assume "fst (try_lock d LOCK_TIME_OUT n me s)"
  then show "lock_owner (snd (try_lock d LOCK_TIME_OUT n me s)) n = Some me \<and>
      lock_left (snd (try_lock d LOCK_TIME_OUT n me s)) n = 1000 * of_int LOCK_TIME_OUT"
    by (cases rule: try_lock_cases [of d n me s]) (auto simp: lock_owner_def lock_left_def LOCK_TIME_OUT_def)
next
  fix s n me
  assume "fst (ReleaseLock d' n me s)"
  then show "lock_owner s n = Some me \<and> lock_owner (snd (ReleaseLock d' n me s)) n = None"
    by (cases rule: ReleaseLock_cases [of d' n me s]) (auto simp: lock_owner_def)
next
  fix s n a dt
  assume "lock_owner s n = Some a" "0 \<le> dt" "dt < lock_left s n"
  then show "lock_owner (tick dt s) n = Some a \<and> lock_left (tick dt s) n = lock_left s n - dt"
    using tick_live [of dt s "lock_key n"] tick_value [of dt s "lock_key n"]
    by (simp add: lock_owner_def lock_left_def)
qed auto

text \<open>C11: The distributed lock excludes. If \<^verbatim>\<open>SET NX EX\<close> granted the lock to an
  identifier, then for thirty seconds, whatever other identifiers try and release meanwhile (with
  any delivery of their commands) and however time passes, the lock stays with its owner, no other
  identifier acquires it and nobody else can release it.\<close>

theorem lock_excludes:
  assumes "fst (try_lock d LOCK_TIME_OUT n a s)" "list_all (foreign a) ops"
    and "sum_list (map elapsed ops) < 1000 * of_int LOCK_TIME_OUT" "b \<noteq> a"
  shows "let t = fold (dist_lock.perform d d') ops (snd (try_lock d LOCK_TIME_OUT n a s)) in
    lock_owner t n = Some a \<and> \<not> fst (try_lock d LOCK_TIME_OUT n b t) \<and> \<not> fst (ReleaseLock d' n b t)"
  unfolding Let_def by (rule dist_lock.exclusive [OF TrueI assms])

text \<open>\<^verbatim>\<open>DistLock::Acquire\<close> returns an identifier only when Redis granted it the lock in the
  last turn of its loop, and otherwise returns the empty string.\<close>

theorem acquire_grants:
  assumes "Acquire turns n seconds wait identifier s = (r, s')" "identifier \<noteq> []"
  shows "r = [] \<or> (r = identifier \<and> 0 < seconds \<and>
    (\<exists>s0. lock_owner s0 n = None \<and> s' = setex (lock_key n) identifier seconds s0))"
proof -
  have loop: "acquire_loop ts seconds n identifier s = (r, s') \<Longrightarrow> r = [] \<or> (r = identifier \<and>
    (\<exists>s0. lock_owner s0 n = None \<and> s' = setex (lock_key n) identifier seconds s0))" for ts
  proof (induction ts arbitrary: s)
    case (Cons t ts)
    obtain got s1 where g: "try_lock (turn_delivery t) seconds n identifier s = (got, s1)" by (metis surj_pair)
    show ?case
    proof (cases got)
      case True
      then have "s1 = setex (lock_key n) identifier seconds s" "lock_owner s n = None"
        using g no_value [of s "lock_key n"]
        by (auto simp: try_lock_def command_def SET_NX_EX_def IsStatusOk_def lock_owner_def
            split: delivery.splits if_splits)
      then show ?thesis using Cons.prems g True by auto
    next
      case False
      then show ?thesis using Cons g by (auto split: if_splits)
    qed
  qed simp
  then show ?thesis using assms by (auto simp: Acquire_def split: if_splits)
qed

section \<open>The health lease of a chat node\<close>

definition node_key :: "string \<Rightarrow> string" where
  "node_key name = NodeHealthPrefix @ name"

definition health_text :: "jsoncpp \<Rightarrow> string \<Rightarrow> nat \<Rightarrow> string" where
  "health_text J instance_id online_count =
     toStyledString J (set_members [(''instance_id'', JStr instance_id), (''online'', JInt (int online_count))] JNull)"

definition publish_script :: "string \<Rightarrow> string \<Rightarrow> string \<Rightarrow> int \<Rightarrow> redis \<Rightarrow> reply \<times> redis" where
  "publish_script key instance_id health seconds s =
     (if wrong_type s key then (RError, s)
      else case value_of s key of
        None \<Rightarrow> (RInteger 1, setex key health seconds s)
      | Some v \<Rightarrow> (case instance_of s v of None \<Rightarrow> (RError, s)
          | Some i \<Rightarrow> if i \<noteq> Some instance_id then (RInteger 0, s)
                      else (RInteger 1, setex key health seconds s)))"

definition PublishNode :: "jsoncpp \<Rightarrow> delivery \<Rightarrow> nat \<Rightarrow> string \<Rightarrow> string \<Rightarrow> redis \<Rightarrow> bool \<times> redis" where
  "PublishNode J d online_count name instance_id s =
     (let (r, s') = Evaluate d (publish_script (node_key name) instance_id
            (health_text J instance_id online_count) NodeLeaseSeconds) s
      in (r = Some 1, s'))"

definition remove_script :: "string \<Rightarrow> string \<Rightarrow> redis \<Rightarrow> reply \<times> redis" where
  "remove_script key instance_id s =
     (if wrong_type s key then (RError, s)
      else case value_of s key of
        None \<Rightarrow> (RInteger 0, s)
      | Some v \<Rightarrow> (case instance_of s v of None \<Rightarrow> (RError, s)
          | Some i \<Rightarrow> if i = Some instance_id then DEL key s else (RInteger 0, s)))"

definition RemoveNode :: "delivery \<Rightarrow> string \<Rightarrow> string \<Rightarrow> redis \<Rightarrow> bool \<times> redis" where
  "RemoveNode d name instance_id s =
     (let (r, s') = Evaluate d (remove_script (node_key name) instance_id) s in (r = Some 1, s'))"

definition node_owner :: "redis \<Rightarrow> string \<Rightarrow> string option" where
  "node_owner s name = Option.bind (value_of s (node_key name)) (\<lambda>v. Option.bind (instance_of s v) id)"

definition node_left :: "redis \<Rightarrow> string \<Rightarrow> rat" where
  "node_left s name = time_left s (node_key name)"

text \<open>What the scripts rely on: \<^verbatim>\<open>cjson\<close> reads back the instance id jsoncpp wrote.\<close>

definition reads_health :: "jsoncpp \<Rightarrow> redis \<Rightarrow> bool" where
  "reads_health J s \<longleftrightarrow> (\<forall>i n. instance_of s (health_text J i n) = Some (Some i))"

lemma node_key_inj [key_simps, simp]: "(node_key a = node_key b) = (a = b)"
  by (simp add: node_key_def)

lemma PublishNode_cases:
  obtains (untouched) "PublishNode J d c n me s = (False, s)"
  | (set) r where "PublishNode J d c n me s = (r, setex (node_key n) (health_text J me c) NodeLeaseSeconds s)"
      "node_owner s n = None \<or> node_owner s n = Some me"
proof (cases "d = NotDelivered \<or> wrong_type s (node_key n) \<or>
    (\<exists>v. value_of s (node_key n) = Some v \<and> instance_of s v \<noteq> Some (Some me))")
  case True
  then have "PublishNode J d c n me s = (False, s)"
    by (cases d) (auto simp: PublishNode_def Evaluate_def command_def publish_script_def as_integer_def split: option.splits)
  then show thesis by (rule untouched)
next
  case False
  then have "PublishNode J d c n me s = (d = Delivered, setex (node_key n) (health_text J me c) NodeLeaseSeconds s)"
    by (cases d) (auto simp: PublishNode_def Evaluate_def command_def publish_script_def as_integer_def split: option.splits)
  moreover have "node_owner s n = None \<or> node_owner s n = Some me"
    using False by (cases "value_of s (node_key n)") (auto simp: node_owner_def)
  ultimately show thesis by (rule set)
qed

lemma RemoveNode_cases:
  obtains (untouched) "RemoveNode d n me s = (False, s)"
  | (deleted) r where "RemoveNode d n me s = (r, del (node_key n) s)" "node_owner s n = Some me"
proof (cases "d = NotDelivered \<or> wrong_type s (node_key n) \<or> node_owner s n \<noteq> Some me")
  case True
  then have "RemoveNode d n me s = (False, s)"
    by (cases d) (auto simp: RemoveNode_def Evaluate_def command_def remove_script_def as_integer_def
        node_owner_def split: option.splits)
  then show thesis by (rule untouched)
next
  case False
  then have "snd (RemoveNode d n me s) = del (node_key n) s"
    by (cases d) (auto simp: RemoveNode_def Evaluate_def command_def remove_script_def as_integer_def
        node_owner_def DEL_def split: option.splits)
  with False show thesis by (intro deleted [of "fst (RemoveNode d n me s)"]) (simp_all add: prod_eq_iff)
qed

interpretation node_lease: owner_lease node_owner node_left "PublishNode J d c" "RemoveNode d'" tick
    "1000 * of_int NodeLeaseSeconds" "reads_health J" for J d c d'
proof unfold_locales
  fix s n a me m
  assume ok: "reads_health J s" and o: "node_owner s n = Some a" "a \<noteq> me"
  show "\<not> fst (PublishNode J d c m me s) \<and> m = n \<or> m \<noteq> n"
    using o by (cases rule: PublishNode_cases [of J d c m me s]) auto
  show "node_owner (snd (PublishNode J d c m me s)) n = Some a \<and>
      node_left (snd (PublishNode J d c m me s)) n = node_left s n"
    using o by (cases rule: PublishNode_cases [of J d c m me s])
      (auto simp: node_owner_def node_left_def NodeLeaseSeconds_def)
  show "node_owner (snd (RemoveNode d' m me s)) n = Some a \<and>
      node_left (snd (RemoveNode d' m me s)) n = node_left s n"
    using o by (cases rule: RemoveNode_cases [of d' m me s]) (auto simp: node_owner_def node_left_def)
next
  fix s n me
  assume "reads_health J s" "fst (PublishNode J d c n me s)"
  then show "node_owner (snd (PublishNode J d c n me s)) n = Some me \<and>
      node_left (snd (PublishNode J d c n me s)) n = 1000 * of_int NodeLeaseSeconds"
    by (cases rule: PublishNode_cases [of J d c n me s])
      (auto simp: node_owner_def node_left_def NodeLeaseSeconds_def reads_health_def)
next
  fix s n me
  assume "fst (RemoveNode d' n me s)"
  then show "node_owner s n = Some me \<and> node_owner (snd (RemoveNode d' n me s)) n = None"
    by (cases rule: RemoveNode_cases [of d' n me s]) (auto simp: node_owner_def)
next
  fix s n a dt
  assume "node_owner s n = Some a" "0 \<le> dt" "dt < node_left s n"
  then show "node_owner (tick dt s) n = Some a \<and> node_left (tick dt s) n = node_left s n - dt"
    using tick_live [of dt s "node_key n"] tick_value [of dt s "node_key n"]
    by (simp add: node_owner_def node_left_def tick_def)
next
  fix s n me
  assume "reads_health J s"
  then show "reads_health J (snd (PublishNode J d c n me s))"
    by (cases rule: PublishNode_cases [of J d c n me s]) (auto simp: reads_health_def)
next
  fix s n me
  assume "reads_health J s"
  then show "reads_health J (snd (RemoveNode d' n me s))"
    by (cases rule: RemoveNode_cases [of d' n me s]) (auto simp: reads_health_def)
next
  fix s dt
  assume "reads_health J s"
  then show "reads_health J (tick dt s)" by (simp add: reads_health_def tick_def)
qed

text \<open>One instance owns a node name. After an instance published its health record, for
  thirty seconds no other instance can publish under that name or remove the record, whatever
  other instances do meanwhile, provided \<^verbatim>\<open>cjson\<close> reads the instance id back from the
  record.\<close>

theorem node_name_owned:
  assumes "reads_health J s" "fst (PublishNode J d c n a s)" "list_all (foreign a) ops"
    and "sum_list (map elapsed ops) < 1000 * of_int NodeLeaseSeconds" "b \<noteq> a"
  shows "let t = fold (node_lease.perform J d c d') ops (snd (PublishNode J d c n a s)) in
    node_owner t n = Some a \<and> \<not> fst (PublishNode J d c n b t) \<and> \<not> fst (RemoveNode d' n b t)"
  unfolding Let_def by (rule node_lease.exclusive [OF assms])

section \<open>Two clients and two instances\<close>

definition plain_json :: jsoncpp where
  "plain_json = \<lparr>parse = (\<lambda>s. (False, JNull)), toStyledString = (\<lambda>d. str_of (index d ''instance_id'')),
     writeString = (\<lambda>d. []), realToString = (\<lambda>r. [])\<rparr>"

lemma plain_reads: "reads_health plain_json empty_redis"
  by (simp add: reads_health_def plain_json_def health_text_def empty_redis_def index_def get_default_def)

theorem lock_excludes_witness:
  "let t = fold (dist_lock.perform Delivered ReplyLost)
       [Wait_op 5000, Release_op ''login'' ''bob'', Acquire_op ''login'' ''bob'', Wait_op 24999]
       (snd (try_lock Delivered LOCK_TIME_OUT ''login'' ''ann'' empty_redis))
   in lock_owner t ''login'' = Some ''ann'' \<and> \<not> fst (try_lock Delivered LOCK_TIME_OUT ''login'' ''bob'' t) \<and>
      \<not> fst (ReleaseLock ReplyLost ''login'' ''bob'' t)"
  by (rule lock_excludes)
    (simp_all add: try_lock_def command_def SET_NX_EX_def exists_key_def live_def empty_redis_def
      IsStatusOk_def LOCK_TIME_OUT_def)

theorem acquire_grants_witness:
  "fst (Acquire [\<lparr>turn_delivery = Delivered, context_err = False, others = id\<rparr>] ''login'' 30 5 ''ann'' empty_redis)
     \<in> {[], ''ann''}"
proof -
  obtain r s' where "Acquire [\<lparr>turn_delivery = Delivered, context_err = False, others = id\<rparr>] ''login'' 30 5
      ''ann'' empty_redis = (r, s')" by (metis surj_pair)
  from this acquire_grants [OF this] show ?thesis by auto
qed

theorem node_name_owned_witness:
  "let t = fold (node_lease.perform plain_json Delivered 0 Delivered)
       [Wait_op 29999, Release_op ''chat1'' ''bob''] (snd (PublishNode plain_json Delivered 0 ''chat1'' ''ann'' empty_redis))
   in node_owner t ''chat1'' = Some ''ann'' \<and> \<not> fst (PublishNode plain_json Delivered 0 ''chat1'' ''bob'' t) \<and>
      \<not> fst (RemoveNode Delivered ''chat1'' ''bob'' t)"
  by (rule node_name_owned [OF plain_reads])
    (simp_all add: PublishNode_def Evaluate_def command_def publish_script_def as_integer_def value_of_def
      wrong_type_def live_def empty_redis_def NodeLeaseSeconds_def)

end
