(* ===== verification/Credentials.thy ===== *)
theory Credentials
  imports Leases
begin

text \<open>
  A user's device slots in Redis: the pending token handed out by the status server, and per device
  the active token, the session id and the chat node (\<^verbatim>\<open>RedisMgr::RegisterSession\<close>,
  \<^verbatim>\<open>RefreshSession\<close>, \<^verbatim>\<open>ReleaseSession\<close>, \<^verbatim>\<open>Destinations\<close>). The Lua
  scripts are functions on the keyspace; a script that reads a key of the wrong type fails.
\<close>

definition pending_key :: "int \<Rightarrow> string" where
  "pending_key uid = PendingTokenPrefix @ to_string uid"

definition pending_token_key :: "int \<Rightarrow> string \<Rightarrow> string" where
  "pending_token_key uid token = pending_key uid @ '':'' @ token"

definition token_key :: "int \<Rightarrow> string \<Rightarrow> string" where
  "token_key uid device = RESOURCE_TOKEN_PREFIX @ DeviceKey uid device"

definition session_key :: "int \<Rightarrow> string \<Rightarrow> string" where
  "session_key uid device = USER_SESSION_PREFIX @ DeviceKey uid device"

definition ip_key :: "int \<Rightarrow> string \<Rightarrow> string" where
  "ip_key uid device = USER_IP_PREFIX @ DeviceKey uid device"

text \<open>\<^verbatim>\<open>redis.call('get',k)==v and redis.call('ttl',k)>0\<close>; \<^term>\<open>None\<close> is a script error.\<close>

definition lua_credential :: "redis \<Rightarrow> string \<Rightarrow> string \<Rightarrow> bool option" where
  "lua_credential s k v =
     (if wrong_type s k then None else Some (value_of s k = Some v \<and> ttl s k > 0))"

definition lua_or :: "bool option \<Rightarrow> bool option \<Rightarrow> bool option" where
  "lua_or a b = (case a of None \<Rightarrow> None | Some True \<Rightarrow> Some True | Some False \<Rightarrow> b)"

definition register_script ::
    "string \<Rightarrow> string \<Rightarrow> string \<Rightarrow> string \<Rightarrow> string \<Rightarrow> string \<Rightarrow> string \<Rightarrow> string \<Rightarrow> int \<Rightarrow> redis \<Rightarrow> reply \<times> redis" where
  "register_script k1 k2 k3 k4 k5 token session_id server_name seconds s =
     (case lua_or (lua_credential s k1 token) (lua_or (lua_credential s k5 token) (lua_credential s k2 token)) of
        None \<Rightarrow> (RError, s)
      | Some False \<Rightarrow> (RInteger 0, s)
      | Some True \<Rightarrow>
         (let s1 = setex k4 server_name seconds (setex k3 session_id seconds (setex k2 token seconds s))
          in if wrong_type s1 k1 then (RError, s1)
             else (RInteger 1, del k5 (if value_of s1 k1 = Some token then del k1 s1 else s1))))"

definition RegisterSession ::
    "delivery \<Rightarrow> int \<Rightarrow> string \<Rightarrow> string \<Rightarrow> string \<Rightarrow> string \<Rightarrow> redis \<Rightarrow> ErrorCodes \<times> redis" where
  "RegisterSession d uid session_id server_name token device s =
     (if \<not> ValidDevice device then (TokenInvalid, s)
      else let (result, s') = Evaluate d (register_script (pending_key uid) (token_key uid device)
                 (session_key uid device) (ip_key uid device) (pending_token_key uid token)
                 token session_id server_name ActiveSessionSeconds) s
        in (case result of None \<Rightarrow> RedisError | Some r \<Rightarrow> if r = 1 then Success else TokenInvalid, s'))"

definition refresh_script :: "string \<Rightarrow> string \<Rightarrow> string \<Rightarrow> string \<Rightarrow> int \<Rightarrow> redis \<Rightarrow> reply \<times> redis" where
  "refresh_script k1 k2 k3 session_id seconds s =
     (if wrong_type s k1 then (RError, s)
      else if value_of s k1 \<noteq> Some session_id \<or> \<not> exists_key s k2 then (RInteger 0, s)
      else (RInteger 1, expire k3 seconds (expire k2 seconds (expire k1 seconds s))))"

text \<open>The loop over the two devices, with the delivery of each script.\<close>

definition refresh_device :: "delivery \<Rightarrow> int \<Rightarrow> string \<Rightarrow> string \<Rightarrow> redis \<Rightarrow> int option \<times> redis" where
  "refresh_device d uid session_id device =
     Evaluate d (refresh_script (session_key uid device) (token_key uid device) (ip_key uid device)
       session_id ActiveSessionSeconds)"

definition RefreshSession :: "delivery \<Rightarrow> delivery \<Rightarrow> int \<Rightarrow> string \<Rightarrow> redis \<Rightarrow> int \<times> redis" where
  "RefreshSession d1 d2 uid session_id s =
     (case refresh_device d1 uid session_id ''desktop'' s of
        (None, s1) \<Rightarrow> (-1, s1)
      | (Some r, s1) \<Rightarrow> if r = 1 then (1, s1)
          else (case refresh_device d2 uid session_id ''android'' s1 of
             (None, s2) \<Rightarrow> (-1, s2)
           | (Some r2, s2) \<Rightarrow> if r2 = 1 then (1, s2) else (0, s2)))"

definition release_session_script :: "string \<Rightarrow> string \<Rightarrow> string \<Rightarrow> string \<Rightarrow> redis \<Rightarrow> reply \<times> redis" where
  "release_session_script k1 k2 k3 session_id s =
     (if wrong_type s k1 then (RError, s)
      else if value_of s k1 \<noteq> Some session_id then (RInteger 0, s)
      else (RInteger 1, del k3 (del k2 (del k1 s))))"

definition release_device :: "delivery \<Rightarrow> int \<Rightarrow> string \<Rightarrow> string \<Rightarrow> redis \<Rightarrow> int option \<times> redis" where
  "release_device d uid session_id device =
     Evaluate d (release_session_script (session_key uid device) (token_key uid device) (ip_key uid device) session_id)"

definition ReleaseSession :: "delivery \<Rightarrow> delivery \<Rightarrow> int \<Rightarrow> string \<Rightarrow> redis \<Rightarrow> bool \<times> redis" where
  "ReleaseSession d1 d2 uid session_id s =
     (case release_device d1 uid session_id ''desktop'' s of
        (None, s1) \<Rightarrow> (False, s1)
      | (Some r, s1) \<Rightarrow>
          (case release_device d2 uid session_id ''android'' s1 of
             (None, s2) \<Rightarrow> (False, s2) | (Some r2, s2) \<Rightarrow> (True, s2)))"

definition Destinations :: "delivery \<Rightarrow> delivery \<Rightarrow> int \<Rightarrow> redis \<Rightarrow> string list \<times> redis" where
  "Destinations d1 d2 uid s =
     (let (n1, s1) = Get d1 (ip_key uid ''desktop'') s;
          (n2, s2) = Get d2 (ip_key uid ''android'') s1;
          add = (\<lambda>n result. case n of None \<Rightarrow> result
            | Some node \<Rightarrow> if node \<noteq> [] \<and> node \<notin> set result then result @ [node] else result)
      in (add n2 (add n1 []), s2))"

section \<open>Keys\<close>

lemma key_prefix:
  "take 2 (token_key u d) = ''re''" "take 2 (session_key u d) = ''us''" "take 2 (ip_key u d) = ''ui''"
  "take 2 (pending_key u) = ''ut''" "take 2 (pending_token_key u t) = ''ut''"
  by (simp_all add: token_key_def session_key_def ip_key_def pending_key_def pending_token_key_def
      RESOURCE_TOKEN_PREFIX_def USER_SESSION_PREFIX_def USER_IP_PREFIX_def PendingTokenPrefix_def)

lemma take2_neq: "take 2 a \<noteq> take 2 b \<Longrightarrow> a \<noteq> (b :: string)"
  by auto

lemma key_distinct [key_simps, simp]:
  "token_key u d \<noteq> session_key u' d'" "token_key u d \<noteq> ip_key u' d'" "token_key u d \<noteq> pending_key u'"
  "token_key u d \<noteq> pending_token_key u' t" "session_key u d \<noteq> ip_key u' d'" "session_key u d \<noteq> pending_key u'"
  "session_key u d \<noteq> pending_token_key u' t" "ip_key u d \<noteq> pending_key u'" "ip_key u d \<noteq> pending_token_key u' t"
  "session_key u d \<noteq> token_key u' d'" "ip_key u d \<noteq> token_key u' d'" "pending_key u' \<noteq> token_key u d"
  "pending_token_key u' t \<noteq> token_key u d" "ip_key u d \<noteq> session_key u' d'" "pending_key u' \<noteq> session_key u d"
  "pending_token_key u' t \<noteq> session_key u d" "pending_key u' \<noteq> ip_key u d" "pending_token_key u' t \<noteq> ip_key u d"
  by (rule take2_neq, simp add: key_prefix)+

lemma slot_key_inj:
  assumes "ValidDevice d" "ValidDevice d'"
  shows "(token_key u d = token_key u' d') = (u = u' \<and> d = d')"
    "(session_key u d = session_key u' d') = (u = u' \<and> d = d')"
    "(ip_key u d = ip_key u' d') = (u = u' \<and> d = d')"
  using DeviceKey_inj [OF assms] by (simp_all add: token_key_def session_key_def ip_key_def)

lemma pending_key_inj [key_simps, simp]:
  "(pending_key u = pending_key v) = (u = v)" "pending_key u \<noteq> pending_token_key v t"
  "pending_token_key v t \<noteq> pending_key u"
  "(pending_token_key u t = pending_token_key v t') = (u = v \<and> t = t')"
proof -
  show "(pending_key u = pending_key v) = (u = v)" by (simp add: pending_key_def)
  have "to_string u \<noteq> to_string v @ CHR '':'' # t" for u
  proof
    assume "to_string u = to_string v @ CHR '':'' # t"
    then have "CHR '':'' \<in> set (to_string u)" by simp
    then show False by simp
  qed
  then show "pending_key u \<noteq> pending_token_key v t" "pending_token_key v t \<noteq> pending_key u"
    by (auto simp: pending_key_def pending_token_key_def dest: sym)
  show "(pending_token_key u t = pending_token_key v t') = (u = v \<and> t = t')"
    using append_eq_sep [of "CHR '':''" "to_string u" "to_string v" t t']
    by (auto simp: pending_key_def pending_token_key_def)
qed

section \<open>What the scripts do\<close>

definition slot_keys :: "int \<Rightarrow> string \<Rightarrow> string set" where
  "slot_keys uid device = {token_key uid device, session_key uid device, ip_key uid device}"

text \<open>A credential that admits the token to the device's slot.\<close>

definition admits :: "redis \<Rightarrow> int \<Rightarrow> string \<Rightarrow> string \<Rightarrow> bool" where
  "admits s uid token device \<longleftrightarrow>
     (\<exists>k \<in> {pending_key uid, pending_token_key uid token, token_key uid device}.
        value_of s k = Some token \<and> 0 < ttl s k)"

lemma lua_or_cases:
  "lua_or a b = Some True \<longleftrightarrow> a = Some True \<or> a = Some False \<and> b = Some True"
  "lua_or a b = Some r \<Longrightarrow> a \<noteq> None"
  by (auto simp: lua_or_def split: option.splits bool.splits)

lemma lua_credential_cases:
  "lua_credential s k v = Some True \<longleftrightarrow> \<not> wrong_type s k \<and> value_of s k = Some v \<and> 0 < ttl s k"
  "lua_credential s k v \<noteq> None \<longleftrightarrow> \<not> wrong_type s k"
  by (auto simp: lua_credential_def)

definition registered_state :: "int \<Rightarrow> string \<Rightarrow> string \<Rightarrow> string \<Rightarrow> string \<Rightarrow> redis \<Rightarrow> redis" where
  "registered_state uid session_id server_name token device s =
     (let s1 = setex (ip_key uid device) server_name ActiveSessionSeconds
          (setex (session_key uid device) session_id ActiveSessionSeconds
            (setex (token_key uid device) token ActiveSessionSeconds s))
      in del (pending_token_key uid token)
           (if value_of s1 (pending_key uid) = Some token then del (pending_key uid) s1 else s1))"

lemma active_pos [simp]: "0 < ActiveSessionSeconds"
  by (simp add: ActiveSessionSeconds_def)

lemma RegisterSession_cases:
  obtains (refused) e where "RegisterSession d uid sid srv tok dev s = (e, s)" "e \<noteq> Success"
  | (stored) e where "RegisterSession d uid sid srv tok dev s = (e, registered_state uid sid srv tok dev s)"
      "ValidDevice dev" "admits s uid tok dev" "d \<noteq> NotDelivered"
      "e = Success \<longleftrightarrow> d = Delivered"
proof (cases "ValidDevice dev \<and> d \<noteq> NotDelivered \<and>
    lua_or (lua_credential s (pending_key uid) tok) (lua_or (lua_credential s (pending_token_key uid tok) tok)
      (lua_credential s (token_key uid dev) tok)) = Some True")
  case False
  define c where "c = lua_or (lua_credential s (pending_key uid) tok) (lua_or (lua_credential s (pending_token_key uid tok) tok)
      (lua_credential s (token_key uid dev) tok))"
  have "snd (RegisterSession d uid sid srv tok dev s) = s \<and> fst (RegisterSession d uid sid srv tok dev s) \<noteq> Success"
    using False unfolding c_def [symmetric]
    by (cases d; cases c rule: option.exhaust; cases "the c")
      (auto simp: RegisterSession_def Evaluate_def command_def register_script_def as_integer_def
        c_def [symmetric])
  then show thesis by (intro refused [of "fst (RegisterSession d uid sid srv tok dev s)"]) (simp_all add: prod_eq_iff)
next
  case True
  define s1 where "s1 = setex (ip_key uid dev) srv ActiveSessionSeconds
          (setex (session_key uid dev) sid ActiveSessionSeconds
            (setex (token_key uid dev) tok ActiveSessionSeconds s))"
  have "live s1 (pending_key uid) = live s (pending_key uid)" by (simp add: s1_def)
  then have w: "\<not> wrong_type s1 (pending_key uid)"
    using True lua_or_cases(2) [of "lua_credential s (pending_key uid) tok"] lua_credential_cases(2) [of s "pending_key uid" tok]
    by (auto simp: wrong_type_def value_of_def)
  have adm: "admits s uid tok dev"
    using True by (auto simp: admits_def lua_or_cases lua_credential_cases)
  have "RegisterSession d uid sid srv tok dev s =
      (if d = Delivered then Success else RedisError, registered_state uid sid srv tok dev s)"
    using True w by (cases d) (auto simp: RegisterSession_def Evaluate_def command_def register_script_def
        as_integer_def registered_state_def s1_def [symmetric] Let_def)
  with True adm show thesis by (intro stored [of "if d = Delivered then Success else RedisError"]) auto
qed

lemma registered_live:
  "live (registered_state uid sid srv tok dev s) k =
    (if k = ip_key uid dev then Some (RStr srv, Some (clock s + 1000 * of_int ActiveSessionSeconds))
     else if k = session_key uid dev then Some (RStr sid, Some (clock s + 1000 * of_int ActiveSessionSeconds))
     else if k = token_key uid dev then Some (RStr tok, Some (clock s + 1000 * of_int ActiveSessionSeconds))
     else if k = pending_token_key uid tok \<or> (k = pending_key uid \<and> value_of s k = Some tok) then None
     else live s k)"
  by (auto simp: registered_state_def Let_def value_of_def)

lemma registered_value:
  "value_of (registered_state uid sid srv tok dev s) k =
    (if k = ip_key uid dev then Some srv else if k = session_key uid dev then Some sid
     else if k = token_key uid dev then Some tok
     else if k = pending_token_key uid tok \<or> (k = pending_key uid \<and> value_of s k = Some tok) then None
     else value_of s k)"
  by (auto simp: registered_state_def Let_def)

text \<open>Registering a session. If \<^verbatim>\<open>RegisterSession\<close> succeeds, the token was a live
  pending credential of the user or the live active credential of that very device; afterwards the
  device's token, session id and node are the new ones for one hour, the pending credential is
  consumed, and no key of another device or user has changed. Unless it succeeds or its reply is
  lost, Redis is unchanged.\<close>

theorem register_session_effect:
  assumes "RegisterSession d uid sid srv tok dev s = (e, s')"
  shows "(e = Success \<longrightarrow> ValidDevice dev \<and> admits s uid tok dev) \<and>
    (e \<noteq> Success \<and> d \<noteq> ReplyLost \<longrightarrow> s' = s) \<and>
    (e = Success \<longrightarrow>
       value_of s' (token_key uid dev) = Some tok \<and> value_of s' (session_key uid dev) = Some sid \<and>
       value_of s' (ip_key uid dev) = Some srv \<and>
       (\<forall>k \<in> slot_keys uid dev. time_left s' k = 3600 * 1000) \<and>
       value_of s' (pending_token_key uid tok) = None \<and> value_of s' (pending_key uid) \<noteq> Some tok \<and>
       (\<forall>k. k \<notin> slot_keys uid dev \<union> {pending_key uid, pending_token_key uid tok} \<longrightarrow> live s' k = live s k))"
proof (cases rule: RegisterSession_cases [of d uid sid srv tok dev s])
  case (refused e')
  with assms show ?thesis by auto
next
  case (stored e')
  have "clock (registered_state uid sid srv tok dev s) = clock s" by (simp add: registered_state_def Let_def)
  with stored assms show ?thesis
    by (cases d) (auto simp: registered_value registered_live slot_keys_def time_left_def ActiveSessionSeconds_def
        split: if_splits)
qed

section \<open>Releasing and refreshing\<close>

lemma release_device_cases:
  obtains (untouched) r where "release_device d uid sid dev s = (r, s)"
      "r \<noteq> None \<Longrightarrow> value_of s (session_key uid dev) \<noteq> Some sid"
  | (deleted) r where "release_device d uid sid dev s =
      (r, del (ip_key uid dev) (del (token_key uid dev) (del (session_key uid dev) s)))"
      "value_of s (session_key uid dev) = Some sid"
proof (cases "d \<noteq> NotDelivered \<and> value_of s (session_key uid dev) = Some sid")
  case True
  then have "\<not> wrong_type s (session_key uid dev)" using value_not_wrong by blast
  with True have "snd (release_device d uid sid dev s) =
      del (ip_key uid dev) (del (token_key uid dev) (del (session_key uid dev) s))"
    by (cases d) (simp_all add: release_device_def Evaluate_def command_def release_session_script_def)
  with True show thesis by (intro deleted [of "fst (release_device d uid sid dev s)"]) (simp_all add: prod_eq_iff)
next
  case False
  then have "snd (release_device d uid sid dev s) = s"
    by (cases d) (auto simp: release_device_def Evaluate_def command_def release_session_script_def)
  with False show thesis
    by (intro untouched [of "fst (release_device d uid sid dev s)"])
      (auto simp: prod_eq_iff release_device_def Evaluate_def command_def as_integer_def split: delivery.splits)
qed

lemma refresh_device_cases:
  obtains (untouched) r where "refresh_device d uid sid dev s = (r, s)" "r \<noteq> Some 1"
      "r \<noteq> None \<Longrightarrow> value_of s (session_key uid dev) \<noteq> Some sid \<or> \<not> exists_key s (token_key uid dev)"
  | (renewed) r where "refresh_device d uid sid dev s =
      (r, expire (ip_key uid dev) ActiveSessionSeconds (expire (token_key uid dev) ActiveSessionSeconds
            (expire (session_key uid dev) ActiveSessionSeconds s)))"
      "value_of s (session_key uid dev) = Some sid" "exists_key s (token_key uid dev)" "r = None \<or> r = Some 1"
proof (cases "d \<noteq> NotDelivered \<and> value_of s (session_key uid dev) = Some sid \<and> exists_key s (token_key uid dev)")
  case True
  then have "\<not> wrong_type s (session_key uid dev)" using value_not_wrong by blast
  with True have "refresh_device d uid sid dev s =
      (if d = Delivered then Some 1 else None, expire (ip_key uid dev) ActiveSessionSeconds
         (expire (token_key uid dev) ActiveSessionSeconds (expire (session_key uid dev) ActiveSessionSeconds s)))"
    by (cases d) (simp_all add: refresh_device_def Evaluate_def command_def refresh_script_def as_integer_def)
  with True show thesis by (intro renewed) auto
next
  case False
  then have "snd (refresh_device d uid sid dev s) = s \<and> fst (refresh_device d uid sid dev s) \<noteq> Some 1"
    by (cases d) (auto simp: refresh_device_def Evaluate_def command_def refresh_script_def as_integer_def)
  with False show thesis
    by (intro untouched [of "fst (refresh_device d uid sid dev s)"])
      (auto simp: prod_eq_iff refresh_device_def Evaluate_def command_def as_integer_def split: delivery.splits)
qed

text \<open>Nothing is added to the keyspace: a key keeps its value or disappears.\<close>

definition shrinks :: "redis \<Rightarrow> redis \<Rightarrow> bool" where
  "shrinks s s' \<longleftrightarrow> (\<forall>k. (value_of s' k = value_of s k \<or> value_of s' k = None) \<and> (live s k = None \<longrightarrow> live s' k = None))"

lemma shrinks_refl [simp]: "shrinks s s"
  by (simp add: shrinks_def)

lemma shrinks_trans: "shrinks s t \<Longrightarrow> shrinks t u \<Longrightarrow> shrinks s u"
  unfolding shrinks_def by metis

lemma shrinks_release_device: "shrinks s (snd (release_device d uid sid dev s))"
  by (cases rule: release_device_cases [of d uid sid dev s]) (auto simp: shrinks_def)

lemma shrinks_refresh_device: "shrinks s (snd (refresh_device d uid sid dev s))"
  by (cases rule: refresh_device_cases [of d uid sid dev s]) (auto simp: shrinks_def live_expire)

lemma ReleaseSession_snd:
  "snd (ReleaseSession d1 d2 uid sid s) =
    (if fst (release_device d1 uid sid ''desktop'' s) = None then snd (release_device d1 uid sid ''desktop'' s)
     else snd (release_device d2 uid sid ''android'' (snd (release_device d1 uid sid ''desktop'' s))))"
  by (simp add: ReleaseSession_def split: prod.split option.split)

lemma RefreshSession_snd:
  "snd (RefreshSession d1 d2 uid sid s) =
    (if fst (refresh_device d1 uid sid ''desktop'' s) \<in> {None, Some 1} then snd (refresh_device d1 uid sid ''desktop'' s)
     else snd (refresh_device d2 uid sid ''android'' (snd (refresh_device d1 uid sid ''desktop'' s))))"
  by (simp add: RefreshSession_def split: prod.split option.split)

lemma shrinks_ReleaseSession: "shrinks s (snd (ReleaseSession d1 d2 uid sid s))"
  unfolding ReleaseSession_snd by (auto intro: shrinks_trans [OF shrinks_release_device] shrinks_release_device)

lemma shrinks_RefreshSession: "shrinks s (snd (RefreshSession d1 d2 uid sid s))"
  unfolding RefreshSession_snd by (auto intro: shrinks_trans [OF shrinks_refresh_device] shrinks_refresh_device)

lemma shrinks_tick: "0 \<le> dt \<Longrightarrow> shrinks s (tick dt s)"
  by (auto simp: shrinks_def value_of_def live_def tick_def split: option.split)

lemma release_stale:
  assumes "value_of s (session_key uid dev) = Some other" "other \<noteq> sid" "ValidDevice dev" "ValidDevice dev'"
    "k \<in> slot_keys uid dev"
  shows "live (snd (release_device d uid sid dev' s)) k = live s k"
  using assms slot_key_inj [OF assms(3,4), of uid uid]
  by (cases rule: release_device_cases [of d uid sid dev' s]) (auto simp: slot_keys_def)

lemma devices_valid [simp]: "ValidDevice ''desktop''" "ValidDevice ''android''"
  by (simp_all add: ValidDevice_def)

text \<open>A late cleanup cannot revoke a newer login. If the device's slot belongs to another
  session than the one being released, \<^verbatim>\<open>ReleaseSession\<close> leaves the slot's token, session id
  and node untouched, whatever becomes of its commands; and when it reports success no slot of the
  user belongs to the released session any more.\<close>

theorem release_spares_relogin:
  assumes "ValidDevice dev" "value_of s (session_key uid dev) = Some other" "other \<noteq> sid"
  shows "(\<forall>k \<in> slot_keys uid dev. live (snd (ReleaseSession d1 d2 uid sid s)) k = live s k) \<and>
    (fst (ReleaseSession d1 d2 uid sid s) \<longrightarrow> (\<forall>dev'. ValidDevice dev' \<longrightarrow>
       value_of (snd (ReleaseSession d1 d2 uid sid s)) (session_key uid dev') \<noteq> Some sid))"
proof -
  define s1 where "s1 = snd (release_device d1 uid sid ''desktop'' s)"
  have l1: "live s1 k = live s k" if "k \<in> slot_keys uid dev" for k
    using release_stale [OF assms(2,3,1)] that by (simp add: s1_def)
  have v1: "value_of s1 (session_key uid dev) = Some other"
    using l1 [of "session_key uid dev"] assms(2) by (simp add: value_of_def slot_keys_def)
  have keep: "live (snd (ReleaseSession d1 d2 uid sid s)) k = live s k" if "k \<in> slot_keys uid dev" for k
    unfolding ReleaseSession_snd s1_def [symmetric]
    using release_stale [OF v1 assms(3,1), of "''android''" k d2] l1 that by simp
  have gone: "fst (release_device d uid sid dev' t) \<noteq> None \<Longrightarrow>
      value_of (snd (release_device d uid sid dev' t)) (session_key uid dev') \<noteq> Some sid" for t dev' d
    by (cases rule: release_device_cases [of d uid sid dev' t]) auto
  have "value_of (snd (ReleaseSession d1 d2 uid sid s)) (session_key uid dev') \<noteq> Some sid"
    if "ValidDevice dev'" "fst (ReleaseSession d1 d2 uid sid s)" for dev'
  proof -
    have f: "fst (release_device d1 uid sid ''desktop'' s) \<noteq> None" "fst (release_device d2 uid sid ''android'' s1) \<noteq> None"
      using that(2) by (auto simp: ReleaseSession_def s1_def split: prod.splits option.splits)
    then have eq: "snd (ReleaseSession d1 d2 uid sid s) = snd (release_device d2 uid sid ''android'' s1)"
      by (auto simp: ReleaseSession_snd s1_def)
    have "value_of s1 (session_key uid ''desktop'') \<noteq> Some sid"
      using gone [OF f(1)] by (simp add: s1_def)
    with gone [OF f(2)] that(1) shrinks_release_device [of s1 d2 uid sid "''android''"] show ?thesis
      unfolding eq ValidDevice_def shrinks_def by (metis option.distinct(1))
  qed
  with keep show ?thesis by blast
qed

definition renewed_state :: "int \<Rightarrow> string \<Rightarrow> redis \<Rightarrow> redis" where
  "renewed_state uid dev s = expire (ip_key uid dev) ActiveSessionSeconds (expire (token_key uid dev) ActiveSessionSeconds
     (expire (session_key uid dev) ActiveSessionSeconds s))"

lemma renewed_facts:
  "value_of (renewed_state uid dev s) k = value_of s k"
  "k \<notin> slot_keys uid dev \<Longrightarrow> live (renewed_state uid dev s) k = live s k"
  "value_of s (session_key uid dev) = Some v \<Longrightarrow> time_left (renewed_state uid dev s) (session_key uid dev) = 3600 * 1000"
  "exists_key s (token_key uid dev) \<Longrightarrow> time_left (renewed_state uid dev s) (token_key uid dev) = 3600 * 1000"
  by (auto simp: renewed_state_def slot_keys_def live_expire time_left_def value_of_def exists_key_def
      ActiveSessionSeconds_def split: option.splits)

lemma RefreshSession_cases:
  obtains (untouched) r where "RefreshSession d1 d2 uid sid s = (r, s)" "r \<noteq> 1"
      "r = 0 \<Longrightarrow> \<forall>dev. ValidDevice dev \<longrightarrow>
         value_of s (session_key uid dev) \<noteq> Some sid \<or> \<not> exists_key s (token_key uid dev)"
  | (renewed) dev r where "RefreshSession d1 d2 uid sid s = (r, renewed_state uid dev s)" "ValidDevice dev"
      "value_of s (session_key uid dev) = Some sid" "exists_key s (token_key uid dev)" "r \<noteq> 0"
proof (cases rule: refresh_device_cases [of d1 uid sid "''desktop''" s])
  case (renewed r1)
  then show thesis
    by (intro that(2) [of "if r1 = Some 1 then 1 else -1" "''desktop''"])
      (auto simp: RefreshSession_def renewed_state_def)
next
  case first: (untouched r1)
  show thesis
  proof (cases rule: refresh_device_cases [of d2 uid sid "''android''" s])
    case (renewed r2)
    with first that show thesis
      by (cases r1; cases r2) (auto simp: RefreshSession_def renewed_state_def)
  next
    case (untouched r2)
    with first show thesis
      by (intro that(1) [of "if r1 = None \<or> r2 = None then -1 else 0"])
        (auto simp: RefreshSession_def ValidDevice_def split: if_splits option.splits)
  qed
qed

text \<open>Refreshing. If \<^verbatim>\<open>RefreshSession\<close> returns 1, some device slot of the user belongs to
  the session and its leases now last an hour; if it returns 0 no slot belongs to the session (or
  its token is gone) and Redis is unchanged. In every case no value changes, and no slot of another
  user or session is touched.\<close>

theorem refresh_session_effect:
  assumes "RefreshSession d1 d2 uid sid s = (r, s')"
  shows "(r = 1 \<longrightarrow> (\<exists>dev. ValidDevice dev \<and> value_of s (session_key uid dev) = Some sid \<and>
       time_left s' (session_key uid dev) = 3600 * 1000 \<and> time_left s' (token_key uid dev) = 3600 * 1000)) \<and>
    (r = 0 \<longrightarrow> s' = s \<and> (\<forall>dev. ValidDevice dev \<longrightarrow>
       value_of s (session_key uid dev) \<noteq> Some sid \<or> \<not> exists_key s (token_key uid dev))) \<and>
    (\<forall>k. value_of s' k = value_of s k) \<and>
    (\<forall>dev k. ValidDevice dev \<and> k \<in> slot_keys uid dev \<and> value_of s (session_key uid dev) \<noteq> Some sid \<longrightarrow>
       live s' k = live s k)"
proof (cases rule: RefreshSession_cases [of d1 d2 uid sid s])
  case (untouched r')
  with assms show ?thesis by auto
next
  case (renewed dev r')
  note t = renewed_facts [where uid = uid and dev = dev and s = s]
  have "live s' k = live s k"
    if "ValidDevice dev'" "k \<in> slot_keys uid dev'" "value_of s (session_key uid dev') \<noteq> Some sid" for dev' k
    using that renewed assms slot_key_inj [OF that(1) renewed(2), of uid uid] t(2) [of k]
    by (auto simp: slot_keys_def)
  then show ?thesis using renewed assms t by auto
qed

section \<open>Tokens are used once\<close>

text \<open>
  The life of login tokens: the status server issues a fresh token (\<^verbatim>\<open>GetChatServer\<close>), nodes
  register, refresh and release sessions with any delivery of their commands, and time passes. The
  second component is the set of tokens issued so far.
\<close>

inductive token_step :: "redis \<times> string set \<Rightarrow> redis \<times> string set \<Rightarrow> bool" where
  issue: "token \<notin> I \<Longrightarrow>
    token_step (s, I) (snd (SetEx d (pending_token_key uid token) token PendingTokenSeconds s), insert token I)"
| register: "token_step (s, I) (snd (RegisterSession d uid sid srv token dev s), I)"
| refresh: "token_step (s, I) (snd (RefreshSession d1 d2 uid sid s), I)"
| release: "token_step (s, I) (snd (ReleaseSession d1 d2 uid sid s), I)"
| time: "0 \<le> dt \<Longrightarrow> token_step (s, I) (tick dt s, I)"

definition no_credentials :: "redis \<times> string set \<Rightarrow> bool" where
  "no_credentials x \<longleftrightarrow> (\<forall>u t dev. live (fst x) (pending_key u) = None \<and> live (fst x) (pending_token_key u t) = None \<and>
     live (fst x) (token_key u dev) = None)"

text \<open>The places a token can be: pending for a user, or active in a device slot of a user.\<close>

definition pending_at :: "redis \<Rightarrow> int \<Rightarrow> string \<Rightarrow> bool" where
  "pending_at s u t \<longleftrightarrow> value_of s (pending_token_key u t) = Some t"

definition active_at :: "redis \<Rightarrow> int \<Rightarrow> string \<Rightarrow> string \<Rightarrow> bool" where
  "active_at s u dev t \<longleftrightarrow> value_of s (token_key u dev) = Some t"

definition token_inv :: "redis \<times> string set \<Rightarrow> bool" where
  "token_inv x \<longleftrightarrow> (let (s, I) = x in
     (\<forall>u. live s (pending_key u) = None) \<and>
     (\<forall>u t. pending_at s u t \<longrightarrow> t \<in> I) \<and>
     (\<forall>u dev t. ValidDevice dev \<and> active_at s u dev t \<longrightarrow> t \<in> I) \<and>
     (\<forall>u v t. pending_at s u t \<and> pending_at s v t \<longrightarrow> u = v) \<and>
     (\<forall>u v dev t. ValidDevice dev \<and> active_at s v dev t \<longrightarrow> \<not> pending_at s u t) \<and>
     (\<forall>u v dev dev' t. ValidDevice dev \<and> ValidDevice dev' \<and> active_at s u dev t \<and> active_at s v dev' t \<longrightarrow>
        u = v \<and> dev = dev'))"

lemma token_invD:
  assumes "token_inv (s, I)"
  shows "live s (pending_key u) = None" "pending_at s u t \<Longrightarrow> t \<in> I" "ValidDevice x \<Longrightarrow> active_at s u x t \<Longrightarrow> t \<in> I"
    "pending_at s u t \<Longrightarrow> pending_at s v t \<Longrightarrow> u = v"
    "ValidDevice x \<Longrightarrow> active_at s v x t \<Longrightarrow> \<not> pending_at s u t"
    "ValidDevice x \<Longrightarrow> ValidDevice y \<Longrightarrow> active_at s u x t \<Longrightarrow> active_at s v y t \<Longrightarrow> u = v \<and> x = y"
  using assms unfolding token_inv_def Let_def prod.case by blast+

lemma token_invI:
  assumes "\<And>u. live s (pending_key u) = None" "\<And>u t. pending_at s u t \<Longrightarrow> t \<in> I"
    "\<And>u x t. ValidDevice x \<Longrightarrow> active_at s u x t \<Longrightarrow> t \<in> I"
    "\<And>u v t. pending_at s u t \<Longrightarrow> pending_at s v t \<Longrightarrow> u = v"
    "\<And>u v x t. ValidDevice x \<Longrightarrow> active_at s v x t \<Longrightarrow> \<not> pending_at s u t"
    "\<And>u v x y t. ValidDevice x \<Longrightarrow> ValidDevice y \<Longrightarrow> active_at s u x t \<Longrightarrow> active_at s v y t \<Longrightarrow> u = v \<and> x = y"
  shows "token_inv (s, I)"
  unfolding token_inv_def Let_def prod.case by (intro conjI allI impI) (use assms in blast)+

lemma token_inv_shrinks:
  assumes inv: "token_inv (s, I)" and sh: "shrinks s s'"
  shows "token_inv (s', I)"
proof -
  have v: "value_of s' k = Some x \<Longrightarrow> value_of s k = Some x" for k x
    using sh unfolding shrinks_def by (metis option.distinct(1))
  have p: "pending_at s' u t \<Longrightarrow> pending_at s u t" for u t by (simp add: pending_at_def v)
  have a: "active_at s' u dev t \<Longrightarrow> active_at s u dev t" for u dev t by (simp add: active_at_def v)
  have l: "live s' (pending_key u) = None" for u using inv sh by (simp add: token_inv_def shrinks_def)
  note i = token_invD [OF inv]
  show ?thesis
  proof (rule token_invI)
    fix u v x y t
    show "live s' (pending_key u) = None" by (rule l)
    show "pending_at s' u t \<Longrightarrow> t \<in> I" using p i(2) by blast
    show "ValidDevice x \<Longrightarrow> active_at s' u x t \<Longrightarrow> t \<in> I" using a i(3) by blast
    show "pending_at s' u t \<Longrightarrow> pending_at s' v t \<Longrightarrow> u = v" using p i(4) by blast
    show "ValidDevice x \<Longrightarrow> active_at s' v x t \<Longrightarrow> \<not> pending_at s' u t" using p a i(5) by blast
    show "ValidDevice x \<Longrightarrow> ValidDevice y \<Longrightarrow> active_at s' u x t \<Longrightarrow> active_at s' v y t \<Longrightarrow> u = v \<and> x = y"
      using a [of u x t] a [of v y t] i(6) [of x y u t v] by blast
  qed
qed

lemma token_inv_issue:
  assumes inv: "token_inv (s, I)" and new: "tok \<notin> I"
  shows "token_inv (snd (SetEx d (pending_token_key uid tok) tok PendingTokenSeconds s), insert tok I)"
proof -
  define s' where "s' = snd (SetEx d (pending_token_key uid tok) tok PendingTokenSeconds s)"
  have pos: "0 < PendingTokenSeconds" by (simp add: PendingTokenSeconds_def)
  have s': "s' = s \<or> s' = setex (pending_token_key uid tok) tok PendingTokenSeconds s"
    using pos by (cases d) (simp_all add: s'_def SetEx_def command_def SET_EX_def)
  have p: "pending_at s' u t \<Longrightarrow> pending_at s u t \<or> (u = uid \<and> t = tok)" for u t
    using s' pos by (cases "u = uid \<and> t = tok") (auto simp: pending_at_def)
  have a: "active_at s' u dev t \<Longrightarrow> active_at s u dev t" for u dev t
    using s' pos by (auto simp: active_at_def)
  have l: "live s' (pending_key u) = None" for u
    using s' pos inv by (auto simp: token_inv_def)
  note i = token_invD [OF inv]
  show ?thesis
    unfolding s'_def [symmetric]
  proof (rule token_invI)
    fix u v x y t
    show "live s' (pending_key u) = None" by (rule l)
    show "pending_at s' u t \<Longrightarrow> t \<in> insert tok I" using p i(2) by blast
    show "ValidDevice x \<Longrightarrow> active_at s' u x t \<Longrightarrow> t \<in> insert tok I" using a i(3) by blast
    show "pending_at s' u t \<Longrightarrow> pending_at s' v t \<Longrightarrow> u = v" using p [of u t] p [of v t] i(2,4) new by blast
    show "ValidDevice x \<Longrightarrow> active_at s' v x t \<Longrightarrow> \<not> pending_at s' u t" using p [of u t] a i(3,5) new by blast
    show "ValidDevice x \<Longrightarrow> ValidDevice y \<Longrightarrow> active_at s' u x t \<Longrightarrow> active_at s' v y t \<Longrightarrow> u = v \<and> x = y"
      using a [of u x t] a [of v y t] i(6) [of x y u t v] by blast
  qed
qed

lemma token_inv_register:
  assumes inv: "token_inv (s, I)"
  shows "token_inv (snd (RegisterSession d uid sid srv tok dev s), I)"
proof (cases rule: RegisterSession_cases [of d uid sid srv tok dev s])
  case (refused e)
  with inv show ?thesis by simp
next
  case (stored e)
  define s' where "s' = registered_state uid sid srv tok dev s"
  have "value_of s (pending_key uid) = None" using inv by (simp add: token_inv_def value_of_def)
  then have adm: "pending_at s uid tok \<or> active_at s uid dev tok"
    using stored(3) by (auto simp: admits_def pending_at_def active_at_def)
  have p: "pending_at s' u t \<Longrightarrow> pending_at s u t \<and> \<not> (u = uid \<and> t = tok)" for u t
    by (auto simp: s'_def pending_at_def registered_value split: if_splits)
  have a: "active_at s' u dev' t \<Longrightarrow> (u = uid \<and> dev' = dev \<and> t = tok) \<or> (active_at s u dev' t \<and> \<not> (u = uid \<and> dev' = dev))"
    if "ValidDevice dev'" for u dev' t
    using slot_key_inj(1) [OF that stored(2)]
    by (auto simp: s'_def active_at_def registered_value split: if_splits)
  have l: "live s' (pending_key u) = None" for u
    using inv by (simp add: s'_def registered_live token_inv_def)
  note i = token_invD [OF inv]
  have in_I: "tok \<in> I" using adm i(2,3) stored(2) by blast
  have only: "\<not> active_at s w z tok" if "ValidDevice z" "\<not> (w = uid \<and> z = dev)" for w z
    using adm i(5) [of z w tok uid] i(6) [of z dev w tok uid] that stored(2) by blast
  have "token_inv (s', I)"
  proof (rule token_invI)
    fix u v x y t
    show "live s' (pending_key u) = None" by (rule l)
    show "pending_at s' u t \<Longrightarrow> t \<in> I" using p i(2) by blast
    show "ValidDevice x \<Longrightarrow> active_at s' u x t \<Longrightarrow> t \<in> I" using a i(3) in_I by blast
    show "pending_at s' u t \<Longrightarrow> pending_at s' v t \<Longrightarrow> u = v" using p i(4) by blast
    show "ValidDevice x \<Longrightarrow> active_at s' v x t \<Longrightarrow> \<not> pending_at s' u t"
      using p [of u t] a [of x v t] i(4) [of uid tok u] i(5) [of x v t u] i(5) [of dev uid tok u] adm stored(2) by blast
    assume h: "ValidDevice x" "ValidDevice y" "active_at s' u x t" "active_at s' v y t"
    show "u = v \<and> x = y"
      using a [OF h(1,3)] a [OF h(2,4)] only [OF h(1), of u] only [OF h(2), of v] i(6) [OF h(1,2), of u t v] by blast
  qed
  then show ?thesis using stored(1) by (simp add: s'_def)
qed

lemma token_inv_step: "token_step x y \<Longrightarrow> token_inv x \<Longrightarrow> token_inv y"
  by (induction rule: token_step.induct)
    (auto intro: token_inv_issue token_inv_register token_inv_shrinks shrinks_RefreshSession
      shrinks_ReleaseSession shrinks_tick)

lemma token_inv_init: "no_credentials x \<Longrightarrow> token_inv x"
  by (cases x) (simp add: no_credentials_def token_inv_def pending_at_def active_at_def value_of_def)

interpretation tokens: invariant_system no_credentials token_step token_inv
  by unfold_locales (fact token_inv_init, fact token_inv_step)

text \<open>C10: A login token authorises one device of one user. Under every sequence of issuing,
  registering, refreshing, releasing and expiry, with commands lost in any way, a token is active in
  at most one device slot of one user, and a token that is active in a slot is no longer pending, so
  it cannot be used to log in another device.\<close>

theorem token_single_use:
  assumes "reachable no_credentials token_step (s, I)"
    and "ValidDevice dev" "value_of s (token_key u dev) = Some t"
  shows "t \<in> I \<and> (\<forall>v. value_of s (pending_token_key v t) \<noteq> Some t) \<and>
    (\<forall>v dev'. ValidDevice dev' \<and> value_of s (token_key v dev') = Some t \<longrightarrow> v = u \<and> dev' = dev) \<and>
    (\<forall>d v sid srv dev'. (v, dev') \<noteq> (u, dev) \<longrightarrow> fst (RegisterSession d v sid srv t dev' s) \<noteq> Success)"
proof -
  have inv: "token_inv (s, I)" using tokens.reachable_inv [OF assms(1)] .
  have act: "active_at s u dev t" using assms(3) by (simp add: active_at_def)
  note i = token_invD [OF inv]
  have one: "v = u \<and> dev' = dev" if "ValidDevice dev'" "value_of s (token_key v dev') = Some t" for v dev'
    using i(6) [OF that(1) assms(2) _ act] that(2) by (simp add: active_at_def)
  have none: "value_of s (pending_token_key v t) \<noteq> Some t" for v
    using i(5) [OF assms(2) act, of v] by (simp add: pending_at_def)
  have "fst (RegisterSession d v sid srv t dev' s) \<noteq> Success" if "(v, dev') \<noteq> (u, dev)" for d v sid srv dev'
  proof (cases rule: RegisterSession_cases [of d v sid srv t dev' s])
    case (stored e)
    have "value_of s (pending_key v) = None" using inv by (simp add: token_inv_def value_of_def)
    then have "value_of s (token_key v dev') = Some t" using stored(3) none by (auto simp: admits_def)
    then show ?thesis using one stored(2) that by blast
  qed simp
  moreover have "t \<in> I" using i(3) [OF assms(2) act] .
  ultimately show ?thesis using one none by blast
qed

section \<open>One login\<close>

definition issued_redis :: redis where
  "issued_redis = snd (SetEx Delivered (pending_token_key 7 ''tok'') ''tok'' PendingTokenSeconds empty_redis)"

definition logged_in :: redis where
  "logged_in = snd (RegisterSession Delivered 7 ''s1'' ''chat1'' ''tok'' ''desktop'' issued_redis)"

lemma empty_live [simp]: "live empty_redis k = None" "value_of empty_redis k = None"
  by (simp_all add: live_def value_of_def empty_redis_def)

lemma issued_value:
  "value_of issued_redis k = (if k = pending_token_key 7 ''tok'' then Some ''tok'' else None)"
  "live issued_redis k = (if k = pending_token_key 7 ''tok'' then Some (RStr ''tok'', Some 300000) else None)"
  by (simp_all add: issued_redis_def SetEx_def command_def SET_EX_def PendingTokenSeconds_def,
      simp add: empty_redis_def)

lemma login_ok: "RegisterSession Delivered 7 ''s1'' ''chat1'' ''tok'' ''desktop'' issued_redis =
  (Success, registered_state 7 ''s1'' ''chat1'' ''tok'' ''desktop'' issued_redis)"
proof -
  have "ttl issued_redis (pending_token_key 7 ''tok'') = 300"
    by (simp add: ttl_def issued_value)
      (simp add: issued_redis_def SetEx_def command_def SET_EX_def PendingTokenSeconds_def empty_redis_def)
  then show ?thesis
    by (simp add: RegisterSession_def Evaluate_def command_def register_script_def lua_or_def lua_credential_def
        wrong_type_def issued_value as_integer_def registered_state_def Let_def)
qed

lemma token_reachI:
  "reachable no_credentials token_step x \<Longrightarrow> token_step x y \<Longrightarrow> reachable no_credentials token_step y"
  by (rule reachable.reach_step)

lemma logged_in_reachable: "reachable no_credentials token_step (logged_in, {''tok''})"
proof -
  have "reachable no_credentials token_step (empty_redis, {})"
    by (rule reachable.reach_init) (simp add: no_credentials_def)
  from token_reachI [OF this token_step.issue [of "''tok''"], of Delivered 7]
  have "reachable no_credentials token_step (issued_redis, {''tok''})" by (simp add: issued_redis_def)
  from token_reachI [OF this token_step.register] show ?thesis unfolding logged_in_def .
qed

lemma logged_in_value:
  "value_of logged_in (token_key 7 ''desktop'') = Some ''tok''"
  "value_of logged_in (session_key 7 ''desktop'') = Some ''s1''"
  by (simp_all add: logged_in_def login_ok registered_value)

theorem register_session_effect_witness:
  "value_of (registered_state 7 ''s1'' ''chat1'' ''tok'' ''desktop'' issued_redis) (ip_key 7 ''desktop'') = Some ''chat1''"
  using register_session_effect [OF login_ok] by blast

theorem release_spares_relogin_witness:
  "live (snd (ReleaseSession Delivered ReplyLost 7 ''old'' logged_in)) (token_key 7 ''desktop'') =
   live logged_in (token_key 7 ''desktop'')"
  using release_spares_relogin [OF devices_valid(1) logged_in_value(2), of "''old''"] by (simp add: slot_keys_def)

theorem refresh_session_effect_witness:
  "value_of (snd (RefreshSession Delivered Delivered 7 ''s1'' logged_in)) (token_key 7 ''desktop'') = Some ''tok''"
proof -
  obtain r s' where "RefreshSession Delivered Delivered 7 ''s1'' logged_in = (r, s')" by (metis surj_pair)
  from this refresh_session_effect [OF this] show ?thesis using logged_in_value by simp
qed

theorem token_single_use_witness:
  "fst (RegisterSession Delivered 7 ''s2'' ''chat2'' ''tok'' ''android'' logged_in) \<noteq> Success"
  using token_single_use [OF logged_in_reachable devices_valid(1) logged_in_value(1)] by simp

end
