(* ===== verification/Voice.thy ===== *)
theory Voice
  imports Credentials
begin

text \<open>
  Voice and video calls: \<^verbatim>\<open>RedisMgr::VoiceTransition\<close>, whose Lua script is the state machine
  of a call shared by all chat nodes. A call is stored as a JSON text under \<^verbatim>\<open>voice:<uid>\<close> for
  both accounts. \<^verbatim>\<open>cjson\<close> is not part of the repository: its encoding of a call and what it
  decodes are parameters. It prints numbers with a limited number of digits, so times and credits
  may come back rounded; the hypothesis \<open>faithful\<close> states that everything else comes back as it
  was written. A text that does not decode to a call fails the script.
\<close>

record call =
  call_id :: string
  party_a :: int
  party_b :: int
  session_a :: string
  session_b :: string
  device_a :: "string option"
  device_b :: "string option"
  call_state :: string
  call_video :: bool
  camera_a :: "bool option"
  camera_b :: "bool option"
  seen_a :: rat
  seen_b :: rat
  seq_audio_a :: "int option"
  seq_audio_b :: "int option"
  seq_video_a :: "int option"
  seq_video_b :: "int option"
  last_audio_a :: "rat option"
  last_audio_b :: "rat option"
  last_video_a :: "rat option"
  last_video_b :: "rat option"
  credit_audio_a :: "rat option"
  credit_audio_b :: "rat option"
  credit_video_a :: "rat option"
  credit_video_b :: "rat option"

record cjson =
  encode :: "call \<Rightarrow> string"
  decode :: "string \<Rightarrow> call option"

definition TimeoutMs :: int where "TimeoutMs = 30000"
definition LeaseMs :: int where "LeaseMs = 45000"

record voice_args =
  v_uid :: int
  v_peer :: int
  v_session :: string
  v_call :: string
  v_action :: string
  v_sequence :: int
  v_video :: bool
  v_camera :: bool
  v_device :: string
  v_peer_device :: string
  v_peer_session :: string

definition voice_key :: "int \<Rightarrow> string" where "voice_key uid = ''voice:'' @ to_string uid"
definition rate_key :: "int \<Rightarrow> string" where "rate_key uid = ''voice-rate:'' @ to_string uid"

definition set_px :: "string \<Rightarrow> string \<Rightarrow> int \<Rightarrow> redis \<Rightarrow> redis" where
  "set_px k v ms s = put k (RStr v) (Some (clock s + of_int ms)) s"

definition store_call :: "cjson \<Rightarrow> voice_args \<Rightarrow> int \<Rightarrow> call \<Rightarrow> redis \<Rightarrow> redis" where
  "store_call cj x ms c s =
     set_px (voice_key (v_peer x)) (encode cj c) ms (set_px (voice_key (v_uid x)) (encode cj c) ms s)"

definition drop_call :: "voice_args \<Rightarrow> redis \<Rightarrow> redis" where
  "drop_call x s = del (voice_key (v_peer x)) (del (voice_key (v_uid x)) s)"

definition code :: "ErrorCodes \<Rightarrow> reply" where
  "code e = RInteger (error_value e)"

definition voice_invite :: "cjson \<Rightarrow> voice_args \<Rightarrow> string \<Rightarrow> redis \<Rightarrow> reply \<times> redis" where
  "voice_invite cj x peer_sid s =
     (if value_of s (voice_key (v_uid x)) \<noteq> None \<or> value_of s (voice_key (v_peer x)) \<noteq> None then (code VoiceBusy, s)
      else if exists_key s (rate_key (v_uid x)) then (code VoiceRateLimited, s)
      else let now = clock s;
               c = \<lparr>call_id = v_call x, party_a = v_uid x, party_b = v_peer x, session_a = v_session x,
                    session_b = peer_sid, device_a = Some (v_device x), device_b = Some (v_peer_device x),
                    call_state = ''ringing'', call_video = v_video x, camera_a = Some True,
                    camera_b = Some True, seen_a = now, seen_b = now, seq_audio_a = Some 0,
                    seq_audio_b = Some 0, seq_video_a = Some 0, seq_video_b = Some 0, last_audio_a = None,
                    last_audio_b = None, last_video_a = None, last_video_b = None, credit_audio_a = None,
                    credit_audio_b = None, credit_video_a = None, credit_video_b = None\<rparr>
           in (code Success, setex (rate_key (v_uid x)) ''1'' 3 (store_call cj x 40000 c s)))"

text \<open>The sender's half of the record: sequence, last time and credit of audio or pictures.\<close>

definition seq_of :: "bool \<Rightarrow> bool \<Rightarrow> call \<Rightarrow> int" where
  "seq_of picture first c =
     (case (if picture then (if first then seq_video_a c else seq_video_b c)
            else (if first then seq_audio_a c else seq_audio_b c)) of None \<Rightarrow> 0 | Some n \<Rightarrow> n)"

definition last_of :: "bool \<Rightarrow> bool \<Rightarrow> call \<Rightarrow> rat option" where
  "last_of picture first c = (if picture then (if first then last_video_a c else last_video_b c)
     else (if first then last_audio_a c else last_audio_b c))"

definition credit_of :: "bool \<Rightarrow> bool \<Rightarrow> call \<Rightarrow> rat option" where
  "credit_of picture first c = (if picture then (if first then credit_video_a c else credit_video_b c)
     else (if first then credit_audio_a c else credit_audio_b c))"

definition burst :: "bool \<Rightarrow> rat" where "burst picture = (if picture then 2 else 10)"
definition rate :: "bool \<Rightarrow> rat" where "rate picture = (if picture then 8 / 1000 else 6 / 100)"

definition available :: "bool \<Rightarrow> bool \<Rightarrow> rat \<Rightarrow> call \<Rightarrow> rat" where
  "available picture first now c =
     min (burst picture)
       ((case credit_of picture first c of None \<Rightarrow> burst picture | Some r \<Rightarrow> r) +
        (now - (case last_of picture first c of None \<Rightarrow> now | Some l \<Rightarrow> l)) * rate picture)"

definition set_flow :: "bool \<Rightarrow> bool \<Rightarrow> rat \<Rightarrow> rat \<Rightarrow> int \<Rightarrow> call \<Rightarrow> call" where
  "set_flow picture first credit now n c =
     (if picture
      then (if first then c\<lparr>credit_video_a := Some credit, last_video_a := Some now, seq_video_a := Some n\<rparr>
            else c\<lparr>credit_video_b := Some credit, last_video_b := Some now, seq_video_b := Some n\<rparr>)
      else (if first then c\<lparr>credit_audio_a := Some credit, last_audio_a := Some now, seq_audio_a := Some n\<rparr>
            else c\<lparr>credit_audio_b := Some credit, last_audio_b := Some now, seq_audio_b := Some n\<rparr>))"

definition touch :: "bool \<Rightarrow> rat \<Rightarrow> call \<Rightarrow> call" where
  "touch first now c = (if first then c\<lparr>seen_a := now\<rparr> else c\<lparr>seen_b := now\<rparr>)"

definition voice_frame :: "bool \<Rightarrow> bool \<Rightarrow> voice_args \<Rightarrow> rat \<Rightarrow> call \<Rightarrow> ErrorCodes + call" where
  "voice_frame picture first x now c =
     (if picture \<and> (\<not> call_video c \<or> (first \<and> camera_a c = Some False) \<or> (\<not> first \<and> camera_b c = Some False))
      then Inl VoiceInvalid
      else if v_sequence x \<le> seq_of picture first c then Inl VoiceInvalid
      else if available picture first now c < 1 then Inl VoiceRateLimited
      else Inr (touch first now (set_flow picture first (available picture first now c - 1) now (v_sequence x) c)))"

text \<open>The operations on an existing call that is stored again: the new record, or the refusal and
  whether the call is dropped with it.\<close>

definition voice_update :: "voice_args \<Rightarrow> bool \<Rightarrow> rat \<Rightarrow> call \<Rightarrow> (ErrorCodes \<times> bool) + call" where
  "voice_update x first now c =
     (if call_video c \<noteq> v_video x then Inl (VoiceInvalid, False)
      else if v_action x = ''accept''
      then (if first \<or> call_state c \<noteq> ''ringing'' then Inl (VoiceInvalid, False)
            else Inr (c\<lparr>call_state := ''active'', seen_a := now, seen_b := now\<rparr>))
      else if call_state c \<noteq> ''active'' then Inl (VoiceInvalid, False)
      else if now - (if first then seen_b c else seen_a c) > of_int TimeoutMs then Inl (VoiceInvalid, True)
      else if v_action x = ''frame'' \<or> v_action x = ''video''
      then (case voice_frame (v_action x = ''video'') first x now c of
              Inl e \<Rightarrow> Inl (e, False) | Inr c' \<Rightarrow> Inr c')
      else if v_action x = ''ping'' then Inr (touch first now c)
      else if v_action x = ''camera''
      then (if \<not> call_video c then Inl (VoiceInvalid, False)
            else Inr (if first then c\<lparr>camera_a := Some (v_camera x)\<rparr> else c\<lparr>camera_b := Some (v_camera x)\<rparr>))
      else Inl (VoiceInvalid, False))"

definition or_desktop :: "string option \<Rightarrow> string" where
  "or_desktop d = (case d of None \<Rightarrow> ''desktop'' | Some x \<Rightarrow> x)"

definition hangup :: "string \<Rightarrow> bool" where
  "hangup op \<longleftrightarrow> op = ''end'' \<or> op = ''reject'' \<or> op = ''cancel''"

definition voice_existing :: "cjson \<Rightarrow> voice_args \<Rightarrow> string \<Rightarrow> redis \<Rightarrow> reply \<times> redis" where
  "voice_existing cj x peer_sid s =
     (case (value_of s (voice_key (v_uid x)), value_of s (voice_key (v_peer x))) of
        (Some raw, Some other) \<Rightarrow>
          (case (decode cj raw, decode cj other) of
             (Some c, Some d) \<Rightarrow>
               (let first = (party_a c = v_uid x \<and> party_b c = v_peer x) in
                if call_id c \<noteq> v_call x \<or> call_id d \<noteq> v_call x then (code VoiceInvalid, s)
                else if \<not> first \<and> \<not> (party_b c = v_uid x \<and> party_a c = v_peer x) then (code VoiceInvalid, s)
                else if (first \<and> (or_desktop (device_a c) \<noteq> v_device x \<or> or_desktop (device_b c) \<noteq> v_peer_device x)) \<or>
                        (\<not> first \<and> (or_desktop (device_b c) \<noteq> v_device x \<or> or_desktop (device_a c) \<noteq> v_peer_device x))
                then (code TokenInvalid, s)
                else if (first \<and> (session_a c \<noteq> v_session x \<or> session_b c \<noteq> peer_sid)) \<or>
                        (\<not> first \<and> (session_b c \<noteq> v_session x \<or> session_a c \<noteq> peer_sid))
                then (code TokenInvalid, s)
                else if hangup (v_action x)
                then (if v_action x = ''reject'' \<and> (first \<or> call_state c \<noteq> ''ringing'') then (code VoiceInvalid, s)
                      else if v_action x = ''cancel'' \<and> (\<not> first \<or> call_state c \<noteq> ''ringing'') then (code VoiceInvalid, s)
                      else (code Success, drop_call x s))
                else (case voice_update x first (clock s) c of
                        Inl (e, dropped) \<Rightarrow> (code e, if dropped then drop_call x s else s)
                      | Inr c' \<Rightarrow> (code Success, store_call cj x LeaseMs c' s)))
           | _ \<Rightarrow> (RError, s))
      | _ \<Rightarrow> (code VoiceInvalid, s))"

definition voice_script :: "cjson \<Rightarrow> voice_args \<Rightarrow> redis \<Rightarrow> reply \<times> redis" where
  "voice_script cj x s =
     (let us = session_key (v_uid x) (v_device x); ps = session_key (v_peer x) (v_peer_device x) in
      if wrong_type s us \<or> wrong_type s ps then (RError, s)
      else if value_of s us \<noteq> Some (v_session x) then (code TokenInvalid, s)
      else case value_of s ps of None \<Rightarrow> (code VoiceOffline, s)
      | Some peer_sid \<Rightarrow>
        if v_peer_session x \<noteq> [] \<and> peer_sid \<noteq> v_peer_session x then (code TokenInvalid, s)
        else if wrong_type s (voice_key (v_uid x)) \<or> wrong_type s (voice_key (v_peer x)) then (RError, s)
        else if v_action x = ''invite'' then voice_invite cj x peer_sid s
        else voice_existing cj x peer_sid s)"

definition VoiceTransition :: "cjson \<Rightarrow> delivery \<Rightarrow> voice_args \<Rightarrow> redis \<Rightarrow> int \<times> redis" where
  "VoiceTransition cj d x s =
     (if \<not> ValidDevice (v_device x) \<or> \<not> ValidDevice (v_peer_device x) then (error_value TokenInvalid, s)
      else let (r, s') = Evaluate d (voice_script cj x) s
        in (case r of None \<Rightarrow> error_value RedisError | Some v \<Rightarrow> v, s'))"

section \<open>What the proofs rely on of cjson\<close>

definition same_call :: "call \<Rightarrow> call \<Rightarrow> bool" where
  "same_call c c' \<longleftrightarrow> call_id c' = call_id c \<and> party_a c' = party_a c \<and> party_b c' = party_b c \<and>
     session_a c' = session_a c \<and> session_b c' = session_b c \<and> device_a c' = device_a c \<and>
     device_b c' = device_b c \<and> call_state c' = call_state c \<and> call_video c' = call_video c \<and>
     camera_a c' = camera_a c \<and> camera_b c' = camera_b c \<and> seq_audio_a c' = seq_audio_a c \<and>
     seq_audio_b c' = seq_audio_b c \<and> seq_video_a c' = seq_video_a c \<and> seq_video_b c' = seq_video_b c"

definition faithful :: "cjson \<Rightarrow> bool" where
  "faithful cj \<longleftrightarrow> (\<forall>c. \<exists>c'. decode cj (encode cj c) = Some c' \<and> same_call c c')"

lemma voice_key_inj [key_simps, simp]: "(voice_key u = voice_key v) = (u = v)" "voice_key u \<noteq> rate_key v"
  "rate_key v \<noteq> voice_key u"
  by (simp_all add: voice_key_def rate_key_def)

lemma voice_key_slots [key_simps, simp]:
  "voice_key u \<noteq> session_key v d" "voice_key u \<noteq> token_key v d" "voice_key u \<noteq> ip_key v d"
  "voice_key u \<noteq> pending_key v" "voice_key u \<noteq> pending_token_key v t"
  "session_key v d \<noteq> voice_key u" "token_key v d \<noteq> voice_key u" "ip_key v d \<noteq> voice_key u"
  "pending_key v \<noteq> voice_key u" "pending_token_key v t \<noteq> voice_key u"
  by (rule take2_neq, simp add: key_prefix voice_key_def)+

lemma session_rate_key [key_simps, simp]: "session_key v d \<noteq> rate_key u"
  by (rule take2_neq, simp add: key_prefix rate_key_def)

lemma live_set_px [simp]:
  "0 < ms \<Longrightarrow> live (set_px k v ms s) k' = (if k' = k then Some (RStr v, Some (clock s + of_int ms)) else live s k')"
  "clock (set_px k v ms s) = clock s"
  by (simp_all add: set_px_def)

lemma live_store_call [simp]:
  "0 < ms \<Longrightarrow> live (store_call cj x ms c s) k =
    (if k = voice_key (v_uid x) \<or> k = voice_key (v_peer x) then Some (RStr (encode cj c), Some (clock s + of_int ms))
     else live s k)"
  "clock (store_call cj x ms c s) = clock s"
  by (simp_all add: store_call_def)

lemma live_drop_call [simp]:
  "live (drop_call x s) k = (if k = voice_key (v_uid x) \<or> k = voice_key (v_peer x) then None else live s k)"
  by (simp add: drop_call_def)

lemma value_none_live: "\<not> wrong_type s k \<Longrightarrow> value_of s k = None \<Longrightarrow> live s k = None"
  by (cases "live s k") (auto simp: wrong_type_def)

lemma value_some_live: "value_of s k = Some v \<Longrightarrow> \<exists>e. live s k = Some (RStr v, e)"
  by (auto simp: value_of_def split: option.splits rvalue.splits)

lemma code_zero [simp]: "(code e = RInteger 0) = (e = Success)"
  by (simp add: code_def)

lemma same_call_update:
  "voice_update x first now c = Inr c' \<Longrightarrow>
    call_id c' = call_id c \<and> party_a c' = party_a c \<and> party_b c' = party_b c \<and>
    session_a c' = session_a c \<and> session_b c' = session_b c"
  by (auto simp: voice_update_def voice_frame_def touch_def set_flow_def split: if_splits sum.splits)

section \<open>The effects of the script\<close>

lemma voice_update_error: "voice_update x first now c = Inl (e, b) \<Longrightarrow> e \<noteq> Success"
  by (auto simp: voice_update_def voice_frame_def split: if_splits sum.splits)

lemma voice_existing_result:
  assumes "voice_existing cj x peer_sid s = (r, s')"
  shows "(s' = s \<and> r \<noteq> RInteger 0) \<or>
    (\<exists>raw c. value_of s (voice_key (v_uid x)) = Some raw \<and> decode cj raw = Some c \<and>
       {party_a c, party_b c} = {v_uid x, v_peer x} \<and> call_id c = v_call x \<and>
       (s' = drop_call x s \<and> (r = RInteger 0 \<longrightarrow> hangup (v_action x) \<and>
          (v_action x = ''reject'' \<longrightarrow> \<not> (party_a c = v_uid x \<and> party_b c = v_peer x) \<and> call_state c = ''ringing'') \<and>
          (v_action x = ''cancel'' \<longrightarrow> party_a c = v_uid x \<and> party_b c = v_peer x \<and> call_state c = ''ringing'')) \<or>
        (\<exists>c'. voice_update x (party_a c = v_uid x \<and> party_b c = v_peer x) (clock s) c = Inr c' \<and>
          \<not> hangup (v_action x) \<and> r = RInteger 0 \<and> s' = store_call cj x LeaseMs c' s)))"
proof (cases "value_of s (voice_key (v_uid x))")
  case (Some raw)
  show ?thesis
  proof (cases "value_of s (voice_key (v_peer x))")
    case peer: (Some other)
    show ?thesis
    proof (cases "decode cj raw = None \<or> decode cj other = None")
      case True
      then show ?thesis using assms Some peer by (auto simp: voice_existing_def split: option.splits)
    next
      case False
      then obtain c d where cd: "decode cj raw = Some c" "decode cj other = Some d" by auto
      define first where "first = (party_a c = v_uid x \<and> party_b c = v_peer x)"
      have parties: "first \<or> (party_b c = v_uid x \<and> party_a c = v_peer x) \<Longrightarrow>
          {party_a c, party_b c} = {v_uid x, v_peer x}" by (auto simp: first_def)
      define A where "A \<longleftrightarrow> call_id c \<noteq> v_call x \<or> call_id d \<noteq> v_call x"
      define B where "B \<longleftrightarrow> \<not> first \<and> \<not> (party_b c = v_uid x \<and> party_a c = v_peer x)"
      define C where "C \<longleftrightarrow>
        (first \<and> (or_desktop (device_a c) \<noteq> v_device x \<or> or_desktop (device_b c) \<noteq> v_peer_device x)) \<or>
        (\<not> first \<and> (or_desktop (device_b c) \<noteq> v_device x \<or> or_desktop (device_a c) \<noteq> v_peer_device x))"
      define D where "D \<longleftrightarrow> (first \<and> (session_a c \<noteq> v_session x \<or> session_b c \<noteq> peer_sid)) \<or>
        (\<not> first \<and> (session_b c \<noteq> v_session x \<or> session_a c \<noteq> peer_sid))"
      define H where "H = (if v_action x = ''reject'' \<and> (first \<or> call_state c \<noteq> ''ringing'') then (code VoiceInvalid, s)
        else if v_action x = ''cancel'' \<and> (\<not> first \<or> call_state c \<noteq> ''ringing'') then (code VoiceInvalid, s)
        else (code Success, drop_call x s))"
      define U where "U = (case voice_update x first (clock s) c of
          Inl (e, dropped) \<Rightarrow> (code e, if dropped then drop_call x s else s)
        | Inr c' \<Rightarrow> (code Success, store_call cj x LeaseMs c' s))"
      have eq: "(r, s') = (if A then (code VoiceInvalid, s) else if B then (code VoiceInvalid, s)
          else if C then (code TokenInvalid, s) else if D then (code TokenInvalid, s)
          else if hangup (v_action x) then H else U)"
        unfolding assms [symmetric] voice_existing_def peer Some prod.case option.case cd Let_def
          first_def [symmetric] A_def B_def C_def D_def H_def U_def ..
      have H: "H = (r, s') \<Longrightarrow> s' = s \<and> r \<noteq> RInteger 0 \<or> s' = drop_call x s \<and>
          (v_action x = ''reject'' \<longrightarrow> \<not> first \<and> call_state c = ''ringing'') \<and>
          (v_action x = ''cancel'' \<longrightarrow> first \<and> call_state c = ''ringing'')"
        by (auto simp: H_def split: if_splits)
      have U: "U = (r, s') \<Longrightarrow> s' = s \<and> r \<noteq> RInteger 0 \<or> s' = drop_call x s \<and> r \<noteq> RInteger 0 \<or>
          (\<exists>c'. voice_update x first (clock s) c = Inr c' \<and> r = RInteger 0 \<and> s' = store_call cj x LeaseMs c' s)"
        unfolding U_def using voice_update_error [of x first "clock s" c]
        by (cases "voice_update x first (clock s) c") (auto simp: code_def split: if_splits)
      show ?thesis
      proof (cases "A \<or> B \<or> C \<or> D")
        case True
        then show ?thesis using eq by (auto split: if_splits)
      next
        case False
        then have p: "{party_a c, party_b c} = {v_uid x, v_peer x}" "call_id c = v_call x"
          using parties by (auto simp: A_def B_def)
        from False eq have e: "(r, s') = (if hangup (v_action x) then H else U)" by simp
        show ?thesis
        proof (cases "hangup (v_action x)")
          case True
          with e H have "s' = s \<and> r \<noteq> RInteger 0 \<or> s' = drop_call x s \<and>
              (v_action x = ''reject'' \<longrightarrow> \<not> first \<and> call_state c = ''ringing'') \<and>
              (v_action x = ''cancel'' \<longrightarrow> first \<and> call_state c = ''ringing'')" by simp
          then show ?thesis using True p Some cd(1) unfolding first_def by blast
        next
          case False
          with e U have "s' = s \<and> r \<noteq> RInteger 0 \<or> s' = drop_call x s \<and> r \<noteq> RInteger 0 \<or>
            (\<exists>c'. voice_update x first (clock s) c = Inr c' \<and> r = RInteger 0 \<and> s' = store_call cj x LeaseMs c' s)"
            by simp
          then show ?thesis using False p Some cd(1) unfolding first_def by blast
        qed
      qed
    qed
  qed (use assms Some in \<open>auto simp: voice_existing_def\<close>)
qed (use assms in \<open>auto simp: voice_existing_def\<close>)

lemma voice_invite_result:
  assumes "voice_invite cj x peer_sid s = (r, s')"
  shows "(s' = s \<and> r \<noteq> RInteger 0) \<or>
    (\<exists>c. value_of s (voice_key (v_uid x)) = None \<and> value_of s (voice_key (v_peer x)) = None \<and> r = RInteger 0 \<and>
      s' = setex (rate_key (v_uid x)) ''1'' 3 (store_call cj x 40000 c s) \<and>
      party_a c = v_uid x \<and> party_b c = v_peer x \<and> call_id c = v_call x \<and> call_state c = ''ringing'' \<and>
      session_a c = v_session x \<and> session_b c = peer_sid)"
proof (cases "(value_of s (voice_key (v_uid x)) \<noteq> None \<or> value_of s (voice_key (v_peer x)) \<noteq> None) \<or>
    exists_key s (rate_key (v_uid x))")
  case True
  then show ?thesis using assms by (auto simp: voice_invite_def split: if_splits)
next
  case False
  then show ?thesis using assms by (auto simp: voice_invite_def Let_def code_def)
qed

text \<open>Everything the script can do to the keyspace.\<close>

lemma voice_script_cases:
  obtains (same) "snd (voice_script cj x s) = s" "fst (voice_script cj x s) \<noteq> RInteger 0"
  | (invite) c where "voice_script cj x s = (RInteger 0, setex (rate_key (v_uid x)) ''1'' 3 (store_call cj x 40000 c s))"
      "v_action x = ''invite''" "live s (voice_key (v_uid x)) = None" "live s (voice_key (v_peer x)) = None"
      "party_a c = v_uid x" "party_b c = v_peer x" "call_id c = v_call x" "call_state c = ''ringing''"
  | (dropped) raw c where "snd (voice_script cj x s) = drop_call x s"
      "value_of s (voice_key (v_uid x)) = Some raw" "decode cj raw = Some c"
      "{party_a c, party_b c} = {v_uid x, v_peer x}" "v_action x \<noteq> ''invite''" "call_id c = v_call x"
      "fst (voice_script cj x s) = RInteger 0 \<Longrightarrow> hangup (v_action x) \<and>
        (v_action x = ''reject'' \<longrightarrow> \<not> (party_a c = v_uid x \<and> party_b c = v_peer x) \<and> call_state c = ''ringing'') \<and>
        (v_action x = ''cancel'' \<longrightarrow> party_a c = v_uid x \<and> party_b c = v_peer x \<and> call_state c = ''ringing'')"
  | (updated) raw c c' where "voice_script cj x s = (RInteger 0, store_call cj x LeaseMs c' s)"
      "value_of s (voice_key (v_uid x)) = Some raw" "decode cj raw = Some c"
      "{party_a c, party_b c} = {v_uid x, v_peer x}" "v_action x \<noteq> ''invite''"
      "voice_update x (party_a c = v_uid x \<and> party_b c = v_peer x) (clock s) c = Inr c'"
      "call_id c = v_call x" "\<not> hangup (v_action x)"
proof (cases "\<exists>peer_sid. value_of s (session_key (v_peer x) (v_peer_device x)) = Some peer_sid \<and>
    voice_script cj x s = (if v_action x = ''invite'' then voice_invite cj x peer_sid s else voice_existing cj x peer_sid s) \<and>
    \<not> wrong_type s (voice_key (v_uid x)) \<and> \<not> wrong_type s (voice_key (v_peer x))")
  case False
  have "snd (voice_script cj x s) = s \<and> fst (voice_script cj x s) \<noteq> RInteger 0"
    using False unfolding voice_script_def Let_def
    by (auto split: if_splits option.splits)
  then show thesis using same by blast
next
  case True
  then obtain peer_sid where vs: "voice_script cj x s =
      (if v_action x = ''invite'' then voice_invite cj x peer_sid s else voice_existing cj x peer_sid s)"
    and w: "\<not> wrong_type s (voice_key (v_uid x))" "\<not> wrong_type s (voice_key (v_peer x))" by blast
  show thesis
  proof (cases "v_action x = ''invite''")
    case True
    obtain r s' where r: "voice_invite cj x peer_sid s = (r, s')" by (metis surj_pair)
    from voice_invite_result [OF r] show thesis
      using vs r True same invite value_none_live [OF w(1)] value_none_live [OF w(2)] by auto
  next
    case False
    obtain r s' where r: "voice_existing cj x peer_sid s = (r, s')" by (metis surj_pair)
    from voice_existing_result [OF r] show thesis
      using vs r False same dropped updated by auto
  qed
qed

section \<open>Calls are paired\<close>

text \<open>
  The histories of calls: transitions with any arguments and any delivery, the passing of time, and
  anything else the servers do that leaves the \<^verbatim>\<open>voice:\<close> keys alone.
\<close>

inductive voice_step :: "cjson \<Rightarrow> redis \<Rightarrow> redis \<Rightarrow> bool" for cj where
  transition: "voice_step cj s (snd (VoiceTransition cj d x s))"
| time: "0 \<le> dt \<Longrightarrow> voice_step cj s (tick dt s)"
| elsewhere: "clock s' = clock s \<Longrightarrow> (\<And>u. live s' (voice_key u) = live s (voice_key u)) \<Longrightarrow> voice_step cj s s'"

definition no_calls :: "redis \<Rightarrow> bool" where
  "no_calls s \<longleftrightarrow> (\<forall>u. live s (voice_key u) = None)"

definition paired_at :: "cjson \<Rightarrow> redis \<Rightarrow> int \<Rightarrow> (rvalue \<times> rat option) \<Rightarrow> bool" where
  "paired_at cj s u v \<longleftrightarrow> (\<exists>raw c. fst v = RStr raw \<and> decode cj raw = Some c \<and>
     (u = party_a c \<or> u = party_b c) \<and> live s (voice_key (party_a c)) = Some v \<and> live s (voice_key (party_b c)) = Some v)"

definition paired :: "cjson \<Rightarrow> redis \<Rightarrow> bool" where
  "paired cj s \<longleftrightarrow> (\<forall>u v. live s (voice_key u) = Some v \<longrightarrow> paired_at cj s u v)"

lemma paired_party:
  assumes "paired cj s" "live s (voice_key w) = Some v" "fst v = RStr raw" "decode cj raw = Some c"
  shows "w = party_a c \<or> w = party_b c"
  using assms unfolding paired_def paired_at_def by fastforce

text \<open>A step that rewrites or removes exactly the two keys of one call keeps the others paired.\<close>

lemma paired_frame:
  assumes inv: "paired cj s" and w: "w \<notin> {a, b}" "live s (voice_key w) = Some v"
    and old: "\<And>z v. z \<in> {a, b} \<Longrightarrow> live s (voice_key z) = Some v \<Longrightarrow>
      \<exists>raw c. fst v = RStr raw \<and> decode cj raw = Some c \<and> {party_a c, party_b c} = {a, b}"
    and new: "\<And>z. z \<notin> {a, b} \<Longrightarrow> live s' (voice_key z) = live s (voice_key z)"
  shows "paired_at cj s' w v"
proof -
  from inv w(2) obtain raw c where c: "fst v = RStr raw" "decode cj raw = Some c" "w = party_a c \<or> w = party_b c"
    "live s (voice_key (party_a c)) = Some v" "live s (voice_key (party_b c)) = Some v"
    unfolding paired_def paired_at_def by blast
  have "party_a c \<notin> {a, b}" "party_b c \<notin> {a, b}"
    using old [OF _ c(4)] old [OF _ c(5)] c(1-3) w(1) by auto
  then show ?thesis using c new unfolding paired_at_def by auto
qed

lemma old_parties:
  assumes "paired cj s" "value_of s (voice_key (v_uid x)) = Some raw" "decode cj raw = Some c"
    "{party_a c, party_b c} = {v_uid x, v_peer x}" "z \<in> {v_uid x, v_peer x}" "live s (voice_key z) = Some v"
  shows "\<exists>raw c. fst v = RStr raw \<and> decode cj raw = Some c \<and> {party_a c, party_b c} = {v_uid x, v_peer x}"
proof -
  obtain e where e: "live s (voice_key (v_uid x)) = Some (RStr raw, e)" using value_some_live assms(2) by blast
  with assms(1) have p: "paired_at cj s (v_uid x) (RStr raw, e)" by (simp add: paired_def)
  then have "live s (voice_key (party_a c)) = Some (RStr raw, e)" "live s (voice_key (party_b c)) = Some (RStr raw, e)"
    using assms(3) unfolding paired_at_def by auto
  moreover have "z = party_a c \<or> z = party_b c" using assms(4,5) by auto
  ultimately have "v = (RStr raw, e)" using assms(6) by auto
  then show ?thesis using assms(3,4) by auto
qed

lemma paired_store:
  assumes "paired cj s" "faithful cj" "0 < ms" "{party_a c, party_b c} = {v_uid x, v_peer x}"
    and old: "\<And>z v. z \<in> {v_uid x, v_peer x} \<Longrightarrow> live s (voice_key z) = Some v \<Longrightarrow>
      \<exists>raw c. fst v = RStr raw \<and> decode cj raw = Some c \<and> {party_a c, party_b c} = {v_uid x, v_peer x}"
    and s': "\<And>u. live s' (voice_key u) = live (store_call cj x ms c s) (voice_key u)"
  shows "paired cj s'"
  unfolding paired_def
proof (intro allI impI)
  fix u v
  assume v: "live s' (voice_key u) = Some v"
  show "paired_at cj s' u v"
  proof (cases "u \<in> {v_uid x, v_peer x}")
    case True
    obtain c' where c': "decode cj (encode cj c) = Some c'" "same_call c c'" using assms(2) unfolding faithful_def by blast
    then have "party_a c' = party_a c" "party_b c' = party_b c" by (simp_all add: same_call_def)
    moreover have "party_a c \<in> {v_uid x, v_peer x}" "party_b c \<in> {v_uid x, v_peer x}" "u \<in> {party_a c, party_b c}"
      using assms(4) True by auto
    ultimately show ?thesis using v c' assms(3) s' unfolding paired_at_def by (auto 0 3)
  next
    case False
    with v assms(3) have "live s (voice_key u) = Some v" by (simp add: s')
    from paired_frame [OF assms(1) False this old] assms(3) show ?thesis by (simp add: s')
  qed
qed

lemma paired_drop:
  assumes "paired cj s" "value_of s (voice_key (v_uid x)) = Some raw" "decode cj raw = Some c"
    "{party_a c, party_b c} = {v_uid x, v_peer x}"
  shows "paired cj (drop_call x s)"
  unfolding paired_def
proof (intro allI impI)
  fix u v
  assume "live (drop_call x s) (voice_key u) = Some v"
  then have u: "u \<notin> {v_uid x, v_peer x}" "live s (voice_key u) = Some v" by (auto split: if_splits)
  show "paired_at cj (drop_call x s) u v"
    by (rule paired_frame [OF assms(1) u old_parties [OF assms]]) auto
qed

lemma paired_transition:
  assumes "paired cj s" "faithful cj"
  shows "paired cj (snd (VoiceTransition cj d x s))"
proof -
  have ev: "snd (VoiceTransition cj d x s) = s \<or> snd (VoiceTransition cj d x s) = snd (voice_script cj x s)"
    by (cases d) (simp_all add: VoiceTransition_def Evaluate_def command_def)
  have "paired cj (snd (voice_script cj x s))"
  proof (cases rule: voice_script_cases [of cj x s])
    case same
    with assms(1) show ?thesis by simp
  next
    case (invite c)
    show ?thesis
      by (rule paired_store [OF assms, of 40000 c x]) (use invite in auto)
  next
    case (dropped raw c)
    with paired_drop assms(1) show ?thesis by simp
  next
    case (updated raw c c')
    have "{party_a c', party_b c'} = {v_uid x, v_peer x}" using same_call_update [OF updated(6)] updated(4) by auto
    then show ?thesis
      by (intro paired_store [OF assms, of LeaseMs c' x] old_parties [OF assms(1) updated(2,3,4)])
        (use updated in \<open>auto simp: LeaseMs_def\<close>)
  qed
  then show ?thesis using ev assms(1) by auto
qed

lemma paired_tick: "paired cj s \<Longrightarrow> 0 \<le> dt \<Longrightarrow> paired cj (tick dt s)"
proof -
  assume inv: "paired cj s" and dt: "0 \<le> dt"
  have l: "live (tick dt s) k = (case live s k of Some (v, Some e) \<Rightarrow> if e \<le> clock s + dt then None else Some (v, Some e) | y \<Rightarrow> y)" for k
    using dt by (auto simp: live_def tick_def split: option.splits)
  show ?thesis
    unfolding paired_def
  proof (intro allI impI)
    fix u v
    assume v: "live (tick dt s) (voice_key u) = Some v"
    then have "live s (voice_key u) = Some v" "\<And>k. live s k = Some v \<Longrightarrow> live (tick dt s) k = Some v"
      by (auto simp: l split: option.splits if_splits)
    with inv show "paired_at cj (tick dt s) u v" unfolding paired_def paired_at_def by metis
  qed
qed

lemma paired_elsewhere:
  "paired cj s \<Longrightarrow> (\<And>u. live s' (voice_key u) = live s (voice_key u)) \<Longrightarrow> paired cj s'"
  by (simp add: paired_def paired_at_def)

lemma paired_step: "voice_step cj s s' \<Longrightarrow> faithful cj \<Longrightarrow> paired cj s \<Longrightarrow> paired cj s'"
  by (induction rule: voice_step.induct) (simp_all add: paired_transition paired_tick paired_elsewhere)

interpretation calls: invariant_system no_calls "voice_step cj" "\<lambda>s. faithful cj \<longrightarrow> paired cj s" for cj
proof unfold_locales
  show "faithful cj \<longrightarrow> paired cj s" if "no_calls s" for s using that by (simp add: no_calls_def paired_def)
  show "faithful cj \<longrightarrow> paired cj s'" if "voice_step cj s s'" "faithful cj \<longrightarrow> paired cj s" for s s'
    using paired_step that by blast
qed

text \<open>C12: Calls are paired. Under every history of call transitions, time and other traffic, an
  account's stored call names the account as one of its two parties, and both parties hold the very
  same record with the same expiry; so the two accounts always agree, and no account is in two calls.\<close>

theorem calls_are_paired:
  assumes "faithful cj" "reachable no_calls (voice_step cj) s" "live s (voice_key u) = Some v"
  shows "\<exists>raw c. fst v = RStr raw \<and> decode cj raw = Some c \<and> (u = party_a c \<or> u = party_b c) \<and>
    live s (voice_key (party_a c)) = Some v \<and> live s (voice_key (party_b c)) = Some v \<and>
    (\<forall>w v' raw' c'. live s (voice_key w) = Some v' \<and> fst v' = RStr raw' \<and> decode cj raw' = Some c' \<and>
       (u = party_a c' \<or> u = party_b c') \<longrightarrow> v' = v)"
proof -
  have p: "paired cj s" using calls.reachable_inv [OF assms(2)] assms(1) by blast
  have one: "v' = v" if "live s (voice_key w) = Some v'" "fst v' = RStr raw'" "decode cj raw' = Some c'"
    "u = party_a c' \<or> u = party_b c'" for w v' raw' c'
  proof -
    have "paired_at cj s w v'" using p that(1) unfolding paired_def by blast
    then have "live s (voice_key u) = Some v'" using that(2-4) unfolding paired_at_def by auto
    then show ?thesis using assms(3) by simp
  qed
  have "paired_at cj s u v" using p assms(3) unfolding paired_def by blast
  then show ?thesis unfolding paired_at_def using one by blast
qed

section \<open>The rules of a call\<close>

lemma VoiceTransition_ok:
  assumes "VoiceTransition cj d x s = (0, s')"
  shows "voice_script cj x s = (RInteger 0, s')" "ValidDevice (v_device x)" "ValidDevice (v_peer_device x)"
proof -
  have v: "ValidDevice (v_device x)" "ValidDevice (v_peer_device x)"
    using assms by (auto simp: VoiceTransition_def split: if_splits)
  show "voice_script cj x s = (RInteger 0, s')"
    using assms v
    by (cases d; cases "fst (voice_script cj x s)")
      (auto simp: VoiceTransition_def Evaluate_def command_def as_integer_def prod_eq_iff)
  show "ValidDevice (v_device x)" "ValidDevice (v_peer_device x)" by (fact v)+
qed

lemma voice_script_sessions:
  assumes "fst (voice_script cj x s) = RInteger 0"
  shows "value_of s (session_key (v_uid x) (v_device x)) = Some (v_session x) \<and>
    (\<exists>ps. value_of s (session_key (v_peer x) (v_peer_device x)) = Some ps \<and> (v_peer_session x = [] \<or> ps = v_peer_session x))"
  using assms unfolding voice_script_def Let_def by (auto split: if_splits option.splits)

lemma seq_set_flow:
  "seq_of picture first (touch first now (set_flow picture first cr now n c)) = n"
  "call_state (touch first now (set_flow picture first cr now n c)) = call_state c"
  by (simp_all add: seq_of_def touch_def set_flow_def)

lemma frame_update:
  assumes "voice_update x first now c = Inr c'" "v_action x = ''frame'' \<or> v_action x = ''video''"
  shows "call_state c = ''active'' \<and> seq_of (v_action x = ''video'') first c < v_sequence x \<and>
    1 \<le> available (v_action x = ''video'') first now c \<and>
    seq_of (v_action x = ''video'') first c' = v_sequence x"
proof -
  have "\<not> (v_action x = ''accept'')" using assms(2) by auto
  then have "call_state c = ''active''" "voice_frame (v_action x = ''video'') first x now c = Inr c'"
    using assms unfolding voice_update_def by (auto split: if_splits sum.splits)
  then show ?thesis by (auto simp: voice_frame_def seq_set_flow split: if_splits)
qed

lemma accept_update:
  "voice_update x first now c = Inr c' \<Longrightarrow> v_action x = ''accept'' \<Longrightarrow>
    \<not> first \<and> call_state c = ''ringing'' \<and> call_state c' = ''active''"
  by (auto simp: voice_update_def split: if_splits)

lemma frame_accepted:
  assumes "VoiceTransition cj d x s = (0, s')" "v_action x = ''frame'' \<or> v_action x = ''video''"
  shows "\<exists>raw c c'. value_of s (voice_key (v_uid x)) = Some raw \<and> decode cj raw = Some c \<and>
    voice_update x (party_a c = v_uid x \<and> party_b c = v_peer x) (clock s) c = Inr c' \<and>
    s' = store_call cj x LeaseMs c' s"
proof -
  note vs = VoiceTransition_ok(1) [OF assms(1)]
  show ?thesis
  proof (cases rule: voice_script_cases [of cj x s])
    case (updated raw c c')
    with vs show ?thesis by auto
  qed (use vs assms(2) in \<open>auto simp: hangup_def\<close>)
qed

text \<open>The rules of a call. A successful transition was made from the session that now owns the
  caller's device slot and towards the peer's bound session. An invitation needs both accounts free.
  Any other operation needs the stored call to be the named one between exactly these two accounts:
  only the invited side accepts or rejects, only the inviting side cancels, and only while ringing;
  media flows only in an active call, with a growing sequence number and a full credit; and hanging
  up removes the call for both.\<close>

theorem call_rules:
  assumes "VoiceTransition cj d x s = (0, s')"
  shows "value_of s (session_key (v_uid x) (v_device x)) = Some (v_session x) \<and>
    (\<exists>ps. value_of s (session_key (v_peer x) (v_peer_device x)) = Some ps \<and> (v_peer_session x = [] \<or> ps = v_peer_session x)) \<and>
    (v_action x = ''invite'' \<longrightarrow> live s (voice_key (v_uid x)) = None \<and> live s (voice_key (v_peer x)) = None) \<and>
    (v_action x \<noteq> ''invite'' \<longrightarrow>
      (\<exists>raw c. value_of s (voice_key (v_uid x)) = Some raw \<and> decode cj raw = Some c \<and> call_id c = v_call x \<and>
        {party_a c, party_b c} = {v_uid x, v_peer x} \<and>
        (v_action x = ''accept'' \<longrightarrow> party_b c = v_uid x \<and> call_state c = ''ringing'') \<and>
        (v_action x = ''reject'' \<longrightarrow> party_b c = v_uid x \<and> call_state c = ''ringing'') \<and>
        (v_action x = ''cancel'' \<longrightarrow> party_a c = v_uid x \<and> call_state c = ''ringing'') \<and>
        (v_action x = ''frame'' \<or> v_action x = ''video'' \<longrightarrow> call_state c = ''active'' \<and>
          seq_of (v_action x = ''video'') (party_a c = v_uid x \<and> party_b c = v_peer x) c < v_sequence x \<and>
          1 \<le> available (v_action x = ''video'') (party_a c = v_uid x \<and> party_b c = v_peer x) (clock s) c) \<and>
        (hangup (v_action x) \<longrightarrow> live s' (voice_key (v_uid x)) = None \<and> live s' (voice_key (v_peer x)) = None)))"
proof -
  note vs = VoiceTransition_ok(1) [OF assms]
  have ses: "value_of s (session_key (v_uid x) (v_device x)) = Some (v_session x) \<and>
    (\<exists>ps. value_of s (session_key (v_peer x) (v_peer_device x)) = Some ps \<and> (v_peer_session x = [] \<or> ps = v_peer_session x))"
    using voice_script_sessions [of cj x s] vs by simp
  show ?thesis
  proof (cases rule: voice_script_cases [of cj x s])
    case same
    with vs show ?thesis by simp
  next
    case (invite c)
    with ses show ?thesis by auto
  next
    case (dropped raw c)
    with vs have h: "hangup (v_action x)" "s' = drop_call x s" by simp_all
    then have "v_action x \<noteq> ''accept''" "v_action x \<noteq> ''frame''" "v_action x \<noteq> ''video''"
      by (auto simp: hangup_def)
    moreover have "v_action x = ''reject'' \<Longrightarrow> party_b c = v_uid x \<and> call_state c = ''ringing''"
      "v_action x = ''cancel'' \<Longrightarrow> party_a c = v_uid x \<and> call_state c = ''ringing''"
      using dropped(7) vs dropped(4) by (auto simp: doubleton_eq_iff)
    ultimately show ?thesis using ses dropped(2-6) h by auto
  next
    case (updated raw c c')
    have "v_action x = ''accept'' \<Longrightarrow> party_b c = v_uid x \<and> call_state c = ''ringing''"
      using accept_update [OF updated(6)] updated(4) by (auto simp: doubleton_eq_iff)
    moreover have "v_action x \<noteq> ''reject''" "v_action x \<noteq> ''cancel''" using updated(8) by (auto simp: hangup_def)
    ultimately show ?thesis
      using ses updated(2-5,7,8) frame_update [OF updated(6)] by auto
  qed
qed


section \<open>A codec and a call between two users\<close>

text \<open>
  A concrete codec that satisfies the hypothesis: the fields as length-prefixed strings. It drops
  times and credits altogether.
\<close>

definition net :: "string \<Rightarrow> string" where
  "net s = nat_digits (length s) @ CHR '':'' # s"

definition read_net :: "string \<Rightarrow> string \<times> string" where
  "read_net t = (let n = digits_value (takeWhile isdigit t); r = tl (dropWhile isdigit t) in (take n r, drop n r))"

primrec read_nets :: "nat \<Rightarrow> string \<Rightarrow> string list" where
  "read_nets 0 t = []"
| "read_nets (Suc n) t = fst (read_net t) # read_nets n (snd (read_net t))"

lemma read_net_net [simp]: "read_net (net s @ r) = (s, r)"
proof -
  have "\<not> isdigit (CHR '':'')" by (simp add: isdigit_def byte_def)
  then have "takeWhile isdigit (net s @ r) = nat_digits (length s)" "dropWhile isdigit (net s @ r) = CHR '':'' # s @ r"
    using nat_digits_isdigit by (auto simp: net_def takeWhile_append dropWhile_append dest: nat_digits_isdigit)
  then show ?thesis by (simp add: read_net_def)
qed

lemma read_nets_nets: "read_nets (length fs) (concat (map net fs)) = fs"
  by (induction fs) simp_all

definition int_text :: "string \<Rightarrow> int" where
  "int_text t = (if t \<noteq> [] \<and> hd t = CHR ''-'' then - int (digits_value (tl t)) else int (digits_value t))"

lemma int_text_to_string [simp]: "int_text (to_string i) = i"
proof -
  have "nat_digits n \<noteq> [] \<and> hd (nat_digits n) \<noteq> CHR ''-''" for n
    using nat_digits_hd [of n] minus_not_digit by auto
  then show ?thesis by (auto simp: int_text_def to_string_def)
qed

definition opt_text :: "('a \<Rightarrow> string) \<Rightarrow> 'a option \<Rightarrow> string" where
  "opt_text f x = (case x of None \<Rightarrow> [] | Some y \<Rightarrow> CHR ''s'' # f y)"

definition text_opt :: "(string \<Rightarrow> 'a) \<Rightarrow> string \<Rightarrow> 'a option" where
  "text_opt f t = (if t = [] then None else Some (f (tl t)))"

lemma text_opt_opt_text [simp]: "(\<And>y. g (f y) = y) \<Longrightarrow> text_opt g (opt_text f x) = x"
  by (cases x) (simp_all add: text_opt_def opt_text_def)

definition bool_text :: "bool \<Rightarrow> string" where "bool_text b = (if b then ''1'' else ''0'')"

definition call_fields :: "call \<Rightarrow> string list" where
  "call_fields c = [call_id c, to_string (party_a c), to_string (party_b c), session_a c, session_b c,
     opt_text id (device_a c), opt_text id (device_b c), call_state c, bool_text (call_video c),
     opt_text bool_text (camera_a c), opt_text bool_text (camera_b c), opt_text to_string (seq_audio_a c),
     opt_text to_string (seq_audio_b c), opt_text to_string (seq_video_a c), opt_text to_string (seq_video_b c)]"

definition fields_call :: "string list \<Rightarrow> call" where
  "fields_call f = \<lparr>call_id = f ! 0, party_a = int_text (f ! 1), party_b = int_text (f ! 2), session_a = f ! 3,
     session_b = f ! 4, device_a = text_opt id (f ! 5), device_b = text_opt id (f ! 6), call_state = f ! 7,
     call_video = (f ! 8 = ''1''), camera_a = text_opt (\<lambda>t. t = ''1'') (f ! 9),
     camera_b = text_opt (\<lambda>t. t = ''1'') (f ! 10), seen_a = 0, seen_b = 0,
     seq_audio_a = text_opt int_text (f ! 11), seq_audio_b = text_opt int_text (f ! 12),
     seq_video_a = text_opt int_text (f ! 13), seq_video_b = text_opt int_text (f ! 14),
     last_audio_a = None, last_audio_b = None, last_video_a = None, last_video_b = None,
     credit_audio_a = None, credit_audio_b = None, credit_video_a = None, credit_video_b = None\<rparr>"

definition net_cjson :: cjson where
  "net_cjson = \<lparr>encode = (\<lambda>c. concat (map net (call_fields c))), decode = (\<lambda>t. Some (fields_call (read_nets 15 t)))\<rparr>"

lemma net_decode: "decode net_cjson (encode net_cjson c) = Some (fields_call (call_fields c))"
proof -
  have len: "length (call_fields c) = 15" by (simp add: call_fields_def)
  show ?thesis using read_nets_nets [of "call_fields c"] unfolding len by (simp add: net_cjson_def)
qed

lemma net_faithful: "faithful net_cjson"
  by (simp add: faithful_def net_decode)
    (simp add: same_call_def fields_call_def call_fields_def bool_text_def)

definition invite_args :: voice_args where
  "invite_args = \<lparr>v_uid = 1, v_peer = 2, v_session = ''s1'', v_call = ''c1'', v_action = ''invite'', v_sequence = 0,
     v_video = False, v_camera = True, v_device = ''desktop'', v_peer_device = ''desktop'', v_peer_session = []\<rparr>"

definition two_sessions :: redis where
  "two_sessions = setex (session_key 1 ''desktop'') ''s1'' 60 (setex (session_key 2 ''desktop'') ''s2'' 60 empty_redis)"

definition ringing_redis :: redis where
  "ringing_redis = snd (VoiceTransition net_cjson Delivered invite_args two_sessions)"

lemma two_sessions_live:
  "live two_sessions k = (if k = session_key 1 ''desktop'' then Some (RStr ''s1'', Some 60000)
    else if k = session_key 2 ''desktop'' then Some (RStr ''s2'', Some 60000) else None)"
  by (auto simp: two_sessions_def) (simp_all add: empty_redis_def)

lemma two_sessions_value:
  "value_of two_sessions k = (if k = session_key 1 ''desktop'' then Some ''s1''
    else if k = session_key 2 ''desktop'' then Some ''s2'' else None)" "\<not> wrong_type two_sessions k"
  by (simp_all add: value_of_def wrong_type_def two_sessions_live)

lemma invite_ok: "VoiceTransition net_cjson Delivered invite_args two_sessions = (0, ringing_redis)"
proof -
  have "fst (VoiceTransition net_cjson Delivered invite_args two_sessions) = 0"
    using slot_key_inj(2) [OF devices_valid(1) devices_valid(1)] session_rate_key
    by (simp add: VoiceTransition_def Evaluate_def command_def as_integer_def voice_script_def Let_def invite_args_def
        two_sessions_value voice_invite_def exists_key_def two_sessions_live code_def not_sym [OF session_rate_key])
  then show ?thesis by (simp add: ringing_redis_def prod_eq_iff)
qed

lemma ringing_reachable: "reachable no_calls (voice_step net_cjson) ringing_redis"
proof -
  have "reachable no_calls (voice_step net_cjson) two_sessions"
    by (rule reachable.reach_init) (simp add: no_calls_def two_sessions_live)
  then show ?thesis unfolding ringing_redis_def
    by (rule reachable.reach_step) (rule voice_step.transition)
qed

theorem call_rules_witness: "live two_sessions (voice_key 1) = None"
  using call_rules [OF invite_ok] by (simp add: invite_args_def)

lemma ringing_call:
  "\<exists>c0. ringing_redis = setex (rate_key 1) ''1'' 3 (store_call net_cjson invite_args 40000 c0 two_sessions) \<and>
     party_a c0 = 1 \<and> party_b c0 = 2"
proof (cases rule: voice_script_cases [of net_cjson invite_args two_sessions])
  case (invite c0)
  then have "ringing_redis = setex (rate_key 1) ''1'' 3 (store_call net_cjson invite_args 40000 c0 two_sessions)"
    "party_a c0 = 1" "party_b c0 = 2"
    using VoiceTransition_ok(1) [OF invite_ok] by (simp_all add: invite_args_def)
  then show ?thesis by blast
qed (use VoiceTransition_ok(1) [OF invite_ok] in \<open>auto simp: invite_args_def\<close>)

theorem calls_are_paired_witness: "live ringing_redis (voice_key 1) = live ringing_redis (voice_key 2)"
proof -
  obtain c0 where r: "ringing_redis = setex (rate_key 1) ''1'' 3 (store_call net_cjson invite_args 40000 c0 two_sessions)"
    and c0: "party_a c0 = 1" "party_b c0 = 2" using ringing_call by blast
  have "live ringing_redis (voice_key 1) = Some (RStr (encode net_cjson c0), Some (clock two_sessions + 40000))"
    unfolding r by (simp add: invite_args_def)
  then obtain v where v: "live ringing_redis (voice_key 1) = Some v" "fst v = RStr (encode net_cjson c0)" by simp
  from calls_are_paired [OF net_faithful ringing_reachable v(1)] obtain raw c where
    c: "decode net_cjson raw = Some c" "fst v = RStr raw"
    "live ringing_redis (voice_key (party_a c)) = Some v" "live ringing_redis (voice_key (party_b c)) = Some v" by blast
  have "raw = encode net_cjson c0" using v(2) c(2) by simp
  then have "party_b c = 2" using c(1) c0 by (auto simp: net_decode fields_call_def call_fields_def)
  then show ?thesis using v c(4) by simp
qed

definition talking_redis :: redis where
  "talking_redis = store_call net_cjson invite_args LeaseMs
     \<lparr>call_id = ''c1'', party_a = 1, party_b = 2, session_a = ''s1'', session_b = ''s2'',
      device_a = Some ''desktop'', device_b = Some ''desktop'', call_state = ''active'', call_video = False,
      camera_a = Some True, camera_b = Some True, seen_a = 0, seen_b = 0, seq_audio_a = Some 0, seq_audio_b = Some 0,
      seq_video_a = Some 0, seq_video_b = Some 0, last_audio_a = None, last_audio_b = None, last_video_a = None,
      last_video_b = None, credit_audio_a = None, credit_audio_b = None, credit_video_a = None,
      credit_video_b = None\<rparr> two_sessions"

definition frame_args :: voice_args where
  "frame_args = invite_args\<lparr>v_action := ''frame'', v_sequence := 5\<rparr>"

lemma frame_ok: "fst (VoiceTransition net_cjson Delivered frame_args talking_redis) = 0"
proof -
  have c: "clock talking_redis = 0"
    by (simp add: talking_redis_def two_sessions_def empty_redis_def)
  have v: "value_of talking_redis k = (if k = voice_key 1 \<or> k = voice_key 2 then Some (encode net_cjson
      \<lparr>call_id = ''c1'', party_a = 1, party_b = 2, session_a = ''s1'', session_b = ''s2'',
      device_a = Some ''desktop'', device_b = Some ''desktop'', call_state = ''active'', call_video = False,
      camera_a = Some True, camera_b = Some True, seen_a = 0, seen_b = 0, seq_audio_a = Some 0, seq_audio_b = Some 0,
      seq_video_a = Some 0, seq_video_b = Some 0, last_audio_a = None, last_audio_b = None, last_video_a = None,
      last_video_b = None, credit_audio_a = None, credit_audio_b = None, credit_video_a = None,
      credit_video_b = None\<rparr>) else value_of two_sessions k)" "\<not> wrong_type talking_redis k" for k
    by (auto simp: value_of_def wrong_type_def talking_redis_def LeaseMs_def invite_args_def two_sessions_live)
  show ?thesis
    using slot_key_inj(2) [OF devices_valid(1) devices_valid(1)]
    by (simp add: VoiceTransition_def Evaluate_def command_def as_integer_def voice_script_def Let_def frame_args_def
        invite_args_def v two_sessions_value voice_existing_def net_decode fields_call_def call_fields_def
        or_desktop_def hangup_def voice_update_def voice_frame_def bool_text_def c TimeoutMs_def seq_of_def
        available_def credit_of_def last_of_def burst_def rate_def code_def)
qed


end
