(* ===== verification/Node.thy ===== *)
theory Node
  imports Voice GroupChats Users "HOL-Library.State_Monad"
begin

text \<open>
  A chat node as its services see it: the database and Redis they call, the open sessions by their ids,
  the session slots of \<^verbatim>\<open>UserMgr\<close>, and the calls they make on sessions and on other nodes, in order.
  Services are computations of the library's state monad over this record. A call of the data access layer or
  of Redis runs on the record's component; the fates of Redis commands are consumed from a list, as
  the faults of statements are in the database. A service runs without interference from other threads.
\<close>

section \<open>State\<close>

record client =
  cl_id :: string
  cl_uid :: int
  cl_device :: string
  cl_closed :: bool
  cl_voice :: bool
  cl_file :: bool

datatype rpc =
    NotifyAddFriend int int string string
  | NotifyAuthFriend int int
  | NotifyTextChatMsg int int int "ChatMessage list"
  | NotifyDeleteFriend int int
  | NotifyKickUser int string
  | RelayVoice int string string bool bool

text \<open>What becomes of a call of another node: no connection was free, it failed, the node refused it or answered.\<close>

datatype call_fate = NoStub | CallFailed | CallRefused | Replied

datatype event = Sent string int string | Called string rpc

record node =
  mysqld :: mysql
  redisd :: redis
  fates :: "delivery list"
  call_fates :: "call_fate list"
  peer_host :: "string \<Rightarrow> string option"
  self_name :: string
  clients :: "string \<Rightarrow> client option"
  uid_to_session :: "int \<Rightarrow> (string \<times> string) list"
  events :: "event list"

type_synonym 'a svc = "(node, 'a) state"

definition sql_call :: "(mysql \<Rightarrow> 'a \<times> mysql) \<Rightarrow> 'a svc" where
  "sql_call f = State (\<lambda>n. case f (mysqld n) of (x, m) \<Rightarrow> (x, n\<lparr>mysqld := m\<rparr>))"

definition next_fate :: "node \<Rightarrow> delivery \<times> node" where
  "next_fate n = (case fates n of [] \<Rightarrow> (Delivered, n) | d # ds \<Rightarrow> (d, n\<lparr>fates := ds\<rparr>))"

definition redis_call :: "(delivery \<Rightarrow> redis \<Rightarrow> 'a \<times> redis) \<Rightarrow> 'a svc" where
  "redis_call f = State (\<lambda>n. case next_fate n of (d, n1) \<Rightarrow>
     case f d (redisd n1) of (x, r) \<Rightarrow> (x, n1\<lparr>redisd := r\<rparr>))"

definition emit :: "event \<Rightarrow> bool svc" where
  "emit e = State (\<lambda>n. (True, n\<lparr>events := events n @ [e]\<rparr>))"

abbreviation reads :: "(node \<Rightarrow> 'a) \<Rightarrow> 'a svc" where
  "reads f \<equiv> State (\<lambda>n. (f n, n))"

abbreviation give :: "'a \<Rightarrow> 'a svc" where
  "give \<equiv> State_Monad.return"

text \<open>A loop whose body may throw, which is \<^term>\<open>False\<close>: an exception leaves the loop.\<close>

primrec each :: "('a \<Rightarrow> bool svc) \<Rightarrow> 'a list \<Rightarrow> bool svc" where
  "each f [] = give True"
| "each f (x # xs) = do { ok \<leftarrow> f x; if ok then each f xs else give False }"

text \<open>
  What the services take from elsewhere: the JSON libraries, OpenSSL's base64 block functions, the current time as
  text and in milliseconds, and for the account lock its connection, the turns of its loop and the fresh identifier.
\<close>

record runtime =
  json_lib :: jsoncpp
  cjson_lib :: cjson
  DecodeBlock :: "string \<Rightarrow> string option"
  EncodeBlock :: "string \<Rightarrow> string"
  timestamp :: string
  now_ms :: rat
  lock_connection :: bool
  lock_turns :: "turn list"
  lock_identifier :: string

definition err :: "ErrorCodes \<Rightarrow> json" where
  "err e = JInt (error_value e)"

text \<open>\<^verbatim>\<open>CSession::Send\<close>, called on a session.\<close>

definition send :: "client \<Rightarrow> string \<Rightarrow> MessageIds \<Rightarrow> bool svc" where
  "send c body i = emit (Sent (cl_id c) (message_id_value i) body)"

text \<open>\<^verbatim>\<open>CSession::Close\<close>, as far as other services see it.\<close>

definition close_client :: "string \<Rightarrow> unit svc" where
  "close_client i = State (\<lambda>n. ((), n\<lparr>clients := (clients n)(i := map_option (\<lambda>c. c\<lparr>cl_closed := True\<rparr>) (clients n i))\<rparr>))"

section \<open>UserMgr\<close>

definition GetSession :: "int \<Rightarrow> string \<Rightarrow> node \<Rightarrow> client option" where
  "GetSession uid device n = Option.bind (map_of (uid_to_session n uid) device) (clients n)"

definition GetSessions :: "int \<Rightarrow> node \<Rightarrow> client list" where
  "GetSessions uid n = filter (\<lambda>c. \<not> cl_closed c) (List.map_filter (\<lambda>(device, i). clients n i) (uid_to_session n uid))"

definition SetUserSession :: "int \<Rightarrow> client \<Rightarrow> node \<Rightarrow> node" where
  "SetUserSession uid c n = n\<lparr>uid_to_session := (uid_to_session n)(uid := AList.update (cl_device c) (cl_id c) (uid_to_session n uid))\<rparr>"

fun erase_slot :: "string \<Rightarrow> (string \<times> string) list \<Rightarrow> (string \<times> string) list" where
  "erase_slot i [] = []"
| "erase_slot i ((device, j) # slots) = (if j = i then slots else (device, j) # erase_slot i slots)"

definition RmvUserSession :: "int \<Rightarrow> string \<Rightarrow> node \<Rightarrow> node" where
  "RmvUserSession uid session_id n = n\<lparr>uid_to_session := (uid_to_session n)(uid := erase_slot session_id (uid_to_session n uid))\<rparr>"

section \<open>Calls of other nodes\<close>

text \<open>The result is whether the other node answered without an error. A node that is not configured has no connections.\<close>

definition next_call :: "call_fate svc" where
  "next_call = State (\<lambda>n. case call_fates n of [] \<Rightarrow> (Replied, n) | d # ds \<Rightarrow> (d, n\<lparr>call_fates := ds\<rparr>))"

definition peer_call :: "string \<Rightarrow> rpc \<Rightarrow> bool svc" where
  "peer_call server request = do {
     host \<leftarrow> reads (\<lambda>n. peer_host n server);
     if host = None then give False
     else do {
       fate \<leftarrow> next_call;
       if fate = NoStub then give False
       else do { emit (Called server request); give (fate = Replied) } } }"

definition ChatGrpcClient_NotifyAddFriend :: "string \<Rightarrow> int \<Rightarrow> int \<Rightarrow> string \<Rightarrow> string \<Rightarrow> bool svc" where
  "ChatGrpcClient_NotifyAddFriend server applyuid touid name desc = peer_call server (NotifyAddFriend applyuid touid name desc)"

definition ChatGrpcClient_NotifyAuthFriend :: "string \<Rightarrow> int \<Rightarrow> int \<Rightarrow> bool svc" where
  "ChatGrpcClient_NotifyAuthFriend server fromuid touid = peer_call server (NotifyAuthFriend fromuid touid)"

definition ChatGrpcClient_NotifyTextChatMsg :: "string \<Rightarrow> int \<Rightarrow> int \<Rightarrow> int \<Rightarrow> ChatMessage list \<Rightarrow> bool svc" where
  "ChatGrpcClient_NotifyTextChatMsg server fromuid touid thread messages = peer_call server (NotifyTextChatMsg fromuid touid thread messages)"

definition ChatGrpcClient_NotifyKickUser :: "string \<Rightarrow> int \<Rightarrow> string \<Rightarrow> bool svc" where
  "ChatGrpcClient_NotifyKickUser server uid device = peer_call server (NotifyKickUser uid device)"

definition ChatGrpcClient_NotifyDeleteFriend :: "string \<Rightarrow> int \<Rightarrow> int \<Rightarrow> bool svc" where
  "ChatGrpcClient_NotifyDeleteFriend server fromuid touid = peer_call server (NotifyDeleteFriend fromuid touid)"

text \<open>Voice stays on this host.\<close>

definition ChatGrpcClient_RelayVoice :: "string \<Rightarrow> int \<Rightarrow> string \<Rightarrow> string \<Rightarrow> bool \<Rightarrow> bool \<Rightarrow> bool svc" where
  "ChatGrpcClient_RelayVoice server uid session payload audio video = do {
     host \<leftarrow> reads (\<lambda>n. peer_host n server);
     if host \<in> {Some ''127.0.0.1'', Some ''::1'', Some ''localhost''} then peer_call server (RelayVoice uid session payload audio video)
     else give False }"

section \<open>Routing\<close>

text \<open>\<^verbatim>\<open>RedisMgr::Destinations\<close> issues two commands.\<close>

definition destinations :: "int \<Rightarrow> string list svc" where
  "destinations uid = State (\<lambda>n. case next_fate n of (d1, n1) \<Rightarrow> case next_fate n1 of (d2, n2) \<Rightarrow>
     case Destinations d1 d2 uid (redisd n2) of (x, r) \<Rightarrow> (x, n2\<lparr>redisd := r\<rparr>))"

text \<open>A route leads to this node's sessions or to a call of another node, whose result is not looked at.\<close>

definition routed :: "int \<Rightarrow> bool svc \<Rightarrow> (string \<Rightarrow> bool svc) \<Rightarrow> bool svc" where
  "routed uid here there = do {
     nodes \<leftarrow> destinations uid;
     each (\<lambda>destination. do {
       self \<leftarrow> reads self_name;
       if destination = self then here else do { there destination; give True }
     }) nodes }"

section \<open>What a computation may do\<close>

named_theorems io_rules

lemma io_give [io_rules]: "(\<And>n. R n n) \<Longrightarrow> state_io_rel R (give x)"
  by auto

lemma io_reads [io_rules]: "(\<And>n. R n n) \<Longrightarrow> state_io_rel R (reads f)"
  by auto

lemma io_bind:
  assumes "transp R" "state_io_rel R m" "\<And>x. state_io_rel R (f x)"
  shows "state_io_rel R (State_Monad.bind m f)"
proof
  fix a s s'
  assume "run_state (State_Monad.bind m f) s = (a, s')"
  then obtain x s1 where "run_state m s = (x, s1)" "run_state (f x) s1 = (a, s')" by (auto split: prod.splits)
  then show "R s s'" using assms by (meson state_io_relD transpE)
qed

lemma io_each:
  assumes "transp R" "\<And>n. R n n" "\<And>x. x \<in> set xs \<Longrightarrow> state_io_rel R (f x)"
  shows "state_io_rel R (each f xs)"
  using assms(3) by (induction xs) (auto intro!: io_bind [OF assms(1)] io_give assms(2))

end
