(* ===== verification/UserService.thy ===== *)
theory UserService
  imports Node
begin

text \<open>
  The stateless user service (\<^verbatim>\<open>UserService.cpp\<close>): profiles from the database, copied to Redis, and their
  update, which invalidates the copies before and after the write.
\<close>

definition WriteProfile :: "jsoncpp \<Rightarrow> UserInfo \<Rightarrow> json \<Rightarrow> json" where
  "WriteProfile J user = set_members
     [(''uid'', JInt (ui_uid user)), (''name'', JStr (ui_name user)), (''email'', JStr (ui_email user)), (''nick'', JStr (ui_nick user)),
      (''desc'', JStr (ui_desc user)), (''sex'', JInt (ui_sex user)), (''icon'', JStr (ui_icon user)), (''back'', JStr (ui_back user)),
      (''tags'', ParseContactTags J (ui_tags_json user))]"

definition GetById :: "jsoncpp \<Rightarrow> int \<Rightarrow> UserInfo option svc" where
  "GetById J uid = do {
     user \<leftarrow> (if 0 < uid then sql_call (GetUser uid) else give None);
     case user of None \<Rightarrow> give None
     | Some u \<Rightarrow> do {
         stored \<leftarrow> redis_call (\<lambda>d. Set d (USER_BASE_INFO @ to_string uid) (toStyledString J (WriteProfile J u JNull)));
         give (Some u) } }"

definition GetByName :: "jsoncpp \<Rightarrow> string \<Rightarrow> UserInfo option svc" where
  "GetByName J name = do {
     user \<leftarrow> sql_call (GetUserByName name);
     case user of None \<Rightarrow> give None
     | Some u \<Rightarrow> do {
         stored \<leftarrow> redis_call (\<lambda>d. Set d (NAME_INFO @ name) (toStyledString J (WriteProfile J u JNull)));
         give (Some u) } }"

text \<open>The error and whether the change was committed.\<close>

definition UserService_UpdateProfile ::
    "int \<Rightarrow> string \<Rightarrow> string \<Rightarrow> string \<Rightarrow> string \<Rightarrow> bool \<Rightarrow> (ErrorCodes \<times> bool) svc" where
  "UserService_UpdateProfile uid name nick description avatar has_avatar =
     (if uid \<le> 0 then give (TokenInvalid, False)
      else if name = [] \<or> 64 < length name \<or> 64 < length nick \<or> 255 < length description \<or> (has_avatar \<and> 8192 < length avatar)
      then give (Error_Json, False)
      else do {
        old_user \<leftarrow> sql_call (GetUser uid);
        case old_user of None \<Rightarrow> give (DatabaseError, False)
        | Some u \<Rightarrow>
            if name \<noteq> ui_name u \<and> (length name < 3 \<or> list_ex (\<lambda>c. byte c \<le> 32 \<or> byte c = 127) name)
            then give (Error_Json, False)
            else do {
              pre_base \<leftarrow> redis_call (\<lambda>d. Del d (USER_BASE_INFO @ to_string uid));
              pre_old \<leftarrow> redis_call (\<lambda>d. Del d (NAME_INFO @ ui_name u));
              pre_new \<leftarrow> redis_call (\<lambda>d. Del d (NAME_INFO @ name));
              if \<not> pre_base \<or> \<not> pre_old \<or> \<not> pre_new then give (RedisError, False)
              else do {
                error \<leftarrow> sql_call (UpdateProfile uid name nick description avatar has_avatar);
                if error \<noteq> Success then give (error, False)
                else do {
                  base \<leftarrow> redis_call (\<lambda>d. Del d (USER_BASE_INFO @ to_string uid));
                  old \<leftarrow> redis_call (\<lambda>d. Del d (NAME_INFO @ ui_name u));
                  current \<leftarrow> redis_call (\<lambda>d. Del d (NAME_INFO @ name));
                  give (if base \<and> old \<and> current then Success else RedisError, True) } } } })"

definition UserService_GetAvatar :: "int \<Rightarrow> (bool \<times> string) svc" where
  "UserService_GetAvatar uid =
     (if uid \<le> 0 then give (False, [])
      else do {
        (ok, avatar) \<leftarrow> sql_call (GetAvatar uid);
        give (ok \<and> length avatar \<le> 8192, avatar) })"

end
