(* ===== verification/Media.thy ===== *)
theory Media
  imports Prelude
begin

text \<open>
  The voice message container (\<^verbatim>\<open>shared/media/pcmwave.h\<close>): a RIFF/WAVE header of 44 bytes before
  16-bit samples. A \<^verbatim>\<open>std::uint32_t\<close> is a \<^typ>\<open>32 word\<close>, the size of a file a natural number.
  The two functions are inverse to each other: a header is accepted for a file size exactly when it is the one
  \<^verbatim>\<open>WaveHeader\<close> writes for the samples that follow it.
\<close>

unbundle bit_operations_syntax

section \<open>The code\<close>

definition WaveHeaderBytes :: nat where "WaveHeaderBytes = 44"
definition PcmBytesPerSecond :: nat where "PcmBytesPerSecond = 32000"
definition MinPcmBytes :: nat where "MinPcmBytes = PcmBytesPerSecond"
definition MaxPcmBytes :: nat where "MaxPcmBytes = PcmBytesPerSecond * 60"

definition ReadLittle :: "string \<Rightarrow> nat \<Rightarrow> nat \<Rightarrow> 32 word" where
  "ReadLittle bytes offset count =
     fold (\<lambda>i value. value OR push_bit (8 * i) (word_of_nat (byte (bytes ! (offset + i))))) [0..<count] 0"

text \<open>\<^verbatim>\<open>header.substr(offset, count)\<close>.\<close>

definition substr :: "string \<Rightarrow> nat \<Rightarrow> nat \<Rightarrow> string" where
  "substr bytes offset count = take count (drop offset bytes)"

definition WaveDurationMs :: "string \<Rightarrow> nat \<Rightarrow> nat" where
  "WaveDurationMs header totalBytes =
     (if length header < WaveHeaderBytes \<or> totalBytes < WaveHeaderBytes + MinPcmBytes \<or>
         WaveHeaderBytes + MaxPcmBytes < totalBytes \<or> (totalBytes - WaveHeaderBytes) mod 2 \<noteq> 0 then 0
      else if substr header 0 4 \<noteq> ''RIFF'' \<or> unat (ReadLittle header 4 4) \<noteq> totalBytes - 8 \<or>
         substr header 8 8 \<noteq> ''WAVEfmt '' \<or> ReadLittle header 16 4 \<noteq> 16 \<or> ReadLittle header 20 2 \<noteq> 1 \<or>
         ReadLittle header 22 2 \<noteq> 1 \<or> ReadLittle header 24 4 \<noteq> 16000 \<or> unat (ReadLittle header 28 4) \<noteq> PcmBytesPerSecond \<or>
         ReadLittle header 32 2 \<noteq> 2 \<or> ReadLittle header 34 2 \<noteq> 16 \<or> substr header 36 4 \<noteq> ''data'' \<or>
         unat (ReadLittle header 40 4) \<noteq> totalBytes - WaveHeaderBytes then 0
      else (totalBytes - WaveHeaderBytes) * 1000 div PcmBytesPerSecond)"

text \<open>The lambda \<^verbatim>\<open>write\<close>, and \<^verbatim>\<open>header.replace(offset, n, text)\<close> for a text of \<open>n\<close> bytes.\<close>

definition write_little :: "nat \<Rightarrow> 32 word \<Rightarrow> nat \<Rightarrow> string \<Rightarrow> string" where
  "write_little offset value count header =
     fold (\<lambda>i h. h[offset + i := char_of (unat (drop_bit (8 * i) value AND 255))]) [0..<count] header"

definition replace_text :: "nat \<Rightarrow> string \<Rightarrow> string \<Rightarrow> string" where
  "replace_text offset text header = take offset header @ text @ drop (offset + length text) header"

definition WaveHeader :: "32 word \<Rightarrow> string" where
  "WaveHeader pcmBytes =
     (if unat pcmBytes < MinPcmBytes \<or> MaxPcmBytes < unat pcmBytes \<or> unat pcmBytes mod 2 \<noteq> 0 then []
      else write_little 40 pcmBytes 4 (replace_text 36 ''data'' (write_little 34 16 2 (write_little 32 2 2
        (write_little 28 (word_of_nat PcmBytesPerSecond) 4 (write_little 24 16000 4 (write_little 22 1 2 (write_little 20 1 2
        (write_little 16 16 4 (replace_text 8 ''WAVEfmt '' (write_little 4 (pcmBytes + 36) 4 (replace_text 0 ''RIFF''
          (replicate WaveHeaderBytes (char_of (0 :: nat)))))))))))))))"

section \<open>Little-endian fields\<close>

definition little :: "nat \<Rightarrow> 32 word \<Rightarrow> string" where
  "little k v = map (\<lambda>i. char_of (unat (drop_bit (8 * i) v AND 255))) [0..<k]"

lemma byte_char_of_mod [simp]: "byte (char_of n) = n mod 256"
  by (simp add: byte_def)

lemma byte_eq_iff [simp]: "(byte c = byte d) = (c = d)"
  by (simp add: byte_def)

lemma byte_bound: "byte c < 256"
  by (simp add: byte_def)

lemma and_255: "(w :: 32 word) AND 255 = take_bit 8 w"
  by (simp add: take_bit_eq_mask mask_eq_exp_minus_1)

lemma byte_bit_less: "bit (byte c) n \<Longrightarrow> n < 8"
proof -
  have b: "take_bit 8 (byte c) = byte c" using byte_bound [of c] by (simp add: take_bit_nat_eq_self)
  show "bit (byte c) n \<Longrightarrow> n < 8" by (subst (asm) b [symmetric]) (simp add: bit_take_bit_iff)
qed

lemma byte_bit: "bit (word_of_nat (byte c) :: 32 word) n \<longleftrightarrow> bit (byte c) n"
  by (auto simp: bit_simps dest: byte_bit_less)

lemma char_of_low: "char_of (unat ((w :: 32 word) AND 255)) = c \<longleftrightarrow> take_bit 8 w = word_of_nat (byte c)"
proof -
  have low: "unat (take_bit 8 w) < 256" using take_bit_nat_less_exp [of 8 "unat w"] by (simp add: unsigned_take_bit_eq)
  have "char_of (unat (take_bit 8 w)) = c \<longleftrightarrow> unat (take_bit 8 w) = byte c"
    using low by (metis byte_char_of_mod byte_eq_iff mod_less)
  also have "\<dots> \<longleftrightarrow> take_bit 8 w = word_of_nat (byte c)"
  proof
    assume "unat (take_bit 8 w) = byte c"
    then show "take_bit 8 w = word_of_nat (byte c)" by (simp flip: \<open>unat (take_bit 8 w) = byte c\<close>)
  qed (use byte_bound [of c] in \<open>simp add: unat_of_nat\<close>)
  finally show ?thesis by (simp add: and_255)
qed

lemma little_4: "little 4 v = [char_of (unat (v AND 255)), char_of (unat (drop_bit 8 v AND 255)),
    char_of (unat (drop_bit 16 v AND 255)), char_of (unat (drop_bit 24 v AND 255))]"
  by (simp add: little_def upt_rec)

lemma little_2: "little 2 v = [char_of (unat (v AND 255)), char_of (unat (drop_bit 8 v AND 255))]"
  by (simp add: little_def upt_rec)


lemma join_bytes:
  "(word_of_nat (byte a) OR push_bit 8 (word_of_nat (byte b)) OR push_bit 16 (word_of_nat (byte c)) OR
      push_bit 24 (word_of_nat (byte d)) :: 32 word) = v \<longleftrightarrow>
    take_bit 8 v = word_of_nat (byte a) \<and> take_bit 8 (drop_bit 8 v) = word_of_nat (byte b) \<and>
    take_bit 8 (drop_bit 16 v) = word_of_nat (byte c) \<and> take_bit 8 (drop_bit 24 v) = word_of_nat (byte d)"
  (is "?r = v \<longleftrightarrow> ?s")
proof
  assume r: "?r = v"
  have v: "bit v n = (n < 32 \<and> (bit (byte a) n \<or> 8 \<le> n \<and> bit (byte b) (n - 8) \<or> 16 \<le> n \<and> bit (byte c) (n - 16) \<or>
      24 \<le> n \<and> bit (byte d) (n - 24)))" for n
    by (subst r [symmetric]) (auto simp: bit_simps byte_bit dest: byte_bit_less)
  show ?s
    by (intro conjI bit_word_eqI) (auto simp: bit_simps byte_bit v dest: byte_bit_less)
next
  assume s: ?s
  have b: "(n < 8 \<and> bit v n) = bit (byte a) n" "(n < 8 \<and> bit v (8 + n)) = bit (byte b) n"
    "(n < 8 \<and> bit v (16 + n)) = bit (byte c) n" "(n < 8 \<and> bit v (24 + n)) = bit (byte d) n" for n
    using arg_cong [OF s [THEN conjunct1], of "\<lambda>x. bit x n"] arg_cong [OF s [THEN conjunct2, THEN conjunct1], of "\<lambda>x. bit x n"]
      arg_cong [OF s [THEN conjunct2, THEN conjunct2, THEN conjunct1], of "\<lambda>x. bit x n"]
      arg_cong [OF s [THEN conjunct2, THEN conjunct2, THEN conjunct2], of "\<lambda>x. bit x n"]
    by (auto simp: bit_simps byte_bit dest: byte_bit_less)
  show "?r = v"
  proof (rule bit_word_eqI)
    fix n assume "n < LENGTH(32)"
    then consider "n < 8" | "8 \<le> n" "n < 16" | "16 \<le> n" "n < 24" | "24 \<le> n" "n < 32" by fastforce
    then show "bit ?r n = bit v n"
      using b(1) [of n] b(2) [of "n - 8"] b(3) [of "n - 16"] b(4) [of "n - 24"]
      by cases (auto simp: bit_simps byte_bit dest: byte_bit_less)
  qed
qed

lemma substr_4: "k + 4 \<le> length h \<Longrightarrow> substr h k 4 = [h ! k, h ! (k + 1), h ! (k + 2), h ! (k + 3)]"
  by (rule nth_equalityI) (auto simp: substr_def less_Suc_eq numeral_eq_Suc)

lemma substr_2: "k + 2 \<le> length h \<Longrightarrow> substr h k 2 = [h ! k, h ! (k + 1)]"
  by (rule nth_equalityI) (auto simp: substr_def less_Suc_eq numeral_eq_Suc)

lemma read_bytes_4: "ReadLittle h k 4 = (word_of_nat (byte (h ! k)) OR push_bit 8 (word_of_nat (byte (h ! (k + 1)))) OR
    push_bit 16 (word_of_nat (byte (h ! (k + 2)))) OR push_bit 24 (word_of_nat (byte (h ! (k + 3)))))"
proof -
  have "[0..<4] = [0, 1, 2, 3 :: nat]" by (simp add: upt_rec)
  then show ?thesis by (simp add: ReadLittle_def or.assoc)
qed

lemma read_bytes_2: "ReadLittle h k 2 = (word_of_nat (byte (h ! k)) OR push_bit 8 (word_of_nat (byte (h ! (k + 1)))) OR
    push_bit 16 (word_of_nat (byte (char_of (0 :: nat)))) OR push_bit 24 (word_of_nat (byte (char_of (0 :: nat)))))"
proof -
  have "[0..<2] = [0, 1 :: nat]" by (simp add: upt_rec)
  then show ?thesis by (simp add: ReadLittle_def)
qed

lemma low_char: "c = char_of (unat ((w :: 32 word) AND 255)) \<longleftrightarrow> take_bit 8 w = word_of_nat (byte c)"
  using char_of_low [of w c] by metis

lemma ReadLittle_4: "k + 4 \<le> length h \<Longrightarrow> ReadLittle h k 4 = v \<longleftrightarrow> substr h k 4 = little 4 v"
  by (simp only: read_bytes_4 join_bytes substr_4 little_4 list.inject low_char simp_thms)

lemma ReadLittle_2:
  assumes "k + 2 \<le> length h" "unat v < 2 ^ 16"
  shows "ReadLittle h k 2 = v \<longleftrightarrow> substr h k 2 = little 2 v"
proof -
  have "\<not> bit v k" if "16 \<le> k" for k
  proof -
    have "unat v < 2 ^ k" using assms(2) that by (meson less_le_trans one_le_numeral power_increasing)
    then have "\<not> bit (unat v) k" by (simp add: bit_iff_odd)
    moreover have "bit (unat v) k = bit v k" by (simp add: bit_unsigned_iff)
    ultimately show ?thesis by simp
  qed
  then have "bit (drop_bit 16 v) k = bit 0 k" "bit (drop_bit 24 v) k = bit 0 k" for k by (simp_all add: bit_drop_bit_eq)
  then have z: "drop_bit 16 v = 0" "drop_bit 24 v = 0" by (blast intro: bit_eqI)+
  then have "take_bit 8 (drop_bit 16 v) = word_of_nat (byte (char_of (0 :: nat)))" "take_bit 8 (drop_bit 24 v) = word_of_nat (byte (char_of (0 :: nat)))"
    by (simp_all only: z) simp_all
  then show ?thesis
    using assms(1) by (simp only: read_bytes_2 join_bytes substr_2 little_2 list.inject low_char simp_thms)
qed

lemma length_little [simp]: "length (little k v) = k"
  by (simp add: little_def)

lemma write_little_eq: "k + n \<le> length h \<Longrightarrow> write_little k v n h = take k h @ little n v @ drop (k + n) h"
proof (induction n)
  case 0
  then show ?case by (simp add: write_little_def little_def)
next
  case (Suc n)
  then have "write_little k v (Suc n) h = (take k h @ little n v @ drop (k + n) h)[k + n := char_of (unat (drop_bit (8 * n) v AND 255))]"
    by (simp add: write_little_def)
  also have "drop (k + n) h = h ! (k + n) # drop (k + Suc n) h" using Suc.prems by (simp add: Cons_nth_drop_Suc)
  finally show ?case using Suc.prems by (simp add: list_update_append little_def)
qed

lemma WaveHeader_eq:
  "WaveHeader n = (if unat n < MinPcmBytes \<or> MaxPcmBytes < unat n \<or> unat n mod 2 \<noteq> 0 then []
     else ''RIFF'' @ little 4 (n + 36) @ ''WAVEfmt '' @ little 4 16 @ little 2 1 @ little 2 1 @ little 4 16000 @ little 4 32000 @
       little 2 2 @ little 2 16 @ ''data'' @ little 4 n)"
  by (simp add: WaveHeader_def replace_text_def write_little_eq WaveHeaderBytes_def PcmBytesPerSecond_def)

lemma take_more: "take (m + n) xs = take m xs @ substr xs m n"
  by (simp add: take_add substr_def)

lemma header_parts:
  "take 44 h = substr h 0 4 @ substr h 4 4 @ substr h 8 8 @ substr h 16 4 @ substr h 20 2 @ substr h 22 2 @ substr h 24 4 @ substr h 28 4 @
     substr h 32 2 @ substr h 34 2 @ substr h 36 4 @ substr h 40 4"
  using take_more [of 40 4 h] take_more [of 36 4 h] take_more [of 34 2 h] take_more [of 32 2 h] take_more [of 28 4 h] take_more [of 24 4 h]
    take_more [of 22 2 h] take_more [of 20 2 h] take_more [of 16 4 h] take_more [of 8 8 h] take_more [of 4 4 h] take_more [of 0 4 h]
  by simp

lemma length_substr [simp]: "k + n \<le> length h \<Longrightarrow> length (substr h k n) = n"
  by (simp add: substr_def)

lemma header_accepted:
  assumes "44 \<le> length h" "MinPcmBytes \<le> unat n" "unat n \<le> MaxPcmBytes" "unat n mod 2 = 0"
  shows "take 44 h = WaveHeader n \<longleftrightarrow> 0 < WaveDurationMs h (44 + unat n)"
proof -
  have n: "unat n < 2 ^ 32 - 36" using assms(3) by (simp add: MaxPcmBytes_def PcmBytesPerSecond_def)
  have "unat (n + 36) = unat n + 36" using n by (subst unat_add_lem [THEN iffD1]) simp_all
  then have r: "unat (ReadLittle h 4 4) = 36 + unat n \<longleftrightarrow> ReadLittle h 4 4 = n + 36" for h
    by (metis add.commute word_unat_eq_iff)
  have "take 44 h = WaveHeader n \<longleftrightarrow> substr h 0 4 = ''RIFF'' \<and> ReadLittle h 4 4 = n + 36 \<and> substr h 8 8 = ''WAVEfmt '' \<and>
      ReadLittle h 16 4 = 16 \<and> ReadLittle h 20 2 = 1 \<and> ReadLittle h 22 2 = 1 \<and> ReadLittle h 24 4 = 16000 \<and> ReadLittle h 28 4 = 32000 \<and>
      ReadLittle h 32 2 = 2 \<and> ReadLittle h 34 2 = 16 \<and> substr h 36 4 = ''data'' \<and> ReadLittle h 40 4 = n"
  proof -
    define R where "R = ''RIFF''"
    define W where "W = ''WAVEfmt ''"
    define D where "D = ''data''"
    have l: "length R = 4" "length W = 8" "length D = 4" by (simp_all add: R_def W_def D_def)
    have w: "WaveHeader n = R @ little 4 (n + 36) @ W @ little 4 16 @ little 2 1 @ little 2 1 @ little 4 16000 @ little 4 32000 @
       little 2 2 @ little 2 16 @ D @ little 4 n"
      using assms by (simp only: WaveHeader_eq R_def W_def D_def) simp
    show ?thesis
      unfolding R_def [symmetric] W_def [symmetric] D_def [symmetric] w header_parts
      using assms(1) l by (simp add: ReadLittle_4 ReadLittle_2)
  qed
  also have "\<dots> \<longleftrightarrow> 0 < WaveDurationMs h (44 + unat n)"
    using assms r [of h] by (auto simp: WaveDurationMs_def WaveHeaderBytes_def MinPcmBytes_def PcmBytesPerSecond_def word_unat_eq_iff)
  finally show ?thesis .
qed

text \<open>C30: A voice header is accepted for a file exactly when it is the canonical one: \<^verbatim>\<open>WaveDurationMs\<close> reports a
  duration for a header and a file size if and only if the size is 44 bytes plus the bytes of a whole number of samples
  between one second and one minute, and the first 44 bytes are those \<^verbatim>\<open>WaveHeader\<close> writes for these samples; the
  duration is then 1000 ms for every 32000 bytes and never 0. \<^verbatim>\<open>WaveHeader\<close> writes a header for exactly these
  sizes, and it is 44 bytes long.\<close>

theorem wave_header_canonical:
  "WaveDurationMs header bytes = (if \<exists>n. WaveHeader n \<noteq> [] \<and> bytes = 44 + unat n \<and> take 44 header = WaveHeader n
     then (bytes - 44) div 32 else 0) \<and>
   (WaveHeader n \<noteq> [] \<longleftrightarrow> 32000 \<le> unat n \<and> unat n \<le> 1920000 \<and> even (unat n)) \<and>
   (WaveHeader n = [] \<or> length (WaveHeader n) = 44 \<and> 1000 \<le> WaveDurationMs (WaveHeader n) (44 + unat n))"
proof -
  have lim: "MinPcmBytes = 32000" "MaxPcmBytes = 1920000" by (simp_all add: MinPcmBytes_def MaxPcmBytes_def PcmBytesPerSecond_def)
  have w: "WaveHeader n \<noteq> [] \<longleftrightarrow> 32000 \<le> unat n \<and> unat n \<le> 1920000 \<and> even (unat n)"
    and len: "WaveHeader n \<noteq> [] \<Longrightarrow> length (WaveHeader n) = 44" for n
    by (auto simp: WaveHeader_eq lim even_iff_mod_2_eq_zero split: if_splits)
  have v: "WaveDurationMs header bytes = (bytes - 44) div 32 \<and> 1000 \<le> (bytes - 44) div 32" if "0 < WaveDurationMs header bytes" for header bytes
    using that by (auto simp: WaveDurationMs_def WaveHeaderBytes_def MinPcmBytes_def PcmBytesPerSecond_def split: if_splits)
  have iff: "0 < WaveDurationMs header bytes \<longleftrightarrow> (\<exists>n. WaveHeader n \<noteq> [] \<and> bytes = 44 + unat n \<and> take 44 header = WaveHeader n)" for header bytes
  proof
    assume p: "0 < WaveDurationMs header bytes"
    then have b: "44 \<le> length header" "32044 \<le> bytes" "bytes \<le> 1920044" "even (bytes - 44)"
      by (auto simp: WaveDurationMs_def WaveHeaderBytes_def lim split: if_splits)
    define n where "n = (word_of_nat (bytes - 44) :: 32 word)"
    have n: "unat n = bytes - 44" using b(3) by (simp add: n_def unat_of_nat)
    have "take 44 header = WaveHeader n" using header_accepted [of header n] p b n by (simp add: lim even_iff_mod_2_eq_zero)
    then show "\<exists>n. WaveHeader n \<noteq> [] \<and> bytes = 44 + unat n \<and> take 44 header = WaveHeader n" using n b w [of n] by auto
  next
    assume "\<exists>n. WaveHeader n \<noteq> [] \<and> bytes = 44 + unat n \<and> take 44 header = WaveHeader n"
    then obtain n where n: "WaveHeader n \<noteq> []" "bytes = 44 + unat n" "take 44 header = WaveHeader n" by blast
    moreover have "44 \<le> length header" using len [OF n(1)] n(3) by (metis length_take min.cobounded1)
    ultimately show "0 < WaveDurationMs header bytes" using header_accepted [of header n] w [of n] by (simp add: lim even_iff_mod_2_eq_zero)
  qed
  have "1000 \<le> WaveDurationMs (WaveHeader n) (44 + unat n)" if "WaveHeader n \<noteq> []"
    using v [of "WaveHeader n" "44 + unat n"] iff [of "WaveHeader n" "44 + unat n"] that len [OF that] by force
  moreover have "WaveDurationMs header bytes = (if 0 < WaveDurationMs header bytes then (bytes - 44) div 32 else 0)"
    using v [of header bytes] by simp
  ultimately show ?thesis using iff [of header bytes] w [of n] len [of n] by auto
qed

end
