(* ===== verification/MessageService.thy ===== *)
theory MessageService
  imports Node Messages Media
begin

text \<open>
  The message service (\<^verbatim>\<open>MessageService.cpp\<close>): presenting a message to a client that may lack the voice or file
  feature, checking and storing a batch, pushing it to the recipient's sessions and nodes, and reading
  histories and thread lists with access control. A batch is a list of pointers, \<^term>\<open>None\<close> the null one; a
  conversion of JSON that throws is \<^term>\<open>None\<close>.
\<close>

section \<open>Presenting a message\<close>

text \<open>The two notices, as the bytes of their UTF-8 text.\<close>

definition file_notice :: string where
  "file_notice = map char_of [91, 230, 150, 135, 228, 187, 182, 230, 182, 136, 230, 129, 175, 93, 32, 232, 175, 183, 229, 141, 135, 231, 186, 167, 229, 174, 162, 230, 136, 183, 231, 171, 175, 228, 187, 165, 228, 184, 139, 232, 189, 189 :: nat]"

definition voice_notice :: string where
  "voice_notice = map char_of [91, 232, 175, 173, 233, 159, 179, 230, 182, 136, 230, 129, 175, 93, 32, 232, 175, 183, 229, 141, 135, 231, 186, 167, 229, 174, 162, 230, 136, 183, 231, 171, 175, 228, 187, 165, 230, 148, 182, 229, 144, 172 :: nat]"

definition unsupported :: "string \<Rightarrow> json \<Rightarrow> json" where
  "unsupported notice = set_members
     [(''msg_type'', JInt 0), (''content'', JStr notice), (''msg_content'', JStr notice), (''media_size'', JInt 0)]"

definition duration_ms :: "nat \<Rightarrow> nat" where
  "duration_ms bytes = (if WaveHeaderBytes \<le> bytes then (bytes - WaveHeaderBytes) * 1000 mod 2 ^ 64 div PcmBytesPerSecond else 0)"

definition PresentMessage :: "bool \<Rightarrow> bool \<Rightarrow> json \<Rightarrow> json option" where
  "PresentMessage voiceMessages fileMessages message =
     (case asInt (get_default message ''msg_type'' (JInt 0)) of None \<Rightarrow> None
      | Some t \<Rightarrow>
          if t = 2 \<and> \<not> fileMessages then Some (unsupported file_notice message)
          else if t \<noteq> 3 then Some message
          else if \<not> voiceMessages then Some (unsupported voice_notice message)
          else (case asUInt64 (get_default message ''media_size'' (JInt 0)) of None \<Rightarrow> None
            | Some bytes \<Rightarrow> Some (set_members
                [(''media_format'', JStr ''wav/pcm_s16le/16000/mono''), (''duration_ms'', JInt (int (duration_ms bytes)))] message)))"

text \<open>The presentation of every element of \<^verbatim>\<open>chat_datas\<close>.\<close>

definition present_all :: "bool \<Rightarrow> bool \<Rightarrow> json \<Rightarrow> json option" where
  "present_all voice files notification = (case index notification ''chat_datas'' of
       JArr items \<Rightarrow> map_option (\<lambda>xs. set_member ''chat_datas'' (JArr xs) notification) (those (map (PresentMessage voice files) items))
     | _ \<Rightarrow> Some notification)"

section \<open>Storing\<close>

definition is_group :: "ChatMessage option list \<Rightarrow> bool" where
  "is_group messages = (case messages of Some m # _ \<Rightarrow> cm_sender_id m = cm_recv_id m | _ \<Rightarrow> False)"

definition media_prefix :: "int \<Rightarrow> bool \<Rightarrow> ChatMessage \<Rightarrow> string" where
  "media_prefix actor group_chat m =
     (if cm_msg_type m = 3 then ''audio:'' else if cm_msg_type m = 2 then ''file:'' else []) @
     (if group_chat then ''group:'' @ to_string actor @ '':'' @ to_string (cm_thread_id m) @ '':''
      else to_string actor @ '':'' @ to_string (cm_recv_id m) @ '':'')"

definition check_media :: "int \<Rightarrow> bool \<Rightarrow> ChatMessage \<Rightarrow> (ErrorCodes + ChatMessage) svc" where
  "check_media actor group_chat m =
     (if length (cm_content m) \<noteq> 32 \<or> \<not> list_all isxdigit (cm_content m) then give (Inl Error_Json)
      else do {
        ready \<leftarrow> redis_call (\<lambda>d. Get d (''resource_ready_'' @ cm_content m));
        give (case ready of None \<Rightarrow> Inl RedisError
          | Some text \<Rightarrow>
              let prefix = media_prefix actor group_chat m in
              if take (length prefix) text \<noteq> prefix then Inl Error_Json
              else (case stoull (drop (length prefix) text) of None \<Rightarrow> Inl Error_Json
                | Some (bytes, _) \<Rightarrow>
                    if cm_msg_type m = 3 \<and> (bytes < WaveHeaderBytes + MinPcmBytes \<or> WaveHeaderBytes + MaxPcmBytes < bytes)
                    then Inl Error_Json else Inr (m\<lparr>cm_media_size := bytes\<rparr>))) })"

primrec check_messages :: "int \<Rightarrow> bool \<Rightarrow> ChatMessage option list \<Rightarrow> (ErrorCodes + ChatMessage list) svc" where
  "check_messages actor group_chat [] = give (Inr [])"
| "check_messages actor group_chat (x # xs) = (case x of None \<Rightarrow> give (Inl UidInvalid)
     | Some m \<Rightarrow>
         if cm_sender_id m \<noteq> actor \<or> cm_recv_id m \<le> 0 \<or> cm_thread_id m \<le> 0 then give (Inl UidInvalid)
         else if cm_msg_type m < 0 \<or> 3 < cm_msg_type m then give (Inl Error_Json)
         else do {
           checked \<leftarrow> (if cm_msg_type m \<noteq> 0 then check_media actor group_chat m else give (Inr m));
           case checked of Inl e \<Rightarrow> give (Inl e)
           | Inr m' \<Rightarrow> do {
               rest \<leftarrow> check_messages actor group_chat xs;
               give (map_sum id (Cons m') rest) } })"

text \<open>The result and, on success, the messages with the fields the call filled in.\<close>

definition Store :: "int \<Rightarrow> ChatMessage option list \<Rightarrow> (ErrorCodes + ChatMessage list) svc" where
  "Store actor messages =
     (if actor \<le> 0 \<or> messages = [] then give (Inl UidInvalid)
      else do {
        access \<leftarrow> (if is_group messages then sql_call (\<lambda>c. case GetGroup actor (cm_thread_id (the (hd messages))) JNull False c of
            ((e, g), c') \<Rightarrow> (e, c')) else give Success);
        if access \<noteq> Success then give (Inl access)
        else do {
          checked \<leftarrow> check_messages actor (is_group messages) messages;
          case checked of Inl e \<Rightarrow> give (Inl e)
          | Inr ms \<Rightarrow> do {
              friendship \<leftarrow> (if is_group messages then give Success else sql_call (CheckFriendship actor (cm_recv_id (hd ms))));
              if friendship \<noteq> Success then give (Inl friendship)
              else do {
                stored \<leftarrow> sql_call (AddChatMsg (map Some ms));
                give (case stored of None \<Rightarrow> Inl DatabaseError | Some ms' \<Rightarrow> Inr ms') } } } })"

section \<open>Pushing\<close>

text \<open>One session's notification; \<^term>\<open>False\<close> when the presentation throws.\<close>

definition notify_client :: "jsoncpp \<Rightarrow> json \<Rightarrow> client \<Rightarrow> bool svc" where
  "notify_client J payload c = (case present_all (cl_voice c) (cl_file c) payload of
       None \<Rightarrow> give False
     | Some notification \<Rightarrow> send c (toStyledString J notification) ID_NOTIFY_TEXT_CHAT_MSG_REQ)"

definition Deliver :: "jsoncpp \<Rightarrow> int \<Rightarrow> int \<Rightarrow> int \<Rightarrow> ChatMessage list \<Rightarrow> json \<Rightarrow> bool svc" where
  "Deliver J from to thread messages payload = do {
     access \<leftarrow> (if messages \<noteq> [] \<and> cm_recv_id (hd messages) = from
       then sql_call (\<lambda>c. case GetGroup to thread JNull False c of ((e, g), c') \<Rightarrow> (e, c')) else give Success);
     if access \<noteq> Success then give True
     else routed to (do { targets \<leftarrow> reads (GetSessions to); each (notify_client J payload) targets })
       (\<lambda>destination. ChatGrpcClient_NotifyTextChatMsg destination from to thread messages) }"

section \<open>Reading\<close>

definition CreatePrivate :: "int \<Rightarrow> int \<Rightarrow> (ErrorCodes \<times> int) svc" where
  "CreatePrivate uid other = do {
     friendship \<leftarrow> sql_call (CheckFriendship uid other);
     if friendship \<noteq> Success then give (friendship, 0)
     else do {
       thread \<leftarrow> sql_call (CreatePrivateChat uid other);
       give (case thread of None \<Rightarrow> (CreateChatFailed, 0) | Some i \<Rightarrow> (Success, i)) } }"

definition Load :: "int \<Rightarrow> int \<Rightarrow> int \<Rightarrow> (ErrorCodes + PageResult) svc" where
  "Load uid thread cursor = do {
     access \<leftarrow> sql_call (CheckPrivateChatAccess uid thread);
     group_access \<leftarrow> (if access \<noteq> Success then sql_call (\<lambda>c. case GetGroup uid thread JNull False c of ((e, g), c') \<Rightarrow> (e, c')) else give Success);
     if group_access \<noteq> Success then give (Inl access)
     else do {
       page \<leftarrow> sql_call (LoadChatMsg thread cursor 10);
       give (case page of None \<Rightarrow> Inl LoadChatFailed | Some p \<Rightarrow> Inr p) } }"

definition ListThreads :: "int \<Rightarrow> int \<Rightarrow> int \<Rightarrow> (ChatThreadInfo list \<times> bool \<times> int) option svc" where
  "ListThreads uid cursor limit =
     (if uid \<le> 0 then give None
      else do { (ok, r) \<leftarrow> sql_call (GetUserThreads uid cursor limit); give (if ok then Some r else None) })"

end
