(* ===== verification/LoginSnapshot.thy ===== *)
theory LoginSnapshot
  imports Contract
begin

text \<open>
  \<^verbatim>\<open>LoginSnapshot::BuildFrames\<close>: the login reply as one frame when it fits, otherwise as
  numbered chunks that each carry part of the application and friend lists. The lambda
  \<^verbatim>\<open>append_frame\<close> and the variables it captures are a record passed from step to step;
  \<^term>\<open>None\<close> is the result \<^verbatim>\<open>false\<close>, on which the caller's vector is empty.
\<close>

definition MaxChunks :: nat where "MaxChunks = 256"
definition MaxBytes :: nat where "MaxBytes = 4 * 1024 * 1024"

record snapshot =
  frames :: "string list"
  current :: json
  total_bytes :: nat

definition append_item :: "string \<Rightarrow> json \<Rightarrow> json \<Rightarrow> json" where
  "append_item list item doc = set_member list (jappend (index doc list) item) doc"

definition append_frame :: "jsoncpp \<Rightarrow> json \<Rightarrow> bool \<Rightarrow> snapshot \<Rightarrow> snapshot option" where
  "append_frame J base is_more s =
     (let doc = set_member ''login_chunk_more'' (JBool is_more) (current s);
          body = toStyledString J doc
      in if length (frames s) \<ge> MaxChunks \<or> length body > MAX_LENGTH \<or>
            total_bytes s + length body > MaxBytes
         then None
         else Some \<lparr>frames = frames s @ [body],
                    current = set_member ''login_chunk'' (JInt (int (Suc (length (frames s))))) base,
                    total_bytes = total_bytes s + length body\<rparr>)"

fun add_items :: "jsoncpp \<Rightarrow> json \<Rightarrow> string \<Rightarrow> json list \<Rightarrow> snapshot \<Rightarrow> snapshot option" where
  "add_items J base list [] s = Some s"
| "add_items J base list (item # rest) s =
     (let candidate = append_item list item (current s) in
      if length (toStyledString J candidate) > MAX_LENGTH
      then (if jempty (index (current s) ''apply_list'') \<and> jempty (index (current s) ''friend_list'')
            then None
            else (case append_frame J base True s of None \<Rightarrow> None
              | Some s' \<Rightarrow>
                 (let candidate = append_item list item (current s') in
                  if length (toStyledString J candidate) > MAX_LENGTH then None
                  else add_items J base list rest (s'\<lparr>current := candidate\<rparr>))))
      else add_items J base list rest (s\<lparr>current := candidate\<rparr>))"

definition snapshot_base :: "json \<Rightarrow> json" where
  "snapshot_base response =
     set_members [(''apply_list'', JArr []), (''friend_list'', JArr []),
                  (''login_chunk_more'', JBool False), (''login_chunk'', JInt 0)] response"

definition BuildFrames :: "jsoncpp \<Rightarrow> json \<Rightarrow> bool \<Rightarrow> string list option" where
  "BuildFrames J response allow_chunks =
     (let single = toStyledString J response in
      if length single \<le> MAX_LENGTH then Some [single]
      else if \<not> allow_chunks \<or> length single > MaxBytes then None
      else let base = snapshot_base response in
        if length (toStyledString J base) > MAX_LENGTH then None
        else do {
          s1 \<leftarrow> add_items J base ''apply_list'' (elements (index response ''apply_list''))
                 \<lparr>frames = [], current = base, total_bytes = 0\<rparr>;
          s2 \<leftarrow> add_items J base ''friend_list'' (elements (index response ''friend_list'')) s1;
          s3 \<leftarrow> append_frame J base False s2;
          Some (frames s3)
        })"

section \<open>The chunks carry the whole snapshot\<close>

text \<open>The document a chunk was made from, beside the lists and the chunk's own two members.\<close>

definition same_envelope :: "json \<Rightarrow> json \<Rightarrow> bool" where
  "same_envelope response d \<longleftrightarrow> isObject d \<and>
     (\<forall>k. k \<notin> {''apply_list'', ''friend_list'', ''login_chunk'', ''login_chunk_more''} \<longrightarrow>
        index d k = index response k)"

definition applies :: "json \<Rightarrow> json list" where
  "applies d = elements (index d ''apply_list'')"

definition friends :: "json \<Rightarrow> json list" where
  "friends d = elements (index d ''friend_list'')"

definition lists_ok :: "json \<Rightarrow> json \<Rightarrow> bool" where
  "lists_ok response d \<longleftrightarrow> same_envelope response d \<and>
     isArray (index d ''apply_list'') \<and> isArray (index d ''friend_list'')"

definition numbered :: "json list \<Rightarrow> bool" where
  "numbered docs \<longleftrightarrow> (\<forall>i < length docs. index (docs ! i) ''login_chunk'' = JInt (int i) \<and>
     index (docs ! i) ''login_chunk_more'' = JBool True)"

definition snap_inv :: "jsoncpp \<Rightarrow> json \<Rightarrow> json list \<Rightarrow> json list \<Rightarrow> json list \<Rightarrow> snapshot \<Rightarrow> bool" where
  "snap_inv J response docs as fs s \<longleftrightarrow>
     frames s = map (toStyledString J) docs \<and> length docs \<le> MaxChunks \<and>
     total_bytes s = sum_list (map length (frames s)) \<and> total_bytes s \<le> MaxBytes \<and>
     (\<forall>f \<in> set (frames s). length f \<le> MAX_LENGTH) \<and>
     (\<forall>d \<in> set docs. same_envelope response d) \<and> lists_ok response (current s) \<and>
     numbered docs \<and> index (current s) ''login_chunk'' = JInt (int (length docs)) \<and>
     concat (map applies docs) @ applies (current s) = as \<and>
     concat (map friends docs) @ friends (current s) = fs"

lemma elements_jappend: "isArray v \<Longrightarrow> elements (jappend v x) = elements v @ [x]"
  by (cases v) simp_all

lemma isArray_jappend [simp]: "isArray (jappend v x)"
  by (cases v) simp_all

lemma snapshot_base_index:
  assumes "isObject response"
  shows "lists_ok response (snapshot_base response)"
    and "applies (snapshot_base response) = []"
    and "friends (snapshot_base response) = []"
    and "index (snapshot_base response) ''login_chunk'' = JInt 0"
  using assms by (simp_all add: lists_ok_def same_envelope_def snapshot_base_def applies_def friends_def)

lemma lists_ok_object: "lists_ok response d \<Longrightarrow> isObject d"
  by (simp add: lists_ok_def same_envelope_def)

lemma append_item_index:
  assumes "lists_ok response d"
  shows "lists_ok response (append_item ''apply_list'' x d)"
    and "lists_ok response (append_item ''friend_list'' x d)"
    and "applies (append_item ''apply_list'' x d) = applies d @ [x]"
    and "applies (append_item ''friend_list'' x d) = applies d"
    and "friends (append_item ''friend_list'' x d) = friends d @ [x]"
    and "friends (append_item ''apply_list'' x d) = friends d"
    and "index (append_item ''apply_list'' x d) ''login_chunk'' = index d ''login_chunk''"
    and "index (append_item ''friend_list'' x d) ''login_chunk'' = index d ''login_chunk''"
  using assms by (simp_all add: lists_ok_def same_envelope_def append_item_def applies_def
      friends_def elements_jappend)

lemma append_item_apply:
  "snap_inv J response docs as fs s \<Longrightarrow>
    snap_inv J response docs (as @ [x]) fs (s\<lparr>current := append_item ''apply_list'' x (current s)\<rparr>)"
  unfolding snap_inv_def by (elim conjE) (simp add: append_item_index flip: append_assoc)

lemma append_item_friend:
  "snap_inv J response docs as fs s \<Longrightarrow>
    snap_inv J response docs as (fs @ [x]) (s\<lparr>current := append_item ''friend_list'' x (current s)\<rparr>)"
  unfolding snap_inv_def by (elim conjE) (simp add: append_item_index flip: append_assoc)

text \<open>The document that becomes the next frame.\<close>

definition closed_doc :: "bool \<Rightarrow> snapshot \<Rightarrow> json" where
  "closed_doc b s = set_member ''login_chunk_more'' (JBool b) (current s)"

lemma closed_doc_index:
  assumes "lists_ok response (current s)"
  shows "same_envelope response (closed_doc b s)" "applies (closed_doc b s) = applies (current s)"
    "friends (closed_doc b s) = friends (current s)"
    "index (closed_doc b s) ''login_chunk'' = index (current s) ''login_chunk''"
    "index (closed_doc b s) ''login_chunk_more'' = JBool b"
  using assms by (simp_all add: closed_doc_def lists_ok_def same_envelope_def applies_def friends_def)

lemma next_chunk_index:
  assumes "lists_ok response base" "applies base = []" "friends base = []"
  shows "lists_ok response (set_member ''login_chunk'' (JInt n) base)"
    "applies (set_member ''login_chunk'' (JInt n) base) = []"
    "friends (set_member ''login_chunk'' (JInt n) base) = []"
    "index (set_member ''login_chunk'' (JInt n) base) ''login_chunk'' = JInt n"
  using assms by (simp_all add: lists_ok_def same_envelope_def applies_def friends_def)

lemma append_frameD:
  assumes "append_frame J base b s = Some s'"
  shows "frames s' = frames s @ [toStyledString J (closed_doc b s)]"
    "length (frames s) < MaxChunks" "length (toStyledString J (closed_doc b s)) \<le> MAX_LENGTH"
    "total_bytes s' = total_bytes s + length (toStyledString J (closed_doc b s))"
    "total_bytes s' \<le> MaxBytes"
    "current s' = set_member ''login_chunk'' (JInt (int (Suc (length (frames s))))) base"
  using assms by (auto simp: append_frame_def closed_doc_def [symmetric] Let_def split: if_splits)

lemma numbered_snoc:
  "numbered docs \<Longrightarrow> index d ''login_chunk'' = JInt (int (length docs)) \<Longrightarrow>
    index d ''login_chunk_more'' = JBool True \<Longrightarrow> numbered (docs @ [d])"
  by (simp add: numbered_def nth_append less_Suc_eq)

lemma append_frame_inv:
  assumes inv: "snap_inv J response docs as fs s" and obj: "isObject response"
    and step: "append_frame J (snapshot_base response) True s = Some s'"
  shows "\<exists>docs'. snap_inv J response docs' as fs s'"
proof -
  note b = snapshot_base_index [OF obj]
  note n = next_chunk_index [OF b(1,2,3)]
  note d = append_frameD [OF step]
  have c: "lists_ok response (current s)" and fr: "frames s = map (toStyledString J) docs"
    and num: "numbered docs" "index (current s) ''login_chunk'' = JInt (int (length docs))"
    using inv by (simp_all add: snap_inv_def)
  have "numbered (docs @ [closed_doc True s])"
    using num by (intro numbered_snoc) (simp_all add: closed_doc_index [OF c])
  then have "snap_inv J response (docs @ [closed_doc True s]) as fs s'"
    using inv n d fr unfolding snap_inv_def by (elim conjE) (simp add: closed_doc_index [OF c])
  then show ?thesis by blast
qed

lemma add_items_inv:
  assumes "add_items J (snapshot_base response) l items s = Some s'" "isObject response"
    and "snap_inv J response docs as fs s"
    and "\<And>docs as fs s x. snap_inv J response docs as fs s \<Longrightarrow>
           snap_inv J response docs (A as x) (F fs x) (s\<lparr>current := append_item l x (current s)\<rparr>)"
  shows "\<exists>docs'. snap_inv J response docs' (foldl A as items) (foldl F fs items) s'"
  using assms(1,3)
proof (induction items arbitrary: s docs as fs)
  case (Cons x items)
  show ?case
  proof (cases "length (toStyledString J (append_item l x (current s))) > MAX_LENGTH")
    case False
    with Cons.prems have
      "add_items J (snapshot_base response) l items (s\<lparr>current := append_item l x (current s)\<rparr>) = Some s'"
      by (simp add: Let_def)
    from Cons.IH [OF this assms(4) [OF Cons.prems(2)]] show ?thesis by simp
  next
    case True
    with Cons.prems(1) obtain s1 where s1: "append_frame J (snapshot_base response) True s = Some s1"
      and rest: "add_items J (snapshot_base response) l items
                   (s1\<lparr>current := append_item l x (current s1)\<rparr>) = Some s'"
      by (auto simp: Let_def split: if_splits option.splits)
    obtain docs1 where "snap_inv J response docs1 as fs s1"
      using append_frame_inv [OF Cons.prems(2) assms(2) s1] by blast
    from Cons.IH [OF rest assms(4) [OF this]] show ?thesis by simp
  qed
qed auto

lemma foldl_snoc: "foldl (\<lambda>as x. as @ [x]) as items = as @ items"
  by (induction items arbitrary: as) auto

lemma foldl_keep: "foldl (\<lambda>as x. as) as items = as"
  by (induction items) auto

lemma chunked_snapshot:
  assumes obj: "isObject response"
    and s1: "add_items J (snapshot_base response) ''apply_list'' (elements (index response ''apply_list''))
               \<lparr>frames = [], current = snapshot_base response, total_bytes = 0\<rparr> = Some s1"
    and s2: "add_items J (snapshot_base response) ''friend_list'' (elements (index response ''friend_list'')) s1 = Some s2"
    and s3: "append_frame J (snapshot_base response) False s2 = Some s3"
  shows "\<exists>docs. frames s3 = map (toStyledString J) docs \<and> docs \<noteq> [] \<and> length docs \<le> MaxChunks \<and>
     sum_list (map length (frames s3)) \<le> MaxBytes \<and> (\<forall>f \<in> set (frames s3). length f \<le> MAX_LENGTH) \<and>
     (\<forall>d \<in> set docs. same_envelope response d) \<and>
     concat (map (\<lambda>d. elements (index d ''apply_list'')) docs) = elements (index response ''apply_list'') \<and>
     concat (map (\<lambda>d. elements (index d ''friend_list'')) docs) = elements (index response ''friend_list'') \<and>
     (\<forall>i < length docs. index (docs ! i) ''login_chunk'' = JInt (int i) \<and>
        index (docs ! i) ''login_chunk_more'' = JBool (Suc i < length docs))"
proof -
  have "snap_inv J response [] [] [] \<lparr>frames = [], current = snapshot_base response, total_bytes = 0\<rparr>"
    using snapshot_base_index [OF obj] by (simp add: snap_inv_def numbered_def)
  from add_items_inv [where A = "\<lambda>as x. as @ [x]" and F = "\<lambda>fs x. fs", OF s1 obj this append_item_apply]
  obtain d1 where i1: "snap_inv J response d1 (applies response) [] s1"
    by (auto simp: foldl_snoc foldl_keep applies_def)
  from add_items_inv [where A = "\<lambda>as x. as" and F = "\<lambda>fs x. fs @ [x]", OF s2 obj i1 append_item_friend]
  obtain d2 where i2: "snap_inv J response d2 (applies response) (friends response) s2"
    by (auto simp: foldl_snoc foldl_keep friends_def)
  then have c: "lists_ok response (current s2)" and num: "numbered d2"
    "index (current s2) ''login_chunk'' = JInt (int (length d2))"
    by (simp_all add: snap_inv_def)
  note d = append_frameD [OF s3] and cd = closed_doc_index [OF c]
  have "\<forall>i < length (d2 @ [closed_doc False s2]).
      index ((d2 @ [closed_doc False s2]) ! i) ''login_chunk'' = JInt (int i) \<and>
      index ((d2 @ [closed_doc False s2]) ! i) ''login_chunk_more'' =
        JBool (Suc i < length (d2 @ [closed_doc False s2]))"
    using num by (auto simp: nth_append less_Suc_eq cd numbered_def)
  then show ?thesis
    by (intro exI [of _ "d2 @ [closed_doc False s2]"])
      (use i2 d cd in \<open>simp add: snap_inv_def flip: applies_def friends_def\<close>)
qed

text \<open>C21: When \<^verbatim>\<open>BuildFrames\<close> succeeds, the frames are the serialisations of documents
  that together carry exactly the login reply: every frame fits the wire limit, there are at most
  256 of them and 4 MiB in all, their application lists (and their friend lists) concatenate to the
  reply's in order, every other member is the reply's own, and either the reply is sent whole or
  the chunks are numbered from 0 with \<^verbatim>\<open>login_chunk_more\<close> false on the last one only.\<close>

theorem login_frames_lossless:
  assumes "isObject response" "BuildFrames J response allow = Some fs"
  shows "\<exists>docs. fs = map (toStyledString J) docs \<and> docs \<noteq> [] \<and> length docs \<le> MaxChunks \<and>
     sum_list (map length fs) \<le> MaxBytes \<and> (\<forall>f \<in> set fs. length f \<le> MAX_LENGTH) \<and>
     (\<forall>d \<in> set docs. \<forall>k. k \<notin> {''apply_list'', ''friend_list'', ''login_chunk'', ''login_chunk_more''} \<longrightarrow>
        index d k = index response k) \<and>
     concat (map (\<lambda>d. elements (index d ''apply_list'')) docs) = elements (index response ''apply_list'') \<and>
     concat (map (\<lambda>d. elements (index d ''friend_list'')) docs) = elements (index response ''friend_list'') \<and>
     (docs = [response] \<or>
        (allow \<and> (\<forall>i < length docs. index (docs ! i) ''login_chunk'' = JInt (int i) \<and>
           index (docs ! i) ''login_chunk_more'' = JBool (Suc i < length docs))))"
proof (cases "length (toStyledString J response) \<le> MAX_LENGTH")
  case True
  with assms(2) have "fs = [toStyledString J response]" by (simp add: BuildFrames_def)
  with True show ?thesis
    by (intro exI [of _ "[response]"]) (simp add: MaxChunks_def MaxBytes_def MAX_LENGTH_def)
next
  case False
  with assms(2) obtain s1 s2 s3 where
    s: "add_items J (snapshot_base response) ''apply_list'' (elements (index response ''apply_list''))
          \<lparr>frames = [], current = snapshot_base response, total_bytes = 0\<rparr> = Some s1"
      "add_items J (snapshot_base response) ''friend_list'' (elements (index response ''friend_list'')) s1 = Some s2"
      "append_frame J (snapshot_base response) False s2 = Some s3" "fs = frames s3" "allow"
    unfolding BuildFrames_def by (auto simp: Let_def bind_eq_Some_conv split: if_splits)
  show ?thesis
    using chunked_snapshot [OF assms(1) s(1-3)] s(4,5) unfolding same_envelope_def by blast
qed

text \<open>A reply of three items under a serialiser that spends 9000 bytes on each: three frames.\<close>

definition wide_json :: jsoncpp where
  "wide_json = \<lparr>parse = (\<lambda>s. (False, JNull)),
     toStyledString = (\<lambda>d. replicate (9000 * (length (elements (index d ''apply_list'')) +
        length (elements (index d ''friend_list'')))) (CHR ''x'')),
     writeString = (\<lambda>d. []), realToString = (\<lambda>r. [])\<rparr>"

definition wide_reply :: json where
  "wide_reply = JObj [(''uid'', JInt 7), (''apply_list'', JArr [JInt 1, JInt 2]), (''friend_list'', JArr [JInt 3])]"

definition wide_frame :: string where
  "wide_frame = replicate 9000 (CHR ''x'')"

lemma wide_frames:
  "BuildFrames wide_json wide_reply True = Some ([wide_frame, wide_frame, wide_frame])"
  by (simp add: BuildFrames_def wide_json_def wide_reply_def MAX_LENGTH_def MaxBytes_def
      snapshot_base_def index_def get_default_def append_item_def append_frame_def MaxChunks_def
      wide_frame_def numeral_3_eq_3 Let_def)

theorem login_frames_lossless_witness:
  "\<exists>docs. [wide_frame, wide_frame, wide_frame] = map (toStyledString wide_json) docs \<and>
     concat (map (\<lambda>d. elements (index d ''apply_list'')) docs) = [JInt 1, JInt 2] \<and>
     concat (map (\<lambda>d. elements (index d ''friend_list'')) docs) = [JInt 3] \<and>
     (\<forall>d \<in> set docs. index d ''uid'' = JInt 7)"
proof -
  have "isObject wide_reply" "elements (index wide_reply ''apply_list'') = [JInt 1, JInt 2]"
    "elements (index wide_reply ''friend_list'') = [JInt 3]" "index wide_reply ''uid'' = JInt 7"
    by (simp_all add: wide_reply_def index_def get_default_def)
  with login_frames_lossless [OF this(1) wide_frames] show ?thesis
    by (elim exE conjE) (rule exI, intro conjI, assumption, simp_all)
qed

end
