(* ===== verification/FriendService.thy ===== *)
theory FriendService
  imports UserService MessageService LoginSnapshot
begin

text \<open>
  The contact service (\<^verbatim>\<open>FriendService.cpp\<close>): applying, accepting, deleting and labelling, with the
  notifications they send, and the two loops that read all contacts and all applications page by page for the login
  reply. The loops are functions whose termination is proved from what a page query returns.
\<close>

section \<open>Applying and accepting\<close>

definition application_notice :: "jsoncpp \<Rightarrow> UserInfo option \<Rightarrow> int \<Rightarrow> string \<Rightarrow> json" where
  "application_notice J applicant uid description = set_members
     [(''error'', JInt (error_value Success)), (''applyuid'', JInt uid), (''desc'', JStr description)]
     (case applicant of None \<Rightarrow> JNull | Some u \<Rightarrow> WriteProfile J u JNull)"

definition Apply :: "jsoncpp \<Rightarrow> int \<Rightarrow> int \<Rightarrow> string \<Rightarrow> string \<Rightarrow> json \<Rightarrow> ErrorCodes svc" where
  "Apply J uid other description remark input =
     (if bad_pair uid other then give UidInvalid
      else case NormalizeContactTags input of (valid, tags) \<Rightarrow>
        if \<not> valid then give Error_Json
        else do {
          (ok, notify_application) \<leftarrow> sql_call (AddFriendApply uid other description remark (SerializeContactTags J tags));
          if \<not> ok then give DatabaseError
          else if \<not> notify_application then give Success
          else do {
            applicant \<leftarrow> GetById J uid;
            routed other
              (do { targets \<leftarrow> reads (GetSessions other);
                    each (\<lambda>target. send target (toStyledString J (application_notice J applicant uid description)) ID_NOTIFY_ADD_FRIEND_REQ) targets })
              (\<lambda>destination. ChatGrpcClient_NotifyAddFriend destination uid other (case applicant of None \<Rightarrow> [] | Some u \<Rightarrow> ui_name u) description);
            give Success } })"

definition Accept :: "jsoncpp \<Rightarrow> int \<Rightarrow> int \<Rightarrow> string \<Rightarrow> json \<Rightarrow> (bool \<times> ChatMessage list) svc" where
  "Accept J uid other remark input =
     (if bad_pair uid other then give (False, [])
      else case NormalizeContactTags input of (valid, tags) \<Rightarrow>
        if \<not> valid then give (False, [])
        else sql_call (AddFriend uid other remark (SerializeContactTags J tags)))"

definition NotifyAccepted :: "jsoncpp \<Rightarrow> int \<Rightarrow> int \<Rightarrow> json \<Rightarrow> bool svc" where
  "NotifyAccepted J from to notification =
     (if bad_pair from to then give True
      else do {
        targets \<leftarrow> reads (GetSessions to);
        friendship \<leftarrow> (if targets = [] then give Success else sql_call (CheckFriendship to from));
        if targets = [] \<or> friendship \<noteq> Success then give True
        else do {
          user \<leftarrow> GetById J from;
          (code, back, tags) \<leftarrow> sql_call (GetFriendMetadata to from ([], []));
          let v1 = set_member ''error'' (JInt (error_value Success)) notification;
              v2 = (case user of Some u \<Rightarrow> WriteProfile J u v1 | None \<Rightarrow> set_member ''error'' (JInt (error_value UidInvalid)) v1);
              v3 = (if code = Success then set_members [(''back'', JStr back), (''tags'', ParseContactTags J tags)] v2
                    else removeMember ''tags'' (removeMember ''back'' v2));
              v4 = set_members [(''fromuid'', JInt from), (''touid'', JInt to)] v3 in
          each (\<lambda>target. send target (toStyledString J v4) ID_NOTIFY_AUTH_FRIEND_REQ) targets } })"

definition NotifyAcceptance :: "jsoncpp \<Rightarrow> int \<Rightarrow> int \<Rightarrow> json \<Rightarrow> bool svc" where
  "NotifyAcceptance J from to payload = routed to (NotifyAccepted J from to payload) (\<lambda>destination. ChatGrpcClient_NotifyAuthFriend destination from to)"

section \<open>Deleting and labelling\<close>

definition NotifyDeleted :: "jsoncpp \<Rightarrow> int \<Rightarrow> int \<Rightarrow> bool svc" where
  "NotifyDeleted J uid other = do {
     targets \<leftarrow> reads (GetSessions uid);
     friendship \<leftarrow> (if targets = [] then give FriendNotFound else sql_call (CheckFriendship uid other));
     if targets = [] \<or> friendship \<noteq> FriendNotFound then give True
     else each (\<lambda>target. send target (toStyledString J (set_members
       [(''error'', JInt (error_value Success)), (''uid'', JInt uid), (''friend_uid'', JInt other)] JNull)) ID_NOTIFY_DELETE_FRIEND) targets }"

definition Delete :: "jsoncpp \<Rightarrow> int \<Rightarrow> int \<Rightarrow> ErrorCodes svc" where
  "Delete J uid other =
     (if bad_pair uid other then give UidInvalid
      else do {
        deleted \<leftarrow> sql_call (DeleteFriend uid other);
        if \<not> deleted then give DatabaseError
        else do { routed other (NotifyDeleted J other uid) (\<lambda>destination. ChatGrpcClient_NotifyDeleteFriend destination uid other); give Success } })"

text \<open>The result and the normalised tags.\<close>

definition SetTags :: "jsoncpp \<Rightarrow> int \<Rightarrow> int \<Rightarrow> json \<Rightarrow> json \<Rightarrow> json \<Rightarrow> (ErrorCodes \<times> json) svc" where
  "SetTags J uid other input tags remark =
     (if bad_pair uid other then give (UidInvalid, tags)
      else case NormalizeContactTags input of (valid, normalized) \<Rightarrow>
        if \<not> valid \<or> (\<not> isNull remark \<and> \<not> ValidContactRemark remark) then give (Error_Json, normalized)
        else do {
          code \<leftarrow> sql_call (SetContactTags uid other (SerializeContactTags J normalized) (if isNull remark then None else Some (str_of remark)));
          give (code, normalized) })"

definition Ids :: "int \<Rightarrow> (bool \<times> int list) svc" where
  "Ids uid = (if uid \<le> 0 then give (False, []) else sql_call (GetFriendIds uid))"

section \<open>Reading all contacts\<close>

definition WriteApplication :: "ApplyInfo \<Rightarrow> json \<Rightarrow> json" where
  "WriteApplication a = set_members
     [(''uid'', JInt (ai_uid a)), (''name'', JStr (ai_name a)), (''desc'', JStr (ai_desc a)), (''icon'', JStr (ai_icon a)),
      (''nick'', JStr (ai_nick a)), (''sex'', JInt (ai_sex a)), (''status'', JInt (ai_status a))]"

text \<open>
  What one turn of the loop makes of a page: the result (an error or \<^const>\<open>Success\<close>, and the vector) with which
  the loop ends, or the next cursor, the bytes counted so far and the vector.
\<close>

definition page_step :: "('r \<Rightarrow> int) \<Rightarrow> ('r \<Rightarrow> nat) \<Rightarrow> bool \<times> 'r list \<Rightarrow> int \<Rightarrow> nat \<Rightarrow> 'r list \<Rightarrow>
    (ErrorCodes \<times> 'r list) + (int \<times> nat \<times> 'r list)" where
  "page_step key bytes_of result cursor bytes found = (case result of (ok, page) \<Rightarrow>
     let counted = bytes + sum_list (map bytes_of page) in
     if \<not> ok then Inl (DatabaseError, [])
     else if MaxBytes < counted then Inl (InternalError, [])
     else if page = [] then Inl (Success, found)
     else if key (last page) \<le> cursor then Inl (DatabaseError, [])
     else if length page < 100 then Inl (Success, found @ page)
     else Inr (key (last page), counted, found @ page))"

function list_loop :: "jsoncpp \<Rightarrow> int \<Rightarrow> int \<Rightarrow> nat \<Rightarrow> UserInfo list \<Rightarrow> mysql \<Rightarrow> (ErrorCodes \<times> UserInfo list) \<times> mysql" where
  "list_loop J uid cursor bytes found c = (case GetFriendPage uid cursor 100 c of (r, c') \<Rightarrow>
     case page_step ui_uid (\<lambda>u. length (toStyledString J (WriteProfile J u JNull))) r cursor bytes found of
       Inl x \<Rightarrow> (x, c')
     | Inr (cursor', bytes', found') \<Rightarrow> list_loop J uid cursor' bytes' found' c')"
  by pat_completeness auto

function applications_loop :: "jsoncpp \<Rightarrow> int \<Rightarrow> int \<Rightarrow> nat \<Rightarrow> ApplyInfo list \<Rightarrow> mysql \<Rightarrow> (ErrorCodes \<times> ApplyInfo list) \<times> mysql" where
  "applications_loop J uid cursor bytes found c = (case GetApplyList uid [] cursor 100 c of (r, c') \<Rightarrow>
     case page_step ai_id (\<lambda>a. length (toStyledString J (WriteApplication a JNull))) r cursor bytes found of
       Inl x \<Rightarrow> (x, c')
     | Inr (cursor', bytes', found') \<Rightarrow> applications_loop J uid cursor' bytes' found' c')"
  by pat_completeness auto

text \<open>Every turn that goes on leaves fewer rows after the cursor.\<close>

lemma page_step_Inr:
  assumes "page_step key bytes_of (ok, page) cursor bytes found = Inr (cursor', bytes', found')"
  shows "ok \<and> page \<noteq> [] \<and> cursor' = key (last page) \<and> cursor < cursor' \<and> bytes' = bytes + sum_list (map bytes_of page) \<and>
    found' = found @ page \<and> length page \<ge> 100 \<and> bytes' \<le> MaxBytes"
  using assms by (auto simp: page_step_def Let_def split: if_splits)

lemma fewer_after:
  assumes "x \<in> set xs" "P x" "j < f x" "(k :: int) = f x"
  shows "length (filter (\<lambda>x. P x \<and> k < f x) xs) < length (filter (\<lambda>x. P x \<and> j < f x) xs)"
proof -
  have "filter (\<lambda>x. P x \<and> k < f x) xs = filter (\<lambda>x. k < f x) (filter (\<lambda>x. P x \<and> j < f x) xs)"
    using assms(3,4) by (auto intro: filter_cong)
  moreover have "x \<in> set (filter (\<lambda>x. P x \<and> j < f x) xs)" using assms by simp
  ultimately show ?thesis using length_filter_less [of x "filter (\<lambda>x. P x \<and> j < f x) xs" "\<lambda>x. k < f x"] assms(4) by simp
qed

lemma GetFriendPage_cases:
  assumes "GetFriendPage uid cursor n c = ((ok, page), c')"
  shows "db c' = db c \<and> saved c' = saved c" "ok \<Longrightarrow> page = map friend_info (take (nat n) (friend_rows (tbl c) uid cursor))" "\<not> ok \<Longrightarrow> page = []"
  using assms unfolding GetFriendPage_def
  by (auto simp: with_connection_def sql_catch_def sql_bind_def sql_return_def select_def statement_def next_fault_def
      split: if_splits prod.splits sum.splits fault.splits list.splits)

lemma GetApplyList_cases:
  assumes "GetApplyList uid [] cursor n c = ((ok, page), c')"
  shows "db c' = db c \<and> saved c' = saved c" "ok \<Longrightarrow> page = map apply_info (take (nat n) (apply_rows (tbl c) uid cursor))" "\<not> ok \<Longrightarrow> page = []"
  using assms unfolding GetApplyList_def
  by (auto simp: with_connection_def sql_catch_def sql_bind_def sql_return_def select_def statement_def next_fault_def
      split: if_splits prod.splits sum.splits fault.splits list.splits)

lemma page_last:
  assumes "page = map info (take n xs)" "page \<noteq> []"
  shows "\<exists>x\<in>set xs. last page = info x"
proof -
  have "last (take n xs) \<in> set xs" using assms by (metis in_set_takeD last_in_set list.simps(8))
  then show ?thesis using assms by (auto simp: last_map)
qed

lemma friend_rows_fewer:
  assumes "x \<in> set (friend_rows t uid cursor)" "cursor' = ui_uid (friend_info x)"
  shows "length (friend_rows t uid cursor') < length (friend_rows t uid cursor)"
proof -
  have "length (friend_rows t uid k) = length (filter (\<lambda>x. (u_id (snd x) = fr_friend (fst x) \<and> fr_self (fst x) = uid) \<and> k < fr_friend (fst x))
      (List.product (friends_t t) (users_t t)))" for k
    by (auto simp: friend_rows_def intro!: arg_cong [where f = length] filter_cong)
  then show ?thesis
    using assms fewer_after [of x _ "\<lambda>x. u_id (snd x) = fr_friend (fst x) \<and> fr_self (fst x) = uid" cursor "\<lambda>x. fr_friend (fst x)"]
    by (auto simp: friend_rows_def friend_info_def ReadUserInfo_def split_beta)
qed

lemma apply_rows_fewer:
  assumes "x \<in> set (apply_rows t uid cursor)" "cursor' = ai_id (apply_info x)"
  shows "length (apply_rows t uid cursor') < length (apply_rows t uid cursor)"
proof -
  have "length (apply_rows t uid k) = length (filter (\<lambda>x. (u_id (snd x) = ap_from (fst x) \<and> ap_to (fst x) = uid) \<and> k < ap_id (fst x))
      (List.product (applies_t t) (users_t t)))" for k
    by (auto simp: apply_rows_def intro!: arg_cong [where f = length] filter_cong)
  then show ?thesis
    using assms fewer_after [of x _ "\<lambda>x. u_id (snd x) = ap_from (fst x) \<and> ap_to (fst x) = uid" cursor "\<lambda>x. ap_id (fst x)"]
    by (auto simp: apply_rows_def apply_info_def split_beta)
qed

termination list_loop
proof (relation "measure (\<lambda>(J, uid, cursor, bytes, found, c). length (friend_rows (tbl c) uid cursor))", simp, goal_cases)
  case (1 J uid cursor bytes found c r c' x cursor' y bytes' found')
  obtain ok page where r: "r = (ok, page)" by force
  have q: "GetFriendPage uid cursor 100 c = ((ok, page), c')" using 1(1) r by simp
  have "page_step ui_uid (\<lambda>u. length (toStyledString J (WriteProfile J u JNull))) (ok, page) cursor bytes found = Inr (cursor', bytes', found')"
    using 1(2-) r by simp
  note st = page_step_Inr [OF this]
  obtain x where "x \<in> set (friend_rows (tbl c) uid cursor)" "last page = friend_info x"
    using page_last [OF GetFriendPage_cases(2) [OF q]] st by blast
  then show ?case using friend_rows_fewer [of x "tbl c" uid cursor cursor'] st GetFriendPage_cases(1) [OF q] by simp
qed

termination applications_loop
proof (relation "measure (\<lambda>(J, uid, cursor, bytes, found, c). length (apply_rows (tbl c) uid cursor))", simp, goal_cases)
  case (1 J uid cursor bytes found c r c' x cursor' y bytes' found')
  obtain ok page where r: "r = (ok, page)" by force
  have q: "GetApplyList uid [] cursor 100 c = ((ok, page), c')" using 1(1) r by simp
  have "page_step ai_id (\<lambda>a. length (toStyledString J (WriteApplication a JNull))) (ok, page) cursor bytes found = Inr (cursor', bytes', found')"
    using 1(2-) r by simp
  note st = page_step_Inr [OF this]
  obtain x where "x \<in> set (apply_rows (tbl c) uid cursor)" "last page = apply_info x"
    using page_last [OF GetApplyList_cases(2) [OF q]] st by blast
  then show ?case using apply_rows_fewer [of x "tbl c" uid cursor cursor'] st GetApplyList_cases(1) [OF q] by simp
qed

text \<open>The result: \<^const>\<open>Success\<close> stands for \<^verbatim>\<open>true\<close>, anything else is the error of \<^verbatim>\<open>false\<close>.\<close>

definition FriendList :: "jsoncpp \<Rightarrow> int \<Rightarrow> (ErrorCodes \<times> UserInfo list) svc" where
  "FriendList J uid = (if uid \<le> 0 then give (DatabaseError, []) else sql_call (list_loop J uid 0 0 []))"

definition Applications :: "jsoncpp \<Rightarrow> int \<Rightarrow> (ErrorCodes \<times> ApplyInfo list) svc" where
  "Applications J uid = (if uid \<le> 0 then give (DatabaseError, []) else sql_call (applications_loop J uid 0 0 []))"

section \<open>The loops read everything\<close>

context cursor_pages
begin

lemma rest_of_full_page:
  assumes "valid s" "0 < n" "n \<le> length (after s k)"
  shows "after s (key (last (take n (after s k)))) = drop n (after s k)"
proof (cases "n < length (after s k)")
  case True
  then show ?thesis using rest_of_page assms by blast
next
  case False
  let ?xs = "after s k"
  have ne: "?xs \<noteq> []" and all: "take n ?xs = ?xs" "drop n ?xs = []" using False assms by auto
  have k: "k \<le> key (last ?xs)" using beyond [OF assms(1), of "last ?xs" k] ne by simp
  have "\<not> key (last ?xs) < key r" if r: "r \<in> set ?xs" for r
  proof -
    obtain i where i: "i < length ?xs" "r = ?xs ! i" using r by (auto simp: in_set_conv_nth)
    show ?thesis
    proof (cases "i = length ?xs - 1")
      case False
      then have "i < length ?xs - 1" "length ?xs - 1 < length ?xs" using i by auto
      then show ?thesis
        using sorted_wrt_nth_less [OF ordered [OF assms(1)], of i "length ?xs - 1" k] i ne by (simp add: last_conv_nth)
    qed (use i ne in \<open>simp add: last_conv_nth\<close>)
  qed
  then show ?thesis using resumed [OF assms(1) k] by (simp add: all filter_empty_conv)
qed

lemma page_step_walk:
  fixes k :: int
  assumes "valid s" "\<And>x. x \<in> set (after s k) \<Longrightarrow> key' (info x) = key x"
  defines "xs \<equiv> after s k"
  shows "page_step key' sz (True, map info (take 100 xs)) k bytes found =
    (if MaxBytes < bytes + sum_list (map (\<lambda>x. sz (info x)) (take 100 xs)) then Inl (InternalError, [])
     else if length xs < 100 then Inl (Success, found @ map info xs)
     else Inr (key (last (take 100 xs)), bytes + sum_list (map (\<lambda>x. sz (info x)) (take 100 xs)), found @ map info (take 100 xs)))"
proof -
  have "k < key (last (take 100 xs)) \<and> key' (info (last (take 100 xs))) = key (last (take 100 xs))" if "xs \<noteq> []"
  proof -
    have "last (take 100 xs) \<in> set xs" using that by (metis in_set_takeD last_in_set take_eq_Nil zero_neq_numeral)
    then show ?thesis using beyond [OF assms(1)] assms(2) by (simp add: xs_def)
  qed
  then show ?thesis by (auto simp: page_step_def Let_def last_map comp_def)
qed

end

lemma distinct_joined:
  assumes "distinct xs" "distinct ys" "inj_on f {(x, y) \<in> set xs \<times> set ys. P (x, y)}"
  shows "distinct (map f (filter P (List.product xs ys)))"
  using assms by (auto simp: distinct_map distinct_product inj_on_def)

definition keyed_contacts :: "tables \<times> int \<Rightarrow> bool" where
  "keyed_contacts s \<longleftrightarrow> distinct (map u_id (users_t (fst s))) \<and> distinct (map (\<lambda>r. (fr_self r, fr_friend r)) (friends_t (fst s)))"

definition keyed_applications :: "tables \<times> int \<Rightarrow> bool" where
  "keyed_applications s \<longleftrightarrow> distinct (map u_id (users_t (fst s))) \<and> distinct (map ap_id (applies_t (fst s)))"

interpretation contacts: cursor_pages keyed_contacts "\<lambda>s. friend_rows (fst s) (snd s)" "\<lambda>x. fr_friend (fst x)"
proof (unfold_locales, goal_cases)
  case (1 s k)
  have e: "(\<lambda>(f, u). fr_friend f) = (\<lambda>x. fr_friend (fst x))" by auto
  show ?case unfolding friend_rows_def e using 1
    by (intro sort_key_strict distinct_joined) (auto simp: keyed_contacts_def distinct_map inj_on_def)
next
  case (2 s r k)
  then show ?case by (auto simp: friend_rows_def)
next
  case (3 s k l)
  then show ?case unfolding friend_rows_def filter_sort filter_filter
    by (intro arg_cong [where f = "sort_key _"] filter_cong) auto
qed

interpretation applications: cursor_pages keyed_applications "\<lambda>s. apply_rows (fst s) (snd s)" "\<lambda>x. ap_id (fst x)"
proof (unfold_locales, goal_cases)
  case (1 s k)
  have e: "(\<lambda>(f, u). ap_id f) = (\<lambda>x. ap_id (fst x))" by auto
  have d: "distinct (map ap_id (applies_t (fst s)))" "distinct (map u_id (users_t (fst s)))" using 1 by (simp_all add: keyed_applications_def)
  have "x = y" if "x \<in> set (applies_t (fst s))" "y \<in> set (applies_t (fst s))" "ap_id x = ap_id y" for x y
    using d(1) that by (auto simp: distinct_map inj_on_def)
  moreover have "x = y" if "x \<in> set (users_t (fst s))" "y \<in> set (users_t (fst s))" "u_id x = u_id y" for x y
    using d(2) that by (auto simp: distinct_map inj_on_def)
  ultimately have "inj_on (\<lambda>x. ap_id (fst x)) {(a, u) \<in> set (applies_t (fst s)) \<times> set (users_t (fst s)).
      case (a, u) of (a, u) \<Rightarrow> u_id u = ap_from a \<and> ap_to a = snd s \<and> k < ap_id a}"
    by (intro inj_onI) (clarsimp, metis)
  then show ?case unfolding apply_rows_def e using d by (intro sort_key_strict distinct_joined) (auto simp: distinct_map)
next
  case (2 s r k)
  then show ?case by (auto simp: apply_rows_def)
next
  case (3 s k l)
  then show ?case unfolding apply_rows_def filter_sort filter_filter
    by (intro arg_cong [where f = "sort_key _"] filter_cong) auto
qed

text \<open>What a loop of this kind returns, over the rows \<open>xs\<close> that are left.\<close>

definition read_all :: "('x \<Rightarrow> 'r) \<Rightarrow> ('r \<Rightarrow> nat) \<Rightarrow> nat \<Rightarrow> 'r list \<Rightarrow> 'x list \<Rightarrow> mysql \<Rightarrow> (ErrorCodes \<times> 'r list) \<times> mysql \<Rightarrow> bool" where
  "read_all info sz bytes found xs c result \<longleftrightarrow> db (snd result) = db c \<and> saved (snd result) = saved c \<and>
     (let total = bytes + sum_list (map (\<lambda>x. sz (info x)) xs) in
      fst result = (Success, found @ map info xs) \<and> total \<le> MaxBytes \<or>
      fst result = (InternalError, []) \<and> MaxBytes < total \<or>
      fst result = (DatabaseError, []) \<and> faults c \<noteq> [])"

lemma page_query:
  assumes "page_step key sz (True, map info (take 100 xs)) k bytes found =
      (if MaxBytes < bytes + sum_list (map (\<lambda>x. sz (info x)) (take 100 xs)) then Inl (InternalError, [])
       else if length xs < 100 then Inl (Success, found @ map info xs)
       else Inr (k', bytes + sum_list (map (\<lambda>x. sz (info x)) (take 100 xs)), found @ map info (take 100 xs)))"
    "faults c = [] \<Longrightarrow> ok \<and> c' = c" "db c' = db c \<and> saved c' = saved c" "ok \<Longrightarrow> page = map info (take 100 xs)"
    "ok \<Longrightarrow> 100 \<le> length xs \<Longrightarrow> \<not> MaxBytes < bytes + sum_list (map (\<lambda>x. sz (info x)) (take 100 xs)) \<Longrightarrow>
      read_all info sz (bytes + sum_list (map (\<lambda>x. sz (info x)) (take 100 xs))) (found @ map info (take 100 xs)) (drop 100 xs) c' 
        (loop k' (bytes + sum_list (map (\<lambda>x. sz (info x)) (take 100 xs))) (found @ map info (take 100 xs)) c')"
  shows "read_all info sz bytes found xs c
    (case page_step key sz (ok, page) k bytes found of Inl x \<Rightarrow> (x, c') | Inr (k', b', f') \<Rightarrow> loop k' b' f' c')"
proof (cases ok)
  case False
  then show ?thesis using assms(2,3) by (auto simp: read_all_def page_step_def)
next
  case True
  have sum: "sum_list (map (\<lambda>x. sz (info x)) xs) =
      sum_list (map (\<lambda>x. sz (info x)) (take 100 xs)) + sum_list (map (\<lambda>x. sz (info x)) (drop 100 xs))"
    by (metis append_take_drop_id map_append sum_list_append)
  have app: "map info xs = map info (take 100 xs) @ map info (drop 100 xs)" by (metis append_take_drop_id map_append)
  have "faults c' \<noteq> [] \<Longrightarrow> faults c \<noteq> []" using assms(2) by auto
  note f = this
  let ?b = "bytes + sum_list (map (\<lambda>x. sz (info x)) (take 100 xs))"
  consider (large) "MaxBytes < ?b" | (short) "\<not> MaxBytes < ?b" "length xs < 100" | (full) "\<not> MaxBytes < ?b" "100 \<le> length xs" by linarith
  then show ?thesis
  proof cases
    case large
    then show ?thesis using True assms(1,3,4) sum by (simp add: read_all_def)
  next
    case short
    then show ?thesis using True assms(1,3,4) by (simp add: read_all_def)
  next
    case full
    have "page_step key sz (ok, page) k bytes found = Inr (k', ?b, found @ map info (take 100 xs))"
      using full True assms(1,4) by simp
    then show ?thesis using assms(5) [OF True full(2,1)] assms(3) f sum app by (auto simp: read_all_def Let_def add.assoc)
  qed
qed

lemma quiet_pages:
  assumes "faults c = []" "0 < uid" "0 \<le> cursor" "0 < n"
  shows "\<exists>page. GetFriendPage uid cursor n c = ((True, page), c)" "\<exists>page. GetApplyList uid [] cursor n c = ((True, page), c)"
  using assms by (simp_all add: GetFriendPage_def GetApplyList_def sql_catch_def sql_bind_def sql_return_def)

lemma list_loop_reads:
  assumes "keyed_contacts (tbl c, uid)" "0 < uid" "0 \<le> cursor"
  shows "read_all friend_info (\<lambda>u. length (toStyledString J (WriteProfile J u JNull))) bytes found (friend_rows (tbl c) uid cursor) c
    (list_loop J uid cursor bytes found c)"
  using assms
proof (induction J uid cursor bytes found c rule: list_loop.induct)
  case (1 J uid cursor bytes found c)
  let ?sz = "\<lambda>u. length (toStyledString J (WriteProfile J u JNull))" and ?xs = "friend_rows (tbl c) uid cursor"
  let ?k = "fr_friend (fst (last (take 100 ?xs)))"
  obtain ok page c' where q: "GetFriendPage uid cursor 100 c = ((ok, page), c')" by (metis prod.exhaust)
  note e = GetFriendPage_cases [OF q]
  have key: "ui_uid (friend_info x) = fr_friend (fst x)" if "x \<in> set ?xs" for x
    using that by (auto simp: friend_rows_def friend_info_def ReadUserInfo_def)
  have walk: "page_step ui_uid ?sz (True, map friend_info (take 100 ?xs)) cursor bytes found =
      (if MaxBytes < bytes + sum_list (map (\<lambda>x. ?sz (friend_info x)) (take 100 ?xs)) then Inl (InternalError, [])
       else if length ?xs < 100 then Inl (Success, found @ map friend_info ?xs)
       else Inr (?k, bytes + sum_list (map (\<lambda>x. ?sz (friend_info x)) (take 100 ?xs)), found @ map friend_info (take 100 ?xs)))"
    using contacts.page_step_walk [of "(tbl c, uid)" cursor ui_uid friend_info ?sz bytes found] 1(2) key by simp
  show ?case unfolding list_loop.simps [of J uid cursor bytes found c] q prod.case
  proof (rule page_query [where loop = "list_loop J uid", OF walk], goal_cases)
    case 1
    then show ?case using quiet_pages(1) [of c uid cursor 100] "1.prems"(2,3) q by auto
  next
    case 4
    have rest: "friend_rows (tbl c) uid ?k = drop 100 ?xs"
      using contacts.rest_of_full_page [of "(tbl c, uid)" 100 cursor] "1.prems"(1) 4 by simp
    have "last (take 100 ?xs) \<in> set ?xs" using 4 by (metis in_set_takeD last_in_set list.size(3) not_numeral_le_zero take_eq_Nil zero_neq_numeral)
    then have "cursor < ?k" by (auto simp: friend_rows_def)
    have st: "page_step ui_uid ?sz (ok, page) cursor bytes found =
      Inr (?k, bytes + sum_list (map (\<lambda>x. ?sz (friend_info x)) (take 100 ?xs)), found @ map friend_info (take 100 ?xs))"
      using walk 4 e(2) by simp
    show ?case
      using "1.IH" [OF q [symmetric] st refl refl] "1.prems"(1,2,3) \<open>cursor < ?k\<close> e(1) rest by simp
  qed (use e in simp_all)
qed

lemma applications_loop_reads:
  assumes "keyed_applications (tbl c, uid)" "0 < uid" "0 \<le> cursor"
  shows "read_all apply_info (\<lambda>u. length (toStyledString J (WriteApplication u JNull))) bytes found (apply_rows (tbl c) uid cursor) c
    (applications_loop J uid cursor bytes found c)"
  using assms
proof (induction J uid cursor bytes found c rule: applications_loop.induct)
  case (1 J uid cursor bytes found c)
  let ?sz = "\<lambda>u. length (toStyledString J (WriteApplication u JNull))" and ?xs = "apply_rows (tbl c) uid cursor"
  let ?k = "ap_id (fst (last (take 100 ?xs)))"
  obtain ok page c' where q: "GetApplyList uid [] cursor 100 c = ((ok, page), c')" by (metis prod.exhaust)
  note e = GetApplyList_cases [OF q]
  have key: "ai_id (apply_info x) = ap_id (fst x)" if "x \<in> set ?xs" for x
    using that by (auto simp: apply_rows_def apply_info_def)
  have walk: "page_step ai_id ?sz (True, map apply_info (take 100 ?xs)) cursor bytes found =
      (if MaxBytes < bytes + sum_list (map (\<lambda>x. ?sz (apply_info x)) (take 100 ?xs)) then Inl (InternalError, [])
       else if length ?xs < 100 then Inl (Success, found @ map apply_info ?xs)
       else Inr (?k, bytes + sum_list (map (\<lambda>x. ?sz (apply_info x)) (take 100 ?xs)), found @ map apply_info (take 100 ?xs)))"
    using applications.page_step_walk [of "(tbl c, uid)" cursor ai_id apply_info ?sz bytes found] 1(2) key by simp
  show ?case unfolding applications_loop.simps [of J uid cursor bytes found c] q prod.case
  proof (rule page_query [where loop = "applications_loop J uid", OF walk], goal_cases)
    case 1
    then show ?case using quiet_pages(2) [of c uid cursor 100] "1.prems"(2,3) q by auto
  next
    case 4
    have rest: "apply_rows (tbl c) uid ?k = drop 100 ?xs"
      using applications.rest_of_full_page [of "(tbl c, uid)" 100 cursor] "1.prems"(1) 4 by simp
    have "last (take 100 ?xs) \<in> set ?xs" using 4 by (metis in_set_takeD last_in_set list.size(3) not_numeral_le_zero take_eq_Nil zero_neq_numeral)
    then have "cursor < ?k" by (auto simp: apply_rows_def)
    have st: "page_step ai_id ?sz (ok, page) cursor bytes found =
      Inr (?k, bytes + sum_list (map (\<lambda>x. ?sz (apply_info x)) (take 100 ?xs)), found @ map apply_info (take 100 ?xs))"
      using walk 4 e(2) by simp
    show ?case
      using "1.IH" [OF q [symmetric] st refl refl] "1.prems"(1,2,3) \<open>cursor < ?k\<close> e(1) rest by simp
  qed (use e in simp_all)
qed

end
