(* ===== verification/StatusServer.thy ===== *)
theory StatusServer
  imports Credentials "HOL-Library.State_Monad" "HOL-Library.List_Lexorder" "HOL-Library.Char_ord" "HOL-Library.Multiset"
begin

text \<open>
  The status server (\<^verbatim>\<open>StatusServiceImpl.cpp\<close>): choosing a chat node among those whose health records are
  in Redis, handing out a pending token, and checking the token a client presents to a chat node. The
  server's Redis client (\<^verbatim>\<open>StatusServer/RedisMgr.cpp\<close>) has the two commands \<^const>\<open>Read\<close> and \<^const>\<open>SetEx\<close>. The
  fates of the commands are consumed from a list; the chat nodes of the configuration are a list in the order in
  which the \<^verbatim>\<open>unordered_map\<close> happens to iterate.
\<close>

section \<open>Calls of Redis\<close>

type_synonym 'a rsvc = "(delivery list \<times> redis, 'a) state"

definition issue :: "(delivery \<Rightarrow> redis \<Rightarrow> 'a \<times> redis) \<Rightarrow> 'a rsvc" where
  "issue f = State (\<lambda>(ds, s). case (case ds of [] \<Rightarrow> (Delivered, []) | d # rest \<Rightarrow> (d, rest)) of (d, rest) \<Rightarrow>
     case f d s of (x, s') \<Rightarrow> (x, (rest, s')))"

abbreviation yield :: "'a \<Rightarrow> 'a rsvc" where
  "yield \<equiv> State_Monad.return"

section \<open>Choosing a chat node\<close>

record ChatServer =
  cs_host :: string
  cs_port :: string
  cs_name :: string
  con_count :: int

definition no_server :: ChatServer where
  "no_server = \<lparr>cs_host = [], cs_port = [], cs_name = [], con_count = 0\<rparr>"

text \<open>A section of the configuration is a map of its keys; a later node replaces one of the same name.\<close>

definition GetValue :: "(string \<Rightarrow> string option) \<Rightarrow> string \<Rightarrow> string \<Rightarrow> string" where
  "GetValue section_values key default_value = (case section_values key of None \<Rightarrow> default_value | Some v \<Rightarrow> v)"

definition add_server :: "string \<times> (string \<Rightarrow> string option) \<Rightarrow> ChatServer list \<Rightarrow> ChatServer list" where
  "add_server section_of servers = (case section_of of (section_name, section_values) \<Rightarrow>
     let server = \<lparr>cs_host = GetValue section_values ''Host'' [], cs_port = GetValue section_values ''Port'' [],
           cs_name = GetValue section_values ''Name'' section_name, con_count = 0\<rparr> in
     if GetValue section_values ''Enabled'' ''true'' \<noteq> ''true'' then servers
     else if cs_name server = [] \<or> cs_host server = [] \<or> cs_port server = [] then servers
     else server # filter (\<lambda>x. cs_name x \<noteq> cs_name server) servers)"

definition StatusServiceImpl :: "(string \<Rightarrow> string \<Rightarrow> string option) \<Rightarrow> ChatServer list" where
  "StatusServiceImpl config = fold add_server (map (\<lambda>n. (n, config n)) [''ChatServer1'', ''ChatServer2'']) []"

definition health_key :: "string \<Rightarrow> string" where
  "health_key name = NodeHealthPrefix @ name"

definition reported_online :: "jsoncpp \<Rightarrow> string \<Rightarrow> int option" where
  "reported_online J value = (case parse J value of (ok, health) \<Rightarrow>
     if \<not> ok \<or> \<not> isObject health \<or> \<not> isString (index health ''instance_id'') \<or> str_of (index health ''instance_id'') = [] \<or>
        \<not> isUInt64 (index health ''online'') then None
     else (case asUInt64 (index health ''online'') of None \<Rightarrow> None
       | Some online \<Rightarrow> if int_max < int online then None else Some (int online)))"

text \<open>The loop over the configured nodes; \<^term>\<open>None\<close> is its early return.\<close>

primrec candidates_loop :: "jsoncpp \<Rightarrow> ChatServer list \<Rightarrow> int \<Rightarrow> ChatServer list \<Rightarrow> ChatServer list option rsvc" where
  "candidates_loop J [] minimum candidates = yield (Some candidates)"
| "candidates_loop J (entry # entries) minimum candidates = do {
     health \<leftarrow> issue (\<lambda>d. Read d (health_key (cs_name entry)) False);
     case health of Error \<Rightarrow> yield None
     | Missing \<Rightarrow> candidates_loop J entries minimum candidates
     | Found value \<Rightarrow> (case reported_online J value of None \<Rightarrow> candidates_loop J entries minimum candidates
         | Some online \<Rightarrow>
             let server = entry\<lparr>con_count := online\<rparr>;
                 (minimum', kept) = (if online < minimum then (online, []) else (minimum, candidates)) in
             candidates_loop J entries minimum' (if online = minimum' then kept @ [server] else kept)) }"

text \<open>The error, the chosen node and the counter \<^verbatim>\<open>_next_choice\<close>.\<close>

definition getChatServer :: "jsoncpp \<Rightarrow> ChatServer list \<Rightarrow> 64 word \<Rightarrow> (ErrorCodes \<times> ChatServer \<times> 64 word) rsvc" where
  "getChatServer J nodes next_choice = do {
     candidates \<leftarrow> candidates_loop J nodes int_max [];
     case candidates of None \<Rightarrow> yield (RedisError, no_server, next_choice)
     | Some found \<Rightarrow>
         if found = [] then yield (RPCFailed, no_server, next_choice)
         else yield (Success, sort_key cs_name found ! (unat next_choice mod length found), next_choice + 1) }"

record chat_server_reply =
  rp_error :: ErrorCodes
  rp_host :: string
  rp_port :: string
  rp_token :: string

definition GetChatServer :: "jsoncpp \<Rightarrow> string \<Rightarrow> ChatServer list \<Rightarrow> int \<Rightarrow> 64 word \<Rightarrow> (chat_server_reply \<times> 64 word) rsvc" where
  "GetChatServer J token nodes uid next_choice =
     (let refused = (\<lambda>e. \<lparr>rp_error = e, rp_host = [], rp_port = [], rp_token = []\<rparr>) in
      if uid \<le> 0 then yield (refused UidInvalid, next_choice)
      else do {
        (error, server, next) \<leftarrow> getChatServer J nodes next_choice;
        if error \<noteq> Success then yield (refused error, next)
        else do {
          stored \<leftarrow> issue (\<lambda>d. SetEx d (pending_token_key uid token) token PendingTokenSeconds);
          yield (if \<not> stored then refused RedisError
                 else \<lparr>rp_error = Success, rp_host = cs_host server, rp_port = cs_port server, rp_token = token\<rparr>, next) } })"

section \<open>Checking a token\<close>

text \<open>The keys are read until one holds the token; an unreadable key ends the search.\<close>

primrec token_found :: "string list \<Rightarrow> string \<Rightarrow> ErrorCodes rsvc" where
  "token_found [] presented = yield TokenInvalid"
| "token_found (key # keys) presented = do {
     found \<leftarrow> issue (\<lambda>d. Read d key True);
     case found of Error \<Rightarrow> yield RedisError
     | Found token \<Rightarrow> if token = presented then yield Success else token_found keys presented
     | Missing \<Rightarrow> token_found keys presented }"

definition status_keys :: "int \<Rightarrow> string \<Rightarrow> string list" where
  "status_keys uid token = [pending_token_key uid token, pending_key uid, ActiveTokenPrefix @ to_string uid, ActiveTokenPrefix @ to_string uid @ '':android'']"

definition StatusServer_Login :: "int \<Rightarrow> string \<Rightarrow> ErrorCodes rsvc" where
  "StatusServer_Login uid token =
     (if uid \<le> 0 then yield UidInvalid else if token = [] then yield TokenInvalid else token_found (status_keys uid token) token)"

section \<open>What is chosen\<close>

text \<open>The nodes whose health record is readable, with the number they report.\<close>

definition healthy :: "jsoncpp \<Rightarrow> redis \<Rightarrow> ChatServer list \<Rightarrow> ChatServer list" where
  "healthy J s nodes = List.map_filter (\<lambda>entry. case value_of s (health_key (cs_name entry)) of None \<Rightarrow> None
     | Some v \<Rightarrow> map_option (\<lambda>n. entry\<lparr>con_count := n\<rparr>) (reported_online J v)) nodes"

definition least_loaded :: "ChatServer list \<Rightarrow> ChatServer list" where
  "least_loaded xs = sort_key cs_name (filter (\<lambda>x. \<forall>y\<in>set xs. con_count x \<le> con_count y) xs)"

lemma reported_at_most: "reported_online J v = Some n \<Longrightarrow> n \<le> int_max"
  by (auto simp: reported_online_def split: prod.splits if_splits option.splits)

lemma run_issue: "run_state (issue f) ([], s) = (case f Delivered s of (x, s') \<Rightarrow> (x, ([], s')))"
  by (simp add: issue_def)

lemma read_delivered:
  "\<not> wrong_type s k \<Longrightarrow> Read Delivered k False s = (case value_of s k of None \<Rightarrow> Missing | Some v \<Rightarrow> Found v, s)"
  by (simp add: Read_def command_def GET_def split: option.split)

definition lowest :: "int \<Rightarrow> ChatServer list \<Rightarrow> int" where
  "lowest m xs = fold min (map con_count xs) m"

lemma lowest_simps [simp]: "lowest m [] = m" "lowest m (x # xs) = lowest (min (con_count x) m) xs"
  by (simp_all add: lowest_def min.commute)

lemma lowest_start: "lowest m xs \<le> m"
proof (induction xs arbitrary: m)
  case (Cons x xs)
  from Cons.IH [of "min (con_count x) m"] show ?case by simp
qed simp

lemma lowest_le: "x \<in> set xs \<Longrightarrow> lowest m xs \<le> con_count x"
proof (induction xs arbitrary: m)
  case (Cons y ys)
  then show ?case using lowest_start [of "min (con_count y) m" ys] by auto
qed simp

lemma lowest_in: "lowest m xs = m \<or> (\<exists>x\<in>set xs. con_count x = lowest m xs)"
proof (induction xs arbitrary: m)
  case (Cons x xs)
  from Cons.IH [of "min (con_count x) m"] show ?case by (auto simp: min_def)
qed simp

lemma loop_finds:
  assumes "\<forall>e\<in>set nodes. \<not> wrong_type s (health_key (cs_name e))" "\<forall>x\<in>set found. con_count x = m"
  shows "run_state (candidates_loop J nodes m found) ([], s) =
    (Some (filter (\<lambda>x. con_count x = lowest m (healthy J s nodes)) (found @ healthy J s nodes)), ([], s))"
  using assms
proof (induction nodes arbitrary: m found)
  case Nil
  then show ?case by (simp add: healthy_def List.map_filter_def filter_id_conv)
next
  case (Cons e es)
  note simps = healthy_def List.map_filter_simps
  show ?case
  proof (cases "Option.bind (value_of s (health_key (cs_name e))) (reported_online J)")
    case None
    then have h: "healthy J s (e # es) = healthy J s es" by (auto simp: simps split: option.splits)
    show ?thesis using None Cons.prems Cons.IH [of found m]
      by (auto simp: run_issue read_delivered h split: option.splits)
  next
    case (Some n)
    let ?x = "e\<lparr>con_count := n\<rparr>"
    obtain v where v: "value_of s (health_key (cs_name e)) = Some v" "reported_online J v = Some n" using Some by (cases "value_of s (health_key (cs_name e))") auto
    have h: "healthy J s (e # es) = ?x # healthy J s es" using v by (simp add: simps)
    have run: "run_state (candidates_loop J (e # es) m found) ([], s) =
        run_state (candidates_loop J es (min n m) (if n < m then [?x] else if n = m then found @ [?x] else found)) ([], s)"
      using v Cons.prems(1) by (auto simp: run_issue read_delivered Let_def min_def split: if_splits)
    let ?found = "if n < m then [?x] else if n = m then found @ [?x] else found"
    have f: "\<forall>x\<in>set ?found. con_count x = min n m" using Cons.prems(2) by auto
    have low: "lowest (min n m) (healthy J s es) \<le> min n m" by (rule lowest_start)
    have "filter (\<lambda>x. con_count x = lowest (min n m) (healthy J s es)) ?found =
        filter (\<lambda>x. con_count x = lowest (min n m) (healthy J s es)) (found @ [?x])"
      using Cons.prems(2) low by (auto simp: filter_empty_conv)
    then show ?thesis using Cons.IH [OF _ f] Cons.prems(1) unfolding run h by simp
  qed
qed

lemma healthy_at_most: "x \<in> set (healthy J s nodes) \<Longrightarrow> con_count x \<le> int_max"
  using reported_at_most by (force simp: healthy_def List.map_filter_def split: option.splits)

lemma least_is_lowest:
  assumes "\<forall>x\<in>set xs. con_count x \<le> m"
  shows "sort_key cs_name (filter (\<lambda>x. con_count x = lowest m xs) xs) = least_loaded xs"
proof -
  have "con_count x = lowest m xs \<longleftrightarrow> (\<forall>y\<in>set xs. con_count x \<le> con_count y)" if x: "x \<in> set xs" for x
  proof
    assume "\<forall>y\<in>set xs. con_count x \<le> con_count y"
    moreover have "lowest m xs \<le> con_count x" using lowest_le x by blast
    ultimately show "con_count x = lowest m xs"
      using lowest_in [of m xs] assms x by force
  qed (use lowest_le in auto)
  then show ?thesis unfolding least_loaded_def by (intro arg_cong [where f = "sort_key _"] filter_cong) auto
qed

lemma least_loaded_empty: "least_loaded xs = [] \<longleftrightarrow> xs = []"
proof
  assume e: "least_loaded xs = []"
  show "xs = []"
  proof (rule ccontr)
    assume ne: "xs \<noteq> []"
    let ?m = "Min (con_count ` set xs)"
    have "?m \<in> con_count ` set xs" using ne by (intro Min_in) auto
    then obtain x where "x \<in> set xs" "con_count x = ?m" by auto
    then have "x \<in> set (least_loaded xs)" by (simp add: least_loaded_def)
    then show False using e by simp
  qed
qed (simp add: least_loaded_def)

lemma least_loaded_order:
  assumes "mset xs = mset ys" "distinct (map cs_name xs)"
  shows "least_loaded xs = least_loaded ys"
proof -
  have s: "set xs = set ys" using assms(1) mset_eq_setD by blast
  have "mset (filter P xs) = mset (filter P ys)" for P using assms(1) by simp
  moreover have "inj_on cs_name (set (filter P xs))" for P
    using assms(2) by (auto simp: distinct_map inj_on_def)
  ultimately show ?thesis unfolding least_loaded_def s
    by (intro sort_key_inj_key_eq) (auto simp: inj_on_def)
qed

lemma chosen:
  assumes "\<forall>e\<in>set nodes. \<not> wrong_type s (health_key (cs_name e))"
  shows "run_state (getChatServer J nodes k) ([], s) =
    (let best = least_loaded (healthy J s nodes) in
     if best = [] then (RPCFailed, no_server, k) else (Success, best ! (unat k mod length best), k + 1), ([], s))"
proof -
  let ?h = "healthy J s nodes"
  define f where "f = filter (\<lambda>x. con_count x = lowest int_max ?h) ?h"
  have best: "sort_key cs_name f = least_loaded ?h" unfolding f_def by (rule least_is_lowest) (simp add: healthy_at_most)
  have len: "length f = length (least_loaded ?h)" by (metis best length_sort)
  have run: "run_state (candidates_loop J nodes int_max []) ([], s) = (Some f, ([], s))"
    using loop_finds [of nodes s "[]" int_max J] assms by (simp add: f_def)
  have "f = [] \<longleftrightarrow> least_loaded ?h = []" using len by (metis length_0_conv)
  then show ?thesis by (simp add: getChatServer_def run best len Let_def)
qed

lemma healthy_names: "distinct (map cs_name nodes) \<Longrightarrow> distinct (map cs_name (healthy J s nodes))"
proof (induction nodes)
  case (Cons e es)
  have "cs_name ` set (healthy J s es) \<subseteq> cs_name ` set es"
    by (force simp: healthy_def List.map_filter_def split: option.splits)
  moreover have "healthy J s (e # es) = healthy J s es \<or> (\<exists>n. healthy J s (e # es) = e\<lparr>con_count := n\<rparr> # healthy J s es)"
    by (auto simp: healthy_def List.map_filter_simps split: option.splits)
  ultimately show ?case using Cons by auto
qed (simp add: healthy_def List.map_filter_simps)

lemma healthy_mset: "mset xs = mset ys \<Longrightarrow> mset (healthy J s xs) = mset (healthy J s ys)"
  by (simp add: healthy_def List.map_filter_def)

lemma add_server_names: "distinct (map cs_name xs) \<Longrightarrow> distinct (map cs_name (add_server x xs))"
proof -
  assume d: "distinct (map cs_name xs)"
  have "distinct (map cs_name (server # filter (\<lambda>x. cs_name x \<noteq> cs_name server) xs))" for server
    using distinct_map_filter [OF d] by auto
  from this [of "ChatServer.make (GetValue v ''Host'' []) (GetValue v ''Port'' []) (GetValue v ''Name'' n) 0" for v n]
  show ?thesis using d by (simp add: add_server_def Let_def ChatServer.make_def split: prod.split)
qed

lemma configured_names: "distinct (map cs_name (StatusServiceImpl config))"
  by (simp add: StatusServiceImpl_def add_server_names)

text \<open>C24: With Redis answering, the status server's choice equals a reference: among the nodes with a readable
  health record, those that report the fewest users, by name, rotated by the counter; and the result does not
  depend on the order in which the hash map of nodes is iterated. Nothing is chosen exactly when no node is
  healthy.\<close>

theorem node_choice_reference:
  assumes "nodes = StatusServiceImpl config" "mset order = mset nodes" "\<forall>e\<in>set nodes. \<not> wrong_type s (health_key (cs_name e))"
  shows "run_state (getChatServer J order k) ([], s) =
    (let best = least_loaded (healthy J s nodes) in
     if best = [] then (RPCFailed, no_server, k) else (Success, best ! (unat k mod length best), k + 1), ([], s)) \<and>
    (least_loaded (healthy J s nodes) = [] \<longleftrightarrow> healthy J s nodes = [])"
proof -
  have o: "set order = set nodes" using assms(2) mset_eq_setD by blast
  have "distinct (map cs_name order)" using assms(1,2) configured_names [of config] by (metis mset_eq_imp_distinct_iff mset_map)
  then have "least_loaded (healthy J s order) = least_loaded (healthy J s nodes)"
    using assms(2) by (intro least_loaded_order healthy_mset healthy_names)
  then show ?thesis using chosen [of order s J k] assms(3) o by (simp add: least_loaded_empty)
qed

section \<open>Tokens\<close>

lemma read_live:
  "\<not> wrong_type s k \<Longrightarrow> Read Delivered k True s =
    (if 0 < ttl s k then case value_of s k of None \<Rightarrow> Missing | Some v \<Rightarrow> Found v else Missing, s)"
  by (simp add: Read_def command_def GET_def read_script_def split: option.split)

lemma token_found_delivered:
  assumes "\<forall>k\<in>set ks. \<not> wrong_type s k"
  shows "run_state (token_found ks t) ([], s) =
    (if \<exists>k\<in>set ks. 0 < ttl s k \<and> value_of s k = Some t then Success else TokenInvalid, ([], s))"
  using assms
proof (induction ks)
  case (Cons k ks)
  then show ?case by (auto simp: run_issue read_live split: option.splits)
qed simp

lemma status_slots:
  "ActiveTokenPrefix @ to_string uid = token_key uid ''desktop''" "ActiveTokenPrefix @ to_string uid @ '':android'' = token_key uid ''android''"
  by (simp_all add: token_key_def ActiveTokenPrefix_def RESOURCE_TOKEN_PREFIX_def DeviceKey_def)

text \<open>What a chat node will accept, the status server accepts, and it accepts nothing else.\<close>

lemma login_admits:
  assumes "0 < uid" "\<forall>k\<in>set (status_keys uid token). \<not> wrong_type s k"
  shows "run_state (StatusServer_Login uid token) ([], s) =
    (if token \<noteq> [] \<and> (admits s uid token ''desktop'' \<or> admits s uid token ''android'') then Success else TokenInvalid, ([], s))"
proof (cases "token = []")
  case False
  have "(\<exists>k\<in>set (status_keys uid token). 0 < ttl s k \<and> value_of s k = Some token) \<longleftrightarrow>
      admits s uid token ''desktop'' \<or> admits s uid token ''android''"
    by (auto simp: admits_def status_keys_def status_slots)
  then show ?thesis using assms False token_found_delivered [OF assms(2), of token] by (simp add: StatusServer_Login_def)
qed (use assms in \<open>simp add: StatusServer_Login_def\<close>)

text \<open>Redis counts the seconds a key has left, so a key with a second or more has a positive \<^verbatim>\<open>TTL\<close>.\<close>

definition counts_seconds :: "redis \<Rightarrow> bool" where
  "counts_seconds s \<longleftrightarrow> (\<forall>ms. 1000 \<le> ms \<longrightarrow> 0 < ttl_seconds s ms)"

lemma issue_reads:
  assumes "\<And>d. snd (f d s) = s"
  obtains h rest where "run_state (issue f) (ds, s) = (h, (rest, s))"
proof -
  obtain d rest where d: "(case ds of [] \<Rightarrow> (Delivered, []) | d # rest \<Rightarrow> (d, rest)) = (d, rest)" by (metis prod.exhaust)
  obtain h s' where "f d s = (h, s')" by (metis prod.exhaust)
  moreover from this have "s' = s" using assms [of d] by simp
  ultimately show thesis using that [of h rest] d by (simp add: issue_def)
qed

lemma loop_reads:
  assumes "run_state (candidates_loop J nodes m found) (ds, s) = (r, (ds', s'))"
  shows "s' = s \<and> (\<forall>xs x. r = Some xs \<longrightarrow> x \<in> set xs \<longrightarrow> x \<in> set found \<or> (\<exists>e\<in>set nodes. cs_host x = cs_host e \<and> cs_port x = cs_port e))"
  using assms
proof (induction nodes arbitrary: m found ds s)
  case (Cons e es)
  have rd: "snd (Read d key b s) = s" for d key b
    by (cases d) (auto simp: Read_def command_def GET_def read_script_def)
  obtain h ds1 where h: "run_state (issue (\<lambda>d. Read d (health_key (cs_name e)) False)) (ds, s) = (h, (ds1, s))"
    using issue_reads [of "\<lambda>d. Read d (health_key (cs_name e)) False" s ds] rd by metis
  consider (stop) "h = Error" "r = None" "s' = s"
    | (go) m' found' where "run_state (candidates_loop J es m' found') (ds1, s) = (r, (ds', s'))"
        "\<forall>x\<in>set found'. x \<in> set found \<or> cs_host x = cs_host e \<and> cs_port x = cs_port e"
  proof (cases h)
    case (Found v)
    show thesis
    proof (cases "reported_online J v")
      case (Some n)
      with Found show thesis using Cons.prems h
        by (intro go [of "if n < m then n else m" "if n < m then [e\<lparr>con_count := n\<rparr>] else if n = m then found @ [e\<lparr>con_count := n\<rparr>] else found"])
          (auto simp: Let_def split: if_splits)
    qed (use Found Cons.prems h in \<open>auto intro!: go [of m found]\<close>)
  qed (use Cons.prems h in \<open>auto intro!: stop go [of m found]\<close>)
  then show ?case
  proof cases
    case go
    from Cons.IH [OF go(1)] go(2) show ?thesis by (metis list.set_intros)
  qed simp
qed auto

lemma chosen_node:
  assumes "run_state (getChatServer J nodes k) (ds, s) = ((e, server, k'), (ds', s'))"
  shows "s' = s \<and> (e = Success \<longrightarrow> (\<exists>x\<in>set nodes. cs_host server = cs_host x \<and> cs_port server = cs_port x))"
proof -
  obtain r ds1 s1 where r: "run_state (candidates_loop J nodes int_max []) (ds, s) = (r, (ds1, s1))" by (metis prod.exhaust)
  note l = loop_reads [OF r]
  show ?thesis
  proof (cases r)
    case (Some found)
    show ?thesis
    proof (cases "found = []")
      case False
      let ?i = "unat k mod length found"
      have "sort_key cs_name found ! ?i \<in> set (sort_key cs_name found)" using False by (intro nth_mem) simp
      then show ?thesis using assms r l Some False by (auto simp: getChatServer_def)
    qed (use assms r l Some in \<open>auto simp: getChatServer_def\<close>)
  qed (use assms r l in \<open>auto simp: getChatServer_def\<close>)
qed

lemma stored_credential:
  assumes "counts_seconds s" "0 \<le> dt" "dt \<le> 299000"
  shows "value_of (tick dt (setex k v PendingTokenSeconds s)) k = Some v" "0 < ttl (tick dt (setex k v PendingTokenSeconds s)) k"
proof -
  let ?s = "setex k v PendingTokenSeconds s"
  have left: "dt < time_left ?s k" using assms(3) by (simp add: PendingTokenSeconds_def)
  then show "value_of (tick dt ?s) k = Some v" using tick_value [OF assms(2)] by (simp add: PendingTokenSeconds_def)
  have "live (tick dt ?s) k = Some (RStr v, Some (clock s + 300000))"
    using tick_live [OF assms(2) left] by (simp add: PendingTokenSeconds_def live_def setex_def put_def)
  then have "ttl (tick dt ?s) k = ttl_seconds s (300000 - dt)" by (simp add: ttl_def tick_def)
  then show "0 < ttl (tick dt ?s) k" using assms by (simp add: counts_seconds_def)
qed

text \<open>An allocation that succeeds names one of the configured nodes and hands the client a token that works: for
  the next 299 seconds, if nobody touches its key, the status server confirms it and the chat nodes' registration
  script admits it on either device.\<close>

theorem allocated_token_admits:
  assumes "run_state (GetChatServer J token nodes uid k) (ds, s) = ((reply, k'), (ds', s'))" "rp_error reply = Success" "token \<noteq> []"
    "counts_seconds s" "0 \<le> dt" "dt \<le> 299000" "\<forall>key\<in>set (status_keys uid token). \<not> wrong_type (tick dt s') key"
  shows "rp_token reply = token \<and> (\<exists>node\<in>set nodes. rp_host reply = cs_host node \<and> rp_port reply = cs_port node) \<and>
    fst (run_state (StatusServer_Login uid token) ([], tick dt s')) = Success \<and> (\<forall>device. admits (tick dt s') uid token device)"
proof -
  obtain e server k1 ds1 s1 where g: "run_state (getChatServer J nodes k) (ds, s) = ((e, server, k1), (ds1, s1))" by (metis prod.exhaust)
  note c = chosen_node [OF g]
  have u: "0 < uid" and e: "e = Success" using assms(1,2) g by (auto simp: GetChatServer_def Let_def split: if_splits)
  obtain ok where ok: "run_state (issue (\<lambda>d. SetEx d (pending_token_key uid token) token PendingTokenSeconds)) (ds1, s) = (ok, (ds', s'))"
    and reply: "reply = (if \<not> ok then \<lparr>rp_error = RedisError, rp_host = [], rp_port = [], rp_token = []\<rparr>
      else \<lparr>rp_error = Success, rp_host = cs_host server, rp_port = cs_port server, rp_token = token\<rparr>)"
    using assms(1) g c e u by (auto simp: GetChatServer_def Let_def split: prod.splits)
  have ok': ok using reply assms(2) by (auto split: if_splits)
  obtain d where "SetEx d (pending_token_key uid token) token PendingTokenSeconds s = (True, s')"
    using ok ok' by (auto simp: issue_def split: list.splits prod.splits)
  then have s': "s' = setex (pending_token_key uid token) token PendingTokenSeconds s"
    by (cases d) (auto simp: SetEx_def command_def SET_EX_def IsStatusOk_def PendingTokenSeconds_def)
  have ad: "admits (tick dt s') uid token device" for device
    using stored_credential [OF assms(4-6)] by (auto simp: admits_def s')
  then show ?thesis using login_admits [OF u assms(7)] assms(3) reply ok' c e by auto
qed

section \<open>A status server with two nodes\<close>

definition health_json :: jsoncpp where
  "health_json = \<lparr>parse = (\<lambda>t. (True, JObj [(''instance_id'', JStr ''x''), (''online'', JInt (int (length t)))])), toStyledString = (\<lambda>v. []),
     writeString = (\<lambda>v. []), realToString = (\<lambda>r. [])\<rparr>"

lemma health_reports: "reported_online health_json ''aa'' = Some 2" "reported_online health_json ''aaaa'' = Some 4"
  by (simp_all add: reported_online_def health_json_def int_max_def index_def get_default_def)

definition two_nodes :: "string \<Rightarrow> string \<Rightarrow> string option" where
  "two_nodes section_name key = map_of [(''Host'', ''localhost''), (''Port'', if section_name = ''ChatServer1'' then ''1'' else ''2'')] key"

definition healthy_redis :: redis where
  "healthy_redis = setex (health_key ''ChatServer2'') ''aa'' 30 (setex (health_key ''ChatServer1'') ''aaaa'' 30 empty_redis)"

lemma nodes_eq: "StatusServiceImpl two_nodes = [\<lparr>cs_host = ''localhost'', cs_port = ''2'', cs_name = ''ChatServer2'', con_count = 0\<rparr>,
    \<lparr>cs_host = ''localhost'', cs_port = ''1'', cs_name = ''ChatServer1'', con_count = 0\<rparr>]"
  by (simp add: StatusServiceImpl_def add_server_def two_nodes_def GetValue_def Let_def)

lemma health_values: "value_of healthy_redis (health_key ''ChatServer2'') = Some ''aa''" "value_of healthy_redis (health_key ''ChatServer1'') = Some ''aaaa''"
  by (simp_all add: healthy_redis_def health_key_def)

lemma nodes_readable: "\<forall>e\<in>set (StatusServiceImpl two_nodes). \<not> wrong_type healthy_redis (health_key (cs_name e))"
  using health_values by (simp add: nodes_eq wrong_type_def)

lemma nodes_healthy: "least_loaded (healthy health_json healthy_redis (StatusServiceImpl two_nodes)) =
    [\<lparr>cs_host = ''localhost'', cs_port = ''2'', cs_name = ''ChatServer2'', con_count = 2\<rparr>]"
  by (simp add: nodes_eq healthy_def List.map_filter_simps health_values health_reports least_loaded_def)

theorem node_choice_reference_witness:
  "fst (run_state (getChatServer health_json (rev (StatusServiceImpl two_nodes)) 0) ([], healthy_redis)) =
    (Success, \<lparr>cs_host = ''localhost'', cs_port = ''2'', cs_name = ''ChatServer2'', con_count = 2\<rparr>, 1)"
  using node_choice_reference [OF refl _ nodes_readable, of "rev (StatusServiceImpl two_nodes)" health_json 0]
  by (simp add: nodes_healthy Let_def)

theorem allocated_token_admits_witness:
  "\<exists>reply s'. fst (run_state (GetChatServer health_json ''t'' (StatusServiceImpl two_nodes) 7 0) ([], healthy_redis)) = (reply, 1) \<and>
    fst (run_state (StatusServer_Login 7 ''t'') ([], tick 1000 s')) = Success \<and> admits (tick 1000 s') 7 ''t'' ''android''"
proof -
  let ?s = "setex (pending_token_key 7 ''t'') ''t'' PendingTokenSeconds healthy_redis"
  have g: "run_state (getChatServer health_json (StatusServiceImpl two_nodes) 0) ([], healthy_redis) =
      ((Success, \<lparr>cs_host = ''localhost'', cs_port = ''2'', cs_name = ''ChatServer2'', con_count = 2\<rparr>, 1), ([], healthy_redis))"
    using chosen [OF nodes_readable, of health_json 0] by (simp add: nodes_healthy Let_def)
  then have r: "run_state (GetChatServer health_json ''t'' (StatusServiceImpl two_nodes) 7 0) ([], healthy_redis) =
      ((\<lparr>rp_error = Success, rp_host = ''localhost'', rp_port = ''2'', rp_token = ''t''\<rparr>, 1), ([], ?s))"
    by (simp add: GetChatServer_def issue_def SetEx_def command_def SET_EX_def IsStatusOk_def PendingTokenSeconds_def)
  have w: "\<not> wrong_type (tick 1000 ?s) key" for key
    by (auto simp: wrong_type_def value_of_def live_def tick_def setex_def put_def healthy_redis_def empty_redis_def split: option.splits if_splits)
  have c: "counts_seconds healthy_redis" by (simp add: counts_seconds_def healthy_redis_def empty_redis_def)
  have "fst (run_state (StatusServer_Login 7 ''t'') ([], tick 1000 ?s)) = Success \<and> admits (tick 1000 ?s) 7 ''t'' ''android''"
    using allocated_token_admits [OF r _ _ c, of 1000] w by simp
  then show ?thesis using r by (metis fst_conv)
qed

end
