(* ===== verification/SessionService.thy ===== *)
theory SessionService
  imports FriendService StatusServer
begin

text \<open>
  Logging in to a chat node (\<^verbatim>\<open>SessionService.cpp\<close>): the token is checked by the status server, the profile and the
  two contact lists are read, and under the account's lock the credential is checked again, an older session of the same
  device is retired here or on its node, and the session is registered and bound. Other threads do not close the
  session in the meantime; a session that is retired or closed has \<open>cl_closed\<close> set.
\<close>

section \<open>Calls of Redis in sequence\<close>

definition redis_run :: "'a rsvc \<Rightarrow> 'a svc" where
  "redis_run m = State (\<lambda>n. case run_state m (fates n, redisd n) of (x, (ds, s)) \<Rightarrow> (x, n\<lparr>fates := ds, redisd := s\<rparr>))"

text \<open>The status server's answer; \<^const>\<open>RPCFailed\<close> when no connection is free or the call fails.\<close>

definition StatusGrpcClient_Login :: "int \<Rightarrow> string \<Rightarrow> ErrorCodes svc" where
  "StatusGrpcClient_Login uid token = do {
     fate \<leftarrow> next_call;
     if fate = Replied then redis_run (StatusServer_Login uid token) else give RPCFailed }"

section \<open>Sessions\<close>

definition update_client :: "string \<Rightarrow> (client \<Rightarrow> client) \<Rightarrow> unit svc" where
  "update_client i f = State (\<lambda>n. ((), n\<lparr>clients := (clients n)(i := map_option f (clients n i))\<rparr>))"

text \<open>\<^verbatim>\<open>CSession::NotifyOffline\<close>: the notice is the last frame of the session, which is retired.\<close>

definition notify_offline :: "jsoncpp \<Rightarrow> client \<Rightarrow> int \<Rightarrow> bool svc" where
  "notify_offline J c uid =
     (if cl_closed c then give True
      else do {
        send c (toStyledString J (set_members [(''error'', err Success), (''uid'', JInt uid)] JNull)) ID_NOTIFY_OFF_LINE_REQ;
        close_client (cl_id c);
        give True })"

definition BindAuthenticatedUser :: "string \<Rightarrow> int \<Rightarrow> string \<Rightarrow> bool svc" where
  "BindAuthenticatedUser i uid device = State (\<lambda>n. case clients n i of None \<Rightarrow> (False, n)
     | Some c \<Rightarrow> if uid \<le> 0 \<or> cl_closed c \<or> cl_uid c \<noteq> 0 then (False, n)
         else let c' = c\<lparr>cl_device := device, cl_uid := uid\<rparr> in (True, SetUserSession uid c' (n\<lparr>clients := (clients n)(i \<mapsto> c')\<rparr>)))"

section \<open>Logging in\<close>

definition login_profile :: "jsoncpp \<Rightarrow> UserInfo \<Rightarrow> string \<Rightarrow> json" where
  "login_profile J user token = set_members
     [(''token'', JStr token), (''group_chat'', JBool True), (''group_images'', JBool True), (''voice_messages'', JBool True),
      (''file_messages'', JBool True), (''common_groups'', JBool True), (''voice_call'', JBool True), (''video_call'', JBool True),
      (''message_dedup'', JBool True), (''request_correlation'', JBool True), (''multi_device'', JBool True)]
     (WriteProfile J user (set_member ''error'' (err Success) JNull))"

definition append_items :: "string \<Rightarrow> json list \<Rightarrow> json \<Rightarrow> json" where
  "append_items list items response = fold (append_item list) items response"

definition account_lock :: "int \<Rightarrow> string" where
  "account_lock uid = LOCK_PREFIX @ to_string uid"

text \<open>The session registered before for this device, retired; the error that ends the login.\<close>

definition retire_previous :: "runtime \<Rightarrow> client \<Rightarrow> int \<Rightarrow> string \<Rightarrow> ErrorCodes svc" where
  "retire_previous R session uid device = do {
     route \<leftarrow> redis_call (\<lambda>d. Read d (ip_key uid device) False);
     if route = Error then give RedisError
     else let previous_server = (case route of Found v \<Rightarrow> v | _ \<Rightarrow> []) in do {
       self \<leftarrow> reads self_name;
       if previous_server = self then do {
         old \<leftarrow> reads (GetSession uid device);
         case old of None \<Rightarrow> give Success
         | Some c \<Rightarrow>
             if cl_id c = cl_id session then give Success
             else do {
               notify_offline (json_lib R) c uid;
               State (\<lambda>n. (Success, RmvUserSession uid (cl_id c) n)) } }
       else if previous_server = [] then give Success
       else do {
         health \<leftarrow> redis_call (\<lambda>d. Read d (health_key previous_server) True);
         case health of Error \<Rightarrow> give RedisError
         | Missing \<Rightarrow> give Success
         | Found v \<Rightarrow> do {
             kicked \<leftarrow> ChatGrpcClient_NotifyKickUser previous_server uid device;
             give (if kicked then Success else RPCFailed) } } } }"

text \<open>What is done while the lock is held.\<close>

definition login_locked :: "runtime \<Rightarrow> client \<Rightarrow> int \<Rightarrow> string \<Rightarrow> string \<Rightarrow> ErrorCodes svc" where
  "login_locked R session uid token device = do {
     credential \<leftarrow> redis_run (token_found [pending_token_key uid token, pending_key uid, token_key uid device] token);
     if credential \<noteq> Success then give credential
     else do {
       retired \<leftarrow> retire_previous R session uid device;
       if retired \<noteq> Success then give retired
       else do {
         self \<leftarrow> reads self_name;
         registered \<leftarrow> redis_call (\<lambda>d. RegisterSession d uid (cl_id session) self token device);
         if registered \<noteq> Success then give registered
         else do {
           bound \<leftarrow> BindAuthenticatedUser (cl_id session) uid device;
           if bound then give Success
           else do {
             State (\<lambda>n. case next_fate n of (d1, n1) \<Rightarrow> case next_fate n1 of (d2, n2) \<Rightarrow>
               case ReleaseSession d1 d2 uid (cl_id session) (redisd n2) of (r, s) \<Rightarrow> (r, n2\<lparr>redisd := s\<rparr>));
             give TokenInvalid } } } } }"

definition SessionService_Login :: "runtime \<Rightarrow> client \<Rightarrow> int \<Rightarrow> string \<Rightarrow> string \<Rightarrow> json svc" where
  "SessionService_Login R session uid token device =
     (let J = json_lib R; fail = (\<lambda>e response. give (set_member ''error'' (err e) response)) in
      if \<not> ValidDevice device \<or> cl_closed session \<or> 0 < cl_uid session then fail TokenInvalid JNull
      else do {
        status \<leftarrow> StatusGrpcClient_Login uid token;
        if status \<noteq> Success then fail status JNull
        else do {
          user \<leftarrow> GetById J uid;
          case user of None \<Rightarrow> fail UidInvalid JNull
          | Some u \<Rightarrow> do {
              (applied, applications) \<leftarrow> Applications J uid;
              if applied \<noteq> Success then fail applied (login_profile J u token)
              else let with_applies = append_items ''apply_list'' (map (\<lambda>a. WriteApplication a JNull) applications) (login_profile J u token) in do {
                (listed, contacts) \<leftarrow> FriendList J uid;
                if listed \<noteq> Success then fail listed with_applies
                else let response = append_items ''friend_list'' (map (\<lambda>f. WriteProfile J f JNull) contacts) with_applies in do {
                  identifier \<leftarrow> State (\<lambda>n. case AcquireLock (lock_connection R) (lock_turns R) (account_lock uid) LOCK_TIME_OUT ACQUIRE_TIME_OUT
                    (lock_identifier R) (redisd n) of (i, s) \<Rightarrow> (i, n\<lparr>redisd := s\<rparr>));
                  if identifier = [] then fail RPCFailed response
                  else do {
                    result \<leftarrow> login_locked R session uid token device;
                    redis_call (\<lambda>d. ReleaseLock d (account_lock uid) identifier);
                    if result \<noteq> Success then fail result response else give response } } } } } })"

section \<open>Heartbeats\<close>

definition Heartbeat :: "runtime \<Rightarrow> client \<Rightarrow> int option \<Rightarrow> json svc" where
  "Heartbeat R session snapshot_id = do {
     let response = set_members ([(''error'', err Success), (''uid'', JInt (cl_uid session))] @
       (case snapshot_id of None \<Rightarrow> [] | Some i \<Rightarrow> [(''friend_snapshot_id'', JInt i)])) JNull;
     (ok, friend_ids) \<leftarrow> Ids (cl_uid session);
     give (if \<not> ok then response
       else let full = set_member ''friend_ids'' (JArr (map JInt friend_ids)) response in
         if MAX_LENGTH \<le> length (toStyledString (json_lib R) full) then removeMember ''friend_ids'' full else full) }"

end
