(* ===== verification/VoiceService.thy ===== *)
theory VoiceService
  imports Node
begin

text \<open>
  Requests about voice and video calls (\<^verbatim>\<open>VoiceCallService.cpp\<close>): the request is checked, the peer's session is
  looked up, the shared state machine of \<^theory_text>\<open>Voice\<close> decides, and the event goes to the session the
  call is bound to, on this node or another. A conversion of the lease's JSON that throws is \<^term>\<open>None\<close>.
\<close>

section \<open>Delivering\<close>

primrec relay :: "string list \<Rightarrow> (string \<Rightarrow> bool svc) \<Rightarrow> bool svc" where
  "relay [] call = give False"
| "relay (node # nodes) call = do { ok \<leftarrow> call node; if ok then give True else relay nodes call }"

definition voice_event_id :: "bool \<Rightarrow> bool \<Rightarrow> MessageIds" where
  "voice_event_id audio video = (if video then ID_VIDEO_IMAGE else if audio then ID_VOICE_AUDIO else ID_VOICE_EVENT)"

definition VoiceCall_Deliver :: "jsoncpp \<Rightarrow> int \<Rightarrow> string \<Rightarrow> json \<Rightarrow> bool \<Rightarrow> bool \<Rightarrow> bool svc" where
  "VoiceCall_Deliver J peer session body audio video = (let data = writeString J body in do {
     targets \<leftarrow> reads (GetSessions peer);
     case find (\<lambda>c. cl_id c = session \<and> \<not> cl_closed c) targets of
       Some target \<Rightarrow> send target data (voice_event_id audio video)
     | None \<Rightarrow> do {
         nodes \<leftarrow> destinations peer;
         relay nodes (\<lambda>node. ChatGrpcClient_RelayVoice node peer session data audio video) } })"

section \<open>Checking a request\<close>

definition call_pattern :: "string \<Rightarrow> bool" where
  "call_pattern text \<longleftrightarrow> length text = 32 \<and> list_all (\<lambda>c. c \<in> set ''0123456789abcdef'') text"

definition voice_actions :: "string list" where
  "voice_actions = [''invite'', ''accept'', ''reject'', ''cancel'', ''end'', ''ping'', ''frame'', ''video'', ''camera'']"

definition base64_char :: "char \<Rightarrow> bool" where
  "base64_char c \<longleftrightarrow> byte c \<in> {65..90} \<or> byte c \<in> {97..122} \<or> byte c \<in> {48..57} \<or>
     c = CHR ''+'' \<or> c = CHR ''/''"

text \<open>Blocks of four characters, at most two of them padding at the end.\<close>

definition media_text :: "bool \<Rightarrow> string \<Rightarrow> bool" where
  "media_text picture bytes \<longleftrightarrow>
     4 \<le> length bytes \<and> length bytes \<le> (if picture then 8000 else 684) \<and> length bytes mod 4 = 0 \<and>
     (let body = takeWhile (\<lambda>c. c \<noteq> CHR ''='') bytes; padding = dropWhile (\<lambda>c. c \<noteq> CHR ''='') bytes in
      length padding \<le> 2 \<and> list_all (\<lambda>c. c = CHR ''='') padding \<and> list_all base64_char body) \<and>
     (picture \<longrightarrow> take 4 bytes = ''/9j/'')"

record voice_request =
  vr_peer :: int
  vr_call :: string
  vr_action :: string
  vr_video :: bool
  vr_sequence :: int
  vr_valid :: bool

definition read_voice_request :: "int \<Rightarrow> bool \<Rightarrow> bool \<Rightarrow> bool \<Rightarrow> json \<Rightarrow> voice_request" where
  "read_voice_request uid picture media parsed payload =
     (let peer = (if parsed \<and> isInt (index payload ''peer'') then int_of_json (index payload ''peer'') else 0);
          call = (if parsed \<and> isString (index payload ''call_id'') then str_of (index payload ''call_id'') else []);
          action = (if media then (if picture then ''video'' else ''frame'')
            else if parsed \<and> isString (index payload ''action'') then str_of (index payload ''action'') else []);
          video = (parsed \<and> index payload ''video'' = JBool True);
          valid = (parsed \<and> 0 < uid \<and> 0 < peer \<and> peer \<noteq> uid \<and> call_pattern call \<and> action \<in> set voice_actions \<and>
            (media \<or> (action \<noteq> ''frame'' \<and> action \<noteq> ''video'')) \<and> (\<not> isMember payload ''video'' \<or> isBool (index payload ''video'')) \<and>
            (action \<noteq> ''camera'' \<or> isBool (index payload ''enabled'')) \<and> (\<not> picture \<or> video));
          field = (if picture then ''image'' else ''audio'');
          media_valid = (valid \<and> isInt (index payload ''seq'') \<and> 0 < int_of_json (index payload ''seq'') \<and> isString (index payload field))
      in \<lparr>vr_peer = peer, vr_call = call, vr_action = action, vr_video = video,
          vr_sequence = (if media \<and> media_valid then int_of_json (index payload ''seq'') else 0),
          vr_valid = (if media then media_valid \<and> media_text picture (str_of (index payload field)) else valid)\<rparr>)"

section \<open>The peer's session\<close>

text \<open>The device and session the request is for, no device when there is none, and the lease that was read.\<close>

definition invite_target :: "int \<Rightarrow> (string \<times> string) svc" where
  "invite_target peer = do {
     phone \<leftarrow> redis_call (\<lambda>d. Get d (session_key peer ''android''));
     case phone of Some s \<Rightarrow> give (''android'', s)
     | None \<Rightarrow> do {
         desktop \<leftarrow> redis_call (\<lambda>d. Get d (session_key peer ''desktop''));
         give (case desktop of Some s \<Rightarrow> (''desktop'', s) | None \<Rightarrow> ([], [])) } }"

definition lease_target :: "runtime \<Rightarrow> int \<Rightarrow> int \<Rightarrow> string \<Rightarrow> (string \<times> string \<times> json) option svc" where
  "lease_target R uid peer call = (let J = json_lib R in do {
     stored \<leftarrow> redis_call (\<lambda>d. Get d (voice_key uid));
     case stored of None \<Rightarrow> give (Some ([], [], JNull))
     | Some raw \<Rightarrow>
         if 4096 < length raw then give (Some ([], [], JNull))
         else case parse J raw of (ok, lease) \<Rightarrow>
           if \<not> ok then give (Some ([], [], lease))
           else (case Option.bind (index_const lease ''id'') (asString J) of None \<Rightarrow> give None
             | Some i \<Rightarrow>
                 if i \<noteq> call then give (Some ([], [], lease))
                 else (case asInt (index lease ''a'') of None \<Rightarrow> give None
                   | Some a \<Rightarrow>
                     (case (if a = uid then map_option (\<lambda>b. b = peer) (asInt (index lease ''b'')) else Some False) of None \<Rightarrow> give None
                     | Some caller \<Rightarrow>
                       (case asString J (get_default lease (if caller then ''db'' else ''da'') (JStr ''desktop'')) of None \<Rightarrow> give None
                       | Some device \<Rightarrow>
                           if \<not> ValidDevice device then give (Some ([], [], lease))
                           else do {
                             s \<leftarrow> redis_call (\<lambda>d. Get d (session_key peer device));
                             give (Some (case s of None \<Rightarrow> ([], [], lease) | Some sid \<Rightarrow> (device, sid, lease))) })))) })"

section \<open>Handling\<close>

definition voice_transition :: "runtime \<Rightarrow> client \<Rightarrow> voice_request \<Rightarrow> string \<Rightarrow> int \<Rightarrow> bool \<Rightarrow> string \<Rightarrow> string \<Rightarrow> int svc" where
  "voice_transition R session v action sequence camera device target =
     redis_call (\<lambda>d. VoiceTransition (cjson_lib R) d
       \<lparr>v_uid = cl_uid session, v_peer = vr_peer v, v_session = cl_id session, v_call = vr_call v, v_action = action,
        v_sequence = sequence, v_video = vr_video v, v_camera = camera, v_device = cl_device session, v_peer_device = device,
        v_peer_session = target\<rparr>)"

text \<open>The error, and the target and lease as far as they were found.\<close>

definition decide_voice :: "runtime \<Rightarrow> client \<Rightarrow> voice_request \<Rightarrow> json \<Rightarrow> (int \<times> string \<times> string \<times> json) option svc" where
  "decide_voice R session v payload =
     (if \<not> vr_valid v then give (Some (error_value Error_Json, [], [], JNull))
      else do {
        error \<leftarrow> (if vr_action v \<in> {''invite'', ''accept'', ''ping''} then sql_call (CheckFriendship (cl_uid session) (vr_peer v)) else give Success);
        if error \<noteq> Success then give (Some (error_value error, [], [], JNull))
        else do {
          found \<leftarrow> (if vr_action v = ''invite''
            then do { (device, target) \<leftarrow> invite_target (vr_peer v); give (Some (device, target, JNull)) }
            else lease_target R (cl_uid session) (vr_peer v) (vr_call v));
          case found of None \<Rightarrow> give None
          | Some (device, target, lease) \<Rightarrow>
              if device = [] then give (Some (error_value (if vr_action v = ''invite'' then VoiceOffline else VoiceInvalid), device, target, lease))
              else do {
                result \<leftarrow> voice_transition R session v (vr_action v) (vr_sequence v)
                  (vr_action v \<noteq> ''camera'' \<or> index payload ''enabled'' = JBool True) device target;
                give (Some (result, device, target, lease)) } } })"

definition asDouble :: "json \<Rightarrow> rat option" where
  "asDouble v = (case v of JInt i \<Rightarrow> Some (of_int i) | JReal r \<Rightarrow> Some r | JNull \<Rightarrow> Some 0 | JBool b \<Rightarrow> Some (if b then 1 else 0) | _ \<Rightarrow> None)"

text \<open>What a successful ping adds to the reply.\<close>

definition add_pong :: "rat \<Rightarrow> int \<Rightarrow> json \<Rightarrow> json \<Rightarrow> json option" where
  "add_pong now uid lease reply = (case asInt (index lease ''a'') of None \<Rightarrow> None
     | Some a \<Rightarrow> let caller = (a = uid) in
       (case asDouble (index lease (if caller then ''tb'' else ''ta'')) of None \<Rightarrow> None
        | Some seen \<Rightarrow> Some (set_members [(''peer_idle_ms'', JInt \<lfloor>max 0 (now - seen)\<rfloor>),
            (''peer_camera_enabled'', get_default lease (if caller then ''eb'' else ''ea'') (JBool True))] reply)))"

definition voice_event :: "client \<Rightarrow> voice_request \<Rightarrow> bool \<Rightarrow> bool \<Rightarrow> json \<Rightarrow> json \<Rightarrow> json" where
  "voice_event session v picture media payload reply = set_members
     ([(''peer'', JInt (cl_uid session)), (''incoming'', JBool True)] @
      (if media then [(''seq'', JInt (vr_sequence v)), (if picture then ''image'' else ''audio'', index payload (if picture then ''image'' else ''audio''))] else []))
     reply"

definition VoiceCallService_Handle :: "runtime \<Rightarrow> MessageIds \<Rightarrow> client \<Rightarrow> string \<Rightarrow> bool svc" where
  "VoiceCallService_Handle R i session data =
     (let J = json_lib R; picture = (i = ID_VIDEO_FRAME); media = (picture \<or> i = ID_VOICE_FRAME);
          small = (length data \<le> (if picture then 9000 else 2000));
          (accepted, document) = parse J data;
          request = (if small then document else JNull);
          v = read_voice_request (cl_uid session) picture media (small \<and> accepted \<and> isObject request) request in do {
        decided \<leftarrow> decide_voice R session v request;
        case decided of None \<Rightarrow> give False
        | Some (error, device, target, lease) \<Rightarrow>
            let base = set_members [(''error'', JInt error), (''call_id'', JStr (vr_call v)), (''peer'', JInt (vr_peer v)),
                  (''action'', JStr (vr_action v)), (''video'', JBool (vr_video v))] JNull;
                success = (error = error_value Success) in
            (case (if success \<and> vr_action v = ''ping'' then add_pong (now_ms R) (cl_uid session) lease base else Some base) of
               None \<Rightarrow> give False
             | Some pong \<Rightarrow>
                 let enabled = (if vr_action v = ''camera'' \<and> isBool (index request ''enabled'')
                       then set_member ''enabled'' (index request ''enabled'') pong else pong);
                     reply = (if isObject request \<and> isString (index request ''request_id'') \<and> length (str_of (index request ''request_id'')) \<le> 64
                       then set_member ''request_id'' (index request ''request_id'') enabled else enabled) in do {
                   delivered \<leftarrow> (if success \<and> vr_action v \<noteq> ''ping''
                     then VoiceCall_Deliver J (vr_peer v) target (voice_event session v picture media request reply) (i = ID_VOICE_FRAME) picture
                     else give True);
                   final \<leftarrow> (if delivered then give error
                     else if media \<or> vr_action v = ''camera'' then give (error_value VoiceUnavailable)
                     else do {
                       voice_transition R session v ''end'' 0 True device target;
                       give (error_value VoiceOffline) });
                   if media \<and> (final = error_value Success \<or> final = error_value VoiceRateLimited \<or> final = error_value VoiceUnavailable)
                   then give True
                   else send session (toStyledString J (set_member ''error'' (JInt final) reply)) ID_VOICE_EVENT }) })"

end
