(* ===== verification/Handlers.thy ===== *)
theory Handlers
  imports SessionService VoiceService
begin

text \<open>
  The request handlers of \<^verbatim>\<open>LogicSystem.cpp\<close>. A handler gets the session's record and the body of the
  request and returns whether it ended normally; \<^term>\<open>False\<close> is an exception, which a conversion of JSON
  raises on a value of the wrong type. A handler's response goes out in a scope guard, so it is sent in both
  cases, with what the handler had filled in.
\<close>

section \<open>Answering\<close>

definition respond :: "runtime \<Rightarrow> client \<Rightarrow> json \<Rightarrow> MessageIds \<Rightarrow> json \<times> bool \<Rightarrow> bool svc" where
  "respond R session request i result = (case result of (response, ok) \<Rightarrow> do {
     send session (toStyledString (json_lib R) (EchoId request response)) i;
     give ok })"

definition failed :: "ErrorCodes \<Rightarrow> (json \<times> bool) svc" where
  "failed e = give (set_member ''error'' (err e) JNull, True)"

definition threw :: "json \<Rightarrow> (json \<times> bool) svc" where
  "threw response = give (response, False)"

text \<open>A handler whose scope guard sends the response.\<close>

definition answering :: "runtime \<Rightarrow> client \<Rightarrow> string \<Rightarrow> MessageIds \<Rightarrow> (json \<Rightarrow> (json \<times> bool) svc) \<Rightarrow> bool svc" where
  "answering R session data i body = (case ParseRequest (json_lib R) data of (ok, request) \<Rightarrow> do {
     result \<leftarrow> (if \<not> ok then failed Error_Json else body request);
     respond R session request i result })"

section \<open>Logging in\<close>

definition json_flag :: "json \<Rightarrow> string \<Rightarrow> bool" where
  "json_flag request key \<longleftrightarrow> get_default request key (JBool False) = JBool True"

text \<open>The reply to a login that fails; after an internal error the session is drained and closed.\<close>

definition refuse_login :: "runtime \<Rightarrow> client \<Rightarrow> json \<Rightarrow> json \<Rightarrow> bool svc" where
  "refuse_login R session request error = do {
     send session (toStyledString (json_lib R) (EchoId request (set_member ''error'' error JNull))) MSG_CHAT_LOGIN_RSP;
     if error = err InternalError then do { close_client (cl_id session); give True } else give True }"

definition LoginHandler :: "runtime \<Rightarrow> client \<Rightarrow> string \<Rightarrow> bool svc" where
  "LoginHandler R session data = (case ParseRequest (json_lib R) data of (ok, request) \<Rightarrow>
     if \<not> ok \<or> \<not> isInt (index request ''uid'') \<or> \<not> isString (index request ''token'') \<or> 128 < length (str_of (index request ''token'')) \<or>
        (isMember request ''device'' \<and> \<not> isString (index request ''device'')) \<or>
        (isMember request ''login_chunks'' \<and> \<not> isBool (index request ''login_chunks''))
     then refuse_login R session request (err Error_Json)
     else do {
       (if cl_uid session = 0
        then update_client (cl_id session) (\<lambda>c. c\<lparr>cl_voice := json_flag request ''voice_messages'', cl_file := json_flag request ''file_messages''\<rparr>)
        else give ());
       answer \<leftarrow> SessionService_Login R session (int_of_json (index request ''uid'')) (str_of (index request ''token''))
         (if isMember request ''device'' \<and> isString (index request ''device'') then str_of (index request ''device'') else ''desktop'');
       let response = EchoId request answer in
       if index response ''error'' \<noteq> err Success then refuse_login R session request (index response ''error'')
       else (case BuildFrames (json_lib R) response (index request ''login_chunks'' = JBool True) of
           None \<Rightarrow> refuse_login R session request (err InternalError)
         | Some bodies \<Rightarrow> each (\<lambda>body. send session body MSG_CHAT_LOGIN_RSP) bodies) })"

section \<open>Messages as JSON\<close>

definition FillChatJson :: "bool \<Rightarrow> bool \<Rightarrow> ChatMessage \<Rightarrow> json option" where
  "FillChatJson voiceMessages fileMessages m = PresentMessage voiceMessages fileMessages (set_members
     [(''message_id'', JInt (cm_message_id m)), (''thread_id'', JInt (cm_thread_id m)), (''sender'', JInt (cm_sender_id m)),
      (''recv_id'', JInt (cm_recv_id m)), (''unique_id'', JStr (cm_unique_id m)), (''content'', JStr (cm_content m)),
      (''msg_content'', JStr (cm_content m)), (''chat_time'', JStr (cm_chat_time m)), (''status'', JInt (cm_status m)),
      (''msg_type'', JInt (cm_msg_type m)), (''media_size'', JInt (int (cm_media_size m)))] JNull)"

primrec append_chats :: "ChatMessage list \<Rightarrow> json \<Rightarrow> json \<times> bool" where
  "append_chats [] response = (response, True)"
| "append_chats (m # ms) response = (case FillChatJson True True m of None \<Rightarrow> (response, False)
     | Some value \<Rightarrow> append_chats ms (set_member ''chat_datas'' (jappend (index response ''chat_datas'') value) response))"

section \<open>Avatars\<close>

definition DecodeAvatar :: "runtime \<Rightarrow> string \<Rightarrow> string option" where
  "DecodeAvatar R encoded =
     (if encoded = [] \<or> 12000 < length encoded \<or> length encoded mod 4 \<noteq> 0 then None
      else case DecodeBlock R encoded of None \<Rightarrow> None
      | Some block \<Rightarrow>
          let padding = (if last encoded = CHR ''='' then 1 else 0) + (if encoded ! (length encoded - 2) = CHR ''='' then 1 else 0);
              decoded = take (length block - padding) block in
          if length decoded \<le> 8192 \<and> 4 \<le> length decoded \<and> byte (decoded ! 0) = 255 \<and> byte (decoded ! 1) = 216 \<and>
             byte (decoded ! (length decoded - 2)) = 255 \<and> byte (last decoded) = 217
          then Some decoded else None)"

definition LogicSystem_UpdateProfile :: "runtime \<Rightarrow> client \<Rightarrow> string \<Rightarrow> bool svc" where
  "LogicSystem_UpdateProfile R session data =
     (if cl_uid session \<le> 0 then do { result \<leftarrow> failed TokenInvalid; respond R session JNull ID_UPDATE_PROFILE_RSP result }
      else answering R session data ID_UPDATE_PROFILE_RSP (\<lambda>request.
        if \<not> isString (index request ''name'') \<or> \<not> isString (index request ''nick'') \<or> \<not> isString (index request ''desc'') \<or>
           (isMember request ''avatar'' \<and> \<not> isString (index request ''avatar'')) then failed Error_Json
        else let uid = cl_uid session; name = str_of (index request ''name''); nick = str_of (index request ''nick'');
                 description = str_of (index request ''desc''); has_avatar = isMember request ''avatar'';
                 avatar = (if has_avatar then DecodeAvatar R (str_of (index request ''avatar'')) else Some []) in
          if name = [] \<or> 64 < length name \<or> 64 < length nick \<or> 255 < length description then failed Error_Json
          else case avatar of None \<Rightarrow> failed Error_Json
          | Some bytes \<Rightarrow> do {
              (error, committed) \<leftarrow> UserService_UpdateProfile uid name nick description bytes has_avatar;
              give (set_members ((''error'', err error) # (if committed then
                [(''uid'', JInt uid), (''name'', JStr name), (''nick'', JStr nick), (''desc'', JStr description),
                 (''avatar_changed'', JBool has_avatar), (''committed'', JBool True)] else [])) JNull, True) }))"

definition LogicSystem_GetAvatar :: "runtime \<Rightarrow> client \<Rightarrow> string \<Rightarrow> bool svc" where
  "LogicSystem_GetAvatar R session data =
     (if cl_uid session \<le> 0 then do { result \<leftarrow> failed TokenInvalid; respond R session JNull ID_GET_AVATAR_RSP result }
      else answering R session data ID_GET_AVATAR_RSP (\<lambda>request.
        if \<not> isInt (index request ''uid'') \<or> int_of_json (index request ''uid'') \<le> 0 then failed Error_Json
        else let uid = int_of_json (index request ''uid''); response = set_member ''uid'' (JInt uid) JNull in do {
          (ok, avatar) \<leftarrow> UserService_GetAvatar uid;
          if \<not> ok \<or> 8192 < length avatar then give (set_member ''error'' (err DatabaseError) response, True)
          else give (set_members [(''error'', err Success), (''avatar'', JStr (if avatar = [] then [] else EncodeBlock R avatar))] response, True) }))"

section \<open>Looking users up\<close>

definition IsPureDigit :: "string \<Rightarrow> bool" where
  "IsPureDigit text \<longleftrightarrow> text \<noteq> [] \<and> list_all isdigit text"

definition found_user :: "runtime \<Rightarrow> UserInfo option \<Rightarrow> json" where
  "found_user R user = (case user of None \<Rightarrow> set_member ''error'' (err UidInvalid) JNull
     | Some u \<Rightarrow> WriteProfile (json_lib R) u (set_member ''error'' (err Success) JNull))"

definition GetUserByUid :: "runtime \<Rightarrow> string \<Rightarrow> json svc" where
  "GetUserByUid R uid_text = (case stoi uid_text of None \<Rightarrow> give (found_user R None)
     | Some (uid, _) \<Rightarrow> do { user \<leftarrow> GetById (json_lib R) uid; give (found_user R user) })"

definition LogicSystem_GetUserByName :: "runtime \<Rightarrow> string \<Rightarrow> json svc" where
  "LogicSystem_GetUserByName R name = do { user \<leftarrow> GetByName (json_lib R) name; give (found_user R user) }"

definition SearchInfo :: "runtime \<Rightarrow> client \<Rightarrow> string \<Rightarrow> bool svc" where
  "SearchInfo R session data = answering R session data ID_SEARCH_USER_RSP (\<lambda>request.
     let value = index request ''uid'' in
     if isNull value then failed Error_Json
     else case (if isString value then Some (str_of value) else map_option to_string (asInt value)) of
       None \<Rightarrow> threw JNull
     | Some query \<Rightarrow> do {
         response \<leftarrow> (if IsPureDigit query then GetUserByUid R query else LogicSystem_GetUserByName R query);
         give (response, True) })"

section \<open>Contacts\<close>

definition LogicSystem_AddFriendApply :: "runtime \<Rightarrow> client \<Rightarrow> string \<Rightarrow> bool svc" where
  "LogicSystem_AddFriendApply R session data = answering R session data ID_ADD_FRIEND_RSP (\<lambda>request.
     if \<not> isInt (index request ''uid'') \<or> \<not> isInt (index request ''touid'') then failed Error_Json
     else let uid = int_of_json (index request ''uid''); to_uid = int_of_json (index request ''touid'') in
       case asString (json_lib R) (get_default request ''applyname'' (JStr [])) of None \<Rightarrow> threw JNull
       | Some description \<Rightarrow>
       (case asString (json_lib R) (get_default request ''bakname'' (JStr [])) of None \<Rightarrow> threw JNull
        | Some remark \<Rightarrow>
        (case NormalizeContactTags (get_default request ''tags'' (JArr [])) of (valid, tags) \<Rightarrow>
           if uid \<noteq> cl_uid session \<or> \<not> valid then failed Error_Json
           else do { error \<leftarrow> Apply (json_lib R) uid to_uid description remark tags; failed error })))"

definition accepted_reply :: "runtime \<Rightarrow> int \<Rightarrow> UserInfo option \<Rightarrow> json" where
  "accepted_reply R to_uid user =
     (let response = set_members [(''error'', err Success), (''uid'', JInt to_uid)] JNull in
      case user of None \<Rightarrow> response | Some u \<Rightarrow> WriteProfile (json_lib R) u response)"

definition LogicSystem_AuthFriendApply :: "runtime \<Rightarrow> client \<Rightarrow> string \<Rightarrow> bool svc" where
  "LogicSystem_AuthFriendApply R session data = answering R session data ID_AUTH_FRIEND_RSP (\<lambda>request.
     if \<not> isInt (index request ''fromuid'') \<or> \<not> isInt (index request ''touid'') then failed Error_Json
     else let from_uid = int_of_json (index request ''fromuid''); to_uid = int_of_json (index request ''touid'') in
       if from_uid \<le> 0 \<or> from_uid \<noteq> cl_uid session \<or> to_uid \<le> 0 \<or> from_uid = to_uid then failed UidInvalid
       else case NormalizeContactTags (get_default request ''tags'' (JArr [])) of (valid, tags) \<Rightarrow>
         if \<not> valid then failed Error_Json
         else case asString (json_lib R) (get_default request ''back'' (JStr [])) of None \<Rightarrow> threw JNull
         | Some back \<Rightarrow> do {
             (accepted, initial) \<leftarrow> Accept (json_lib R) from_uid to_uid back tags;
             if \<not> accepted then failed DatabaseError
             else do {
               user \<leftarrow> GetById (json_lib R) to_uid;
               let response = accepted_reply R to_uid user;
               if initial = [] then do {
                 (code, persisted_back, persisted_tags) \<leftarrow> sql_call (GetFriendMetadata from_uid to_uid ([], []));
                 if code \<noteq> Success then give (set_member ''error'' (err code) response, True)
                 else give (set_members [(''back'', JStr persisted_back), (''tags'', ParseContactTags (json_lib R) persisted_tags)] response, True) }
               else (case append_chats (map (\<lambda>m. if cm_chat_time m = [] then m\<lparr>cm_chat_time := timestamp R\<rparr> else m) initial)
                   (set_members [(''back'', get_default request ''back'' (JStr [])), (''tags'', tags)] response) of (filled, ok) \<Rightarrow>
                 if \<not> ok then threw filled
                 else do { NotifyAcceptance (json_lib R) from_uid to_uid filled; give (filled, True) }) } })"

text \<open>This handler parses by itself: its request need not have a valid request id.\<close>

definition LogicSystem_DeleteFriend :: "runtime \<Rightarrow> client \<Rightarrow> string \<Rightarrow> bool svc" where
  "LogicSystem_DeleteFriend R session data = (case parse (json_lib R) data of (ok, request) \<Rightarrow> do {
     result \<leftarrow> (if \<not> ok \<or> \<not> isObject request \<or> \<not> isInt (index request ''friend_uid'') then failed Error_Json
       else let friend_uid = int_of_json (index request ''friend_uid'') in do {
         error \<leftarrow> Delete (json_lib R) (cl_uid session) friend_uid;
         give (set_members [(''error'', err error), (''friend_uid'', JInt friend_uid)] JNull, True) });
     respond R session request ID_DELETE_FRIEND_RSP result })"

definition LogicSystem_SetContactTags :: "runtime \<Rightarrow> client \<Rightarrow> string \<Rightarrow> bool svc" where
  "LogicSystem_SetContactTags R session data = answering R session data ID_SET_CONTACT_TAGS_RSP (\<lambda>request.
     let response = set_member ''request_id'' (get_default request ''request_id'' (JStr [])) JNull in
     case NormalizeContactTags (index request ''tags'') of (valid, tags) \<Rightarrow>
     if \<not> isInt (index request ''friend_uid'') \<or> \<not> valid \<or> (isMember request ''back'' \<and> \<not> ValidContactRemark (index request ''back''))
     then give (set_member ''error'' (err Error_Json) response, True)
     else do {
       (code, normalized) \<leftarrow> SetTags (json_lib R) (cl_uid session) (int_of_json (index request ''friend_uid'')) (index request ''tags'') tags
         (get_default request ''back'' JNull);
       give (set_members ([(''friend_uid'', index request ''friend_uid''), (''error'', err code)] @
         (if code = Success then (''tags'', normalized) # (if isMember request ''back'' then [(''back'', index request ''back'')] else []) else [])) response,
         True) })"

section \<open>Sending messages\<close>

datatype items_result = Threw | Refused | Items "ChatMessage list"

text \<open>One element of \<^verbatim>\<open>text_array\<close>: skipped, refused, an exception or a message.\<close>

definition read_item :: "runtime \<Rightarrow> client \<Rightarrow> int \<Rightarrow> int \<Rightarrow> int \<Rightarrow> json \<Rightarrow> items_result" where
  "read_item R session from_uid to_uid thread_id item = (case index_const item ''content'' of None \<Rightarrow> Threw
     | Some content \<Rightarrow>
         if \<not> isString content then Items []
         else case asString (json_lib R) (get_default item ''unique_id'' (get_default item ''msgid'' (JStr []))) of None \<Rightarrow> Threw
         | Some unique_id \<Rightarrow>
         (case asInt (get_default item ''msg_type'' (JInt 0)) of None \<Rightarrow> Threw
          | Some msg_type \<Rightarrow>
              if (msg_type = 3 \<and> \<not> cl_voice session) \<or> (msg_type = 2 \<and> \<not> cl_file session) then Refused
              else Items [\<lparr>cm_message_id = 0, cm_thread_id = thread_id, cm_sender_id = from_uid,
                cm_recv_id = (if to_uid = 0 then from_uid else to_uid), cm_unique_id = unique_id, cm_content = str_of content,
                cm_chat_time = timestamp R, cm_status = 2, cm_msg_type = msg_type, cm_media_size = 0\<rparr>]))"

primrec read_items :: "runtime \<Rightarrow> client \<Rightarrow> int \<Rightarrow> int \<Rightarrow> int \<Rightarrow> json list \<Rightarrow> items_result" where
  "read_items R session from_uid to_uid thread_id [] = Items []"
| "read_items R session from_uid to_uid thread_id (item # items) = (case read_item R session from_uid to_uid thread_id item of
     Items ms \<Rightarrow> (case read_items R session from_uid to_uid thread_id items of Items rest \<Rightarrow> Items (ms @ rest) | r \<Rightarrow> r)
   | r \<Rightarrow> r)"

text \<open>The group that a notification carries: without its members, with the sender's name.\<close>

definition group_notice :: "int \<Rightarrow> json \<Rightarrow> json" where
  "group_notice from_uid g = fold (\<lambda>member v. if int_of_json (index member ''uid'') = from_uid
       then set_member ''member_names'' (set_member (to_string from_uid) (index member ''name'') (index v ''member_names'')) v else v)
     (elements (index g ''members'')) (removeMember ''members'' g)"

definition deliver_group :: "runtime \<Rightarrow> int \<Rightarrow> int \<Rightarrow> ChatMessage list \<Rightarrow> json \<Rightarrow> (json \<times> bool) svc" where
  "deliver_group R from_uid thread_id messages response = do {
     (code, g) \<leftarrow> sql_call (GetGroup from_uid thread_id JNull True);
     if code \<noteq> Success then give (response, True)
     else let notice = set_member ''group'' (group_notice from_uid g) response in do {
       ok \<leftarrow> each (\<lambda>member. let recipient = int_of_json (index member ''uid'') in
         if recipient \<noteq> from_uid then Deliver (json_lib R) from_uid recipient thread_id messages notice else give True)
         (elements (index g ''members''));
       give (notice, ok) } }"

definition DealChatTextMsg :: "runtime \<Rightarrow> client \<Rightarrow> string \<Rightarrow> bool svc" where
  "DealChatTextMsg R session data = (case ParseRequest (json_lib R) data of (ok, request) \<Rightarrow>
     let reply = respond R session request ID_TEXT_CHAT_MSG_RSP; fail = (\<lambda>e response. reply (set_member ''error'' (err e) response, True)) in
     if \<not> ok \<or> \<not> isInt (index request ''fromuid'') \<or> \<not> isInt (index request ''touid'') \<or> \<not> isInt (index request ''thread_id'') \<or>
        \<not> isArray (index request ''text_array'') then fail Error_Json JNull
     else let from_uid = int_of_json (index request ''fromuid''); to_uid = int_of_json (index request ''touid'');
              thread_id = int_of_json (index request ''thread_id'') in
       if from_uid \<le> 0 \<or> from_uid \<noteq> cl_uid session \<or> to_uid < 0 \<or> to_uid = from_uid \<or> thread_id \<le> 0 then fail UidInvalid JNull
       else let response = set_members [(''fromuid'', JInt from_uid), (''touid'', JInt to_uid), (''thread_id'', JInt thread_id)] JNull in
         case read_items R session from_uid to_uid thread_id (elements (index request ''text_array'')) of
           Threw \<Rightarrow> reply (response, False)
         | Refused \<Rightarrow> fail Error_Json response
         | Items messages \<Rightarrow> do {
             stored \<leftarrow> Store from_uid (map Some messages);
             case stored of Inl e \<Rightarrow> fail e response
             | Inr ms \<Rightarrow> (case append_chats ms (set_member ''error'' (err Success) response) of (filled, fill_ok) \<Rightarrow>
                 if \<not> fill_ok then reply (filled, False)
                 else if to_uid = 0 then do {
                   reply (filled, True);
                   (notice, sent) \<leftarrow> deliver_group R from_uid thread_id ms (EchoId request filled);
                   if sent then Deliver (json_lib R) from_uid from_uid thread_id ms notice else give False }
                 else do {
                   sent \<leftarrow> Deliver (json_lib R) from_uid to_uid thread_id ms filled;
                   own \<leftarrow> (if sent then Deliver (json_lib R) from_uid from_uid thread_id ms filled else give False);
                   reply (filled, own) }) })"

section \<open>Heartbeats\<close>

definition HeartBeatHandler :: "runtime \<Rightarrow> client \<Rightarrow> string \<Rightarrow> bool svc" where
  "HeartBeatHandler R session data = (case ParseRequest (json_lib R) data of (valid, request) \<Rightarrow>
     if \<not> valid then respond R session request ID_HEARTBEAT_RSP (set_member ''error'' (err Error_Json) JNull, True)
     else do {
       response \<leftarrow> Heartbeat R session
         (if isInt (index request ''friend_snapshot_id'') then Some (int_of_json (index request ''friend_snapshot_id'')) else None);
       let echoed = EchoId request response;
       send session (toStyledString (json_lib R)
         (if MAX_LENGTH \<le> length (toStyledString (json_lib R) echoed) then removeMember ''friend_ids'' echoed else echoed)) ID_HEARTBEAT_RSP })"

section \<open>Threads and histories\<close>

definition thread_json :: "ChatThreadInfo \<Rightarrow> json" where
  "thread_json t = set_members [(''thread_id'', JInt (ct_thread_id t)), (''type'', JStr (ct_type t)), (''user1_id'', JInt (ct_user1_id t)),
     (''user2_id'', JInt (ct_user2_id t)), (''last_message_id'', JInt (ct_last_message_id t)), (''last_chat_time'', JStr (ct_last_chat_time t))] JNull"

primrec add_threads :: "int \<Rightarrow> ChatThreadInfo list \<Rightarrow> json \<Rightarrow> json svc" where
  "add_threads uid [] response = give response"
| "add_threads uid (t # ts) response = do {
     entry \<leftarrow> (if ct_type t = ''group'' then do {
         (code, g) \<leftarrow> sql_call (GetGroup uid (ct_thread_id t) JNull False);
         give (if code = Success then Some (set_member ''group'' g (thread_json t)) else None) }
       else give (Some (thread_json t)));
     add_threads uid ts (case entry of None \<Rightarrow> response
       | Some value \<Rightarrow> set_member ''threads'' (jappend (index response ''threads'') value) response) }"

definition GetUserThreadsHandler :: "runtime \<Rightarrow> client \<Rightarrow> string \<Rightarrow> bool svc" where
  "GetUserThreadsHandler R session data = answering R session data ID_LOAD_CHAT_THREAD_RSP (\<lambda>request.
     if \<not> isInt (index request ''uid'') then failed Error_Json
     else let uid = int_of_json (index request ''uid'') in
       case asInt (get_default request ''thread_id'' (JInt 0)) of None \<Rightarrow> threw JNull
       | Some last_id \<Rightarrow>
           if uid \<le> 0 \<or> uid \<noteq> cl_uid session then failed UidInvalid
           else do {
             listed \<leftarrow> ListThreads uid last_id 10;
             case listed of None \<Rightarrow> failed UidInvalid
             | Some (threads, load_more, next_last_id) \<Rightarrow> do {
                 response \<leftarrow> add_threads uid threads (set_members
                   [(''error'', err Success), (''uid'', JInt uid), (''load_more'', JBool load_more), (''next_last_id'', JInt next_last_id)] JNull);
                 give (response, True) } })"

definition LogicSystem_CreatePrivateChat :: "runtime \<Rightarrow> client \<Rightarrow> string \<Rightarrow> bool svc" where
  "LogicSystem_CreatePrivateChat R session data = answering R session data ID_CREATE_PRIVATE_CHAT_RSP (\<lambda>request.
     if \<not> isInt (index request ''uid'') \<or> \<not> isInt (index request ''other_id'') then failed Error_Json
     else let uid = int_of_json (index request ''uid''); other_uid = int_of_json (index request ''other_id'');
              response = set_members [(''uid'', JInt uid), (''other_id'', JInt other_uid)] JNull in
       if uid \<le> 0 \<or> uid \<noteq> cl_uid session then give (set_member ''error'' (err UidInvalid) response, True)
       else do {
         (code, thread_id) \<leftarrow> CreatePrivate uid other_uid;
         give (set_members ((''error'', err code) # (if code = Success then [(''thread_id'', JInt thread_id)] else [])) response, True) })"

text \<open>Messages are added to the reply while it fits a frame.\<close>

fun pack_page :: "runtime \<Rightarrow> client \<Rightarrow> ChatMessage list \<Rightarrow> json \<Rightarrow> json \<times> bool" where
  "pack_page R session [] response = (response, True)"
| "pack_page R session (m # ms) response = (case FillChatJson (cl_voice session) (cl_file session) m of None \<Rightarrow> (response, False)
     | Some value \<Rightarrow>
         let candidate = set_members [(''chat_datas'', jappend (index response ''chat_datas'') value), (''last_message_id'', JInt (cm_message_id m))] response in
         if MAX_LENGTH - 16 < length (toStyledString (json_lib R) candidate) then
           (if jempty (index response ''chat_datas'') then set_members [(''error'', err LoadChatFailed), (''load_more'', JBool False)] response
            else set_member ''load_more'' (JBool True) response, True)
         else pack_page R session ms candidate)"

definition LogicSystem_LoadChatMsg :: "runtime \<Rightarrow> client \<Rightarrow> string \<Rightarrow> bool svc" where
  "LogicSystem_LoadChatMsg R session data = answering R session data ID_LOAD_CHAT_MSG_RSP (\<lambda>request.
     if \<not> isInt (index request ''thread_id'') then failed Error_Json
     else let thread_id = int_of_json (index request ''thread_id'') in
       case asInt (get_default request ''message_id'' (JInt 0)) of None \<Rightarrow> threw JNull
       | Some message_id \<Rightarrow>
           let response = set_member ''thread_id'' (JInt thread_id) (EchoId request JNull) in do {
             loaded \<leftarrow> Load (cl_uid session) thread_id message_id;
             give (case loaded of Inl e \<Rightarrow> (set_member ''error'' (err e) response, True)
               | Inr page \<Rightarrow> pack_page R session (pr_messages page) (set_members
                   [(''error'', err Success), (''thread_id'', JInt thread_id), (''last_message_id'', JInt message_id),
                    (''load_more'', JBool (pr_load_more page)), (''chat_datas'', JArr [])] response)) })"

section \<open>Groups\<close>

definition GroupRequest :: "runtime \<Rightarrow> client \<Rightarrow> string \<Rightarrow> bool svc" where
  "GroupRequest R session data = (case ParseRequest (json_lib R) data of (ok, request) \<Rightarrow> do {
     response \<leftarrow> (if \<not> ok then give (set_member ''error'' (err Error_Json) JNull)
       else do {
         (code, doc) \<leftarrow> sql_call (ChangeGroup (json_lib R) (cl_uid session) request JNull);
         give (set_members [(''error'', err code), (''op'', get_default request ''op'' (JStr [])), (''group'', doc)] JNull) });
     send session (writeString (json_lib R) (EchoId request response)) ID_GROUP_RSP })"

section \<open>Dispatching\<close>

definition callbacks :: "runtime \<Rightarrow> MessageIds \<Rightarrow> (client \<Rightarrow> string \<Rightarrow> bool svc) option" where
  "callbacks R i = (case i of
       ID_VOICE_REQ \<Rightarrow> Some (VoiceCallService_Handle R ID_VOICE_REQ)
     | ID_VOICE_FRAME \<Rightarrow> Some (VoiceCallService_Handle R ID_VOICE_FRAME)
     | ID_VIDEO_FRAME \<Rightarrow> Some (VoiceCallService_Handle R ID_VIDEO_FRAME)
     | ID_GROUP_REQ \<Rightarrow> Some (GroupRequest R)
     | MSG_CHAT_LOGIN \<Rightarrow> Some (LoginHandler R)
     | ID_SEARCH_USER_REQ \<Rightarrow> Some (SearchInfo R)
     | ID_SET_CONTACT_TAGS_REQ \<Rightarrow> Some (LogicSystem_SetContactTags R)
     | ID_ADD_FRIEND_REQ \<Rightarrow> Some (LogicSystem_AddFriendApply R)
     | ID_AUTH_FRIEND_REQ \<Rightarrow> Some (LogicSystem_AuthFriendApply R)
     | ID_TEXT_CHAT_MSG_REQ \<Rightarrow> Some (DealChatTextMsg R)
     | ID_HEART_BEAT_REQ \<Rightarrow> Some (HeartBeatHandler R)
     | ID_LOAD_CHAT_THREAD_REQ \<Rightarrow> Some (GetUserThreadsHandler R)
     | ID_CREATE_PRIVATE_CHAT_REQ \<Rightarrow> Some (LogicSystem_CreatePrivateChat R)
     | ID_LOAD_CHAT_MSG_REQ \<Rightarrow> Some (LogicSystem_LoadChatMsg R)
     | ID_UPDATE_PROFILE_REQ \<Rightarrow> Some (LogicSystem_UpdateProfile R)
     | ID_GET_AVATAR_REQ \<Rightarrow> Some (LogicSystem_GetAvatar R)
     | ID_DELETE_FRIEND_REQ \<Rightarrow> Some (LogicSystem_DeleteFriend R)
     | _ \<Rightarrow> None)"

definition message_ids :: "MessageIds list" where
  "message_ids = [MSG_CHAT_LOGIN, MSG_CHAT_LOGIN_RSP, ID_SEARCH_USER_REQ, ID_SEARCH_USER_RSP, ID_ADD_FRIEND_REQ, ID_ADD_FRIEND_RSP,
     ID_NOTIFY_ADD_FRIEND_REQ, ID_AUTH_FRIEND_REQ, ID_AUTH_FRIEND_RSP, ID_NOTIFY_AUTH_FRIEND_REQ, ID_TEXT_CHAT_MSG_REQ, ID_TEXT_CHAT_MSG_RSP,
     ID_NOTIFY_TEXT_CHAT_MSG_REQ, ID_NOTIFY_OFF_LINE_REQ, ID_HEART_BEAT_REQ, ID_HEARTBEAT_RSP, ID_LOAD_CHAT_THREAD_REQ, ID_LOAD_CHAT_THREAD_RSP,
     ID_CREATE_PRIVATE_CHAT_REQ, ID_CREATE_PRIVATE_CHAT_RSP, ID_LOAD_CHAT_MSG_REQ, ID_LOAD_CHAT_MSG_RSP, ID_UPDATE_PROFILE_REQ, ID_UPDATE_PROFILE_RSP,
     ID_GET_AVATAR_REQ, ID_GET_AVATAR_RSP, ID_DELETE_FRIEND_REQ, ID_DELETE_FRIEND_RSP, ID_NOTIFY_DELETE_FRIEND, ID_SET_CONTACT_TAGS_REQ,
     ID_SET_CONTACT_TAGS_RSP, ID_GROUP_REQ, ID_GROUP_RSP, ID_VOICE_REQ, ID_VOICE_EVENT, ID_VOICE_FRAME, ID_VOICE_AUDIO, ID_VIDEO_FRAME, ID_VIDEO_IMAGE]"

text \<open>The message's session is looked up in the node, as the message holds a reference to it.\<close>

definition HandleMessage :: "runtime \<Rightarrow> string \<Rightarrow> int \<Rightarrow> string \<Rightarrow> unit svc" where
  "HandleMessage R session_id message_id data = do {
     owner \<leftarrow> reads (\<lambda>n. clients n session_id);
     case owner of None \<Rightarrow> give ()
     | Some session \<Rightarrow>
         if cl_closed session then give ()
         else case Option.bind (find (\<lambda>i. message_id_value i = message_id) message_ids) (callbacks R) of
           None \<Rightarrow> give ()
         | Some callback \<Rightarrow>
             if message_id \<noteq> message_id_value MSG_CHAT_LOGIN \<and> cl_uid session \<le> 0 then
               (case ParseRequest (json_lib R) data of (ok, request) \<Rightarrow>
                  let response = set_member ''error'' (err TokenInvalid) JNull in do {
                    emit (Sent (cl_id session) (message_id + 1)
                      (toStyledString (json_lib R) (if ok then EchoId request response else response)));
                    give () })
             else do {
               ok \<leftarrow> callback session data;
               if ok then give () else close_client session_id } }"

end
