(* ===== verification/Authority.thy ===== *)
theory Authority
  imports StorageFacts Handlers
begin

text \<open>
  Whose rows a request may touch: every handler changes the database only on behalf of the user its session is bound
  to. The relation is shown for each writing call of the data access layer, closed under sequences of
  calls, and so holds for every handler.
\<close>

lemma err_inj [simp]: "err a = err b \<longleftrightarrow> a = b"
  by (simp add: err_def)

section \<open>Rows of a user\<close>

definition acts_for :: "int \<Rightarrow> tables \<Rightarrow> tables \<Rightarrow> bool" where
  "acts_for uid t t' \<longleftrightarrow>
     (\<exists>new. messages_t t' = messages_t t @ new \<and> (\<forall>m\<in>set new. ms_sender m = uid \<or> ms_recv m = uid)) \<and>
     (\<forall>r. fr_self r \<noteq> uid \<and> fr_friend r \<noteq> uid \<longrightarrow> (r \<in> set (friends_t t') \<longleftrightarrow> r \<in> set (friends_t t))) \<and>
     (\<forall>r. ap_from r \<noteq> uid \<and> ap_to r \<noteq> uid \<longrightarrow> (r \<in> set (applies_t t') \<longleftrightarrow> r \<in> set (applies_t t))) \<and>
     (\<forall>r. u_id r \<noteq> uid \<longrightarrow> (r \<in> set (users_t t') \<longleftrightarrow> r \<in> set (users_t t))) \<and>
     (\<forall>i. group_view t i \<noteq> None \<and> \<not> is_member t i uid \<longrightarrow> group_view t' i = group_view t i)"

lemma acts_refl [simp]: "acts_for uid t t"
  by (simp add: acts_for_def)

lemma acts_trans:
  assumes "acts_for uid t t'" "acts_for uid t' t''"
  shows "acts_for uid t t''"
proof -
  have view: "group_view t'' i = group_view t i" if i: "group_view t i \<noteq> None" "\<not> is_member t i uid" for i
  proof -
    have "group_view t' i = group_view t i" using assms(1) i unfolding acts_for_def by blast
    moreover have "\<not> is_member t' i uid"
      using i calculation by (cases "group_view t i") (auto simp: group_view_def)
    ultimately show ?thesis using assms(2) i unfolding acts_for_def by metis
  qed
  obtain n1 where n1: "messages_t t' = messages_t t @ n1" "\<forall>m\<in>set n1. ms_sender m = uid \<or> ms_recv m = uid"
    using assms(1) unfolding acts_for_def by blast
  obtain n2 where n2: "messages_t t'' = messages_t t' @ n2" "\<forall>m\<in>set n2. ms_sender m = uid \<or> ms_recv m = uid"
    using assms(2) unfolding acts_for_def by blast
  have "\<exists>new. messages_t t'' = messages_t t @ new \<and> (\<forall>m\<in>set new. ms_sender m = uid \<or> ms_recv m = uid)"
    using n1 n2 by (intro exI [of _ "n1 @ n2"]) auto
  then show ?thesis using assms view unfolding acts_for_def by (intro conjI) simp_all
qed

lemma acts_same:
  assumes "messages_t t' = messages_t t" "friends_t t' = friends_t t" "applies_t t' = applies_t t" "users_t t' = users_t t"
    "groups_t t' = groups_t t" "members_t t' = members_t t"
  shows "acts_for uid t t'"
  using assms by (simp add: acts_for_def group_view_def find_group_def is_member_def)

section \<open>Calls\<close>

lemma acts_connection:
  assumes "saved c = None" "\<And>c1. db c1 = db c \<Longrightarrow> saved c1 = None \<Longrightarrow> acts_for uid (tbl c) (tbl (snd (m c1)))"
  shows "acts_for uid (tbl c) (tbl (snd (with_connection x m c)))"
proof -
  obtain r c' where r: "with_connection x m c = (r, c')" by force
  then show ?thesis
  proof (cases rule: with_connection_cases)
    case (connected c1)
    then show ?thesis using assms(2) [of c1] assms(1) by (simp add: r)
  qed (use r in simp)
qed

lemma acts_contact:
  assumes "framed work" "saved c = None" "\<And>c1 x c2. tbl c1 = tbl c \<Longrightarrow> gives work (begun c1) (True, x) c2 \<Longrightarrow> acts_for uid (tbl c) (tbl c2)"
  shows "acts_for uid (tbl c) (tbl (snd (RunContactTransaction work c)))"
proof -
  obtain r c' where r: "RunContactTransaction work c = (r, c')" by force
  from r [unfolded RunContactTransaction_def] assms(1,2) show ?thesis
    by (cases rule: contact_attempts_cases) (use r assms(3) in auto)
qed

lemma acts_transaction:
  assumes "framed work" "saved c = None" "\<And>c1 x c2. db c1 = db c \<Longrightarrow> gives work (begun c1) (True, x) c2 \<Longrightarrow> acts_for uid (tbl c) (tbl c2)"
  shows "acts_for uid (tbl c) (tbl (snd (transaction work c)))"
proof -
  obtain r c' where r: "transaction work c = (r, c')" by force
  from r assms(1,2) show ?thesis
    by (cases rule: transaction_cases) (use r assms(3) in auto)
qed

lemma acts_unchanged: "unchanged_by c c' \<Longrightarrow> acts_for uid (tbl c) (tbl c')"
  by (simp add: unchanged_by_def)

lemma acts_AddFriendApply:
  assumes "saved c = None"
  shows "acts_for uid (tbl c) (tbl (snd (AddFriendApply uid b x y z c)))"
proof -
  have up: "acts_for uid (tbl e) (tbl e')" if g: "gives (upsert_apply uid b x y z) e u e'" for e u e'
  proof -
    note s = gives_statement [OF g [unfolded upsert_apply_def]]
    obtain A where A: "tbl e' = (tbl e)\<lparr>applies_t := A\<rparr>" "\<forall>r. ap_from r \<noteq> uid \<longrightarrow> (r \<in> set A \<longleftrightarrow> r \<in> set (applies_t (tbl e)))"
    proof (cases "find_apply (tbl e) uid b = None")
      case True
      then show thesis using s by (intro that [of "applies_t (tbl e')"]) (auto simp: Let_def split: if_splits)
    next
      case False
      then show thesis using s by (intro that [of "applies_t (tbl e')"]) (force simp: Let_def split: if_splits)+
    qed
    then show ?thesis by (simp add: acts_for_def group_view_def find_group_def is_member_def)
  qed
  have "acts_for uid (tbl e) (tbl (snd (RunContactTransaction (apply_operation uid b x y z) e)))" if "saved e = None" for e
  proof (rule acts_contact [OF framed_contact_operations(1) that])
    fix c1 v c2
    assume t: "tbl c1 = tbl e" and g: "gives (apply_operation uid b x y z) (begun c1) (True, v) c2"
    have "db c2 = db c1 \<or> (\<exists>f u. db f = db c1 \<and> gives (upsert_apply uid b x y z) f u c2)"
      using g unfolding apply_operation_def Let_def
      by (auto split: if_splits prod.splits dest!: gives_LockApplications(2) gives_LockFriends(2))
    then show "acts_for uid (tbl e) (tbl c2)" using up t by (metis acts_refl)
  qed
  then show ?thesis using assms
    by (auto simp: AddFriendApply_def split_beta split: option.split intro!: acts_connection) metis+
qed

lemma acts_AddFriend:
  assumes "saved c = None" "database_ok (db c)"
  shows "acts_for uid (tbl c) (tbl (snd (AddFriend uid b x y c)))"
proof (cases "bad_pair uid b")
  case False
  then have ne: "uid \<noteq> b" by (simp add: bad_pair_def)
  let ?m = "min uid b" and ?M = "max uid b"
  have acc: "\<forall>r. ap_from r \<noteq> uid \<and> ap_to r \<noteq> uid \<longrightarrow> (r \<in> set (accept_pair ?m ?M rs) \<longleftrightarrow> r \<in> set rs)" for rs
    unfolding accept_pair_def accept_row_def using ne by (force simp: min_def max_def)
  have fr: "\<forall>r\<in>set (friend_pair t ?m ?M bk tags). fr_self r = uid \<or> fr_friend r = uid" for t bk tags
    by (auto simp: friend_pair_def min_def max_def)
  have op: "acts_for uid (tbl e) (tbl e')" if g: "gives (befriend_operation uid b x y) e (True, ms) e'" and t: "tbl e = tbl c" for e ms e'
    using g ne
  proof (cases rule: gives_befriend)
    case again
    then show ?thesis using acc by (simp add: acts_for_def group_view_def find_group_def is_member_def)
  next
    case (fresh i c1 c2)
    have nz: "\<forall>r\<in>set (privates_t (tbl c1)). pc_thread r \<noteq> 0"
      using fresh(5) private_not_zero [of "next_thread (db c)" "tbl c"] assms(2) t by (simp add: database_ok_def)
    have c2: "messages_t (tbl c2) = messages_t (tbl e)" "friends_t (tbl c2) = friends_t (tbl c1)" "applies_t (tbl c2) = applies_t (tbl c1)"
      "users_t (tbl c2) = users_t (tbl e)" "groups_t (tbl c2) = groups_t (tbl e)" "members_t (tbl c2) = members_t (tbl e)"
      using fresh(6) nz fresh(5) by (cases rule: gives_private_thread, simp_all)+
    then show ?thesis using fresh(5,7) acc fr
      by (simp add: acts_for_def group_view_def find_group_def is_member_def initial_row_def) blast
  qed
  have "acts_for uid (tbl c) (tbl (snd (RunContactTransaction (befriend_operation uid b x y) e)))" if "saved e = None" "db e = db c" for e
  proof -
    have "acts_for uid (tbl e) (tbl (snd (RunContactTransaction (befriend_operation uid b x y) e)))"
    proof (rule acts_contact [OF framed_contact_operations(3) that(1)])
      fix c1 v c2
      assume "tbl c1 = tbl e" "gives (befriend_operation uid b x y) (begun c1) (True, v) c2"
      then show "acts_for uid (tbl e) (tbl c2)" using op [of "begun c1" v c2] that(2) by simp
    qed
    then show ?thesis using that(2) by simp
  qed
  then show ?thesis using assms(1) False
    by (auto simp: AddFriend_def split_beta split: option.split intro!: acts_connection)
qed (simp add: AddFriend_def)

lemma acts_DeleteFriend:
  assumes "saved c = None"
  shows "acts_for uid (tbl c) (tbl (snd (DeleteFriend uid b c)))"
proof -
  have op: "acts_for uid (tbl c1) (tbl c2)" if g: "gives (delete_operation uid b) (begun c1) (True, v) c2" for c1 v c2
  proof -
    let ?a = "min uid b" and ?b = "max uid b"
    from g obtain e2 u1 e3 u2 e4 u3 e5 u4 where s: "db e2 = db c1" "gives (delete_apply ?a ?b) e2 u1 e3" "gives (delete_apply ?b ?a) e3 u2 e4"
      "gives (delete_friend ?a ?b) e4 u3 e5" "gives (delete_friend ?b ?a) e5 u4 c2"
      unfolding delete_operation_def Let_def by (auto dest!: gives_LockApplications(2) gives_LockFriends(2))
    note d = gives_statement [OF s(2) [unfolded delete_apply_def]] gives_statement [OF s(3) [unfolded delete_apply_def]]
      gives_statement [OF s(4) [unfolded delete_friend_def]] gives_statement [OF s(5) [unfolded delete_friend_def]]
    show ?thesis using d s(1)
      by (auto simp: acts_for_def group_view_def find_group_def is_member_def min_def max_def)
  qed
  have "acts_for uid (tbl e) (tbl (snd (RunContactTransaction (delete_operation uid b) e)))" if "saved e = None" for e
  proof (rule acts_contact [OF framed_contact_operations(4) that])
    show "tbl c1 = tbl e \<Longrightarrow> gives (delete_operation uid b) (begun c1) (True, v) c2 \<Longrightarrow> acts_for uid (tbl e) (tbl c2)" for c1 v c2
      using op [of c1 v c2] by simp
  qed
  then show ?thesis using assms by (auto simp: DeleteFriend_def split_beta intro!: acts_connection) metis+
qed

lemma acts_SetContactTags:
  assumes "saved c = None"
  shows "acts_for uid (tbl c) (tbl (snd (SetContactTags uid b tags remark c)))"
proof -
  let ?work = "sql_bind (select (\<lambda>d. are_friends (rows d) uid b)) (\<lambda>found.
       if \<not> found then sql_return (False, FriendNotFound)
       else sql_then (update_friend uid b tags remark) (sql_return (True, Success)))"
  have "acts_for uid (tbl e) (tbl (snd (transaction ?work e)))" if "saved e = None" for e
  proof (rule acts_transaction [OF _ that])
    show "framed ?work" by (intro framed_rules)
    fix c1 v c2
    assume d1: "db c1 = db e" and g: "gives ?work (begun c1) (True, v) c2"
    then obtain f u where f: "db f = db c1" "gives (update_friend uid b tags remark) f u c2"
      by (auto dest!: gives_select split: if_splits)
    show "acts_for uid (tbl e) (tbl c2)"
      using gives_statement [OF f(2) [unfolded update_friend_def]] f(1) d1
      by (force simp: acts_for_def group_view_def find_group_def is_member_def)
  qed
  then show ?thesis using assms by (auto simp: SetContactTags_def keeps_catch intro!: acts_connection) metis+
qed

lemma acts_CreatePrivateChat:
  assumes "saved c = None"
  shows "acts_for uid (tbl c) (tbl (snd (CreatePrivateChat a b c)))"
proof -
  have "acts_for uid (tbl e) (tbl (snd (transaction (create_operation a b) e)))" if "saved e = None" for e
  proof (rule acts_transaction [OF framed_create that])
    fix c1 v c2
    assume d: "db c1 = db e" and g: "gives (create_operation a b) (begun c1) (True, v) c2"
    show "acts_for uid (tbl e) (tbl c2)" using g by (cases rule: gives_create) (use d in \<open>auto intro: acts_same\<close>)
  qed
  then show ?thesis using assms by (auto simp: CreatePrivateChat_def keeps_catch intro!: acts_connection) metis+
qed

lemma acts_AddChatMsg:
  assumes "saved c = None" "\<And>m. Some m \<in> set batch \<Longrightarrow> cm_sender_id m = uid"
  shows "acts_for uid (tbl c) (tbl (snd (AddChatMsg batch c)))"
proof (cases "batch \<noteq> [] \<and> valid_batch batch")
  case True
  then have some: "\<forall>m\<in>set batch. m \<noteq> None"
    by (auto simp: valid_batch_def list_all_iff split: list.splits option.splits)
  have own: "\<forall>m\<in>set (map the batch). cm_sender_id m = uid" using assms(2) some by (metis (no_types, lifting) imageE list.set_map option.collapse)
  have "acts_for uid (tbl e) (tbl (snd (transaction (add_operation (map the batch)) e)))" if "saved e = None" for e
  proof (rule acts_transaction [OF framed_add_operation that])
    fix c1 v c2
    assume d: "db c1 = db e" and g: "gives (add_operation (map the batch)) (begun c1) (True, v) c2"
    then obtain b f st where b: "gives (may_send (hd (map the batch))) (begun c1) b f" and st: "gives (store_messages (map the batch)) f (True, st) c2"
      unfolding add_operation_def by (auto split: if_splits)
    have "db f = db e" using gives_may_send [OF b] d by simp
    moreover obtain new where "tbl c2 = (tbl f)\<lparr>messages_t := messages_t (tbl f) @ new\<rparr>"
      "\<forall>r\<in>set new. \<exists>m\<in>set (map the batch). \<exists>created i. r = chat_row m created i" using gives_store [OF st] by blast
    moreover have "ms_sender (chat_row m created i) = cm_sender_id m" for m created i by (simp add: chat_row_def)
    ultimately show "acts_for uid (tbl e) (tbl c2)" using own
      by (simp add: acts_for_def group_view_def find_group_def is_member_def) metis
  qed
  then show ?thesis using assms(1) True by (auto simp: AddChatMsg_def keeps_catch intro!: acts_connection) metis+
next
  case False
  then show ?thesis using assms(1) by (auto simp: AddChatMsg_def intro!: acts_connection)
qed

lemma acts_ChangeGroup:
  assumes "saved c = None" "database_ok (db c)"
  shows "acts_for uid (tbl c) (tbl (snd (ChangeGroup J uid request doc c)))"
proof -
  have inv: "groups_inv (tbl c)" using assms(2) by (simp add: database_ok_def)
  have op: "acts_for uid (tbl c) (tbl c2)"
    if d: "db c1 = db c" and g: "gives (change_operation J uid op request doc) (begun c1) (True, v) c2" for op c1 v c2
  proof -
    from g obtain th e where r: "gives (if op = ''create'' then CreateGroup J uid request else UpdateGroup uid op request) (begun c1) (Success, th) e"
      and e: "db c2 = db e"
      unfolding change_operation_def by (auto split: if_splits dest!: gives_ReadGroup)
    show ?thesis
    proof (cases "op = ''create''")
      case True
      with r have "gives (CreateGroup J uid request) (begun c1) (Success, th) e" by simp
      then show ?thesis
      proof (cases rule: gives_CreateGroup)
        case created
        have len: "length (member_ids uid (index request ''members'')) \<le> 32" using created(1) by (simp add: creation_valid_def)
        have v: "group_view (tbl c) th = None" using created(5) d by (auto simp: group_view_def find_group_def find_None_iff duplicate_group_def)
        have "group_view (tbl e) i = group_view (tbl c) i" if "group_view (tbl c) i \<noteq> None" for i
          using group_created(2) [OF _ created(5) member_ids_set(2) _ len created(6), of i] inv d v that by auto
        then show ?thesis using created(6) e d by (simp add: acts_for_def)
      qed (use e d in simp)
    next
      case False
      with r have "gives (UpdateGroup uid op request) (begun c1) (Success, th) e" by simp
      then obtain g where g: "find_group (tbl c) th = Some g" "update_permitted (tbl c) th uid op request g"
        "tbl e = apply_update th (update_of (tbl c) th uid op request) (tbl c)"
        using d by (elim gives_UpdateGroup) simp
      have m: "is_member (tbl c) th uid" using g(2) by (simp add: update_permitted_def)
      have "messages_t (apply_update i x t) = messages_t t" "friends_t (apply_update i x t) = friends_t t"
        "applies_t (apply_update i x t) = applies_t t" "users_t (apply_update i x t) = users_t t" for i x t
        by (cases x; simp add: apply_update_def)+
      then show ?thesis using group_view_update [OF g(1)] m e by (auto simp: acts_for_def g(3))
    qed
  qed
  have "acts_for uid (tbl c) (tbl (snd (catch_out doc (change_operation J uid op request doc) e)))" if "saved e = None" "db e = db c" for e op
  proof -
    have "acts_for uid (tbl e) (tbl (snd (transaction (change_operation J uid op request doc) e)))"
      by (rule acts_transaction [OF framed_change that(1)]) (use op that(2) in simp)
    then show ?thesis using that(2) by (simp add: catch_out_snd)
  qed
  then show ?thesis using assms(1)
    by (auto simp: ChangeGroup_def Let_def intro!: acts_connection acts_unchanged [OF GetGroup_reads] acts_unchanged [OF CommonGroups_reads])
qed

lemma acts_UpdateProfile:
  assumes "saved c = None"
  shows "acts_for uid (tbl c) (tbl (snd (UpdateProfile uid name nick desc avatar has c)))"
proof -
  let ?work = "sql_then (update_profile uid name nick desc) (sql_then (sql_when has (upsert_avatar uid avatar)) (sql_return (True, Success)))"
  have fr: "framed ?work"
    by (intro framed_rules) (auto simp: update_profile_def upsert_avatar_def Let_def intro!: framed_statement)
  have "acts_for uid (tbl e) (tbl (snd (transaction ?work e)))" if "saved e = None" for e
  proof (rule acts_transaction [OF fr that])
    fix c1 v c2
    assume d: "db c1 = db e" and g: "gives ?work (begun c1) (True, v) c2"
    then obtain u f w where s: "gives (update_profile uid name nick desc) (begun c1) u f" "gives (sql_when has (upsert_avatar uid avatar)) f w c2" by auto
    have f: "tbl f = (tbl e)\<lparr>users_t := map (set_profile uid name nick desc) (users_t (tbl e))\<rparr>"
      using gives_statement [OF s(1) [unfolded update_profile_def]] d by (simp split: if_splits)
    have "\<exists>V. tbl c2 = (tbl f)\<lparr>avatars_t := V\<rparr>"
    proof (cases has)
      case True
      then have "gives (upsert_avatar uid avatar) f w c2" using s(2) by (simp add: gives_when)
      from gives_statement [OF this [unfolded upsert_avatar_def]] show ?thesis by (auto simp: Let_def split: if_splits)
    next
      case False
      then show ?thesis using s(2) by (intro exI [of _ "avatars_t (tbl f)"]) (simp add: gives_when)
    qed
    moreover have "r \<in> set (map (set_profile uid name nick desc) us) \<longleftrightarrow> r \<in> set us" if "u_id r \<noteq> uid" for r us
      using that by (force simp: set_profile_def)
    ultimately show "acts_for uid (tbl e) (tbl c2)"
      using f by (auto simp: acts_for_def group_view_def find_group_def is_member_def)
  qed
  then show ?thesis using assms by (auto simp: UpdateProfile_def keeps_catch intro!: acts_connection) metis+
qed

section \<open>Services\<close>

definition served :: "int \<Rightarrow> node \<Rightarrow> node \<Rightarrow> bool" where
  "served uid n n' \<longleftrightarrow> (storage_inv (mysqld n) \<longrightarrow> storage_inv (mysqld n') \<and> acts_for uid (tbl (mysqld n)) (tbl (mysqld n')))"

lemma served_refl [simp]: "served uid n n"
  by (simp add: served_def)

lemma served_transp: "transp (served uid)"
  by (auto simp: served_def intro!: transpI elim: acts_trans)

named_theorems serves

lemma serves_give [serves]: "state_io_rel (served uid) (give x)"
  by (rule io_give) simp

lemma serves_reads [serves]: "state_io_rel (served uid) (reads f)"
  by (rule io_reads) simp

lemmas serves_bind [serves] = io_bind [OF served_transp]

lemmas serves_each [serves] = io_each [OF served_transp served_refl]

lemma serves_if [serves]: "(b \<Longrightarrow> state_io_rel R m) \<Longrightarrow> (\<not> b \<Longrightarrow> state_io_rel R m') \<Longrightarrow> state_io_rel R (if b then m else m')"
  by simp

lemma serves_option [serves]:
  "state_io_rel R m \<Longrightarrow> (\<And>x. v = Some x \<Longrightarrow> state_io_rel R (f x)) \<Longrightarrow> state_io_rel R (case v of None \<Rightarrow> m | Some x \<Rightarrow> f x)"
  by (cases v) simp_all

lemma serves_prod [serves]: "(\<And>x y. state_io_rel R (f x y)) \<Longrightarrow> state_io_rel R (case v of (x, y) \<Rightarrow> f x y)"
  by (cases v) simp

lemma serves_sum [serves]:
  "(\<And>x. v = Inl x \<Longrightarrow> state_io_rel R (f x)) \<Longrightarrow> (\<And>y. v = Inr y \<Longrightarrow> state_io_rel R (g y)) \<Longrightarrow> state_io_rel R (case v of Inl x \<Rightarrow> f x | Inr y \<Rightarrow> g y)"
  by (cases v) simp_all

lemma serves_let [serves]: "(\<And>x. x = v \<Longrightarrow> state_io_rel R (f x)) \<Longrightarrow> state_io_rel R (let x = v in f x)"
  by simp

lemma serves_emit [serves]: "state_io_rel (served uid) (emit e)" "state_io_rel (served uid) (send c body i)"
  "state_io_rel (served uid) (redis_call f)" "state_io_rel (served uid) (destinations u)" "state_io_rel (served uid) (close_client k)"
  "state_io_rel (served uid) next_call"
  by (auto simp: next_call_def emit_def send_def redis_call_def destinations_def close_client_def next_fate_def served_def state_io_rel_def
      split: prod.splits list.splits)

lemma serves_calls [serves]:
  "state_io_rel (served uid) (peer_call server request)" "state_io_rel (served uid) (ChatGrpcClient_NotifyAddFriend server a b name desc)"
  "state_io_rel (served uid) (ChatGrpcClient_NotifyAuthFriend server a b)" "state_io_rel (served uid) (ChatGrpcClient_NotifyTextChatMsg server a b i ms)"
  "state_io_rel (served uid) (ChatGrpcClient_NotifyKickUser server a device)" "state_io_rel (served uid) (ChatGrpcClient_NotifyDeleteFriend server a b)"
  "state_io_rel (served uid) (ChatGrpcClient_RelayVoice server a sid payload audio video)"
  unfolding ChatGrpcClient_NotifyAddFriend_def ChatGrpcClient_NotifyAuthFriend_def ChatGrpcClient_NotifyTextChatMsg_def
    ChatGrpcClient_NotifyKickUser_def ChatGrpcClient_NotifyDeleteFriend_def ChatGrpcClient_RelayVoice_def peer_call_def
  by (intro serves)+

lemma serves_routed [serves]: "state_io_rel (served uid) m \<Longrightarrow> (\<And>d. state_io_rel (served uid) (r d)) \<Longrightarrow> state_io_rel (served uid) (routed u m r)"
  unfolding routed_def by (intro serves)

lemma serves_write:
  assumes "\<And>c. saved c = None \<Longrightarrow> keeps c (snd (f c))" "\<And>c. saved c = None \<Longrightarrow> database_ok (db c) \<Longrightarrow> acts_for uid (tbl c) (tbl (snd (f c)))"
  shows "state_io_rel (served uid) (sql_call f)"
  using assms by (auto simp: sql_call_def served_def storage_inv_def keeps_def state_io_rel_def split: prod.splits) (metis snd_conv)+

lemma serves_read:
  assumes "\<And>c. saved c = None \<Longrightarrow> unchanged_by c (snd (f c))"
  shows "state_io_rel (served uid) (sql_call f)"
  by (rule serves_write) (use assms in \<open>auto intro: keeps_unchanged acts_unchanged\<close>)

lemma unchanged_select:
  assumes "saved c = None"
  shows "unchanged_by c (snd (with_connection x (sql_catch h (sql_bind (select q) (\<lambda>v. sql_return (g v)))) c))"
  using assms
  by (auto simp: unchanged_by_def with_connection_def sql_catch_def sql_bind_def sql_return_def select_def statement_def next_fault_def
      split: prod.splits sum.splits fault.splits list.splits)

lemma serves_readings [serves]:
  "state_io_rel (served uid) (sql_call (GetUser u))" "state_io_rel (served uid) (sql_call (GetUserByName name))"
  "state_io_rel (served uid) (sql_call (GetAvatar u))" "state_io_rel (served uid) (sql_call (CheckFriendship a b))"
  "state_io_rel (served uid) (sql_call (GetFriendMetadata a b out))" "state_io_rel (served uid) (sql_call (GetFriendIds a))"
  "state_io_rel (served uid) (sql_call (CheckPrivateChatAccess a i))" "state_io_rel (served uid) (sql_call (LoadChatMsg i k m))"
  "state_io_rel (served uid) (sql_call (GetUserThreads a k m))" "state_io_rel (served uid) (sql_call (GetGroup a i doc b'))"
  "state_io_rel (served uid) (sql_call (\<lambda>c. case GetGroup a i doc b' c of ((e, g), c') \<Rightarrow> (e, c')))"
  by (rule serves_read;
      auto simp: GetUser_def GetUserByName_def GetAvatar_def CheckFriendship_def GetFriendMetadata_def GetFriendIds_def CheckPrivateChatAccess_def
        LoadChatMsg_def GetUserThreads_def split_beta Let_def intro: unchanged_select GetGroup_reads)+

lemma serves_read_status [serves]:
  "(\<And>x. state_io_rel R (f x)) \<Longrightarrow> state_io_rel R m \<Longrightarrow> state_io_rel R m' \<Longrightarrow> state_io_rel R (case v of Found x \<Rightarrow> f x | Missing \<Rightarrow> m | Error \<Rightarrow> m')"
  by (cases v) simp_all

lemma serves_items [serves]:
  "state_io_rel R m \<Longrightarrow> state_io_rel R m' \<Longrightarrow> (\<And>x. state_io_rel R (f x)) \<Longrightarrow> state_io_rel R (case v of Threw \<Rightarrow> m | Refused \<Rightarrow> m' | Items x \<Rightarrow> f x)"
  by (cases v) simp_all

lemma serves_writings [serves]:
  "state_io_rel (served uid) (sql_call (AddFriendApply uid b x y z))" "state_io_rel (served uid) (sql_call (AddFriend uid b x y))"
  "state_io_rel (served uid) (sql_call (DeleteFriend uid b))" "state_io_rel (served uid) (sql_call (SetContactTags uid b tags remark))"
  "state_io_rel (served uid) (sql_call (CreatePrivateChat a b))" "state_io_rel (served uid) (sql_call (ChangeGroup J uid request doc))"
  "state_io_rel (served uid) (sql_call (UpdateProfile uid name nick desc avatar has))"
  by (rule serves_write; intro keeps_calls acts_AddFriendApply acts_AddFriend acts_DeleteFriend acts_SetContactTags acts_CreatePrivateChat
      acts_ChangeGroup acts_UpdateProfile; assumption)+

lemma serves_users [serves]:
  "state_io_rel (served uid) (GetById J u)" "state_io_rel (served uid) (GetByName J name)"
  "state_io_rel (served uid) (UserService_UpdateProfile uid name nick desc avatar has)" "state_io_rel (served uid) (UserService_GetAvatar u)"
  unfolding GetById_def GetByName_def UserService_UpdateProfile_def UserService_GetAvatar_def by (intro serves)+

lemma serves_contacts [serves]:
  "state_io_rel (served uid) (Apply J uid other description remark input)" "state_io_rel (served uid) (Accept J uid other remark' input)"
  "state_io_rel (served uid) (NotifyAccepted J a b notification)" "state_io_rel (served uid) (NotifyAcceptance J a b notification)"
  "state_io_rel (served uid) (NotifyDeleted J a b)" "state_io_rel (served uid) (Delete J uid other)"
  "state_io_rel (served uid) (SetTags J uid other input tags remark'')" "state_io_rel (served uid) (Ids u)"
  unfolding Apply_def Accept_def NotifyAccepted_def NotifyAcceptance_def NotifyDeleted_def Delete_def SetTags_def Ids_def by (intro serves)+

lemma serves_known:
  assumes "state_io_rel (served uid) m" "\<And>n x n'. run_state m n = (x, n') \<Longrightarrow> P x" "\<And>x. P x \<Longrightarrow> state_io_rel (served uid) (f x)"
  shows "state_io_rel (served uid) (State_Monad.bind m f)"
proof
  fix a s s'
  assume "run_state (State_Monad.bind m f) s = (a, s')"
  then obtain x s1 where "run_state m s = (x, s1)" "run_state (f x) s1 = (a, s')" by (auto split: prod.splits)
  then show "served uid s s'" using assms served_transp by (meson state_io_relD transpE)
qed

lemma serves_check_media [serves]: "state_io_rel (served uid) (check_media actor g m)"
  unfolding check_media_def by (intro serves)

lemma serves_check_messages [serves]: "state_io_rel (served uid) (check_messages actor g xs)"
  by (induction xs) (auto intro!: serves)

lemma check_media_sender: "run_state (check_media actor g m) n = (Inr m', n') \<Longrightarrow> cm_sender_id m' = cm_sender_id m"
  by (auto simp: check_media_def Let_def split: if_splits prod.splits option.splits)

lemma checked_senders:
  "run_state (check_messages actor g xs) n = (Inr ms, n') \<Longrightarrow> \<forall>m\<in>set ms. cm_sender_id m = actor"
proof (induction xs arbitrary: n ms n')
  case (Cons x xs)
  then show ?case
  proof (cases x)
    case (Some m)
    with Cons.prems obtain m' n1 ms' where m: "cm_sender_id m = actor" "ms = m' # ms'"
      and h: "run_state (if cm_msg_type m \<noteq> 0 then check_media actor g m else give (Inr m)) n = (Inr m', n1)"
      and r: "run_state (check_messages actor g xs) n1 = (Inr ms', n')"
      by (auto split: if_splits prod.splits sum.splits simp: map_sum_def)
    have "cm_sender_id m' = actor" using m(1) h check_media_sender [of actor g m n m' n1] by (auto split: if_splits)
    then show ?thesis using Cons.IH [OF r] m(2) by simp
  qed simp
qed simp

lemma serves_Store [serves]: "state_io_rel (served uid) (Store uid messages)"
proof -
  have a: "state_io_rel (served uid) (sql_call (AddChatMsg (map Some ms)))" if "\<forall>m\<in>set ms. cm_sender_id m = uid" for ms
    by (rule serves_write) (use that in \<open>auto intro: keeps_calls intro!: acts_AddChatMsg\<close>)
  have c: "state_io_rel (served uid) (State_Monad.bind (check_messages uid g xs) f)"
    if "\<And>x. (\<forall>ms. x = Inr ms \<longrightarrow> (\<forall>m\<in>set ms. cm_sender_id m = uid)) \<Longrightarrow> state_io_rel (served uid) (f x)" for g xs f
    by (rule serves_known [OF serves_check_messages _ that, where P = "\<lambda>x. \<forall>ms. x = Inr ms \<longrightarrow> (\<forall>m\<in>set ms. cm_sender_id m = uid)"])
      (use checked_senders in blast)+
  show ?thesis unfolding Store_def
    by (intro c serves a) simp_all
qed

lemma serves_messages [serves]:
  "state_io_rel (served uid) (notify_client J payload c)" "state_io_rel (served uid) (Deliver J from to thread messages payload)"
  "state_io_rel (served uid) (CreatePrivate a b)" "state_io_rel (served uid) (Load a i k)" "state_io_rel (served uid) (ListThreads a k m)"
  unfolding notify_client_def Deliver_def CreatePrivate_def Load_def ListThreads_def by (intro serves)+

lemma serves_redis_run [serves]: "state_io_rel (served uid) (redis_run m)"
  by (auto simp: redis_run_def served_def state_io_rel_def split: prod.splits)

lemma serves_voice [serves]:
  "(\<And>x. state_io_rel (served uid) (call x)) \<Longrightarrow> state_io_rel (served uid) (relay xs call)"
  "state_io_rel (served uid) (VoiceCall_Deliver J peer sid body audio video)"
  "state_io_rel (served uid) (invite_target peer)" "state_io_rel (served uid) (lease_target R u peer cid)"
  "state_io_rel (served uid) (voice_transition R session v action sequence camera device target)"
  "state_io_rel (served uid) (decide_voice R session v payload)" "state_io_rel (served uid) (VoiceCallService_Handle R i session data)"
proof -
  show rl: "state_io_rel (served uid) (relay xs call)" if "\<And>x. state_io_rel (served uid) (call x)" for xs call
    by (induction xs) (auto intro!: serves that)
  show d: "state_io_rel (served uid) (VoiceCall_Deliver J peer sid body audio video)" for J peer sid body audio video
    unfolding VoiceCall_Deliver_def Let_def by (intro serves rl)
  show i: "state_io_rel (served uid) (invite_target peer)" for peer unfolding invite_target_def by (intro serves)
  show l: "state_io_rel (served uid) (lease_target R u peer cid)" for u peer cid unfolding lease_target_def Let_def by (intro serves)
  show t: "state_io_rel (served uid) (voice_transition R session v action sequence camera device target)" for v action sequence camera device target
    unfolding voice_transition_def by (intro serves)
  show c: "state_io_rel (served uid) (decide_voice R session v payload)" for v payload unfolding decide_voice_def by (intro serves i l t)
  show "state_io_rel (served uid) (VoiceCallService_Handle R i session data)"
    unfolding VoiceCallService_Handle_def Let_def by (intro serves c d t)
qed

lemma list_loop_unchanged: "saved c = None \<Longrightarrow> unchanged_by c (snd (list_loop J uid k b f c))"
proof (induction J uid k b f c rule: list_loop.induct)
  case (1 J uid k b f c)
  obtain ok page c' where q: "GetFriendPage uid k 100 c = ((ok, page), c')" by (metis prod.exhaust)
  then show ?case using GetFriendPage_cases(1) [OF q] 1
    by (subst list_loop.simps) (auto simp: unchanged_by_def split: sum.split)
qed

lemma applications_loop_unchanged: "saved c = None \<Longrightarrow> unchanged_by c (snd (applications_loop J uid k b f c))"
proof (induction J uid k b f c rule: applications_loop.induct)
  case (1 J uid k b f c)
  obtain ok page c' where q: "GetApplyList uid [] k 100 c = ((ok, page), c')" by (metis prod.exhaust)
  then show ?case using GetApplyList_cases(1) [OF q] 1
    by (subst applications_loop.simps) (auto simp: unchanged_by_def split: sum.split)
qed

lemma serves_lists [serves]:
  "state_io_rel (served uid) (Applications J u)" "state_io_rel (served uid) (FriendList J u)"
  unfolding Applications_def FriendList_def using applications_loop_unchanged list_loop_unchanged
  by (auto intro!: serves serves_read)

lemma serves_sessions [serves]:
  "state_io_rel (served uid) (update_client i f)"
  "state_io_rel (served uid) (SessionService.BindAuthenticatedUser i u device)"
  "state_io_rel (served uid) (State (\<lambda>n. (x, RmvUserSession u j n)))"
  "state_io_rel (served uid) (State (\<lambda>n. case AcquireLock a b k t t' y (redisd n) of (i, s) \<Rightarrow> (i, n\<lparr>redisd := s\<rparr>)))"
  "state_io_rel (served uid) (State (\<lambda>n. case next_fate n of (d1, n1) \<Rightarrow> case next_fate n1 of (d2, n2) \<Rightarrow>
      case ReleaseSession d1 d2 u j (redisd n2) of (r, s) \<Rightarrow> (r, n2\<lparr>redisd := s\<rparr>)))"
  unfolding update_client_def SessionService.BindAuthenticatedUser_def
  by (auto simp: served_def state_io_rel_def next_fate_def RmvUserSession_def SetUserSession_def Let_def
      split: prod.splits list.splits option.splits if_splits)

lemma serves_notify_offline [serves]: "state_io_rel (served uid) (notify_offline J c u)"
  unfolding notify_offline_def by (intro serves)

lemma serves_login [serves]:
  "state_io_rel (served uid) (StatusGrpcClient_Login u token)" "state_io_rel (served uid) (retire_previous R session u device)"
  "state_io_rel (served uid) (login_locked R session u token device)" "state_io_rel (served uid) (SessionService_Login R session u token device)"
proof -
  show s: "state_io_rel (served uid) (StatusGrpcClient_Login u token)" for u unfolding StatusGrpcClient_Login_def by (intro serves)
  show r: "state_io_rel (served uid) (retire_previous R session u device)" for u unfolding retire_previous_def Let_def by (intro serves)
  show l: "state_io_rel (served uid) (login_locked R session u token device)" for u unfolding login_locked_def by (intro serves r)
  show "state_io_rel (served uid) (SessionService_Login R session u token device)"
    unfolding SessionService_Login_def Let_def by (intro serves s l)
qed

section \<open>Handlers\<close>

lemma serves_replies [serves]:
  "state_io_rel (served uid) (respond R session request i result)" "state_io_rel (served uid) (failed e)" "state_io_rel (served uid) (threw response)"
  "(\<And>request. state_io_rel (served uid) (body request)) \<Longrightarrow> state_io_rel (served uid) (answering R session data i body)"
  unfolding respond_def failed_def threw_def answering_def by (intro serves; assumption)+

lemma serves_add_threads [serves]: "state_io_rel (served uid) (add_threads a ts response)"
  by (induction ts arbitrary: response) (auto intro!: serves)

lemma serves_lookups [serves]:
  "state_io_rel (served uid) (GetUserByUid R text')" "state_io_rel (served uid) (LogicSystem_GetUserByName R name)"
  "state_io_rel (served uid) (Heartbeat R session snapshot)" "state_io_rel (served uid) (deliver_group R a i messages response)"
  unfolding GetUserByUid_def LogicSystem_GetUserByName_def Heartbeat_def deliver_group_def by (intro serves)+

lemma serves_LoginHandler [serves]: "state_io_rel (served uid) (LoginHandler R session data)"
  unfolding LoginHandler_def refuse_login_def Let_def by (intro serves)

lemma serves_handlers [serves]:
  assumes "uid = cl_uid session"
  shows "state_io_rel (served uid) (LogicSystem_UpdateProfile R session data)" "state_io_rel (served uid) (LogicSystem_GetAvatar R session data)"
    "state_io_rel (served uid) (SearchInfo R session data)" "state_io_rel (served uid) (LogicSystem_AddFriendApply R session data)"
    "state_io_rel (served uid) (LogicSystem_AuthFriendApply R session data)" "state_io_rel (served uid) (LogicSystem_DeleteFriend R session data)"
    "state_io_rel (served uid) (LogicSystem_SetContactTags R session data)" "state_io_rel (served uid) (DealChatTextMsg R session data)"
    "state_io_rel (served uid) (HeartBeatHandler R session data)" "state_io_rel (served uid) (GetUserThreadsHandler R session data)"
    "state_io_rel (served uid) (LogicSystem_CreatePrivateChat R session data)" "state_io_rel (served uid) (LogicSystem_LoadChatMsg R session data)"
    "state_io_rel (served uid) (GroupRequest R session data)"
  unfolding LogicSystem_UpdateProfile_def LogicSystem_GetAvatar_def SearchInfo_def LogicSystem_AddFriendApply_def LogicSystem_AuthFriendApply_def
    LogicSystem_DeleteFriend_def LogicSystem_SetContactTags_def DealChatTextMsg_def HeartBeatHandler_def GetUserThreadsHandler_def
    LogicSystem_CreatePrivateChat_def LogicSystem_LoadChatMsg_def GroupRequest_def
  using assms by (intro serves; simp)+

lemma serves_callbacks:
  "callbacks R i = Some callback \<Longrightarrow> state_io_rel (served (cl_uid session)) (callback session data)"
  by (cases i) (auto simp: callbacks_def intro!: serves)

lemma serves_HandleMessage:
  assumes "clients n sid = Some session" "run_state (HandleMessage R sid message_id data) n = (x, n')"
    "cl_uid session \<le> 0 \<or> uid = cl_uid session"
  shows "served uid n n'"
proof -
  have handler: "state_io_rel (served uid) (callback session data)"
    if "find (\<lambda>i. message_id_value i = message_id) message_ids = Some i" "callbacks R i = Some callback"
      "\<not> (message_id \<noteq> message_id_value MSG_CHAT_LOGIN \<and> cl_uid session \<le> 0)" for i callback
  proof (cases "0 < cl_uid session")
    case False
    then have "message_id_value i = message_id_value MSG_CHAT_LOGIN" using that by (auto simp: find_Some_iff)
    then have "callback = LoginHandler R" using that(2) by (cases i) (auto simp: callbacks_def)
    then show ?thesis by (simp add: serves_LoginHandler)
  next
    case True
    then show ?thesis using assms(3) serves_callbacks [OF that(2), of session data] by simp
  qed
  have body: "state_io_rel (served uid) (if cl_closed session then give ()
      else case Option.bind (find (\<lambda>i. message_id_value i = message_id) message_ids) (callbacks R) of
        None \<Rightarrow> give ()
      | Some callback \<Rightarrow>
          if message_id \<noteq> message_id_value MSG_CHAT_LOGIN \<and> cl_uid session \<le> 0 then
            (case ParseRequest (json_lib R) data of (ok, request) \<Rightarrow>
               let response = set_member ''error'' (err TokenInvalid) JNull in do {
                 emit (Sent (cl_id session) (message_id + 1)
                   (toStyledString (json_lib R) (if ok then EchoId request response else response)));
                 give () })
          else do {
            ok \<leftarrow> callback session data;
            if ok then give () else close_client sid })"
    by (intro serves) (use handler in \<open>auto simp: bind_eq_Some_conv\<close>)
  then show ?thesis using assms unfolding HandleMessage_def by (auto dest: state_io_relD)
qed


section \<open>A node with a session\<close>

definition demo_runtime :: runtime where
  "demo_runtime = \<lparr>json_lib = demo_json\<lparr>parse := (\<lambda>t. (True, JObj [(''friend_uid'', JInt 2)]))\<rparr>, cjson_lib = net_cjson,
     DecodeBlock = (\<lambda>t. None), EncodeBlock = (\<lambda>t. []), timestamp = ''2026-01-01 00:00:00'', now_ms = 0,
     lock_connection = True, lock_turns = [], lock_identifier = ''i''\<rparr>"

definition demo_client :: client where
  "demo_client = \<lparr>cl_id = ''s'', cl_uid = 1, cl_device = ''desktop'', cl_closed = False, cl_voice = True, cl_file = True\<rparr>"

definition demo_node :: node where
  "demo_node = \<lparr>mysqld = db4, redisd = empty_redis, fates = [], call_fates = [], peer_host = (\<lambda>_. None), self_name = ''n'',
     clients = [''s'' \<mapsto> demo_client], uid_to_session = (\<lambda>_. []), events = []\<rparr>"

lemma deleted: "\<exists>m. DeleteFriend 1 2 db4 = (True, m) \<and> friends_t (tbl m) = []"
  by (simp add: db4_eq db3_eq db2_eq DeleteFriend_def bad_pair_def RunContactTransaction_def eval_nat_numeral empty_db_def begun_def
      delete_operation_def delete_apply_def delete_friend_def LockApplications_def LockFriends_def sql_bind_def sql_return_def roll_back_def)

lemma nowhere: "Destinations Delivered Delivered u empty_redis = ([], empty_redis)"
  by (simp add: Destinations_def Get_def command_def GET_def as_string_def wrong_type_def value_of_def live_def empty_redis_def)


end
