(* ===== verification/Logins.thy ===== *)
theory Logins
  imports Authority
begin

text \<open>
  What a login does to the node and to Redis: when the reply says success, the credential was accepted, the
  session is bound to the user and registered under its device; otherwise the session is as before.
\<close>

section \<open>Steps that leave the sessions alone\<close>

definition same_sessions :: "node \<Rightarrow> node \<Rightarrow> bool" where
  "same_sessions n n' \<longleftrightarrow> clients n' = clients n \<and> self_name n' = self_name n"

definition spares :: "string \<Rightarrow> node \<Rightarrow> node \<Rightarrow> bool" where
  "spares i n n' \<longleftrightarrow> clients n' i = clients n i \<and> self_name n' = self_name n"

named_theorems spare

lemma spares_transp: "transp (spares i)" "transp same_sessions"
  by (auto simp: spares_def same_sessions_def intro!: transpI)

lemma spare_rules [spare]:
  "state_io_rel same_sessions (give x)" "state_io_rel same_sessions (reads f)" "state_io_rel same_sessions (sql_call g)"
  "state_io_rel same_sessions (redis_call h)" "state_io_rel same_sessions (redis_run m)" "state_io_rel same_sessions next_call"
  "state_io_rel same_sessions (emit e)" "state_io_rel same_sessions (send c body j)"
  "state_io_rel same_sessions (State (\<lambda>n. case AcquireLock a b k t t' y (redisd n) of (i, s) \<Rightarrow> (i, n\<lparr>redisd := s\<rparr>)))"
  by (auto simp: same_sessions_def state_io_rel_def sql_call_def redis_call_def redis_run_def next_call_def emit_def send_def next_fate_def
      split: prod.splits list.splits)

lemmas spare_bind [spare] = io_bind [OF spares_transp(2)]

lemma same_spares: "state_io_rel same_sessions m \<Longrightarrow> state_io_rel (spares i) m"
  by (auto simp: state_io_rel_def same_sessions_def spares_def)

lemma spare_services:
  "state_io_rel same_sessions (StatusGrpcClient_Login uid token)" "state_io_rel same_sessions (GetById J uid)"
  "state_io_rel same_sessions (Applications J uid)" "state_io_rel same_sessions (FriendList J uid)"
  "state_io_rel same_sessions (ChatGrpcClient_NotifyKickUser server uid device)"
  unfolding StatusGrpcClient_Login_def GetById_def Applications_def FriendList_def ChatGrpcClient_NotifyKickUser_def peer_call_def
  by (intro spare serves; assumption?)+

lemma retire_spares:
  assumes "run_state (retire_previous R session uid device) n = (e, n')"
  shows "spares (cl_id session) n n'"
proof -
  let ?i = "cl_id session"
  have offline: "state_io_rel (spares ?i) (notify_offline J c uid)" if "cl_id c \<noteq> ?i" for J c
    using that by (auto simp: notify_offline_def spares_def state_io_rel_def send_def emit_def close_client_def split: if_splits)
  have remove: "state_io_rel (spares ?i) (State (\<lambda>n. (x, RmvUserSession uid j n)))" for x :: ErrorCodes and j
    by (auto simp: spares_def state_io_rel_def RmvUserSession_def)
  have "state_io_rel (spares ?i) (retire_previous R session uid device)"
    unfolding retire_previous_def Let_def
    by (intro io_bind [OF spares_transp(1)] serves_if serves_option serves_read_status offline remove same_spares spare spare_services) simp_all
  then show ?thesis using assms by (auto dest: state_io_relD)
qed

section \<open>Registering\<close>

declare token_found.simps [simp del]

lemma run_bindE:
  assumes "run_state (State_Monad.bind m f) s = (y, s')"
  obtains x s1 where "run_state m s = (x, s1)" "run_state (f x) s1 = (y, s')"
  using assms by (auto split: prod.splits)

lemma locked_success:
  assumes "run_state (login_locked R session uid token device) n = (Success, n')" "clients n (cl_id session) = Some session"
  shows "\<exists>s0. admits s0 uid token device \<and> ValidDevice device \<and> redisd n' = registered_state uid (cl_id session) (self_name n) token device s0 \<and>
    clients n' (cl_id session) = Some (session\<lparr>cl_device := device, cl_uid := uid\<rparr>) \<and>
    map_of (uid_to_session n' uid) device = Some (cl_id session) \<and> self_name n' = self_name n \<and> 0 < uid"
proof -
  let ?m = "token_found [pending_token_key uid token, pending_key uid, token_key uid device] token"
  note login = login_locked_def
  obtain credential n1 where 1: "run_state (redis_run ?m) n = (credential, n1)" by (metis prod.exhaust)
  note s1 = state_io_relD [OF spare_rules(5) 1]
  have c: "credential = Success" using assms(1) 1 by (auto simp: login split: if_splits)
  obtain retired n2 where 2: "run_state (retire_previous R session uid device) n1 = (retired, n2)" by (metis prod.exhaust)
  have r: "retired = Success" using assms(1) 1 2 c by (auto simp: login split: if_splits)
  note s2 = retire_spares [OF 2]
  obtain registered n3 where 3: "run_state (redis_call (\<lambda>d. RegisterSession d uid (cl_id session) (self_name n2) token device)) n2 = (registered, n3)"
    by (metis prod.exhaust)
  note s3 = state_io_relD [OF spare_rules(4) 3]
  have g: "registered = Success" using assms(1) 1 2 3 c r by (auto simp: login split: if_splits)
  obtain bound n4 where 4: "run_state (SessionService.BindAuthenticatedUser (cl_id session) uid device) n3 = (bound, n4)" by (metis prod.exhaust)
  have b: "bound" "n' = n4" using assms(1) 1 2 3 4 c r g by (auto simp: login split: if_splits prod.splits)
  obtain d where d: "RegisterSession d uid (cl_id session) (self_name n2) token device (redisd n2) = (Success, redisd n3)"
    using 3 g by (auto simp: redis_call_def next_fate_def split: prod.splits list.splits)
  have reg: "admits (redisd n2) uid token device \<and> ValidDevice device \<and> redisd n3 = registered_state uid (cl_id session) (self_name n2) token device (redisd n2)"
    by (cases rule: RegisterSession_cases [of d uid "cl_id session" "self_name n2" token device "redisd n2"]) (use d in auto)
  have self: "self_name n2 = self_name n" "self_name n3 = self_name n" "clients n3 (cl_id session) = Some session"
    using s1 s2 s3 assms(2) by (simp_all add: same_sessions_def spares_def)
  have bind: "0 < uid \<and> clients n4 (cl_id session) = Some (session\<lparr>cl_device := device, cl_uid := uid\<rparr>) \<and>
      map_of (uid_to_session n4 uid) device = Some (cl_id session) \<and> self_name n4 = self_name n3 \<and> redisd n4 = redisd n3"
    using 4 b(1) self(3) by (auto simp: SessionService.BindAuthenticatedUser_def SetUserSession_def Let_def update_conv' split: if_splits)
  then show ?thesis using reg self b(2) by auto
qed

lemma locked_failure:
  assumes "run_state (login_locked R session uid token device) n = (e, n')" "e \<noteq> Success"
  shows "spares (cl_id session) n n'"
proof -
  let ?i = "cl_id session"
  let ?m = "token_found [pending_token_key uid token, pending_key uid, token_key uid device] token"
  note login = login_locked_def
  obtain credential n1 where 1: "run_state (redis_run ?m) n = (credential, n1)" by (metis prod.exhaust)
  note s1 = state_io_relD [OF spare_rules(5) 1]
  obtain retired n2 where 2: "run_state (retire_previous R session uid device) n1 = (retired, n2)" by (metis prod.exhaust)
  note s2 = retire_spares [OF 2]
  obtain registered n3 where 3: "run_state (redis_call (\<lambda>d. RegisterSession d uid ?i (self_name n2) token device)) n2 = (registered, n3)"
    by (metis prod.exhaust)
  note s3 = state_io_relD [OF spare_rules(4) 3]
  obtain bound n4 where 4: "run_state (SessionService.BindAuthenticatedUser ?i uid device) n3 = (bound, n4)" by (metis prod.exhaust)
  have s4: "\<not> bound \<Longrightarrow> n4 = n3" using 4 by (auto simp: SessionService.BindAuthenticatedUser_def Let_def split: if_splits option.splits)
  show ?thesis
    using assms 1 2 3 4 s1 s2 s3 s4
    by (auto simp: login spares_def same_sessions_def next_fate_def split: if_splits prod.splits list.splits)
qed

section \<open>The whole login\<close>

lemma error_field [simp]:
  "isObject v \<Longrightarrow> index (set_member ''error'' x v) ''error'' = x" "index (JObj [(''error'', x)]) ''error'' = x"
  by (simp_all add: index_def get_default_def)

lemma error_of_profile: "index (login_profile J u token) ''error'' = err Success" "isObject (login_profile J u token)"
  by (simp_all add: login_profile_def WriteProfile_def index_def get_default_def)

lemma append_items_object: "isObject v \<Longrightarrow> isObject (append_items list items v)"
  unfolding append_items_def by (induction items arbitrary: v) (simp_all add: append_item_def)

lemma append_items_error: "isObject v \<Longrightarrow> list \<noteq> ''error'' \<Longrightarrow> index (append_items list items v) ''error'' = index v ''error''"
  unfolding append_items_def by (induction items arbitrary: v) (simp_all add: append_item_def)

text \<open>The lock's key is none of the session's.\<close>

lemma release_lock_spares:
  "value_of (snd (ReleaseLock d (account_lock uid) i s)) (session_key u device) = value_of s (session_key u device)"
  "value_of (snd (ReleaseLock d (account_lock uid) i s)) (token_key u device) = value_of s (token_key u device)"
  "value_of (snd (ReleaseLock d (account_lock uid) i s)) (ip_key u device) = value_of s (ip_key u device)"
proof -
  have lo: "take 2 (lock_key l) = ''lo''" for l by (simp add: lock_key_def)
  have ne: "session_key u device \<noteq> lock_key l" "token_key u device \<noteq> lock_key l" "ip_key u device \<noteq> lock_key l" for l
    by (rule take2_neq, simp add: key_prefix lo)+
  show "value_of (snd (ReleaseLock d (account_lock uid) i s)) (session_key u device) = value_of s (session_key u device)"
    "value_of (snd (ReleaseLock d (account_lock uid) i s)) (token_key u device) = value_of s (token_key u device)"
    "value_of (snd (ReleaseLock d (account_lock uid) i s)) (ip_key u device) = value_of s (ip_key u device)"
    by (cases rule: ReleaseLock_cases [of d "account_lock uid" i s]; simp add: ne)+
qed

lemma registered_values:
  "value_of (registered_state uid sid srv token device s) (session_key uid device) = Some sid"
  "value_of (registered_state uid sid srv token device s) (token_key uid device) = Some token"
  "value_of (registered_state uid sid srv token device s) (ip_key uid device) = Some srv"
  by (simp_all add: registered_state_def Let_def ActiveSessionSeconds_def)

lemma release_step:
  assumes "run_state (redis_call (\<lambda>d. ReleaseLock d l i)) n = (x, n')"
  obtains d where "redisd n' = snd (ReleaseLock d l i (redisd n))" "uid_to_session n' = uid_to_session n" "clients n' = clients n"
proof -
  obtain d where "ReleaseLock d l i (redisd n) = (x, redisd n')" "uid_to_session n' = uid_to_session n" "clients n' = clients n"
    using assms by (auto simp: redis_call_def next_fate_def split: prod.splits list.splits)
  then show thesis using that [of d] by simp
qed

text \<open>A login is refused before the lock is taken, or what happens under the lock decides.\<close>

lemma login_cases:
  assumes "run_state (SessionService_Login R session uid token device) n = (response, n')"
  obtains (refused) "index response ''error'' \<noteq> err Success" "same_sessions n n'"
  | (locked) n4 n5 result d i where "same_sessions n n4" "run_state (login_locked R session uid token device) n4 = (result, n5)"
      "index response ''error'' = err result" "redisd n' = snd (ReleaseLock d (account_lock uid) i (redisd n5))"
      "uid_to_session n' = uid_to_session n5" "clients n' = clients n5"
proof -
  let ?J = "json_lib R"
  obtain status n1 where 1: "run_state (StatusGrpcClient_Login uid token) n = (status, n1)" by (metis prod.exhaust)
  obtain user n2 where 2: "run_state (GetById ?J uid) n1 = (user, n2)" by (metis prod.exhaust)
  obtain applied as n3 where 3: "run_state (Applications ?J uid) n2 = ((applied, as), n3)" by (metis prod.exhaust)
  obtain listed fs n4 where 4: "run_state (FriendList ?J uid) n3 = ((listed, fs), n4)" by (metis prod.exhaust)
  obtain lock s where l: "AcquireLock (lock_connection R) (lock_turns R) (account_lock uid) LOCK_TIME_OUT ACQUIRE_TIME_OUT (lock_identifier R) (redisd n4) = (lock, s)"
    by (metis prod.exhaust)
  obtain result n5 where 5: "run_state (login_locked R session uid token device) (n4\<lparr>redisd := s\<rparr>) = (result, n5)" by (metis prod.exhaust)
  obtain released n6 where 6: "run_state (redis_call (\<lambda>d. ReleaseLock d (account_lock uid) lock)) n5 = (released, n6)" by (metis prod.exhaust)
  note same = state_io_relD [OF spare_services(1) 1] state_io_relD [OF spare_services(2) 2] state_io_relD [OF spare_services(3) 3]
    state_io_relD [OF spare_services(4) 4]
  note run = assms [unfolded SessionService_Login_def Let_def]
  consider (early) "\<not> ValidDevice device \<or> cl_closed session \<or> 0 < cl_uid session \<or> status \<noteq> Success \<or> user = None"
    | (contacts) u where "ValidDevice device" "\<not> cl_closed session" "\<not> 0 < cl_uid session" "status = Success" "user = Some u"
        "applied \<noteq> Success \<or> listed \<noteq> Success \<or> lock = []"
    | (done') u where "ValidDevice device" "\<not> cl_closed session" "\<not> 0 < cl_uid session" "status = Success" "user = Some u"
        "applied = Success" "listed = Success" "lock \<noteq> []"
    by blast
  then show thesis
  proof cases
    case early
    then show thesis using run 1 2 same(1,2) by (intro refused) (auto simp: same_sessions_def split: if_splits)
  next
    case contacts
    then show thesis using run 1 2 3 4 l same
      by (intro refused) (auto simp: same_sessions_def error_of_profile append_items_object split: if_splits)
  next
    case done'
    let ?r = "append_items ''friend_list'' (map (\<lambda>f. WriteProfile ?J f JNull) fs)
      (append_items ''apply_list'' (map (\<lambda>a. WriteApplication a JNull) as) (login_profile ?J u token))"
    have "n' = n6" "response = (if result \<noteq> Success then set_member ''error'' (err result) ?r else ?r)"
      using run done' 1 2 3 4 5 6 l by (auto split: if_splits)
    moreover from this have "index response ''error'' = err result"
      by (auto simp: error_of_profile append_items_object append_items_error)
    ultimately show thesis
      by (cases rule: release_step [OF 6], intro locked [OF _ 5]) (use same in \<open>auto simp: same_sessions_def\<close>)
  qed
qed


section \<open>A login\<close>

definition login_redis :: redis where
  "login_redis = setex (pending_token_key 1 ''t'') ''t'' 300 empty_redis"
definition login_runtime :: runtime where
  "login_runtime = demo_runtime\<lparr>lock_turns := [\<lparr>turn_delivery = Delivered, context_err = False, others = (\<lambda>s. s)\<rparr>]\<rparr>"
definition login_client :: client where "login_client = demo_client\<lparr>cl_uid := 0\<rparr>"
definition login_node :: node where
  "login_node = demo_node\<lparr>redisd := login_redis, clients := [''s'' \<mapsto> login_client]\<rparr>"

lemma db4_quiet: "faults db4 = []" by (simp add: db4_eq db3_eq db2_eq empty_db_def)
lemma demo_contacts: "list_loop J 1 0 0 [] db4 = ((Success, map friend_info (friend_rows (tbl db4) 1 0)), db4)" if "\<And>v. toStyledString J v = []"
proof -
  obtain page where p: "GetFriendPage 1 0 100 db4 = ((True, page), db4)" using quiet_pages(1) [OF db4_quiet, of 1 0 100] by auto
  have "friend_rows (tbl db4) 1 0 = [(\<lparr>fr_self = 1, fr_friend = 2, fr_back = ''Bob'', fr_tags = Some ''[]''\<rparr>, user_of 2 ''bob'' ''b'')]"
    by (simp add: friend_rows_def db4_eq db3_eq db2_eq user_of_def)
  then show ?thesis using GetFriendPage_cases(2) [OF p] that
    by (subst list_loop.simps) (simp add: p page_step_def friend_info_def ReadUserInfo_def user_of_def)
qed
lemma demo_applications: "applications_loop J 1 0 0 [] db4 = ((Success, map apply_info (apply_rows (tbl db4) 1 0)), db4)" if "\<And>v. toStyledString J v = []"
proof -
  obtain page where p: "GetApplyList 1 [] 0 100 db4 = ((True, page), db4)" using quiet_pages(2) [OF db4_quiet, of 1 0 100] by auto
  have "apply_rows (tbl db4) 1 0 = [(\<lparr>ap_id = 1, ap_from = 2, ap_to = 1, ap_descs = ''hi'', ap_back = ''Ann'', ap_status = 1, ap_tags = Some ''[]''\<rparr>, user_of 2 ''bob'' ''b'')]"
    by (simp add: apply_rows_def db4_eq db3_eq db2_eq user_of_def)
  then show ?thesis using GetApplyList_cases(2) [OF p] that
    by (subst applications_loop.simps) (simp add: p page_step_def apply_info_def user_of_def)
qed
lemma demo_user: "\<exists>x. GetUser 1 db4 = (Some x, db4)"
  by (simp add: GetUser_def db4_eq db3_eq db2_eq empty_db_def sql_catch_def sql_bind_def sql_return_def user_of_def)

definition base_key :: string where "base_key = USER_BASE_INFO @ to_string 1"

lemma apart_keys: "pending_token_key u t \<noteq> base_key" "pending_token_key u t \<noteq> lock_key l" "base_key \<noteq> lock_key l" "pending_key u \<noteq> base_key" "pending_key u \<noteq> lock_key l"
  "token_key u d \<noteq> base_key" "token_key u d \<noteq> lock_key l" "ip_key u d \<noteq> base_key" "ip_key u d \<noteq> lock_key l" "lock_key l \<noteq> base_key" "lock_key l \<noteq> pending_token_key u t"
proof -
  have t: "take 2 base_key = ''ub''" "take 2 (lock_key l) = ''lo''" by (simp_all add: base_key_def USER_BASE_INFO_def lock_key_def)
  show "pending_token_key u t \<noteq> base_key" "pending_token_key u t \<noteq> lock_key l" "base_key \<noteq> lock_key l" "pending_key u \<noteq> base_key" "pending_key u \<noteq> lock_key l"
  "token_key u d \<noteq> base_key" "token_key u d \<noteq> lock_key l" "ip_key u d \<noteq> base_key" "ip_key u d \<noteq> lock_key l" "lock_key l \<noteq> base_key" "lock_key l \<noteq> pending_token_key u t"
    by (rule take2_neq, simp add: t key_prefix)+
qed

definition locked_redis :: redis where
  "locked_redis = setex (lock_key (account_lock 1)) ''i'' 30 (put base_key (RStr []) None login_redis)"

lemma token_there: "run_state (token_found (pending_token_key 1 ''t'' # ks) ''t'') ([], s) = (Success, ([], s))"
  if "value_of s (pending_token_key 1 ''t'') = Some ''t''" "0 < ttl s (pending_token_key 1 ''t'')"
  using that by (simp add: token_found.simps run_issue read_live value_not_wrong)

lemma pending_values: "value_of login_redis (pending_token_key 1 ''t'') = Some ''t''" "0 < ttl login_redis (pending_token_key 1 ''t'')"
 "value_of locked_redis (pending_token_key 1 ''t'') = Some ''t''" "0 < ttl locked_redis (pending_token_key 1 ''t'')"
  by (simp_all add: login_redis_def locked_redis_def value_of_def apart_keys ttl_def) (simp_all add: empty_redis_def)

lemma not_live: "live locked_redis (ip_key 1 d) = None" "live locked_redis (token_key 1 d) = None" "live locked_redis (pending_key 1) = None"
  by (simp_all add: locked_redis_def login_redis_def apart_keys)

lemma no_live_value: "live s k = None \<Longrightarrow> value_of s k = None" by (simp add: value_of_def)

lemma demo_registers: "fst (RegisterSession Delivered 1 sid srv ''t'' ''desktop'' locked_redis) = Success"
  by (simp add: pending_values not_live RegisterSession_def ValidDevice_def Evaluate_def command_def register_script_def lua_credential_def lua_or_def wrong_type_def no_live_value
   as_integer_def Let_def ActiveSessionSeconds_def apart_keys)

lemma demo_login: "index (fst (run_state (SessionService_Login login_runtime login_client 1 ''t'' ''desktop'') login_node)) ''error'' = err Success"
proof -
  obtain x where x: "GetUser 1 db4 = (Some x, db4)" using demo_user by auto
  obtain s where g: "RegisterSession Delivered 1 ''s'' ''n'' ''t'' ''desktop'' locked_redis = (Success, s)" using demo_registers [of "''s''" "''n''"] by (metis prod.collapse)
  have f: "run_state (token_found [pending_token_key 1 ''t'', pending_key 1, token_key 1 ''desktop''] ''t'') ([], locked_redis) = (Success, ([], locked_redis))"
    "run_state (token_found (status_keys 1 ''t'') ''t'') ([], login_redis) = (Success, ([], login_redis))"
    using token_there pending_values by (simp_all add: status_keys_def)
  have j: "toStyledString (json_lib login_runtime) v = []" for v by (simp add: login_runtime_def demo_runtime_def demo_json_def)
  have st: "run_state (StatusGrpcClient_Login 1 ''t'') login_node = (Success, login_node)"
    using f by (simp add: StatusGrpcClient_Login_def next_call_def login_node_def demo_node_def redis_run_def StatusServer_Login_def)
  define n2 where "n2 = login_node\<lparr>redisd := put base_key (RStr []) None login_redis\<rparr>"
  have us: "run_state (GetById (json_lib login_runtime) 1) login_node = (Some x, n2)"
    using x by (simp add: GetById_def sql_call_def redis_call_def next_fate_def login_node_def demo_node_def n2_def Set_def command_def SET_def j base_key_def)
  have ap: "\<exists>xs. run_state (Applications (json_lib login_runtime) 1) n2 = ((Success, xs), n2)"
    using demo_applications [OF j] by (simp add: Applications_def sql_call_def n2_def login_node_def demo_node_def)
  have fr: "\<exists>xs. run_state (FriendList (json_lib login_runtime) 1) n2 = ((Success, xs), n2)"
    using demo_contacts [OF j] by (simp add: FriendList_def sql_call_def n2_def login_node_def demo_node_def)
  have lk: "AcquireLock (lock_connection login_runtime) (lock_turns login_runtime) (account_lock 1) LOCK_TIME_OUT ACQUIRE_TIME_OUT (lock_identifier login_runtime) (redisd n2)
     = (''i'', locked_redis)"
    by (simp add: AcquireLock_def login_runtime_def demo_runtime_def Acquire_def account_lock_def LOCK_PREFIX_def LOCK_TIME_OUT_def ACQUIRE_TIME_OUT_def try_lock_def
      command_def SET_NX_EX_def exists_key_def n2_def login_node_def demo_node_def apart_keys login_redis_def IsStatusOk_def locked_redis_def)
  have rd: "Read Delivered (ip_key 1 ''desktop'') False locked_redis = (Missing, locked_redis)"
    by (simp add: not_live no_live_value Read_def command_def GET_def wrong_type_def)
  have rt: "run_state (retire_previous login_runtime login_client 1 ''desktop'') (n2\<lparr>redisd := locked_redis\<rparr>) = (Success, n2\<lparr>redisd := locked_redis\<rparr>)"
    using rd by (simp add: retire_previous_def redis_call_def next_fate_def n2_def login_node_def demo_node_def)
  have lg: "fst (run_state (login_locked login_runtime login_client 1 ''t'' ''desktop'') (n2\<lparr>redisd := locked_redis\<rparr>)) = Success"
    using f rt g by (simp add: login_locked_def redis_run_def redis_call_def next_fate_def n2_def login_node_def demo_node_def login_client_def demo_client_def
       SessionService.BindAuthenticatedUser_def Let_def)
  then obtain n5 where lg: "run_state (login_locked login_runtime login_client 1 ''t'' ''desktop'') (n2\<lparr>redisd := locked_redis\<rparr>) = (Success, n5)" by (metis prod.collapse)
  show ?thesis using st us ap fr lk lg by (auto simp: SessionService_Login_def Let_def ValidDevice_def login_client_def demo_client_def error_of_profile append_items_object append_items_error split: prod.split)
qed


end
