(* ===== verification/ContactLists.thy ===== *)
theory ContactLists
  imports Authority
begin

text \<open>
  The lists a login carries: the loops of \<^verbatim>\<open>FriendService::List\<close> and \<^verbatim>\<open>Applications\<close> end, and over a
  database that the calls of the data access layer produced they return every contact and every application once,
  whatever the number of pages.
\<close>

definition contact_bytes :: "jsoncpp \<Rightarrow> UserInfo list \<Rightarrow> nat" where
  "contact_bytes J xs = sum_list (map (\<lambda>u. length (toStyledString J (WriteProfile J u JNull))) xs)"

definition application_bytes :: "jsoncpp \<Rightarrow> ApplyInfo list \<Rightarrow> nat" where
  "application_bytes J xs = sum_list (map (\<lambda>a. length (toStyledString J (WriteApplication a JNull))) xs)"

lemma stored_keys:
  assumes "database_ok (db c)"
  shows "keyed_contacts (tbl c, u)" "keyed_applications (tbl c, u)"
  using assms by (simp_all add: database_ok_def users_ok_def contacts_ok_def applies_ok_def keyed_contacts_def keyed_applications_def)

lemma contact_ids:
  assumes "database_ok (db c)"
  shows "set (map (\<lambda>x. fr_friend (fst x)) (friend_rows (tbl c) uid 0)) = {b. are_friends (tbl c) uid b}"
proof -
  have f: "has_user (tbl c) b \<and> 0 < b" if "are_friends (tbl c) uid b" for b
    using assms that unfolding database_ok_def contacts_ok_def by blast
  show ?thesis
  proof (intro set_eqI iffI)
    fix b
    assume "b \<in> {b. are_friends (tbl c) uid b}"
    then have u: "has_user (tbl c) b" "0 < b" using f by auto
    from \<open>b \<in> {b. are_friends (tbl c) uid b}\<close> obtain r where r: "r \<in> set (friends_t (tbl c))" "fr_self r = uid" "fr_friend r = b" by (auto simp: are_friends_def)
    moreover obtain u where "u \<in> set (users_t (tbl c))" "u_id u = b" using u(1) by (auto simp: has_user_def)
    ultimately have "(r, u) \<in> set (friend_rows (tbl c) uid 0)" using u(2) by (auto simp: friend_rows_def)
    then show "b \<in> set (map (\<lambda>x. fr_friend (fst x)) (friend_rows (tbl c) uid 0))" using r by force
  qed (auto simp: friend_rows_def are_friends_def)
qed

lemma contact_uid: "x \<in> set (friend_rows t uid k) \<Longrightarrow> ui_uid (friend_info x) = fr_friend (fst x)"
  by (auto simp: friend_rows_def friend_info_def ReadUserInfo_def)

lemma application_id: "ai_id (apply_info x) = ap_id (fst x)" "ai_uid (apply_info x) = ap_from (fst x)"
  by (auto simp: apply_info_def split: prod.split)

text \<open>C25: Reading all contacts of a user ends for every database, and from every database the program can produce
  it returns the whole contact list: every friend exactly once, in the order of their ids, with no other
  user in it. It fails only because the profiles together exceed four megabytes, which is reported as such, or
  because a statement failed; in no case is part of a list returned, and the tables stay as they are.\<close>

theorem contact_list_complete:
  assumes "reachable fresh_database (db_step J' ssl) (mysqld n)" "0 < uid" "run_state (FriendList J uid) n = ((e, contacts), n')"
  shows "tbl (mysqld n') = tbl (mysqld n) \<and>
    (e = Success \<and> set (map ui_uid contacts) = {b. are_friends (tbl (mysqld n)) uid b} \<and> sorted_wrt (<) (map ui_uid contacts) \<and>
       contact_bytes J contacts \<le> MaxBytes \<or>
     e = InternalError \<and> contacts = [] \<and> MaxBytes < contact_bytes J (map friend_info (friend_rows (tbl (mysqld n)) uid 0)) \<or>
     e = DatabaseError \<and> contacts = [] \<and> faults (mysqld n) \<noteq> [])"
proof -
  let ?c = "mysqld n" and ?rows = "friend_rows (tbl (mysqld n)) uid 0"
  have ok: "database_ok (db ?c)" using storage.reachable_inv [OF assms(1)] by (simp add: storage_inv_def)
  obtain c' where l: "list_loop J uid 0 0 [] ?c = ((e, contacts), c')" and n': "n' = n\<lparr>mysqld := c'\<rparr>"
    using assms(2,3) by (auto simp: FriendList_def sql_call_def split: prod.splits)
  have r: "read_all friend_info (\<lambda>u. length (toStyledString J (WriteProfile J u JNull))) 0 [] ?rows ?c ((e, contacts), c')"
    using list_loop_reads [OF stored_keys(1) [OF ok] assms(2), of 0 J 0 "[]"] l by simp
  have names: "map ui_uid (map friend_info ?rows) = map (\<lambda>x. fr_friend (fst x)) ?rows" by (simp add: contact_uid)
  have sorted: "sorted_wrt (<) (map ui_uid (map friend_info ?rows))"
    unfolding names using contacts.ordered [of "(tbl ?c, uid)" 0] stored_keys(1) [OF ok] by (simp add: sorted_wrt_map)
  have ids: "set (map ui_uid (map friend_info ?rows)) = {b. are_friends (tbl ?c) uid b}"
    unfolding names by (rule contact_ids [OF ok])
  from r [unfolded read_all_def Let_def] show ?thesis
    by (elim conjE disjE) (use sorted ids n' in \<open>simp_all add: contact_bytes_def comp_def\<close>)
qed

text \<open>The same for the applications a user received: the loop ends, and it returns exactly those of applicants that
  are users, once each and in the order of their ids.\<close>

theorem application_list_complete:
  assumes "reachable fresh_database (db_step J' ssl) (mysqld n)" "0 < uid" "run_state (Applications J uid) n = ((e, found), n')"
  shows "tbl (mysqld n') = tbl (mysqld n) \<and>
    (e = Success \<and> sorted_wrt (<) (map ai_id found) \<and> application_bytes J found \<le> MaxBytes \<and>
       set (map (\<lambda>a. (ai_id a, ai_uid a)) found) =
         {(ap_id r, ap_from r) | r. r \<in> set (applies_t (tbl (mysqld n))) \<and> ap_to r = uid \<and> 0 < ap_id r \<and> has_user (tbl (mysqld n)) (ap_from r)} \<or>
     e = InternalError \<and> found = [] \<and> MaxBytes < application_bytes J (map apply_info (apply_rows (tbl (mysqld n)) uid 0)) \<or>
     e = DatabaseError \<and> found = [] \<and> faults (mysqld n) \<noteq> [])"
proof -
  let ?c = "mysqld n" and ?rows = "apply_rows (tbl (mysqld n)) uid 0"
  have ok: "database_ok (db ?c)" using storage.reachable_inv [OF assms(1)] by (simp add: storage_inv_def)
  obtain c' where l: "applications_loop J uid 0 0 [] ?c = ((e, found), c')" and n': "n' = n\<lparr>mysqld := c'\<rparr>"
    using assms(2,3) by (auto simp: Applications_def sql_call_def split: prod.splits)
  have r: "read_all apply_info (\<lambda>a. length (toStyledString J (WriteApplication a JNull))) 0 [] ?rows ?c ((e, found), c')"
    using applications_loop_reads [OF stored_keys(2) [OF ok] assms(2), of 0 J 0 "[]"] l by simp
  have sorted: "sorted_wrt (<) (map ai_id (map apply_info ?rows))"
    using applications.ordered [of "(tbl ?c, uid)" 0] stored_keys(2) [OF ok] by (simp add: sorted_wrt_map application_id)
  have ids: "set (map (\<lambda>a. (ai_id a, ai_uid a)) (map apply_info ?rows)) =
      {(ap_id r, ap_from r) | r. r \<in> set (applies_t (tbl ?c)) \<and> ap_to r = uid \<and> 0 < ap_id r \<and> has_user (tbl ?c) (ap_from r)}"
    by (force simp: apply_rows_def has_user_def application_id)
  from r [unfolded read_all_def Let_def] show ?thesis
    by (elim conjE disjE) (use sorted ids n' in \<open>simp_all add: application_bytes_def comp_def\<close>)
qed

theorem contact_list_complete_witness:
  "\<exists>contacts n'. run_state (FriendList demo_json 1) demo_node = ((Success, contacts), n') \<and> set (map ui_uid contacts) = {2}"
proof -
  obtain e contacts n' where r: "run_state (FriendList demo_json 1) demo_node = ((e, contacts), n')" by (metis prod.exhaust)
  have "tbl (mysqld demo_node) = tbl db4" "faults (mysqld demo_node) = []" by (simp_all add: demo_node_def db4_eq db3_eq db2_eq empty_db_def)
  moreover have "contact_bytes demo_json xs = 0" for xs by (simp add: contact_bytes_def demo_json_def)
  moreover have "{b. are_friends (tbl db4) 1 b} = {2}" by (auto simp: are_friends_def db4_eq)
  ultimately show ?thesis
    using contact_list_complete [OF _ _ r, of demo_json demo_ssl] demo_states(2) r by (auto simp: demo_node_def)
qed

theorem application_list_complete_witness:
  "\<exists>found n'. run_state (Applications demo_json 1) demo_node = ((Success, found), n') \<and> set (map (\<lambda>a. (ai_id a, ai_uid a)) found) = {(1, 2)}"
proof -
  obtain e found n' where r: "run_state (Applications demo_json 1) demo_node = ((e, found), n')" by (metis prod.exhaust)
  have "tbl (mysqld demo_node) = tbl db4" "faults (mysqld demo_node) = []" by (simp_all add: demo_node_def db4_eq db3_eq db2_eq empty_db_def)
  moreover have "application_bytes demo_json xs = 0" for xs by (simp add: application_bytes_def demo_json_def)
  moreover have "{(ap_id r, ap_from r) | r. r \<in> set (applies_t (tbl db4)) \<and> ap_to r = 1 \<and> 0 < ap_id r \<and> has_user (tbl db4) (ap_from r)} = {(1, 2)}"
    by (auto simp: db4_eq db3_eq db2_eq has_user_def user_of_def)
  ultimately show ?thesis
    using application_list_complete [OF _ _ r, of demo_json demo_ssl] demo_states(2) r by (auto simp: demo_node_def)
qed

end
