(* ===== verification/PeerService.thy ===== *)
theory PeerService
  imports Authority
begin

text \<open>
  What a chat node does for another server: the calls of other chat nodes (\<^verbatim>\<open>ChatServiceImpl.cpp\<close>) and the
  resource server's question whether a user is in a group (\<^verbatim>\<open>MediaAuthorizationService.cpp\<close>). Every handler is a
  service of the node that returns gRPC's status and the error of the reply; an exception that leaves a handler is
  the status \<^verbatim>\<open>UNKNOWN\<close>.
\<close>

datatype grpc_status = StatusOK | PermissionDenied | InvalidArgument | StatusUnknown

section \<open>Calls of other chat nodes\<close>

definition starts_with :: "string \<Rightarrow> string \<Rightarrow> bool" where
  "starts_with prefix text \<longleftrightarrow> take (length prefix) text = prefix"

definition ChatServiceImpl_RelayVoice :: "string \<Rightarrow> int \<Rightarrow> string \<Rightarrow> string \<Rightarrow> bool \<Rightarrow> bool \<Rightarrow> (grpc_status \<times> ErrorCodes) svc" where
  "ChatServiceImpl_RelayVoice peer uid session payload audio video =
     (if \<not> starts_with ''ipv4:127.0.0.1:'' peer \<and> \<not> starts_with ''ipv6:[::1]:'' peer then give (PermissionDenied, VoiceOffline)
      else if (audio \<and> video) \<or> (if video then 9000 else 2048) < length payload then give (InvalidArgument, VoiceOffline)
      else do {
        targets \<leftarrow> reads (GetSessions uid);
        case find (\<lambda>target. \<not> cl_closed target \<and> cl_id target = session) targets of
          None \<Rightarrow> give (StatusOK, VoiceOffline)
        | Some target \<Rightarrow> do {
            send target payload (if video then ID_VIDEO_IMAGE else if audio then ID_VOICE_AUDIO else ID_VOICE_EVENT);
            give (StatusOK, Success) } })"

definition ChatServiceImpl_NotifyAddFriend :: "runtime \<Rightarrow> int \<Rightarrow> int \<Rightarrow> string \<Rightarrow> string \<Rightarrow> (grpc_status \<times> ErrorCodes) svc" where
  "ChatServiceImpl_NotifyAddFriend R applyuid touid name desc = do {
     sessions \<leftarrow> reads (GetSessions touid);
     each (\<lambda>session. send session (toStyledString (json_lib R) (set_members
       [(''error'', err Success), (''applyuid'', JInt applyuid), (''name'', JStr name), (''desc'', JStr desc)] JNull))
         ID_NOTIFY_ADD_FRIEND_REQ) sessions;
     give (StatusOK, Success) }"

definition ChatServiceImpl_NotifyAuthFriend :: "runtime \<Rightarrow> int \<Rightarrow> int \<Rightarrow> (grpc_status \<times> ErrorCodes) svc" where
  "ChatServiceImpl_NotifyAuthFriend R from to =
     (if from \<le> 0 \<or> to \<le> 0 \<or> from = to then give (StatusOK, UidInvalid)
      else do {
        NotifyAccepted (json_lib R) from to (set_member ''error'' (err Success) JNull);
        give (StatusOK, Success) })"

definition relayed_item :: "int \<Rightarrow> int \<Rightarrow> int \<Rightarrow> ChatMessage \<Rightarrow> json" where
  "relayed_item from to thread m = set_members
     [(''message_id'', JInt (cm_message_id m)), (''thread_id'', JInt thread), (''sender'', JInt from), (''recv_id'', JInt to),
      (''unique_id'', JStr (cm_unique_id m)), (''content'', JStr (cm_content m)), (''msg_content'', JStr (cm_content m)),
      (''chat_time'', JStr (cm_chat_time m)), (''status'', JInt (cm_status m)), (''msg_type'', JInt (cm_msg_type m)),
      (''media_size'', JInt (int (cm_media_size m)))] JNull"

definition relayed_notice :: "int \<Rightarrow> int \<Rightarrow> int \<Rightarrow> ChatMessage list \<Rightarrow> json" where
  "relayed_notice from to thread messages = set_members
     [(''error'', err Success), (''fromuid'', JInt from), (''touid'', JInt to), (''thread_id'', JInt thread),
      (''chat_datas'', fold (\<lambda>m items. jappend items (relayed_item from to thread m)) messages JNull)] JNull"

definition ChatServiceImpl_NotifyTextChatMsg :: "runtime \<Rightarrow> int \<Rightarrow> int \<Rightarrow> int \<Rightarrow> ChatMessage list \<Rightarrow> (grpc_status \<times> ErrorCodes) svc" where
  "ChatServiceImpl_NotifyTextChatMsg R from to thread messages = do {
     sessions \<leftarrow> reads (GetSessions to);
     if sessions = [] then give (StatusOK, Success)
     else let notice = relayed_notice from to thread messages in do {
       (code, group_json) \<leftarrow> sql_call (GetGroup to thread JNull False);
       checked \<leftarrow> (if code = Success then do {
           sender \<leftarrow> sql_call (GetUser from);
           let named = (case sender of None \<Rightarrow> group_json
             | Some u \<Rightarrow> set_member ''member_names'' (set_member (to_string from) (JStr (ui_name u)) (index group_json ''member_names'')) group_json);
           give (Some (set_members [(''group'', named), (''touid'', JInt 0)] notice)) }
         else do {
           access \<leftarrow> sql_call (CheckPrivateChatAccess to thread);
           give (if access \<noteq> Success then None else Some notice) });
       case checked of None \<Rightarrow> give (StatusOK, Success)
       | Some value \<Rightarrow> do {
           ok \<leftarrow> each (notify_client (json_lib R) value) sessions;
           give (if ok then StatusOK else StatusUnknown, Success) } } }"

text \<open>The device comes in the call's metadata; a caller that sends none means the desktop.\<close>

definition ChatServiceImpl_NotifyKickUser :: "runtime \<Rightarrow> int \<Rightarrow> string option \<Rightarrow> (grpc_status \<times> ErrorCodes) svc" where
  "ChatServiceImpl_NotifyKickUser R uid metadata =
     (let device = (case metadata of None \<Rightarrow> ''desktop'' | Some d \<Rightarrow> d) in
      if uid \<le> 0 then give (StatusOK, UidInvalid)
      else if \<not> ValidDevice device then give (StatusOK, Error_Json)
      else do {
        session \<leftarrow> reads (GetSession uid device);
        case session of None \<Rightarrow> give (StatusOK, Success)
        | Some c \<Rightarrow> do { notify_offline (json_lib R) c uid; give (StatusOK, Success) } })"

definition ChatServiceImpl_NotifyDeleteFriend :: "runtime \<Rightarrow> int \<Rightarrow> int \<Rightarrow> (grpc_status \<times> ErrorCodes) svc" where
  "ChatServiceImpl_NotifyDeleteFriend R from to =
     (if to \<le> 0 \<or> from \<le> 0 \<or> to = from then give (StatusOK, UidInvalid)
      else do { NotifyDeleted (json_lib R) to from; give (StatusOK, Success) })"

text \<open>A call that arrives, with the address it comes from.\<close>

definition answer_call :: "runtime \<Rightarrow> string \<Rightarrow> rpc \<Rightarrow> (grpc_status \<times> ErrorCodes) svc" where
  "answer_call R peer request = (case request of
       NotifyAddFriend applyuid touid name desc \<Rightarrow> ChatServiceImpl_NotifyAddFriend R applyuid touid name desc
     | NotifyAuthFriend from to \<Rightarrow> ChatServiceImpl_NotifyAuthFriend R from to
     | NotifyTextChatMsg from to thread messages \<Rightarrow> ChatServiceImpl_NotifyTextChatMsg R from to thread messages
     | NotifyDeleteFriend from to \<Rightarrow> ChatServiceImpl_NotifyDeleteFriend R from to
     | NotifyKickUser uid device \<Rightarrow> ChatServiceImpl_NotifyKickUser R uid (Some device)
     | RelayVoice uid session payload audio video \<Rightarrow> ChatServiceImpl_RelayVoice peer uid session payload audio video)"

section \<open>Media authorization\<close>

definition active_on :: "int \<Rightarrow> string \<Rightarrow> string \<Rightarrow> bool svc" where
  "active_on uid token device = do {
     active \<leftarrow> redis_call (\<lambda>d. Read d (token_key uid device) True);
     give (active = Found token) }"

definition AuthorizeGroup :: "bool \<Rightarrow> int \<Rightarrow> string \<Rightarrow> int \<Rightarrow> (grpc_status \<times> ErrorCodes) svc" where
  "AuthorizeGroup cancelled uid token thread =
     (if cancelled \<or> uid \<le> 0 \<or> thread \<le> 0 \<or> token = [] \<or> 512 < length token then give (StatusOK, GroupForbidden)
      else do {
        desktop \<leftarrow> active_on uid token ''desktop'';
        authenticated \<leftarrow> (if desktop then give True else active_on uid token ''android'');
        if \<not> authenticated then give (StatusOK, GroupForbidden)
        else do {
          (code, g) \<leftarrow> sql_call (GetGroup uid thread JNull False);
          give (StatusOK, code) } })"

section \<open>Nothing is sent without a check\<close>

text \<open>
  The relation of a service that reads the database, leaves the sessions as they are and sends nothing but events with
  a property, in states that agree with a given one.
\<close>

definition agrees :: "node \<Rightarrow> node \<Rightarrow> bool" where
  "agrees n0 n \<longleftrightarrow> tbl (mysqld n) = tbl (mysqld n0) \<and> saved (mysqld n) = None \<and> clients n = clients n0 \<and> uid_to_session n = uid_to_session n0"

definition tells :: "node \<Rightarrow> (event \<Rightarrow> bool) \<Rightarrow> node \<Rightarrow> node \<Rightarrow> bool" where
  "tells n0 P n n' \<longleftrightarrow> (agrees n0 n \<longrightarrow> agrees n0 n' \<and> (\<exists>es. events n' = events n @ es \<and> list_all P es))"

lemma tells_refl [simp]: "tells n0 P n n"
  by (simp add: tells_def)

lemma tells_transp: "transp (tells n0 P)"
  by (rule transpI) (auto simp: tells_def)

named_theorems telling \<open>services that tell only what was checked\<close>

lemma telling_basic [telling]: "state_io_rel (tells n0 P) (give x)" "state_io_rel (tells n0 P) (reads f)"
  by (auto intro!: io_give io_reads)

lemma telling_send [telling]: "(\<And>body i. P (Sent (cl_id c) (message_id_value i) body)) \<Longrightarrow> state_io_rel (tells n0 P) (send c body i)"
  by (auto simp: send_def emit_def state_io_rel_def tells_def agrees_def)

lemma telling_sql:
  assumes "\<And>c. saved c = None \<Longrightarrow> unchanged_by c (snd (f c))"
  shows "state_io_rel (tells n0 P) (sql_call f)"
proof
  fix a n n'
  assume r: "run_state (sql_call f) n = (a, n')"
  show "tells n0 P n n'"
    unfolding tells_def
  proof
    assume g: "agrees n0 n"
    then have "unchanged_by (mysqld n) (snd (f (mysqld n)))" using assms by (simp add: agrees_def)
    then show "agrees n0 n' \<and> (\<exists>es. events n' = events n @ es \<and> list_all P es)"
      using r g by (auto simp: sql_call_def agrees_def unchanged_by_def split: prod.splits)
  qed
qed

lemma telling_reads [telling]:
  "state_io_rel (tells n0 P) (sql_call (GetGroup a i doc b))" "state_io_rel (tells n0 P) (sql_call (CheckFriendship a k))"
  "state_io_rel (tells n0 P) (sql_call (CheckPrivateChatAccess a i))" "state_io_rel (tells n0 P) (sql_call (GetUser u))"
  "state_io_rel (tells n0 P) (sql_call (GetFriendMetadata a k out))" "state_io_rel (tells n0 P) (sql_call (GetAvatar u))"
  by (rule telling_sql; auto simp: GetUser_def CheckFriendship_def GetFriendMetadata_def CheckPrivateChatAccess_def GetAvatar_def
      Let_def intro: unchanged_select GetGroup_reads)+

lemmas telling_each [telling] = io_each [OF tells_transp tells_refl]

text \<open>A sequence: what the first part can return in an agreeing state is known in the second.\<close>

definition may_return :: "node \<Rightarrow> 'a svc \<Rightarrow> 'a \<Rightarrow> bool" where
  "may_return n0 m x \<longleftrightarrow> (\<exists>n n'. agrees n0 n \<and> run_state m n = (x, n'))"

lemma telling_bind [telling]:
  assumes "state_io_rel (tells n0 P) m" "\<And>x. may_return n0 m x \<Longrightarrow> state_io_rel (tells n0 P) (f x)"
  shows "state_io_rel (tells n0 P) (State_Monad.bind m f)"
proof
  fix a n n'
  assume "run_state (State_Monad.bind m f) n = (a, n')"
  then obtain x n1 where r: "run_state m n = (x, n1)" "run_state (f x) n1 = (a, n')" by (auto split: prod.splits)
  show "tells n0 P n n'"
  proof (cases "agrees n0 n")
    case True
    then have "may_return n0 m x" using r(1) by (auto simp: may_return_def)
    then have "tells n0 P n n1" "tells n0 P n1 n'" using r assms by (auto dest: state_io_relD)
    then show ?thesis using tells_transp by (rule transpD [rotated])
  qed (simp add: tells_def)
qed

lemma telling_prod: "(\<And>x y. v = (x, y) \<Longrightarrow> state_io_rel R (f x y)) \<Longrightarrow> state_io_rel R (case v of (x, y) \<Rightarrow> f x y)"
  by (cases v) simp

lemmas telling_splits [telling] = serves_if serves_option telling_prod serves_let

lemma may_reads [simp]: "may_return n0 (reads (GetSessions u)) x \<Longrightarrow> x = GetSessions u n0"
  by (auto simp: may_return_def GetSessions_def agrees_def)

lemma may_give [simp]: "may_return n0 (give y) x \<Longrightarrow> x = y"
  by (auto simp: may_return_def)

lemma may_sql:
  assumes "may_return n0 (sql_call f) x"
  obtains n c' where "agrees n0 n" "f (mysqld n) = (x, c')"
proof -
  from assms obtain n n' where n: "agrees n0 n" "run_state (sql_call f) n = (x, n')" unfolding may_return_def by blast
  obtain y c' where "f (mysqld n) = (y, c')" by force
  with n show thesis by (intro that [of n c']) (simp_all add: sql_call_def)
qed

lemma connection_result:
  assumes "with_connection x m c = (r, c')" "r \<noteq> x"
  obtains c1 where "m c1 = (r, c')" "db c1 = db c" "saved c1 = saved c"
  using assms by (cases rule: with_connection_cases) auto

lemma friendship_checked:
  assumes "may_return n0 (sql_call (CheckFriendship a b)) e"
  shows "e = Success \<Longrightarrow> are_friends (tbl (mysqld n0)) a b" "e = FriendNotFound \<Longrightarrow> \<not> are_friends (tbl (mysqld n0)) a b"
proof -
  from assms obtain n c' where g: "agrees n0 n" "CheckFriendship a b (mysqld n) = (e, c')"
    by (rule may_sql)
  { assume "e = Success \<or> e = FriendNotFound"
    with g(2) have w: "with_connection DatabaseError (sql_catch (\<lambda>_. DatabaseError)
        (sql_bind (select (\<lambda>d. are_friends (rows d) a b)) (\<lambda>found. sql_return (if found then Success else FriendNotFound)))) (mysqld n) = (e, c')"
      and "e \<noteq> DatabaseError"
      by (auto simp: CheckFriendship_def split: if_splits)
    from connection_result [OF this] obtain c1 where c1: "sql_catch (\<lambda>_. DatabaseError)
        (sql_bind (select (\<lambda>d. are_friends (rows d) a b)) (\<lambda>found. sql_return (if found then Success else FriendNotFound))) c1 = (e, c')"
      "db c1 = db (mysqld n)" by blast
    from c1(1) have "e = DatabaseError \<or> e = (if are_friends (rows (db c1)) a b then Success else FriendNotFound)"
      by (cases rule: select_cases) simp_all
    with c1(2) have "e = DatabaseError \<or> e = (if are_friends (tbl (mysqld n)) a b then Success else FriendNotFound)" by simp }
  note known = this
  show "e = Success \<Longrightarrow> are_friends (tbl (mysqld n0)) a b" "e = FriendNotFound \<Longrightarrow> \<not> are_friends (tbl (mysqld n0)) a b"
    using known g(1) by (auto simp: agrees_def split: if_splits)
qed

lemma access_checked:
  assumes "may_return n0 (sql_call (CheckPrivateChatAccess u i)) Success"
  shows "\<exists>p\<in>set (privates_t (tbl (mysqld n0))). pc_thread p = i \<and> accessible_private (tbl (mysqld n0)) u p"
proof -
  from assms obtain n c' where g: "agrees n0 n" "CheckPrivateChatAccess u i (mysqld n) = (Success, c')"
    by (rule may_sql)
  then have "with_connection DatabaseError (sql_catch (\<lambda>_. DatabaseError)
      (sql_bind (select (\<lambda>d. \<exists>p\<in>set (privates_t (rows d)). pc_thread p = i \<and> accessible_private (rows d) u p))
        (\<lambda>found. sql_return (if found then Success else FriendNotFound)))) (mysqld n) = (Success, c')"
    by (simp add: CheckPrivateChatAccess_def split: if_splits)
  from connection_result [OF this] obtain c1 where c1: "db c1 = db (mysqld n)" "sql_catch (\<lambda>_. DatabaseError)
      (sql_bind (select (\<lambda>d. \<exists>p\<in>set (privates_t (rows d)). pc_thread p = i \<and> accessible_private (rows d) u p))
        (\<lambda>found. sql_return (if found then Success else FriendNotFound))) c1 = (Success, c')"
    by blast
  from c1(2) have "\<exists>p\<in>set (privates_t (rows (db c1))). pc_thread p = i \<and> accessible_private (rows (db c1)) u p"
    by (cases rule: select_cases) (auto split: if_splits)
  then show ?thesis using c1(1) g(1) by (simp add: agrees_def)
qed

lemma group_checked:
  assumes "may_return n0 (sql_call (GetGroup u i doc b)) (Success, g)"
  shows "is_member (tbl (mysqld n0)) i u \<and> find_group (tbl (mysqld n0)) i \<noteq> None"
proof -
  let ?work = "sql_bind (select (\<lambda>d. find_group (rows d) i \<noteq> None)) (\<lambda>found.
     if \<not> found then sql_return (False, GroupForbidden, doc)
     else sql_bind (IsMember u i) (\<lambda>m.
       if \<not> m then sql_return (False, GroupForbidden, doc)
       else sql_bind (ReadGroup i b) (\<lambda>g. sql_return (True, Success, g))))"
  from assms obtain n c' where n: "agrees n0 n" "GetGroup u i doc b (mysqld n) = ((Success, g), c')"
    by (rule may_sql)
  then have "with_connection (DatabaseError, doc) (catch_out doc ?work) (mysqld n) = ((Success, g), c')"
    by (simp add: GetGroup_def split: if_splits)
  from connection_result [OF this] obtain c1 where c1: "db c1 = db (mysqld n)" "saved c1 = saved (mysqld n)"
    "catch_out doc ?work c1 = ((Success, g), c')" by blast
  then have "transaction ?work c1 = (Inr (Success, g), c')" by (auto simp: catch_out_def split: prod.splits sum.splits)
  moreover have "framed ?work" by (intro reading_framed reading_rules reading_groups)
  moreover have "saved c1 = None" using c1(2) n(1) by (simp add: agrees_def)
  ultimately show ?thesis
  proof (cases rule: transaction_cases)
    case unchanged
    then show ?thesis
      using c1(1) n(1) by (auto simp: IsMember_def agrees_def split: if_splits dest!: gives_select)
  next
    case (committed x c2 c3)
    then show ?thesis
      using c1(1) n(1) by (auto simp: IsMember_def agrees_def begun_def split: if_splits dest!: gives_select)
  qed
qed

section \<open>The calls of other nodes\<close>

text \<open>Whose sessions a call is for, and what has to hold in the database for them to be told.\<close>

definition callee :: "rpc \<Rightarrow> int" where
  "callee request = (case request of NotifyAddFriend applyuid touid name desc \<Rightarrow> touid | NotifyAuthFriend from to \<Rightarrow> to
     | NotifyTextChatMsg from to thread messages \<Rightarrow> to | NotifyDeleteFriend from to \<Rightarrow> to | NotifyKickUser uid device \<Rightarrow> uid
     | RelayVoice uid session payload audio video \<Rightarrow> uid)"

definition may_read_thread :: "tables \<Rightarrow> int \<Rightarrow> int \<Rightarrow> bool" where
  "may_read_thread t uid thread \<longleftrightarrow> is_member t thread uid \<and> find_group t thread \<noteq> None \<or>
     (\<exists>p\<in>set (privates_t t). pc_thread p = thread \<and> accessible_private t uid p)"

definition entitled :: "tables \<Rightarrow> string \<Rightarrow> rpc \<Rightarrow> bool" where
  "entitled t peer request = (case request of NotifyAuthFriend from to \<Rightarrow> are_friends t to from
     | NotifyTextChatMsg from to thread messages \<Rightarrow> may_read_thread t to thread
     | NotifyDeleteFriend from to \<Rightarrow> \<not> are_friends t to from
     | RelayVoice uid session payload audio video \<Rightarrow> starts_with ''ipv4:127.0.0.1:'' peer \<or> starts_with ''ipv6:[::1]:'' peer
     | _ \<Rightarrow> True)"

definition notice_to :: "client list \<Rightarrow> bool \<Rightarrow> event \<Rightarrow> bool" where
  "notice_to targets valid e \<longleftrightarrow> valid \<and> (\<exists>c\<in>set targets. \<exists>i body. e = Sent (cl_id c) (message_id_value i) body)"

lemma telling_redis [telling]: "state_io_rel (tells n0 P) (redis_call f)"
  by (auto simp: redis_call_def next_fate_def state_io_rel_def tells_def agrees_def split: prod.splits list.splits)

lemma telling_GetById [telling]: "state_io_rel (tells n0 P) (GetById J u)"
  unfolding GetById_def by (intro telling)

lemma telling_notify:
  assumes "c \<in> set targets" "valid"
  shows "state_io_rel (tells n0 (notice_to targets valid)) (send c body i)"
    "state_io_rel (tells n0 (notice_to targets valid)) (notify_client J payload c)"
  unfolding notify_client_def using assms by (auto simp: notice_to_def intro!: telling split: option.split)

lemma tells_NotifyAddFriend:
  "state_io_rel (tells n0 (notice_to (GetSessions to n0) True)) (ChatServiceImpl_NotifyAddFriend R from to name desc)"
  unfolding ChatServiceImpl_NotifyAddFriend_def by (intro telling telling_notify) (auto dest!: may_reads)

lemma tells_NotifyAccepted:
  "state_io_rel (tells n0 (notice_to (GetSessions to n0) (are_friends (tbl (mysqld n0)) to from))) (NotifyAccepted J from to notification)"
  unfolding NotifyAccepted_def
  by (intro telling telling_notify) (auto dest!: may_reads may_give dest: friendship_checked split: if_splits)

lemma tells_NotifyDeleted:
  "state_io_rel (tells n0 (notice_to (GetSessions to n0) (\<not> are_friends (tbl (mysqld n0)) to from))) (NotifyDeleted J to from)"
  unfolding NotifyDeleted_def
  by (intro telling telling_notify) (auto dest!: may_reads may_give dest: friendship_checked split: if_splits)

lemma tells_RelayVoice:
  "state_io_rel (tells n0 (notice_to (GetSessions uid n0) (starts_with ''ipv4:127.0.0.1:'' peer \<or> starts_with ''ipv6:[::1]:'' peer)))
    (ChatServiceImpl_RelayVoice peer uid session payload audio video)"
  unfolding ChatServiceImpl_RelayVoice_def
  by (intro telling telling_notify) (auto dest!: may_reads simp: find_Some_iff)

lemma may_bind:
  assumes "state_io_rel (tells n0 (\<lambda>_. True)) m" "may_return n0 (State_Monad.bind m f) x"
  obtains y where "may_return n0 m y" "may_return n0 (f y) x"
proof -
  from assms(2) obtain n n' where n: "agrees n0 n" "run_state (State_Monad.bind m f) n = (x, n')"
    unfolding may_return_def by blast
  obtain y n1 where y: "run_state m n = (y, n1)" by force
  with n have r: "agrees n0 n" "run_state m n = (y, n1)" "run_state (f y) n1 = (x, n')" by simp_all
  then have "agrees n0 n1" using state_io_relD [OF assms(1) r(2)] by (simp add: tells_def)
  with r have "may_return n0 m y" "may_return n0 (f y) x" unfolding may_return_def by blast+
  then show thesis by (rule that)
qed

lemma tells_NotifyTextChatMsg:
  "state_io_rel (tells n0 (notice_to (GetSessions to n0) (may_read_thread (tbl (mysqld n0)) to thread)))
    (ChatServiceImpl_NotifyTextChatMsg R from to thread messages)"
proof -
  have checked: "may_read_thread (tbl (mysqld n0)) to thread"
    if "may_return n0 (sql_call (GetGroup to thread JNull False)) (e, g)"
      "may_return n0 (if e = Success then do {
           sender \<leftarrow> sql_call (GetUser from);
           let named = (case sender of None \<Rightarrow> g
             | Some u \<Rightarrow> set_member ''member_names'' (set_member (to_string from) (JStr (ui_name u)) (index g ''member_names'')) g);
           give (Some (set_members [(''group'', named), (''touid'', JInt 0)] (relayed_notice from to thread messages))) }
         else do {
           access \<leftarrow> sql_call (CheckPrivateChatAccess to thread);
           give (if access \<noteq> Success then None else Some (relayed_notice from to thread messages)) }) (Some v)" for e g v
  proof (cases "e = Success")
    case True
    then show ?thesis using group_checked that(1) by (auto simp: may_read_thread_def)
  next
    case False
    with that(2) obtain access where "may_return n0 (sql_call (CheckPrivateChatAccess to thread)) access" "access = Success"
      by (auto elim!: may_bind [OF telling_reads(3)] dest!: may_give split: if_splits)
    then show ?thesis using access_checked by (auto simp: may_read_thread_def)
  qed
  show ?thesis
    unfolding ChatServiceImpl_NotifyTextChatMsg_def
    by (intro telling telling_notify) (auto dest!: may_reads intro: checked)
qed


text \<open>Bob writes to Ann from another node; she is told.\<close>

definition listening_node :: node where
  "listening_node = demo_node\<lparr>uid_to_session := (\<lambda>uid. if uid = 1 then [(''desktop'', ''s'')] else [])\<rparr>"

definition bob_message :: ChatMessage where
  "bob_message = \<lparr>cm_message_id = 3, cm_thread_id = 1, cm_sender_id = 2, cm_recv_id = 1, cm_unique_id = ''u'', cm_content = ''hi'',
     cm_chat_time = ''2026-01-01 00:00:00'', cm_status = 2, cm_msg_type = 0, cm_media_size = 0\<rparr>"

lemma present_plain: "asInt (get_default v ''msg_type'' (JInt 0)) = Some 0 \<Longrightarrow> PresentMessage a b v = Some v"
  by (simp add: PresentMessage_def)


end
