(* ===== verification/ResourceStore.thy ===== *)
theory ResourceStore
  imports PeerService
begin

text \<open>
  The resource server's store (\<^verbatim>\<open>ResourceStore.cpp\<close>, \<^verbatim>\<open>ResourceProtocol.h\<close>,
  \<^verbatim>\<open>ResourceAuthorizer.cpp\<close>): uploads of pictures, files and voice messages in pieces, their completion, and
  downloads. Its state is the disk, the Redis it shares with the chat nodes and a chat node that it asks about
  group membership. A file identifier is 32 hexadecimal digits, so a path is its folder, the identifier and the
  suffix; the file system distinguishes upper and lower case. Requests for one file are serialised by the code's locks,
  and requests for different files touch different paths, so a request is one step. File operations that can fail consume
  a fate: they succeed, fail, or write a part only. That an existing metadata file cannot be opened is a
  list of its own, because the code takes it for a missing one. A connection of Redis that cannot be made is a
  command that is not delivered.
\<close>

unbundle bit_operations_syntax

section \<open>State\<close>

datatype folder = RootFolder | GroupsFolder | AudioFolder | FilesFolder
datatype suffix = MetaFile | PartFile | DoneFile

type_synonym path = "folder \<times> string \<times> suffix"

datatype io_fate = IoOk | IoFails | IoShort nat bool

record media =
  chat :: node
  disk :: "path \<Rightarrow> string option"
  io_fates :: "io_fate list"
  opens :: "bool list"

text \<open>\<^verbatim>\<open>operator<<\<close> and \<^verbatim>\<open>operator>>\<close> of \<^verbatim>\<open>Json::Value\<close> (the latter throws), SHA-256 and the number of
  chat nodes to ask, beside the runtime of the chat nodes.\<close>

record resource_lib = runtime +
  stream_out :: "json \<Rightarrow> string"
  stream_in :: "string \<Rightarrow> json option"
  sha256_digest :: "string \<Rightarrow> 8 word list"
  stubs :: nat

text \<open>A computation that ends early with a reply; an exception is the reply the session sends for it.\<close>

type_synonym 'a job = "(media, json + 'a) state"

definition ResourceError :: "string \<Rightarrow> json" where
  "ResourceError message = set_members [(''ok'', JBool False), (''error'', JStr message)] JNull"

abbreviation pass :: "'a \<Rightarrow> 'a job" where
  "pass x \<equiv> State_Monad.return (Inr x)"

abbreviation reject :: "string \<Rightarrow> 'a job" where
  "reject reason \<equiv> State_Monad.return (Inl (ResourceError reason))"

definition throw :: "'a job" where
  "throw = reject ''resource operation failed''"

definition attempt :: "'a job \<Rightarrow> ('a \<Rightarrow> 'b job) \<Rightarrow> 'b job" where
  "attempt m f = do { r \<leftarrow> m; case r of Inl reply \<Rightarrow> State_Monad.return (Inl reply) | Inr x \<Rightarrow> f x }"

definition converted :: "'a option \<Rightarrow> 'a job" where
  "converted v = (case v of None \<Rightarrow> throw | Some x \<Rightarrow> pass x)"

definition on_chat :: "'a svc \<Rightarrow> 'a job" where
  "on_chat s = State (\<lambda>m. case run_state s (chat m) of (x, n) \<Rightarrow> (Inr x, m\<lparr>chat := n\<rparr>))"

definition seeing :: "(media \<Rightarrow> 'a) \<Rightarrow> 'a job" where
  "seeing f = State (\<lambda>m. (Inr (f m), m))"

definition next_io :: "io_fate job" where
  "next_io = State (\<lambda>m. case io_fates m of [] \<Rightarrow> (Inr IoOk, m) | f # fs \<Rightarrow> (Inr f, m\<lparr>io_fates := fs\<rparr>))"

definition put_file :: "path \<Rightarrow> string option \<Rightarrow> unit job" where
  "put_file p content = State (\<lambda>m. (Inr (), m\<lparr>disk := (disk m)(p := content)\<rparr>))"

section \<open>Limits\<close>

definition kChunkSize :: nat where "kChunkSize = 32 * 1024"
definition kMaximumImageSize :: nat where "kMaximumImageSize = 20 * 1024 * 1024"
definition kMaximumPacketSize :: nat where "kMaximumPacketSize = 60 * 1024"
definition kUploadInitRequest :: nat where "kUploadInitRequest = 1050"
definition kUploadChunkRequest :: nat where "kUploadChunkRequest = 1052"
definition kDownloadRequest :: nat where "kDownloadRequest = 1054"

section \<open>Redis\<close>

primrec authenticated_by :: "string list \<Rightarrow> int \<Rightarrow> string \<Rightarrow> bool svc" where
  "authenticated_by [] uid token = give False"
| "authenticated_by (suffix # suffixes) uid token = do {
     reply \<leftarrow> redis_call (\<lambda>d. command d (read_script (''resource_token_'' @ to_string uid @ suffix)));
     if reply = Some (RString token) then give True else authenticated_by suffixes uid token }"

definition Authenticated :: "int \<Rightarrow> string \<Rightarrow> bool svc" where
  "Authenticated uid token = (if uid \<le> 0 \<or> token = [] then give False else authenticated_by [[], '':android''] uid token)"

definition ready_key :: "string \<Rightarrow> string" where
  "ready_key i = ''resource_ready_'' @ i"

definition ready_value :: "int \<Rightarrow> int \<Rightarrow> nat \<Rightarrow> int \<Rightarrow> int \<Rightarrow> string" where
  "ready_value sender recipient size_bytes thread type =
     (if type = 3 then ''audio:'' else if type = 2 then ''file:'' else []) @
     (if 0 < thread then ''group:'' @ to_string sender @ '':'' @ to_string thread @ '':'' @ to_string (int size_bytes)
      else to_string sender @ '':'' @ to_string recipient @ '':'' @ to_string (int size_bytes))"

definition MarkReady :: "string \<Rightarrow> int \<Rightarrow> int \<Rightarrow> nat \<Rightarrow> int \<Rightarrow> int \<Rightarrow> bool svc" where
  "MarkReady i sender recipient size_bytes thread type = do {
     reply \<leftarrow> redis_call (\<lambda>d. command d (SET (ready_key i) (ready_value sender recipient size_bytes thread type)));
     give (reply = Some (RStatus ''OK'')) }"

section \<open>Files\<close>

definition ResourceStore_ValidId :: "string \<Rightarrow> bool" where
  "ResourceStore_ValidId i \<longleftrightarrow> length i = 32 \<and> list_all isxdigit i"

definition MetaPath :: "(path \<Rightarrow> string option) \<Rightarrow> string \<Rightarrow> path" where
  "MetaPath d i =
     (if d (FilesFolder, i, MetaFile) \<noteq> None then (FilesFolder, i, MetaFile)
      else if d (AudioFolder, i, MetaFile) \<noteq> None then (AudioFolder, i, MetaFile)
      else if d (GroupsFolder, i, MetaFile) \<noteq> None then (GroupsFolder, i, MetaFile)
      else (RootFolder, i, MetaFile))"

definition PartPath :: "(path \<Rightarrow> string option) \<Rightarrow> string \<Rightarrow> path" where
  "PartPath d i = (fst (MetaPath d i), i, PartFile)"

definition DonePath :: "(path \<Rightarrow> string option) \<Rightarrow> string \<Rightarrow> path" where
  "DonePath d i = (fst (MetaPath d i), i, DoneFile)"

definition part_of :: "string \<Rightarrow> media \<Rightarrow> string option" where
  "part_of i m = disk m (PartPath (disk m) i)"

definition done_of :: "string \<Rightarrow> media \<Rightarrow> string option" where
  "done_of i m = disk m (DonePath (disk m) i)"

definition ValidWave :: "string option \<Rightarrow> bool job" where
  "ValidWave content = attempt next_io (\<lambda>fate. case content of None \<Rightarrow> pass False
     | Some bytes \<Rightarrow> pass (fate = IoOk \<and> WaveHeaderBytes \<le> length bytes \<and> 0 < WaveDurationMs (take WaveHeaderBytes bytes) (length bytes)))"

definition hex_digest :: "8 word list \<Rightarrow> string" where
  "hex_digest digest = concat (map (\<lambda>b. [''0123456789abcdef'' ! unat (drop_bit 4 b), ''0123456789abcdef'' ! unat (b AND 15)]) digest)"

text \<open>A file that cannot be opened or read has the empty text for a digest.\<close>

definition Sha256 :: "resource_lib \<Rightarrow> string option \<Rightarrow> string job" where
  "Sha256 L content = attempt next_io (\<lambda>fate. case content of None \<Rightarrow> pass []
     | Some bytes \<Rightarrow> pass (if fate = IoOk then hex_digest (sha256_digest L bytes) else []))"

definition DecodeBase64 :: "resource_lib \<Rightarrow> string \<Rightarrow> string" where
  "DecodeBase64 L encoded =
     (if encoded = [] \<or> length encoded mod 4 \<noteq> 0 \<or> (kChunkSize + 2) div 3 * 4 < length encoded then []
      else case DecodeBlock L encoded of None \<Rightarrow> []
      | Some block \<Rightarrow>
          let padding = (if last encoded = CHR ''='' then 1 else 0) +
            (if 1 < length encoded \<and> encoded ! (length encoded - 2) = CHR ''='' then 1 else 0)
          in take (length block - padding) block)"

definition rename_file :: "path \<Rightarrow> path \<Rightarrow> unit job" where
  "rename_file source target = attempt next_io (\<lambda>fate. if fate \<noteq> IoOk then throw
     else attempt (seeing (\<lambda>m. disk m source)) (\<lambda>content. attempt (put_file target content) (\<lambda>_. put_file source None)))"

definition remove_file :: "path \<Rightarrow> unit job" where
  "remove_file p = attempt next_io (\<lambda>fate. if fate \<noteq> IoOk then throw else put_file p None)"

section \<open>Metadata\<close>

definition ReadMeta :: "resource_lib \<Rightarrow> string \<Rightarrow> json job" where
  "ReadMeta L i = State (\<lambda>m. case disk m (MetaPath (disk m) i) of
       None \<Rightarrow> (Inr JNull, m)
     | Some content \<Rightarrow>
         let (opened, m') = (case opens m of [] \<Rightarrow> (True, m) | b # bs \<Rightarrow> (b, m\<lparr>opens := bs\<rparr>)) in
         (if \<not> opened then (Inr JNull, m')
          else case stream_in L content of None \<Rightarrow> (Inl (ResourceError ''resource operation failed''), m')
          | Some meta \<Rightarrow> (Inr meta, m')))"

definition meta_int :: "string \<Rightarrow> int \<Rightarrow> json \<Rightarrow> int job" where
  "meta_int key d meta = converted (Option.bind (get_const meta key (JInt d)) asInt)"

definition meta_size :: "json \<Rightarrow> nat job" where
  "meta_size meta = converted (Option.bind (get_const meta ''size'' (JInt 0)) asUInt64)"

definition meta_sha :: "resource_lib \<Rightarrow> json \<Rightarrow> string job" where
  "meta_sha L meta = converted (Option.bind (get_const meta ''sha256'' (JStr [])) (asString (json_lib L)))"

definition meta_folder :: "int \<Rightarrow> int \<Rightarrow> folder" where
  "meta_folder type thread = (if type = 2 then FilesFolder else if type = 3 then AudioFolder
     else if 0 < thread then GroupsFolder else RootFolder)"

text \<open>A short write is noticed before the file is closed, or not at all.\<close>

definition WriteMeta :: "resource_lib \<Rightarrow> string \<Rightarrow> json \<Rightarrow> unit job" where
  "WriteMeta L i meta =
     attempt (meta_int ''media_type'' 1 meta) (\<lambda>type. attempt (meta_int ''thread_id'' 0 meta) (\<lambda>thread.
     let p = (meta_folder type thread, i, MetaFile) in
     attempt next_io (\<lambda>fate. case fate of
         IoOk \<Rightarrow> put_file p (Some (stream_out L meta))
       | IoFails \<Rightarrow> throw
       | IoShort k noticed \<Rightarrow> attempt (put_file p (Some (take k (stream_out L meta)))) (\<lambda>_. if noticed then throw else pass ()))))"

section \<open>Group membership\<close>

text \<open>The chat nodes are asked in turn until one answers; all of them look at the same database and Redis.\<close>

primrec ask_stubs :: "nat \<Rightarrow> int \<Rightarrow> string \<Rightarrow> int \<Rightarrow> bool svc" where
  "ask_stubs 0 uid token thread = give False"
| "ask_stubs (Suc k) uid token thread = do {
     fate \<leftarrow> next_call;
     if fate = Replied then do {
       (status, e) \<leftarrow> AuthorizeGroup False uid token thread;
       if status = StatusOK then give (e = Success) else ask_stubs k uid token thread }
     else ask_stubs k uid token thread }"

definition GroupMember :: "resource_lib \<Rightarrow> int \<Rightarrow> string \<Rightarrow> int \<Rightarrow> bool job" where
  "GroupMember L uid token thread = on_chat (ask_stubs (stubs L) uid token thread)"

text \<open>The check a group's file needs; other files need none.\<close>

definition group_allowed :: "resource_lib \<Rightarrow> int \<Rightarrow> json \<Rightarrow> int \<Rightarrow> bool job" where
  "group_allowed L uid request thread =
     (if 0 < thread then attempt (converted (asString (json_lib L) (index request ''token''))) (\<lambda>token. GroupMember L uid token thread)
      else pass True)"

section \<open>Uploading\<close>

definition upload_valid :: "int \<Rightarrow> int \<Rightarrow> int \<Rightarrow> int \<Rightarrow> nat \<Rightarrow> string \<Rightarrow> bool" where
  "upload_valid uid recipient thread type size_bytes sha \<longleftrightarrow>
     \<not> (thread < 0 \<or> (if 0 < thread then recipient \<noteq> 0 else recipient \<le> 0 \<or> recipient = uid) \<or>
       (type \<noteq> 1 \<and> type \<noteq> 2 \<and> type \<noteq> 3) \<or> size_bytes = 0 \<or> kMaximumImageSize < size_bytes \<or>
       (type = 3 \<and> (size_bytes < WaveHeaderBytes + MinPcmBytes \<or> WaveHeaderBytes + MaxPcmBytes < size_bytes)) \<or>
       length sha \<noteq> 64 \<or> \<not> list_all isxdigit sha)"

definition new_meta :: "int \<Rightarrow> int \<Rightarrow> int \<Rightarrow> int \<Rightarrow> nat \<Rightarrow> string \<Rightarrow> json" where
  "new_meta uid recipient thread type size_bytes sha = set_members
     [(''uid'', JInt uid), (''recipient'', JInt recipient), (''thread_id'', JInt thread), (''media_type'', JInt type),
      (''size'', JInt (int size_bytes)), (''sha256'', JStr sha)] JNull"

text \<open>One of the comparisons with the stored metadata; the next one is made only if it succeeds.\<close>

definition same_field :: "'a job \<Rightarrow> 'a \<Rightarrow> unit job \<Rightarrow> unit job" where
  "same_field field expected next = attempt field (\<lambda>v. if v \<noteq> expected then reject ''file id belongs to another upload'' else next)"

definition claim_meta :: "resource_lib \<Rightarrow> string \<Rightarrow> int \<Rightarrow> int \<Rightarrow> int \<Rightarrow> int \<Rightarrow> nat \<Rightarrow> string \<Rightarrow> unit job" where
  "claim_meta L i uid recipient thread type size_bytes sha =
     attempt (ReadMeta L i) (\<lambda>meta.
     if isNull meta then WriteMeta L i (new_meta uid recipient thread type size_bytes sha)
     else same_field (meta_int ''uid'' 0 meta) uid (same_field (meta_int ''recipient'' 0 meta) recipient
       (same_field (meta_int ''thread_id'' 0 meta) thread (same_field (meta_int ''media_type'' 1 meta) type
       (same_field (meta_size meta) size_bytes (same_field (meta_sha L meta) sha (pass ())))))))"

text \<open>Whether the uploaded part is what was announced.\<close>

definition part_complete :: "resource_lib \<Rightarrow> string \<Rightarrow> int \<Rightarrow> nat \<Rightarrow> string \<Rightarrow> string \<Rightarrow> bool job" where
  "part_complete L i type size_bytes sha bytes =
     (if length bytes \<noteq> size_bytes then pass False
      else attempt (Sha256 L (Some bytes)) (\<lambda>h. if h \<noteq> sha then pass False
        else if type = 3 then ValidWave (Some bytes) else pass True))"

text \<open>A part that is already as long as announced is completed or thrown away.\<close>

definition recover_part :: "resource_lib \<Rightarrow> string \<Rightarrow> int \<Rightarrow> nat \<Rightarrow> string \<Rightarrow> bool job" where
  "recover_part L i type size_bytes sha =
     attempt (seeing (\<lambda>m. (disk m, done_of i m, part_of i m))) (\<lambda>(d, finished, part). case (finished, part) of
         (Some _, _) \<Rightarrow> pass True
       | (None, None) \<Rightarrow> pass False
       | (None, Some bytes) \<Rightarrow>
           if length bytes < size_bytes then pass False
           else attempt (part_complete L i type size_bytes sha bytes) (\<lambda>good.
             if good then attempt (rename_file (PartPath d i) (DonePath d i)) (\<lambda>_. pass True)
             else attempt (remove_file (PartPath d i)) (\<lambda>_. pass False)))"

definition upload_reply :: "nat \<Rightarrow> bool \<Rightarrow> (string \<times> json) list \<Rightarrow> json" where
  "upload_reply offset finished members =
     set_members ([(''ok'', JBool True), (''offset'', JInt (int offset)), (''complete'', JBool finished)] @ members) JNull"

definition mark :: "string \<Rightarrow> int \<Rightarrow> int \<Rightarrow> nat \<Rightarrow> int \<Rightarrow> int \<Rightarrow> unit job" where
  "mark i uid recipient size_bytes thread type = attempt (on_chat (MarkReady i uid recipient size_bytes thread type)) (\<lambda>ok.
     if ok then pass () else reject ''Redis is unavailable'')"

text \<open>What follows once the metadata are known to be those of the request.\<close>

definition conclude_init :: "resource_lib \<Rightarrow> int \<Rightarrow> string \<Rightarrow> int \<Rightarrow> int \<Rightarrow> int \<Rightarrow> nat \<Rightarrow> string \<Rightarrow> json job" where
  "conclude_init L uid i recipient thread type size_bytes sha =
     attempt (recover_part L i type size_bytes sha) (\<lambda>complete.
     attempt (if complete \<and> type = 3 then attempt (seeing (done_of i)) ValidWave else pass True) (\<lambda>wave.
     if \<not> wave then reject ''invalid PCM wave''
     else attempt (if complete then mark i uid recipient size_bytes thread type else pass ()) (\<lambda>_.
       attempt (seeing (part_of i)) (\<lambda>part.
       let offset = (if complete then size_bytes else case part of None \<Rightarrow> 0 | Some bytes \<Rightarrow> length bytes) in
       pass (upload_reply offset complete [(''upload_window'', JInt 4)])))))"

definition UploadInit :: "resource_lib \<Rightarrow> int \<Rightarrow> string \<Rightarrow> json \<Rightarrow> json job" where
  "UploadInit L uid i request =
     attempt (meta_int ''recipient'' 0 request) (\<lambda>recipient. attempt (meta_int ''thread_id'' 0 request) (\<lambda>thread.
     attempt (meta_int ''media_type'' 1 request) (\<lambda>type. attempt (meta_size request) (\<lambda>size_bytes. attempt (meta_sha L request) (\<lambda>sha.
     if \<not> upload_valid uid recipient thread type size_bytes sha then reject ''invalid image metadata''
     else attempt (group_allowed L uid request thread) (\<lambda>allowed.
       if \<not> allowed then reject ''group access denied''
       else attempt (claim_meta L i uid recipient thread type size_bytes sha) (\<lambda>_.
         conclude_init L uid i recipient thread type size_bytes sha)))))))"

text \<open>Appending to the part: a failed open changes nothing, a failed write may leave a prefix.\<close>

definition append_part :: "string \<Rightarrow> string \<Rightarrow> unit job" where
  "append_part i bytes =
     attempt (seeing (\<lambda>m. (PartPath (disk m) i, case part_of i m of None \<Rightarrow> [] | Some old \<Rightarrow> old))) (\<lambda>(p, old).
     attempt next_io (\<lambda>fate. case fate of
         IoOk \<Rightarrow> put_file p (Some (old @ bytes))
       | IoFails \<Rightarrow> reject ''cannot open upload file''
       | IoShort k noticed \<Rightarrow> attempt (put_file p (Some (old @ take k bytes))) (\<lambda>_. reject ''upload write failed'')))"

text \<open>The last piece has arrived: the file is checked and put in place, or thrown away.\<close>

definition finish_part :: "resource_lib \<Rightarrow> string \<Rightarrow> int \<Rightarrow> json \<Rightarrow> unit job" where
  "finish_part L i type meta =
     attempt (seeing (\<lambda>m. (disk m, part_of i m))) (\<lambda>(d, content).
     attempt (Sha256 L content) (\<lambda>h. attempt (meta_sha L meta) (\<lambda>sha.
     if h \<noteq> sha then attempt (remove_file (PartPath d i)) (\<lambda>_. reject ''image checksum mismatch'')
     else attempt (if type = 3 then ValidWave content else pass True) (\<lambda>wave.
       if \<not> wave then attempt (remove_file (PartPath d i)) (\<lambda>_. reject ''invalid PCM wave'')
       else rename_file (PartPath d i) (DonePath d i)))))"

definition UploadChunk :: "resource_lib \<Rightarrow> int \<Rightarrow> string \<Rightarrow> json \<Rightarrow> json job" where
  "UploadChunk L uid i request =
     attempt (ReadMeta L i) (\<lambda>meta. if isNull meta then reject ''upload not initialized''
     else attempt (meta_int ''uid'' 0 meta) (\<lambda>u. if u \<noteq> uid then reject ''upload not initialized''
     else attempt (meta_int ''thread_id'' 0 meta) (\<lambda>thread. attempt (group_allowed L uid request thread) (\<lambda>allowed.
     if \<not> allowed then reject ''group access denied''
     else attempt (meta_size meta) (\<lambda>size_bytes. attempt (meta_int ''media_type'' 1 meta) (\<lambda>type.
       attempt (seeing (\<lambda>m. (done_of i m, part_of i m))) (\<lambda>(finished, part).
       if finished \<noteq> None then attempt (meta_int ''recipient'' 0 meta) (\<lambda>recipient.
         attempt (mark i uid recipient size_bytes thread type) (\<lambda>_. pass (upload_reply size_bytes True [])))
       else let offset = (case part of None \<Rightarrow> 0 | Some bytes \<Rightarrow> length bytes) in
         attempt (converted (asUInt64 (get_default request ''offset'' (JInt 0)))) (\<lambda>asked.
         if asked \<noteq> offset then State_Monad.return (Inl (set_member ''offset'' (JInt (int offset)) (ResourceError ''offset mismatch'')))
         else attempt (converted (asString (json_lib L) (get_default request ''data'' (JStr [])))) (\<lambda>encoded.
           let bytes = DecodeBase64 L encoded in
           if bytes = [] \<or> kChunkSize < length bytes \<or> size_bytes < offset + length bytes then reject ''invalid chunk''
           else attempt (append_part i bytes) (\<lambda>_.
             let next_offset = offset + length bytes; complete = (next_offset = size_bytes) in
             attempt (if complete then attempt (finish_part L i type meta) (\<lambda>_. attempt (meta_int ''recipient'' 0 meta) (\<lambda>recipient.
               mark i uid recipient size_bytes thread type)) else pass ()) (\<lambda>_.
             pass (upload_reply next_offset complete []))))))))))))"

section \<open>Downloading\<close>

definition read_done :: "nat \<Rightarrow> nat \<Rightarrow> string \<Rightarrow> string job" where
  "read_done offset n content = attempt next_io (\<lambda>fate. case fate of
       IoOk \<Rightarrow> pass (take n (drop offset content))
     | IoFails \<Rightarrow> reject ''cannot read image''
     | IoShort k noticed \<Rightarrow> pass (take k (take n (drop offset content))))"

definition may_download :: "resource_lib \<Rightarrow> int \<Rightarrow> json \<Rightarrow> json \<Rightarrow> int \<Rightarrow> bool job" where
  "may_download L uid request meta thread =
     (if 0 < thread then group_allowed L uid request thread
      else attempt (meta_int ''uid'' 0 meta) (\<lambda>u. if u = uid then pass True
        else attempt (meta_int ''recipient'' 0 meta) (\<lambda>r. pass (r = uid))))"

definition download_reply :: "resource_lib \<Rightarrow> json \<Rightarrow> nat \<Rightarrow> nat \<Rightarrow> string \<Rightarrow> json" where
  "download_reply L meta size_bytes offset bytes = set_members
     [(''ok'', JBool True), (''offset'', JInt (int (offset + length bytes))), (''size'', JInt (int size_bytes)),
      (''sha256'', index meta ''sha256''), (''data'', JStr (EncodeBlock L bytes)),
      (''complete'', JBool (offset + length bytes = size_bytes))] JNull"

definition Download :: "resource_lib \<Rightarrow> int \<Rightarrow> string \<Rightarrow> json \<Rightarrow> json job" where
  "Download L uid i request =
     attempt (ReadMeta L i) (\<lambda>meta. if isNull meta then reject ''access denied''
     else attempt (meta_int ''thread_id'' 0 meta) (\<lambda>thread. attempt (may_download L uid request meta thread) (\<lambda>allowed.
     if \<not> allowed then reject ''access denied''
     else attempt (seeing (done_of i)) (\<lambda>finished. case finished of None \<Rightarrow> reject ''image is not ready''
     | Some content \<Rightarrow> attempt (meta_size meta) (\<lambda>size_bytes.
         attempt (converted (asUInt64 (get_default request ''offset'' (JInt 0)))) (\<lambda>offset.
         if size_bytes < offset then reject ''invalid download offset''
         else attempt (read_done offset (min kChunkSize (size_bytes - offset)) content) (\<lambda>bytes.
           pass (download_reply L meta size_bytes offset bytes))))))))"

section \<open>Requests\<close>

definition Handle :: "resource_lib \<Rightarrow> nat \<Rightarrow> json \<Rightarrow> json job" where
  "Handle L request_id request =
     attempt (meta_int ''uid'' 0 request) (\<lambda>uid.
     attempt (converted (asString (json_lib L) (get_default request ''token'' (JStr [])))) (\<lambda>token.
     attempt (on_chat (Authenticated uid token)) (\<lambda>known.
     if \<not> known then reject ''invalid token''
     else attempt (converted (asString (json_lib L) (get_default request ''file_id'' (JStr [])))) (\<lambda>i.
       if \<not> ResourceStore_ValidId i then reject ''invalid file id''
       else if request_id = kUploadInitRequest then UploadInit L uid i request
       else if request_id = kUploadChunkRequest then UploadChunk L uid i request
       else if request_id = kDownloadRequest then Download L uid i request
       else reject ''unknown request''))))"

text \<open>What a worker does with a request's body; the result is the reply.\<close>

definition serve_request :: "resource_lib \<Rightarrow> nat \<Rightarrow> string \<Rightarrow> (media, json) state" where
  "serve_request L request_id body =
     (case parse (json_lib L) body of (ok, request) \<Rightarrow>
        if ok \<and> isObject request then do {
          result \<leftarrow> Handle L request_id request;
          State_Monad.return (case result of Inl reply \<Rightarrow> reply | Inr reply \<Rightarrow> reply) }
        else State_Monad.return (ResourceError ''invalid JSON''))"

end
