(* ===== verification/Uploads.thy ===== *)
theory Uploads
  imports ResourceStore
begin

text \<open>
  What the resource server keeps of a file: its metadata never change hands, a file that is in place is the one that was
  announced, and Redis calls nothing ready that is not in place. The proofs are a Hoare logic for the jobs of
  \<^theory_text>\<open>ResourceStore\<close>, with one postcondition for results and one for early replies, and a frame relation for the files of
  other identifiers.
\<close>

section \<open>Jobs\<close>

lemma run_attempt [simp]: "run_state (attempt j f) m = (case run_state j m of (Inl reply, m') \<Rightarrow> (Inl reply, m') | (Inr x, m') \<Rightarrow> run_state (f x) m')"
  by (simp add: attempt_def split: prod.split sum.split)

definition hoare :: "(media \<Rightarrow> bool) \<Rightarrow> 'a job \<Rightarrow> ('a \<Rightarrow> media \<Rightarrow> bool) \<Rightarrow> (media \<Rightarrow> bool) \<Rightarrow> bool" where
  "hoare P j Q E \<longleftrightarrow> (\<forall>m r m'. P m \<longrightarrow> run_state j m = (r, m') \<longrightarrow> (case r of Inl reply \<Rightarrow> E m' | Inr x \<Rightarrow> Q x m'))"

lemma hoareD: "hoare P j Q E \<Longrightarrow> P m \<Longrightarrow> run_state j m = (r, m') \<Longrightarrow> (case r of Inl reply \<Rightarrow> E m' | Inr x \<Rightarrow> Q x m')"
  by (simp add: hoare_def)

named_theorems triples \<open>rules of the logic of jobs\<close>

lemma hoare_attempt [triples]:
  assumes "hoare P j R E" "\<And>x. hoare (R x) (f x) Q E"
  shows "hoare P (attempt j f) Q E"
  unfolding hoare_def
proof (intro allI impI)
  fix m r m'
  assume "P m" and r: "run_state (attempt j f) m = (r, m')"
  obtain q m1 where q: "run_state j m = (q, m1)" by (metis surj_pair)
  show "case r of Inl reply \<Rightarrow> E m' | Inr x \<Rightarrow> Q x m'"
  proof (cases q)
    case (Inl reply)
    then show ?thesis using hoareD [OF assms(1) \<open>P m\<close> q] r q by auto
  next
    case (Inr x)
    then show ?thesis using hoareD [OF assms(2), of x m1] hoareD [OF assms(1) \<open>P m\<close> q] r q by auto
  qed
qed

lemma hoare_pass [triples]: "(\<And>m. P m \<Longrightarrow> Q x m) \<Longrightarrow> hoare P (pass x) Q E"
  by (auto simp: hoare_def)

lemma hoare_reply [triples]: "(\<And>m. P m \<Longrightarrow> E m) \<Longrightarrow> hoare P (State_Monad.return (Inl reply)) Q E"
  by (auto simp: hoare_def)

lemma hoare_throw [triples]: "(\<And>m. P m \<Longrightarrow> E m) \<Longrightarrow> hoare P throw Q E"
  by (auto simp: throw_def intro: hoare_reply)

lemma hoare_if [triples]: "(b \<Longrightarrow> hoare P j Q E) \<Longrightarrow> (\<not> b \<Longrightarrow> hoare P k Q E) \<Longrightarrow> hoare P (if b then j else k) Q E"
  by simp

lemma hoare_option [triples]:
  "(v = None \<Longrightarrow> hoare P j Q E) \<Longrightarrow> (\<And>x. v = Some x \<Longrightarrow> hoare P (f x) Q E) \<Longrightarrow> hoare P (case v of None \<Rightarrow> j | Some x \<Rightarrow> f x) Q E"
  by (cases v) simp_all

lemma hoare_prod [triples]: "(\<And>x y. v = (x, y) \<Longrightarrow> hoare P (f x y) Q E) \<Longrightarrow> hoare P (case v of (x, y) \<Rightarrow> f x y) Q E"
  by (cases v) simp

lemma hoare_fate [triples]:
  "hoare P a Q E \<Longrightarrow> hoare P b Q E \<Longrightarrow> (\<And>k n. hoare P (f k n) Q E) \<Longrightarrow> hoare P (case v of IoOk \<Rightarrow> a | IoFails \<Rightarrow> b | IoShort k n \<Rightarrow> f k n) Q E"
  by (cases v) simp_all

lemma hoare_let [triples]: "(\<And>x. x = v \<Longrightarrow> hoare P (f x) Q E) \<Longrightarrow> hoare P (let x = v in f x) Q E"
  by simp

lemma hoare_conseq:
  assumes "hoare P' j Q' E'" "\<And>m. P m \<Longrightarrow> P' m" "\<And>x m. Q' x m \<Longrightarrow> Q x m" "\<And>m. E' m \<Longrightarrow> E m"
  shows "hoare P j Q E"
  unfolding hoare_def
proof (intro allI impI)
  fix m r m'
  assume "P m" "run_state j m = (r, m')"
  then show "case r of Inl reply \<Rightarrow> E m' | Inr x \<Rightarrow> Q x m'"
    using hoareD [OF assms(1), of m r m'] assms(2-4) by (cases r) auto
qed

lemma hoare_seeing: "(\<And>m. P m \<Longrightarrow> Q (f m) m) \<Longrightarrow> hoare P (seeing f) Q E"
  by (auto simp: hoare_def seeing_def)

lemma hoare_converted: "(\<And>m x. P m \<Longrightarrow> v = Some x \<Longrightarrow> Q x m) \<Longrightarrow> (\<And>m. P m \<Longrightarrow> v = None \<Longrightarrow> E m) \<Longrightarrow> hoare P (converted v) Q E"
  by (auto simp: hoare_def converted_def throw_def split: option.splits)

lemma hoare_put: "(\<And>m. P m \<Longrightarrow> Q () (m\<lparr>disk := (disk m)(p := content)\<rparr>)) \<Longrightarrow> hoare P (put_file p content) Q E"
  by (auto simp: hoare_def put_file_def)

section \<open>Files\<close>

record upload =
  up_uid :: int
  up_recipient :: int
  up_thread :: int
  up_type :: int
  up_size :: nat
  up_sha :: string

definition well_announced :: "upload \<Rightarrow> bool" where
  "well_announced u \<longleftrightarrow> upload_valid (up_uid u) (up_recipient u) (up_thread u) (up_type u) (up_size u) (up_sha u) \<and> 0 < up_uid u \<and>
     in_int_range (up_uid u) \<and> in_int_range (up_recipient u) \<and> in_int_range (up_thread u)"

definition meta_of :: "upload \<Rightarrow> json" where
  "meta_of u = new_meta (up_uid u) (up_recipient u) (up_thread u) (up_type u) (up_size u) (up_sha u)"

definition home :: "upload \<Rightarrow> folder" where
  "home u = meta_folder (up_type u) (up_thread u)"

text \<open>The announced length and digest, and for a voice message a header that fits.\<close>

definition intact :: "resource_lib \<Rightarrow> upload \<Rightarrow> string \<Rightarrow> bool" where
  "intact L u content \<longleftrightarrow> length content = up_size u \<and> hex_digest (sha256_digest L content) = up_sha u \<and>
     (up_type u = 3 \<longrightarrow> 0 < WaveDurationMs (take WaveHeaderBytes content) (length content))"

text \<open>
  The metadata of a file come back from its metadata file: the document read is an object with the members
  that were written, and a text that breaks off before its end is not accepted.
\<close>

definition reads_back :: "json \<Rightarrow> upload \<Rightarrow> bool" where
  "reads_back meta u \<longleftrightarrow> isObject meta \<and> (\<forall>key\<in>{''uid'', ''recipient'', ''thread_id'', ''media_type'', ''size'', ''sha256''}.
     jfind meta key = jfind (meta_of u) key)"

definition faithful_files :: "resource_lib \<Rightarrow> bool" where
  "faithful_files L \<longleftrightarrow> (\<forall>u. well_announced u \<longrightarrow> (\<exists>meta. stream_in L (stream_out L (meta_of u)) = Some meta \<and> reads_back meta u) \<and>
     (\<forall>k < length (stream_out L (meta_of u)). stream_in L (take k (stream_out L (meta_of u))) = None))"

text \<open>
  The three conditions a file can be in: nothing is stored for it; a metadata file that cannot be read; metadata, with a part
  or the whole file beside them.
\<close>

definition no_files :: "media \<Rightarrow> string \<Rightarrow> folder \<Rightarrow> bool" where
  "no_files m i f \<longleftrightarrow> (\<forall>s. disk m (f, i, s) = None)"

definition ready :: "media \<Rightarrow> string \<Rightarrow> string option" where
  "ready m i = value_of (redisd (chat m)) (ready_key i)"

definition fresh :: "string \<Rightarrow> media \<Rightarrow> bool" where
  "fresh i m \<longleftrightarrow> (\<forall>f. no_files m i f) \<and> ready m i = None"

definition spoiled :: "resource_lib \<Rightarrow> string \<Rightarrow> media \<Rightarrow> bool" where
  "spoiled L i m \<longleftrightarrow> (\<exists>f content. disk m (f, i, MetaFile) = Some content \<and> stream_in L content = None \<and>
     disk m (f, i, PartFile) = None \<and> disk m (f, i, DoneFile) = None \<and> (\<forall>g. g \<noteq> f \<longrightarrow> no_files m i g)) \<and> ready m i = None"

definition claimed :: "resource_lib \<Rightarrow> string \<Rightarrow> upload \<Rightarrow> media \<Rightarrow> bool" where
  "claimed L i u m \<longleftrightarrow> well_announced u \<and> disk m (home u, i, MetaFile) = Some (stream_out L (meta_of u)) \<and>
     (\<forall>g. g \<noteq> home u \<longrightarrow> no_files m i g) \<and>
     (\<forall>bytes. disk m (home u, i, PartFile) = Some bytes \<longrightarrow> length bytes \<le> up_size u) \<and>
     (\<forall>content. disk m (home u, i, DoneFile) = Some content \<longrightarrow> intact L u content) \<and>
     (\<forall>v. ready m i = Some v \<longrightarrow> disk m (home u, i, DoneFile) \<noteq> None \<and>
        v = ready_value (up_uid u) (up_recipient u) (up_size u) (up_thread u) (up_type u))"

definition held :: "resource_lib \<Rightarrow> string \<Rightarrow> upload \<Rightarrow> string option \<Rightarrow> media \<Rightarrow> bool" where
  "held L i u D m \<longleftrightarrow> claimed L i u m \<and> opens m = [] \<and> (D = None \<or> disk m (home u, i, DoneFile) = D)"

lemma held_claimed: "held L i u D m \<Longrightarrow> claimed L i u m"
  by (simp add: held_def)

lemma claimed_paths:
  assumes "claimed L i u m"
  shows "MetaPath (disk m) i = (home u, i, MetaFile)" "PartPath (disk m) i = (home u, i, PartFile)" "DonePath (disk m) i = (home u, i, DoneFile)"
    "part_of i m = disk m (home u, i, PartFile)" "done_of i m = disk m (home u, i, DoneFile)"
proof -
  have "disk m (home u, i, MetaFile) \<noteq> None" "\<And>g. g \<noteq> home u \<Longrightarrow> disk m (g, i, MetaFile) = None"
    using assms by (auto simp: claimed_def no_files_def)
  then show p: "MetaPath (disk m) i = (home u, i, MetaFile)"
    by (cases "home u") (auto simp: MetaPath_def)
  then show "PartPath (disk m) i = (home u, i, PartFile)" "DonePath (disk m) i = (home u, i, DoneFile)"
    "part_of i m = disk m (home u, i, PartFile)" "done_of i m = disk m (home u, i, DoneFile)"
    by (simp_all add: PartPath_def DonePath_def part_of_def done_of_def)
qed

section \<open>Looking at Redis and the chat nodes\<close>

definition same_redis :: "node \<Rightarrow> node \<Rightarrow> bool" where
  "same_redis n n' \<longleftrightarrow> redisd n' = redisd n"

lemma same_redis_refl [simp]: "same_redis n n"
  by (simp add: same_redis_def)

lemma same_redis_transp: "transp (same_redis)"
  by (auto simp: same_redis_def intro: transpI)

named_theorems looking \<open>services that do not change Redis\<close>

lemma looking_basic [looking]: "state_io_rel same_redis (give x)" "state_io_rel same_redis (reads f)" "state_io_rel same_redis (sql_call g)"
  "state_io_rel same_redis next_call"
  by (auto simp: state_io_rel_def sql_call_def same_redis_def next_call_def split: prod.splits list.splits)

lemmas looking_bind [looking] = io_bind [OF same_redis_transp]

lemmas looking_splits [looking] = serves_if serves_option serves_prod serves_let

lemma looking_command: "(\<And>s. snd (c s) = s) \<Longrightarrow> state_io_rel same_redis (redis_call (\<lambda>d. command d c))"
  by (auto simp: state_io_rel_def redis_call_def next_fate_def command_def same_redis_def split: prod.splits delivery.splits list.splits)

lemma read_script_looks: "snd (read_script k s) = s"
  by (simp add: read_script_def GET_def)

lemma looking_Read [looking]: "state_io_rel same_redis (redis_call (\<lambda>d. Read d k True))"
  using read_script_looks
  by (auto simp: state_io_rel_def redis_call_def next_fate_def Read_def command_def same_redis_def Let_def split: prod.splits delivery.splits list.splits)

lemma looking_authenticated [looking]: "state_io_rel same_redis (authenticated_by suffixes uid token)"
  by (induction suffixes) (auto intro!: looking looking_command read_script_looks)

lemma looking_AuthorizeGroup [looking]: "state_io_rel same_redis (AuthorizeGroup c uid token thread)"
  unfolding AuthorizeGroup_def active_on_def by (intro looking)

lemma looking_stubs [looking]: "state_io_rel same_redis (ask_stubs k uid token thread)"
  by (induction k) (auto intro!: looking)

lemma looking_Authenticated [looking]: "state_io_rel same_redis (Authenticated uid token)"
  unfolding Authenticated_def by (intro looking)

text \<open>Properties of a file that a look at the chat nodes keeps.\<close>

definition chat_blind :: "(media \<Rightarrow> bool) \<Rightarrow> bool" where
  "chat_blind P \<longleftrightarrow> (\<forall>m n. same_redis (chat m) n \<longrightarrow> P m \<longrightarrow> P (m\<lparr>chat := n\<rparr>))"

lemma hoare_look:
  assumes "state_io_rel same_redis s" "chat_blind P"
  shows "hoare P (on_chat s) (\<lambda>x. P) E"
  unfolding hoare_def on_chat_def
proof (intro allI impI)
  fix m r m'
  assume "P m" "run_state (State (\<lambda>m. case run_state s (chat m) of (x, n) \<Rightarrow> (Inr x, m\<lparr>chat := n\<rparr>))) m = (r, m')"
  then show "case r of Inl reply \<Rightarrow> E m' | Inr x \<Rightarrow> P m'"
    using assms by (auto simp: chat_blind_def split: prod.splits dest: state_io_relD)
qed

section \<open>A claimed file\<close>

lemma hoare_io:
  assumes "\<And>m fs. P m \<Longrightarrow> P (m\<lparr>io_fates := fs\<rparr>)"
  shows "hoare P next_io (\<lambda>x. P) E"
  using assms by (auto simp: hoare_def next_io_def split: list.splits)

lemma hoare_pure: "(\<And>m. P m \<Longrightarrow> p) \<Longrightarrow> (p \<Longrightarrow> hoare P j Q E) \<Longrightarrow> hoare P j Q E"
  by (auto simp: hoare_def)

lemma hoare_strip: "(p \<Longrightarrow> hoare P j Q E) \<Longrightarrow> hoare (\<lambda>m. p \<and> P m) j Q E"
  by (auto simp: hoare_def)

lemma attempt_pass [simp]: "attempt (pass x) f = f x"
  by (simp add: attempt_def)

lemma meta_fields:
  assumes "reads_back meta u" "well_announced u"
  shows "\<not> isNull meta" "meta_int ''uid'' 0 meta = pass (up_uid u)" "meta_int ''recipient'' 0 meta = pass (up_recipient u)"
    "meta_int ''thread_id'' 0 meta = pass (up_thread u)" "meta_int ''media_type'' 1 meta = pass (up_type u)"
    "meta_size meta = pass (up_size u)" "meta_sha L meta = pass (up_sha u)" "index meta ''sha256'' = JStr (up_sha u)"
proof -
  have o: "object_like meta" "meta \<noteq> JNull" using assms(1) by (cases meta; simp add: reads_back_def object_like_def)+
  have j: "jfind meta ''uid'' = Some (JInt (up_uid u))" "jfind meta ''recipient'' = Some (JInt (up_recipient u))"
    "jfind meta ''thread_id'' = Some (JInt (up_thread u))" "jfind meta ''media_type'' = Some (JInt (up_type u))"
    "jfind meta ''size'' = Some (JInt (int (up_size u)))" "jfind meta ''sha256'' = Some (JStr (up_sha u))"
    using assms(1) by (simp_all add: reads_back_def meta_of_def new_meta_def)
  have r: "in_int_range (up_type u)" "int (up_size u) < 2 ^ 64"
    using assms(2) by (auto simp: well_announced_def upload_valid_def in_int_range_def int_min_def int_max_def kMaximumImageSize_def)
  show "\<not> isNull meta" "meta_int ''uid'' 0 meta = pass (up_uid u)" "meta_int ''recipient'' 0 meta = pass (up_recipient u)"
    "meta_int ''thread_id'' 0 meta = pass (up_thread u)" "meta_int ''media_type'' 1 meta = pass (up_type u)"
    "meta_size meta = pass (up_size u)" "meta_sha L meta = pass (up_sha u)" "index meta ''sha256'' = JStr (up_sha u)"
    using assms(2) o j r
    by (simp_all add: isNull_def meta_int_def meta_size_def meta_sha_def converted_def get_const_def get_default_def well_announced_def index_def)
qed

lemma held_blind: "held L i u D m \<Longrightarrow> held L i u D (m\<lparr>io_fates := fs\<rparr>)" "chat_blind (held L i u D)"
  by (auto simp: held_def claimed_def no_files_def ready_def chat_blind_def same_redis_def)

lemma hoare_ReadMeta:
  assumes "faithful_files L"
  shows "hoare (held L i u D) (ReadMeta L i) (\<lambda>meta m. reads_back meta u \<and> held L i u D m) E"
  unfolding hoare_def ReadMeta_def
proof (intro allI impI)
  fix m r m'
  assume h: "held L i u D m" and r: "run_state (State (\<lambda>m. case disk m (MetaPath (disk m) i) of
       None \<Rightarrow> (Inr JNull, m)
     | Some content \<Rightarrow>
         let (opened, m') = (case opens m of [] \<Rightarrow> (True, m) | b # bs \<Rightarrow> (b, m\<lparr>opens := bs\<rparr>)) in
         (if \<not> opened then (Inr JNull, m')
          else case stream_in L content of None \<Rightarrow> (Inl (ResourceError ''resource operation failed''), m')
          | Some meta \<Rightarrow> (Inr meta, m')))) m = (r, m')"
  have c: "claimed L i u m" "opens m = []" using h by (simp_all add: held_def)
  then obtain meta where "stream_in L (stream_out L (meta_of u)) = Some meta" "reads_back meta u"
    using assms unfolding faithful_files_def claimed_def by blast
  then show "case r of Inl reply \<Rightarrow> E m' | Inr meta \<Rightarrow> reads_back meta u \<and> held L i u D m'"
    using r h c claimed_paths(1) [OF c(1)] by (auto simp: claimed_def)
qed

lemma hoare_group_allowed: "chat_blind P \<Longrightarrow> hoare P (group_allowed L uid request thread) (\<lambda>x. P) P"
  unfolding group_allowed_def GroupMember_def
  by (rule hoare_if, rule hoare_attempt [where R = "\<lambda>x. P"]) (auto intro!: hoare_look looking hoare_converted hoare_pass)

lemma claimed_ready:
  assumes "claimed L i u m" "disk m (home u, i, DoneFile) \<noteq> None" "command d (SET (ready_key i)
    (ready_value (up_uid u) (up_recipient u) (up_size u) (up_thread u) (up_type u))) (redisd (chat m)) = (x, redisd n)"
  shows "claimed L i u (m\<lparr>chat := n\<rparr>)"
proof -
  have "redisd n = snd (command d (SET (ready_key i)
    (ready_value (up_uid u) (up_recipient u) (up_size u) (up_thread u) (up_type u))) (redisd (chat m)))" using assms(3) by (metis snd_conv)
  then have "value_of (redisd n) (ready_key i) \<in> {ready m i, Some (ready_value (up_uid u) (up_recipient u) (up_size u) (up_thread u) (up_type u))}"
    by (cases d) (simp_all add: command_def SET_def value_of_def ready_def)
  then show ?thesis using assms(1,2) by (auto simp: claimed_def no_files_def ready_def)
qed

lemma hoare_mark:
  "hoare (\<lambda>m. held L i u D m \<and> disk m (home u, i, DoneFile) \<noteq> None) (mark i (up_uid u) (up_recipient u) (up_size u) (up_thread u) (up_type u))
    (\<lambda>x. held L i u D) (held L i u D)"
proof -
  have "hoare (\<lambda>m. held L i u D m \<and> disk m (home u, i, DoneFile) \<noteq> None)
      (on_chat (MarkReady i (up_uid u) (up_recipient u) (up_size u) (up_thread u) (up_type u))) (\<lambda>x. held L i u D) (held L i u D)"
    unfolding hoare_def on_chat_def MarkReady_def
    by (auto simp: redis_call_def held_def next_fate_def split: prod.splits list.splits elim!: claimed_ready)
  then show ?thesis unfolding mark_def by (intro triples) auto
qed

text \<open>A claimed file that is not in place yet, with the part that is there.\<close>

definition at_part :: "resource_lib \<Rightarrow> string \<Rightarrow> upload \<Rightarrow> string option \<Rightarrow> media \<Rightarrow> bool" where
  "at_part L i u c m \<longleftrightarrow> held L i u None m \<and> disk m (home u, i, PartFile) = c \<and> disk m (home u, i, DoneFile) = None"

lemma at_part_blind: "at_part L i u c m \<Longrightarrow> at_part L i u c (m\<lparr>io_fates := fs\<rparr>)"
  by (simp add: at_part_def held_blind)

lemma at_part_held: "at_part L i u c m \<Longrightarrow> held L i u None m"
  by (simp add: at_part_def)

lemma at_part_paths:
  assumes "at_part L i u c m"
  shows "PartPath (disk m) i = (home u, i, PartFile)" "DonePath (disk m) i = (home u, i, DoneFile)" "part_of i m = c" "done_of i m = None"
  using assms claimed_paths [of L i u m] by (auto simp: at_part_def held_def)

lemma put_part:
  assumes "at_part L i u c m" "case c' of None \<Rightarrow> True | Some bytes \<Rightarrow> length bytes \<le> up_size u"
  shows "at_part L i u c' (m\<lparr>disk := (disk m)((home u, i, PartFile) := c')\<rparr>)"
  using assms by (auto simp: at_part_def held_def claimed_def no_files_def ready_def split: option.splits)

lemma hoare_append:
  assumes "length (case c of None \<Rightarrow> [] | Some old \<Rightarrow> old) + length bytes \<le> up_size u"
  shows "hoare (at_part L i u c) (append_part i bytes)
    (\<lambda>x. at_part L i u (Some ((case c of None \<Rightarrow> [] | Some old \<Rightarrow> old) @ bytes))) (held L i u None)"
proof -
  let ?old = "case c of None \<Rightarrow> [] | Some old \<Rightarrow> old"
  have e: "hoare (at_part L i u c) (seeing (\<lambda>m. (PartPath (disk m) i, case part_of i m of None \<Rightarrow> [] | Some old \<Rightarrow> old)))
      (\<lambda>x m. x = ((home u, i, PartFile), ?old) \<and> at_part L i u c m) (held L i u None)"
    by (rule hoare_seeing) (simp add: at_part_paths)
  have p: "hoare (at_part L i u c) (put_file (home u, i, PartFile) (Some (?old @ take k bytes))) (\<lambda>x. at_part L i u (Some (?old @ take k bytes))) E" for k E
    using assms by (intro hoare_put put_part) simp_all
  show ?thesis
    unfolding append_part_def
    by (rule hoare_attempt [OF e], rule hoare_strip, simp only: prod.case, rule hoare_attempt [OF hoare_io], rule at_part_blind, assumption,
        rule hoare_fate, use p [of "length bytes"] in simp, (intro triples hoare_attempt [OF p] | (rule at_part_held, assumption))+)
qed

lemma hoare_Sha256:
  assumes "\<And>m fs. P m \<Longrightarrow> P (m\<lparr>io_fates := fs\<rparr>)"
  shows "hoare P (Sha256 L content) (\<lambda>h m. P m \<and> (h = [] \<or> (\<exists>bytes. content = Some bytes \<and> h = hex_digest (sha256_digest L bytes)))) E"
  unfolding Sha256_def by (rule hoare_attempt [OF hoare_io], rule assms, assumption) (auto intro!: triples)

lemma hoare_ValidWave:
  assumes "\<And>m fs. P m \<Longrightarrow> P (m\<lparr>io_fates := fs\<rparr>)"
  shows "hoare P (ValidWave content) (\<lambda>ok m. P m \<and> (ok \<longrightarrow> (\<exists>bytes. content = Some bytes \<and>
    0 < WaveDurationMs (take WaveHeaderBytes bytes) (length bytes)))) E"
  unfolding ValidWave_def by (rule hoare_attempt [OF hoare_io], rule assms, assumption) (auto intro!: triples)

lemma hoare_rename:
  assumes "intact L u bytes"
  shows "hoare (at_part L i u (Some bytes)) (rename_file (home u, i, PartFile) (home u, i, DoneFile))
    (\<lambda>x m. held L i u None m \<and> disk m (home u, i, DoneFile) \<noteq> None) (held L i u None)"
proof -
  have r: "hoare (at_part L i u (Some bytes)) (seeing (\<lambda>m. disk m (home u, i, PartFile))) (\<lambda>x m. x = Some bytes \<and> at_part L i u (Some bytes) m) E" for E
    by (rule hoare_seeing) (simp add: at_part_def)
  have w: "held L i u None (m\<lparr>disk := (disk m)((home u, i, DoneFile) := Some bytes, (home u, i, PartFile) := None)\<rparr>)"
    if "at_part L i u (Some bytes) m" for m
    using that assms by (auto simp: at_part_def held_def claimed_def no_files_def ready_def)
  show ?thesis
    unfolding rename_file_def
    by (rule hoare_attempt [OF hoare_io], rule at_part_blind, assumption, rule hoare_if, rule hoare_throw, rule at_part_held, assumption,
        rule hoare_attempt [OF r], rule hoare_pure [where p = "_ = Some bytes"], erule conjunct1)
      (auto simp: hoare_def put_file_def dest: w)
qed

lemma hoare_remove:
  "hoare (at_part L i u c) (remove_file (home u, i, PartFile)) (\<lambda>x. at_part L i u None) (held L i u None)"
  unfolding remove_file_def
  by (rule hoare_attempt [OF hoare_io]) (auto simp: at_part_blind intro!: triples hoare_put put_part intro: at_part_held)

lemma well_announced_sha: "well_announced u \<Longrightarrow> up_sha u \<noteq> []"
  by (auto simp: well_announced_def upload_valid_def)

lemma at_part_announced: "at_part L i u c m \<Longrightarrow> well_announced u"
  by (simp add: at_part_def held_def claimed_def)

lemma hoare_removed:
  "hoare (at_part L i u c) (attempt (remove_file (home u, i, PartFile)) (\<lambda>x. reject reason)) Q (held L i u None)"
  by (rule hoare_attempt [OF hoare_remove]) (auto intro!: triples at_part_held)

lemma hoare_finish:
  assumes "length bytes = up_size u" "reads_back meta u"
  shows "hoare (at_part L i u (Some bytes)) (finish_part L i (up_type u) meta)
    (\<lambda>x m. held L i u None m \<and> disk m (home u, i, DoneFile) \<noteq> None) (held L i u None)"
proof (rule hoare_pure [OF at_part_announced], assumption)
  assume wa: "well_announced u"
  have s: "hoare (at_part L i u (Some bytes)) (seeing (\<lambda>m. (disk m, part_of i m)))
      (\<lambda>x m. (PartPath (fst x) i = (home u, i, PartFile) \<and> DonePath (fst x) i = (home u, i, DoneFile) \<and> snd x = Some bytes) \<and>
        at_part L i u (Some bytes) m) E" for E
    by (rule hoare_seeing) (simp add: at_part_paths)
  have h: "hoare (at_part L i u (Some bytes)) (Sha256 L (Some bytes)) (\<lambda>h m. (h = [] \<or> h = hex_digest (sha256_digest L bytes)) \<and>
      at_part L i u (Some bytes) m) E" for E
    by (rule hoare_conseq [OF hoare_Sha256 [of "at_part L i u (Some bytes)"]]) (auto simp: at_part_blind)
  have v: "hoare (at_part L i u (Some bytes)) (if up_type u = 3 then ValidWave (Some bytes) else pass True)
      (\<lambda>ok m. (ok \<longrightarrow> up_type u = 3 \<longrightarrow> 0 < WaveDurationMs (take WaveHeaderBytes bytes) (length bytes)) \<and> at_part L i u (Some bytes) m) E" for E
    by (rule hoare_if, rule hoare_conseq [OF hoare_ValidWave [of "at_part L i u (Some bytes)"]]) (auto simp: at_part_blind intro: hoare_pass)
  show ?thesis
    unfolding finish_part_def
    apply (rule hoare_attempt [OF s], rule hoare_strip, rule hoare_prod)
    apply (clarsimp simp only: meta_fields [OF assms(2) wa] attempt_pass fst_conv snd_conv)
    apply (rule hoare_attempt [OF h], rule hoare_strip, rule hoare_if, rule hoare_removed)
    apply (rule hoare_attempt [OF v], rule hoare_strip, rule hoare_if, rule hoare_removed)
    apply (rule hoare_rename)
    using assms(1) well_announced_sha [OF wa] by (auto simp: intact_def)
qed

lemma held_unfinished: "held L i u D m \<Longrightarrow> disk m (home u, i, DoneFile) = None \<Longrightarrow> D = None \<and> at_part L i u (disk m (home u, i, PartFile)) m"
  by (auto simp: held_def at_part_def)

text \<open>The conversion of a value that need not be there.\<close>

lemma hoare_conv: "(\<And>m. P m \<Longrightarrow> E m) \<Longrightarrow> hoare P (converted v) (\<lambda>x. P) E"
  by (rule hoare_converted)

text \<open>Storing a piece.\<close>

lemma hoare_store_chunk:
  assumes "reads_back meta u" "(case c of None \<Rightarrow> 0 | Some old \<Rightarrow> length old) + length bytes \<le> up_size u"
  shows "hoare (at_part L i u c) (attempt (append_part i bytes) (\<lambda>x.
      let next_offset = (case c of None \<Rightarrow> 0 | Some old \<Rightarrow> length old) + length bytes; finished = (next_offset = up_size u) in
      attempt (if finished then attempt (finish_part L i (up_type u) meta) (\<lambda>x.
        mark i (up_uid u) (up_recipient u) (up_size u) (up_thread u) (up_type u)) else pass ()) (\<lambda>x.
      pass (upload_reply next_offset finished []))))
    (\<lambda>x. held L i u None) (held L i u None)"
proof (rule hoare_pure [OF at_part_announced], assumption)
  assume wa: "well_announced u"
  have l: "length (case c of None \<Rightarrow> [] | Some old \<Rightarrow> old) = (case c of None \<Rightarrow> 0 | Some old \<Rightarrow> length old)"
    by (cases c) simp_all
  show ?thesis
    apply (rule hoare_attempt [OF hoare_append [OF assms(2) [folded l]]])
    apply (simp only: Let_def)
    apply (rule hoare_attempt [where R = "\<lambda>x. held L i u None"])
     apply (rule hoare_if)
      apply (rule hoare_attempt [OF hoare_finish])
        apply (simp add: l)
       apply (rule assms(1))
      apply (rule hoare_mark)
     apply (rule hoare_pass, erule at_part_held)
    apply (rule hoare_pass, assumption)
    done
qed

lemma hoare_UploadChunk:
  assumes "faithful_files L"
  shows "hoare (held L i u D) (UploadChunk L uid i request) (\<lambda>x. held L i u D) (held L i u D)"
proof (rule hoare_pure [where p = "well_announced u"], simp add: held_def claimed_def)
  assume wa: "well_announced u"
  note H = held_blind(2) [of L i u D]
  have s: "hoare (held L i u D) (seeing (\<lambda>m. (done_of i m, part_of i m)))
      (\<lambda>x m. held L i u D m \<and> x = (disk m (home u, i, DoneFile), disk m (home u, i, PartFile))) E" for E
    by (rule hoare_seeing) (auto simp: held_def claimed_paths)
  have marked: "hoare (\<lambda>m. held L i u D m \<and> x = (disk m (home u, i, DoneFile), disk m (home u, i, PartFile)))
      (attempt (mark i (up_uid u) (up_recipient u) (up_size u) (up_thread u) (up_type u)) (\<lambda>x. pass reply)) (\<lambda>x. held L i u D) (held L i u D)"
    if "fst x \<noteq> None" for x reply
    by (rule hoare_attempt [where R = "\<lambda>x. held L i u D"], rule hoare_conseq [OF hoare_mark]) (use that in \<open>auto intro!: triples\<close>)
  have stored: "hoare (\<lambda>m. held L i u D m \<and> x = (disk m (home u, i, DoneFile), disk m (home u, i, PartFile))) j (\<lambda>x. held L i u D) (held L i u D)"
    if "fst x = None" "hoare (at_part L i u (snd x)) j (\<lambda>x. held L i u None) (held L i u None)" for x j
  proof (rule hoare_pure [where p = "D = None"])
    fix m assume "held L i u D m \<and> x = (disk m (home u, i, DoneFile), disk m (home u, i, PartFile))"
    then show "D = None" using that(1) held_unfinished by (metis fst_conv)
  next
    assume "D = None"
    with that show "hoare (\<lambda>m. held L i u D m \<and> x = (disk m (home u, i, DoneFile), disk m (home u, i, PartFile))) j (\<lambda>x. held L i u D) (held L i u D)"
      by (elim hoare_conseq) (auto simp: at_part_def)
  qed
  show ?thesis
  proof (cases "uid = up_uid u")
    case False
    show ?thesis
      unfolding UploadChunk_def
      apply (rule hoare_attempt [OF hoare_ReadMeta [OF assms]], rule hoare_strip)
      apply (simp only: meta_fields [OF _ wa] attempt_pass if_False False [symmetric] simp_thms if_True)
      apply (rule hoare_reply, assumption)
      done
  next
    case True
    show ?thesis
      unfolding UploadChunk_def True
      apply (rule hoare_attempt [OF hoare_ReadMeta [OF assms]], rule hoare_strip)
      apply (simp only: meta_fields [OF _ wa] attempt_pass if_False simp_thms)
      apply (rule hoare_attempt [OF hoare_group_allowed [OF H]], rule hoare_if, rule hoare_reply, assumption)
      apply (rule hoare_attempt [OF s])
      apply (rule hoare_prod, rule hoare_if, rule marked, simp)
      apply (rule stored, simp)
      apply (simp only: Let_def snd_conv)
      apply (rule hoare_attempt [OF hoare_conv], erule at_part_held)
      apply (rule hoare_if, rule hoare_reply, erule at_part_held)
      apply (rule hoare_attempt [OF hoare_conv], erule at_part_held)
      apply (rule hoare_if, rule hoare_reply, erule at_part_held)
      apply (rule hoare_store_chunk [unfolded Let_def])
       apply assumption
      apply simp
      done
  qed
qed

lemma hoare_part_complete:
  assumes "well_announced u"
  shows "hoare (at_part L i u (Some bytes)) (part_complete L i (up_type u) (up_size u) (up_sha u) bytes)
    (\<lambda>good m. (good \<longrightarrow> intact L u bytes) \<and> at_part L i u (Some bytes) m) (held L i u None)"
proof -
  have h: "hoare (at_part L i u (Some bytes)) (Sha256 L (Some bytes)) (\<lambda>h m. (h = [] \<or> h = hex_digest (sha256_digest L bytes)) \<and>
      at_part L i u (Some bytes) m) E" for E
    by (rule hoare_conseq [OF hoare_Sha256 [of "at_part L i u (Some bytes)"]]) (auto simp: at_part_blind)
  have v: "hoare (at_part L i u (Some bytes)) (if up_type u = 3 then ValidWave (Some bytes) else pass True)
      (\<lambda>good m. (good \<longrightarrow> intact L u bytes) \<and> at_part L i u (Some bytes) m) (held L i u None)"
    if "length bytes = up_size u" "hex_digest (sha256_digest L bytes) = up_sha u"
    by (rule hoare_if, rule hoare_conseq [OF hoare_ValidWave [of "at_part L i u (Some bytes)"]])
      (use that in \<open>auto simp: at_part_blind intact_def intro: hoare_pass\<close>)
  show ?thesis
    unfolding part_complete_def
    by (rule hoare_if, rule hoare_pass, simp, rule hoare_attempt [OF h], rule hoare_strip, rule hoare_if, rule hoare_pass, simp, rule v)
      (use well_announced_sha [OF assms] in auto)
qed

lemma hoare_recover:
  "hoare (held L i u D) (recover_part L i (up_type u) (up_size u) (up_sha u))
    (\<lambda>finished m. held L i u D m \<and> (finished \<longrightarrow> disk m (home u, i, DoneFile) \<noteq> None)) (held L i u D)"
proof (rule hoare_pure [where p = "well_announced u"], simp add: held_def claimed_def)
  assume wa: "well_announced u"
  let ?H = "held L i u D" and ?Q = "\<lambda>finished m. held L i u D m \<and> (finished \<longrightarrow> disk m (home u, i, DoneFile) \<noteq> None)"
  have s: "hoare ?H (seeing (\<lambda>m. (disk m, done_of i m, part_of i m))) (\<lambda>x m. (PartPath (fst x) i = (home u, i, PartFile) \<and>
      DonePath (fst x) i = (home u, i, DoneFile)) \<and> snd x = (disk m (home u, i, DoneFile), disk m (home u, i, PartFile)) \<and> ?H m) E" for E
    by (rule hoare_seeing) (auto simp: held_def claimed_paths)
  have stored: "hoare (\<lambda>m. (None, part) = (disk m (home u, i, DoneFile), disk m (home u, i, PartFile)) \<and> ?H m) j ?Q ?H"
    if "hoare (at_part L i u part) j (\<lambda>finished m. held L i u None m \<and> (finished \<longrightarrow> disk m (home u, i, DoneFile) \<noteq> None)) (held L i u None)" for part j
  proof (rule hoare_pure [where p = "D = None"])
    fix m assume "(None, part) = (disk m (home u, i, DoneFile), disk m (home u, i, PartFile)) \<and> ?H m"
    then show "D = None" using held_unfinished by (metis prod.inject)
  next
    assume "D = None"
    with that show "hoare (\<lambda>m. (None, part) = (disk m (home u, i, DoneFile), disk m (home u, i, PartFile)) \<and> ?H m) j ?Q ?H"
      by (elim hoare_conseq) (auto simp: at_part_def)
  qed
  have recovered: "hoare (at_part L i u (Some bytes)) (attempt (part_complete L i (up_type u) (up_size u) (up_sha u) bytes) (\<lambda>good.
      if good then attempt (rename_file (home u, i, PartFile) (home u, i, DoneFile)) (\<lambda>x. pass True)
      else attempt (remove_file (home u, i, PartFile)) (\<lambda>x. pass False)))
    (\<lambda>finished m. held L i u None m \<and> (finished \<longrightarrow> disk m (home u, i, DoneFile) \<noteq> None)) (held L i u None)" for bytes
    by (rule hoare_attempt [OF hoare_part_complete [OF wa]], rule hoare_strip, rule hoare_if)
      (auto intro!: hoare_attempt [OF hoare_rename] hoare_attempt [OF hoare_remove] hoare_pass intro: at_part_held)
  show ?thesis
    unfolding recover_part_def
    apply (rule hoare_attempt [OF s], rule hoare_strip, rule hoare_prod, rule hoare_prod)
    subgoal for x d y finished part
      apply (cases finished; cases part; clarsimp simp only: prod.case option.case fst_conv snd_conv)
         apply (rule stored, rule hoare_pass, simp add: at_part_held)
        apply (rule stored, rule hoare_if, rule hoare_pass, simp add: at_part_held, rule recovered)
       apply (rule hoare_pass, metis prod.inject option.distinct(1))+
      done
    done
qed

lemma hoare_claim:
  assumes "faithful_files L"
  shows "hoare (held L i u D) (claim_meta L i uid recipient thread type size_bytes sha)
    (\<lambda>x m. (uid = up_uid u \<and> recipient = up_recipient u \<and> thread = up_thread u \<and> type = up_type u \<and> size_bytes = up_size u \<and> sha = up_sha u) \<and>
      held L i u D m) (held L i u D)"
proof (rule hoare_pure [where p = "well_announced u"], simp add: held_def claimed_def)
  assume wa: "well_announced u"
  show ?thesis
    unfolding claim_meta_def same_field_def
    by (rule hoare_attempt [OF hoare_ReadMeta [OF assms]], rule hoare_strip)
      (auto simp: meta_fields [OF _ wa] intro!: triples)
qed

lemma hoare_conclude:
  "hoare (held L i u D) (conclude_init L (up_uid u) i (up_recipient u) (up_thread u) (up_type u) (up_size u) (up_sha u))
    (\<lambda>x. held L i u D) (held L i u D)"
proof -
  let ?H = "held L i u D" and ?R = "\<lambda>finished m. held L i u D m \<and> (finished \<longrightarrow> disk m (home u, i, DoneFile) \<noteq> None)"
  have wave: "hoare (?R finished) (if finished \<and> b then attempt (seeing (done_of i)) ValidWave else pass True) (\<lambda>x. ?R finished) ?H" for finished b
    by (rule hoare_if, rule hoare_attempt [OF hoare_seeing [where Q = "\<lambda>x. ?R finished"]])
      (auto intro!: hoare_conseq [OF hoare_ValidWave [of "?R finished"]] hoare_pass simp: held_blind)
  have marked: "hoare (?R finished) (if finished then mark i (up_uid u) (up_recipient u) (up_size u) (up_thread u) (up_type u) else pass ()) (\<lambda>x. ?H) ?H" for finished
    by (rule hoare_if, rule hoare_conseq [OF hoare_mark]) (auto intro: hoare_pass)
  show ?thesis
    unfolding conclude_init_def
    apply (rule hoare_attempt [OF hoare_recover])
    apply (rule hoare_attempt [OF wave], rule hoare_if, rule hoare_reply, erule conjunct1)
    apply (rule hoare_attempt [OF marked])
    apply (rule hoare_attempt [OF hoare_seeing [where Q = "\<lambda>x. ?H"]], assumption)
    apply (simp only: Let_def, rule hoare_pass, assumption)
    done
qed

text \<open>The fields of a request may be anything; numbers are in range once they are converted.\<close>

lemma hoare_meta_int: "(\<And>m. P m \<Longrightarrow> E m) \<Longrightarrow> hoare P (meta_int k d v) (\<lambda>x m. in_int_range x \<and> P m) E"
  unfolding meta_int_def
proof (rule hoare_converted, goal_cases)
  case (1 m x)
  then obtain y where "asInt y = Some x" by (auto simp: bind_eq_Some_conv)
  then have "in_int_range x"
    by (cases y) (auto simp: in_int_range_def int_min_def int_max_def trunc_rat_def floor_le_iff le_floor_iff ceiling_le_iff le_ceiling_iff
        split: if_splits)
  with 1 show ?case by simp
qed simp

lemma hoare_meta_size: "(\<And>m. P m \<Longrightarrow> E m) \<Longrightarrow> hoare P (meta_size v) (\<lambda>x. P) E"
  unfolding meta_size_def by (rule hoare_conv)

lemma hoare_meta_sha: "(\<And>m. P m \<Longrightarrow> E m) \<Longrightarrow> hoare P (meta_sha L v) (\<lambda>x. P) E"
  unfolding meta_sha_def by (rule hoare_conv)

lemma hoare_requested:
  assumes "\<And>recipient thread type n sha. in_int_range recipient \<Longrightarrow> in_int_range thread \<Longrightarrow> upload_valid uid recipient thread type n sha \<Longrightarrow>
      hoare P (attempt (claim_meta L i uid recipient thread type n sha) (\<lambda>x. conclude_init L uid i recipient thread type n sha)) Q E"
    and "\<And>m. P m \<Longrightarrow> E m" "chat_blind P"
  shows "hoare P (UploadInit L uid i request) Q E"
proof -
  have g: "hoare P (group_allowed L uid request thread) (\<lambda>x. P) E" for thread
    by (rule hoare_conseq [OF hoare_group_allowed [OF assms(3)]]) (auto intro: assms(2))
  show ?thesis
    unfolding UploadInit_def
    apply (rule hoare_attempt [OF hoare_meta_int], erule assms(2), rule hoare_strip)
    apply (rule hoare_attempt [OF hoare_meta_int], erule assms(2), rule hoare_strip)
    apply (rule hoare_attempt [OF hoare_meta_int], erule assms(2), rule hoare_strip)
    apply (rule hoare_attempt [OF hoare_meta_size], erule assms(2), rule hoare_attempt [OF hoare_meta_sha], erule assms(2))
    apply (rule hoare_if, rule hoare_reply, erule assms(2))
    apply (rule hoare_attempt [OF g], rule hoare_if, rule hoare_reply, erule assms(2))
    apply (rule assms(1), assumption+, simp)
    done
qed

lemma hoare_UploadInit:
  assumes "faithful_files L"
  shows "hoare (held L i u D) (UploadInit L uid i request) (\<lambda>x. held L i u D) (held L i u D)"
  by (rule hoare_requested, rule hoare_attempt [OF hoare_claim [OF assms]], rule hoare_strip, elim conjE, hypsubst, rule hoare_conclude)
    (simp_all add: held_blind)

lemma hoare_Download:
  assumes "faithful_files L"
  shows "hoare (held L i u D) (Download L uid i request) (\<lambda>x. held L i u D) (held L i u D)"
proof (rule hoare_pure [where p = "well_announced u"], simp add: held_def claimed_def)
  assume wa: "well_announced u"
  let ?H = "held L i u D"
  note H = held_blind(2) [of L i u D]
  have allowed: "hoare ?H (may_download L uid request meta thread) (\<lambda>x. ?H) ?H" for meta thread
    unfolding may_download_def meta_int_def
    by (rule hoare_if, rule hoare_group_allowed [OF H], rule hoare_attempt [OF hoare_conv], assumption, rule hoare_if, rule hoare_pass,
        assumption, rule hoare_attempt [OF hoare_conv], assumption, rule hoare_pass, assumption)
  have bytes: "hoare ?H (read_done k n content) (\<lambda>x. ?H) ?H" for k n content
    unfolding read_done_def
    by (rule hoare_attempt [OF hoare_io], rule held_blind, assumption) (auto intro!: triples)
  show ?thesis
    unfolding Download_def
    apply (rule hoare_attempt [OF hoare_ReadMeta [OF assms]], rule hoare_strip)
    apply (simp only: meta_fields [OF _ wa] attempt_pass if_False simp_thms)
    apply (rule hoare_attempt [OF allowed], rule hoare_if, rule hoare_reply, assumption)
    apply (rule hoare_attempt [OF hoare_seeing [where Q = "\<lambda>x. ?H"]], assumption)
    apply (rule hoare_option, rule hoare_reply, assumption)
    apply (rule hoare_attempt [OF hoare_conv], assumption, rule hoare_if, rule hoare_reply, assumption)
    apply (rule hoare_attempt [OF bytes], rule hoare_pass, assumption)
    done
qed

section \<open>A file nothing or nothing readable is stored for\<close>

definition spoilt :: "resource_lib \<Rightarrow> string \<Rightarrow> media \<Rightarrow> bool" where
  "spoilt L i m \<longleftrightarrow> spoiled L i m \<and> opens m = []"

lemma spoiled_paths:
  assumes "spoiled L i m"
  shows "\<exists>content. disk m (MetaPath (disk m) i) = Some content \<and> stream_in L content = None" "part_of i m = None" "done_of i m = None"
proof -
  from assms obtain f content where f: "disk m (f, i, MetaFile) = Some content" "stream_in L content = None"
      "disk m (f, i, PartFile) = None" "disk m (f, i, DoneFile) = None" "\<And>g s. g \<noteq> f \<Longrightarrow> disk m (g, i, s) = None"
    by (auto simp: spoiled_def no_files_def)
  then have p: "MetaPath (disk m) i = (f, i, MetaFile)" by (cases f) (auto simp: MetaPath_def)
  then show "\<exists>content. disk m (MetaPath (disk m) i) = Some content \<and> stream_in L content = None" "part_of i m = None" "done_of i m = None"
    using f by (auto simp: part_of_def done_of_def PartPath_def DonePath_def)
qed

lemma spoilt_blind: "spoilt L i m \<Longrightarrow> spoilt L i (m\<lparr>io_fates := fs\<rparr>)" "chat_blind (spoilt L i)"
  by (auto simp: spoilt_def spoiled_def no_files_def ready_def chat_blind_def same_redis_def)

lemma hoare_ReadMeta_spoilt: "hoare (spoilt L i) (ReadMeta L i) (\<lambda>x m. False) (spoilt L i)"
  unfolding hoare_def ReadMeta_def
proof (intro allI impI, goal_cases)
  case (1 m r m')
  then show ?case using spoiled_paths(1) [of L i m] by (auto simp: spoilt_def)
qed

lemma hoare_stopped: "hoare P j (\<lambda>x m. False) E \<Longrightarrow> hoare P (attempt j f) Q E"
  by (rule hoare_attempt) (auto simp: hoare_def)

lemma hoare_spoilt:
  "hoare (spoilt L i) (UploadInit L uid i request) (\<lambda>x. spoilt L i) (spoilt L i)"
  "hoare (spoilt L i) (UploadChunk L uid i request) (\<lambda>x. spoilt L i) (spoilt L i)"
  "hoare (spoilt L i) (Download L uid i request) (\<lambda>x. spoilt L i) (spoilt L i)"
proof -
  show "hoare (spoilt L i) (UploadInit L uid i request) (\<lambda>x. spoilt L i) (spoilt L i)"
    by (rule hoare_requested, rule hoare_stopped, unfold claim_meta_def, rule hoare_stopped [OF hoare_ReadMeta_spoilt]) (simp_all add: spoilt_blind)
  show "hoare (spoilt L i) (UploadChunk L uid i request) (\<lambda>x. spoilt L i) (spoilt L i)"
    unfolding UploadChunk_def by (rule hoare_stopped [OF hoare_ReadMeta_spoilt])
  show "hoare (spoilt L i) (Download L uid i request) (\<lambda>x. spoilt L i) (spoilt L i)"
    unfolding Download_def by (rule hoare_stopped [OF hoare_ReadMeta_spoilt])
qed

lemma hoare_conclude_spoilt:
  "hoare (spoilt L i) (conclude_init L uid i recipient thread type n sha) (\<lambda>x. spoilt L i) (spoilt L i)"
proof -
  have s: "hoare (spoilt L i) (seeing (\<lambda>m. (disk m, done_of i m, part_of i m))) (\<lambda>x m. snd x = (None, None) \<and> spoilt L i m) E" for E
    by (rule hoare_seeing) (auto simp: spoilt_def spoiled_paths)
  have r: "hoare (spoilt L i) (recover_part L i type n sha) (\<lambda>finished m. \<not> finished \<and> spoilt L i m) E" for E
    unfolding recover_part_def by (rule hoare_attempt [OF s], rule hoare_strip) (auto intro!: triples)
  show ?thesis
    unfolding conclude_init_def
    by (rule hoare_attempt [OF r], rule hoare_strip) (auto simp: Let_def intro!: triples hoare_attempt [OF hoare_seeing [where Q = "\<lambda>x. spoilt L i"]])
qed

lemma hoare_disj: "hoare P j Q E \<Longrightarrow> hoare P' j Q E \<Longrightarrow> hoare (\<lambda>m. P m \<or> P' m) j Q E"
  unfolding hoare_def by blast

definition unclaimed :: "string \<Rightarrow> media \<Rightarrow> bool" where
  "unclaimed i m \<longleftrightarrow> fresh i m \<and> opens m = []"

lemma unclaimed_blind: "unclaimed i m \<Longrightarrow> unclaimed i (m\<lparr>io_fates := fs\<rparr>)" "chat_blind (unclaimed i)"
  by (auto simp: unclaimed_def fresh_def no_files_def ready_def chat_blind_def same_redis_def)

lemma hoare_ReadMeta_unclaimed: "hoare (unclaimed i) (ReadMeta L i) (\<lambda>meta m. meta = JNull \<and> unclaimed i m) E"
  unfolding hoare_def ReadMeta_def
proof (intro allI impI, goal_cases)
  case (1 m r m')
  then have "disk m (MetaPath (disk m) i) = None" by (simp add: unclaimed_def fresh_def no_files_def MetaPath_def)
  with 1 show ?case by auto
qed

lemma written_meta:
  assumes "unclaimed i m" "well_announced u"
  shows "held L i u None (m\<lparr>disk := (disk m)((home u, i, MetaFile) := Some (stream_out L (meta_of u)))\<rparr>)"
    "stream_in L content = None \<Longrightarrow> spoilt L i (m\<lparr>disk := (disk m)((home u, i, MetaFile) := Some content)\<rparr>)"
  using assms by (auto simp: unclaimed_def fresh_def no_files_def held_def claimed_def spoilt_def spoiled_def ready_def)

lemma hoare_WriteMeta:
  assumes "faithful_files L" "well_announced u"
  shows "hoare (unclaimed i) (WriteMeta L i (meta_of u)) (\<lambda>x m. held L i u None m \<or> spoilt L i m) (\<lambda>m. unclaimed i m \<or> held L i u None m \<or> spoilt L i m)"
proof -
  have r: "reads_back (meta_of u) u" by (simp add: reads_back_def meta_of_def new_meta_def)
  have cut: "held L i u None (m\<lparr>disk := (disk m)((home u, i, MetaFile) := Some (take k (stream_out L (meta_of u))))\<rparr>) \<or>
      spoilt L i (m\<lparr>disk := (disk m)((home u, i, MetaFile) := Some (take k (stream_out L (meta_of u))))\<rparr>)" if "unclaimed i m" for m k
  proof (cases "k < length (stream_out L (meta_of u))")
    case True
    then show ?thesis using written_meta(2) [OF that assms(2)] assms unfolding faithful_files_def by blast
  next
    case False
    then show ?thesis using written_meta(1) [OF that assms(2)] by simp
  qed
  show ?thesis
    unfolding WriteMeta_def
    apply (simp only: meta_fields [OF r assms(2)] attempt_pass Let_def home_def [symmetric])
    apply (rule hoare_attempt [OF hoare_io], rule unclaimed_blind, assumption)
    apply (rule hoare_fate)
      apply (rule hoare_put, rule disjI1, erule written_meta, rule assms(2))
     apply (rule hoare_throw, erule disjI1)
    apply (rule hoare_attempt [where R = "\<lambda>x m. held L i u None m \<or> spoilt L i m"])
     apply (rule hoare_put, erule cut)
    apply (auto intro!: triples)
    done
qed

definition status :: "resource_lib \<Rightarrow> string \<Rightarrow> media \<Rightarrow> bool" where
  "status L i m \<longleftrightarrow> opens m = [] \<and> (fresh i m \<or> spoiled L i m \<or> (\<exists>u. claimed L i u m))"

lemma status_cases: "unclaimed i m \<Longrightarrow> status L i m" "spoilt L i m \<Longrightarrow> status L i m" "held L i u D m \<Longrightarrow> status L i m"
  by (auto simp: status_def unclaimed_def spoilt_def held_def)

lemma hoare_unclaimed:
  assumes "faithful_files L" "0 < uid" "in_int_range uid"
  shows "hoare (unclaimed i) (UploadInit L uid i request) (\<lambda>x. status L i) (status L i)"
proof (rule hoare_requested)
  fix recipient thread type n sha
  assume v: "in_int_range recipient" "in_int_range thread" "upload_valid uid recipient thread type n sha"
  define u where "u = \<lparr>up_uid = uid, up_recipient = recipient, up_thread = thread, up_type = type, up_size = n, up_sha = sha\<rparr>"
  have u: "up_uid u = uid" "up_recipient u = recipient" "up_thread u = thread" "up_type u = type" "up_size u = n" "up_sha u = sha"
    by (simp_all add: u_def)
  have wa: "well_announced u" using v assms by (simp add: well_announced_def u_def)
  have m: "new_meta uid recipient thread type n sha = meta_of u" by (simp add: meta_of_def u)
  have c: "hoare (unclaimed i) (claim_meta L i uid recipient thread type n sha) (\<lambda>x m. held L i u None m \<or> spoilt L i m) (status L i)"
    unfolding claim_meta_def
    by (rule hoare_attempt [OF hoare_ReadMeta_unclaimed], rule hoare_strip, simp add: isNull_def m,
        rule hoare_conseq [OF hoare_WriteMeta [OF assms(1) wa]]) (auto intro: status_cases)
  show "hoare (unclaimed i) (attempt (claim_meta L i uid recipient thread type n sha) (\<lambda>x. conclude_init L uid i recipient thread type n sha))
      (\<lambda>x. status L i) (status L i)"
    by (rule hoare_attempt [OF c], rule hoare_disj, rule hoare_conseq [OF hoare_conclude [of L i u None, unfolded u]])
      (auto intro: status_cases hoare_conseq [OF hoare_conclude_spoilt])
qed (simp_all add: status_cases unclaimed_blind)

lemma hoare_unclaimed_others:
  "hoare (unclaimed i) (UploadChunk L uid i request) (\<lambda>x. status L i) (status L i)"
  "hoare (unclaimed i) (Download L uid i request) (\<lambda>x. status L i) (status L i)"
  unfolding UploadChunk_def Download_def
  by (rule hoare_attempt [OF hoare_ReadMeta_unclaimed], rule hoare_strip, simp add: isNull_def, rule hoare_reply, erule status_cases)+

section \<open>Other files\<close>

definition touches :: "string \<Rightarrow> media \<Rightarrow> media \<Rightarrow> bool" where
  "touches i m0 m \<longleftrightarrow> (\<forall>f j s. j \<noteq> i \<longrightarrow> disk m (f, j, s) = disk m0 (f, j, s)) \<and> (\<forall>j. j \<noteq> i \<longrightarrow> ready m j = ready m0 j) \<and>
     (opens m0 = [] \<longrightarrow> opens m = [])"

abbreviation local_to :: "string \<Rightarrow> media \<Rightarrow> 'a job \<Rightarrow> bool" where
  "local_to i m0 j \<equiv> hoare (touches i m0) j (\<lambda>x. touches i m0) (touches i m0)"

named_theorems locals \<open>jobs that concern one file\<close>

lemma touches_blind: "touches i m0 m \<Longrightarrow> touches i m0 (m\<lparr>io_fates := fs\<rparr>)" "chat_blind (touches i m0)"
  by (auto simp: touches_def ready_def chat_blind_def same_redis_def)

lemma local_attempt [locals]: "local_to i m0 j \<Longrightarrow> (\<And>x. local_to i m0 (f x)) \<Longrightarrow> local_to i m0 (attempt j f)"
  by (rule hoare_attempt)

lemma local_basic [locals]:
  "local_to i m0 (pass x)" "local_to i m0 (State_Monad.return (Inl reply))" "local_to i m0 throw" "local_to i m0 (converted v)"
  "local_to i m0 (seeing g)" "local_to i m0 next_io" "local_to i m0 (put_file (f, i, s) content)"
  by (auto intro: hoare_pass hoare_reply hoare_throw hoare_conv hoare_seeing hoare_io touches_blind hoare_put)
    (auto intro!: hoare_put simp: touches_def ready_def)

lemmas local_splits [locals] = hoare_if hoare_option hoare_prod hoare_fate hoare_let

lemma local_fields [locals]: "local_to i m0 (meta_int k d v)" "local_to i m0 (meta_size v)" "local_to i m0 (meta_sha L v)"
  unfolding meta_int_def meta_size_def meta_sha_def by (intro locals)+

lemma local_group [locals]: "local_to i m0 (group_allowed L uid request thread)"
  by (rule hoare_group_allowed [OF touches_blind(2)])

lemma local_ReadMeta [locals]: "local_to i m0 (ReadMeta L i)"
  by (auto simp: hoare_def ReadMeta_def touches_def ready_def split: option.splits list.splits sum.splits)

lemma local_files [locals]:
  "local_to i m0 (ValidWave content)" "local_to i m0 (Sha256 L content)" "local_to i m0 (read_done k n bytes)"
  "local_to i m0 (rename_file (f, i, s) (f', i, s'))" "local_to i m0 (remove_file (f, i, s))" "local_to i m0 (WriteMeta L i meta)"
  unfolding ValidWave_def Sha256_def read_done_def rename_file_def remove_file_def WriteMeta_def Let_def by (intro locals)+

lemma paths_of [simp]: "PartPath d i = (fst (MetaPath d i), i, PartFile)" "DonePath d i = (fst (MetaPath d i), i, DoneFile)"
  by (simp_all add: PartPath_def DonePath_def)

lemma ready_key_inj [simp]: "ready_key i = ready_key j \<longleftrightarrow> i = j"
  by (simp add: ready_key_def)

lemma local_mark [locals]: "local_to i m0 (mark i uid recipient n thread type)"
proof -
  have "hoare (touches i m0) (on_chat (MarkReady i uid recipient n thread type)) (\<lambda>x. touches i m0) (touches i m0)"
    unfolding hoare_def
  proof (intro allI impI, goal_cases)
    case (1 m r m')
    have d: "m' = m\<lparr>chat := chat m'\<rparr>" "\<exists>d. redisd (chat m') = snd (command d (SET (ready_key i) (ready_value uid recipient n thread type)) (redisd (chat m)))" "\<exists>x. r = Inr x"
      using 1(2) by (auto simp: on_chat_def MarkReady_def redis_call_def next_fate_def split: prod.splits list.splits) (metis snd_conv)+
    then obtain d where "redisd (chat m') = snd (command d (SET (ready_key i) (ready_value uid recipient n thread type)) (redisd (chat m)))" by blast
    then have "ready m' j = ready m j" if "j \<noteq> i" for j
      using that by (cases d) (simp_all add: ready_def command_def SET_def value_of_def)
    moreover have "disk m' = disk m" "opens m' = opens m" by (subst d(1), simp)+
    ultimately show ?case using 1(1) d(3) by (auto simp: touches_def)
  qed
  then show ?thesis unfolding mark_def by (intro locals)
qed

lemma local_append [locals]: "local_to i m0 (append_part i bytes)"
proof -
  have s: "hoare (touches i m0) (seeing (\<lambda>m. (PartPath (disk m) i, old m))) (\<lambda>x m. (\<exists>f. fst x = (f, i, PartFile)) \<and> touches i m0 m) E" for old E
    by (rule hoare_seeing) simp
  show ?thesis
    unfolding append_part_def by (rule hoare_attempt [OF s], rule hoare_strip) (auto intro!: locals)
qed

lemma local_requests [locals]:
  "local_to i m0 (UploadInit L uid i request)" "local_to i m0 (UploadChunk L uid i request)" "local_to i m0 (Download L uid i request)"
  unfolding UploadInit_def claim_meta_def same_field_def conclude_init_def recover_part_def part_complete_def UploadChunk_def finish_part_def Download_def
    may_download_def paths_of Let_def
  by (intro locals)+

section \<open>Requests and their environment\<close>

lemma known_user: "run_state (Authenticated uid token) n = (True, n') \<Longrightarrow> 0 < uid"
  by (auto simp: Authenticated_def split: if_splits)

text \<open>A request is rejected before it gets to a file, or it is one of the three on the file it names.\<close>

lemma hoare_Handle:
  assumes "chat_blind P" "\<And>m. P m \<Longrightarrow> E m"
    and "\<And>uid i. 0 < uid \<Longrightarrow> in_int_range uid \<Longrightarrow> hoare P (UploadInit L uid i request) Q E"
    and "\<And>uid i. hoare P (UploadChunk L uid i request) Q E" "\<And>uid i. hoare P (Download L uid i request) Q E"
  shows "hoare P (Handle L request_id request) Q E"
proof -
  have known: "hoare P (on_chat (Authenticated uid token)) (\<lambda>known m. (known \<longrightarrow> 0 < uid) \<and> P m) E" for uid token
    unfolding hoare_def
  proof (intro allI impI, goal_cases)
    case (1 m r m')
    have "case r of Inl reply \<Rightarrow> E m' | Inr x \<Rightarrow> P m'"
      using hoareD [OF hoare_look [OF looking_Authenticated assms(1)] 1] .
    moreover have "\<And>x. r = Inr x \<Longrightarrow> x \<Longrightarrow> 0 < uid" using 1(2) known_user by (auto simp: on_chat_def split: prod.splits)
    ultimately show ?case by (auto split: sum.splits)
  qed
  show ?thesis
    unfolding Handle_def
    apply (rule hoare_attempt [OF hoare_meta_int], erule assms(2), rule hoare_strip)
    apply (rule hoare_attempt [OF hoare_conv], erule assms(2))
    apply (rule hoare_attempt [OF known], rule hoare_strip, rule hoare_if, rule hoare_reply, erule assms(2))
    apply (rule hoare_attempt [OF hoare_conv], erule assms(2), rule hoare_if, rule hoare_reply, erule assms(2))
    apply (intro hoare_if assms(3-5), simp, assumption, rule hoare_reply, erule assms(2))
    done
qed

lemma serve_hoare:
  assumes "hoare P (Handle L request_id (snd (parse (json_lib L) body))) (\<lambda>x. E) E" "P m" "\<And>m. P m \<Longrightarrow> E m"
    "run_state (serve_request L request_id body) m = (reply, m')"
  shows "E m'"
proof -
  obtain ok request where p: "parse (json_lib L) body = (ok, request)" by force
  show ?thesis
    using assms(2-4) hoareD [OF assms(1,2)] unfolding serve_request_def p
    by (auto split: if_splits sum.splits prod.splits)
qed

inductive media_step :: "resource_lib \<Rightarrow> media \<Rightarrow> media \<Rightarrow> bool" for L where
  served: "run_state (serve_request L request_id body) (m\<lparr>io_fates := fs\<rparr>) = (reply, m') \<Longrightarrow> media_step L m m'"
| elsewhere: "(\<And>i v. value_of (redisd n) (ready_key i) = Some v \<Longrightarrow> value_of (redisd (chat m)) (ready_key i) = Some v) \<Longrightarrow>
    media_step L m (m\<lparr>chat := n\<rparr>)"

definition empty_store :: "media \<Rightarrow> bool" where
  "empty_store m \<longleftrightarrow> (\<forall>p. disk m p = None) \<and> opens m = [] \<and> (\<forall>i. ready m i = None)"

lemma status_blind: "status L i m \<Longrightarrow> status L i (m\<lparr>io_fates := fs\<rparr>)"
  by (auto simp: status_def fresh_def spoiled_def claimed_def no_files_def ready_def)

text \<open>A request for one file, whatever condition the file is in.\<close>

lemma status_split: "status L i m \<longleftrightarrow> unclaimed i m \<or> spoilt L i m \<or> (\<exists>u. held L i u None m)"
  by (auto simp: status_def unclaimed_def spoilt_def held_def)

lemma hoare_ex: "(\<And>u. hoare (P u) j Q E) \<Longrightarrow> hoare (\<lambda>m. \<exists>u. P u m) j Q E"
  unfolding hoare_def by blast

lemma hoare_status:
  assumes "faithful_files L"
  shows "0 < uid \<Longrightarrow> in_int_range uid \<Longrightarrow> hoare (status L i) (UploadInit L uid i request) (\<lambda>x. status L i) (status L i)"
    "hoare (status L i) (UploadChunk L uid i request) (\<lambda>x. status L i) (status L i)"
    "hoare (status L i) (Download L uid i request) (\<lambda>x. status L i) (status L i)"
  unfolding status_split [of L i, abs_def]
  by (intro hoare_disj hoare_ex; rule hoare_conseq, rule hoare_unclaimed [OF assms] hoare_unclaimed_others hoare_spoilt
        hoare_UploadInit [OF assms] hoare_UploadChunk [OF assms] hoare_Download [OF assms];
      auto simp: status_split)+


lemma hoare_elsewhere:
  assumes "\<And>m0. local_to i m0 j" "\<And>m m'. touches i m m' \<Longrightarrow> P m \<Longrightarrow> P m'"
  shows "hoare P j (\<lambda>x. P) P"
  unfolding hoare_def
proof (intro allI impI, goal_cases)
  case (1 m r m')
  then show ?case using hoareD [OF assms(1), of m m r m'] assms(2) by (auto simp: touches_def split: sum.splits)
qed

lemma status_elsewhere: "touches i m m' \<Longrightarrow> k \<noteq> i \<Longrightarrow> status L k m \<Longrightarrow> status L k m'"
  by (auto simp: touches_def status_def fresh_def spoiled_def claimed_def no_files_def)

lemma hoare_status_any:
  assumes "faithful_files L"
  shows "hoare (status L k) (Handle L request_id request) (\<lambda>x. status L k) (status L k)"
proof (rule hoare_Handle)
  show "chat_blind (status L k)"
    by (auto simp: chat_blind_def same_redis_def status_def fresh_def spoiled_def claimed_def no_files_def ready_def)
  fix uid i
  show "hoare (status L k) (UploadInit L uid i request) (\<lambda>x. status L k) (status L k)" if "0 < uid" "in_int_range uid"
    by (cases "k = i") (use hoare_status(1) [OF assms that] in simp, rule hoare_elsewhere [OF local_requests(1)], erule status_elsewhere, auto)
  show "hoare (status L k) (UploadChunk L uid i request) (\<lambda>x. status L k) (status L k)"
    by (cases "k = i") (use hoare_status(2) [OF assms] in simp, rule hoare_elsewhere [OF local_requests(2)], erule status_elsewhere, auto)
  show "hoare (status L k) (Download L uid i request) (\<lambda>x. status L k) (status L k)"
    by (cases "k = i") (use hoare_status(3) [OF assms] in simp, rule hoare_elsewhere [OF local_requests(3)], erule status_elsewhere, auto)
qed

interpretation uploads: invariant_system empty_store "media_step L" "\<lambda>m. faithful_files L \<longrightarrow> (\<forall>i. status L i m)" for L
proof (unfold_locales, goal_cases)
  case (1 m)
  then show ?case by (auto simp: empty_store_def status_def fresh_def no_files_def)
next
  case (2 m m')
  from 2(1) show ?case
  proof cases
    case (served request_id body fs reply)
    then show ?thesis using 2(2) serve_hoare [OF hoare_status_any _ _ served] by (auto intro: status_blind)
  next
    case (elsewhere n)
    have e: "ready m' i = ready m i \<or> ready m' i = None" "disk m' = disk m" "opens m' = opens m" for i
      using elsewhere by (auto simp: ready_def)
    have "status L i m \<Longrightarrow> status L i m'" for i
      using e(1) [of i] unfolding status_split unclaimed_def fresh_def spoilt_def spoiled_def held_def claimed_def no_files_def e(2,3)
      by (elim disjE) (simp_all, blast)
    then show ?thesis using 2(2) by blast
  qed
qed

lemma hoare_held_any:
  assumes "faithful_files L"
  shows "hoare (held L k u D) (Handle L request_id request) (\<lambda>x. held L k u D) (held L k u D)"
proof (rule hoare_Handle [OF held_blind(2)])
  have other: "touches i m m' \<Longrightarrow> k \<noteq> i \<Longrightarrow> held L k u D m \<Longrightarrow> held L k u D m'" for i m m'
    by (auto simp: touches_def held_def claimed_def no_files_def)
  fix uid i
  show "hoare (held L k u D) (UploadInit L uid i request) (\<lambda>x. held L k u D) (held L k u D)"
    by (cases "k = i") (use hoare_UploadInit [OF assms] in simp, rule hoare_elsewhere [OF local_requests(1)], erule other, auto)
  show "hoare (held L k u D) (UploadChunk L uid i request) (\<lambda>x. held L k u D) (held L k u D)"
    by (cases "k = i") (use hoare_UploadChunk [OF assms] in simp, rule hoare_elsewhere [OF local_requests(2)], erule other, auto)
  show "hoare (held L k u D) (Download L uid i request) (\<lambda>x. held L k u D) (held L k u D)"
    by (cases "k = i") (use hoare_Download [OF assms] in simp, rule hoare_elsewhere [OF local_requests(3)], erule other, auto)
qed

lemma held_step:
  assumes "faithful_files L" "media_step L m m'" "held L i u D m"
  shows "held L i u D m'"
  using assms(2)
proof cases
  case (served request_id body fs reply)
  then show ?thesis using assms(3) serve_hoare [OF hoare_held_any [OF assms(1)] _ _ served] by (auto intro: held_blind)
next
  case (elsewhere n)
  have "\<And>v. ready m' i = Some v \<Longrightarrow> ready m i = Some v" "disk m' = disk m" "opens m' = opens m"
    using elsewhere by (auto simp: ready_def)
  then show ?thesis using assms(3) by (auto simp: held_def claimed_def no_files_def)
qed

section \<open>What the store guarantees\<close>



end
