(* ===== verification/MediaMessages.thy ===== *)
theory MediaMessages
  imports Uploads
begin

text \<open>
  The two servers together: a chat node stores a picture, file or voice message only if Redis says the file is
  ready, and Redis says so only of files the resource server has in place. So what a message refers to can be downloaded.
\<close>

section \<open>What a ready key says\<close>

definition media_tag :: "int \<Rightarrow> string" where
  "media_tag type = (if type = 3 then ''audio:'' else if type = 2 then ''file:'' else [])"

lemma to_string_head: "0 < i \<Longrightarrow> \<exists>c cs. to_string i = c # cs \<and> isdigit c"
  using nat_digits_isdigit [of _ "nat i"] by (cases "nat_digits (nat i)") (auto simp: to_string_def)

lemma not_digits: "\<not> isdigit (CHR ''a'')" "\<not> isdigit (CHR ''f'')" "\<not> isdigit (CHR ''g'')"
  by (simp_all add: isdigit_def byte_def)

lemma tag_inj:
  assumes "media_tag t @ a = media_tag t' @ b" "t \<in> {1, 2, 3}" "t' \<in> {1, 2, 3}"
    "isdigit (hd a) \<or> hd a = CHR ''g''" "isdigit (hd b) \<or> hd b = CHR ''g''" "a \<noteq> []" "b \<noteq> []"
  shows "t = t' \<and> a = b"
  using assms not_digits by (cases a; cases b) (auto simp: media_tag_def split: if_splits)

definition scope_text :: "bool \<Rightarrow> int \<Rightarrow> int \<Rightarrow> string \<Rightarrow> string" where
  "scope_text grouped sender other rest = (if grouped then ''group:'' else []) @ to_string sender @ '':'' @ to_string other @ '':'' @ rest"

lemma scope_inj:
  assumes "scope_text g a b r = scope_text g' a' b' r'" "0 < a" "0 < a'"
  shows "g = g' \<and> a = a' \<and> b = b' \<and> r = r'"
proof -
  obtain c cs d ds where h: "to_string a = c # cs" "isdigit c" "to_string a' = d # ds" "isdigit d"
    using to_string_head assms(2,3) by metis
  then have g: "g = g'" using assms(1) not_digits by (auto simp: scope_text_def split: if_splits)
  then have e: "to_string a @ CHR '':'' # (to_string b @ CHR '':'' # r) = to_string a' @ CHR '':'' # (to_string b' @ CHR '':'' # r')"
    using assms(1) by (simp add: scope_text_def split: if_splits)
  from append_eq_sep [OF _ _ e] have "a = a'" "to_string b @ CHR '':'' # r = to_string b' @ CHR '':'' # r'" by auto
  then show ?thesis using g append_eq_sep [of "CHR '':''" "to_string b" "to_string b'" r r'] by simp
qed

lemma scope_head: "0 < a \<Longrightarrow> scope_text g a b r \<noteq> [] \<and> (isdigit (hd (scope_text g a b r)) \<or> hd (scope_text g a b r) = CHR ''g'')"
  using to_string_head [of a] by (auto simp: scope_text_def)

lemma ready_value_scope:
  "ready_value sender recipient n thread type =
    media_tag type @ scope_text (0 < thread) sender (if 0 < thread then thread else recipient) (to_string (int n))"
  by (simp add: ready_value_def media_tag_def scope_text_def)

lemma media_prefix_scope:
  "media_prefix actor g m @ rest = media_tag (cm_msg_type m) @ scope_text g actor (if g then cm_thread_id m else cm_recv_id m) rest"
  by (simp add: media_prefix_def media_tag_def scope_text_def)

section \<open>Checking a message\<close>

lemma looking_Get [looking]: "state_io_rel same_redis (redis_call (\<lambda>d. Get d k))"
  by (auto simp: state_io_rel_def redis_call_def next_fate_def Get_def GET_def command_def same_redis_def Let_def
      split: prod.splits delivery.splits list.splits)

lemma looking_sum [looking]:
  "(\<And>x. state_io_rel R (f x)) \<Longrightarrow> (\<And>x. state_io_rel R (g x)) \<Longrightarrow> state_io_rel R (case v of Inl x \<Rightarrow> f x | Inr x \<Rightarrow> g x)"
  by (cases v) simp_all

lemma looking_check_media [looking]: "state_io_rel same_redis (check_media actor g m)"
  unfolding check_media_def by (intro looking)

lemma Get_delivered: "fst (Get d k s) = Some v \<Longrightarrow> value_of s k = Some v"
  by (auto simp: Get_def command_def GET_def as_string_def Let_def split: delivery.splits if_splits option.splits prod.splits)

lemma check_media_ready:
  assumes "run_state (check_media actor g m) n = (Inr m', n')"
  shows "\<exists>bytes rest used. m' = m\<lparr>cm_media_size := bytes\<rparr> \<and> stoull rest = Some (bytes, used) \<and>
    value_of (redisd n) (ready_key (cm_content m)) = Some (media_prefix actor g m @ rest)"
proof -
  let ?p = "media_prefix actor g m"
  obtain r n1 where r: "run_state (redis_call (\<lambda>d. Get d (''resource_ready_'' @ cm_content m))) n = (r, n1)" by force
  have c: "length (cm_content m) = 32 \<and> list_all isxdigit (cm_content m)"
    using assms by (auto simp: check_media_def split: if_splits)
  with assms r obtain key where k: "r = Some key" "take (length ?p) key = ?p"
    and s: "(case stoull (drop (length ?p) key) of None \<Rightarrow> Inl Error_Json
        | Some (bytes, used) \<Rightarrow>
            if cm_msg_type m = 3 \<and> (bytes < WaveHeaderBytes + MinPcmBytes \<or> WaveHeaderBytes + MaxPcmBytes < bytes)
            then Inl Error_Json else Inr (m\<lparr>cm_media_size := bytes\<rparr>)) = Inr m'"
    by (cases r) (simp_all add: check_media_def Let_def split: if_splits)
  obtain bytes used where q: "stoull (drop (length ?p) key) = Some (bytes, used)" using s by (cases "stoull (drop (length ?p) key)") auto
  have t: "r = Some key" "take (length ?p) key = ?p" "stoull (drop (length ?p) key) = Some (bytes, used)" "m' = m\<lparr>cm_media_size := bytes\<rparr>"
    using k q s by (simp_all split: if_splits)
  have "value_of (redisd n) (ready_key (cm_content m)) = Some key"
  proof -
    obtain d n2 where d: "next_fate n = (d, n2)" by force
    then have "redisd n2 = redisd n" by (auto simp: next_fate_def split: list.splits)
    moreover obtain s where "Get d (''resource_ready_'' @ cm_content m) (redisd n2) = (r, s)"
      using r d by (auto simp: redis_call_def split: prod.splits)
    ultimately show ?thesis using t(1) Get_delivered [of d "''resource_ready_'' @ cm_content m" "redisd n" key] by (simp add: ready_key_def)
  qed
  then show ?thesis using t by (metis append_take_drop_id)
qed

section \<open>Messages and files\<close>

text \<open>What a media message says of its file.\<close>

definition backed :: "resource_lib \<Rightarrow> media \<Rightarrow> bool \<Rightarrow> ChatMessage \<Rightarrow> bool" where
  "backed L m grouped msg \<longleftrightarrow> (\<exists>u content. disk m (home u, cm_content msg, MetaFile) = Some (stream_out L (meta_of u)) \<and>
     done_of (cm_content msg) m = Some content \<and> length content = cm_media_size msg \<and> hex_digest (sha256_digest L content) = up_sha u \<and>
     up_type u = cm_msg_type msg \<and> up_uid u = cm_sender_id msg \<and>
     (if grouped then up_thread u = cm_thread_id msg else up_thread u = 0 \<and> up_recipient u = cm_recv_id msg))"

lemma ready_file:
  assumes "status L i m" "ready m i = Some v"
  shows "\<exists>u content. claimed L i u m \<and> done_of i m = Some content \<and> intact L u content \<and>
    v = ready_value (up_uid u) (up_recipient u) (up_size u) (up_thread u) (up_type u)"
proof -
  from assms obtain u where c: "claimed L i u m" by (auto simp: status_def fresh_def spoiled_def)
  with assms(2) have d: "disk m (home u, i, DoneFile) \<noteq> None" "v = ready_value (up_uid u) (up_recipient u) (up_size u) (up_thread u) (up_type u)"
    by (simp_all add: claimed_def)
  then obtain content where "disk m (home u, i, DoneFile) = Some content" by blast
  moreover from this have "intact L u content" using c by (simp add: claimed_def)
  ultimately show ?thesis using c d(2) claimed_paths(5) [OF c] by (intro exI [of _ u] exI [of _ content]) simp
qed

lemma stoull_to_string: "n < 2 ^ 64 \<Longrightarrow> stoull (to_string (int n)) = Some (n, length (nat_digits n))"
  by (simp add: to_string_def stoull_nat_digits)

lemma check_media_backed:
  assumes "\<And>i. status L i m" "redisd n = redisd (chat m)" "run_state (check_media actor g msg) n = (Inr msg', n')"
    "0 < actor" "cm_sender_id msg = actor" "cm_msg_type msg \<in> {1, 2, 3}"
  shows "backed L m g msg'"
proof -
  obtain bytes rest used where r: "msg' = msg\<lparr>cm_media_size := bytes\<rparr>" "stoull rest = Some (bytes, used)"
      "ready m (cm_content msg) = Some (media_prefix actor g msg @ rest)"
    using check_media_ready [OF assms(3)] assms(2) by (auto simp: ready_def)
  from ready_file [OF assms(1) r(3)] obtain u content where u: "claimed L (cm_content msg) u m" "done_of (cm_content msg) m = Some content"
      "intact L u content" and e: "media_prefix actor g msg @ rest = ready_value (up_uid u) (up_recipient u) (up_size u) (up_thread u) (up_type u)"
    by blast
  have wa: "well_announced u" using u(1) by (simp add: claimed_def)
  then have b: "0 < up_uid u" "up_type u \<in> {1, 2, 3}" "0 \<le> up_thread u" "up_size u < 2 ^ 64"
    by (auto simp: well_announced_def upload_valid_def kMaximumImageSize_def)
  note e' = e [unfolded media_prefix_scope ready_value_scope]
  from tag_inj [OF e' assms(6) b(2)] scope_head [OF assms(4)] scope_head [OF b(1)]
  have t: "cm_msg_type msg = up_type u" "scope_text g actor (if g then cm_thread_id msg else cm_recv_id msg) rest =
      scope_text (0 < up_thread u) (up_uid u) (if 0 < up_thread u then up_thread u else up_recipient u) (to_string (int (up_size u)))"
    by blast+
  from scope_inj [OF t(2) assms(4) b(1)] have f: "g = (0 < up_thread u)" "actor = up_uid u"
      "(if g then cm_thread_id msg else cm_recv_id msg) = (if 0 < up_thread u then up_thread u else up_recipient u)"
      "rest = to_string (int (up_size u))" by blast+
  have "bytes = up_size u" using r(2) stoull_to_string [OF b(4)] f(4) by simp
  then show ?thesis
    using u b(3) t(1) f assms(5) unfolding backed_def r(1) intact_def claimed_def by (intro exI [of _ u] exI [of _ content]) auto
qed

lemma checked_backed:
  assumes "\<And>i. status L i m" "redisd n = redisd (chat m)" "run_state (check_messages actor g batch) n = (Inr ms, n')" "0 < actor"
  shows "\<forall>msg\<in>set ms. cm_msg_type msg \<noteq> 0 \<longrightarrow> backed L m g msg"
  using assms(2,3)
proof (induction batch arbitrary: n ms n')
  case (Cons x batch)
  then obtain msg where x: "x = Some msg" by (cases x) simp_all
  with Cons.prems(2) have v: "cm_sender_id msg = actor" "0 \<le> cm_msg_type msg" "cm_msg_type msg \<le> 3" by (auto split: if_splits)
  with Cons.prems(2) x obtain msg' n1 ms' where
    h: "run_state (if cm_msg_type msg \<noteq> 0 then check_media actor g msg else give (Inr msg)) n = (Inr msg', n1)"
    and r: "run_state (check_messages actor g batch) n1 = (Inr ms', n')" and ms: "ms = msg' # ms'"
    by (auto split: if_splits prod.splits sum.splits simp: map_sum_def)
  have "state_io_rel same_redis (if cm_msg_type msg \<noteq> 0 then check_media actor g msg else give (Inr msg))" by (intro looking)
  then have "redisd n1 = redisd (chat m)" using h Cons.prems(1) by (auto dest!: state_io_relD simp: same_redis_def)
  from Cons.IH [OF this r] have "\<forall>msg\<in>set ms'. cm_msg_type msg \<noteq> 0 \<longrightarrow> backed L m g msg" .
  moreover have "backed L m g msg'" if "cm_msg_type msg' \<noteq> 0"
  proof (cases "cm_msg_type msg = 0")
    case False
    then have "cm_msg_type msg \<in> {1, 2, 3}" using v by auto
    with check_media_backed [OF assms(1) Cons.prems(1) _ assms(4) v(1)] h False show ?thesis by simp
  qed (use h that in simp)
  ultimately show ?case using ms by simp
qed simp

text \<open>Storing fills in numbers, times and status only.\<close>

definition same_message :: "ChatMessage \<Rightarrow> ChatMessage \<Rightarrow> bool" where
  "same_message a b \<longleftrightarrow> cm_thread_id b = cm_thread_id a \<and> cm_sender_id b = cm_sender_id a \<and> cm_recv_id b = cm_recv_id a \<and>
     cm_content b = cm_content a \<and> cm_msg_type b = cm_msg_type a \<and> cm_media_size b = cm_media_size a"

lemma same_message_backed: "same_message a b \<Longrightarrow> backed L m g a \<Longrightarrow> backed L m g b"
  unfolding same_message_def backed_def by (elim conjE) (simp only:)

lemma gives_store_messages: "gives (store_messages ms) c (ok, out) c' \<Longrightarrow> ok \<Longrightarrow> list_all2 same_message ms out"
proof (induction ms arbitrary: c ok out c')
  case (Cons a ms)
  then show ?case
    by (auto simp: same_message_def split: option.splits if_splits)
qed simp

lemma AddChatMsg_same:
  assumes "AddChatMsg (map Some ms) c = (Some out, c')" "saved c = None"
  shows "list_all2 same_message ms out"
proof -
  have m: "map the (map Some ms) = ms" by (simp add: comp_def)
  have ne: "(map Some ms = []) = False" using assms(1) by (auto simp: AddChatMsg_def)
  from assms(1) have "with_connection None (\<lambda>c. if \<not> valid_batch (map Some ms) then (None, c)
      else sql_catch (\<lambda>_. None) (transaction (add_operation ms)) c) c = (Some out, c')"
    unfolding AddChatMsg_def m ne if_False .
  from connection_result [OF this] obtain c1 where x: "(if \<not> valid_batch (map Some ms) then (None, c1)
      else sql_catch (\<lambda>_. None) (transaction (add_operation ms)) c1) = (Some out, c')" and "saved c1 = saved c" by blast
  moreover have "valid_batch (map Some ms)" by (rule ccontr) (use x in simp)
  ultimately have c1: "saved c1 = None" "sql_catch (\<lambda>_. None) (transaction (add_operation ms)) c1 = (Some out, c')" using assms(2) by simp_all
  from c1(2) have "transaction (add_operation ms) c1 = (Inr (Some out), c')" by (cases rule: sql_catch_cases) auto
  from this framed_add_operation c1(1) obtain b c2 c3 where "gives (add_operation ms) c2 (b, Some out) c3"
    by (cases rule: transaction_cases) auto
  then obtain c4 c5 where "gives (store_messages ms) c4 (True, out) c5"
    by (auto simp: add_operation_def split: if_splits)
  then show ?thesis using gives_store_messages by blast
qed

lemma telling_check_media [telling]: "state_io_rel (tells n0 P) (check_media actor g m)"
  unfolding check_media_def by (intro telling)

lemma telling_sum [telling]:
  "(\<And>x. state_io_rel R (f x)) \<Longrightarrow> (\<And>x. state_io_rel R (g x)) \<Longrightarrow> state_io_rel R (case v of Inl x \<Rightarrow> f x | Inr x \<Rightarrow> g x)"
  by (cases v) simp_all

lemma telling_checks: "state_io_rel (tells n0 P) (check_messages actor g xs)"
  by (induction xs) (auto intro!: telling)

lemma telling_status: "state_io_rel (tells n0 P) (sql_call (\<lambda>c. case GetGroup a i doc b c of ((e, g), c') \<Rightarrow> (e, c')))"
  by (rule telling_sql) (auto simp: split_beta intro: GetGroup_reads)

lemma CheckFriendship_saved: "saved c = None \<Longrightarrow> saved (snd (CheckFriendship a b c)) = None"
  using unchanged_select [of c DatabaseError "\<lambda>_. DatabaseError" "\<lambda>d. are_friends (rows d) a b" "\<lambda>found. if found then Success else FriendNotFound"]
  by (simp add: CheckFriendship_def unchanged_by_def)

lemma Store_stored:
  assumes "run_state (Store actor messages) n = (Inr out, n')" "saved (mysqld n) = None"
  obtains ms n1 n2 c c' where "0 < actor" "redisd n1 = redisd n" "run_state (check_messages actor (is_group messages) messages) n1 = (Inr ms, n2)"
    "AddChatMsg (map Some ms) c = (Some out, c')" "saved c = None"
proof -
  have 0: "0 < actor" "messages \<noteq> []" using assms by (auto simp: Store_def split: if_splits)
  let ?access = "if is_group messages then sql_call (\<lambda>c. case GetGroup actor (cm_thread_id (the (hd messages))) JNull False c of
            ((e, g), c') \<Rightarrow> (e, c')) else give Success"
  obtain access n1 where a: "run_state ?access n = (access, n1)" by (metis surj_pair)
  have "state_io_rel same_redis ?access" by (intro looking)
  then have n1: "redisd n1 = redisd n" using a by (auto dest: state_io_relD simp: same_redis_def)
  obtain checked n2 where k: "run_state (check_messages actor (is_group messages) messages) n1 = (checked, n2)" by (metis surj_pair)
  have "state_io_rel (tells n (\<lambda>e. True)) ?access" "state_io_rel (tells n (\<lambda>e. True)) (check_messages actor (is_group messages) messages)"
    by (intro telling telling_status, rule telling_checks)
  then have sv: "saved (mysqld n2) = None" using a k assms(2) by (auto dest!: state_io_relD simp: tells_def agrees_def)
  have acc: "access = Success" using assms 0 a by (auto simp: Store_def split: if_splits)
  obtain ms where ms: "checked = Inr ms"
    using assms 0 a k acc by (cases checked) (auto simp: Store_def split: if_splits)
  show thesis
  proof (cases "is_group messages")
    case True
    with assms 0 a k acc ms have "fst (AddChatMsg (map Some ms) (mysqld n2)) = Some out"
      by (auto simp: Store_def sql_call_def split: prod.splits option.splits)
    then show thesis using that [OF 0(1) n1 k [unfolded ms]] sv by (metis prod.collapse)
  next
    case False
    obtain e c where f: "CheckFriendship actor (cm_recv_id (hd ms)) (mysqld n2) = (e, c)" by force
    with assms 0 a k acc ms False have "fst (AddChatMsg (map Some ms) c) = Some out"
      by (auto simp: Store_def sql_call_def split: prod.splits option.splits if_splits)
    moreover have "saved c = None" using CheckFriendship_saved [OF sv] f by (metis snd_conv)
    ultimately show thesis using that [OF 0(1) n1 k [unfolded ms]] by (metis prod.collapse)
  qed
qed


end
