(* ===== verification/UploadDemo.thy ===== *)
theory UploadDemo
  imports MediaMessages
begin

text \<open>
  A concrete codec for metadata, and the life of one file: Ann announces a file for Bob, sends its bytes, and writes a message
  that refers to it. The theorems about uploads are applied to it.
\<close>

section \<open>A codec for metadata\<close>

definition meta_keys :: "string list" where
  "meta_keys = [''uid'', ''recipient'', ''thread_id'', ''media_type'', ''size'', ''sha256'']"

definition text_of :: "json \<Rightarrow> string" where
  "text_of v = (case v of JInt i \<Rightarrow> to_string i | JStr s \<Rightarrow> s | _ \<Rightarrow> [])"

definition demo_out :: "json \<Rightarrow> string" where
  "demo_out v = net (concat (map net (map (\<lambda>k. text_of (index v k)) meta_keys)))"

definition demo_in :: "string \<Rightarrow> json option" where
  "demo_in t = (let n = digits_value (takeWhile isdigit t); r = tl (dropWhile isdigit t); f = read_nets 6 r in
     if dropWhile isdigit t = [] \<or> length r \<noteq> n then None
     else Some (new_meta (int_text (f ! 0)) (int_text (f ! 1)) (int_text (f ! 2)) (int_text (f ! 3)) (nat (int_text (f ! 4))) (f ! 5)))"

lemma takeWhile_net: "takeWhile isdigit (net s) = nat_digits (length s)" "dropWhile isdigit (net s) = CHR '':'' # s"
proof -
  have "\<not> isdigit (CHR '':'')" by (simp add: isdigit_def byte_def)
  then show "takeWhile isdigit (net s) = nat_digits (length s)" "dropWhile isdigit (net s) = CHR '':'' # s"
    using nat_digits_isdigit by (auto simp: net_def takeWhile_append dropWhile_append dest: nat_digits_isdigit)
qed

lemma demo_meta: "demo_in (demo_out (meta_of u)) = Some (meta_of u)"
proof -
  let ?fs = "map (\<lambda>k. text_of (index (meta_of u) k)) meta_keys"
  have f: "?fs = [to_string (up_uid u), to_string (up_recipient u), to_string (up_thread u), to_string (up_type u),
      to_string (int (up_size u)), up_sha u]"
    by (simp add: meta_keys_def text_of_def meta_of_def new_meta_def index_def get_default_def)
  have len: "length ?fs = 6" by (simp add: meta_keys_def)
  have "read_nets 6 (concat (map net ?fs)) = ?fs" using read_nets_nets [of ?fs] unfolding len .
  then show ?thesis unfolding demo_in_def demo_out_def takeWhile_net Let_def list.sel by (simp only: f) (simp add: meta_of_def)
qed

lemma demo_cut: "k < length (net s) \<Longrightarrow> s \<noteq> [] \<Longrightarrow> demo_in (take k (net s)) = None"
proof (cases "k \<le> length (nat_digits (length s))")
  case True
  then have "take k (net s) = take k (nat_digits (length s))" by (simp add: net_def)
  moreover have "dropWhile isdigit (take k (nat_digits (length s))) = []" using nat_digits_isdigit by (auto dest: in_set_takeD)
  ultimately show ?thesis by (simp add: demo_in_def Let_def)
next
  case False
  assume k: "k < length (net s)" "s \<noteq> []"
  define j where "j = k - Suc (length (nat_digits (length s)))"
  have t: "take k (net s) = nat_digits (length s) @ CHR '':'' # take j s"
    using False by (simp add: net_def j_def take_Cons' )
  have j: "j < length s" using False k by (simp add: net_def j_def)
  have "\<not> isdigit (CHR '':'')" by (simp add: isdigit_def byte_def)
  then have "takeWhile isdigit (take k (net s)) = nat_digits (length s)" "dropWhile isdigit (take k (net s)) = CHR '':'' # take j s"
    unfolding t using nat_digits_isdigit by (auto simp: takeWhile_append dropWhile_append dest: nat_digits_isdigit)
  then show ?thesis using j by (simp add: demo_in_def Let_def)
qed

section \<open>The requests\<close>

definition file_name :: string where "file_name = replicate 32 (CHR ''a'')"
definition file_text :: string where "file_text = ''hi!''"
definition file_sha :: string where "file_sha = concat (replicate 32 ''03'')"

definition announcement :: json where
  "announcement = JObj [(''uid'', JInt 1), (''token'', JStr ''tok''), (''file_id'', JStr file_name), (''recipient'', JInt 2),
     (''media_type'', JInt 2), (''size'', JInt 3), (''sha256'', JStr file_sha)]"

definition piece :: json where
  "piece = JObj [(''uid'', JInt 1), (''token'', JStr ''tok''), (''file_id'', JStr file_name), (''offset'', JInt 0), (''data'', JStr ''aGkh'')]"

definition upload_lib :: resource_lib where
  "upload_lib = \<lparr>json_lib = demo_json\<lparr>parse := (\<lambda>t. (True, if t = ''init'' then announcement else piece))\<rparr>, cjson_lib = net_cjson,
     DecodeBlock = (\<lambda>t. Some file_text), EncodeBlock = (\<lambda>t. t), timestamp = [], now_ms = 0,
     lock_connection = True, lock_turns = [], lock_identifier = [],
     stream_out = demo_out, stream_in = demo_in, sha256_digest = (\<lambda>s. replicate 32 (word_of_nat (length s))), stubs = 1\<rparr>"

lemma upload_lib_faithful: "faithful_files upload_lib"
proof -
  have r: "reads_back (meta_of u) u" for u by (simp add: reads_back_def meta_of_def new_meta_def)
  have n: "concat (map net (map (\<lambda>k. text_of (index v k)) meta_keys)) \<noteq> []" for v by (simp add: meta_keys_def net_def)
  have c: "demo_in (take k (demo_out v)) = None" if "k < length (demo_out v)" for k v
    using demo_cut [OF _ n] that unfolding demo_out_def by blast
  have l: "stream_in upload_lib = demo_in" "stream_out upload_lib = demo_out" by (simp_all add: upload_lib_def)
  show ?thesis unfolding faithful_files_def l using r c demo_meta by blast
qed

definition upload_redis :: redis where
  "upload_redis = setex ''resource_token_1'' ''tok'' 60 empty_redis"

definition store0 :: media where
  "store0 = \<lparr>chat = demo_node\<lparr>redisd := upload_redis\<rparr>, disk = (\<lambda>p. None), io_fates = [], opens = []\<rparr>"

definition ann_upload :: upload where
  "ann_upload = \<lparr>up_uid = 1, up_recipient = 2, up_thread = 0, up_type = 2, up_size = 3, up_sha = file_sha\<rparr>"

lemma ann_announced: "well_announced ann_upload"
proof -
  have "list_all isxdigit file_sha" by (auto simp: file_sha_def isxdigit_def isdigit_def byte_def list_all_iff)
  moreover have "length file_sha = 64" by code_simp
  ultimately show ?thesis
    by (simp add: well_announced_def ann_upload_def upload_valid_def kMaximumImageSize_def in_int_range_def int_min_def int_max_def)
qed

lemma file_name_valid: "ResourceStore_ValidId file_name"
  by (auto simp: ResourceStore_ValidId_def file_name_def isxdigit_def isdigit_def byte_def list_all_iff)

lemma ann_known:
  assumes "value_of (redisd n) ''resource_token_1'' = Some ''tok''" "0 < ttl (redisd n) ''resource_token_1''" "fates n = []"
  shows "run_state (Authenticated 1 ''tok'') n = (True, n)"
proof -
  have "to_string 1 = ''1''" by code_simp
  then show ?thesis
    using assms by (simp add: Authenticated_def redis_call_def next_fate_def command_def read_script_def GET_def wrong_type_def)
qed

lemma announcement_fields:
  "meta_int ''uid'' 0 announcement = pass 1" "meta_int ''recipient'' 0 announcement = pass 2" "meta_int ''thread_id'' 0 announcement = pass 0"
  "meta_int ''media_type'' 1 announcement = pass 2" "meta_size announcement = pass 3" "meta_sha upload_lib announcement = pass file_sha"
  "asString J (get_default announcement ''token'' (JStr [])) = Some ''tok''" "asString J (get_default announcement ''file_id'' (JStr [])) = Some file_name"
  by (simp_all add: announcement_def meta_int_def meta_size_def meta_sha_def get_const_def object_like_def get_default_def converted_def
      in_int_range_def int_min_def int_max_def)

lemma piece_fields:
  "meta_int ''uid'' 0 piece = pass 1"
  "asString J (get_default piece ''token'' (JStr [])) = Some ''tok''" "asString J (get_default piece ''file_id'' (JStr [])) = Some file_name"
  "asUInt64 (get_default piece ''offset'' (JInt 0)) = Some 0" "asString J (get_default piece ''data'' (JStr [])) = Some ''aGkh''"
  by (simp_all add: piece_def meta_int_def meta_size_def meta_sha_def get_const_def object_like_def get_default_def converted_def
      in_int_range_def int_min_def int_max_def)

definition store1 :: media where
  "store1 = store0\<lparr>disk := (disk store0)((FilesFolder, file_name, MetaFile) := Some (demo_out (meta_of ann_upload)))\<rparr>"

lemma store0_known: "run_state (Authenticated 1 ''tok'') (chat store0) = (True, chat store0)"
  by (rule ann_known)
    (simp_all add: store0_def upload_redis_def ttl_def empty_redis_def demo_node_def)

lemma converted_Some [simp]: "converted (Some x) = pass x"
  by (simp add: converted_def)

lemma announced:
  "run_state (serve_request upload_lib kUploadInitRequest ''init'') store0 = (upload_reply 0 False [(''upload_window'', JInt 4)], store1)"
proof -
  have p: "parse (json_lib upload_lib) ''init'' = (True, announcement)" "isObject announcement"
    by (simp_all add: upload_lib_def announcement_def)
  have v: "upload_valid 1 2 0 2 3 file_sha" using ann_announced by (simp add: well_announced_def ann_upload_def)
  have m: "new_meta 1 2 0 2 3 file_sha = meta_of ann_upload" by (simp add: meta_of_def ann_upload_def)
  have f: "meta_int ''media_type'' 1 (meta_of ann_upload) = pass 2" "meta_int ''thread_id'' 0 (meta_of ann_upload) = pass 0"
    using meta_fields [of "meta_of ann_upload" ann_upload] ann_announced
    by (simp_all add: reads_back_def ann_upload_def meta_of_def new_meta_def)
  have q: "run_state (on_chat (Authenticated 1 ''tok'')) store0 = (Inr True, store0)"
    using store0_known by (simp add: on_chat_def store0_def)
  have d: "disk store0 = (\<lambda>p. None)" "io_fates store0 = []" "stream_out upload_lib = demo_out" by (simp_all add: store0_def upload_lib_def)
  show ?thesis
    by (simp add: serve_request_def p Handle_def announcement_fields q file_name_valid UploadInit_def v group_allowed_def claim_meta_def
        ReadMeta_def MetaPath_def d isNull_def WriteMeta_def m f Let_def next_io_def put_file_def meta_folder_def conclude_init_def
        recover_part_def seeing_def done_of_def part_of_def store1_def)
qed

section \<open>The file arrives\<close>

definition ready_redis :: redis where
  "ready_redis = snd (SET (ready_key file_name) ''file:1:2:3'' upload_redis)"

definition store2 :: media where
  "store2 = store1\<lparr>chat := (chat store1)\<lparr>redisd := ready_redis\<rparr>,
     disk := (disk store1)((FilesFolder, file_name, DoneFile) := Some file_text, (FilesFolder, file_name, PartFile) := None)\<rparr>"

lemma file_digest: "hex_digest (sha256_digest upload_lib file_text) = file_sha"
proof -
  have "sha256_digest upload_lib file_text = replicate 32 3" by (simp add: upload_lib_def file_text_def)
  moreover have "hex_digest (replicate 32 3) = file_sha" by code_simp
  ultimately show ?thesis by simp
qed

lemma ann_reads_back: "reads_back (meta_of ann_upload) ann_upload"
  by (simp add: reads_back_def meta_of_def new_meta_def)

lemma ann_ready_value: "ready_value 1 2 3 0 2 = ''file:1:2:3''"
  by code_simp

lemma store1_known: "run_state (Authenticated 1 ''tok'') (chat store1) = (True, chat store1)"
  using store0_known by (simp add: store1_def)

lemma marked:
  "fates (chat m) = [] \<Longrightarrow> run_state (mark i uid recipient n thread type) m =
     (Inr (), m\<lparr>chat := (chat m)\<lparr>redisd := put (ready_key i) (RStr (ready_value uid recipient n thread type)) None (redisd (chat m))\<rparr>\<rparr>)"
  by (simp add: mark_def on_chat_def MarkReady_def redis_call_def next_fate_def command_def SET_def)

lemma arrived:
  "run_state (serve_request upload_lib kUploadChunkRequest ''piece'') store1 = (upload_reply 3 True [], store2)"
proof -
  have p: "parse (json_lib upload_lib) ''piece'' = (True, piece)" "isObject piece"
    by (simp_all add: upload_lib_def piece_def)
  note f = meta_fields [OF ann_reads_back ann_announced]
  have a: "up_uid ann_upload = 1" "up_recipient ann_upload = 2" "up_thread ann_upload = 0" "up_type ann_upload = 2" "up_size ann_upload = 3"
      "up_sha ann_upload = file_sha"
    by (simp_all add: ann_upload_def)
  have q: "run_state (on_chat (Authenticated 1 ''tok'')) store1 = (Inr True, store1)"
    using store1_known by (simp add: on_chat_def store1_def)
  have d: "disk store1 = (\<lambda>p. None)((FilesFolder, file_name, MetaFile) := Some (demo_out (meta_of ann_upload)))" "io_fates store1 = []"
      "opens store1 = []" "stream_in upload_lib = demo_in" "redisd (chat store1) = upload_redis" "fates (chat store1) = []"
    by (simp_all add: store1_def store0_def upload_lib_def demo_node_def)
  have b: "DecodeBase64 upload_lib ''aGkh'' = file_text"
    by (simp add: DecodeBase64_def upload_lib_def file_text_def kChunkSize_def)
  have t: "file_text \<noteq> []" "length file_text = 3" by (simp_all add: file_text_def)
  show ?thesis
    by (simp add: serve_request_def p Handle_def piece_fields q file_name_valid kUploadInitRequest_def kUploadChunkRequest_def UploadChunk_def
        ReadMeta_def MetaPath_def d demo_meta f a group_allowed_def seeing_def done_of_def part_of_def DonePath_def PartPath_def b t
        append_part_def next_io_def put_file_def finish_part_def Sha256_def file_digest rename_file_def marked
        SET_def ann_ready_value kChunkSize_def Let_def store2_def ready_redis_def fun_upd_twist)
qed

section \<open>The states on the way\<close>

lemma nothing_ready: "value_of upload_redis (ready_key i) = None"
  by (simp add: upload_redis_def ready_key_def)

lemma store0_empty: "empty_store store0"
  by (simp add: empty_store_def store0_def ready_def nothing_ready)

lemma store1_reachable: "reachable empty_store (media_step upload_lib) store1"
proof -
  have "store0\<lparr>io_fates := []\<rparr> = store0" by (simp add: store0_def)
  then have "media_step upload_lib store0 store1" using media_step.served announced by metis
  then show ?thesis using store0_empty by (blast intro: reachable.intros)
qed

lemma store2_step: "media_step upload_lib store1 store2"
proof -
  have "store1\<lparr>io_fates := []\<rparr> = store1" by (simp add: store1_def store0_def)
  then show ?thesis using media_step.served arrived by metis
qed

lemma store2_reachable: "reachable empty_store (media_step upload_lib) store2"
  using store1_reachable store2_step by (blast intro: reachable.intros)

lemma store1_claimed: "claimed upload_lib file_name ann_upload store1"
proof -
  have h: "home ann_upload = FilesFolder" by (simp add: home_def meta_folder_def ann_upload_def)
  have "ready store1 file_name = None"
    by (simp add: ready_def store1_def store0_def nothing_ready)
  moreover have "disk store1 = (\<lambda>p. None)((FilesFolder, file_name, MetaFile) := Some (stream_out upload_lib (meta_of ann_upload)))"
    by (simp add: store1_def store0_def upload_lib_def)
  ultimately show ?thesis using ann_announced by (simp add: claimed_def h no_files_def)
qed

lemma store2_done: "done_of file_name store2 = Some file_text"
  by (simp add: done_of_def DonePath_def MetaPath_def store2_def store1_def)



section \<open>A message that refers to the file\<close>

definition file_message :: ChatMessage where
  "file_message = \<lparr>cm_message_id = 0, cm_thread_id = 1, cm_sender_id = 1, cm_recv_id = 2, cm_unique_id = ''u1'', cm_content = file_name,
     cm_chat_time = [], cm_status = 0, cm_msg_type = 2, cm_media_size = 0\<rparr>"

lemma value_put: "value_of (put k (RStr v) None s) k = Some v"
  by (simp add: value_of_def)

lemma file_message_checked:
  "run_state (check_messages 1 False [Some file_message]) (chat store2) = (Inr [file_message\<lparr>cm_media_size := 3\<rparr>], chat store2)"
proof -
  have n: "chat store2 = demo_node\<lparr>redisd := ready_redis\<rparr>" by (simp add: store2_def store1_def store0_def)
  have r: "redis_call (\<lambda>d. Get d (''resource_ready_'' @ file_name)) = redis_call (\<lambda>d. Get d (ready_key file_name))" by (simp add: ready_key_def)
  have "run_state (redis_call (\<lambda>d. Get d (''resource_ready_'' @ file_name))) (chat store2) = (Some ''file:1:2:3'', chat store2)"
    unfolding r by (simp add: n redis_call_def next_fate_def demo_node_def Get_def command_def GET_def wrong_type_def ready_redis_def SET_def as_string_def value_put)
  moreover have "media_prefix 1 False file_message = ''file:1:2:''" by code_simp
  moreover have "stoull ''3'' = Some (3, 1)"
  proof -
    have "to_string (int 3) = ''3''" "length (nat_digits 3) = 1" by code_simp+
    then show ?thesis using stoull_to_string [of 3] by simp
  qed
  moreover have "length file_name = 32" "list_all isxdigit file_name" using file_name_valid by (auto simp: ResourceStore_ValidId_def)
  ultimately show ?thesis by (simp add: file_message_def check_media_def)
qed

lemma file_message_stored:
  "fst (AddChatMsg [Some (file_message\<lparr>cm_media_size := 3\<rparr>)] db4) = Some [file_message\<lparr>cm_media_size := 3, cm_message_id := 3\<rparr>]"
  by (simp add: db4_eq db3_eq db2_eq empty_db_def AddChatMsg_def valid_batch_def file_message_def file_name_def sql_catch_def transaction_def begun_def
      add_operation_def may_send_def sql_bind_def sql_return_def are_friends_def find_message_def same_key_def insert_chat_def
      insert_message_row_def duplicate_message_def chat_row_def Commit_def sql_when_def has_user_def has_thread_def user_of_def no_tables_def Let_def)

lemma file_message_accepted:
  "\<exists>n'. run_state (Store 1 [Some file_message]) (chat store2) = (Inr [file_message\<lparr>cm_media_size := 3, cm_message_id := 3\<rparr>], n')"
proof -
  have n: "mysqld (chat store2) = db4" by (simp add: store2_def store1_def store0_def demo_node_def)
  have "CheckFriendship 1 2 db4 = (Success, db4)"
    by (simp add: CheckFriendship_def bad_pair_def db4_eq db3_eq db2_eq empty_db_def sql_catch_def sql_bind_def sql_return_def are_friends_def)
  then show ?thesis
    using file_message_stored file_message_checked n
    by (auto simp: Store_def is_group_def file_message_def sql_call_def split_beta eq_fst_iff)
qed


end
