(* ===== verification/UrlQuery.thy ===== *)
theory UrlQuery
  imports Prelude "HOL-Library.AList"
begin

text \<open>
  Percent encoding and the query of a GET request in the gate server (\<^verbatim>\<open>HttpConnection.cpp\<close>). A function that throws
  \<^verbatim>\<open>std::invalid_argument\<close> is \<^term>\<open>None\<close>. The parameters of a request are an unordered map; here they are an
  association list in the order of their first assignment.
\<close>

section \<open>Percent encoding\<close>

definition isalnum :: "char \<Rightarrow> bool" where
  "isalnum c \<longleftrightarrow> isdigit c \<or> (65 \<le> byte c \<and> byte c \<le> 90) \<or> (97 \<le> byte c \<and> byte c \<le> 122)"

definition ToHex :: "nat \<Rightarrow> char" where
  "ToHex x = (if 15 < x then CHR ''?'' else if x < 10 then char_of (48 + x) else char_of (65 + x - 10))"

definition FromHex :: "char \<Rightarrow> nat option" where
  "FromHex x = (if 65 \<le> byte x \<and> byte x \<le> 70 then Some (byte x - 65 + 10)
     else if 97 \<le> byte x \<and> byte x \<le> 102 then Some (byte x - 97 + 10)
     else if 48 \<le> byte x \<and> byte x \<le> 57 then Some (byte x - 48)
     else None)"

definition encode_char :: "char \<Rightarrow> string" where
  "encode_char c =
     (if isalnum c \<or> c = CHR ''-'' \<or> c = CHR ''_'' \<or> c = CHR ''.'' \<or> c = CHR ''~'' then [c]
      else if c = CHR '' '' then ''+''
      else [CHR ''%'', ToHex (byte c div 16), ToHex (byte c mod 16)])"

definition UrlEncode :: "string \<Rightarrow> string" where
  "UrlEncode str = concat (map encode_char str)"

fun UrlDecode :: "string \<Rightarrow> string option" where
  "UrlDecode [] = Some []"
| "UrlDecode (c # cs) =
     (if c = CHR ''+'' then map_option (Cons (CHR '' '')) (UrlDecode cs)
      else if c = CHR ''%'' then
        (case cs of
           x # y # rest \<Rightarrow> (case FromHex x of None \<Rightarrow> None
             | Some high \<Rightarrow> (case FromHex y of None \<Rightarrow> None
               | Some low \<Rightarrow> map_option (Cons (char_of (high * 16 + low))) (UrlDecode rest)))
         | _ \<Rightarrow> None)
      else map_option (Cons c) (UrlDecode cs))"

section \<open>The query of a request\<close>

definition add_parameter :: "string \<Rightarrow> (string \<times> string) list \<Rightarrow> (string \<times> string) list option" where
  "add_parameter parameter params =
     (if CHR ''='' \<notin> set parameter then Some params
      else case UrlDecode (takeWhile (\<lambda>c. c \<noteq> CHR ''='') parameter) of None \<Rightarrow> None
        | Some key \<Rightarrow> (case UrlDecode (tl (dropWhile (\<lambda>c. c \<noteq> CHR ''='') parameter)) of None \<Rightarrow> None
          | Some v \<Rightarrow> Some (if key = [] then params else AList.update key v params)))"

function parameters :: "string \<Rightarrow> (string \<times> string) list \<Rightarrow> (string \<times> string) list option" where
  "parameters query params =
     (if query = [] then Some params
      else let parameter = takeWhile (\<lambda>c. c \<noteq> CHR ''&'') query in
        case add_parameter parameter params of None \<Rightarrow> None
        | Some params' \<Rightarrow> parameters (drop (Suc (length parameter)) query) params')"
  by pat_completeness auto
termination by (relation "measure (\<lambda>(query, params). length query)") auto

declare parameters.simps [simp del]

lemma parameters_Nil [simp]: "parameters [] params = Some params"
  by (subst parameters.simps) simp

lemma parameters_Cons:
  "query \<noteq> [] \<Longrightarrow> takeWhile (\<lambda>c. c \<noteq> CHR ''&'') query = parameter \<Longrightarrow> parameters query params =
     (case add_parameter parameter params of None \<Rightarrow> None | Some params' \<Rightarrow> parameters (drop (Suc (length parameter)) query) params')"
  by (subst parameters.simps) (simp add: Let_def)

text \<open>The path and the parameters of a request target.\<close>

definition PreParseGetParam :: "string \<Rightarrow> (string \<times> (string \<times> string) list) option" where
  "PreParseGetParam target =
     (if CHR ''?'' \<notin> set target then Some (target, [])
      else map_option (Pair (takeWhile (\<lambda>c. c \<noteq> CHR ''?'') target)) (parameters (tl (dropWhile (\<lambda>c. c \<noteq> CHR ''?'') target)) []))"

section \<open>What is decoded\<close>

lemma hex_digits: "x < 16 \<Longrightarrow> FromHex (ToHex x) = Some x"
  by (auto simp: FromHex_def ToHex_def byte_def)

lemma byte_halves: "char_of (byte c div 16 * 16 + byte c mod 16) = c" "byte c div 16 < 16" "byte c mod 16 < 16"
proof -
  have "byte c < 256" by (simp add: byte_def)
  then show "byte c div 16 < 16" "byte c mod 16 < 16" by auto
  show "char_of (byte c div 16 * 16 + byte c mod 16) = c" by (simp add: byte_def)
qed

lemma special_bytes: "\<not> isalnum (CHR ''+'')" "\<not> isalnum (CHR ''%'')" "\<not> isalnum (CHR ''&'')" "\<not> isalnum (CHR ''='')" "\<not> isalnum (CHR ''?'')"
  by (simp_all add: isalnum_def isdigit_def byte_def)

lemma decode_encode_char: "UrlDecode (encode_char c @ rest) = map_option (Cons c) (UrlDecode rest)"
  using special_bytes byte_halves [of c] by (auto simp: encode_char_def hex_digits)

lemma UrlDecode_UrlEncode: "UrlDecode (UrlEncode s) = Some s"
  by (induction s) (simp_all add: UrlEncode_def decode_encode_char)

lemma ToHex_plain: "x < 16 \<Longrightarrow> CHR ''&'' \<noteq> ToHex x \<and> CHR ''='' \<noteq> ToHex x"
proof -
  assume "x < 16"
  then have "48 \<le> byte (ToHex x)" "byte (ToHex x) \<noteq> 61" by (auto simp: ToHex_def byte_def)
  moreover have "byte (CHR ''&'') = 38" "byte (CHR ''='') = 61" by (simp_all add: byte_def)
  ultimately show ?thesis by auto
qed

lemma encoded_plain: "CHR ''&'' \<notin> set (UrlEncode s) \<and> CHR ''='' \<notin> set (UrlEncode s)"
proof -
  have "CHR ''&'' \<notin> set (encode_char c) \<and> CHR ''='' \<notin> set (encode_char c)" for c
    using special_bytes ToHex_plain [OF byte_halves(2)] ToHex_plain [OF byte_halves(3)] by (simp add: encode_char_def) blast
  then show ?thesis by (auto simp: UrlEncode_def)
qed

text \<open>A query as a client writes it.\<close>

definition query_item :: "string \<times> string \<Rightarrow> string" where
  "query_item kv = UrlEncode (fst kv) @ CHR ''='' # UrlEncode (snd kv)"

fun query_text :: "(string \<times> string) list \<Rightarrow> string" where
  "query_text [] = []"
| "query_text [kv] = query_item kv"
| "query_text (kv # kvs) = query_item kv @ CHR ''&'' # query_text kvs"

lemma item_plain: "CHR ''&'' \<notin> set (query_item kv)" "query_item kv \<noteq> []"
  using encoded_plain by (auto simp: query_item_def)

lemma add_item: "add_parameter (query_item (k, v)) params = Some (if k = [] then params else AList.update k v params)"
proof -
  have "takeWhile (\<lambda>c. c \<noteq> CHR ''='') (query_item (k, v)) = UrlEncode k"
    and "dropWhile (\<lambda>c. c \<noteq> CHR ''='') (query_item (k, v)) = CHR ''='' # UrlEncode v"
    using encoded_plain [of k] by (auto simp: query_item_def takeWhile_append dropWhile_append)
  then show ?thesis by (simp add: add_parameter_def UrlDecode_UrlEncode) (simp add: query_item_def)
qed

lemma update_new: "k \<notin> fst ` set params \<Longrightarrow> AList.update k v params = params @ [(k, v)]"
  by (induction params) auto

lemma parameters_last: "parameters (query_item kv) params = add_parameter (query_item kv) params"
proof -
  have "takeWhile (\<lambda>c. c \<noteq> CHR ''&'') (query_item kv) = query_item kv" using item_plain(1) [of kv] by (auto simp: takeWhile_eq_all_conv)
  from parameters_Cons [OF item_plain(2) this, of params] show ?thesis by (simp split: option.split)
qed

lemma parameters_next:
  "parameters (query_item kv @ CHR ''&'' # rest) params =
     (case add_parameter (query_item kv) params of None \<Rightarrow> None | Some params' \<Rightarrow> parameters rest params')"
proof -
  have "takeWhile (\<lambda>c. c \<noteq> CHR ''&'') (query_item kv @ CHR ''&'' # rest) = query_item kv"
    using item_plain(1) [of kv] by (auto simp: takeWhile_append)
  from parameters_Cons [OF _ this, of params] show ?thesis by (simp split: option.split)
qed

lemma parameters_text:
  assumes "distinct (map fst (params @ kvs))" "[] \<notin> fst ` set kvs"
  shows "parameters (query_text kvs) params = Some (params @ kvs)"
  using assms
proof (induction kvs arbitrary: params rule: query_text.induct)
  case 1
  then show ?case by simp
next
  case (2 kv)
  obtain k v where kv: "kv = (k, v)" by force
  then have "k \<noteq> []" "k \<notin> fst ` set params" using 2 by auto
  then show ?case using kv by (simp add: parameters_last add_item update_new)
next
  case (3 kv x kvs)
  obtain k v where kv: "kv = (k, v)" by force
  with 3 have "parameters (query_text (x # kvs)) (params @ [kv]) = Some ((params @ [kv]) @ x # kvs)" by auto
  moreover have "k \<noteq> []" "k \<notin> fst ` set params" using 3(2,3) kv by auto
  ultimately show ?case using kv by (simp add: parameters_next add_item update_new)
qed

text \<open>C34: The parameters of a GET request survive the wire. For every path without a question mark and all parameters
  with different, non-empty names, whatever bytes names and values contain, the target that percent
  encoding writes is split into that path and exactly these parameters; so a value can hold \<open>&\<close>, \<open>=\<close>, \<open>+\<close> and \<open>%\<close>.\<close>

theorem query_round_trip:
  assumes "CHR ''?'' \<notin> set path" "distinct (map fst kvs)" "[] \<notin> fst ` set kvs"
  shows "PreParseGetParam (path @ CHR ''?'' # query_text kvs) = Some (path, kvs)"
proof -
  have "takeWhile (\<lambda>c. c \<noteq> CHR ''?'') (path @ CHR ''?'' # query_text kvs) = path"
    "dropWhile (\<lambda>c. c \<noteq> CHR ''?'') (path @ CHR ''?'' # query_text kvs) = CHR ''?'' # query_text kvs"
    using assms(1) by (auto simp: takeWhile_append dropWhile_append)
  then show ?thesis using parameters_text [of "[]" kvs] assms(2,3) by (simp add: PreParseGetParam_def)
qed

theorem query_round_trip_witness:
  "PreParseGetParam ''/get_test?name=T%26o+m&age=1%3D8'' = Some (''/get_test'', [(''name'', ''T&o m''), (''age'', ''1=8'')])"
proof -
  have "''/get_test?name=T%26o+m&age=1%3D8'' = ''/get_test'' @ CHR ''?'' # query_text [(''name'', ''T&o m''), (''age'', ''1=8'')]"
    by code_simp
  then show ?thesis by (simp only:) (rule query_round_trip, simp_all)
qed

end
