(* ===== verification/Gate.thy ===== *)
theory Gate
  imports SessionService UrlQuery
begin

text \<open>
  The gate server: accounts, verification codes and logging in over HTTP (\<^verbatim>\<open>LogicSystem.cpp\<close>, \<^verbatim>\<open>MysqlDao.cpp\<close>,
  \<^verbatim>\<open>RedisMgr.cpp\<close>, \<^verbatim>\<open>VerificationLease.h\<close> and the routing of \<^verbatim>\<open>HttpConnection.cpp\<close>). It shares the
  database and Redis with the chat nodes and asks the verification server for codes and the status server for a
  chat node. A handler runs in the state of \<^theory_text>\<open>Node\<close>, of which it uses the database, Redis and the fates of calls; a
  handler that throws is \<^term>\<open>None\<close>. What the process draws at random, the verification server and
  the status server's configuration are parameters.
\<close>

section \<open>Accounts\<close>

datatype AccountCheckResult = Match | NoMatch | AccountCheck_DatabaseError
datatype PasswordUpdateResult = Updated | PasswordUpdate_Failed | PasswordUpdate_DatabaseError

text \<open>\<open>pool\<close> is whether the connection pool could be built when the process started.\<close>

definition MysqlDao_RegUser :: "bool \<Rightarrow> openssl \<Rightarrow> 8 word list option \<Rightarrow> string \<Rightarrow> string \<Rightarrow> string \<Rightarrow> mysql \<Rightarrow> int \<times> mysql" where
  "MysqlDao_RegUser pool ssl salt name email password c =
     (if name = [] \<or> email = [] \<or> password = [] then (-1, c)
      else if \<not> pool then (-1, c)
      else case HashPassword ssl salt password of None \<Rightarrow> (-1, c)
        | Some (salt_hex, hash_hex) \<Rightarrow>
            with_connection (-1) (sql_catch (\<lambda>e. if e = 1062 then 0 else -1)
              (sql_then (insert_user name email hash_hex salt_hex kPasswordIterations) (select last_insert_id))) c)"

definition account_row :: "database \<Rightarrow> string \<Rightarrow> string \<Rightarrow> user_row option" where
  "account_row d name email = find (\<lambda>u. weight d (u_username u) = weight d name \<and> weight d (u_email u) = weight d email) (users_t (rows d))"

text \<open>The result with \<^verbatim>\<open>verified_uid\<close>.\<close>

definition MysqlDao_CheckEmail :: "bool \<Rightarrow> string \<Rightarrow> string \<Rightarrow> mysql \<Rightarrow> (AccountCheckResult \<times> int) \<times> mysql" where
  "MysqlDao_CheckEmail pool name email c =
     (if name = [] \<or> email = [] then ((NoMatch, 0), c)
      else if \<not> pool then ((AccountCheck_DatabaseError, 0), c)
      else with_connection (AccountCheck_DatabaseError, 0) (sql_catch (\<lambda>_. (AccountCheck_DatabaseError, 0))
        (sql_bind (select (\<lambda>d. account_row d name email)) (\<lambda>found.
           sql_return (case found of None \<Rightarrow> (NoMatch, 0) | Some u \<Rightarrow> (Match, u_id u))))) c)"

text \<open>The result with \<^verbatim>\<open>user_info\<close>, which is written only on success.\<close>

definition MysqlDao_CheckPwdByEmail :: "bool \<Rightarrow> openssl \<Rightarrow> string \<Rightarrow> string \<Rightarrow> UserInfo \<Rightarrow> mysql \<Rightarrow> (AccountCheckResult \<times> UserInfo) \<times> mysql" where
  "MysqlDao_CheckPwdByEmail pool ssl email password info c =
     (if email = [] \<or> password = [] then ((NoMatch, info), c)
      else if \<not> pool then ((AccountCheck_DatabaseError, info), c)
      else with_connection (AccountCheck_DatabaseError, info) (sql_catch (\<lambda>_. (AccountCheck_DatabaseError, info))
        (sql_bind (select (\<lambda>d. find (\<lambda>u. weight d (u_email u) = weight d email) (users_t (rows d)))) (\<lambda>found.
           sql_return (case found of None \<Rightarrow> (NoMatch, info)
             | Some u \<Rightarrow> if VerifyPassword ssl password (u_salt u) (u_iterations u) (u_hash u)
                 then (Match, info\<lparr>ui_name := u_username u, ui_email := u_email u, ui_uid := u_id u\<rparr>)
                 else (NoMatch, info))))) c)"

definition set_password_of :: "database \<Rightarrow> int \<Rightarrow> string \<Rightarrow> string \<Rightarrow> string \<Rightarrow> user_row \<Rightarrow> user_row" where
  "set_password_of d uid email hash salt u = (if u_id u = uid \<and> weight d (u_email u) = weight d email
     then u\<lparr>u_hash := hash, u_salt := salt, u_iterations := kPasswordIterations\<rparr> else u)"

definition update_password_of :: "int \<Rightarrow> string \<Rightarrow> string \<Rightarrow> string \<Rightarrow> nat sql" where
  "update_password_of uid email hash salt = statement (\<lambda>d. let us = users_t (rows d) in
     (Inr (length (filter (\<lambda>u. set_password_of d uid email hash salt u \<noteq> u) us)),
      d\<lparr>rows := (rows d)\<lparr>users_t := map (set_password_of d uid email hash salt) us\<rparr>\<rparr>))"

definition MysqlDao_UpdatePwd :: "bool \<Rightarrow> openssl \<Rightarrow> 8 word list option \<Rightarrow> int \<Rightarrow> string \<Rightarrow> string \<Rightarrow> mysql \<Rightarrow> PasswordUpdateResult \<times> mysql" where
  "MysqlDao_UpdatePwd pool ssl salt verified_uid verified_email new_password c =
     (if verified_uid \<le> 0 \<or> verified_email = [] \<or> new_password = [] then (PasswordUpdate_Failed, c)
      else if \<not> pool then (PasswordUpdate_DatabaseError, c)
      else case HashPassword ssl salt new_password of None \<Rightarrow> (PasswordUpdate_Failed, c)
        | Some (salt_hex, hash_hex) \<Rightarrow>
            with_connection PasswordUpdate_DatabaseError (sql_catch (\<lambda>_. PasswordUpdate_DatabaseError)
              (sql_bind (update_password_of verified_uid verified_email hash_hex salt_hex) (\<lambda>updated_rows.
                 sql_return (if updated_rows \<noteq> 1 then PasswordUpdate_Failed else Updated)))) c)"

section \<open>The lease on a verification code\<close>

datatype VerificationLockResult = Acquired | Busy | Unavailable

definition VerificationSeconds :: int where "VerificationSeconds = 60"

definition AcquireVerification :: "delivery \<Rightarrow> string \<Rightarrow> string \<Rightarrow> redis \<Rightarrow> VerificationLockResult \<times> redis" where
  "AcquireVerification d key owner s = (let (r, s') = command d (SET_NX_EX key owner VerificationSeconds) s in
     (if r = None \<or> r = Some RError then Unavailable else if IsStatusOk r then Acquired else Busy, s'))"

definition ReleaseVerification :: "delivery \<Rightarrow> string \<Rightarrow> string \<Rightarrow> redis \<Rightarrow> bool \<times> redis" where
  "ReleaseVerification d key owner s = (let (r, s') = command d (release_script key owner) s in (as_integer r \<noteq> None, s'))"

definition verification_key :: "string \<Rightarrow> string" where
  "verification_key code_key = ''verification_lock_'' @ code_key"

definition verify_code_key :: "string \<Rightarrow> string" where
  "verify_code_key email = ''code_'' @ email"

section \<open>The handlers\<close>

text \<open>
  The parameters of the process: jsoncpp, OpenSSL and the bytes it draws as a salt, the identifier the lease draws, whether
  the pool exists, the verification server's procedure with its reply's error, the status server's nodes,
  its counter and the token it draws, and the order in which a hash map of strings is visited.
\<close>

record gate_lib =
  gate_json :: jsoncpp
  gate_ssl :: openssl
  gate_salt :: "8 word list option"
  lease_owner :: string
  has_pool :: bool
  verify_service :: "string \<Rightarrow> int svc"
  chat_nodes :: "ChatServer list"
  status_choice :: "64 word"
  status_token :: string
  map_order :: "(string \<times> string) list \<Rightarrow> (string \<times> string) list"

definition AccountCheckError :: "AccountCheckResult \<Rightarrow> ErrorCodes \<Rightarrow> ErrorCodes" where
  "AccountCheckError result mismatch_error = (case result of Match \<Rightarrow> Success | NoMatch \<Rightarrow> mismatch_error
     | AccountCheck_DatabaseError \<Rightarrow> DatabaseError)"

definition PasswordUpdateError :: "PasswordUpdateResult \<Rightarrow> ErrorCodes" where
  "PasswordUpdateError result = (case result of Updated \<Rightarrow> Success | PasswordUpdate_Failed \<Rightarrow> PasswdUpFailed
     | PasswordUpdate_DatabaseError \<Rightarrow> DatabaseError)"

text \<open>A reply that holds an error only.\<close>

definition error_reply :: "ErrorCodes \<Rightarrow> json" where
  "error_reply e = set_member ''error'' (err e) JNull"

text \<open>
  The loop over required fields: \<^term>\<open>None\<close> when looking for a member of something that is neither an object nor
  null throws, \<^term>\<open>False\<close> for a field that is missing, no string or empty.
\<close>

definition fields_present :: "string list \<Rightarrow> json \<Rightarrow> bool option" where
  "fields_present required request =
     (if required \<noteq> [] \<and> \<not> object_like request then None
      else Some (list_all (\<lambda>field. isMember request field \<and> isString (index request field) \<and> str_of (index request field) \<noteq> []) required))"

definition text_field :: "json \<Rightarrow> string \<Rightarrow> string" where
  "text_field request field = str_of (index request field)"

definition fields_too_long :: "string \<Rightarrow> string \<Rightarrow> string \<Rightarrow> bool" where
  "fields_too_long name email password \<longleftrightarrow> 64 < length name \<or> 255 < length email \<or> 128 < length password"

text \<open>What every handler of a form does first.\<close>

definition with_fields :: "jsoncpp \<Rightarrow> string list \<Rightarrow> string \<Rightarrow> (json \<Rightarrow> json option svc) \<Rightarrow> json option svc" where
  "with_fields J required body handler =
     (case parse J body of (ok, request) \<Rightarrow>
        if \<not> ok then give (Some (error_reply Error_Json))
        else case fields_present required request of None \<Rightarrow> give None
          | Some present \<Rightarrow> if \<not> present then give (Some (error_reply Error_Json)) else handler request)"

text \<open>The scope of a \<^verbatim>\<open>VerificationLease\<close>; its destructor releases an acquired lease.\<close>

definition with_lease :: "gate_lib \<Rightarrow> string \<Rightarrow> json svc \<Rightarrow> json svc" where
  "with_lease L code_key scope = do {
     result \<leftarrow> redis_call (\<lambda>d. AcquireVerification d (verification_key code_key) (lease_owner L));
     if result \<noteq> Acquired then give (error_reply (if result = Busy then VerifyExpired else RedisError))
     else do {
       reply \<leftarrow> scope;
       released \<leftarrow> redis_call (\<lambda>d. ReleaseVerification d (verification_key code_key) (lease_owner L));
       give reply } }"

text \<open>The scope's first step: the code in Redis against the code of the request.\<close>

definition with_code :: "string \<Rightarrow> string \<Rightarrow> json svc \<Rightarrow> json svc" where
  "with_code code_key requested scope = do {
     code \<leftarrow> redis_call (\<lambda>d. Get d code_key);
     case code of None \<Rightarrow> give (error_reply VerifyExpired)
     | Some verify_code \<Rightarrow> if verify_code \<noteq> requested then give (error_reply VerifyCodeErr) else scope }"

text \<open>The last step: the code is deleted, or the reply is an error although the work is done.\<close>

definition use_up :: "string \<Rightarrow> json \<Rightarrow> json svc" where
  "use_up code_key reply = do {
     deleted \<leftarrow> redis_call (\<lambda>d. Del d code_key);
     give (if \<not> deleted then error_reply RedisError else reply) }"

definition VerifyGrpcClient_GetVerifyCode :: "gate_lib \<Rightarrow> string \<Rightarrow> int svc" where
  "VerifyGrpcClient_GetVerifyCode L email = do {
     fate \<leftarrow> next_call;
     if fate = NoStub then give (error_value RPCFailed)
     else do {
       error \<leftarrow> verify_service L email;
       give (if fate = Replied then error else error_value RPCFailed) } }"

definition StatusGrpcClient_GetChatServer :: "gate_lib \<Rightarrow> int \<Rightarrow> chat_server_reply svc" where
  "StatusGrpcClient_GetChatServer L uid = do {
     fate \<leftarrow> next_call;
     let failed = \<lparr>rp_error = RPCFailed, rp_host = [], rp_port = [], rp_token = []\<rparr> in
     if fate = NoStub then give failed
     else do {
       (reply, choice) \<leftarrow> redis_run (GetChatServer (gate_json L) (status_token L) (chat_nodes L) uid (status_choice L));
       give (if fate = Replied then reply else failed) } }"

definition get_verifycode :: "gate_lib \<Rightarrow> string \<Rightarrow> json option svc" where
  "get_verifycode L body =
     (case parse (gate_json L) body of (ok, request) \<Rightarrow>
        if \<not> ok then give (Some (error_reply Error_Json))
        else if \<not> object_like request then give None
        else if \<not> isMember request ''email'' then give (Some (error_reply Error_Json))
        else case asString (gate_json L) (index request ''email'') of None \<Rightarrow> give None
          | Some email \<Rightarrow> do {
              error \<leftarrow> VerifyGrpcClient_GetVerifyCode L email;
              give (Some (set_members [(''error'', JInt error), (''email'', index request ''email'')] JNull)) })"

definition registered :: "gate_lib \<Rightarrow> string \<Rightarrow> string \<Rightarrow> string \<Rightarrow> json svc" where
  "registered L name email password = do {
     uid \<leftarrow> sql_call (MysqlDao_RegUser (has_pool L) (gate_ssl L) (gate_salt L) name email password);
     if uid = 0 then give (error_reply UserExist)
     else if uid < 0 then give (error_reply DatabaseError)
     else use_up (verify_code_key email)
       (set_members [(''error'', err Success), (''uid'', JInt uid), (''email'', JStr email), (''user'', JStr name)] JNull) }"

definition user_register :: "gate_lib \<Rightarrow> string \<Rightarrow> json option svc" where
  "user_register L body = with_fields (gate_json L) [''user'', ''email'', ''passwd'', ''confirm'', ''verifycode''] body (\<lambda>request.
     let name = text_field request ''user''; email = text_field request ''email''; password = text_field request ''passwd'' in
     if fields_too_long name email password then give (Some (error_reply Error_Json))
     else if password \<noteq> text_field request ''confirm'' then give (Some (error_reply PasswdErr))
     else do {
       reply \<leftarrow> with_lease L (verify_code_key email) (with_code (verify_code_key email) (text_field request ''verifycode'')
         (registered L name email password));
       give (Some reply) })"

definition password_reset :: "gate_lib \<Rightarrow> string \<Rightarrow> string \<Rightarrow> string \<Rightarrow> json svc" where
  "password_reset L name email password = do {
     (account, verified_uid) \<leftarrow> sql_call (MysqlDao_CheckEmail (has_pool L) name email);
     if AccountCheckError account EmailNotMatch \<noteq> Success then give (error_reply (AccountCheckError account EmailNotMatch))
     else do {
       update \<leftarrow> sql_call (MysqlDao_UpdatePwd (has_pool L) (gate_ssl L) (gate_salt L) verified_uid email password);
       if PasswordUpdateError update \<noteq> Success then give (error_reply (PasswordUpdateError update))
       else use_up (verify_code_key email)
         (set_members [(''error'', err Success), (''email'', JStr email), (''user'', JStr name)] JNull) } }"

definition reset_pwd :: "gate_lib \<Rightarrow> string \<Rightarrow> json option svc" where
  "reset_pwd L body = with_fields (gate_json L) [''user'', ''email'', ''passwd'', ''verifycode''] body (\<lambda>request.
     let name = text_field request ''user''; email = text_field request ''email''; password = text_field request ''passwd'' in
     if fields_too_long name email password then give (Some (error_reply Error_Json))
     else do {
       reply \<leftarrow> with_lease L (verify_code_key email) (with_code (verify_code_key email) (text_field request ''verifycode'')
         (password_reset L name email password));
       give (Some reply) })"

text \<open>A fresh \<^verbatim>\<open>UserInfo\<close>.\<close>

definition no_user :: UserInfo where
  "no_user = \<lparr>ui_name = [], ui_pwd = [], ui_uid = 0, ui_email = [], ui_nick = [], ui_desc = [], ui_sex = 0, ui_icon = [],
     ui_back = [], ui_tags_json = ''[]''\<rparr>"

definition user_login :: "gate_lib \<Rightarrow> string \<Rightarrow> json option svc" where
  "user_login L body = with_fields (gate_json L) [''email'', ''passwd''] body (\<lambda>request.
     let email = text_field request ''email''; password = text_field request ''passwd'' in
     if fields_too_long [] email password then give (Some (error_reply Error_Json))
     else do {
       (account, user) \<leftarrow> sql_call (MysqlDao_CheckPwdByEmail (has_pool L) (gate_ssl L) email password no_user);
       if AccountCheckError account PasswdInvalid \<noteq> Success then give (Some (error_reply (AccountCheckError account PasswdInvalid)))
       else do {
         status \<leftarrow> StatusGrpcClient_GetChatServer L (ui_uid user);
         if rp_error status \<noteq> Success then give (Some (error_reply (rp_error status)))
         else give (Some (set_members [(''error'', err Success), (''user'', JStr (ui_name user)), (''email'', JStr email),
           (''uid'', JInt (ui_uid user)), (''token'', JStr (rp_token status)), (''host'', JStr (rp_host status)),
           (''port'', JStr (rp_port status))] JNull)) } })"

section \<open>Requests\<close>

definition post_handlers :: "gate_lib \<Rightarrow> (string \<times> (string \<Rightarrow> json option svc)) list" where
  "post_handlers L = [(''/get_verifycode'', get_verifycode L), (''/user_register'', user_register L),
     (''/reset_pwd'', reset_pwd L), (''/user_login'', user_login L)]"

definition newline :: string where "newline = [char_of (10 :: nat)]"

definition get_test :: "(string \<times> string) list \<Rightarrow> string" where
  "get_test params = ''receive get_test req '' @ newline @
     concat (map (\<lambda>(i, key, v). ''param'' @ to_string (int (Suc i)) @ '' key is '' @ key @ '', '' @ '' value is '' @ v @ newline) (enumerate 0 params))"

datatype verb = Http_get | Http_post | Http_other

record http_response =
  http_status :: nat
  content_type :: string
  response_body :: string

definition SendError :: "nat \<Rightarrow> string \<Rightarrow> http_response" where
  "SendError status message = \<lparr>http_status = status, content_type = ''application/json'',
     response_body = ''{\"error\":'' @ to_string (int status) @ '',\"message\":\"'' @ message @ ''\"}''\<rparr>"

definition url_not_found :: http_response where
  "url_not_found = \<lparr>http_status = 404, content_type = ''text/plain'', response_body = ''url not found'' @ [char_of (13 :: nat)] @ newline\<rparr>"

definition HandleGet :: "string \<Rightarrow> (string \<times> string) list \<Rightarrow> http_response" where
  "HandleGet path params = (if path = ''/get_test''
     then \<lparr>http_status = 200, content_type = ''text/plain'', response_body = get_test params\<rparr> else url_not_found)"

definition HandlePost :: "gate_lib \<Rightarrow> string \<Rightarrow> string \<Rightarrow> http_response svc" where
  "HandlePost L path body = (case map_of (post_handlers L) path of None \<Rightarrow> give url_not_found
     | Some handler \<Rightarrow> do {
         reply \<leftarrow> handler body;
         give (case reply of None \<Rightarrow> SendError 500 ''internal server error''
           | Some document \<Rightarrow> \<lparr>http_status = 200, content_type = ''text/json'', response_body = toStyledString (gate_json L) document\<rparr>) })"

text \<open>What the business thread does with a request that has not expired.\<close>

definition HandleReq :: "gate_lib \<Rightarrow> verb \<Rightarrow> string \<Rightarrow> string \<Rightarrow> http_response svc" where
  "HandleReq L http_verb target body = (case http_verb of
       Http_get \<Rightarrow> give (case PreParseGetParam target of None \<Rightarrow> SendError 400 ''invalid request''
         | Some (path, params) \<Rightarrow> HandleGet path (map_order L params))
     | Http_post \<Rightarrow> HandlePost L target body
     | Http_other \<Rightarrow> give (SendError 405 ''method not allowed''))"

end
