(* ===== verification/GateFacts.thy ===== *)
theory GateFacts
  imports Gate Authority
begin

text \<open>
  What the gate server promises: a verification code is checked before an account is touched and is spent by the work it
  allows, a password reset changes one account, the lease on a code excludes other gate processes, and the
  accounts keep the invariant of the database.
\<close>

section \<open>The lease\<close>

definition code_owner :: "redis \<Rightarrow> string \<Rightarrow> string option" where
  "code_owner s n = value_of s (verification_key n)"

definition code_left :: "redis \<Rightarrow> string \<Rightarrow> rat" where
  "code_left s n = time_left s (verification_key n)"

definition take_code :: "delivery \<Rightarrow> string \<Rightarrow> string \<Rightarrow> redis \<Rightarrow> bool \<times> redis" where
  "take_code d n me s = (case AcquireVerification d (verification_key n) me s of (r, s') \<Rightarrow> (r = Acquired, s'))"

definition drop_code :: "delivery \<Rightarrow> string \<Rightarrow> string \<Rightarrow> redis \<Rightarrow> bool \<times> redis" where
  "drop_code d n me s = (fst (ReleaseVerification d (verification_key n) me s) \<and> code_owner s n = Some me,
     snd (ReleaseVerification d (verification_key n) me s))"

lemma verification_key_inj [key_simps, simp]: "(verification_key a = verification_key b) = (a = b)"
  by (simp add: verification_key_def)

lemma take_code_cases:
  obtains (untouched) r where "take_code d n me s = (r, s)" "\<not> r"
  | (set) r where "take_code d n me s = (r, setex (verification_key n) me VerificationSeconds s)" "code_owner s n = None"
proof (cases "d = NotDelivered \<or> exists_key s (verification_key n)")
  case True
  then show thesis
    by (intro untouched [of False]) (auto simp: take_code_def AcquireVerification_def command_def SET_NX_EX_def IsStatusOk_def split: delivery.split)
next
  case False
  then have "code_owner s n = None" using value_live by (fastforce simp: code_owner_def)
  with False show thesis
    by (intro set [of "d = Delivered"]) (cases d; simp add: take_code_def AcquireVerification_def command_def SET_NX_EX_def IsStatusOk_def)+
qed

lemma drop_code_cases:
  obtains (untouched) "drop_code d n me s = (False, s)"
  | (deleted) r where "drop_code d n me s = (r, del (verification_key n) s)" "code_owner s n = Some me"
  by (cases d; cases "code_owner s n = Some me"; cases "wrong_type s (verification_key n)")
    (auto simp: drop_code_def ReleaseVerification_def command_def release_script_def DEL_def code_owner_def as_integer_def)

interpretation code_lease: owner_lease code_owner code_left "take_code d" "drop_code d'" tick
    "1000 * of_int VerificationSeconds" "\<lambda>s. True" for d d'
proof unfold_locales
  fix s n a me m
  assume o: "code_owner s n = Some a" "a \<noteq> me"
  show "\<not> fst (take_code d m me s) \<and> m = n \<or> m \<noteq> n"
    using o(1) by (cases rule: take_code_cases [of d m me s]) auto
  show "code_owner (snd (take_code d m me s)) n = Some a \<and> code_left (snd (take_code d m me s)) n = code_left s n"
    using o(1) by (cases rule: take_code_cases [of d m me s]) (auto simp: code_owner_def code_left_def VerificationSeconds_def)
  show "code_owner (snd (drop_code d' m me s)) n = Some a \<and> code_left (snd (drop_code d' m me s)) n = code_left s n"
    using o by (cases rule: drop_code_cases [of d' m me s]) (auto simp: code_owner_def code_left_def)
next
  fix s n me
  assume "fst (take_code d n me s)"
  then show "code_owner (snd (take_code d n me s)) n = Some me \<and> code_left (snd (take_code d n me s)) n = 1000 * of_int VerificationSeconds"
    by (cases rule: take_code_cases [of d n me s]) (auto simp: code_owner_def code_left_def VerificationSeconds_def)
next
  fix s n me
  assume "fst (drop_code d' n me s)"
  then show "code_owner s n = Some me \<and> code_owner (snd (drop_code d' n me s)) n = None"
    by (cases rule: drop_code_cases [of d' n me s]) (auto simp: code_owner_def)
next
  fix s n a dt
  assume "code_owner s n = Some a" "0 \<le> dt" "dt < code_left s n"
  then show "code_owner (tick dt s) n = Some a \<and> code_left (tick dt s) n = code_left s n - dt"
    using tick_live [of dt s "verification_key n"] tick_value [of dt s "verification_key n"]
    by (simp add: code_owner_def code_left_def)
qed auto

text \<open>One gate process at a time works with a verification code. After a process acquired the lease on a code, for
  sixty seconds and whatever other processes try meanwhile, with any delivery of their commands, the lease is its own:
  nobody else acquires it, and no release of anybody else, late ones of earlier owners included, removes it.\<close>

theorem verification_lease_excludes:
  assumes "fst (AcquireVerification d (verification_key n) a s) = Acquired" "list_all (foreign a) ops"
    and "sum_list (map elapsed ops) < 1000 * of_int VerificationSeconds" "b \<noteq> a"
  shows "let t = fold (code_lease.perform d d') ops (snd (AcquireVerification d (verification_key n) a s)) in
    value_of t (verification_key n) = Some a \<and> fst (AcquireVerification d (verification_key n) b t) \<noteq> Acquired \<and>
    value_of (snd (ReleaseVerification d' (verification_key n) b t)) (verification_key n) = Some a"
proof -
  have t: "fst (take_code d n a s)" "snd (take_code d n a s) = snd (AcquireVerification d (verification_key n) a s)"
    using assms(1) by (simp_all add: take_code_def split_beta)
  let ?t = "fold (code_lease.perform d d') ops (snd (AcquireVerification d (verification_key n) a s))"
  have e: "code_owner ?t n = Some a" "\<not> fst (take_code d n b ?t)"
    using code_lease.exclusive [OF TrueI t(1) assms(2-4), of d'] t(2) by simp_all
  have "code_owner (snd (drop_code d' n b ?t)) n = Some a"
    using e(1) assms(4) by (cases rule: drop_code_cases [of d' n b ?t]) auto
  then show ?thesis using e by (simp add: Let_def code_owner_def take_code_def drop_code_def split_beta)
qed

theorem verification_lease_excludes_witness:
  "let t = fold (code_lease.perform Delivered ReplyLost) [Wait_op 59000, Release_op ''code_a'' ''old'', Acquire_op ''code_a'' ''bob'']
       (snd (AcquireVerification Delivered (verification_key ''code_a'') ''ann'' empty_redis))
   in value_of t (verification_key ''code_a'') = Some ''ann'' \<and> fst (AcquireVerification Delivered (verification_key ''code_a'') ''bob'' t) \<noteq> Acquired \<and>
      value_of (snd (ReleaseVerification ReplyLost (verification_key ''code_a'') ''bob'' t)) (verification_key ''code_a'') = Some ''ann''"
  by (rule verification_lease_excludes)
    (simp_all add: AcquireVerification_def command_def SET_NX_EX_def exists_key_def live_def empty_redis_def IsStatusOk_def VerificationSeconds_def)

section \<open>Steps of a handler\<close>

lemma redis_call_step:
  assumes "run_state (redis_call f) n = (x, n')"
  obtains d where "f d (redisd n) = (x, redisd n')" "mysqld n' = mysqld n"
  using assms by (auto simp: redis_call_def next_fate_def split: prod.splits list.splits)

lemma sql_call_step: "run_state (sql_call f) n = (x, n') \<Longrightarrow> f (mysqld n) = (x, mysqld n') \<and> redisd n' = redisd n"
  by (auto simp: sql_call_def split: prod.splits)

lemma svc_bindE:
  assumes "run_state (State_Monad.bind m f) n = (y, n')"
  obtains x n1 where "run_state m n = (x, n1)" "run_state (f x) n1 = (y, n')"
  using assms by (auto simp: run_state_bind split: prod.splits)

lemma verification_not_code: "verification_key k \<noteq> verify_code_key e"
  by (simp add: verification_key_def verify_code_key_def)

lemma AcquireVerification_redis:
  "AcquireVerification d (verification_key k) a s = (r, s') \<Longrightarrow> value_of s' (verify_code_key e) = value_of s (verify_code_key e)"
  using verification_not_code [of k e]
  by (cases d) (auto simp: AcquireVerification_def command_def SET_NX_EX_def VerificationSeconds_def Let_def split: if_splits)

lemma ReleaseVerification_redis:
  "ReleaseVerification d (verification_key k) a s = (r, s') \<Longrightarrow> value_of s' (verify_code_key e) = value_of s (verify_code_key e)"
  using verification_not_code [of k e]
  by (cases d) (auto simp: ReleaseVerification_def command_def release_script_def DEL_def Let_def split: if_splits)

text \<open>The codes in Redis and the database, which the lease does not touch.\<close>

definition agree :: "node \<Rightarrow> node \<Rightarrow> bool" where
  "agree n n' \<longleftrightarrow> mysqld n' = mysqld n \<and> (\<forall>e. value_of (redisd n') (verify_code_key e) = value_of (redisd n) (verify_code_key e))"

lemma with_lease_cases:
  assumes "run_state (with_lease L key scope) n = (reply, n')"
  obtains (refused) e where "reply = error_reply e" "e = VerifyExpired \<or> e = RedisError" "agree n n'"
    | (held) n1 n2 where "agree n n1" "run_state scope n1 = (reply, n2)" "agree n2 n'"
proof -
  obtain result n1 where a: "run_state (redis_call (\<lambda>d. AcquireVerification d (verification_key key) (lease_owner L))) n = (result, n1)"
    by (metis surj_pair)
  then have n1: "agree n n1"
    by (rule redis_call_step) (auto simp: agree_def dest: AcquireVerification_redis)
  show thesis
  proof (cases "result = Acquired")
    case True
    with assms a obtain n2 r where "run_state scope n1 = (reply, n2)"
        and r: "run_state (redis_call (\<lambda>d. ReleaseVerification d (verification_key key) (lease_owner L))) n2 = (r, n')"
      by (auto simp: with_lease_def split: prod.splits)
    moreover from r have "agree n2 n'"
      by (rule redis_call_step) (auto simp: agree_def dest: ReleaseVerification_redis)
    ultimately show thesis using held n1 by blast
  next
    case False
    with assms a show thesis using n1 refused by (auto simp: with_lease_def)
  qed
qed

lemma with_code_cases:
  assumes "run_state (with_code key requested scope) n = (reply, n')"
  obtains (refused) e where "reply = error_reply e" "e = VerifyExpired \<or> e = VerifyCodeErr \<and> value_of (redisd n) key \<noteq> None"
      "mysqld n' = mysqld n" "redisd n' = redisd n"
    | (right) n1 where "value_of (redisd n) key = Some requested" "mysqld n1 = mysqld n" "redisd n1 = redisd n"
        "run_state scope n1 = (reply, n')"
proof -
  obtain code n1 where c: "run_state (redis_call (\<lambda>d. Get d key)) n = (code, n1)" by (metis surj_pair)
  obtain d where d: "Get d key (redisd n) = (code, redisd n1)" "mysqld n1 = mysqld n" using c by (rule redis_call_step)
  then have s: "redisd n1 = redisd n" "\<And>v. code = Some v \<Longrightarrow> value_of (redisd n) key = Some v"
    by (cases d; auto simp: Get_def command_def GET_def as_string_def Let_def split: if_splits option.splits)+
  show thesis
  proof (cases code)
    case None
    then show thesis using assms c d s refused by (auto simp: with_code_def)
  next
    case (Some v)
    then show thesis using assms c d s refused right by (cases "v = requested") (auto simp: with_code_def)
  qed
qed

lemma use_up_cases:
  assumes "run_state (use_up key reply) n = (result, n')"
  obtains (kept) "result = error_reply RedisError" "mysqld n' = mysqld n" "value_of (redisd n') key \<in> {None, value_of (redisd n) key}"
    | (spent) "result = reply" "mysqld n' = mysqld n" "redisd n' = del key (redisd n)"
proof -
  obtain ok n1 where c: "run_state (redis_call (\<lambda>d. Del d key)) n = (ok, n1)" by (metis surj_pair)
  obtain d where d: "Del d key (redisd n) = (ok, redisd n1)" "mysqld n1 = mysqld n" using c by (rule redis_call_step)
  have r: "result = (if ok then reply else error_reply RedisError)" "n' = n1"
    using assms c by (auto simp: use_up_def)
  show thesis using d r kept spent value_of_del [of key "redisd n" key]
    by (cases d; cases ok) (auto simp: Del_def command_def DEL_def as_integer_def)
qed

lemma index_error_reply [simp]: "index (error_reply e) ''error'' = err e"
  by (simp add: error_reply_def index_def get_default_def)

lemma with_fields_cases:
  assumes "run_state (with_fields J required body handler) n = (Some reply, n')"
  obtains (refused) "reply = error_reply Error_Json" "n' = n"
    | (given) request where "parse J body = (True, request)" "\<forall>field\<in>set required. text_field request field \<noteq> []"
        "run_state (handler request) n = (Some reply, n')"
proof -
  obtain ok request where p: "parse J body = (ok, request)" by force
  show thesis
  proof (cases "ok \<and> fields_present required request = Some True")
    case True
    then have "\<forall>field\<in>set required. text_field request field \<noteq> []"
      by (auto simp: fields_present_def text_field_def list_all_iff split: if_splits)
    then show thesis using assms p True given by (simp add: with_fields_def)
  next
    case False
    then show thesis using assms p refused by (auto simp: with_fields_def split: if_splits option.splits)
  qed
qed

section \<open>Resetting a password\<close>

lemma CheckEmail_match:
  assumes "MysqlDao_CheckEmail pool name email c = ((Match, uid), c')"
  obtains u where "account_row (db c) name email = Some u" "uid = u_id u" "db c' = db c"
proof -
  let ?q = "sql_bind (select (\<lambda>d. account_row d name email)) (\<lambda>found. sql_return (case found of None \<Rightarrow> (NoMatch, 0) | Some u \<Rightarrow> (Match, u_id u)))"
  have "with_connection (AccountCheck_DatabaseError, 0) (sql_catch (\<lambda>_. (AccountCheck_DatabaseError, 0)) ?q) c = ((Match, uid), c')"
    using assms by (auto simp: MysqlDao_CheckEmail_def split: if_splits)
  then obtain c1 where c1: "db c1 = db c" "sql_catch (\<lambda>_. (AccountCheck_DatabaseError, 0)) ?q c1 = ((Match, uid), c')"
    by (cases rule: with_connection_cases) auto
  from c1(2) have "gives ?q c1 (Match, uid) c'" by (cases rule: sql_catch_cases) (simp_all add: gives_def)
  then obtain found c2 where f: "gives (select (\<lambda>d. account_row d name email)) c1 found c2"
      "(Match, uid) = (case found of None \<Rightarrow> (NoMatch, 0) | Some u \<Rightarrow> (Match, u_id u))" "c' = c2" by auto
  then obtain u where "found = Some u" "uid = u_id u" by (cases found) auto
  moreover have "found = account_row (db c) name email" "db c' = db c" using gives_select [OF f(1)] c1(1) f(3) by simp_all
  ultimately show thesis using that [of u] by metis
qed

lemma CheckEmail_rows: "db (snd (MysqlDao_CheckEmail pool name email c)) = db c"
  by (auto simp: MysqlDao_CheckEmail_def with_connection_def sql_catch_def sql_bind_def sql_return_def select_def statement_def next_fault_def
      split: prod.splits list.splits fault.splits sum.splits)

lemma UpdatePwd_cases:
  assumes "MysqlDao_UpdatePwd pool ssl salt uid email password c = (r, c')"
  obtains (updated) s salt_hex hash_hex where "r = Updated" "0 < uid" "salt = Some s" "HashPassword ssl salt password = Some (salt_hex, hash_hex)"
      "length (filter (\<lambda>u. set_password_of (db c) uid email hash_hex salt_hex u \<noteq> u) (users_t (tbl c))) = 1"
      "db c' = (db c)\<lparr>rows := (tbl c)\<lparr>users_t := map (set_password_of (db c) uid email hash_hex salt_hex) (users_t (tbl c))\<rparr>\<rparr>"
    | (unknown) "r = PasswordUpdate_DatabaseError"
    | (refused) "r = PasswordUpdate_Failed"
proof (cases r)
  case Updated
  then obtain salt_hex hash_hex where h: "HashPassword ssl salt password = Some (salt_hex, hash_hex)" "0 < uid"
      and w: "with_connection PasswordUpdate_DatabaseError (sql_catch (\<lambda>_. PasswordUpdate_DatabaseError)
              (sql_bind (update_password_of uid email hash_hex salt_hex) (\<lambda>updated_rows.
                 sql_return (if updated_rows \<noteq> 1 then PasswordUpdate_Failed else Updated)))) c = (r, c')"
    using assms by (auto simp: MysqlDao_UpdatePwd_def split: if_splits option.splits)
  from h(1) obtain s where s: "salt = Some s" by (auto simp: HashPassword_def split: if_splits option.splits)
  let ?m = "sql_bind (update_password_of uid email hash_hex salt_hex) (\<lambda>updated_rows.
      sql_return (if updated_rows \<noteq> 1 then PasswordUpdate_Failed else Updated))"
  from w Updated obtain c1 where c1: "db c1 = db c" "sql_catch (\<lambda>_. PasswordUpdate_DatabaseError) ?m c1 = (Updated, c')"
    by (cases rule: with_connection_cases) auto
  from c1(2) have "gives ?m c1 Updated c'" by (cases rule: sql_catch_cases) (simp_all add: gives_def)
  then obtain k where k: "gives (update_password_of uid email hash_hex salt_hex) c1 k c'" "k = 1" by (auto split: if_splits)
  note g = gives_statement [OF k(1) [unfolded update_password_of_def]]
  from g k(2) c1(1) show thesis using updated [OF Updated h(2) s h(1)] by (simp add: Let_def)
qed (use unknown refused in auto)

lemma changed_row:
  assumes "length (filter (\<lambda>u. set_password_of d uid email hash salt u \<noteq> u) us) = 1"
  shows "\<exists>u\<in>set us. u_id u = uid \<and> weight d (u_email u) = weight d email \<and> u_hash (set_password_of d uid email hash salt u) = hash"
proof -
  obtain u where "u \<in> set us" "set_password_of d uid email hash salt u \<noteq> u"
    using assms filter_False [of us "\<lambda>u. set_password_of d uid email hash salt u \<noteq> u"] by (cases "\<exists>u\<in>set us. set_password_of d uid email hash salt u \<noteq> u") auto
  then show ?thesis by (intro bexI [of _ u]) (auto simp: set_password_of_def split: if_splits)
qed

text \<open>The parts of a form.\<close>

definition form_email :: "jsoncpp \<Rightarrow> string \<Rightarrow> string" where
  "form_email J body = text_field (snd (parse J body)) ''email''"

text \<open>
  What a reset asked for by a form does to the tables: one account, found by name and e-mail, gets the new password.
\<close>

definition changes_password :: "gate_lib \<Rightarrow> string \<Rightarrow> string \<Rightarrow> string \<Rightarrow> database \<Rightarrow> tables \<Rightarrow> bool" where
  "changes_password L name email password d t \<longleftrightarrow> (\<exists>u s salt hash. account_row d name email = Some u \<and> gate_salt L = Some s \<and>
     t = (rows d)\<lparr>users_t := map (set_password_of d (u_id u) email hash salt) (users_t (rows d))\<rparr> \<and>
     length (filter (\<lambda>r. set_password_of d (u_id u) email hash salt r \<noteq> r) (users_t (rows d))) = 1 \<and>
     (\<forall>candidate. candidate \<noteq> [] \<and> int (length candidate) \<le> int_max \<longrightarrow> VerifyPassword (gate_ssl L) candidate salt kPasswordIterations hash =
       (PBKDF2 (gate_ssl L) candidate s kPasswordIterations kPasswordHashSize = PBKDF2 (gate_ssl L) password s kPasswordIterations kPasswordHashSize)))"

lemma changes_passwordI:
  assumes "account_row d name email = Some u" "gate_salt L = Some s" "HashPassword (gate_ssl L) (gate_salt L) password = Some (salt, hash)"
    "length (filter (\<lambda>r. set_password_of d (u_id u) email hash salt r \<noteq> r) (users_t (rows d))) = 1"
    "t = (rows d)\<lparr>users_t := map (set_password_of d (u_id u) email hash salt) (users_t (rows d))\<rparr>"
    "sound_openssl (gate_ssl L)" "length s = kPasswordSaltSize"
  shows "changes_password L name email password d t"
proof -
  have "VerifyPassword (gate_ssl L) candidate salt kPasswordIterations hash =
      (PBKDF2 (gate_ssl L) candidate s kPasswordIterations kPasswordHashSize = PBKDF2 (gate_ssl L) password s kPasswordIterations kPasswordHashSize)"
    if "candidate \<noteq> []" "int (length candidate) \<le> int_max" for candidate
    using verify_hashed [OF assms(6) _ assms(7) that] assms(2,3) by simp
  then show ?thesis
    unfolding changes_password_def using assms(1,2,4,5) by (intro exI [of _ u] exI [of _ s] exI [of _ salt] exI [of _ hash]) simp
qed

lemma reset_steps:
  assumes "run_state (password_reset L name email password) n = (reply, n')" "index reply ''error'' = err Success"
  obtains u c where "account_row (db (mysqld n)) name email = Some u" "db c = db (mysqld n)"
    "MysqlDao_UpdatePwd (has_pool L) (gate_ssl L) (gate_salt L) (u_id u) email password c = (Updated, mysqld n')"
    "value_of (redisd n') (verify_code_key email) = None"
proof -
  obtain account uid n1 where a: "run_state (sql_call (MysqlDao_CheckEmail (has_pool L) name email)) n = ((account, uid), n1)"
    by (metis prod.exhaust)
  note m1 = sql_call_step [OF a]
  have ac: "account = Match" using assms a by (cases account) (auto simp: password_reset_def AccountCheckError_def)
  with m1 obtain u where u: "account_row (db (mysqld n)) name email = Some u" "uid = u_id u" "db (mysqld n1) = db (mysqld n)"
    using CheckEmail_match by metis
  obtain update n2 where b: "run_state (sql_call (MysqlDao_UpdatePwd (has_pool L) (gate_ssl L) (gate_salt L) uid email password)) n1 = (update, n2)"
    by (metis surj_pair)
  note m2 = sql_call_step [OF b]
  have up: "update = Updated" using assms a b ac by (cases update) (auto simp: password_reset_def AccountCheckError_def PasswordUpdateError_def)
  have r: "run_state (use_up (verify_code_key email) (set_members [(''error'', err Success), (''email'', JStr email), (''user'', JStr name)] JNull)) n2 = (reply, n')"
    using assms(1) a b ac up by (simp add: password_reset_def AccountCheckError_def PasswordUpdateError_def)
  from r have "mysqld n' = mysqld n2 \<and> value_of (redisd n') (verify_code_key email) = None"
  proof (cases rule: use_up_cases)
    case kept
    then show ?thesis using assms(2) by simp
  qed simp
  then show thesis using that [of u "mysqld n1"] u m2 up by simp
qed

lemma reset_done:
  assumes "run_state (password_reset L name email password) n = (reply, n')" "index reply ''error'' = err Success"
    "sound_openssl (gate_ssl L)" "\<forall>s. gate_salt L = Some s \<longrightarrow> length s = kPasswordSaltSize"
  shows "changes_password L name email password (db (mysqld n)) (tbl (mysqld n')) \<and> value_of (redisd n') (verify_code_key email) = None"
proof -
  from reset_steps [OF assms(1,2)] obtain u c where u: "account_row (db (mysqld n)) name email = Some u" "db c = db (mysqld n)"
    "MysqlDao_UpdatePwd (has_pool L) (gate_ssl L) (gate_salt L) (u_id u) email password c = (Updated, mysqld n')"
    "value_of (redisd n') (verify_code_key email) = None" by metis
  from u(3) show ?thesis
  proof (cases rule: UpdatePwd_cases)
    case (updated s salt_hex hash_hex)
    have "changes_password L name email password (db (mysqld n)) (tbl (mysqld n'))"
      by (rule changes_passwordI [OF u(1) updated(3,4) _ _ assms(3)]) (use updated(3,5,6) assms(4) u(2) in simp_all)
    then show ?thesis using u(4) by simp
  qed simp_all
qed

lemma reset_refused:
  assumes "run_state (password_reset L name email password) n = (reply, n')"
  shows "index reply ''error'' \<in> {err Success, err DatabaseError, err RedisError, err PasswdUpFailed} \<or> tbl (mysqld n') = tbl (mysqld n)"
proof -
  obtain account uid n1 where a: "run_state (sql_call (MysqlDao_CheckEmail (has_pool L) name email)) n = ((account, uid), n1)"
    by (metis prod.exhaust)
  have d: "db (mysqld n1) = db (mysqld n)" using sql_call_step [OF a] CheckEmail_rows [of "has_pool L" name email "mysqld n"] by simp
  obtain update n2 where b: "run_state (sql_call (MysqlDao_UpdatePwd (has_pool L) (gate_ssl L) (gate_salt L) uid email password)) n1 = (update, n2)"
    by (metis surj_pair)
  show ?thesis
  proof (cases "account = Match \<and> update = Updated")
    case True
    then have "run_state (use_up (verify_code_key email) (set_members [(''error'', err Success), (''email'', JStr email), (''user'', JStr name)] JNull)) n2 = (reply, n')"
      using assms a b by (simp add: password_reset_def AccountCheckError_def PasswordUpdateError_def)
    then show ?thesis
    proof (cases rule: use_up_cases)
      case spent
      then show ?thesis by (simp add: index_def get_default_def)
    qed simp
  next
    case False
    then show ?thesis using assms a b d
      by (cases account; cases update) (auto simp: password_reset_def AccountCheckError_def PasswordUpdateError_def)
  qed
qed

text \<open>C32: Resetting a password changes one account and needs its code. If the reply says success, Redis held the code of the request
  under the request's e-mail; the account is the one whose name and e-mail equal the request's in the database's collation;
  exactly one row changed, in its password fields only; from then on exactly those candidates are accepted
  that the key derivation function maps to the bytes of the new password; and the code is gone. A reply with any other error than
  a failing database, a failing Redis or a failed update leaves all tables as they were.\<close>

theorem password_reset_effect:
  assumes "run_state (reset_pwd L body) n = (Some reply, n')" "sound_openssl (gate_ssl L)" "\<forall>s. gate_salt L = Some s \<longrightarrow> length s = kPasswordSaltSize"
  shows "let request = snd (parse (gate_json L) body); email = text_field request ''email'' in
    (index reply ''error'' = err Success \<longrightarrow> value_of (redisd n) (verify_code_key email) = Some (text_field request ''verifycode'') \<and>
      value_of (redisd n') (verify_code_key email) = None \<and>
      changes_password L (text_field request ''user'') email (text_field request ''passwd'') (db (mysqld n)) (tbl (mysqld n'))) \<and>
    (index reply ''error'' \<notin> {err Success, err DatabaseError, err RedisError, err PasswdUpFailed} \<longrightarrow> tbl (mysqld n') = tbl (mysqld n))"
proof -
  from assms(1) [unfolded reset_pwd_def] show ?thesis
  proof (cases rule: with_fields_cases)
    case (given request)
    let ?email = "text_field request ''email''" and ?name = "text_field request ''user''" and ?password = "text_field request ''passwd''"
    have req: "snd (parse (gate_json L) body) = request" using given(1) by simp
    show ?thesis
    proof (cases "fields_too_long ?name ?email ?password")
      case False
      with given(3) have "run_state (with_lease L (verify_code_key ?email) (with_code (verify_code_key ?email)
          (text_field request ''verifycode'') (password_reset L ?name ?email ?password))) n = (reply, n')"
        by (auto simp: Let_def split: prod.splits)
      then show ?thesis
      proof (cases rule: with_lease_cases)
        case (refused e)
        then show ?thesis by (auto simp: agree_def)
      next
        case (held n1 n2)
        from held(2) show ?thesis
        proof (cases rule: with_code_cases)
          case (refused e)
          then show ?thesis using held by (auto simp: agree_def)
        next
          case (right n3)
          have same: "mysqld n3 = mysqld n" "mysqld n' = mysqld n2"
              "value_of (redisd n) (verify_code_key ?email) = Some (text_field request ''verifycode'')"
              "value_of (redisd n') (verify_code_key ?email) = value_of (redisd n2) (verify_code_key ?email)"
            using held right by (simp_all add: agree_def)
          show ?thesis
          proof (cases "index reply ''error'' = err Success")
            case True
            from reset_done [OF right(4) True assms(2,3)] show ?thesis using same True by (simp add: Let_def req)
          next
            case False
            then show ?thesis using reset_refused [OF right(4)] same by (auto simp: Let_def)
          qed
        qed
      qed
    qed (use given in \<open>auto simp: Let_def\<close>)
  qed auto
qed

section \<open>The accounts of both servers\<close>

text \<open>With a pool, registration is the chat servers' registration and logging in their check of a password.\<close>

lemma same_registration: "MysqlDao_RegUser True = RegUser"
  by (simp add: fun_eq_iff MysqlDao_RegUser_def RegUser_def)

lemma same_login:
  "faults c = [] \<Longrightarrow> fst (MysqlDao_CheckPwdByEmail True ssl email password info c) =
     (case fst (CheckPwdByEmail ssl email password info c) of (ok, i) \<Rightarrow> (if ok then Match else NoMatch, i))"
  "faults c = [] \<Longrightarrow> snd (MysqlDao_CheckPwdByEmail True ssl email password info c) = c"
  by (simp_all add: MysqlDao_CheckPwdByEmail_def CheckPwdByEmail_def sql_catch_def sql_bind_def sql_return_def split: option.split)

lemma keeps_gate_UpdatePwd: "saved c = None \<Longrightarrow> keeps c (snd (MysqlDao_UpdatePwd pool ssl salt uid email password c))"
proof -
  assume sv: "saved c = None"
  have f: "u_id (set_password_of d uid email h s u) = u_id u" "u_username (set_password_of d uid email h s u) = u_username u"
      "u_email (set_password_of d uid email h s u) = u_email u" for u d h s by (simp_all add: set_password_of_def)
  have upd: "database_ok (d\<lparr>rows := (rows d)\<lparr>users_t := map (set_password_of d uid email h s) (users_t (rows d))\<rparr>\<rparr>)" if ok: "database_ok d" for d h s
  proof (rule ok_users [OF ok])
    show "users_ok (weight d) (next_user (d\<lparr>rows := (rows d)\<lparr>users_t := map (set_password_of d uid email h s) (users_t (rows d))\<rparr>\<rparr>))
        (rows (d\<lparr>rows := (rows d)\<lparr>users_t := map (set_password_of d uid email h s) (users_t (rows d))\<rparr>\<rparr>))"
      using users_ok_map [of "weight d" "next_user d" "rows d" "set_password_of d uid email h s"] f ok by (simp add: database_ok_def)
    show "rows (d\<lparr>rows := (rows d)\<lparr>users_t := map (set_password_of d uid email h s) (users_t (rows d))\<rparr>\<rparr>) =
      (rows d)\<lparr>users_t := map (set_password_of d uid email h s) (users_t (rows d)), avatars_t := avatars_t (rows d)\<rparr>" by simp
  qed (simp_all add: image_image f)
  have "keeps c (snd (sql_bind (update_password_of uid email h s) (\<lambda>n. sql_return (if n \<noteq> 1 then PasswordUpdate_Failed else Updated)) c))"
    if "saved c = None" for c h s
    unfolding update_password_of_def Let_def
    by (rule keeps_bind [OF keeps_statement keeps_reading [OF reading_return]]) (use that upd in auto)
  then show ?thesis using sv
    by (auto simp: MysqlDao_UpdatePwd_def keeps_catch split: option.split intro!: keeps_connection) (simp_all add: keeps_def)
qed

section \<open>Registering and logging in\<close>

lemma registered_done:
  assumes "run_state (registered L name email password) n = (reply, n')" "index reply ''error'' = err Success"
  obtains uid c where "MysqlDao_RegUser (has_pool L) (gate_ssl L) (gate_salt L) name email password (mysqld n) = (uid, mysqld n')" "0 < uid"
    "index reply ''uid'' = JInt uid" "redisd n' = del (verify_code_key email) (redisd n)"
proof -
  obtain uid n1 where a: "run_state (sql_call (MysqlDao_RegUser (has_pool L) (gate_ssl L) (gate_salt L) name email password)) n = (uid, n1)"
    by (metis surj_pair)
  note m = sql_call_step [OF a]
  have u: "0 < uid" using assms a by (cases "uid = 0"; cases "uid < 0") (auto simp: registered_def)
  with assms(1) a have "run_state (use_up (verify_code_key email)
      (set_members [(''error'', err Success), (''uid'', JInt uid), (''email'', JStr email), (''user'', JStr name)] JNull)) n1 = (reply, n')"
    by (auto simp: registered_def)
  then show thesis
  proof (cases rule: use_up_cases)
    case kept
    then show thesis using assms(2) by simp
  next
    case spent
    then show thesis using that [of uid] m u by (simp add: index_def get_default_def)
  qed
qed

lemma register_done:
  assumes "run_state (user_register L body) n = (Some reply, n')" "index reply ''error'' = err Success"
  obtains request uid where "parse (gate_json L) body = (True, request)" "has_pool L" "0 < uid" "index reply ''uid'' = JInt uid"
    "RegUser (gate_ssl L) (gate_salt L) (text_field request ''user'') (text_field request ''email'') (text_field request ''passwd'') (mysqld n) = (uid, mysqld n')"
    "value_of (redisd n) (verify_code_key (text_field request ''email'')) = Some (text_field request ''verifycode'')"
    "value_of (redisd n') (verify_code_key (text_field request ''email'')) = None"
    "text_field request ''email'' \<noteq> []" "text_field request ''passwd'' \<noteq> []"
    "\<not> fields_too_long (text_field request ''user'') (text_field request ''email'') (text_field request ''passwd'')"
  using assms(1) [unfolded user_register_def]
proof (cases rule: with_fields_cases)
  case (given request)
  let ?email = "text_field request ''email''" and ?name = "text_field request ''user''" and ?password = "text_field request ''passwd''"
  have f: "\<not> fields_too_long ?name ?email ?password" "?password = text_field request ''confirm''"
    using given(3) assms(2) by (auto simp: Let_def split: if_splits)
  with given(3) have "run_state (with_lease L (verify_code_key ?email) (with_code (verify_code_key ?email)
      (text_field request ''verifycode'') (registered L ?name ?email ?password))) n = (reply, n')"
    by (auto simp: Let_def split: prod.splits)
  then show thesis
  proof (cases rule: with_lease_cases)
    case (held n1 n2)
    from held(2) show thesis
    proof (cases rule: with_code_cases)
      case (right n3)
      from registered_done [OF right(4) assms(2)] obtain uid where r:
          "MysqlDao_RegUser (has_pool L) (gate_ssl L) (gate_salt L) ?name ?email ?password (mysqld n3) = (uid, mysqld n2)" "0 < uid"
          "index reply ''uid'' = JInt uid" "redisd n2 = del (verify_code_key ?email) (redisd n3)" by metis
      have p: "has_pool L" using r(1,2) by (auto simp: MysqlDao_RegUser_def split: if_splits)
      show thesis
        by (rule that [OF given(1) p r(2,3)])
          (use r p right held given(2) f same_registration in \<open>auto simp: agree_def\<close>)
    qed (use assms(2) in auto)
  qed (use assms(2) in auto)
qed (use assms(2) in auto)

lemma GetChatServer_quiet:
  assumes "\<forall>e\<in>set nodes. \<not> wrong_type s (health_key (cs_name e))" "healthy J s nodes \<noteq> []" "0 < uid"
  shows "\<exists>reply k'. run_state (GetChatServer J token nodes uid k) ([], s) =
      ((reply, k'), ([], setex (pending_token_key uid token) token PendingTokenSeconds s)) \<and> rp_error reply = Success \<and> rp_token reply = token \<and>
      (\<exists>node\<in>set nodes. rp_host reply = cs_host node \<and> rp_port reply = cs_port node)"
proof -
  obtain e server k1 ds1 s1 where g: "run_state (getChatServer J nodes k) ([], s) = ((e, server, k1), (ds1, s1))" by (metis prod.exhaust)
  have "least_loaded (healthy J s nodes) \<noteq> []" using assms(2) by (simp add: least_loaded_empty)
  then have c: "e = Success" "ds1 = []" "s1 = s" using chosen [OF assms(1), of J k] g by (auto simp: Let_def)
  then obtain node where "node \<in> set nodes" "cs_host server = cs_host node \<and> cs_port server = cs_port node"
    using chosen_node [OF g] by auto
  then show ?thesis using assms(3) g c
    by (auto simp: GetChatServer_def issue_def SetEx_def command_def SET_EX_def IsStatusOk_def PendingTokenSeconds_def)
qed

text \<open>The right password logs in, when the calls go through and a chat node is healthy.\<close>

lemma right_password_logs_in:
  fixes e p :: json
  defines "login_form \<equiv> JObj [(''email'', e), (''passwd'', p)]"
  defines "email \<equiv> text_field login_form ''email''" and "password \<equiv> text_field login_form ''passwd''"
  assumes "parse (gate_json L) body = (True, login_form)" "email \<noteq> []" "password \<noteq> []" "\<not> fields_too_long [] email password"
    and "MysqlDao_CheckPwdByEmail (has_pool L) (gate_ssl L) email password no_user (mysqld n) = ((Match, info), mysqld n)" "0 < ui_uid info"
    and "fates n = []" "call_fates n = []"
    and "\<forall>e\<in>set (chat_nodes L). \<not> wrong_type (redisd n) (health_key (cs_name e))" "healthy (gate_json L) (redisd n) (chat_nodes L) \<noteq> []"
  obtains reply where "run_state (user_login L body) n =
      (Some reply, n\<lparr>redisd := setex (pending_token_key (ui_uid info) (status_token L)) (status_token L) PendingTokenSeconds (redisd n)\<rparr>)"
    "index reply ''error'' = err Success" "index reply ''uid'' = JInt (ui_uid info)" "index reply ''token'' = JStr (status_token L)"
    "\<exists>node\<in>set (chat_nodes L). index reply ''host'' = JStr (cs_host node) \<and> index reply ''port'' = JStr (cs_port node)"
proof -
  let ?uid = "ui_uid info"
  obtain answer k where a: "run_state (GetChatServer (gate_json L) (status_token L) (chat_nodes L) ?uid (status_choice L)) ([], redisd n) =
      ((answer, k), ([], setex (pending_token_key ?uid (status_token L)) (status_token L) PendingTokenSeconds (redisd n)))"
    "rp_error answer = Success" "rp_token answer = status_token L" "\<exists>node\<in>set (chat_nodes L). rp_host answer = cs_host node \<and> rp_port answer = cs_port node"
    using GetChatServer_quiet [OF assms(12,13,9)] by blast
  let ?reply = "set_members [(''error'', err Success), (''user'', JStr (ui_name info)), (''email'', JStr email), (''uid'', JInt ?uid),
      (''token'', JStr (status_token L)), (''host'', JStr (rp_host answer)), (''port'', JStr (rp_port answer))] JNull"
  have present: "fields_present [''email'', ''passwd''] login_form = Some True"
    using assms(5,6) by (cases e; cases p)
      (simp_all add: fields_present_def object_like_def isMember_def text_field_def index_def get_default_def email_def password_def login_form_def)
  have "run_state (StatusGrpcClient_GetChatServer L ?uid) n =
      (answer, n\<lparr>redisd := setex (pending_token_key ?uid (status_token L)) (status_token L) PendingTokenSeconds (redisd n)\<rparr>)"
    using a(1) assms(10,11) by (simp add: StatusGrpcClient_GetChatServer_def next_call_def redis_run_def)
  then have "run_state (user_login L body) n =
      (Some ?reply, n\<lparr>redisd := setex (pending_token_key ?uid (status_token L)) (status_token L) PendingTokenSeconds (redisd n)\<rparr>)"
    using assms(4,7,8) a(2,3)
    by (simp add: user_login_def with_fields_def present sql_call_def AccountCheckError_def Let_def email_def [symmetric] password_def [symmetric])
  then show thesis using that [of ?reply] a(4) by (auto simp: index_def get_default_def)
qed


section \<open>A code works once\<close>

text \<open>
  What a gate process does with requests other than asking for a code, with any faults, what it draws and its configuration
  included, and the passing of time.
\<close>

inductive gate_step :: "node \<Rightarrow> node \<Rightarrow> bool" where
  handled: "run_state (HandleReq L http_verb target body) (n\<lparr>mysqld := (mysqld n)\<lparr>faults := fs\<rparr>, fates := ds, call_fates := cs\<rparr>) = (response, n') \<Longrightarrow>
    http_verb \<noteq> Http_post \<or> target \<noteq> ''/get_verifycode'' \<Longrightarrow> gate_step n n'"
| elapsing: "0 \<le> dt \<Longrightarrow> gate_step n (n\<lparr>redisd := tick dt (redisd n)\<rparr>)"

text \<open>No code appears.\<close>

definition fewer_codes :: "node \<Rightarrow> node \<Rightarrow> bool" where
  "fewer_codes n n' \<longleftrightarrow> (\<forall>e. value_of (redisd n) (verify_code_key e) = None \<longrightarrow> value_of (redisd n') (verify_code_key e) = None)"

lemma fewer_codes_refl [simp]: "fewer_codes n n" "redisd n' = redisd n \<Longrightarrow> fewer_codes n n'"
  by (simp_all add: fewer_codes_def)

lemma fewer_codes_transp: "transp fewer_codes"
  by (auto simp: fewer_codes_def intro: transpI)

named_theorems coding \<open>services that issue no code\<close>

lemmas coding_bind [coding] = io_bind [OF fewer_codes_transp]

lemmas coding_splits [coding] = serves_if serves_option serves_prod serves_let

lemma coding_basic [coding]: "state_io_rel fewer_codes (give x)" "state_io_rel fewer_codes (sql_call g)" "state_io_rel fewer_codes next_call"
  by (auto simp: state_io_rel_def sql_call_def next_call_def split: prod.splits list.splits)

lemma coding_redis:
  assumes "\<And>d s e. value_of s (verify_code_key e) = None \<Longrightarrow> value_of (snd (f d s)) (verify_code_key e) = None"
  shows "state_io_rel fewer_codes (redis_call f)"
proof
  fix a n n'
  assume "run_state (redis_call f) n = (a, n')"
  then obtain d where "f d (redisd n) = (a, redisd n')" by (rule redis_call_step)
  then show "fewer_codes n n'" using assms [of "redisd n" _ d] by (auto simp: fewer_codes_def)
qed

lemma coding_commands [coding]:
  "state_io_rel fewer_codes (redis_call (\<lambda>d. AcquireVerification d (verification_key k) a))"
  "state_io_rel fewer_codes (redis_call (\<lambda>d. ReleaseVerification d (verification_key k) a))"
  "state_io_rel fewer_codes (redis_call (\<lambda>d. Get d k'))" "state_io_rel fewer_codes (redis_call (\<lambda>d. Del d k'))"
proof -
  have "snd (Get d k' s) = s" for d s by (cases d) (simp_all add: Get_def command_def GET_def split_beta Let_def)
  moreover have "value_of s x = None \<Longrightarrow> value_of (snd (Del d k' s)) x = None" for d s x
    by (cases d) (simp_all add: Del_def command_def DEL_def split_beta Let_def)
  ultimately show
    "state_io_rel fewer_codes (redis_call (\<lambda>d. AcquireVerification d (verification_key k) a))"
    "state_io_rel fewer_codes (redis_call (\<lambda>d. ReleaseVerification d (verification_key k) a))"
    "state_io_rel fewer_codes (redis_call (\<lambda>d. Get d k'))" "state_io_rel fewer_codes (redis_call (\<lambda>d. Del d k'))"
    by (auto intro!: coding_redis simp: AcquireVerification_redis [OF surjective_pairing] ReleaseVerification_redis [OF surjective_pairing])
qed

lemma GetChatServer_codes:
  assumes "run_state (GetChatServer J token nodes uid k) (ds, s) = (r, (ds', s'))" "value_of s (verify_code_key e) = None"
  shows "value_of s' (verify_code_key e) = None"
proof (cases "uid \<le> 0")
  case False
  obtain a server k1 ds1 s1 where g: "run_state (getChatServer J nodes k) (ds, s) = ((a, server, k1), (ds1, s1))" by (metis prod.exhaust)
  have s1: "s1 = s" using chosen_node [OF g] by simp
  obtain stored ds2 s2 where w: "run_state (issue (\<lambda>d. SetEx d (pending_token_key uid token) token PendingTokenSeconds)) (ds1, s) = (stored, (ds2, s2))"
    by (metis prod.exhaust)
  have "pending_token_key uid token \<noteq> verify_code_key e" by (rule take2_neq) (simp add: key_prefix verify_code_key_def)
  then have "value_of s2 (verify_code_key e) = None"
    using w assms(2) by (auto simp: issue_def SetEx_def command_def SET_EX_def PendingTokenSeconds_def Let_def split: list.splits delivery.splits prod.splits)
  then show ?thesis using assms g s1 w False by (cases "a = Success") (auto simp: GetChatServer_def Let_def)
qed (use assms in \<open>simp add: GetChatServer_def Let_def\<close>)

lemma coding_GetChatServer [coding]: "state_io_rel fewer_codes (redis_run (GetChatServer J token nodes uid k))"
  using GetChatServer_codes by (fastforce simp: state_io_rel_def redis_run_def fewer_codes_def split: prod.splits)

lemma coding_with_lease [coding]: "state_io_rel fewer_codes m \<Longrightarrow> state_io_rel fewer_codes (with_lease L k m)"
  unfolding with_lease_def by (intro coding)

lemma coding_with_code [coding]: "state_io_rel fewer_codes m \<Longrightarrow> state_io_rel fewer_codes (with_code k c m)"
  unfolding with_code_def by (intro coding)

lemma coding_handlers [coding]:
  "state_io_rel fewer_codes (user_register L body)" "state_io_rel fewer_codes (reset_pwd L body)" "state_io_rel fewer_codes (user_login L body)"
  unfolding user_register_def reset_pwd_def user_login_def with_fields_def registered_def password_reset_def use_up_def StatusGrpcClient_GetChatServer_def
  by (intro coding)+

lemma coding_HandleReq:
  assumes "http_verb \<noteq> Http_post \<or> target \<noteq> ''/get_verifycode''"
  shows "state_io_rel fewer_codes (HandleReq L http_verb target body)"
proof (cases http_verb)
  case Http_post
  then have "state_io_rel fewer_codes (h body)" if "map_of (post_handlers L) target = Some h" for h
    using that assms coding_handlers by (auto simp: post_handlers_def split: if_splits)
  then show ?thesis using Http_post by (auto simp: HandleReq_def HandlePost_def intro!: coding split: option.split)
qed (auto simp: HandleReq_def intro!: coding split: option.split)

lemma gate_step_codes: "gate_step n n' \<Longrightarrow> fewer_codes n n'"
proof (induction rule: gate_step.induct)
  case (handled L http_verb target body n fs ds cs response n')
  then show ?case using coding_HandleReq by (fastforce dest: state_io_relD simp: fewer_codes_def)
next
  case (elapsing dt n)
  then show ?case by (auto simp: fewer_codes_def value_of_def live_def tick_def split: option.splits if_splits)
qed

lemma gate_steps_codes: "gate_step\<^sup>*\<^sup>* n n' \<Longrightarrow> fewer_codes n n'"
  by (induction rule: rtranclp_induct) (use gate_step_codes in \<open>auto simp: fewer_codes_def\<close>)

text \<open>Without a code a form is refused.\<close>

lemma no_code_refused:
  assumes "run_state (with_lease L key (with_code key c scope)) n = (reply, n')" "value_of (redisd n) key = None" "key = verify_code_key e"
  shows "tbl (mysqld n') = tbl (mysqld n) \<and> index reply ''error'' \<in> {err VerifyExpired, err RedisError}"
  using assms(1)
proof (cases rule: with_lease_cases)
  case (held n1 n2)
  from held(2) show ?thesis
  proof (cases rule: with_code_cases)
    case (refused e)
    then show ?thesis using held assms(2,3) by (auto simp: agree_def)
  next
    case (right n3)
    then show ?thesis using held(1) assms(2,3) by (simp add: agree_def)
  qed
qed (auto simp: agree_def)

text \<open>A form with a code, for either purpose.\<close>

definition code_form :: "gate_lib \<Rightarrow> bool \<Rightarrow> string \<Rightarrow> json option svc" where
  "code_form L new_account body = (if new_account then user_register L body else reset_pwd L body)"

lemma code_form_cases:
  assumes "run_state (code_form L new_account body) n = (Some reply, n')"
  obtains (refused) e where "reply = error_reply e" "e \<noteq> Success" "n' = n"
    | (taken) scope where "run_state (with_lease L (verify_code_key (form_email (gate_json L) body)) (with_code (verify_code_key (form_email (gate_json L) body))
        (text_field (snd (parse (gate_json L) body)) ''verifycode'') scope)) n = (reply, n')"
      "\<And>m r m'. run_state scope m = (r, m') \<Longrightarrow> index r ''error'' = err Success \<Longrightarrow> value_of (redisd m') (verify_code_key (form_email (gate_json L) body)) = None"
proof (cases new_account)
  case True
  with assms have "run_state (user_register L body) n = (Some reply, n')" by (simp add: code_form_def)
  from this [unfolded user_register_def] show thesis
  proof (cases rule: with_fields_cases)
    case (given request)
    let ?scope = "registered L (text_field request ''user'') (text_field request ''email'') (text_field request ''passwd'')"
    have s: "value_of (redisd m') (verify_code_key (text_field request ''email'')) = None" if "run_state ?scope m = (r, m')" "index r ''error'' = err Success" for m r m'
      using registered_done [OF that] by (metis value_of_del)
    from given(3) consider e where "reply = error_reply e" "e = Error_Json \<or> e = PasswdErr" "n' = n"
      | "run_state (with_lease L (verify_code_key (text_field request ''email'')) (with_code (verify_code_key (text_field request ''email''))
        (text_field request ''verifycode'') ?scope)) n = (reply, n')"
      by (auto simp: Let_def split: if_splits prod.splits)
    then show thesis
    proof cases
      case 2
      then show thesis using taken [of ?scope] s given(1) by (simp add: form_email_def)
    qed (auto intro: refused)
  qed (auto intro: refused)
next
  case False
  with assms have "run_state (reset_pwd L body) n = (Some reply, n')" by (simp add: code_form_def)
  from this [unfolded reset_pwd_def] show thesis
  proof (cases rule: with_fields_cases)
    case (given request)
    let ?scope = "password_reset L (text_field request ''user'') (text_field request ''email'') (text_field request ''passwd'')"
    have s: "value_of (redisd m') (verify_code_key (text_field request ''email'')) = None" if "run_state ?scope m = (r, m')" "index r ''error'' = err Success" for m r m'
      using reset_steps [OF that] by metis
    from given(3) consider "reply = error_reply Error_Json" "n' = n"
      | "run_state (with_lease L (verify_code_key (text_field request ''email'')) (with_code (verify_code_key (text_field request ''email''))
        (text_field request ''verifycode'') ?scope)) n = (reply, n')"
      by (auto simp: Let_def split: if_splits prod.splits)
    then show thesis
    proof cases
      case 2
      then show thesis using taken [of ?scope] s given(1) by (simp add: form_email_def)
    qed (auto intro: refused)
  qed (auto intro: refused)
qed

lemma code_form_spends:
  assumes "run_state (code_form L new_account body) n = (Some reply, n')" "index reply ''error'' = err Success"
  shows "value_of (redisd n') (verify_code_key (form_email (gate_json L) body)) = None"
  using assms(1)
proof (cases rule: code_form_cases)
  case (taken scope)
  from taken(1) show ?thesis
  proof (cases rule: with_lease_cases)
    case (held n1 n2)
    from held(2) show ?thesis
    proof (cases rule: with_code_cases)
      case (right n3)
      then show ?thesis using taken(2) [OF right(4) assms(2)] held(3) by (simp add: agree_def)
    qed (use assms(2) in auto)
  qed (use assms(2) in auto)
qed (use assms(2) in auto)

text \<open>C33: A verification code works once. After a registration or a reset that reports success, no registration and no reset for the
  same e-mail succeeds or changes a table, on this gate process or any other and whatever was drawn or configured there, until a
  new code is asked for: not after any number of other requests with any faults, and not as time passes.\<close>

theorem codes_work_once:
  assumes "run_state (code_form L new_account body) n0 = (Some success, n)" "index success ''error'' = err Success" "gate_step\<^sup>*\<^sup>* n n'"
    "form_email (gate_json L') body' = form_email (gate_json L) body" "run_state (code_form L' new_account' body') n' = (Some reply, n'')"
  shows "index reply ''error'' \<noteq> err Success \<and> tbl (mysqld n'') = tbl (mysqld n')"
proof -
  have none: "value_of (redisd n') (verify_code_key (form_email (gate_json L') body')) = None"
    using code_form_spends [OF assms(1,2)] gate_steps_codes [OF assms(3)] assms(4) by (simp add: fewer_codes_def)
  from assms(5) show ?thesis
  proof (cases rule: code_form_cases)
    case (taken scope)
    then show ?thesis using no_code_refused [OF taken(1) none refl] by auto
  qed auto
qed

end
