(* ===== verification/GateDemo.thy ===== *)
theory GateDemo
  imports GateFacts
begin

text \<open>
  Ann registers, logs in and resets her password; and a reset with a code for another mailbox that the database's
  collation takes for hers.
\<close>

section \<open>Registering\<close>

definition register_form :: json where
  "register_form = JObj [(''user'', JStr ''ann''), (''email'', JStr ''a''), (''passwd'', JStr ''ann''), (''confirm'', JStr ''ann''), (''verifycode'', JStr ''123'')]"

definition reset_form :: "string \<Rightarrow> json" where
  "reset_form email = JObj [(''user'', JStr ''ann''), (''email'', JStr email), (''passwd'', JStr ''secret''), (''verifycode'', JStr ''456'')]"

definition login_form :: json where
  "login_form = JObj [(''email'', JStr ''a''), (''passwd'', JStr ''ann'')]"

definition demo_gate :: gate_lib where
  "demo_gate = \<lparr>gate_json = health_json\<lparr>parse := (\<lambda>t. if t = ''register'' then (True, register_form) else if t = ''reset'' then (True, reset_form ''a'')
       else if t = ''RESET'' then (True, reset_form ''A'') else if t = ''login'' then (True, login_form) else parse health_json t)\<rparr>,
     gate_ssl = demo_ssl, gate_salt = Some (replicate 16 7), lease_owner = ''o'', has_pool = True, verify_service = (\<lambda>email. give 0),
     chat_nodes = StatusServiceImpl two_nodes, status_choice = 0, status_token = ''t'', map_order = id\<rparr>"

definition with_code_redis :: "string \<Rightarrow> string \<Rightarrow> redis" where
  "with_code_redis email digits = setex (verify_code_key email) digits 180 healthy_redis"

definition gate_node :: "mysql \<Rightarrow> redis \<Rightarrow> node" where
  "gate_node c s = demo_node\<lparr>mysqld := c, redisd := s\<rparr>"

lemma gate_node_parts [simp]: "mysqld (gate_node c s) = c" "redisd (gate_node c s) = s" "fates (gate_node c s) = []" "call_fates (gate_node c s) = []"
  "(gate_node c s)\<lparr>redisd := s'\<rparr> = gate_node c s'" "(gate_node c s)\<lparr>mysqld := c'\<rparr> = gate_node c' s"
  by (simp_all add: gate_node_def demo_node_def)

text \<open>A scope under the lease on a code, without faults.\<close>

lemma quiet_redis_call: "run_state (redis_call f) (gate_node c s) = (case f Delivered s of (x, s') \<Rightarrow> (x, gate_node c s'))"
  by (simp add: redis_call_def next_fate_def split: prod.split)

lemma quiet_sql_call: "run_state (sql_call f) (gate_node c s) = (case f c of (x, c') \<Rightarrow> (x, gate_node c' s))"
  by (simp add: sql_call_def)

lemma quiet_lease:
  assumes "\<not> exists_key s (verification_key key)"
    "run_state scope (gate_node c (setex (verification_key key) (lease_owner L) VerificationSeconds s)) = (reply, gate_node c' s')"
    "value_of s' (verification_key key) = Some (lease_owner L)"
  shows "run_state (with_lease L key scope) (gate_node c s) = (reply, gate_node c' (del (verification_key key) s'))"
proof -
  have w: "\<not> wrong_type s' (verification_key key)" using value_not_wrong [OF assms(3)] .
  show ?thesis
    using assms(1,2,3) w
    by (simp add: with_lease_def quiet_redis_call AcquireVerification_def command_def SET_NX_EX_def IsStatusOk_def ReleaseVerification_def
        release_script_def DEL_def)
qed

lemma quiet_code:
  assumes "value_of s key = Some digits"
  shows "run_state (with_code key digits scope) (gate_node c s) = run_state scope (gate_node c s)"
  using assms value_not_wrong [OF assms] by (simp add: with_code_def quiet_redis_call Get_def command_def GET_def as_string_def)

lemma quiet_use_up: "run_state (use_up key reply) (gate_node c s) = (reply, gate_node c (del key s))"
  by (simp add: use_up_def quiet_redis_call Del_def command_def DEL_def as_integer_def)

definition after_code :: "string \<Rightarrow> redis \<Rightarrow> redis" where
  "after_code email s = del (verification_key (verify_code_key email)) (del (verify_code_key email)
     (setex (verification_key (verify_code_key email)) ''o'' VerificationSeconds s))"

lemma no_lease_yet: "\<not> exists_key (with_code_redis email digits) (verification_key k)"
  by (simp add: exists_key_def with_code_redis_def verify_code_key_def verification_key_def healthy_redis_def health_key_def NodeHealthPrefix_def)

lemma ann_registers:
  "run_state (user_register demo_gate ''register'') (gate_node empty_db (with_code_redis ''a'' ''123'')) =
     (Some (set_members [(''error'', err Success), (''uid'', JInt 1), (''email'', JStr ''a''), (''user'', JStr ''ann'')] JNull),
      gate_node db1 (after_code ''a'' (with_code_redis ''a'' ''123'')))"
proof -
  let ?s = "with_code_redis ''a'' ''123''" and ?k = "verify_code_key ''a''"
  let ?s1 = "setex (verification_key ?k) ''o'' VerificationSeconds ?s"
  have r: "RegUser demo_ssl (Some (replicate 16 7)) ''ann'' ''a'' ''ann'' empty_db = (1, db1)"
    unfolding db1_def
    by (simp add: RegUser_def HashPassword_def demo_ssl_def int_max_def empty_db_def sql_catch_def sql_bind_def insert_user_def
      add_user_row_def duplicate_user_def no_tables_def user_of_def kPasswordIterations_def kPasswordHashSize_def Let_def)
  have c: "value_of ?s1 ?k = Some ''123''" using verification_not_code [symmetric] by (simp add: VerificationSeconds_def with_code_redis_def)
  have "run_state (registered demo_gate ''ann'' ''a'' ''ann'') (gate_node empty_db ?s1) =
      (set_members [(''error'', err Success), (''uid'', JInt 1), (''email'', JStr ''a''), (''user'', JStr ''ann'')] JNull, gate_node db1 (del ?k ?s1))"
    using r by (simp add: registered_def quiet_sql_call quiet_use_up demo_gate_def same_registration)
  then have "run_state (with_lease demo_gate ?k (with_code ?k ''123'' (registered demo_gate ''ann'' ''a'' ''ann''))) (gate_node empty_db ?s) =
      (set_members [(''error'', err Success), (''uid'', JInt 1), (''email'', JStr ''a''), (''user'', JStr ''ann'')] JNull, gate_node db1 (after_code ''a'' ?s))"
    unfolding after_code_def
    by (intro quiet_lease no_lease_yet)
      (use c verification_not_code in \<open>simp_all add: quiet_code demo_gate_def VerificationSeconds_def\<close>)
  moreover have "parse (gate_json demo_gate) ''register'' = (True, register_form)" by (simp add: demo_gate_def)
  moreover have "fields_present [''user'', ''email'', ''passwd'', ''confirm'', ''verifycode''] register_form = Some True"
    by (simp add: fields_present_def register_form_def object_like_def isMember_def index_def get_default_def)
  moreover have "text_field register_form ''user'' = ''ann''" "text_field register_form ''email'' = ''a''" "text_field register_form ''passwd'' = ''ann''"
    "text_field register_form ''confirm'' = ''ann''" "text_field register_form ''verifycode'' = ''123''"
    by (simp_all add: text_field_def register_form_def index_def get_default_def)
  ultimately show ?thesis by (simp add: user_register_def with_fields_def fields_too_long_def Let_def)
qed

section \<open>Logging in\<close>

lemma after_code_values: "value_of (after_code email s) (health_key node) = value_of s (health_key node)"
  by (simp add: after_code_def VerificationSeconds_def verify_code_key_def verification_key_def health_key_def NodeHealthPrefix_def)

lemma with_code_values: "value_of (with_code_redis email digits) (health_key node) = value_of healthy_redis (health_key node)"
  by (simp add: with_code_redis_def verify_code_key_def health_key_def NodeHealthPrefix_def)

lemma demo_reports: "reported_online (gate_json demo_gate) ''aa'' = Some 2" "reported_online (gate_json demo_gate) ''aaaa'' = Some 4"
  using health_reports by (simp_all add: reported_online_def demo_gate_def)

lemma demo_nodes_healthy:
  "healthy (gate_json demo_gate) (after_code ''a'' (with_code_redis ''a'' ''123'')) (chat_nodes demo_gate) =
    [\<lparr>cs_host = ''localhost'', cs_port = ''2'', cs_name = ''ChatServer2'', con_count = 2\<rparr>,
     \<lparr>cs_host = ''localhost'', cs_port = ''1'', cs_name = ''ChatServer1'', con_count = 4\<rparr>]"
  using demo_reports
  by (simp add: healthy_def List.map_filter_simps after_code_values with_code_values health_values) (simp add: demo_gate_def nodes_eq List.map_filter_simps after_code_values with_code_values health_values)


section \<open>Resetting a password\<close>

text \<open>Ann's database under a collation, before and after her password is reset to \<open>secret\<close>.\<close>

definition collated :: "(string \<Rightarrow> string) \<Rightarrow> mysql" where
  "collated w = db1\<lparr>db := (db db1)\<lparr>weight := w\<rparr>\<rparr>"

definition secret_row :: user_row where
  "secret_row = (let (salt, hash) = the (HashPassword demo_ssl (Some (replicate 16 7)) ''secret'') in
     (user_of 1 ''ann'' ''a'')\<lparr>u_hash := hash, u_salt := salt, u_iterations := kPasswordIterations\<rparr>)"

definition reset_done_db :: "(string \<Rightarrow> string) \<Rightarrow> mysql" where
  "reset_done_db w = (collated w)\<lparr>db := (db (collated w))\<lparr>rows := no_tables\<lparr>users_t := [secret_row]\<rparr>\<rparr>\<rparr>"

lemma collated_parts: "faults (collated w) = []" "weight (db (collated w)) = w" "users_t (tbl (collated w)) = [user_of 1 ''ann'' ''a'']"
  "(tbl (collated w))\<lparr>users_t := us\<rparr> = no_tables\<lparr>users_t := us\<rparr>"
  by (simp_all add: collated_def db1_eq empty_db_def no_tables_def)

lemma ann_row: "u_id (user_of 1 ''ann'' ''a'') = 1" "u_username (user_of 1 ''ann'' ''a'') = ''ann''" "u_email (user_of 1 ''ann'' ''a'') = ''a''"
  by (simp_all add: user_of_def)

lemma secret_differs: "secret_row \<noteq> user_of 1 ''ann'' ''a''"
proof -
  have "u_hash secret_row \<noteq> u_hash (user_of 1 ''ann'' ''a'')" by code_simp
  then show ?thesis by auto
qed

lemma ann_found: "w email = w ''a'' \<Longrightarrow> email \<noteq> [] \<Longrightarrow> MysqlDao_CheckEmail True ''ann'' email (collated w) = ((Match, 1), collated w)"
  by (simp add: MysqlDao_CheckEmail_def collated_parts sql_catch_def sql_bind_def sql_return_def account_row_def ann_row)

lemma ann_updated:
  assumes "w email = w ''a''" "email \<noteq> []"
  shows "MysqlDao_UpdatePwd True demo_ssl (Some (replicate 16 7)) 1 email ''secret'' (collated w) = (Updated, reset_done_db w)"
proof -
  obtain salt hash where h: "HashPassword demo_ssl (Some (replicate 16 7)) ''secret'' = Some (salt, hash)"
    by (simp add: HashPassword_def demo_ssl_def int_max_def)
  have r: "set_password_of (db (collated w)) 1 email hash salt (user_of 1 ''ann'' ''a'') = secret_row"
    using assms by (simp add: set_password_of_def collated_parts ann_row secret_row_def h)
  show ?thesis
    using assms secret_differs
    by (simp add: MysqlDao_UpdatePwd_def h update_password_of_def statement_def collated_parts sql_catch_def sql_bind_def sql_return_def r reset_done_db_def Let_def)
qed

lemma ann_resets:
  assumes "w email = w ''a''" "email \<noteq> []" "length email \<le> 255" "parse (gate_json demo_gate) body = (True, reset_form email)"
  shows "run_state (reset_pwd demo_gate body) (gate_node (collated w) (with_code_redis email ''456'')) =
     (Some (set_members [(''error'', err Success), (''email'', JStr email), (''user'', JStr ''ann'')] JNull),
      gate_node (reset_done_db w) (after_code email (with_code_redis email ''456'')))"
proof -
  let ?s = "with_code_redis email ''456''" and ?k = "verify_code_key email"
  let ?s1 = "setex (verification_key ?k) ''o'' VerificationSeconds ?s"
  let ?r = "set_members [(''error'', err Success), (''email'', JStr email), (''user'', JStr ''ann'')] JNull"
  have c: "value_of ?s1 ?k = Some ''456''" using verification_not_code [symmetric] by (simp add: VerificationSeconds_def with_code_redis_def)
  have g: "has_pool demo_gate" "gate_ssl demo_gate = demo_ssl" "gate_salt demo_gate = Some (replicate 16 7)" "lease_owner demo_gate = ''o''"
    by (simp_all add: demo_gate_def)
  have "run_state (password_reset demo_gate ''ann'' email ''secret'') (gate_node (collated w) ?s1) = (?r, gate_node (reset_done_db w) (del ?k ?s1))"
    using ann_found [of w email] ann_updated [of w email] assms(1,2)
    by (simp add: password_reset_def quiet_sql_call quiet_use_up g AccountCheckError_def PasswordUpdateError_def)
  then have "run_state (with_lease demo_gate ?k (with_code ?k ''456'' (password_reset demo_gate ''ann'' email ''secret''))) (gate_node (collated w) ?s) =
      (?r, gate_node (reset_done_db w) (after_code email ?s))"
    unfolding after_code_def
    by (intro quiet_lease no_lease_yet) (use c verification_not_code in \<open>simp_all add: quiet_code g VerificationSeconds_def\<close>)
  moreover have "fields_present [''user'', ''email'', ''passwd'', ''verifycode''] (reset_form email) = Some True"
    using assms(2) by (simp add: fields_present_def reset_form_def object_like_def isMember_def index_def get_default_def)
  moreover have "text_field (reset_form email) ''user'' = ''ann''" "text_field (reset_form email) ''email'' = email"
    "text_field (reset_form email) ''passwd'' = ''secret''" "text_field (reset_form email) ''verifycode'' = ''456''"
    by (simp_all add: text_field_def reset_form_def index_def get_default_def)
  ultimately show ?thesis using assms(3,4) by (simp add: reset_pwd_def with_fields_def fields_too_long_def Let_def)
qed

lemma demo_gate_sound: "sound_openssl (gate_ssl demo_gate)" "\<forall>s. gate_salt demo_gate = Some s \<longrightarrow> length s = kPasswordSaltSize"
  by (simp_all add: demo_gate_def sound_openssl_def demo_ssl_def kPasswordSaltSize_def)

lemma reset_texts: "parse (gate_json demo_gate) ''reset'' = (True, reset_form ''a'')" "parse (gate_json demo_gate) ''RESET'' = (True, reset_form ''A'')"
  by (simp_all add: demo_gate_def)

theorem password_reset_effect_witness:
  "changes_password demo_gate ''ann'' ''a'' ''secret'' (db (collated id)) (tbl (reset_done_db id))"
proof -
  have r: "run_state (reset_pwd demo_gate ''reset'') (gate_node (collated id) (with_code_redis ''a'' ''456'')) =
     (Some (set_members [(''error'', err Success), (''email'', JStr ''a''), (''user'', JStr ''ann'')] JNull),
      gate_node (reset_done_db id) (after_code ''a'' (with_code_redis ''a'' ''456'')))"
    by (rule ann_resets) (simp_all add: reset_texts)
  from password_reset_effect [OF r demo_gate_sound] show ?thesis
    by (simp add: Let_def reset_texts reset_form_def text_field_def index_def get_default_def)
qed

theorem codes_work_once_witness:
  "\<exists>reply n'. run_state (code_form demo_gate False ''reset'') (gate_node (reset_done_db id) (after_code ''a'' (with_code_redis ''a'' ''456''))) = (Some reply, n') \<and>
    index reply ''error'' \<noteq> err Success \<and> tbl (mysqld n') = tbl (reset_done_db id)"
proof -
  let ?n = "gate_node (reset_done_db id) (after_code ''a'' (with_code_redis ''a'' ''456''))"
  have r: "run_state (code_form demo_gate False ''reset'') (gate_node (collated id) (with_code_redis ''a'' ''456'')) =
     (Some (set_members [(''error'', err Success), (''email'', JStr ''a''), (''user'', JStr ''ann'')] JNull), ?n)"
    unfolding code_form_def if_False by (rule ann_resets) (simp_all add: reset_texts)
  obtain answer n' where a: "run_state (code_form demo_gate False ''reset'') ?n = (answer, n')" by (metis surj_pair)
  have "fields_present [''user'', ''email'', ''passwd'', ''verifycode''] (reset_form ''a'') = Some True"
    by (simp add: fields_present_def reset_form_def object_like_def isMember_def index_def get_default_def)
  then have "answer \<noteq> None" using a by (auto simp: code_form_def reset_pwd_def with_fields_def reset_texts Let_def split: prod.splits if_splits)
  then obtain reply where reply: "answer = Some reply" by blast
  from codes_work_once [OF r _ rtranclp.rtrancl_refl refl a [unfolded reply]] a reply show ?thesis
    by (auto simp: index_def get_default_def)
qed

section \<open>A code for another mailbox\<close>

text \<open>
  The schema's collation ignores case and accents, the key of a code does not. So a code that was sent to another address
  that the collation takes for the account's resets the account's password. Here the collation takes \<open>A\<close> for \<open>a\<close>.
\<close>

theorem reset_through_collation:
  "\<exists>w. fst (run_state (reset_pwd demo_gate ''RESET'') (gate_node (collated w) (with_code_redis ''A'' ''456''))) =
      Some (set_members [(''error'', err Success), (''email'', JStr ''A''), (''user'', JStr ''ann'')] JNull) \<and>
    map u_email (users_t (tbl (collated w))) = [''a''] \<and> value_of (with_code_redis ''A'' ''456'') (verify_code_key ''a'') = None \<and>
    tbl (mysqld (snd (run_state (reset_pwd demo_gate ''RESET'') (gate_node (collated w) (with_code_redis ''A'' ''456''))))) = no_tables\<lparr>users_t := [secret_row]\<rparr>"
proof -
  let ?w = "map (\<lambda>c. if c = CHR ''A'' then CHR ''a'' else c)"
  have r: "run_state (reset_pwd demo_gate ''RESET'') (gate_node (collated ?w) (with_code_redis ''A'' ''456'')) =
     (Some (set_members [(''error'', err Success), (''email'', JStr ''A''), (''user'', JStr ''ann'')] JNull),
      gate_node (reset_done_db ?w) (after_code ''A'' (with_code_redis ''A'' ''456'')))"
    by (rule ann_resets) (simp_all add: reset_texts)
  have "value_of (with_code_redis ''A'' ''456'') (verify_code_key ''a'') = None"
    by (simp add: with_code_redis_def verify_code_key_def healthy_redis_def health_key_def NodeHealthPrefix_def)
  then show ?thesis using r by (intro exI [of _ ?w]) (simp add: collated_parts ann_row reset_done_db_def)
qed

end
