(* ===== verification/HttpConnection.thy ===== *)
theory HttpConnection
  imports Gate "HOL-Library.Multiset"
begin

text \<open>
  One connection of the gate server (\<^verbatim>\<open>HttpConnection.cpp\<close>): it reads one request, has the business thread
  answer it, writes the response, waits for the client to finish and closes. The record holds the members of the class and
  what the runtime knows of them: the wait on the deadline, the operations on the socket and the queue of the
  strand, on which everything but \<^verbatim>\<open>HandleReq\<close> runs, one task at a time. Other threads make their calls between tasks.
  The fields from \<open>begun\<close> on record history and are read by no operation, \<open>limits\<close> the deadlines the connection was given. Times are in milliseconds.
\<close>

datatype read_result =
    Request verb string string  \<comment> \<open>a complete request: its verb, target and body\<close>
  | BodyLimit
  | ReadError

datatype http_task =
    StartTask
  | ReadDone read_result "bool option"  \<comment> \<open>with what \<^verbatim>\<open>SubmitRequest\<close> will return, or throw\<close>
  | RespondTask
  | WriteDone bool bool                  \<comment> \<open>whether writing failed, and whether shutting down the sending side will\<close>
  | DrainDone bool nat
  | DeadlineTask                        \<comment> \<open>the wait on the deadline ended without being cancelled\<close>
  | AbortTask
  | QuiesceTask
  | DrainTask int nat

datatype business_state = NoRequest | Submitted | Handling | Answered | Skipped

record http_connection =
  timeout_seconds :: int
  cancelled :: bool
  accepting_requests :: bool
  request_submitted :: bool
  response_started :: bool
  socket_closed :: bool
  drain_handlers :: "nat list"
  drain_remaining :: nat
  http_request :: "(verb \<times> string \<times> string) option"
  http_answer :: "http_response option"
  expiry :: int
  waiting :: bool
  reading :: bool
  writing :: bool
  draining :: bool
  business :: business_state
  quiescing :: nat
  http_strand :: "http_task list"
  begun :: bool
  closings :: nat
  drains_asked :: "nat list"
  drains_done :: "nat list"
  written :: "http_response list"
  drained :: nat
  limits :: "int list"

text \<open>Starting: the deadline of a timer that was never set is the clock's epoch.\<close>

definition HttpConnection :: "int \<Rightarrow> http_connection" where
  "HttpConnection seconds = \<lparr>timeout_seconds = seconds, cancelled = False, accepting_requests = True, request_submitted = False,
     response_started = False, socket_closed = False, drain_handlers = [], drain_remaining = 65536, http_request = None, http_answer = None,
     expiry = 0, waiting = False, reading = False, writing = False, draining = False, business = NoRequest, quiescing = 0,
     http_strand = [], begun = False, closings = 0, drains_asked = [], drains_done = [], written = [], drained = 0, limits = []\<rparr>"

definition RequestTimeoutSeconds :: "nat option \<Rightarrow> int" where
  "RequestTimeoutSeconds setting = (case setting of None \<Rightarrow> 60 | Some seconds \<Rightarrow> if seconds < 1 \<or> seconds > 300 then 60 else int seconds)"

section \<open>Tasks of the strand\<close>

text \<open>
  \<^verbatim>\<open>Close\<close>: cancelling the timer ends its wait, closing the socket makes the operations under way fail; both complete later.
\<close>

definition Http_Close :: "http_connection \<Rightarrow> http_connection" where
  "Http_Close c = (if socket_closed c then c
     else c\<lparr>socket_closed := True, cancelled := True, waiting := False, closings := Suc (closings c),
            drain_handlers := [], drains_done := drains_done c @ drain_handlers c\<rparr>)"

text \<open>Setting the deadline cancels a wait; \<^verbatim>\<open>CheckDeadline\<close> starts one.\<close>

definition expires_at :: "int \<Rightarrow> http_connection \<Rightarrow> http_connection" where
  "expires_at t c = c\<lparr>expiry := t, waiting := False\<rparr>"

definition CheckDeadline :: "http_connection \<Rightarrow> http_connection" where
  "CheckDeadline c = c\<lparr>waiting := True\<rparr>"

definition run_start :: "int \<Rightarrow> http_connection \<Rightarrow> http_connection" where
  "run_start now c = (CheckDeadline (expires_at (now + 1000 * timeout_seconds c) c))
     \<lparr>reading := True, limits := limits c @ [now + 1000 * timeout_seconds c]\<rparr>"

definition WriteResponse :: "http_connection \<Rightarrow> http_connection" where
  "WriteResponse c = (if cancelled c then c
     else c\<lparr>response_started := True, writing := True, written := written c @ (case http_answer c of None \<Rightarrow> [] | Some r \<Rightarrow> [r])\<rparr>)"

definition answer_error :: "nat \<Rightarrow> string \<Rightarrow> http_connection \<Rightarrow> http_connection" where
  "answer_error status message c = WriteResponse (c\<lparr>http_answer := Some (SendError status message)\<rparr>)"

definition run_read :: "read_result \<Rightarrow> bool option \<Rightarrow> http_connection \<Rightarrow> http_connection" where
  "run_read result submit c = (case result of
       BodyLimit \<Rightarrow> answer_error 413 ''request body too large'' c
     | ReadError \<Rightarrow> Http_Close c
     | Request v target body \<Rightarrow>
         if cancelled c then c
         else if \<not> accepting_requests c then Http_Close c
         else let c1 = c\<lparr>http_request := Some (v, target, body)\<rparr> in
           (case submit of None \<Rightarrow> Http_Close c1
            | Some accepted \<Rightarrow> let c2 = c1\<lparr>request_submitted := accepted, business := (if accepted then Submitted else NoRequest)\<rparr> in
                if accepted then c2 else answer_error 503 ''server busy, retry later'' c2))"

definition DrainInput :: "http_connection \<Rightarrow> http_connection" where
  "DrainInput c = c\<lparr>draining := True\<rparr>"

definition FinishResponse :: "int \<Rightarrow> bool \<Rightarrow> http_connection \<Rightarrow> http_connection" where
  "FinishResponse now shutdown_fails c = (let c1 = c\<lparr>cancelled := True\<rparr> in
     if shutdown_fails \<or> socket_closed c then Http_Close c1
     else DrainInput (CheckDeadline (expires_at (min (expiry c) (now + 1000)) c1))\<lparr>limits := limits c @ [now + 1000]\<rparr>)"

definition run_written :: "int \<Rightarrow> bool \<Rightarrow> bool \<Rightarrow> http_connection \<Rightarrow> http_connection" where
  "run_written now failed shutdown_fails c = (if failed then Http_Close c else FinishResponse now shutdown_fails c)"

definition run_drained :: "bool \<Rightarrow> nat \<Rightarrow> http_connection \<Rightarrow> http_connection" where
  "run_drained failed n c = (if failed \<or> drain_remaining c \<le> n then Http_Close c
     else DrainInput (c\<lparr>drain_remaining := drain_remaining c - n\<rparr>))"

definition run_quiesce :: "http_connection \<Rightarrow> http_connection" where
  "run_quiesce c = (if \<not> request_submitted c \<and> \<not> response_started c then Http_Close c else c)"

definition run_http_drain :: "int \<Rightarrow> int \<Rightarrow> nat \<Rightarrow> http_connection \<Rightarrow> http_connection" where
  "run_http_drain now timeout callback c =
     (if socket_closed c then c\<lparr>drains_done := drains_done c @ [callback]\<rparr>
      else let c1 = c\<lparr>drain_handlers := drain_handlers c @ [callback], limits := limits c @ [now + timeout]\<rparr>;
               deadline = now + timeout;
               c2 = (if expiry c1 > deadline then CheckDeadline (expires_at deadline c1) else c1)
           in if \<not> request_submitted c2 \<and> \<not> response_started c2 then Http_Close c2 else c2)"

definition run_http_task :: "int \<Rightarrow> http_task \<Rightarrow> http_connection \<Rightarrow> http_connection" where
  "run_http_task now task c = (case task of
       StartTask \<Rightarrow> run_start now c
     | ReadDone result submit \<Rightarrow> run_read result submit c
     | RespondTask \<Rightarrow> if cancelled c then c else WriteResponse c
     | WriteDone failed shutdown_fails \<Rightarrow> run_written now failed shutdown_fails c
     | DrainDone failed n \<Rightarrow> run_drained failed n c
     | DeadlineTask \<Rightarrow> Http_Close c
     | AbortTask \<Rightarrow> Http_Close c
     | QuiesceTask \<Rightarrow> run_quiesce c
     | DrainTask timeout callback \<Rightarrow> run_http_drain now timeout callback c)"

section \<open>Calls of other threads\<close>

definition Http_Start :: "http_connection \<Rightarrow> http_connection" where
  "Http_Start c = c\<lparr>http_strand := http_strand c @ [StartTask], begun := True\<rparr>"

definition Abort :: "http_connection \<Rightarrow> http_connection" where
  "Abort c = c\<lparr>http_strand := http_strand c @ [AbortTask]\<rparr>"

text \<open>\<^verbatim>\<open>Quiesce\<close> refuses further requests at once and posts its task in a second step.\<close>

definition Quiesce :: "http_connection \<Rightarrow> http_connection" where
  "Quiesce c = c\<lparr>accepting_requests := False, quiescing := Suc (quiescing c)\<rparr>"

definition post_quiesce :: "http_connection \<Rightarrow> http_connection" where
  "post_quiesce c = c\<lparr>quiescing := quiescing c - 1, http_strand := http_strand c @ [QuiesceTask]\<rparr>"

definition Http_DrainAndClose :: "int \<Rightarrow> nat \<Rightarrow> http_connection \<Rightarrow> http_connection" where
  "Http_DrainAndClose timeout callback c = c\<lparr>http_strand := http_strand c @ [DrainTask timeout callback], drains_asked := drains_asked c @ [callback]\<rparr>"

text \<open>
  \<^verbatim>\<open>HandleReq\<close> on the business thread: it looks whether the connection was cancelled, works, and posts the response. What it
  works out is \<^const>\<open>HandleReq\<close>'s result for the request in the state the servers' data have at that time.
\<close>

definition begin_business :: "http_connection \<Rightarrow> http_connection" where
  "begin_business c = c\<lparr>business := (if cancelled c then Skipped else Handling)\<rparr>"

definition end_business :: "http_response \<Rightarrow> http_connection \<Rightarrow> http_connection" where
  "end_business r c = c\<lparr>business := Answered, http_answer := Some r, http_strand := http_strand c @ [RespondTask]\<rparr>"

definition answer_of :: "verb \<times> string \<times> string \<Rightarrow> http_response \<Rightarrow> bool" where
  "answer_of req r \<longleftrightarrow> (\<exists>L n. r = fst (run_state (HandleReq L (fst req) (fst (snd req)) (snd (snd req))) n))"

section \<open>Interleavings\<close>

text \<open>
  What can happen next, with the time. An operation on the socket completes once; a read of the input that is drained
  brings at least a byte and at most what was asked for. The timer's wait ends when the deadline has passed.
\<close>

inductive http_step :: "int \<times> http_connection \<Rightarrow> int \<times> http_connection \<Rightarrow> bool" where
  pass: "0 \<le> dt \<Longrightarrow> http_step (now, c) (now + dt, c)"
| starts: "\<not> begun c \<Longrightarrow> http_step (now, c) (now, Http_Start c)"
| task: "http_strand c = t # ts \<Longrightarrow> http_step (now, c) (now, run_http_task now t (c\<lparr>http_strand := ts\<rparr>))"
| fire: "waiting c \<Longrightarrow> expiry c \<le> now \<Longrightarrow> http_step (now, c) (now, c\<lparr>waiting := False, http_strand := http_strand c @ [DeadlineTask]\<rparr>)"
| read_ends: "reading c \<Longrightarrow> http_step (now, c) (now, c\<lparr>reading := False, http_strand := http_strand c @ [ReadDone result submit]\<rparr>)"
| write_ends: "writing c \<Longrightarrow> http_step (now, c) (now, c\<lparr>writing := False, http_strand := http_strand c @ [WriteDone failed shutdown_fails]\<rparr>)"
| drain_input: "draining c \<Longrightarrow> (if failed then n = 0 else 0 < n \<and> n \<le> min 4096 (drain_remaining c)) \<Longrightarrow>
    http_step (now, c) (now, c\<lparr>draining := False, drained := drained c + n, http_strand := http_strand c @ [DrainDone failed n]\<rparr>)"
| business_starts: "business c = Submitted \<Longrightarrow> http_step (now, c) (now, begin_business c)"
| business_ends: "business c = Handling \<Longrightarrow> http_request c = Some req \<Longrightarrow> answer_of req r \<Longrightarrow> http_step (now, c) (now, end_business r c)"
| aborted: "http_step (now, c) (now, Abort c)"
| quiesced: "http_step (now, c) (now, Quiesce c)"
| quiesce_posted: "0 < quiescing c \<Longrightarrow> http_step (now, c) (now, post_quiesce c)"
| drain_asked: "http_step (now, c) (now, Http_DrainAndClose timeout callback c)"

definition http_init :: "int \<times> http_connection \<Rightarrow> bool" where
  "http_init s \<longleftrightarrow> 0 \<le> fst s \<and> (\<exists>setting. snd s = HttpConnection (RequestTimeoutSeconds setting))"

abbreviation http_reachable :: "int \<times> http_connection \<Rightarrow> bool" where
  "http_reachable \<equiv> reachable http_init http_step"

section \<open>One exchange\<close>

primrec moves :: "http_task \<Rightarrow> bool" where
  "moves StartTask = True"
| "moves (ReadDone r s) = True"
| "moves RespondTask = True"
| "moves (WriteDone f s) = True"
| "moves (DrainDone f n) = True"
| "moves DeadlineTask = False"
| "moves AbortTask = False"
| "moves QuiesceTask = False"
| "moves (DrainTask t h) = False"

text \<open>
  An exchange is in one place at a time: the tasks of the strand that carry it on, the operations on the socket and the business
  thread exclude each other.
\<close>

abbreviation carried :: "http_connection \<Rightarrow> http_task list" where
  "carried c \<equiv> filter moves (http_strand c)"

definition legitimate :: "http_connection \<Rightarrow> http_response \<Rightarrow> bool" where
  "legitimate c r \<longleftrightarrow> request_submitted c \<and> (\<exists>req. http_request c = Some req \<and> answer_of req r) \<or>
     \<not> request_submitted c \<and> r \<in> {SendError 413 ''request body too large'', SendError 503 ''server busy, retry later''}"

definition unread :: "http_connection \<Rightarrow> bool" where
  "unread c \<longleftrightarrow> \<not> request_submitted c \<and> \<not> response_started c \<and> business c = NoRequest \<and> written c = [] \<and> drained c = 0 \<and> drain_remaining c = 65536 \<and>
     \<not> writing c \<and> \<not> draining c \<and>
     (begun c \<and> reading c \<and> carried c = [] \<or> begun c \<and> \<not> reading c \<and> (carried c = [StartTask] \<or> (\<exists>r s. carried c = [ReadDone r s])) \<or>
      \<not> begun c \<and> \<not> reading c \<and> carried c = [])"

definition worked_on :: "http_connection \<Rightarrow> bool" where
  "worked_on c \<longleftrightarrow> begun c \<and> request_submitted c \<and> \<not> response_started c \<and> written c = [] \<and> drained c = 0 \<and> drain_remaining c = 65536 \<and>
     \<not> reading c \<and> \<not> writing c \<and> \<not> draining c \<and>
     (\<exists>req. http_request c = Some req \<and> (business c \<in> {Submitted, Handling} \<and> carried c = [] \<or>
        business c = Answered \<and> carried c = [RespondTask] \<and> (\<exists>r. http_answer c = Some r \<and> answer_of req r)))"

definition answering :: "http_connection \<Rightarrow> bool" where
  "answering c \<longleftrightarrow> begun c \<and> response_started c \<and> \<not> reading c \<and> business c \<notin> {Submitted, Handling} \<and>
     (\<exists>r. written c = [r] \<and> http_answer c = Some r \<and> legitimate c r) \<and> drain_remaining c \<le> 65536 \<and>
     (drained c = 0 \<and> drain_remaining c = 65536 \<and> \<not> draining c \<and> (writing c \<and> carried c = [] \<or> \<not> writing c \<and> (\<exists>f s. carried c = [WriteDone f s])) \<or>
      \<not> writing c \<and> (draining c \<and> carried c = [] \<and> drained c = 65536 - drain_remaining c \<or>
         \<not> draining c \<and> (\<exists>f n. carried c = [DrainDone f n] \<and> n \<le> drain_remaining c \<and> drained c = 65536 - drain_remaining c + n)))"

definition over :: "http_connection \<Rightarrow> bool" where
  "over c \<longleftrightarrow> begun c \<and> socket_closed c \<and> \<not> reading c \<and> \<not> writing c \<and> \<not> draining c \<and> carried c = [] \<and> business c \<notin> {Submitted, Handling} \<and>
     drained c \<le> 65536 \<and> (response_started c \<and> (\<exists>r. written c = [r] \<and> legitimate c r) \<or> \<not> response_started c \<and> written c = [])"

definition exchange_inv :: "http_connection \<Rightarrow> bool" where
  "exchange_inv c \<longleftrightarrow> (unread c \<or> worked_on c \<or> answering c \<or> over c) \<and> (cancelled c \<and> \<not> socket_closed c \<longrightarrow> response_started c)"

primrec drain_callbacks :: "http_task \<Rightarrow> nat list" where
  "drain_callbacks StartTask = []"
| "drain_callbacks (ReadDone r s) = []"
| "drain_callbacks RespondTask = []"
| "drain_callbacks (WriteDone f s) = []"
| "drain_callbacks (DrainDone f n) = []"
| "drain_callbacks DeadlineTask = []"
| "drain_callbacks AbortTask = []"
| "drain_callbacks QuiesceTask = []"
| "drain_callbacks (DrainTask t h) = [h]"

definition closing_inv :: "http_connection \<Rightarrow> bool" where
  "closing_inv c \<longleftrightarrow> closings c = (if socket_closed c then 1 else 0) \<and> (socket_closed c \<longrightarrow> cancelled c \<and> drain_handlers c = []) \<and>
     (drains_done c \<noteq> [] \<longrightarrow> socket_closed c) \<and>
     mset (drains_asked c) = mset (drains_done c) + mset (drain_handlers c) + mset (concat (map drain_callbacks (http_strand c)))"

definition deadline_inv :: "http_connection \<Rightarrow> bool" where
  "deadline_inv c \<longleftrightarrow> \<not> socket_closed c \<longrightarrow> (limits c = [] \<longleftrightarrow> \<not> begun c \<or> StartTask \<in> set (http_strand c)) \<and>
     (limits c \<noteq> [] \<longrightarrow> waiting c \<or> DeadlineTask \<in> set (http_strand c)) \<and> (\<forall>d\<in>set (limits c). expiry c \<le> d)"

definition http_inv :: "int \<times> http_connection \<Rightarrow> bool" where
  "http_inv s \<longleftrightarrow> exchange_inv (snd s) \<and> closing_inv (snd s) \<and> deadline_inv (snd s)"

lemma inv_HttpConnection: "exchange_inv (HttpConnection s) \<and> closing_inv (HttpConnection s) \<and> deadline_inv (HttpConnection s)"
  by (simp add: HttpConnection_def exchange_inv_def unread_def closing_inv_def deadline_inv_def)


text \<open>What the stages do not look at.\<close>

lemma stage_frame [simp]:
  "unread (c\<lparr>drain_handlers := h\<rparr>) = unread c" "worked_on (c\<lparr>drain_handlers := h\<rparr>) = worked_on c" "answering (c\<lparr>drain_handlers := h\<rparr>) = answering c" "over (c\<lparr>drain_handlers := h\<rparr>) = over c"
  "unread (c\<lparr>drains_done := h\<rparr>) = unread c" "worked_on (c\<lparr>drains_done := h\<rparr>) = worked_on c" "answering (c\<lparr>drains_done := h\<rparr>) = answering c" "over (c\<lparr>drains_done := h\<rparr>) = over c"
  "unread (c\<lparr>drains_asked := h\<rparr>) = unread c" "worked_on (c\<lparr>drains_asked := h\<rparr>) = worked_on c" "answering (c\<lparr>drains_asked := h\<rparr>) = answering c" "over (c\<lparr>drains_asked := h\<rparr>) = over c"
  "unread (c\<lparr>limits := l\<rparr>) = unread c" "worked_on (c\<lparr>limits := l\<rparr>) = worked_on c" "answering (c\<lparr>limits := l\<rparr>) = answering c" "over (c\<lparr>limits := l\<rparr>) = over c"
  "unread (c\<lparr>expiry := e\<rparr>) = unread c" "worked_on (c\<lparr>expiry := e\<rparr>) = worked_on c" "answering (c\<lparr>expiry := e\<rparr>) = answering c" "over (c\<lparr>expiry := e\<rparr>) = over c"
  "unread (c\<lparr>waiting := w\<rparr>) = unread c" "worked_on (c\<lparr>waiting := w\<rparr>) = worked_on c" "answering (c\<lparr>waiting := w\<rparr>) = answering c" "over (c\<lparr>waiting := w\<rparr>) = over c"
  "unread (c\<lparr>closings := n\<rparr>) = unread c" "worked_on (c\<lparr>closings := n\<rparr>) = worked_on c" "answering (c\<lparr>closings := n\<rparr>) = answering c" "over (c\<lparr>closings := n\<rparr>) = over c"
  "unread (c\<lparr>cancelled := b\<rparr>) = unread c" "worked_on (c\<lparr>cancelled := b\<rparr>) = worked_on c" "answering (c\<lparr>cancelled := b\<rparr>) = answering c" "over (c\<lparr>cancelled := b\<rparr>) = over c"
  "unread (c\<lparr>accepting_requests := b\<rparr>) = unread c" "worked_on (c\<lparr>accepting_requests := b\<rparr>) = worked_on c" "answering (c\<lparr>accepting_requests := b\<rparr>) = answering c" "over (c\<lparr>accepting_requests := b\<rparr>) = over c"
  "unread (c\<lparr>quiescing := n\<rparr>) = unread c" "worked_on (c\<lparr>quiescing := n\<rparr>) = worked_on c" "answering (c\<lparr>quiescing := n\<rparr>) = answering c" "over (c\<lparr>quiescing := n\<rparr>) = over c"
  "unread (c\<lparr>socket_closed := b\<rparr>) = unread c" "worked_on (c\<lparr>socket_closed := b\<rparr>) = worked_on c" "answering (c\<lparr>socket_closed := b\<rparr>) = answering c"
  by (simp_all add: unread_def worked_on_def answering_def over_def legitimate_def)

lemma strand_frame:
  "filter moves ts = carried c \<Longrightarrow> unread (c\<lparr>http_strand := ts\<rparr>) = unread c"
  "filter moves ts = carried c \<Longrightarrow> worked_on (c\<lparr>http_strand := ts\<rparr>) = worked_on c"
  "filter moves ts = carried c \<Longrightarrow> answering (c\<lparr>http_strand := ts\<rparr>) = answering c"
  "filter moves ts = carried c \<Longrightarrow> over (c\<lparr>http_strand := ts\<rparr>) = over c"
  by (simp_all add: unread_def worked_on_def answering_def over_def legitimate_def)

lemma exchange_Close [intro]: "exchange_inv c \<Longrightarrow> exchange_inv (Http_Close c)"
  by (cases "socket_closed c") (auto simp: Http_Close_def exchange_inv_def over_def)

text \<open>Closing ends an exchange of which nothing is under way.\<close>

definition at_rest :: "http_connection \<Rightarrow> bool" where
  "at_rest c \<longleftrightarrow> begun c \<and> \<not> reading c \<and> \<not> writing c \<and> \<not> draining c \<and> carried c = [] \<and> business c \<notin> {Submitted, Handling} \<and>
     drained c \<le> 65536 \<and> (response_started c \<and> (\<exists>r. written c = [r] \<and> legitimate c r) \<or> \<not> response_started c \<and> written c = [])"

lemma over_rest: "over c \<longleftrightarrow> at_rest c \<and> socket_closed c"
  by (auto simp: over_def at_rest_def)

lemma rest_Close: "at_rest c \<Longrightarrow> exchange_inv (Http_Close c)"
  by (auto simp: Http_Close_def exchange_inv_def over_def at_rest_def legitimate_def)

lemma closed_rest: "at_rest c \<Longrightarrow> socket_closed c \<Longrightarrow> exchange_inv c"
  by (simp add: exchange_inv_def over_rest)

text \<open>Where the exchange is when a task that carries it on is next on the strand.\<close>

lemma at_start:
  "exchange_inv c \<Longrightarrow> http_strand c = StartTask # ts \<Longrightarrow> unread c \<and> begun c \<and> \<not> reading c \<and> filter moves ts = []"
  by (simp add: exchange_inv_def unread_def worked_on_def answering_def over_def)

lemma at_read:
  "exchange_inv c \<Longrightarrow> http_strand c = ReadDone r s # ts \<Longrightarrow> unread c \<and> begun c \<and> \<not> reading c \<and> filter moves ts = []"
  by (simp add: exchange_inv_def unread_def worked_on_def answering_def over_def)

lemma at_respond:
  "exchange_inv c \<Longrightarrow> http_strand c = RespondTask # ts \<Longrightarrow> worked_on c \<and> business c = Answered \<and> filter moves ts = [] \<and>
    (\<exists>req r. http_request c = Some req \<and> http_answer c = Some r \<and> answer_of req r)"
  by (simp add: exchange_inv_def unread_def worked_on_def answering_def over_def) blast

lemma at_written:
  "exchange_inv c \<Longrightarrow> http_strand c = WriteDone f s # ts \<Longrightarrow> answering c \<and> \<not> writing c \<and> \<not> draining c \<and> filter moves ts = [] \<and>
    drained c = 0 \<and> drain_remaining c = 65536"
  by (simp add: exchange_inv_def unread_def worked_on_def answering_def over_def)

lemma at_drained:
  "exchange_inv c \<Longrightarrow> http_strand c = DrainDone f n # ts \<Longrightarrow> answering c \<and> \<not> writing c \<and> \<not> draining c \<and> filter moves ts = [] \<and>
    n \<le> drain_remaining c \<and> drained c = 65536 - drain_remaining c + n"
  by (simp add: exchange_inv_def unread_def worked_on_def answering_def over_def)

lemma cancelled_unanswered: "exchange_inv c \<Longrightarrow> \<not> response_started c \<Longrightarrow> cancelled c \<Longrightarrow> socket_closed c"
  by (simp add: exchange_inv_def)

lemma exchange_start:
  assumes "exchange_inv c" "http_strand c = StartTask # ts"
  shows "exchange_inv (run_start now (c\<lparr>http_strand := ts\<rparr>))"
  using at_start [OF assms] assms(1)
  by (simp add: exchange_inv_def run_start_def CheckDeadline_def expires_at_def unread_def [of "c\<lparr>expiry := e, waiting := w, reading := r, limits := l, http_strand := s\<rparr>" for e w r l s]
    unread_def)

lemma exchange_error:
  assumes "at_rest c" "\<not> response_started c" "cancelled c \<Longrightarrow> socket_closed c" "drained c = 0" "drain_remaining c = 65536" "\<not> request_submitted c"
    "SendError status message \<in> {SendError 413 ''request body too large'', SendError 503 ''server busy, retry later''}"
  shows "exchange_inv (answer_error status message c)"
proof (cases "cancelled c")
  case True
  with assms show ?thesis by (intro closed_rest) (simp_all add: answer_error_def WriteResponse_def at_rest_def legitimate_def)
next
  case False
  with assms have "answering (answer_error status message c)"
    by (simp add: answer_error_def WriteResponse_def at_rest_def answering_def legitimate_def)
  with False show ?thesis by (simp add: exchange_inv_def) (simp add: answer_error_def WriteResponse_def)
qed

lemma exchange_read:
  assumes "exchange_inv c" "http_strand c = ReadDone r s # ts"
  shows "exchange_inv (run_read r s (c\<lparr>http_strand := ts\<rparr>))"
proof -
  note u = at_read [OF assms]
  note closed = cancelled_unanswered [OF assms(1)]
  have f: "\<not> response_started c" "\<not> request_submitted c" "drained c = 0" "drain_remaining c = 65536" "business c = NoRequest" "written c = []" "\<not> writing c" "\<not> draining c"
    using u by (simp_all add: unread_def)
  have rest: "at_rest (c\<lparr>http_strand := ts\<rparr>)" "at_rest (c\<lparr>http_strand := ts, http_request := q\<rparr>)"
      "at_rest (c\<lparr>http_strand := ts, http_request := q, request_submitted := False, business := NoRequest\<rparr>)" for q
    using u f by (simp_all add: at_rest_def)
  show ?thesis
  proof (cases r)
    case (Request v target body)
    have "worked_on (c\<lparr>http_strand := ts, http_request := Some (v, target, body), request_submitted := True, business := Submitted\<rparr>)"
      using u f by (simp add: worked_on_def)
    then have "exchange_inv (c\<lparr>http_strand := ts, http_request := Some (v, target, body), request_submitted := True, business := Submitted\<rparr>)"
      if "\<not> cancelled c" using that by (simp add: exchange_inv_def)
    then show ?thesis
      using Request rest rest_Close [OF rest(1)] rest_Close [OF rest(2)] closed_rest [OF rest(1)] closed f
        exchange_error [OF rest(3), of "Some (v, target, body)"]
      by (auto simp: run_read_def Let_def split: option.split)
  next
    case BodyLimit
    then show ?thesis using exchange_error [OF rest(1)] closed f by (simp add: run_read_def)
  next
    case ReadError
    then show ?thesis using rest_Close [OF rest(1)] by (simp add: run_read_def)
  qed
qed

lemma exchange_respond:
  assumes "exchange_inv c" "http_strand c = RespondTask # ts"
  shows "exchange_inv (if cancelled c then c\<lparr>http_strand := ts\<rparr> else WriteResponse (c\<lparr>http_strand := ts\<rparr>))"
proof (cases "cancelled c")
  case True
  then show ?thesis using at_respond [OF assms] cancelled_unanswered [OF assms(1)]
    by (simp add: worked_on_def) (intro closed_rest; simp add: at_rest_def)
next
  case False
  have "answering (WriteResponse (c\<lparr>http_strand := ts\<rparr>))"
    using at_respond [OF assms] False by (auto simp: worked_on_def answering_def WriteResponse_def legitimate_def)
  with False show ?thesis by (simp add: exchange_inv_def) (simp add: WriteResponse_def)
qed

lemma answering_rest:
  assumes "answering c" "\<not> writing c" "\<not> draining c" "filter moves ts = []" "drained c \<le> 65536"
  shows "at_rest (c\<lparr>http_strand := ts\<rparr>)"
  using assms by (auto simp: answering_def at_rest_def legitimate_def)

lemma exchange_written:
  assumes "exchange_inv c" "http_strand c = WriteDone f s # ts"
  shows "exchange_inv (run_written now f s (c\<lparr>http_strand := ts\<rparr>))"
proof -
  note a = at_written [OF assms]
  have "at_rest (c\<lparr>http_strand := ts\<rparr>)" using a by (intro answering_rest) simp_all
  then have rest: "at_rest (c\<lparr>http_strand := ts\<rparr>)" "at_rest (c\<lparr>http_strand := ts, cancelled := True\<rparr>)"
    by (simp_all add: at_rest_def legitimate_def)
  have "answering (c\<lparr>http_strand := ts, cancelled := True, expiry := e, waiting := True, draining := True, limits := l\<rparr>)" for e l
    using a by (auto simp: answering_def legitimate_def)
  moreover have "response_started c" using a by (simp add: answering_def)
  ultimately have "exchange_inv (c\<lparr>http_strand := ts, cancelled := True, expiry := e, waiting := True, draining := True, limits := l\<rparr>)" for e l
    by (simp add: exchange_inv_def)
  then show ?thesis using rest rest_Close
    by (simp add: run_written_def FinishResponse_def DrainInput_def CheckDeadline_def expires_at_def Let_def)
qed

lemma exchange_drained:
  assumes "exchange_inv c" "http_strand c = DrainDone f n # ts"
  shows "exchange_inv (run_drained f n (c\<lparr>http_strand := ts\<rparr>))"
proof -
  note a = at_drained [OF assms]
  have le: "drain_remaining c \<le> 65536" "response_started c" using a by (simp_all add: answering_def)
  then have rest: "at_rest (c\<lparr>http_strand := ts\<rparr>)" using a by (intro answering_rest) auto
  have "answering (c\<lparr>http_strand := ts, drain_remaining := drain_remaining c - n, draining := True\<rparr>)"
    using a le by (auto simp: answering_def legitimate_def)
  then have "exchange_inv (c\<lparr>http_strand := ts, drain_remaining := drain_remaining c - n, draining := True\<rparr>)"
    using le by (simp add: exchange_inv_def)
  then show ?thesis using rest_Close [OF rest] by (simp add: run_drained_def DrainInput_def)
qed

lemma exchange_idle: "exchange_inv c \<Longrightarrow> http_strand c = t # ts \<Longrightarrow> \<not> moves t \<Longrightarrow> exchange_inv (c\<lparr>http_strand := ts\<rparr>)"
  by (simp add: exchange_inv_def strand_frame)

lemma exchange_drain: "exchange_inv c \<Longrightarrow> exchange_inv (run_http_drain now t h c)"
proof -
  assume c: "exchange_inv c"
  then have "exchange_inv (c\<lparr>drains_done := drains_done c @ [h]\<rparr>)"
      "exchange_inv (c\<lparr>drain_handlers := hs, limits := ls\<rparr>)" "exchange_inv (c\<lparr>drain_handlers := hs, limits := ls, expiry := e, waiting := w\<rparr>)" for hs ls e w
    by (simp_all add: exchange_inv_def)
  then show ?thesis by (auto simp: run_http_drain_def Let_def CheckDeadline_def expires_at_def)
qed

lemma exchange_task: "exchange_inv c \<Longrightarrow> http_strand c = t # ts \<Longrightarrow> exchange_inv (run_http_task now t (c\<lparr>http_strand := ts\<rparr>))"
  using exchange_idle [of c t ts]
  by (cases t) (auto simp: run_http_task_def run_quiesce_def exchange_start exchange_read exchange_written exchange_drained
    intro: exchange_drain dest: exchange_respond)

lemma exchange_step: "http_step s s' \<Longrightarrow> exchange_inv (snd s) \<Longrightarrow> exchange_inv (snd s')"
proof (induction rule: http_step.induct)
  case (task c t ts now)
  then show ?case by (simp add: exchange_task)
next
  case (starts c now)
  then have "unread (Http_Start c)" by (simp add: exchange_inv_def unread_def worked_on_def answering_def over_def Http_Start_def)
  with starts show ?case by (simp add: exchange_inv_def) (simp add: Http_Start_def)
next
  case (read_ends c now r s)
  then have "unread (c\<lparr>reading := False, http_strand := http_strand c @ [ReadDone r s]\<rparr>)"
    by (simp add: exchange_inv_def unread_def worked_on_def answering_def over_def)
  with read_ends show ?case by (simp add: exchange_inv_def)
next
  case (write_ends c now f s)
  then have "answering (c\<lparr>writing := False, http_strand := http_strand c @ [WriteDone f s]\<rparr>)"
    by (simp add: exchange_inv_def unread_def worked_on_def answering_def over_def legitimate_def)
  with write_ends show ?case by (simp add: exchange_inv_def)
next
  case (drain_input c f n now)
  then have "answering (c\<lparr>draining := False, drained := drained c + n, http_strand := http_strand c @ [DrainDone f n]\<rparr>)"
    by (auto simp add: exchange_inv_def unread_def worked_on_def answering_def over_def legitimate_def split: if_splits)
  with drain_input show ?case by (simp add: exchange_inv_def)
next
  case (business_starts c now)
  then have w: "worked_on c" by (simp add: exchange_inv_def unread_def worked_on_def answering_def over_def)
  then have "worked_on (c\<lparr>business := Handling\<rparr>)" "at_rest (c\<lparr>business := Skipped\<rparr>)" "\<not> response_started c"
    using business_starts by (simp_all add: worked_on_def at_rest_def)
  then show ?case using business_starts closed_rest [of "c\<lparr>business := Skipped\<rparr>"] by (auto simp: begin_business_def exchange_inv_def)
next
  case (business_ends c req r now)
  then have "worked_on (end_business r c)" by (auto simp: exchange_inv_def unread_def worked_on_def answering_def over_def end_business_def)
  with business_ends show ?case by (simp add: exchange_inv_def) (simp add: end_business_def)
qed (simp_all add: exchange_inv_def Abort_def Quiesce_def post_quiesce_def Http_DrainAndClose_def strand_frame)

section \<open>Closing\<close>

lemmas task_defs = run_http_task_def run_start_def run_read_def answer_error_def WriteResponse_def run_written_def FinishResponse_def
  run_drained_def DrainInput_def run_quiesce_def run_http_drain_def CheckDeadline_def expires_at_def

lemma closing_task: "closing_inv c \<Longrightarrow> http_strand c = t # ts \<Longrightarrow> closing_inv (run_http_task now t (c\<lparr>http_strand := ts\<rparr>))"
  by (cases t) (auto simp: closing_inv_def task_defs Http_Close_def Let_def split: read_result.splits option.splits)

lemma closing_step: "http_step s s' \<Longrightarrow> closing_inv (snd s) \<Longrightarrow> closing_inv (snd s')"
proof (induction rule: http_step.induct)
  case (task c t ts now)
  then show ?case by (simp add: closing_task)
qed (auto simp: closing_inv_def Http_Start_def begin_business_def end_business_def Abort_def Quiesce_def post_quiesce_def Http_DrainAndClose_def)

section \<open>Deadlines\<close>

lemma no_start: "filter moves ts = [] \<Longrightarrow> StartTask \<notin> set ts"
  by (auto simp: filter_empty_conv)

lemma started_stage:
  assumes "exchange_inv c" "http_strand c = t # ts" "moves t"
  shows "begun c \<and> StartTask \<notin> set ts"
proof -
  have "begun c \<and> filter moves ts = []"
    using assms at_start [OF assms(1)] at_read [OF assms(1)] at_respond [OF assms(1)] at_written [OF assms(1)] at_drained [OF assms(1)]
    by (cases t) (auto simp: worked_on_def answering_def)
  then show ?thesis using no_start by blast
qed

lemma unstarted_stage:
  assumes "exchange_inv c" "\<not> begun c \<or> StartTask \<in> set (http_strand c)"
  shows "\<not> request_submitted c \<and> \<not> response_started c"
proof -
  have "\<not> begun c \<or> StartTask \<in> set (carried c)" using assms(2) by simp
  then show ?thesis using assms(1) by (auto simp: exchange_inv_def unread_def worked_on_def answering_def over_def simp del: set_filter)
qed

lemma deadline_Close: "deadline_inv (Http_Close c)" if "deadline_inv c"
  using that by (simp add: deadline_inv_def Http_Close_def)

lemma closed_deadline: "socket_closed c \<Longrightarrow> deadline_inv c"
  by (simp add: deadline_inv_def)

lemma Close_closed [simp]: "socket_closed (Http_Close c)"
  by (simp add: Http_Close_def)

lemma deadline_task:
  assumes "exchange_inv c" "deadline_inv c" "http_strand c = t # ts"
  shows "deadline_inv (run_http_task now t (c\<lparr>http_strand := ts\<rparr>))"
proof (cases t)
  case (DrainTask t h)
  then show ?thesis using assms unstarted_stage [OF assms(1)] by (auto simp: deadline_inv_def task_defs Let_def)
qed (use assms started_stage [OF assms(1,3)] in \<open>auto simp: deadline_inv_def task_defs Let_def closed_deadline split: read_result.splits option.splits\<close>)

lemma deadline_step: "http_step s s' \<Longrightarrow> exchange_inv (snd s) \<Longrightarrow> deadline_inv (snd s) \<Longrightarrow> deadline_inv (snd s')"
proof (induction rule: http_step.induct)
  case (task c t ts now)
  then show ?case by (simp add: deadline_task)
qed (auto simp: deadline_inv_def Http_Start_def begin_business_def end_business_def Abort_def Quiesce_def post_quiesce_def Http_DrainAndClose_def)

interpretation http: invariant_system http_init http_step http_inv
proof
  show "http_inv s" if "http_init s" for s
    using that inv_HttpConnection by (auto simp: http_init_def http_inv_def)
  show "http_inv s'" if "http_step s s'" "http_inv s" for s s'
    using that exchange_step closing_step deadline_step by (simp add: http_inv_def)
qed

section \<open>When the deadline has passed\<close>

text \<open>The runtime left alone: a due timer fires and the tasks of the strand run.\<close>

definition fire_timer :: "int \<Rightarrow> http_connection \<Rightarrow> http_connection" where
  "fire_timer now c = (if waiting c \<and> expiry c \<le> now then c\<lparr>waiting := False, http_strand := http_strand c @ [DeadlineTask]\<rparr> else c)"

fun run_http_tasks :: "int \<Rightarrow> nat \<Rightarrow> http_connection \<Rightarrow> http_connection" where
  "run_http_tasks now 0 c = c"
| "run_http_tasks now (Suc n) c =
     (case http_strand c of [] \<Rightarrow> c | t # ts \<Rightarrow> run_http_tasks now n (run_http_task now t (c\<lparr>http_strand := ts\<rparr>)))"

definition let_run :: "int \<Rightarrow> http_connection \<Rightarrow> http_connection" where
  "let_run now c = (let c1 = fire_timer now c in run_http_tasks now (length (http_strand c1)) c1)"

lemma task_strand [simp]: "http_strand (run_http_task now t c) = http_strand c"
  by (cases t) (auto simp: task_defs Http_Close_def Let_def split: read_result.split option.split)

lemma task_closed: "socket_closed c \<Longrightarrow> socket_closed (run_http_task now t c)"
  by (cases t) (auto simp: task_defs Http_Close_def Let_def split: read_result.split option.split)

lemma task_asked [simp]: "drains_asked (run_http_task now t c) = drains_asked c"
  by (cases t) (auto simp: task_defs Http_Close_def Let_def split: read_result.split option.split)

lemma run_tasks_closed: "socket_closed c \<Longrightarrow> socket_closed (run_http_tasks now n c)"
  by (induction n arbitrary: c) (auto simp: task_closed split: list.split)

lemma run_tasks_strand: "length (http_strand c) = n \<Longrightarrow> http_strand (run_http_tasks now n c) = []"
  by (induction n arbitrary: c) (auto split: list.split)

lemma run_tasks_asked [simp]: "drains_asked (run_http_tasks now n c) = drains_asked c"
  by (induction n arbitrary: c) (auto split: list.split)

lemma run_tasks_deadline: "DeadlineTask \<in> set (take n (http_strand c)) \<Longrightarrow> socket_closed (run_http_tasks now n c)"
proof (induction n arbitrary: c)
  case (Suc n)
  then obtain t ts where t: "http_strand c = t # ts" by (cases "http_strand c") auto
  show ?case
  proof (cases "t = DeadlineTask")
    case True
    then show ?thesis using t by (simp add: run_http_task_def run_tasks_closed)
  next
    case False
    then show ?thesis using t Suc by simp
  qed
qed simp

lemma run_tasks_closing: "closing_inv c \<Longrightarrow> closing_inv (run_http_tasks now n c)"
  by (induction n arbitrary: c) (auto simp: closing_task split: list.split)

section \<open>Properties of a connection\<close>

text \<open>C35: One request, one answer. Under every interleaving of the strand, the business thread, the timer and the server's
  calls, a connection hands at most one response to its socket: the page that refuses an oversized request or a full queue, or what
  \<^verbatim>\<open>HandleReq\<close> made of this connection's own request. While the business thread has the request nobody reads, writes
  or replaces the response; it starts only for a connection that was not cancelled. At most 64 KiB of further input
  are read, and when nothing is under way any more the socket is closed.\<close>

theorem one_request_one_answer:
  assumes "http_reachable (now, c)"
  shows "length (written c) \<le> 1 \<and> drained c \<le> 65536 \<and>
    (\<forall>r\<in>set (written c). (\<not> request_submitted c \<and> r \<in> {SendError 413 ''request body too large'', SendError 503 ''server busy, retry later''}) \<or>
       (\<exists>L n v target body. request_submitted c \<and> http_request c = Some (v, target, body) \<and> r = fst (run_state (HandleReq L v target body) n))) \<and>
    (business c \<in> {Submitted, Handling} \<longrightarrow> written c = [] \<and> \<not> reading c \<and> \<not> writing c \<and> \<not> draining c) \<and>
    (\<forall>now' c'. http_step (now, c) (now', c') \<and> business c' = Handling \<longrightarrow>
       http_answer c' = http_answer c \<and> (business c \<noteq> Handling \<longrightarrow> \<not> cancelled c \<and> \<not> socket_closed c)) \<and>
    (begun c \<and> http_strand c = [] \<and> \<not> reading c \<and> \<not> writing c \<and> \<not> draining c \<and> business c \<notin> {Submitted, Handling} \<longrightarrow> socket_closed c)"
proof -
  have inv: "exchange_inv c" "closing_inv c" using http.reachable_inv [OF assms] by (simp_all add: http_inv_def)
  have w: "length (written c) \<le> 1" "drained c \<le> 65536" "\<forall>r\<in>set (written c). legitimate c r"
    "business c \<in> {Submitted, Handling} \<Longrightarrow> worked_on c \<and> carried c = []"
    "begun c \<and> http_strand c = [] \<and> \<not> reading c \<and> \<not> writing c \<and> \<not> draining c \<and> business c \<notin> {Submitted, Handling} \<Longrightarrow> socket_closed c"
    using inv(1) by (auto simp: exchange_inv_def unread_def worked_on_def answering_def over_def)
  have "http_answer c' = http_answer c \<and> (business c \<noteq> Handling \<longrightarrow> \<not> cancelled c \<and> \<not> socket_closed c)"
    if s: "http_step (now, c) (now', c')" "business c' = Handling" for now' c'
    using s(1)
  proof cases
    case (task t ts)
    have b: "business c = Handling"
      using s(2) task by (cases t) (auto simp: task_defs Http_Close_def Let_def split: read_result.splits option.splits if_splits)
    then have "\<not> moves t" using w(4) task by auto
    then show ?thesis using b task by (cases t) (auto simp: task_defs Http_Close_def Let_def)
  next
    case business_starts
    then show ?thesis using s(2) inv(2) by (auto simp: begin_business_def closing_inv_def split: if_splits)
  next
    case business_ends
    then show ?thesis using s(2) by (simp add: end_business_def)
  qed (use s(2) in \<open>auto simp: Http_Start_def Abort_def Quiesce_def post_quiesce_def Http_DrainAndClose_def\<close>)
  moreover have "worked_on c \<Longrightarrow> written c = [] \<and> \<not> reading c \<and> \<not> writing c \<and> \<not> draining c" by (simp add: worked_on_def)
  ultimately show ?thesis using w by (fastforce simp: legitimate_def answer_of_def)
qed

text \<open>C36: A connection ends in time. A connection that its start, a drain request or the end of its response gave a deadline closes
  when that deadline has passed and the runtime has run what is due, whatever the client, the business thread and the
  executor's queue do; it tells its server exactly once, and every drain request is answered exactly once, none of them
  before the socket is closed.\<close>

theorem deadline_closes:
  assumes "http_reachable (now, c)" "d \<in> set (limits c)" "d \<le> now"
  shows "(let c' = let_run now c in socket_closed c' \<and> closings c' = 1 \<and> mset (drains_done c') = mset (drains_asked c)) \<and>
    closings c = (if socket_closed c then 1 else 0) \<and> (drains_done c \<noteq> [] \<longrightarrow> socket_closed c)"
proof -
  have inv: "closing_inv c" "deadline_inv c" using http.reachable_inv [OF assms(1)] by (simp_all add: http_inv_def)
  let ?c = "fire_timer now c" let ?n = "length (http_strand ?c)"
  have "expiry c \<le> now" if "\<not> socket_closed c" using that inv(2) assms(2,3) by (auto simp: deadline_inv_def)
  moreover have "waiting c \<or> DeadlineTask \<in> set (http_strand c)" if "\<not> socket_closed c"
    using that inv(2) assms(2) by (auto simp: deadline_inv_def)
  ultimately have "socket_closed c \<or> DeadlineTask \<in> set (http_strand ?c)" by (auto simp: fire_timer_def)
  moreover have "socket_closed c \<Longrightarrow> socket_closed ?c" by (simp add: fire_timer_def)
  ultimately have closed: "socket_closed (let_run now c)"
    using run_tasks_closed [of ?c now ?n] run_tasks_deadline [of ?n ?c now] by (auto simp: let_run_def Let_def)
  have "closing_inv ?c" using inv(1) by (auto simp: closing_inv_def fire_timer_def)
  then have "closing_inv (let_run now c)" by (simp add: let_run_def Let_def run_tasks_closing)
  moreover have "http_strand (let_run now c) = []" "drains_asked (let_run now c) = drains_asked c"
    using run_tasks_strand [of ?c ?n now] by (simp_all add: let_run_def Let_def fire_timer_def)
  ultimately show ?thesis using closed inv(1) by (simp add: closing_inv_def)
qed

text \<open>
  A connection whose client sends a request with an unknown verb at once; the server is told to drain while the request is
  being handled.
\<close>

definition http_refusal :: http_response where
  "http_refusal = SendError 405 ''method not allowed''"

definition asked_for :: http_connection where
  "asked_for = (run_start 5 ((Http_Start (HttpConnection 60))\<lparr>http_strand := []\<rparr>))\<lparr>reading := False, http_strand := [ReadDone (Request Http_other ''/'' []) (Some True)]\<rparr>"

definition worked :: http_connection where
  "worked = Http_DrainAndClose 2000 7 (begin_business (run_read (Request Http_other ''/'' []) (Some True) (asked_for\<lparr>http_strand := []\<rparr>)))"

definition served :: http_connection where
  "served = end_business http_refusal (run_http_drain 9 2000 7 (worked\<lparr>http_strand := []\<rparr>))"

definition replied :: http_connection where
  "replied = (WriteResponse (served\<lparr>http_strand := []\<rparr>))\<lparr>writing := False, http_strand := [WriteDone False False]\<rparr>"

lemmas http_evals = asked_for_def worked_def served_def replied_def HttpConnection_def Http_Start_def begin_business_def end_business_def
  Http_DrainAndClose_def task_defs Http_Close_def Let_def

lemma http_reachI: "http_reachable s \<Longrightarrow> http_step s s' \<Longrightarrow> http_reachable s'"
  by (rule reachable.reach_step)

lemma http_taskI: "http_reachable (now, c) \<Longrightarrow> http_strand c = [t] \<Longrightarrow> http_reachable (now, run_http_task now t (c\<lparr>http_strand := []\<rparr>))"
  by (rule http_reachI [OF _ http_step.task])

lemma asked_for_reachable: "http_reachable (5, asked_for)"
proof -
  have "http_reachable (0, HttpConnection 60)"
    by (rule reachable.reach_init) (auto simp: http_init_def RequestTimeoutSeconds_def intro: exI [of _ None])
  from http_reachI [OF this http_step.starts] have "http_reachable (0, Http_Start (HttpConnection 60))" by (simp add: HttpConnection_def)
  from http_reachI [OF this http_step.pass [of 5]] have "http_reachable (5, Http_Start (HttpConnection 60))" by simp
  from http_taskI [OF this, of StartTask] have "http_reachable (5, run_start 5 ((Http_Start (HttpConnection 60))\<lparr>http_strand := []\<rparr>))"
    by (simp add: run_http_task_def) (simp add: http_evals)
  from http_reachI [OF this http_step.read_ends [of _ _ "Request Http_other ''/'' []" "Some True"]] show ?thesis
    by (simp add: asked_for_def) (simp add: http_evals)
qed

lemma worked_reachable: "http_reachable (9, worked)"
proof -
  let ?c = "run_read (Request Http_other ''/'' []) (Some True) (asked_for\<lparr>http_strand := []\<rparr>)"
  from http_taskI [OF asked_for_reachable] have "http_reachable (5, ?c)" by (simp add: asked_for_def run_http_task_def)
  from http_reachI [OF http_reachI [OF this http_step.business_starts] http_step.drain_asked [of _ _ 2000 7]] have "http_reachable (5, worked)"
    by (simp add: worked_def) (simp add: http_evals)
  from http_reachI [OF this http_step.pass [of 4]] show ?thesis by simp
qed

lemma served_reachable: "http_reachable (9, served)"
proof -
  let ?c = "run_http_drain 9 2000 7 (worked\<lparr>http_strand := []\<rparr>)"
  from http_taskI [OF worked_reachable, of "DrainTask 2000 7"] have c: "http_reachable (9, ?c)"
    by (simp add: run_http_task_def) (simp add: http_evals)
  have "answer_of (Http_other, ''/'', []) http_refusal"
    by (auto simp: answer_of_def HandleReq_def http_refusal_def)
  then have "http_step (9, ?c) (9, served)"
    unfolding served_def by (intro http_step.business_ends [of _ "(Http_other, ''/'', [])"]) (simp_all add: http_evals)
  with c show ?thesis by (rule http_reachI)
qed

lemma replied_reachable: "http_reachable (9, replied)"
proof -
  from http_taskI [OF served_reachable, of RespondTask] have "http_reachable (9, WriteResponse (served\<lparr>http_strand := []\<rparr>))"
    by (simp add: run_http_task_def) (simp add: http_evals)
  from http_reachI [OF this http_step.write_ends [of _ _ False False]] show ?thesis
    by (simp add: replied_def) (simp add: http_evals)
qed

theorem one_request_one_answer_witness:
  "written replied = [http_refusal] \<and>
   (\<exists>L n v target body. http_request replied = Some (v, target, body) \<and> http_refusal = fst (run_state (HandleReq L v target body) n))"
proof -
  have w: "written replied = [http_refusal]" "request_submitted replied" by (simp_all add: http_evals)
  then show ?thesis using one_request_one_answer [OF replied_reachable] by auto
qed

theorem deadline_closes_witness:
  "let c' = let_run 2009 served in socket_closed c' \<and> closings c' = 1 \<and> drains_done c' = [7]"
proof -
  have r: "http_reachable (2009, served)" using http_reachI [OF served_reachable http_step.pass [of 2000]] by simp
  have "drains_asked served = [7]" "2009 \<in> set (limits served)" by (simp_all add: http_evals)
  then show ?thesis using deadline_closes [OF r, of 2009] by (simp add: Let_def)
qed

end
