(* ===== verification/LocalStore.thy ===== *)
theory LocalStore
  imports Prelude "HOL-Library.Sublist"
begin

text \<open>
  What a client keeps on its own disk: conversations, messages, drafts and the position up to which each conversation was
  synchronised (\<^verbatim>\<open>CppChat/common/chatstore.cpp\<close> over the tables of \<^verbatim>\<open>database/sqlite\<close>). SQLite is third-party: the tables are lists
  of rows with the schema's keys, a statement is a function on them that fails without effect when it would break a
  key, and any statement or commit may fail, which consumes an entry of a list of troubles. The operations run one after another on the
  worker thread. A null \<^verbatim>\<open>QString\<close> is \<^term>\<open>None\<close> where the code tells it from an empty one, because SQLite stores it as \<^verbatim>\<open>NULL\<close>.
\<close>

section \<open>Tables and statements\<close>

record conversation_row =
  c_thread :: int
  c_other :: int
  c_last :: int
  c_time :: string
  c_summary :: string
  c_hidden :: int

record local_row =
  m_local :: int
  m_thread :: int
  m_sender :: int
  m_server :: "int option"
  m_unique :: "string option"
  m_content :: string
  m_type :: int
  m_time :: string
  m_status :: int
  m_state :: int
  m_image :: "string option"

record attachment_row =
  a_file :: string
  a_path :: string
  a_checksum :: string
  a_size :: int

type_synonym draft_part = "string \<times> string \<times> string"

record local_tables =
  conversations :: "conversation_row list"
  messages :: "local_row list"
  sync_state :: "(int \<times> int) list"
  drafts :: "(int \<times> nat \<times> draft_part) list"
  attachments :: "attachment_row list"
  group_profiles :: "(int \<times> string) list"
  deleted_messages :: "(int \<times> int) list"

record lite =
  local :: local_tables
  troubles :: "bool list"

type_synonym 'a lite_op = "lite \<Rightarrow> 'a option \<times> lite"

definition next_trouble :: "lite \<Rightarrow> bool \<times> lite" where
  "next_trouble s = (case troubles s of [] \<Rightarrow> (False, s) | b # bs \<Rightarrow> (b, s\<lparr>troubles := bs\<rparr>))"

definition lite_do :: "(local_tables \<Rightarrow> 'a option \<times> local_tables) \<Rightarrow> 'a lite_op" where
  "lite_do f s = (let (fails, s1) = next_trouble s in
     if fails then (None, s1)
     else case f (local s1) of (None, t) \<Rightarrow> (None, s1) | (Some x, t) \<Rightarrow> (Some x, s1\<lparr>local := t\<rparr>))"

definition lite_select :: "(local_tables \<Rightarrow> 'a) \<Rightarrow> 'a lite_op" where
  "lite_select q = lite_do (\<lambda>t. (Some (q t), t))"

definition lite_change :: "(local_tables \<Rightarrow> local_tables) \<Rightarrow> unit lite_op" where
  "lite_change f = lite_do (\<lambda>t. (Some (), f t))"

definition lite_return :: "'a \<Rightarrow> 'a lite_op" where
  "lite_return x s = (Some x, s)"

definition lite_bind :: "'a lite_op \<Rightarrow> ('a \<Rightarrow> 'b lite_op) \<Rightarrow> 'b lite_op" where
  "lite_bind m f s = (case m s of (None, s1) \<Rightarrow> (None, s1) | (Some x, s1) \<Rightarrow> f x s1)"

abbreviation lite_then :: "'a lite_op \<Rightarrow> 'b lite_op \<Rightarrow> 'b lite_op" where
  "lite_then m n \<equiv> lite_bind m (\<lambda>_. n)"

definition lite_checked :: "bool \<Rightarrow> unit lite_op" where
  "lite_checked b s = (if b then Some () else None, s)"

definition lite_when :: "bool \<Rightarrow> unit lite_op \<Rightarrow> unit lite_op" where
  "lite_when b m = (if b then m else lite_return ())"

primrec lite_each :: "('a \<Rightarrow> 'b lite_op) \<Rightarrow> 'a list \<Rightarrow> 'b list lite_op" where
  "lite_each f [] = lite_return []"
| "lite_each f (x # xs) = lite_bind (f x) (\<lambda>y. lite_bind (lite_each f xs) (\<lambda>ys. lite_return (y # ys)))"

text \<open>A \<^verbatim>\<open>Transaction\<close> that is not committed is rolled back by its destructor.\<close>

definition lite_transaction :: "'a lite_op \<Rightarrow> 'a lite_op" where
  "lite_transaction body s = (case lite_then (lite_select (\<lambda>t. ())) (lite_bind body (\<lambda>x. lite_then (lite_select (\<lambda>t. ())) (lite_return x))) s of
       (None, s1) \<Rightarrow> (None, s1\<lparr>local := local s\<rparr>) | (Some x, s1) \<Rightarrow> (Some x, s1))"

text \<open>The keys of \<^verbatim>\<open>messages\<close>; the other tables are changed by identity only.\<close>

definition same_server :: "local_row \<Rightarrow> local_row \<Rightarrow> bool" where
  "same_server r q \<longleftrightarrow> m_thread r = m_thread q \<and> m_server r \<noteq> None \<and> m_server r = m_server q"

definition same_unique :: "local_row \<Rightarrow> local_row \<Rightarrow> bool" where
  "same_unique r q \<longleftrightarrow> m_thread r = m_thread q \<and> m_sender r = m_sender q \<and> m_unique r \<noteq> None \<and> m_unique r = m_unique q"

definition clashes :: "local_row \<Rightarrow> local_row list \<Rightarrow> bool" where
  "clashes r rs \<longleftrightarrow> (\<exists>q\<in>set rs. m_local q \<noteq> m_local r \<and> (same_server r q \<or> same_unique r q))"

text \<open>A row's number is one more than the largest.\<close>

definition next_local :: "local_row list \<Rightarrow> int" where
  "next_local rs = Max (insert 0 (m_local ` set rs)) + 1"

definition find_conversation :: "local_tables \<Rightarrow> int \<Rightarrow> conversation_row option" where
  "find_conversation t thread = find (\<lambda>c. c_thread c = thread) (conversations t)"

section \<open>Saving a message\<close>

record stored_message =
  s_thread :: int
  s_sender :: int
  s_server :: int
  s_unique :: string
  s_content :: "string option"
  s_time :: "string option"
  s_type :: int
  s_status :: int
  s_image :: string
  s_local :: int

datatype save_result = Existing | New | Suppressed

definition SEND_FAILED :: int where "SEND_FAILED = 1"

definition text_or_empty :: "string option \<Rightarrow> string" where
  "text_or_empty q = (case q of None \<Rightarrow> [] | Some s \<Rightarrow> s)"

definition some_text :: "string \<Rightarrow> string option" where
  "some_text s = (if s = [] then None else Some s)"

definition drop_pending :: "stored_message \<Rightarrow> local_tables \<Rightarrow> local_tables" where
  "drop_pending m t = t\<lparr>messages := filter (\<lambda>r. \<not> (m_thread r = s_thread m \<and> m_sender r = s_sender m \<and> m_unique r = some_text (s_unique m) \<and>
     m_unique r \<noteq> None \<and> m_server r = None)) (messages t)\<rparr>"

text \<open>The rows a message may already have: pending ones first, then by number.\<close>

definition is_match :: "stored_message \<Rightarrow> local_row \<Rightarrow> bool" where
  "is_match m r \<longleftrightarrow> m_thread r = s_thread m \<and>
     (0 < s_server m \<and> m_server r = Some (s_server m) \<or> m_sender r = s_sender m \<and> s_unique m \<noteq> [] \<and> m_unique r = Some (s_unique m))"

definition matches :: "stored_message \<Rightarrow> local_tables \<Rightarrow> local_row list" where
  "matches m t = (let found = filter (is_match m) (messages t) in
     sort_key m_local (filter (\<lambda>r. m_server r = None) found) @ sort_key m_local (filter (\<lambda>r. m_server r \<noteq> None) found))"

definition delete_row :: "int \<Rightarrow> local_tables \<Rightarrow> local_tables" where
  "delete_row number t = t\<lparr>messages := filter (\<lambda>r. m_local r \<noteq> number) (messages t)\<rparr>"

definition state_of :: "stored_message \<Rightarrow> int" where
  "state_of m = (if 0 < s_server m then 1 else if s_status m = SEND_FAILED then 2 else 0)"

definition updated_row :: "stored_message \<Rightarrow> local_row \<Rightarrow> local_row" where
  "updated_row m r = r\<lparr>m_server := (if 0 < s_server m then Some (s_server m) else m_server r),
     m_unique := (if s_unique m = [] then m_unique r else Some (s_unique m)),
     m_content := text_or_empty (s_content m), m_type := s_type m, m_time := text_or_empty (s_time m), m_status := s_status m,
     m_state := (if m_server r \<noteq> None \<or> state_of m = 1 then 1 else state_of m),
     m_image := (if s_image m = [] then m_image r else Some (s_image m))\<rparr>"

definition update_row :: "stored_message \<Rightarrow> int \<Rightarrow> local_tables \<Rightarrow> unit option \<times> local_tables" where
  "update_row m number t = (let rs = map (\<lambda>r. if m_local r = number then updated_row m r else r) (messages t) in
     if \<exists>r\<in>set rs. m_local r = number \<and> clashes r rs then (None, t) else (Some (), t\<lparr>messages := rs\<rparr>))"

definition new_row :: "stored_message \<Rightarrow> int \<Rightarrow> local_row" where
  "new_row m number = \<lparr>m_local = number, m_thread = s_thread m, m_sender = s_sender m, m_server = (if 0 < s_server m then Some (s_server m) else None),
     m_unique = some_text (s_unique m), m_content = text_or_empty (s_content m), m_type = s_type m, m_time = text_or_empty (s_time m),
     m_status = s_status m, m_state = state_of m, m_image = some_text (s_image m)\<rparr>"

definition insert_row :: "stored_message \<Rightarrow> local_tables \<Rightarrow> unit option \<times> local_tables" where
  "insert_row m t = (let r = new_row m (next_local (messages t)) in
     if clashes r (messages t) then (None, t) else (Some (), t\<lparr>messages := messages t @ [r]\<rparr>))"

definition release_image :: "stored_message \<Rightarrow> local_tables \<Rightarrow> local_tables" where
  "release_image m t = t\<lparr>messages := map (\<lambda>r. if m_thread r = s_thread m \<and> m_server r = Some (s_server m) \<and> m_content r \<in> a_file ` set (attachments t)
     then r\<lparr>m_image := None\<rparr> else r) (messages t)\<rparr>"

text \<open>The texts that stand for pictures, files and voice messages in a list of conversations are parameters.\<close>

definition summary_of :: "(int \<Rightarrow> string) \<Rightarrow> stored_message \<Rightarrow> string option" where
  "summary_of label m = (if s_type m \<in> {1, 2, 3} then Some (label (s_type m)) else s_content m)"

definition update_summary :: "(int \<Rightarrow> string) \<Rightarrow> stored_message \<Rightarrow> local_tables \<Rightarrow> unit option \<times> local_tables" where
  "update_summary label m t = (let hit = (\<lambda>c. c_thread c = s_thread m \<and> c_last c \<le> s_server m) in
     if list_ex hit (conversations t) \<and> (s_time m = None \<or> summary_of label m = None) then (None, t)
     else (Some (), t\<lparr>conversations := map (\<lambda>c. if hit c then c\<lparr>c_last := s_server m, c_time := text_or_empty (s_time m),
       c_summary := text_or_empty (summary_of label m)\<rparr> else c) (conversations t)\<rparr>))"

definition was_confirmed :: "local_row list \<Rightarrow> bool" where
  "was_confirmed found \<longleftrightarrow> (case found of [] \<Rightarrow> False | r # _ \<Rightarrow> m_server r \<noteq> None)"

definition write_row :: "stored_message \<Rightarrow> local_row list \<Rightarrow> local_tables \<Rightarrow> unit option \<times> local_tables" where
  "write_row m found = (case found of [] \<Rightarrow> insert_row m | r # _ \<Rightarrow> update_row m (m_local r))"

text \<open>Writing a message of which the rows \<open>found\<close> are known: all but the first are deleted.\<close>

definition write_message :: "(int \<Rightarrow> string) \<Rightarrow> stored_message \<Rightarrow> local_row list \<Rightarrow> save_result lite_op" where
  "write_message label m found =
     (if was_confirmed found \<and> s_server m \<le> 0 then lite_return Existing
      else lite_then (lite_each (\<lambda>r. lite_change (delete_row (m_local r))) (tl found))
        (lite_then (lite_do (write_row m found))
          (lite_then (lite_when (0 < s_server m \<and> s_type m \<in> {1, 2, 3}) (lite_change (release_image m)))
            (lite_then (lite_when (0 < s_server m) (lite_do (update_summary label m)))
              (lite_return (if was_confirmed found then Existing else New))))))"

definition message_deleted :: "stored_message \<Rightarrow> bool lite_op" where
  "message_deleted m = (if 0 < s_server m then lite_select (\<lambda>t. (s_thread m, s_server m) \<in> set (deleted_messages t)) else lite_return False)"

definition saveMessage :: "(int \<Rightarrow> string) \<Rightarrow> stored_message \<Rightarrow> save_result lite_op" where
  "saveMessage label m =
     lite_then (lite_checked (0 < s_thread m \<and> 0 < s_sender m \<and> (0 < s_server m \<or> s_unique m \<noteq> [])))
     (lite_bind (lite_select (\<lambda>t. find_conversation t (s_thread m))) (\<lambda>boundary.
        lite_then (lite_checked (boundary \<noteq> None))
          (if 0 < s_server m \<and> s_server m \<le> c_hidden (the boundary)
           then lite_then (lite_change (drop_pending m)) (lite_return Suppressed)
           else lite_bind (message_deleted m) (\<lambda>deleted.
             if deleted then lite_return Suppressed else lite_bind (lite_select (matches m)) (write_message label m)))))"

section \<open>Operations\<close>

definition confirmed_cursor :: "local_tables \<Rightarrow> int \<Rightarrow> int" where
  "confirmed_cursor t thread = (case map_of (sync_state t) thread of None \<Rightarrow> 0 | Some c \<Rightarrow> c)"

definition advance_cursor :: "int \<Rightarrow> int \<Rightarrow> local_tables \<Rightarrow> local_tables" where
  "advance_cursor thread cursor t = t\<lparr>sync_state := (case map_of (sync_state t) thread of
       None \<Rightarrow> sync_state t @ [(thread, cursor)]
     | Some c \<Rightarrow> map (\<lambda>(k, v). (k, if k = thread then max v cursor else v)) (sync_state t))\<rparr>"

text \<open>A history page continues where the last one ended, in order, and ends at its cursor.\<close>

fun page_end :: "int \<Rightarrow> int \<Rightarrow> stored_message list \<Rightarrow> int option" where
  "page_end thread previous [] = Some previous"
| "page_end thread previous (m # ms) = (if s_thread m = thread \<and> previous < s_server m then page_end thread (s_server m) ms else None)"

record saved =
  new_keys :: "(int \<times> int) set"
  suppressed_keys :: "(int \<times> int) set"

definition clear_draft :: "int \<Rightarrow> local_tables \<Rightarrow> local_tables" where
  "clear_draft thread t = t\<lparr>drafts := filter (\<lambda>(k, _). k \<noteq> thread) (drafts t)\<rparr>"

definition keys_of :: "stored_message list \<Rightarrow> save_result list \<Rightarrow> save_result \<Rightarrow> (int \<times> int) set" where
  "keys_of ms outcomes kind = set (map (\<lambda>(m, _). (s_thread m, s_server m)) (filter (\<lambda>(_, q). q = kind) (zip ms outcomes)))"

definition SaveMessages :: "(int \<Rightarrow> string) \<Rightarrow> stored_message list \<Rightarrow> int \<Rightarrow> int \<Rightarrow> int \<Rightarrow> saved lite_op" where
  "SaveMessages label ms sync_thread cursor clear_draft_thread = lite_transaction
     (lite_then (if 0 < sync_thread
        then lite_bind (lite_select (\<lambda>t. confirmed_cursor t sync_thread)) (\<lambda>previous. lite_checked (page_end sync_thread previous ms = Some cursor))
        else lite_return ())
      (lite_bind (lite_each (saveMessage label) ms) (\<lambda>outcomes.
         lite_then (lite_when (0 < sync_thread \<and> 0 \<le> cursor) (lite_change (advance_cursor sync_thread cursor)))
           (lite_then (lite_when (0 < clear_draft_thread) (lite_change (clear_draft clear_draft_thread)))
             (lite_return \<lparr>new_keys = {k \<in> keys_of ms outcomes New. 0 < snd k}, suppressed_keys = keys_of ms outcomes Suppressed\<rparr>)))))"

record stored_conversation =
  v_thread :: int
  v_other :: int
  v_last :: int
  v_time :: string
  v_summary :: string
  v_group :: string

definition put_conversation :: "stored_conversation \<Rightarrow> local_tables \<Rightarrow> local_tables" where
  "put_conversation v t = t\<lparr>conversations := (if find_conversation t (v_thread v) = None
     then conversations t @ [\<lparr>c_thread = v_thread v, c_other = v_other v, c_last = v_last v, c_time = v_time v, c_summary = v_summary v, c_hidden = 0\<rparr>]
     else map (\<lambda>c. if c_thread c = v_thread v then c\<lparr>c_other := v_other v, c_time := (if c_last c \<le> v_last v then v_time v else c_time c),
       c_last := max (c_last c) (v_last v)\<rparr> else c) (conversations t))\<rparr>"

definition put_profile :: "stored_conversation \<Rightarrow> local_tables \<Rightarrow> local_tables" where
  "put_profile v t = t\<lparr>group_profiles := (v_thread v, v_group v) # filter (\<lambda>(k, _). k \<noteq> v_thread v) (group_profiles t)\<rparr>"

definition SaveConversations :: "stored_conversation list \<Rightarrow> unit lite_op" where
  "SaveConversations vs = lite_transaction (lite_then (lite_each (\<lambda>v.
     lite_then (lite_change (put_conversation v)) (lite_when (v_group v \<noteq> []) (lite_change (put_profile v)))) vs) (lite_return ()))"

definition ForgetGroupProfile :: "int \<Rightarrow> unit lite_op" where
  "ForgetGroupProfile thread = lite_change (\<lambda>t. t\<lparr>group_profiles := filter (\<lambda>(k, _). k \<noteq> thread) (group_profiles t)\<rparr>)"

definition MarkUnconfirmed :: "string \<Rightarrow> bool \<Rightarrow> unit lite_op" where
  "MarkUnconfirmed unique failed = lite_change (\<lambda>t. t\<lparr>messages := map (\<lambda>r. if m_unique r = Some unique \<and> m_server r = None
     then r\<lparr>m_state := (if failed then 3 else 2)\<rparr> else r) (messages t)\<rparr>)"

definition hidden_boundary :: "int \<Rightarrow> local_tables \<Rightarrow> conversation_row \<Rightarrow> int" where
  "hidden_boundary thread t c =
     Max (set (0 # c_last c # c_hidden c # List.map_filter m_server (filter (\<lambda>r. m_thread r = thread) (messages t))))"

definition hide_history :: "int \<Rightarrow> local_tables \<Rightarrow> local_tables" where
  "hide_history thread t = t\<lparr>conversations := map (\<lambda>c. if c_thread c = thread
     then c\<lparr>c_hidden := hidden_boundary thread t c, c_summary := []\<rparr>
     else c) (conversations t)\<rparr>"

definition drop_confirmed :: "int \<Rightarrow> local_tables \<Rightarrow> local_tables" where
  "drop_confirmed thread t = t\<lparr>messages := filter (\<lambda>r. \<not> (m_thread r = thread \<and> m_server r \<noteq> None)) (messages t)\<rparr>"

definition ClearLocalHistory :: "int \<Rightarrow> bool \<Rightarrow> int lite_op" where
  "ClearLocalHistory thread require_confirmed_only = lite_transaction
     (lite_then (lite_checked (0 < thread))
       (lite_bind (lite_select (\<lambda>t. find_conversation t thread \<noteq> None)) (\<lambda>exists.
         lite_then (lite_checked exists)
         (lite_then (if require_confirmed_only
             then lite_bind (lite_select (\<lambda>t. \<exists>r\<in>set (messages t). m_thread r = thread \<and> m_server r = None)) (\<lambda>pending. lite_checked (\<not> pending))
             else lite_return ())
           (lite_then (lite_change (hide_history thread)) (lite_then (lite_change (drop_confirmed thread))
             (lite_select (\<lambda>t. case find_conversation t thread of None \<Rightarrow> 0 | Some c \<Rightarrow> c_hidden c))))))))"

definition bury :: "int \<Rightarrow> int \<Rightarrow> local_tables \<Rightarrow> local_tables" where
  "bury thread i t = t\<lparr>deleted_messages := (if (thread, i) \<in> set (deleted_messages t) then deleted_messages t else (thread, i) # deleted_messages t)\<rparr>"

definition drop_message :: "int \<Rightarrow> int \<Rightarrow> local_tables \<Rightarrow> local_tables" where
  "drop_message thread i t = t\<lparr>messages := filter (\<lambda>r. \<not> (m_thread r = thread \<and> m_server r = Some i)) (messages t)\<rparr>"

definition deleted_summary :: "string \<Rightarrow> int \<Rightarrow> int \<Rightarrow> local_tables \<Rightarrow> local_tables" where
  "deleted_summary text_shown thread i t = t\<lparr>conversations := map (\<lambda>c. if c_thread c = thread \<and> c_last c = i then c\<lparr>c_summary := text_shown\<rparr> else c) (conversations t)\<rparr>"

definition DeleteLocalMessages :: "string \<Rightarrow> int \<Rightarrow> int list \<Rightarrow> unit lite_op" where
  "DeleteLocalMessages text_shown thread ids =
     lite_then (lite_checked (0 < thread \<and> ids \<noteq> [] \<and> length ids \<le> 50 \<and> list_all (\<lambda>i. 0 < i) ids)) (lite_transaction
       (lite_bind (lite_select (\<lambda>t. find_conversation t thread \<noteq> None)) (\<lambda>exists.
         lite_then (lite_checked exists)
           (lite_then (lite_each (\<lambda>i. lite_then (lite_change (bury thread i)) (lite_then (lite_change (drop_message thread i))
             (lite_change (deleted_summary text_shown thread i)))) (remdups ids)) (lite_return ())))))"

definition DeleteLocalMessage :: "string \<Rightarrow> int \<Rightarrow> int \<Rightarrow> unit lite_op" where
  "DeleteLocalMessage text_shown thread i = DeleteLocalMessages text_shown thread [i]"

definition put_draft :: "int \<Rightarrow> nat \<times> draft_part \<Rightarrow> local_tables \<Rightarrow> local_tables" where
  "put_draft thread part t = t\<lparr>drafts := (thread, part) # filter (\<lambda>(k, i, _). \<not> (k = thread \<and> i = fst part)) (drafts t)\<rparr>"

definition SaveDraft :: "int \<Rightarrow> draft_part list \<Rightarrow> unit lite_op" where
  "SaveDraft thread parts = lite_transaction
     (lite_then (lite_change (\<lambda>t. t\<lparr>drafts := filter (\<lambda>(k, i, _). \<not> (k = thread \<and> length parts \<le> i)) (drafts t)\<rparr>))
       (lite_then (lite_each (\<lambda>part. lite_change (put_draft thread part)) (enumerate 0 parts)) (lite_return ())))"

definition LoadDraft :: "int \<Rightarrow> draft_part list lite_op" where
  "LoadDraft thread = lite_select (\<lambda>t. map snd (sort_key fst (map snd (filter (\<lambda>(k, _). k = thread) (drafts t)))))"

text \<open>The registration of an attachment whose file was written.\<close>

definition put_attachment :: "attachment_row \<Rightarrow> local_tables \<Rightarrow> local_tables" where
  "put_attachment a t = t\<lparr>attachments := a # filter (\<lambda>b. a_file b \<noteq> a_file a) (attachments t)\<rparr>"

definition release_copies :: "string \<Rightarrow> local_tables \<Rightarrow> local_tables" where
  "release_copies i t = t\<lparr>messages := map (\<lambda>r. if m_content r = i \<and> m_type r \<in> {1, 3} \<and> m_server r \<noteq> None \<and> m_image r \<noteq> None
     then r\<lparr>m_image := None\<rparr> else r) (messages t)\<rparr>"

definition RegisterAttachment :: "attachment_row \<Rightarrow> unit lite_op" where
  "RegisterAttachment a = lite_transaction (lite_then (lite_change (put_attachment a)) (lite_change (release_copies (a_file a))))"

text \<open>What opening an account changes: an old version's voice placeholders are fetched again, and messages that were being sent are unconfirmed.\<close>

definition refetch_voice :: "string \<Rightarrow> local_tables \<Rightarrow> local_tables" where
  "refetch_voice placeholder t = t\<lparr>sync_state := map (\<lambda>(k, v). (k, if \<exists>r\<in>set (messages t). m_thread r = k \<and> m_type r = 0 \<and> m_content r = placeholder
     then 0 else v)) (sync_state t)\<rparr>"

definition OpenAccount :: "nat \<Rightarrow> string \<Rightarrow> unit lite_op" where
  "OpenAccount prior_version placeholder = lite_transaction
     (lite_then (lite_when (prior_version < 4) (lite_change (refetch_voice placeholder)))
       (lite_change (\<lambda>t. t\<lparr>messages := map (\<lambda>r. if m_server r = None \<and> m_state r = 0 then r\<lparr>m_state := 2\<rparr> else r) (messages t)\<rparr>)))"

text \<open>A page of the newest visible messages before an identifier, oldest first, and whether there are more; the first page also has the pending ones.\<close>

definition visible :: "local_tables \<Rightarrow> int \<Rightarrow> local_row \<Rightarrow> bool" where
  "visible t thread r \<longleftrightarrow> m_thread r = thread \<and> (case (find_conversation t thread, m_server r) of (Some c, Some i) \<Rightarrow> c_hidden c < i | _ \<Rightarrow> False)"

definition server_id :: "local_row \<Rightarrow> int" where
  "server_id r = (case m_server r of None \<Rightarrow> 0 | Some i \<Rightarrow> i)"

definition page_rows :: "local_tables \<Rightarrow> int \<Rightarrow> int \<Rightarrow> local_row list" where
  "page_rows t thread before = rev (sort_key server_id (filter (\<lambda>r. visible t thread r \<and> (before = 0 \<or> server_id r < before)) (messages t)))"

definition readMessage :: "local_row \<Rightarrow> stored_message" where
  "readMessage r = \<lparr>s_thread = m_thread r, s_sender = m_sender r, s_server = server_id r, s_unique = text_or_empty (m_unique r),
     s_content = Some (m_content r), s_time = Some (m_time r), s_type = m_type r,
     s_status = (if server_id r = 0 then SEND_FAILED else m_status r), s_image = [], s_local = m_local r\<rparr>"

definition LoadMessages :: "int \<Rightarrow> int \<Rightarrow> nat \<Rightarrow> (stored_message list \<times> bool \<times> conversation_row option) lite_op" where
  "LoadMessages thread before limit =
     lite_bind (lite_select (\<lambda>t. take (Suc limit) (page_rows t thread before))) (\<lambda>found.
       let page = rev (take limit found); more = limit < length found in
       if before = 0
       then lite_bind (lite_select (\<lambda>t. sort_key m_local (filter (\<lambda>r. m_thread r = thread \<and> m_server r = None) (messages t)))) (\<lambda>pending.
         lite_bind (lite_select (\<lambda>t. find_conversation t thread)) (\<lambda>summary. lite_return (map readMessage (page @ pending), more, summary)))
       else lite_return (map readMessage page, more, None))"

text \<open>The metadata of an attachment, when they can name a file of the account's own folder.\<close>

definition kMaxAttachmentSize :: int where "kMaxAttachmentSize = 20 * 1024 * 1024"

definition FindAttachment :: "string \<Rightarrow> attachment_row option lite_op" where
  "FindAttachment i = lite_select (\<lambda>t. case find (\<lambda>a. a_file a = i) (attachments t) of None \<Rightarrow> None
     | Some a \<Rightarrow> if \<not> prefix ''attachments/'' (a_path a) \<or> sublist ''..'' (a_path a) \<or> a_size a \<le> 0 \<or> kMaxAttachmentSize < a_size a then None else Some a)"

end
