(* ===== verification/LocalStoreFacts.thy ===== *)
theory LocalStoreFacts
  imports LocalStore
begin

text \<open>
  What the client's store keeps under every sequence of its operations, with any troubles: the keys of messages, that what
  was deleted or hidden here never comes back, and that a message of the server is announced as new once.
\<close>

section \<open>Successful operations\<close>

definition yields :: "'a lite_op \<Rightarrow> lite \<Rightarrow> 'a \<Rightarrow> lite \<Rightarrow> bool" where
  "yields m s x s' \<longleftrightarrow> m s = (Some x, s')"

lemma next_trouble_local [simp]: "next_trouble s = (b, s') \<Longrightarrow> local s' = local s"
  by (auto simp: next_trouble_def split: list.splits)

lemma yields_do: "yields (lite_do f) s x s' \<Longrightarrow> f (local s) = (Some x, local s')"
  by (auto simp: yields_def lite_do_def Let_def split: prod.splits if_splits option.splits dest!: next_trouble_local)

lemma yields_select: "yields (lite_select q) s x s' \<Longrightarrow> x = q (local s) \<and> local s' = local s"
  using yields_do [of "\<lambda>t. (Some (q t), t)" s x s'] by (auto simp: lite_select_def)

lemma yields_change: "yields (lite_change f) s x s' \<Longrightarrow> local s' = f (local s)"
  using yields_do [of "\<lambda>t. (Some (), f t)" s x s'] by (simp add: lite_change_def)

lemma yields_return [simp]: "yields (lite_return x) s y s' \<longleftrightarrow> y = x \<and> s' = s"
  by (auto simp: yields_def lite_return_def)

lemma yields_checked [simp]: "yields (lite_checked b) s x s' \<longleftrightarrow> b \<and> s' = s"
  by (auto simp: yields_def lite_checked_def)

lemma yields_bind: "yields (lite_bind m f) s y s' \<longleftrightarrow> (\<exists>x s1. yields m s x s1 \<and> yields (f x) s1 y s')"
  by (auto simp: yields_def lite_bind_def split: prod.splits option.splits)

lemma yields_bindE [elim!]:
  assumes "yields (lite_bind m f) s y s'"
  obtains x s1 where "yields m s x s1" "yields (f x) s1 y s'"
  using assms by (auto simp: yields_bind)

lemma yields_when: "yields (lite_when b m) s x s' \<longleftrightarrow> (if b then yields m s x s' else s' = s)"
  by (simp add: lite_when_def)

lemma yields_each:
  assumes "yields (lite_each f xs) s ys s'" "\<And>x s y s1. x \<in> set xs \<Longrightarrow> P (local s) \<Longrightarrow> yields (f x) s y s1 \<Longrightarrow> P (local s1)" "P (local s)"
  shows "P (local s')"
  using assms
proof (induction xs arbitrary: s ys)
  case (Cons x xs)
  then obtain y s1 zs where "yields (f x) s y s1" "yields (lite_each f xs) s1 zs s'" by auto
  moreover have "P (local s1)" using Cons.prems(2) [of x s y s1] Cons.prems(3) calculation(1) by simp
  ultimately show ?case using Cons.IH [of s1 zs] Cons.prems(2) by (metis list.set_intros(2))
qed simp

lemma lite_transaction_cases:
  obtains (failed) "fst (lite_transaction body s) = None" "local (snd (lite_transaction body s)) = local s"
  | (committed) x s1 s2 where "yields body s1 x s2" "local s1 = local s" "fst (lite_transaction body s) = Some x"
      "local (snd (lite_transaction body s)) = local s2"
proof (cases "lite_then (lite_select (\<lambda>t. ())) (lite_bind body (\<lambda>x. lite_then (lite_select (\<lambda>t. ())) (lite_return x))) s")
  case (Pair r s3)
  show thesis
  proof (cases r)
    case None
    then show thesis using Pair failed by (simp add: lite_transaction_def)
  next
    case (Some x)
    then have "yields (lite_then (lite_select (\<lambda>t. ())) (lite_bind body (\<lambda>x. lite_then (lite_select (\<lambda>t. ())) (lite_return x)))) s x s3"
      using Pair by (simp add: yields_def)
    then obtain s1 s2 where "yields (lite_select (\<lambda>t. ())) s () s1" "yields body s1 x s2" "yields (lite_select (\<lambda>t. ())) s2 () s3" by auto
    then show thesis using committed [of s1 x s2] Some Pair yields_select by (fastforce simp: lite_transaction_def)
  qed
qed

section \<open>The invariant\<close>

definition suppressed :: "local_tables \<Rightarrow> int \<Rightarrow> int \<Rightarrow> bool" where
  "suppressed t thread i \<longleftrightarrow> (thread, i) \<in> set (deleted_messages t) \<or> (\<exists>c. find_conversation t thread = Some c \<and> i \<le> c_hidden c)"

definition row_ok :: "local_tables \<Rightarrow> local_row \<Rightarrow> bool" where
  "row_ok t r \<longleftrightarrow> find_conversation t (m_thread r) \<noteq> None \<and> m_unique r \<noteq> Some [] \<and> (m_state r = 1 \<longleftrightarrow> m_server r \<noteq> None) \<and>
     (case m_server r of None \<Rightarrow> m_unique r \<noteq> None
      | Some i \<Rightarrow> 0 < i \<and> \<not> suppressed t (m_thread r) i \<and> (\<forall>c. find_conversation t (m_thread r) = Some c \<longrightarrow> i \<le> c_last c))"

definition local_inv :: "local_tables \<Rightarrow> bool" where
  "local_inv t \<longleftrightarrow> distinct (map m_local (messages t)) \<and> (\<forall>r\<in>set (messages t). \<not> clashes r (messages t)) \<and> (\<forall>r\<in>set (messages t). row_ok t r)"

definition no_local_tables :: local_tables where
  "no_local_tables = \<lparr>conversations = [], messages = [], sync_state = [], drafts = [], attachments = [], group_profiles = [], deleted_messages = []\<rparr>"

lemma inv_no_local_tables: "local_inv no_local_tables"
  by (simp add: local_inv_def no_local_tables_def)

lemma find_frame [simp]: "find_conversation (t\<lparr>messages := ms\<rparr>) thread = find_conversation t thread"
  by (simp add: find_conversation_def)

lemma suppressed_frame [simp]: "suppressed (t\<lparr>messages := ms\<rparr>) thread i = suppressed t thread i"
  by (simp add: suppressed_def)

lemma row_ok_frame [simp]: "row_ok (t\<lparr>messages := ms\<rparr>) r = row_ok t r"
  by (simp add: row_ok_def split: option.split)

lemma find_map_conversations:
  assumes "\<And>c. c_thread (f c) = c_thread c"
  shows "find (\<lambda>c. c_thread c = thread) (map f cs) = map_option f (find (\<lambda>c. c_thread c = thread) cs)"
  by (induction cs) (auto simp: assms)

lemma clashes_subset: "\<not> clashes r rs \<Longrightarrow> set qs \<subseteq> set rs \<Longrightarrow> \<not> clashes r qs"
  by (auto simp: clashes_def)

text \<open>Rows that only lose members or change what no key sees.\<close>

lemma inv_filter: "local_inv t \<Longrightarrow> local_inv (t\<lparr>messages := filter P (messages t)\<rparr>)"
proof -
  assume t: "local_inv t"
  then have "\<not> clashes r (filter P (messages t))" if "r \<in> set (messages t)" for r
    using that clashes_subset [of r "messages t" "filter P (messages t)"] by (auto simp: local_inv_def)
  then show ?thesis using t by (auto simp: local_inv_def distinct_map intro: inj_on_subset)
qed

lemma clashes_map:
  assumes "\<And>r. m_local (f r) = m_local r" "\<And>r. m_thread (f r) = m_thread r" "\<And>r. m_sender (f r) = m_sender r"
    "\<And>r. m_server (f r) = m_server r" "\<And>r. m_unique (f r) = m_unique r"
  shows "clashes (f r) (map f rs) = clashes r rs"
  by (auto simp: clashes_def same_server_def same_unique_def assms)

lemma inv_map:
  assumes "local_inv t" "\<And>r. m_local (f r) = m_local r" "\<And>r. m_thread (f r) = m_thread r" "\<And>r. m_sender (f r) = m_sender r"
    "\<And>r. m_server (f r) = m_server r" "\<And>r. m_unique (f r) = m_unique r" "\<And>r. m_state r = 1 \<longleftrightarrow> m_server r \<noteq> None \<Longrightarrow> m_state (f r) = 1 \<longleftrightarrow> m_state r = 1"
  shows "local_inv (t\<lparr>messages := map f (messages t)\<rparr>)"
proof -
  have "row_ok t (f r)" if "row_ok t r" for r
    using that assms(7) [of r] unfolding row_ok_def assms(3,5,6) by blast
  then show ?thesis using assms(1) by (simp add: local_inv_def clashes_map [OF assms(2-6)] comp_def assms(2))
qed

section \<open>Saving a message\<close>

definition without_rows :: "int set \<Rightarrow> local_tables \<Rightarrow> local_tables" where
  "without_rows numbers t = t\<lparr>messages := filter (\<lambda>r. m_local r \<notin> numbers) (messages t)\<rparr>"

lemma yields_deletes: "yields (lite_each (\<lambda>r. lite_change (delete_row (m_local r))) rs) s us s' \<Longrightarrow> local s' = without_rows (m_local ` set rs) (local s)"
proof (induction rs arbitrary: s us)
  case (Cons r rs)
  then obtain s1 ys where "local s1 = delete_row (m_local r) (local s)" "yields (lite_each (\<lambda>r. lite_change (delete_row (m_local r))) rs) s1 ys s'"
    by (auto dest: yields_change)
  with Cons.IH [of s1 ys] have "local s' = without_rows (m_local ` set rs) (delete_row (m_local r) (local s))" by simp
  also have "\<dots> = without_rows (m_local ` set (r # rs)) (local s)"
    by (simp add: without_rows_def delete_row_def)
  finally show ?case .
qed (simp add: without_rows_def)

lemma write_message_cases:
  assumes "yields (write_message label m found) s out s'"
  obtains (kept) "was_confirmed found" "s_server m \<le> 0" "out = Existing" "local s' = local s"
    | (stored) t2 t3 where "was_confirmed found \<longrightarrow> 0 < s_server m"
        "write_row m found (without_rows (m_local ` set (tl found)) (local s)) = (Some (), t2)" "t3 = t2 \<or> t3 = release_image m t2"
        "if 0 < s_server m then update_summary label m t3 = (Some (), local s') else local s' = t3" "out = (if was_confirmed found then Existing else New)"
proof (cases "was_confirmed found \<and> s_server m \<le> 0")
  case True
  then show thesis using assms kept by (simp add: write_message_def)
next
  case False
  then obtain us s4 s5 s6 where g: "yields (lite_each (\<lambda>r. lite_change (delete_row (m_local r))) (tl found)) s us s4"
      "yields (lite_do (write_row m found)) s4 () s5"
      "yields (lite_when (0 < s_server m \<and> s_type m \<in> {1, 2, 3}) (lite_change (release_image m))) s5 () s6"
      "yields (lite_when (0 < s_server m) (lite_do (update_summary label m))) s6 () s'" "out = (if was_confirmed found then Existing else New)"
    using assms [unfolded write_message_def if_not_P [OF False]] by auto
  have "write_row m found (without_rows (m_local ` set (tl found)) (local s)) = (Some (), local s5)"
    using yields_deletes [OF g(1)] yields_do [OF g(2)] by simp
  moreover have "local s6 = local s5 \<or> local s6 = release_image m (local s5)"
    using g(3) by (auto simp: yields_when split: if_splits dest: yields_change)
  moreover have "if 0 < s_server m then update_summary label m (local s6) = (Some (), local s') else local s' = local s6"
    using g(4) by (auto simp: yields_when split: if_splits dest: yields_do)
  ultimately show thesis using stored [of "local s5" "local s6"] False g(5) by auto
qed

lemma message_deleted_yields:
  "yields (message_deleted m) s d s' \<Longrightarrow> local s' = local s \<and> d = (0 < s_server m \<and> (s_thread m, s_server m) \<in> set (deleted_messages (local s)))"
  by (auto simp: message_deleted_def split: if_splits dest: yields_select)

lemma saveMessage_cases:
  assumes "yields (saveMessage label m) s out s'"
  obtains (hidden) c where "find_conversation (local s) (s_thread m) = Some c" "0 < s_server m" "s_server m \<le> c_hidden c" "out = Suppressed"
      "local s' = drop_pending m (local s)"
    | (deleted) "0 < s_server m" "(s_thread m, s_server m) \<in> set (deleted_messages (local s))" "out = Suppressed" "local s' = local s"
    | (written) c s1 where "find_conversation (local s) (s_thread m) = Some c" "0 < s_server m \<or> s_unique m \<noteq> []"
        "0 < s_server m \<longrightarrow> \<not> suppressed (local s) (s_thread m) (s_server m)" "local s1 = local s"
        "yields (write_message label m (matches m (local s))) s1 out s'"
proof -
  from assms obtain s1 c where a: "0 < s_server m \<or> s_unique m \<noteq> []" "find_conversation (local s) (s_thread m) = Some c" "local s1 = local s"
      and b: "yields (if 0 < s_server m \<and> s_server m \<le> c_hidden c
           then lite_then (lite_change (drop_pending m)) (lite_return Suppressed)
           else lite_bind (message_deleted m) (\<lambda>deleted.
             if deleted then lite_return Suppressed else lite_bind (lite_select (matches m)) (write_message label m))) s1 out s'"
  proof -
    from assms obtain s0 b s1 c where "0 < s_server m \<or> s_unique m \<noteq> []" "yields (lite_select (\<lambda>t. find_conversation t (s_thread m))) s b s0" "s1 = s0" "b = Some c"
        "yields (if 0 < s_server m \<and> s_server m \<le> c_hidden (the b)
           then lite_then (lite_change (drop_pending m)) (lite_return Suppressed)
           else lite_bind (message_deleted m) (\<lambda>deleted.
             if deleted then lite_return Suppressed else lite_bind (lite_select (matches m)) (write_message label m))) s1 out s'"
      unfolding saveMessage_def by (elim yields_bindE) (simp only: yields_checked, blast)
    then show thesis using that [of c s1] by (auto dest!: yields_select)
  qed
  show thesis
  proof (cases "0 < s_server m \<and> s_server m \<le> c_hidden c")
    case True
    then show thesis using a b by (intro hidden) (auto dest: yields_change)
  next
    case False
    with b obtain d s2 where d: "yields (message_deleted m) s1 d s2"
      and e: "yields (if d then lite_return Suppressed else lite_bind (lite_select (matches m)) (write_message label m)) s2 out s'" by auto
    note dd = message_deleted_yields [OF d]
    show thesis
    proof (cases d)
      case True
      then show thesis using e dd a(3) by (intro deleted) auto
    next
      case nd: False
      with e obtain found s3 where f: "yields (lite_select (matches m)) s2 found s3" "yields (write_message label m found) s3 out s'" by auto
      show thesis
        using written [of c s3] f(2) yields_select [OF f(1)] a False nd dd by (auto simp: suppressed_def)
    qed
  qed
qed

text \<open>Writing keeps the invariant.\<close>

lemma inv_release: "local_inv t \<Longrightarrow> local_inv (release_image m t)"
  unfolding release_image_def by (rule inv_map) (auto split: if_splits)

lemma find_update_summary:
  assumes "update_summary label m t = (Some (), t')"
  shows "find_conversation t' thread = map_option (\<lambda>c. if c_thread c = s_thread m \<and> c_last c \<le> s_server m then c\<lparr>c_last := s_server m,
      c_time := text_or_empty (s_time m), c_summary := text_or_empty (summary_of label m)\<rparr> else c) (find_conversation t thread)"
    and "messages t' = messages t" "deleted_messages t' = deleted_messages t"
proof -
  have t': "t' = t\<lparr>conversations := map (\<lambda>c. if c_thread c = s_thread m \<and> c_last c \<le> s_server m then c\<lparr>c_last := s_server m,
      c_time := text_or_empty (s_time m), c_summary := text_or_empty (summary_of label m)\<rparr> else c) (conversations t)\<rparr>"
    using assms by (auto simp: update_summary_def Let_def split: if_splits)
  show "messages t' = messages t" "deleted_messages t' = deleted_messages t" by (simp_all add: t')
  show "find_conversation t' thread = map_option (\<lambda>c. if c_thread c = s_thread m \<and> c_last c \<le> s_server m then c\<lparr>c_last := s_server m,
      c_time := text_or_empty (s_time m), c_summary := text_or_empty (summary_of label m)\<rparr> else c) (find_conversation t thread)"
    unfolding t' find_conversation_def by (simp add: find_map_conversations)
qed

lemma suppressed_summary: "update_summary label m t = (Some (), t') \<Longrightarrow> suppressed t' thread i = suppressed t thread i"
  by (cases "find_conversation t thread") (auto simp: suppressed_def find_update_summary)

lemma found_thread: "find_conversation t thread = Some c \<Longrightarrow> c_thread c = thread"
  by (auto simp: find_conversation_def find_Some_iff)

text \<open>While a message is being written its conversation's newest message may lag behind.\<close>

definition lagging_ok :: "stored_message \<Rightarrow> local_tables \<Rightarrow> local_row \<Rightarrow> bool" where
  "lagging_ok m t r \<longleftrightarrow> find_conversation t (m_thread r) \<noteq> None \<and> m_unique r \<noteq> Some [] \<and> (m_state r = 1 \<longleftrightarrow> m_server r \<noteq> None) \<and>
     (case m_server r of None \<Rightarrow> m_unique r \<noteq> None
      | Some i \<Rightarrow> 0 < i \<and> \<not> suppressed t (m_thread r) i \<and>
          (\<forall>c. find_conversation t (m_thread r) = Some c \<longrightarrow> i \<le> c_last c \<or> m_thread r = s_thread m \<and> i = s_server m))"

definition lagging_inv :: "stored_message \<Rightarrow> local_tables \<Rightarrow> bool" where
  "lagging_inv m t \<longleftrightarrow> distinct (map m_local (messages t)) \<and> (\<forall>r\<in>set (messages t). \<not> clashes r (messages t)) \<and> (\<forall>r\<in>set (messages t). lagging_ok m t r)"

lemma lagging_frame [simp]: "lagging_ok m (t\<lparr>messages := ms\<rparr>) r = lagging_ok m t r"
  by (simp add: lagging_ok_def split: option.split)

lemma inv_lagging: "local_inv t \<Longrightarrow> lagging_inv m t"
  by (auto simp: local_inv_def lagging_inv_def row_ok_def lagging_ok_def split: option.splits)

lemma lagging_intro:
  "distinct (map m_local rs) \<Longrightarrow> \<forall>r\<in>set rs. \<not> clashes r rs \<Longrightarrow> \<forall>r\<in>set rs. lagging_ok m t r \<Longrightarrow> lagging_inv m (t\<lparr>messages := rs\<rparr>)"
  by (simp add: lagging_inv_def)

lemma next_local_new: "r \<in> set rs \<Longrightarrow> m_local r < next_local rs"
  by (simp add: next_local_def less_add_one add_strict_increasing)

lemma clashes_append:
  "\<not> clashes r (rs @ [q]) \<longleftrightarrow> \<not> clashes r rs \<and> (m_local q = m_local r \<or> \<not> same_server r q \<and> \<not> same_unique r q)"
  by (auto simp: clashes_def)

lemma same_sym: "same_server r q = same_server q r" "same_unique r q = same_unique q r"
  unfolding same_server_def same_unique_def by (rule iffI; elim conjE; intro conjI; simp)+

lemma insert_lagging:
  assumes "local_inv t" "insert_row m t = (Some (), t')" "find_conversation t (s_thread m) \<noteq> None" "0 < s_server m \<or> s_unique m \<noteq> []"
    "0 < s_server m \<longrightarrow> \<not> suppressed t (s_thread m) (s_server m)"
  shows "lagging_inv m t'"
proof -
  let ?r = "new_row m (next_local (messages t))"
  have t': "t' = t\<lparr>messages := messages t @ [?r]\<rparr>" "\<not> clashes ?r (messages t)"
    using assms(2) by (auto simp: insert_row_def Let_def split: if_splits)
  have fresh: "m_local r \<noteq> m_local ?r" if "r \<in> set (messages t)" for r
    using next_local_new [OF that] by (simp add: new_row_def)
  have "\<not> clashes r (messages t @ [?r])" if "r \<in> set (messages t)" for r
    using assms(1) t'(2) that fresh [OF that] same_sym by (auto simp: local_inv_def clashes_append) (auto simp: clashes_def)
  moreover have "\<not> clashes ?r (messages t @ [?r])" using t'(2) by (simp add: clashes_append)
  moreover have "lagging_ok m t ?r"
    using assms(3-5) by (auto simp: lagging_ok_def new_row_def state_of_def some_text_def)
  moreover have "\<forall>r\<in>set (messages t). lagging_ok m t r" using inv_lagging [OF assms(1), of m] by (simp add: lagging_inv_def)
  moreover have "distinct (map m_local (messages t @ [?r]))" using assms(1) fresh by (force simp: local_inv_def)
  ultimately show ?thesis unfolding t'(1) by (intro lagging_intro) auto
qed

lemma update_lagging:
  assumes "local_inv t" "update_row m number t = (Some (), t')" "0 < s_server m \<longrightarrow> \<not> suppressed t (s_thread m) (s_server m)"
    "\<forall>r\<in>set (messages t). m_local r = number \<longrightarrow> m_thread r = s_thread m"
  shows "lagging_inv m t'"
proof -
  let ?f = "\<lambda>r. if m_local r = number then updated_row m r else r"
  let ?rs = "map ?f (messages t)"
  have t': "t' = t\<lparr>messages := ?rs\<rparr>" and c: "\<And>r. r \<in> set ?rs \<Longrightarrow> m_local r = number \<Longrightarrow> \<not> clashes r ?rs"
    using assms(2) by (auto simp: update_row_def Let_def split: if_splits)
  have [simp]: "m_local (updated_row m r) = m_local r" for r by (simp add: updated_row_def)
  have d: "distinct (map m_local ?rs)" using assms(1) by (simp add: local_inv_def comp_def if_distrib cong: if_cong)
  have "\<not> clashes r ?rs" if r: "r \<in> set ?rs" "m_local r \<noteq> number" for r
  proof
    assume "clashes r ?rs"
    then obtain q where q: "q \<in> set ?rs" "m_local q \<noteq> m_local r" "same_server r q \<or> same_unique r q" unfolding clashes_def by blast
    have "clashes q ?rs" unfolding clashes_def using q r(1) same_sym [of r q] by (intro bexI [of _ r]) simp_all
    then have "m_local q \<noteq> number" using c [OF q(1)] by blast
    then have "q \<in> set (messages t)" "r \<in> set (messages t)" using q(1) r by (auto split: if_splits)
    then show False using assms(1) q(2,3) by (auto simp: local_inv_def clashes_def)
  qed
  with c have "\<forall>r\<in>set ?rs. \<not> clashes r ?rs" by blast
  moreover have "lagging_ok m t (?f r)" if "r \<in> set (messages t)" for r
    using assms(1,3,4) that
    by (auto simp: local_inv_def row_ok_def lagging_ok_def updated_row_def state_of_def split: option.splits)
  then have "\<forall>r\<in>set ?rs. lagging_ok m t r" unfolding list.set_map by blast
  ultimately show ?thesis using d unfolding t' by (intro lagging_intro)
qed

lemma lagging_settled:
  assumes "lagging_inv m t" "if 0 < s_server m then update_summary label m t = (Some (), t') else t' = t"
  shows "local_inv t'"
proof (cases "0 < s_server m")
  case True
  note u = find_update_summary [OF assms(2) [unfolded if_P [OF True]]]
  note s = suppressed_summary [OF assms(2) [unfolded if_P [OF True]]]
  have "row_ok t' r" if "r \<in> set (messages t)" for r
  proof -
    from assms(1) that have r: "lagging_ok m t r" by (simp add: lagging_inv_def)
    then obtain c where c: "find_conversation t (m_thread r) = Some c" by (auto simp: lagging_ok_def)
    show ?thesis
    proof (cases "m_server r")
      case None
      then show ?thesis using r c by (simp add: lagging_ok_def row_ok_def u(1))
    next
      case (Some i)
      then show ?thesis using r c found_thread [OF c] by (auto simp: lagging_ok_def row_ok_def u(1) s)
    qed
  qed
  then show ?thesis using assms(1) by (simp add: local_inv_def lagging_inv_def u(2))
next
  case False
  then show ?thesis using assms by (auto simp: local_inv_def lagging_inv_def lagging_ok_def row_ok_def split: option.splits)
qed

lemma lagging_map:
  assumes "lagging_inv m t" "\<And>r. m_local (f r) = m_local r" "\<And>r. m_thread (f r) = m_thread r" "\<And>r. m_sender (f r) = m_sender r"
    "\<And>r. m_server (f r) = m_server r" "\<And>r. m_unique (f r) = m_unique r" "\<And>r. m_state (f r) = m_state r"
  shows "lagging_inv m (t\<lparr>messages := map f (messages t)\<rparr>)"
proof -
  have "lagging_ok m t (f r) = lagging_ok m t r" for r
    unfolding lagging_ok_def assms(3,5-7) by (rule refl)
  then show ?thesis using assms(1) by (simp add: lagging_inv_def clashes_map [OF assms(2-6)] comp_def assms(2))
qed

lemma lagging_release: "lagging_inv m t \<Longrightarrow> lagging_inv m (release_image m t)"
  unfolding release_image_def by (rule lagging_map) (auto split: if_splits)

lemma set_matches: "set (matches m t) = {r \<in> set (messages t). is_match m r}"
  by (auto simp: matches_def Let_def)

lemma distinct_rows: "local_inv t \<Longrightarrow> r \<in> set (messages t) \<Longrightarrow> q \<in> set (messages t) \<Longrightarrow> m_local r = m_local q \<Longrightarrow> r = q"
  by (auto simp: local_inv_def distinct_map dest: inj_onD)

lemma without_rows_simps [simp]:
  "messages (without_rows ns t) = filter (\<lambda>r. m_local r \<notin> ns) (messages t)" "find_conversation (without_rows ns t) thread = find_conversation t thread"
  "suppressed (without_rows ns t) thread i = suppressed t thread i" "deleted_messages (without_rows ns t) = deleted_messages t"
  by (simp_all add: without_rows_def)

lemma inv_without: "local_inv t \<Longrightarrow> local_inv (without_rows ns t)"
  unfolding without_rows_def by (rule inv_filter)

lemma saveMessage_inv:
  assumes "yields (saveMessage label m) s out s'" "local_inv (local s)"
  shows "local_inv (local s')"
  using assms(1)
proof (cases rule: saveMessage_cases)
  case (hidden c)
  then show ?thesis using inv_filter [OF assms(2)] by (simp add: drop_pending_def)
next
  case deleted
  then show ?thesis using assms(2) by simp
next
  case (written c s1)
  let ?found = "matches m (local s)"
  let ?t = "without_rows (m_local ` set (tl ?found)) (local s)"
  from written(5) show ?thesis
  proof (cases rule: write_message_cases)
    case kept
    then show ?thesis using assms(2) written(4) by simp
  next
    case (stored t2 t3)
    have w: "write_row m ?found ?t = (Some (), t2)" using stored(2) written(4) by simp
    have i: "local_inv ?t" by (rule inv_without [OF assms(2)])
    have "lagging_inv m t2"
    proof (cases ?found)
      case Nil
      then show ?thesis using w written i insert_lagging [of ?t m t2] by (simp add: write_row_def)
    next
      case (Cons r rest)
      then have r: "r \<in> set (messages (local s))" "m_thread r = s_thread m" using set_matches [of m "local s"] by (auto simp: is_match_def)
      have "\<forall>q\<in>set (messages ?t). m_local q = m_local r \<longrightarrow> m_thread q = s_thread m"
        using r distinct_rows [OF assms(2) _ r(1)] by auto
      then show ?thesis using w written(3) Cons update_lagging [OF i, of m "m_local r" t2] by (simp add: write_row_def)
    qed
    then have "lagging_inv m t3" using stored(3) lagging_release by auto
    then show ?thesis using stored(4) lagging_settled [of m t3 label "local s'"] by simp
  qed
qed

section \<open>The other operations\<close>

text \<open>The invariant reads the keys of the conversations, the messages and the tombstones only.\<close>

lemma inv_frame:
  assumes "local_inv t" "messages t' = messages t" "deleted_messages t' = deleted_messages t" "conversations t' = conversations t"
  shows "local_inv t'"
proof -
  have "find_conversation t' = find_conversation t" using assms(4) by (simp add: fun_eq_iff find_conversation_def)
  moreover from this have "suppressed t' = suppressed t" using assms(3) by (simp add: fun_eq_iff suppressed_def)
  ultimately have "row_ok t' = row_ok t" unfolding row_ok_def by (simp only:)
  then show ?thesis using assms(1,2) by (simp add: local_inv_def)
qed

lemma inv_conversations:
  assumes "local_inv t" "messages t' = messages t" "deleted_messages t' = deleted_messages t"
    "\<And>thread c. find_conversation t thread = Some c \<Longrightarrow> \<exists>c'. find_conversation t' thread = Some c' \<and> c_hidden c' = c_hidden c \<and> c_last c \<le> c_last c'"
  shows "local_inv t'"
proof -
  have "row_ok t' r" if "row_ok t r" for r
  proof -
    from that obtain c where c: "find_conversation t (m_thread r) = Some c" by (auto simp: row_ok_def)
    then show ?thesis using that assms(4) [OF c] assms(3) by (auto simp: row_ok_def suppressed_def split: option.splits)
  qed
  then show ?thesis using assms(1,2) by (simp add: local_inv_def)
qed

lemma find_put_conversation:
  "find_conversation (put_conversation v t) thread =
     (if find_conversation t (v_thread v) = None
      then if thread = v_thread v then Some \<lparr>c_thread = v_thread v, c_other = v_other v, c_last = v_last v, c_time = v_time v, c_summary = v_summary v, c_hidden = 0\<rparr>
        else find_conversation t thread
      else map_option (\<lambda>c. if c_thread c = v_thread v then c\<lparr>c_other := v_other v, c_time := (if c_last c \<le> v_last v then v_time v else c_time c),
        c_last := max (c_last c) (v_last v)\<rparr> else c) (find_conversation t thread))"
proof (cases "find_conversation t (v_thread v) = None")
  case True
  have "find (\<lambda>c. c_thread c = k) (cs @ [c]) = (case find (\<lambda>c. c_thread c = k) cs of None \<Rightarrow> if c_thread c = k then Some c else None | r \<Rightarrow> r)"
    for k cs and c :: conversation_row by (induction cs) auto
  then show ?thesis using True by (auto simp: put_conversation_def find_conversation_def split: option.splits)
next
  case False
  then obtain d where "find (\<lambda>c. c_thread c = v_thread v) (conversations t) = Some d" by (auto simp: find_conversation_def)
  then show ?thesis by (simp add: put_conversation_def find_conversation_def find_map_conversations)
qed

lemma inv_put_conversation: "local_inv t \<Longrightarrow> local_inv (put_conversation v t)"
proof (rule inv_conversations)
  show "\<exists>c'. find_conversation (put_conversation v t) thread = Some c' \<and> c_hidden c' = c_hidden c \<and> c_last c \<le> c_last c'"
    if "find_conversation t thread = Some c" for thread c
    using that by (auto simp: find_put_conversation)
qed (simp_all add: put_conversation_def)

lemma find_hide_history:
  "find_conversation (hide_history thread t) k = map_option (\<lambda>c. if c_thread c = thread
     then c\<lparr>c_hidden := hidden_boundary thread t c, c_summary := []\<rparr>
     else c) (find_conversation t k)"
  by (simp add: hide_history_def find_conversation_def find_map_conversations)

lemma inv_clear:
  assumes "local_inv t"
  shows "local_inv (drop_confirmed thread (hide_history thread t))"
proof -
  let ?t = "hide_history thread t" and ?P = "\<lambda>r. \<not> (m_thread r = thread \<and> m_server r \<noteq> None)"
  have "row_ok ?t r" if r: "row_ok t r" "?P r" for r
  proof (cases "m_thread r = thread")
    case True
    then show ?thesis using r by (auto simp: row_ok_def find_hide_history)
  next
    case False
    then have "find_conversation ?t (m_thread r) = find_conversation t (m_thread r)"
      by (cases "find_conversation t (m_thread r)") (auto simp: find_hide_history dest: found_thread)
    moreover have "deleted_messages ?t = deleted_messages t" by (simp add: hide_history_def)
    ultimately show ?thesis using r(1) by (cases "m_server r") (auto simp: row_ok_def suppressed_def)
  qed
  moreover have "local_inv (drop_confirmed thread t)" unfolding drop_confirmed_def by (rule inv_filter [OF assms])
  moreover have "messages ?t = messages t" by (simp add: hide_history_def)
  ultimately show ?thesis using assms by (auto simp: local_inv_def drop_confirmed_def)
qed

lemma inv_bury:
  assumes "local_inv t"
  shows "local_inv (deleted_summary txt thread i (drop_message thread i (bury thread i t)))"
proof (rule inv_conversations)
  have "suppressed (bury thread i t) k j \<longleftrightarrow> suppressed t k j \<or> k = thread \<and> j = i" for k j
    by (auto simp: suppressed_def bury_def find_conversation_def)
  moreover have "find_conversation (bury thread i t) k = find_conversation t k" for k by (simp add: bury_def find_conversation_def)
  ultimately have "row_ok (bury thread i t) r" if "row_ok t r" "\<not> (m_thread r = thread \<and> m_server r = Some i)" for r
    using that by (auto simp: row_ok_def split: option.splits)
  moreover have "local_inv (drop_message thread i t)" unfolding drop_message_def by (rule inv_filter [OF assms])
  moreover have "messages (bury thread i t) = messages t" by (simp add: bury_def)
  ultimately show "local_inv (drop_message thread i (bury thread i t))" using assms by (auto simp: local_inv_def drop_message_def)
  show "\<exists>c'. find_conversation (deleted_summary txt thread i (drop_message thread i (bury thread i t))) k = Some c' \<and> c_hidden c' = c_hidden c \<and> c_last c \<le> c_last c'"
    if "find_conversation (drop_message thread i (bury thread i t)) k = Some c" for k c
    using that by (simp add: deleted_summary_def drop_message_def find_conversation_def find_map_conversations)
qed (simp_all add: deleted_summary_def)

text \<open>The rest of an account's life, one operation at a time; what is announced is the keys of \<^verbatim>\<open>SaveMessages\<close>.\<close>

datatype local_op =
    Save_messages "stored_message list" int int int
  | Save_conversations "stored_conversation list"
  | Forget_profile int
  | Mark_unconfirmed string bool
  | Clear_history int bool
  | Delete_messages string int "int list"
  | Save_draft int "draft_part list"
  | Register_attachment attachment_row
  | Open_account nat string

definition unannounced :: "'a option \<times> lite \<Rightarrow> (int \<times> int) set \<times> lite" where
  "unannounced = apfst (\<lambda>_. {})"

fun run_local :: "(int \<Rightarrow> string) \<Rightarrow> local_op \<Rightarrow> lite \<Rightarrow> (int \<times> int) set \<times> lite" where
  "run_local label (Save_messages ms thread cursor clear) s = (case SaveMessages label ms thread cursor clear s of
     (None, s') \<Rightarrow> ({}, s') | (Some k, s') \<Rightarrow> (new_keys k, s'))"
| "run_local label (Save_conversations vs) s = unannounced (SaveConversations vs s)"
| "run_local label (Forget_profile thread) s = unannounced (ForgetGroupProfile thread s)"
| "run_local label (Mark_unconfirmed unique failed) s = unannounced (MarkUnconfirmed unique failed s)"
| "run_local label (Clear_history thread confirmed_only) s = unannounced (ClearLocalHistory thread confirmed_only s)"
| "run_local label (Delete_messages txt thread ids) s = unannounced (DeleteLocalMessages txt thread ids s)"
| "run_local label (Save_draft thread parts) s = unannounced (SaveDraft thread parts s)"
| "run_local label (Register_attachment a) s = unannounced (RegisterAttachment a s)"
| "run_local label (Open_account prior placeholder) s = unannounced (OpenAccount prior placeholder s)"

primrec run_locals :: "(int \<Rightarrow> string) \<Rightarrow> local_op list \<Rightarrow> lite \<Rightarrow> (int \<times> int) set list \<times> lite" where
  "run_locals label [] s = ([], s)"
| "run_locals label (p # ps) s = (let (k, s1) = run_local label p s; (ks, s2) = run_locals label ps s1 in (k # ks, s2))"

fun messages_of :: "local_op \<Rightarrow> stored_message set" where
  "messages_of (Save_messages ms _ _ _) = set ms"
| "messages_of _ = {}"

text \<open>What every change a step makes keeps, every step keeps.\<close>

lemma unsuccessful: "fst (lite_do f s) = None \<Longrightarrow> local (snd (lite_do f s)) = local s"
  by (auto simp: lite_do_def Let_def split: prod.splits option.splits if_splits dest: next_trouble_local)

lemma change_kept:
  assumes "P (local s)" "P (f (local s))"
  shows "P (local (snd (lite_change f s)))"
proof (cases "lite_change f s")
  case (Pair r s')
  then show ?thesis
    using assms yields_change [of f s "()" s'] unsuccessful [of "\<lambda>t. (Some (), f t)" s] by (cases r) (auto simp: yields_def lite_change_def)
qed

lemma transaction_kept:
  assumes "P (local s)" "\<And>x s1 s2. yields body s1 x s2 \<Longrightarrow> local s1 = local s \<Longrightarrow> P (local s2)"
  shows "P (local (snd (lite_transaction body s)))"
  using lite_transaction_cases [of body s] assms by metis

lemma checked_kept: "P (local s) \<Longrightarrow> (b \<Longrightarrow> P (local (snd (m s)))) \<Longrightarrow> P (local (snd (lite_then (lite_checked b) m s)))"
  by (simp add: lite_bind_def lite_checked_def)

text \<open>A message's number, keys and confirmation are all that a row's later changes leave.\<close>

definition same_keys :: "(local_row \<Rightarrow> local_row) \<Rightarrow> bool" where
  "same_keys f \<longleftrightarrow> (\<forall>r. m_local (f r) = m_local r \<and> m_thread (f r) = m_thread r \<and> m_sender (f r) = m_sender r \<and> m_server (f r) = m_server r \<and>
     m_unique (f r) = m_unique r \<and> ((m_state r = 1 \<longleftrightarrow> m_server r \<noteq> None) \<longrightarrow> (m_state (f r) = 1 \<longleftrightarrow> m_state r = 1)))"

text \<open>Saving a batch of messages.\<close>

definition after_batch :: "int \<Rightarrow> int \<Rightarrow> int \<Rightarrow> local_tables \<Rightarrow> local_tables" where
  "after_batch thread cursor clear t = (let t1 = (if 0 < thread \<and> 0 \<le> cursor then advance_cursor thread cursor t else t) in
     if 0 < clear then clear_draft clear t1 else t1)"

lemma after_batch_simps [simp]:
  "messages (after_batch thread cursor clear t) = messages t" "conversations (after_batch thread cursor clear t) = conversations t"
  "deleted_messages (after_batch thread cursor clear t) = deleted_messages t"
  by (simp_all add: after_batch_def Let_def advance_cursor_def clear_draft_def)

lemma SaveMessages_cases:
  obtains (failed) "fst (SaveMessages label ms thread cursor clear s) = None" "local (snd (SaveMessages label ms thread cursor clear s)) = local s"
    | (committed) s3 outcomes s4 where "local s3 = local s" "yields (lite_each (saveMessage label) ms) s3 outcomes s4"
        "0 < thread \<longrightarrow> page_end thread (confirmed_cursor (local s) thread) ms = Some cursor"
        "local (snd (SaveMessages label ms thread cursor clear s)) = after_batch thread cursor clear (local s4)"
        "fst (SaveMessages label ms thread cursor clear s) =
           Some \<lparr>new_keys = {k \<in> keys_of ms outcomes New. 0 < snd k}, suppressed_keys = keys_of ms outcomes Suppressed\<rparr>"
proof -
  let ?check = "if 0 < thread then lite_bind (lite_select (\<lambda>t. confirmed_cursor t thread)) (\<lambda>previous. lite_checked (page_end thread previous ms = Some cursor))
    else lite_return ()"
  let ?keys = "\<lambda>outcomes. \<lparr>new_keys = {k \<in> keys_of ms outcomes New. 0 < snd k}, suppressed_keys = keys_of ms outcomes Suppressed\<rparr>"
  let ?body = "lite_then ?check (lite_bind (lite_each (saveMessage label) ms) (\<lambda>outcomes.
      lite_then (lite_when (0 < thread \<and> 0 \<le> cursor) (lite_change (advance_cursor thread cursor)))
        (lite_then (lite_when (0 < clear) (lite_change (clear_draft clear))) (lite_return (?keys outcomes)))))"
  have def: "SaveMessages label ms thread cursor clear s = lite_transaction ?body s" by (simp add: SaveMessages_def)
  show thesis
  proof (cases rule: lite_transaction_cases [of ?body s])
    case failed
    then show thesis using that(1) def by simp
  next
    case (committed x s1 s2)
    from committed(1) obtain u1 s3 outcomes s4 u2 s5 u3 where g: "yields ?check s1 u1 s3" "yields (lite_each (saveMessage label) ms) s3 outcomes s4"
        "yields (lite_when (0 < thread \<and> 0 \<le> cursor) (lite_change (advance_cursor thread cursor))) s4 u2 s5"
        "yields (lite_when (0 < clear) (lite_change (clear_draft clear))) s5 u3 s2" "x = ?keys outcomes" by auto
    have "local s3 = local s" "0 < thread \<longrightarrow> page_end thread (confirmed_cursor (local s) thread) ms = Some cursor"
      using g(1) committed(2) by (auto split: if_splits dest!: yields_select)
    moreover have "local s2 = after_batch thread cursor clear (local s4)"
      using g(3,4) by (auto simp: yields_when after_batch_def split: if_splits dest!: yields_change)
    ultimately show thesis using that(2) [of s3 outcomes s4] g(2,5) committed(3,4) def by simp
  qed
qed

text \<open>A promise of the store that most operations keep: a property of the tables that their changes keep while no position moves.\<close>

locale store_part =
  fixes P :: "local_tables \<Rightarrow> bool"
  assumes aside: "P t \<Longrightarrow> messages t' = messages t \<Longrightarrow> conversations t' = conversations t \<Longrightarrow> deleted_messages t' = deleted_messages t \<Longrightarrow>
        sync_state t' = sync_state t \<Longrightarrow> P t'"
    and conversation: "P t \<Longrightarrow> P (put_conversation v t)"
    and marked: "P t \<Longrightarrow> same_keys f \<Longrightarrow> P (t\<lparr>messages := map f (messages t)\<rparr>)"
    and cleared: "P t \<Longrightarrow> P (drop_confirmed thread (hide_history thread t))"
    and buried: "P t \<Longrightarrow> P (deleted_summary txt thread i (drop_message thread i (bury thread i t)))"
begin

lemma kept_conversations:
  assumes "P (local s)"
  shows "P (local (snd (SaveConversations vs s)))"
  unfolding SaveConversations_def
proof (rule transaction_kept [of P, OF assms])
  fix x s1 s2
  assume "yields (lite_then (lite_each (\<lambda>v. lite_then (lite_change (put_conversation v))
      (lite_when (v_group v \<noteq> []) (lite_change (put_profile v)))) vs) (lite_return ())) s1 x s2" and s1: "local s1 = local s"
  then obtain us where "yields (lite_each (\<lambda>v. lite_then (lite_change (put_conversation v)) (lite_when (v_group v \<noteq> []) (lite_change (put_profile v)))) vs) s1 us s2"
    by auto
  then show "P (local s2)"
  proof (rule yields_each [of _ _ _ _ _ P])
    fix v s y s'
    assume "P (local s)" "yields (lite_then (lite_change (put_conversation v)) (lite_when (v_group v \<noteq> []) (lite_change (put_profile v)))) s y s'"
    moreover from this have "local s' = put_conversation v (local s) \<or> local s' = put_profile v (put_conversation v (local s))"
      by (auto simp: yields_when split: if_splits dest!: yields_change)
    ultimately show "P (local s')"
      using conversation [of "local s" v] aside [of "put_conversation v (local s)" "put_profile v (put_conversation v (local s))"] by (auto simp: put_profile_def)
  qed (use assms s1 in simp)
qed

lemma kept_clear:
  assumes "P (local s)"
  shows "P (local (snd (ClearLocalHistory thread confirmed_only s)))"
  unfolding ClearLocalHistory_def
proof (rule transaction_kept [of P, OF assms])
  fix x s1 s2
  let ?check = "if confirmed_only then lite_bind (lite_select (\<lambda>t. \<exists>r\<in>set (messages t). m_thread r = thread \<and> m_server r = None)) (\<lambda>pending. lite_checked (\<not> pending))
    else lite_return ()"
  assume "yields (lite_then (lite_checked (0 < thread)) (lite_bind (lite_select (\<lambda>t. find_conversation t thread \<noteq> None)) (\<lambda>exists.
     lite_then (lite_checked exists) (lite_then ?check (lite_then (lite_change (hide_history thread)) (lite_then (lite_change (drop_confirmed thread))
       (lite_select (\<lambda>t. case find_conversation t thread of None \<Rightarrow> 0 | Some c \<Rightarrow> c_hidden c)))))))) s1 x s2"
    and s1: "local s1 = local s"
  then obtain s3 e u s4 s5 s6 u1 u2 where g: "yields (lite_select (\<lambda>t. find_conversation t thread \<noteq> None)) s1 e s3" "yields ?check s3 u s4"
      "yields (lite_change (hide_history thread)) s4 u1 s5" "yields (lite_change (drop_confirmed thread)) s5 u2 s6"
      "yields (lite_select (\<lambda>t. case find_conversation t thread of None \<Rightarrow> 0 | Some c \<Rightarrow> c_hidden c)) s6 x s2" by (elim yields_bindE) auto
  have "local s4 = local s" using g(1,2) s1 by (auto split: if_splits dest!: yields_select)
  then have "local s2 = drop_confirmed thread (hide_history thread (local s))"
    using yields_change [OF g(3)] yields_change [OF g(4)] yields_select [OF g(5)] by simp
  then show "P (local s2)" using cleared [OF assms] by simp
qed

lemma kept_delete:
  assumes "P (local s)"
  shows "P (local (snd (DeleteLocalMessages txt thread ids s)))"
  unfolding DeleteLocalMessages_def
proof (rule checked_kept [of P, OF assms], rule transaction_kept [of P, OF assms])
  fix x s1 s2
  let ?f = "\<lambda>i. lite_then (lite_change (bury thread i)) (lite_then (lite_change (drop_message thread i)) (lite_change (deleted_summary txt thread i)))"
  assume "yields (lite_bind (lite_select (\<lambda>t. find_conversation t thread \<noteq> None)) (\<lambda>exists.
      lite_then (lite_checked exists) (lite_then (lite_each ?f (remdups ids)) (lite_return ())))) s1 x s2" and s1: "local s1 = local s"
  then obtain e s3 us where g: "yields (lite_select (\<lambda>t. find_conversation t thread \<noteq> None)) s1 e s3" "yields (lite_each ?f (remdups ids)) s3 us s2"
    by (elim yields_bindE) auto
  show "P (local s2)"
  proof (rule yields_each [OF g(2), of P])
    fix i s y s'
    assume "P (local s)" "yields (?f i) s y s'"
    moreover from this(2) have "local s' = deleted_summary txt thread i (drop_message thread i (bury thread i (local s)))" by (auto dest!: yields_change)
    ultimately show "P (local s')" using buried by simp
  qed (use yields_select [OF g(1)] s1 assms in simp)
qed

lemma kept_draft:
  assumes "P (local s)"
  shows "P (local (snd (SaveDraft thread parts s)))"
  unfolding SaveDraft_def
proof (rule transaction_kept [of P, OF assms])
  fix x s1 s2
  let ?trim = "\<lambda>t. t\<lparr>drafts := filter (\<lambda>(k, i, _). \<not> (k = thread \<and> length parts \<le> i)) (drafts t)\<rparr>"
  assume "yields (lite_then (lite_change ?trim) (lite_then (lite_each (\<lambda>part. lite_change (put_draft thread part)) (enumerate 0 parts)) (lite_return ()))) s1 x s2"
    and s1: "local s1 = local s"
  then obtain u s3 us where g: "yields (lite_change ?trim) s1 u s3" "yields (lite_each (\<lambda>part. lite_change (put_draft thread part)) (enumerate 0 parts)) s3 us s2"
    by auto
  have "P (local s3)" using yields_change [OF g(1)] s1 aside [OF assms, of "?trim (local s)"] by simp
  then show "P (local s2)"
  proof (rule yields_each [OF g(2), of P, rotated])
    fix part s y s'
    assume "P (local s)" "yields (lite_change (put_draft thread part)) s y s'"
    then show "P (local s')" using aside [of "local s" "put_draft thread part (local s)"] by (auto simp: put_draft_def dest!: yields_change)
  qed
qed

lemma kept_attachment:
  assumes "P (local s)"
  shows "P (local (snd (RegisterAttachment a s)))"
  unfolding RegisterAttachment_def
proof (rule transaction_kept [of P, OF assms])
  fix x s1 s2
  assume y: "yields (lite_then (lite_change (put_attachment a)) (lite_change (release_copies (a_file a)))) s1 x s2" and s1: "local s1 = local s"
  then have s2: "local s2 = release_copies (a_file a) (put_attachment a (local s))" by (auto dest!: yields_change)
  have "P (put_attachment a (local s))" by (rule aside [OF assms]) (simp_all add: put_attachment_def)
  from marked [OF this, of "\<lambda>r. if m_content r = a_file a \<and> m_type r \<in> {1, 3} \<and> m_server r \<noteq> None \<and> m_image r \<noteq> None then r\<lparr>m_image := None\<rparr> else r"]
  show "P (local s2)" by (simp add: s2 release_copies_def same_keys_def)
qed

lemma kept_mark: "P (local s) \<Longrightarrow> P (local (snd (MarkUnconfirmed unique failed s)))"
  unfolding MarkUnconfirmed_def
proof (rule change_kept [of P])
  let ?f = "\<lambda>r. if m_unique r = Some unique \<and> m_server r = None then r\<lparr>m_state := (if failed then 3 else 2)\<rparr> else r"
  assume "P (local s)"
  from marked [OF this, of ?f] show "P ((local s)\<lparr>messages := map ?f (messages (local s))\<rparr>)" by (simp add: same_keys_def)
qed

lemma kept_forget: "P (local s) \<Longrightarrow> P (local (snd (ForgetGroupProfile thread s)))"
  unfolding ForgetGroupProfile_def by (rule change_kept [of P]) (auto intro: aside)

end

text \<open>A promise that every operation keeps, the messages saved being of a set.\<close>

locale store_law = store_part P for P +
  fixes label :: "int \<Rightarrow> string" and M :: "stored_message set"
  assumes saved: "m \<in> M \<Longrightarrow> yields (saveMessage label m) s out s' \<Longrightarrow> P (local s) \<Longrightarrow> P (local s')"
    and moved: "P t \<Longrightarrow> P (t\<lparr>sync_state := x\<rparr>)"
begin

lemma anywhere:
  assumes "P t" "messages t' = messages t" "conversations t' = conversations t" "deleted_messages t' = deleted_messages t"
  shows "P t'"
  by (rule aside [OF moved [OF assms(1)], of _ "sync_state t'"]) (simp_all add: assms)

lemma kept_messages:
  assumes "P (local s)" "set ms \<subseteq> M"
  shows "P (local (snd (SaveMessages label ms thread cursor clear s)))"
proof (cases rule: SaveMessages_cases [of label ms thread cursor clear s])
  case (committed s3 outcomes s4)
  then have "P (local s4)" using yields_each [OF committed(2), of P] saved assms by (metis subsetD)
  then show ?thesis unfolding committed(4) by (rule anywhere) simp_all
qed (use assms in simp)

lemma kept_open:
  assumes "P (local s)"
  shows "P (local (snd (OpenAccount prior placeholder s)))"
  unfolding OpenAccount_def
proof (rule transaction_kept [of P, OF assms])
  fix x s1 s2
  let ?f = "\<lambda>r. if m_server r = None \<and> m_state r = 0 then r\<lparr>m_state := 2\<rparr> else r"
  assume y: "yields (lite_then (lite_when (prior < 4) (lite_change (refetch_voice placeholder))) (lite_change (\<lambda>t. t\<lparr>messages := map ?f (messages t)\<rparr>))) s1 x s2"
    and s1: "local s1 = local s"
  let ?mark = "\<lambda>t. t\<lparr>messages := map ?f (messages t)\<rparr>"
  have mark: "P (?mark t)" if "P t" for t using marked [OF that, of ?f] by (simp add: same_keys_def)
  have r: "P (refetch_voice placeholder (local s))" by (rule anywhere [OF assms]) (simp_all add: refetch_voice_def)
  from y s1 have "local s2 = ?mark (local s) \<or> local s2 = ?mark (refetch_voice placeholder (local s))"
    by (auto simp: yields_when split: if_splits dest!: yields_change)
  then show "P (local s2)" using mark [OF assms] mark [OF r] by (elim disjE) (simp_all only:)
qed

lemma run_local_kept: "P (local s) \<Longrightarrow> messages_of p \<subseteq> M \<Longrightarrow> P (local (snd (run_local label p s)))"
  using kept_messages kept_conversations kept_forget kept_mark kept_clear kept_delete kept_draft kept_attachment kept_open
  by (cases p) (auto simp: unannounced_def split: prod.splits option.splits, metis snd_conv, metis snd_conv)

lemma run_locals_kept: "P (local s) \<Longrightarrow> \<forall>p\<in>set ps. messages_of p \<subseteq> M \<Longrightarrow> P (local (snd (run_locals label ps s)))"
proof (induction ps arbitrary: s)
  case (Cons p ps)
  then have "P (local (snd (run_local label p s)))" by (simp add: run_local_kept)
  then show ?case using Cons by (simp add: Let_def split: prod.splits) (metis snd_conv)
qed simp

end

lemma inv_law: "store_law local_inv label UNIV"
proof
  show "local_inv t \<Longrightarrow> same_keys f \<Longrightarrow> local_inv (t\<lparr>messages := map f (messages t)\<rparr>)" for t f
    by (rule inv_map) (auto simp: same_keys_def)
qed (auto intro: saveMessage_inv inv_frame inv_put_conversation inv_clear inv_bury)

interpretation inv: store_law local_inv label UNIV for label
  by (rule inv_law)

text \<open>The positions move when messages are saved, and when an account is opened, only.\<close>

lemma cursor_law: "store_part (\<lambda>t. sync_state t = x)"
  by unfold_locales (simp_all add: put_conversation_def drop_confirmed_def hide_history_def deleted_summary_def drop_message_def bury_def)

interpretation cursor: store_part "\<lambda>t. sync_state t = x" for x
  by (rule cursor_law)

end
