(* ===== verification/LocalHistory.thy ===== *)
theory LocalHistory
  imports LocalStoreFacts
begin

text \<open>
  What the client's store promises over an account's whole life: its rows are sound, what was removed stays away, the messages of the
  server are announced when they are first known and only then, and a conversation synchronised up to its position misses nothing.
\<close>

section \<open>What is known of the server's messages\<close>

definition fresh_store :: "bool list \<Rightarrow> lite" where
  "fresh_store bs = \<lparr>local = no_local_tables, troubles = bs\<rparr>"

definition confirmed :: "local_tables \<Rightarrow> (int \<times> int \<times> int \<times> string option) set" where
  "confirmed t = {(m_thread r, i, m_sender r, m_unique r) | r i. r \<in> set (messages t) \<and> m_server r = Some i}"

definition known :: "local_tables \<Rightarrow> int \<Rightarrow> int \<Rightarrow> bool" where
  "known t thread i \<longleftrightarrow> (\<exists>r\<in>set (messages t). m_thread r = thread \<and> m_server r = Some i) \<or> suppressed t thread i"

lemma confirmed_iff:
  "(thread, i, a, u) \<in> confirmed t \<longleftrightarrow> (\<exists>r\<in>set (messages t). m_thread r = thread \<and> m_server r = Some i \<and> m_sender r = a \<and> m_unique r = u)"
  by (auto simp: confirmed_def)

lemma confirmedI: "r \<in> set (messages t) \<Longrightarrow> m_server r = Some i \<Longrightarrow> (m_thread r, i, m_sender r, m_unique r) \<in> confirmed t"
  unfolding confirmed_def by blast

lemma confirmed_map:
  assumes "\<And>r. m_thread (f r) = m_thread r" "\<And>r. m_server (f r) = m_server r" "\<And>r. m_sender (f r) = m_sender r" "\<And>r. m_unique (f r) = m_unique r"
  shows "confirmed (t\<lparr>messages := map f (messages t)\<rparr>) = confirmed t"
  by (auto simp: set_eq_iff confirmed_iff assms)

lemma known_confirmed: "known t thread i \<longleftrightarrow> (\<exists>a u. (thread, i, a, u) \<in> confirmed t) \<or> suppressed t thread i"
  by (auto simp: known_def confirmed_def)

text \<open>The server names one sender and client key for each of its messages, and no client key twice.\<close>

definition server_names :: "(int \<Rightarrow> int \<Rightarrow> int \<times> string) \<Rightarrow> bool" where
  "server_names attr \<longleftrightarrow> (\<forall>thread i j. attr thread i = attr thread j \<and> snd (attr thread i) \<noteq> [] \<longrightarrow> i = j)"

definition named_by :: "(int \<Rightarrow> int \<Rightarrow> int \<times> string) \<Rightarrow> stored_message set" where
  "named_by attr = {m. 0 < s_server m \<longrightarrow> attr (s_thread m) (s_server m) = (s_sender m, s_unique m)}"

definition agreed :: "(int \<Rightarrow> int \<Rightarrow> int \<times> string) \<Rightarrow> local_tables \<Rightarrow> bool" where
  "agreed attr t \<longleftrightarrow> (\<forall>(thread, i, a, u)\<in>confirmed t. a = fst (attr thread i) \<and> u = some_text (snd (attr thread i)))"

lemma agreed_row:
  "agreed attr t \<Longrightarrow> r \<in> set (messages t) \<Longrightarrow> m_server r = Some i \<Longrightarrow>
   m_sender r = fst (attr (m_thread r) i) \<and> m_unique r = some_text (snd (attr (m_thread r) i))"
  unfolding agreed_def confirmed_def by blast

section \<open>The rows of one message\<close>

lemma matches_once:
  assumes "local_inv t" "r \<in> set (messages t)" "q \<in> set (messages t)" "same_server r q \<or> same_unique r q"
  shows "r = q"
proof -
  have "m_local q = m_local r" using assms unfolding local_inv_def clashes_def by blast
  then show ?thesis using distinct_rows [OF assms(1-3)] by simp
qed

lemma pending_first:
  "was_confirmed (matches m t) \<longleftrightarrow> matches m t \<noteq> [] \<and> (\<forall>r\<in>set (matches m t). m_server r \<noteq> None)"
proof (cases "filter (\<lambda>r. m_server r = None) (filter (is_match m) (messages t))")
  case Nil
  then have p: "r \<in> set (messages t) \<Longrightarrow> is_match m r \<Longrightarrow> m_server r \<noteq> None" for r by (auto simp: filter_empty_conv)
  then show ?thesis using set_matches [of m t] unfolding was_confirmed_def by (cases "matches m t") auto
next
  case (Cons r rs)
  let ?ps = "filter (\<lambda>r. m_server r = None) (filter (is_match m) (messages t))"
  obtain q qs where q: "sort_key m_local ?ps = q # qs" using Cons by (metis list.exhaust length_0_conv length_sort list.simps(3))
  then have "q \<in> set ?ps" by (metis list.set_intros(1) set_sort)
  then have "m_server q = None" by simp
  moreover have "\<exists>ys. matches m t = q # ys" using q by (simp add: matches_def Let_def)
  ultimately show ?thesis by (auto simp: was_confirmed_def)
qed

lemma matched_server:
  assumes agreed: "agreed attr t" and names: "server_names attr" and m: "m \<in> named_by attr"
    and h: "r \<in> set (matches m t)" "m_server r = Some j" "0 < s_server m"
  shows "j = s_server m \<and> m_thread r = s_thread m \<and> m_sender r = s_sender m \<and> m_unique r = some_text (s_unique m)"
proof -
  have r: "r \<in> set (messages t)" "is_match m r" using h(1) set_matches by auto
  have a: "attr (s_thread m) (s_server m) = (s_sender m, s_unique m)" using m h(3) by (simp add: named_by_def)
  have b: "m_sender r = fst (attr (m_thread r) j)" "m_unique r = some_text (snd (attr (m_thread r) j))" using agreed_row [OF agreed r(1) h(2)] by auto
  have th: "m_thread r = s_thread m" using r(2) by (simp add: is_match_def)
  have "j = s_server m"
  proof (rule ccontr)
    assume n: "j \<noteq> s_server m"
    then have "m_sender r = s_sender m" "s_unique m \<noteq> []" "m_unique r = Some (s_unique m)" using r(2) h(2) by (auto simp: is_match_def)
    then have "attr (s_thread m) j = attr (s_thread m) (s_server m)" "snd (attr (s_thread m) j) \<noteq> []"
      using a b th by (auto simp: some_text_def prod_eq_iff split: if_splits)
    then show False using names n unfolding server_names_def by blast
  qed
  then show ?thesis using a b th by simp
qed

lemma matched_confirmed:
  assumes inv: "local_inv t" and agreed: "agreed attr t" and names: "server_names attr" and m: "m \<in> named_by attr" and h: "0 < s_server m"
  shows "was_confirmed (matches m t) \<longleftrightarrow> (\<exists>r\<in>set (messages t). m_thread r = s_thread m \<and> m_server r = Some (s_server m))"
proof
  assume "was_confirmed (matches m t)"
  then obtain r j where "r \<in> set (matches m t)" "m_server r = Some j" using pending_first [of m t] by (cases "matches m t") auto
  then show "\<exists>r\<in>set (messages t). m_thread r = s_thread m \<and> m_server r = Some (s_server m)"
    using matched_server [OF agreed names m, of r j] h set_matches [of m t] by auto
next
  assume "\<exists>r\<in>set (messages t). m_thread r = s_thread m \<and> m_server r = Some (s_server m)"
  then obtain r where r: "r \<in> set (messages t)" "m_thread r = s_thread m" "m_server r = Some (s_server m)" by blast
  have f: "r \<in> set (matches m t)" using r h set_matches [of m t] by (simp add: is_match_def)
  show "was_confirmed (matches m t)"
  proof (rule ccontr)
    assume "\<not> was_confirmed (matches m t)"
    then obtain q where q: "q \<in> set (messages t)" "is_match m q" "m_server q = None" using f pending_first [of m t] set_matches [of m t] by auto
    then have "m_thread q = s_thread m" "m_sender q = s_sender m" "s_unique m \<noteq> []" "m_unique q = Some (s_unique m)"
      using h by (auto simp: is_match_def)
    moreover have "m_sender r = s_sender m" "m_unique r = some_text (s_unique m)" using matched_server [OF agreed names m f r(3) h] by auto
    ultimately have "same_unique q r" using r(2) by (simp add: same_unique_def some_text_def)
    then show False using matches_once [OF inv q(1) r(1)] q(3) r(3) by auto
  qed
qed

text \<open>What writing a message makes of the confirmed rows.\<close>

definition key_of :: "stored_message \<Rightarrow> (int \<times> int \<times> int \<times> string option) set" where
  "key_of m = (if 0 < s_server m then {(s_thread m, s_server m, s_sender m, some_text (s_unique m))} else {})"

lemma confirmed_insert: "insert_row m t = (Some (), t') \<Longrightarrow> confirmed t' = confirmed t \<union> key_of m"
proof -
  assume "insert_row m t = (Some (), t')"
  then have t': "t' = t\<lparr>messages := messages t @ [new_row m (next_local (messages t))]\<rparr>" by (auto simp: insert_row_def Let_def split: if_splits)
  have "confirmed (t\<lparr>messages := messages t @ [r]\<rparr>) = confirmed t \<union> {(m_thread r, i, m_sender r, m_unique r) | i. m_server r = Some i}" for r
    unfolding confirmed_def by (simp add: set_eq_iff) blast
  then show ?thesis by (simp add: t' key_of_def new_row_def)
qed

lemma confirmed_release: "confirmed (release_image m t) = confirmed t"
  unfolding release_image_def by (rule confirmed_map) (auto split: if_splits)

lemma pending_once:
  assumes "local_inv t" "s_server m \<le> 0" "matches m t = r # rs"
  shows "rs = []"
proof -
  have "q = r" if "q \<in> set (matches m t)" for q
  proof -
    have "r \<in> set (matches m t)" using assms(3) by simp
    then have "same_unique q r" "q \<in> set (messages t)" "r \<in> set (messages t)" using that assms(2) set_matches [of m t] by (auto simp: is_match_def same_unique_def)
    then show ?thesis using matches_once [OF assms(1)] by blast
  qed
  moreover have "distinct (matches m t)"
    using assms(1) by (auto simp: matches_def Let_def local_inv_def distinct_map)
  ultimately show ?thesis using assms(3) by (cases rs) auto
qed

lemma confirmed_update:
  assumes inv: "local_inv t" and agreed: "agreed attr t" and names: "server_names attr" and m: "m \<in> named_by attr" and found: "matches m t = r # rs"
    and w: "update_row m (m_local r) (without_rows (m_local ` set rs) t) = (Some (), t')" and c: "was_confirmed (r # rs) \<longrightarrow> 0 < s_server m"
  shows "confirmed t' = confirmed t \<union> key_of m"
proof -
  let ?f = "\<lambda>q. if m_local q = m_local r then updated_row m q else q"
  have ms: "messages t' = map ?f (filter (\<lambda>q. m_local q \<notin> m_local ` set rs) (messages t))" using w by (auto simp: update_row_def Let_def split: if_splits)
  have d: "distinct (matches m t)" using inv by (auto simp: matches_def Let_def local_inv_def distinct_map)
  have r: "r \<in> set (messages t)" "is_match m r" using found set_matches [of m t] by auto
  have rr: "q = r" if "q \<in> set (messages t)" "m_local q = m_local r" for q using distinct_rows [OF inv that(1) r(1) that(2)] .
  have gone: "q \<in> set rs" if "q \<in> set (messages t)" "m_local q \<in> m_local ` set rs" for q
    using that distinct_rows [OF inv that(1)] found set_matches [of m t] by (metis (no_types, lifting) imageE list.set_intros(2) mem_Collect_eq)
  have stays: "r \<in> set (filter (\<lambda>q. m_local q \<notin> m_local ` set rs) (messages t))" using r gone [of r] d found by auto
  have set': "set (messages t') = insert (updated_row m r) {q \<in> set (messages t). q \<noteq> r \<and> q \<notin> set rs}"
  proof
    show "set (messages t') \<subseteq> insert (updated_row m r) {q \<in> set (messages t). q \<noteq> r \<and> q \<notin> set rs}"
    proof
      fix x
      assume "x \<in> set (messages t')"
      then obtain q where q: "q \<in> set (messages t)" "m_local q \<notin> m_local ` set rs" "x = ?f q" unfolding ms by auto
      then show "x \<in> insert (updated_row m r) {q \<in> set (messages t). q \<noteq> r \<and> q \<notin> set rs}"
        using rr [OF q(1)] by (cases "m_local q = m_local r") auto
    qed
    have "updated_row m r \<in> set (messages t')" unfolding ms using stays by force
    moreover have "q \<in> set (messages t')" if "q \<in> set (messages t)" "q \<noteq> r" "q \<notin> set rs" for q
      unfolding ms using that rr gone by force
    ultimately show "insert (updated_row m r) {q \<in> set (messages t). q \<noteq> r \<and> q \<notin> set rs} \<subseteq> set (messages t')" by auto
  qed
  show ?thesis
  proof (cases "0 < s_server m")
    case True
    note k = matched_server [OF agreed names m _ _ True]
    have u: "m_thread (updated_row m r) = s_thread m \<and> m_server (updated_row m r) = Some (s_server m) \<and> m_sender (updated_row m r) = s_sender m \<and>
        m_unique (updated_row m r) = some_text (s_unique m)"
    proof (cases "m_server r")
      case None
      then show ?thesis using True r(2) by (simp add: updated_row_def is_match_def some_text_def)
    next
      case (Some j)
      then show ?thesis using True k [of r j] found by (simp add: updated_row_def some_text_def)
    qed
    have new: "(s_thread m, s_server m, s_sender m, some_text (s_unique m)) \<in> confirmed t'"
      using confirmedI [of "updated_row m r" t' "s_server m"] u by (simp add: set')
    have "(th, i, a, u) \<in> confirmed t' \<longleftrightarrow> (th, i, a, u) \<in> confirmed t \<union> key_of m" for th i a u
    proof
      assume "(th, i, a, u) \<in> confirmed t'"
      then show "(th, i, a, u) \<in> confirmed t \<union> key_of m" using True u by (auto simp: confirmed_def set' key_of_def)
    next
      assume "(th, i, a, u) \<in> confirmed t \<union> key_of m"
      then consider "(th, i, a, u) \<in> key_of m" | q where "q \<in> set (messages t)" "m_thread q = th" "m_server q = Some i" "m_sender q = a" "m_unique q = u"
        by (auto simp: confirmed_def)
      then show "(th, i, a, u) \<in> confirmed t'"
      proof cases
        case 1
        then show ?thesis using True new by (simp add: key_of_def)
      next
        case (2 q)
        show ?thesis
        proof (cases "q \<in> set (r # rs)")
          case in_found: True
          then have "(th, i, a, u) \<in> key_of m" using k [of q i] 2 found True by (simp add: key_of_def)
          then show ?thesis using True new by (simp add: key_of_def)
        next
          case False
          then show ?thesis using 2 confirmedI [of q t' i] by (simp add: set')
        qed
      qed
    qed
    then show ?thesis by auto
  next
    case False
    then have rs: "rs = []" using pending_once [OF inv _ found] by simp
    have n: "m_server r = None" using False c by (simp add: was_confirmed_def)
    then have "m_server (updated_row m r) = None" using False by (simp add: updated_row_def)
    then have "(th, i, a, u) \<in> confirmed t' \<longleftrightarrow> (th, i, a, u) \<in> confirmed t" for th i a u
      using n rs by (auto simp: confirmed_iff set')
    then show ?thesis using False by (auto simp: key_of_def)
  qed
qed

lemma written_aside:
  assumes "write_row m found t = (Some (), t')"
  shows "suppressed t' thread i = suppressed t thread i"
  using assms by (cases found) (auto simp: write_row_def insert_row_def update_row_def Let_def split: if_splits)

lemma confirmed_written:
  assumes inv: "local_inv t" and agreed: "agreed attr t" and names: "server_names attr" and m: "m \<in> named_by attr"
    and w: "write_row m (matches m t) (without_rows (m_local ` set (tl (matches m t))) t) = (Some (), t')"
    and c: "was_confirmed (matches m t) \<longrightarrow> 0 < s_server m"
  shows "confirmed t' = confirmed t \<union> key_of m"
proof (cases "matches m t")
  case Nil
  moreover have "without_rows {} t = t" by (simp add: without_rows_def)
  ultimately show ?thesis using w confirmed_insert [of m t t'] by (simp add: write_row_def)
next
  case (Cons r rs)
  then show ?thesis using w c confirmed_update [OF inv agreed names m Cons, of t'] by (simp add: write_row_def)
qed

lemma saveMessage_effect:
  assumes y: "yields (saveMessage label m) s out s'" and inv: "local_inv (local s)" and agreed: "agreed attr (local s)"
    and names: "server_names attr" and m: "m \<in> named_by attr"
  shows "confirmed (local s') = confirmed (local s) \<union> (if out = Suppressed then {} else key_of m)"
    and "suppressed (local s') thread i = suppressed (local s) thread i"
    and "0 < s_server m \<Longrightarrow> out = Suppressed \<longleftrightarrow> suppressed (local s) (s_thread m) (s_server m)"
    and "0 < s_server m \<Longrightarrow> out = New \<longleftrightarrow> \<not> known (local s) (s_thread m) (s_server m)"
    and "s_server m \<le> 0 \<Longrightarrow> out \<noteq> Suppressed"
proof -
  let ?t = "local s"
  have "confirmed (local s') = confirmed ?t \<union> (if out = Suppressed then {} else key_of m) \<and> (\<forall>thread i. suppressed (local s') thread i = suppressed ?t thread i) \<and>
      (0 < s_server m \<longrightarrow> (out = Suppressed \<longleftrightarrow> suppressed ?t (s_thread m) (s_server m)) \<and> (out = New \<longleftrightarrow> \<not> known ?t (s_thread m) (s_server m))) \<and>
      (s_server m \<le> 0 \<longrightarrow> out \<noteq> Suppressed)"
    using y
  proof (cases rule: saveMessage_cases)
    case (hidden c)
    moreover have "confirmed (drop_pending m ?t) = confirmed ?t" by (auto simp: set_eq_iff confirmed_iff drop_pending_def)
    ultimately show ?thesis by (auto simp: drop_pending_def known_def suppressed_def [of ?t])
  next
    case deleted
    then show ?thesis by (auto simp: known_def suppressed_def [of ?t])
  next
    case (written c s1)
    let ?found = "matches m ?t"
    from written(5) show ?thesis
    proof (cases rule: write_message_cases)
      case kept
      then show ?thesis using written(4) by (simp add: key_of_def)
    next
      case (stored t2 t3)
      have w: "write_row m ?found (without_rows (m_local ` set (tl ?found)) ?t) = (Some (), t2)" using stored(2) written(4) by simp
      have "confirmed t3 = confirmed ?t \<union> key_of m"
        using stored(3) confirmed_release confirmed_written [OF inv agreed names m w stored(1)] by auto
      moreover have "confirmed (local s') = confirmed t3"
        using stored(4) by (auto simp: confirmed_def find_update_summary(2) split: if_splits)
      moreover have "suppressed (local s') thread i = suppressed ?t thread i" for thread i
        using stored(3,4) written_aside [OF w] suppressed_summary [of label m t3 "local s'" thread i]
        by (auto simp: release_image_def split: if_splits)
      moreover have "out = New \<longleftrightarrow> \<not> known ?t (s_thread m) (s_server m)" if "0 < s_server m"
        using stored(5) matched_confirmed [OF inv agreed names m that] written(3) that by (auto simp: known_def)
      ultimately show ?thesis using stored(5) written(3) by auto
    qed
  qed
  then show "confirmed (local s') = confirmed ?t \<union> (if out = Suppressed then {} else key_of m)"
    and "suppressed (local s') thread i = suppressed ?t thread i"
    and "0 < s_server m \<Longrightarrow> out = Suppressed \<longleftrightarrow> suppressed ?t (s_thread m) (s_server m)"
    and "0 < s_server m \<Longrightarrow> out = New \<longleftrightarrow> \<not> known ?t (s_thread m) (s_server m)"
    and "s_server m \<le> 0 \<Longrightarrow> out \<noteq> Suppressed" by auto
qed

lemma saveMessage_known:
  assumes "yields (saveMessage label m) s out s'" "local_inv (local s)" "agreed attr (local s)" "server_names attr" "m \<in> named_by attr"
  shows "known (local s') thread i \<longleftrightarrow> known (local s) thread i \<or> 0 < s_server m \<and> thread = s_thread m \<and> i = s_server m"
  using saveMessage_effect [OF assms] by (auto simp: known_confirmed key_of_def)

lemma saveMessage_agreed:
  assumes "yields (saveMessage label m) s out s'" "local_inv (local s)" "agreed attr (local s)" "server_names attr" "m \<in> named_by attr"
  shows "agreed attr (local s')"
  using assms(3,5) by (auto simp: agreed_def saveMessage_effect(1) [OF assms] key_of_def named_by_def split: if_splits)

section \<open>What no operation loses\<close>

text \<open>What was removed is removed for good.\<close>

lemma suppressed_case:
  "suppressed t k i \<longleftrightarrow> (k, i) \<in> set (deleted_messages t) \<or> (case find_conversation t k of None \<Rightarrow> False | Some c \<Rightarrow> i \<le> c_hidden c)"
  by (auto simp: suppressed_def split: option.split)

lemma saveMessage_suppressed:
  assumes "yields (saveMessage label m) s out s'" "suppressed (local s) thread i"
  shows "suppressed (local s') thread i"
  using assms(1)
proof (cases rule: saveMessage_cases)
  case (hidden c)
  then show ?thesis using assms(2) by (simp add: drop_pending_def)
next
  case deleted
  then show ?thesis using assms(2) by simp
next
  case (written c s1)
  from written(5) show ?thesis
  proof (cases rule: write_message_cases)
    case kept
    then show ?thesis using assms(2) written(4) by simp
  next
    case (stored t2 t3)
    then show ?thesis
      using assms(2) written(4) written_aside [OF stored(2)] suppressed_summary [of label m t3 "local s'" thread i]
      by (auto simp: release_image_def split: if_splits)
  qed
qed

lemma boundary_covers:
  "c_last c \<le> hidden_boundary thread t c" "c_hidden c \<le> hidden_boundary thread t c"
  "r \<in> set (messages t) \<Longrightarrow> m_thread r = thread \<Longrightarrow> m_server r = Some i \<Longrightarrow> i \<le> hidden_boundary thread t c"
proof -
  let ?B = "set (0 # c_last c # c_hidden c # List.map_filter m_server (filter (\<lambda>r. m_thread r = thread) (messages t)))"
  have le: "x \<le> hidden_boundary thread t c" if "x \<in> ?B" for x unfolding hidden_boundary_def using that by (intro Max_ge) simp_all
  show "c_last c \<le> hidden_boundary thread t c" "c_hidden c \<le> hidden_boundary thread t c" by (rule le, simp)+
  show "i \<le> hidden_boundary thread t c" if "r \<in> set (messages t)" "m_thread r = thread" "m_server r = Some i"
    by (rule le) (use that in \<open>force simp: List.map_filter_def\<close>)
qed

lemma suppressed_clear: "suppressed t k i \<Longrightarrow> suppressed (drop_confirmed thread (hide_history thread t)) k i"
proof -
  assume "suppressed t k i"
  moreover have "deleted_messages (hide_history thread t) = deleted_messages t" by (simp add: hide_history_def)
  ultimately show ?thesis using boundary_covers(2) [of _ thread t]
    by (auto simp: suppressed_case drop_confirmed_def find_hide_history split: option.splits) (meson order_trans)+
qed

lemma suppressed_bury:
  "suppressed (deleted_summary txt thread i (drop_message thread i (bury thread i t))) k j \<longleftrightarrow> suppressed t k j \<or> k = thread \<and> j = i"
proof -
  have "find_conversation (deleted_summary txt thread i (drop_message thread i (bury thread i t))) k =
      map_option (\<lambda>c. if c_thread c = thread \<and> c_last c = i then c\<lparr>c_summary := txt\<rparr> else c) (find_conversation t k)"
    by (simp add: deleted_summary_def drop_message_def bury_def find_conversation_def find_map_conversations)
  moreover have "deleted_messages (deleted_summary txt thread i (drop_message thread i (bury thread i t))) = deleted_messages (bury thread i t)"
    by (simp add: deleted_summary_def drop_message_def)
  ultimately show ?thesis by (auto simp: suppressed_case bury_def split: option.split)
qed

lemma suppressed_put: "suppressed t k i \<Longrightarrow> suppressed (put_conversation v t) k i"
proof -
  assume "suppressed t k i"
  moreover have "deleted_messages (put_conversation v t) = deleted_messages t" by (simp add: put_conversation_def)
  ultimately show ?thesis by (auto simp: suppressed_case find_put_conversation split: option.splits)
qed

lemma suppressed_aside: "conversations t' = conversations t \<Longrightarrow> deleted_messages t' = deleted_messages t \<Longrightarrow> suppressed t' k i = suppressed t k i"
  by (simp add: suppressed_def find_conversation_def)

lemma suppressed_law: "store_law (\<lambda>t. suppressed t k i) label UNIV"
proof
  show "suppressed t' k i" if "suppressed t k i" "messages t' = messages t" "conversations t' = conversations t"
    "deleted_messages t' = deleted_messages t" "sync_state t' = sync_state t" for t t' :: local_tables
    using that suppressed_aside by blast
  show "suppressed (t\<lparr>sync_state := x\<rparr>) k i" if "suppressed t k i" for t x using that by (simp add: suppressed_def find_conversation_def)
qed (simp_all add: saveMessage_suppressed suppressed_put suppressed_clear suppressed_bury)

interpretation gone: store_law "\<lambda>t. suppressed t k i" label UNIV for label k i
  by (rule suppressed_law)

text \<open>What is known of the server's messages stays known.\<close>

definition holds_history :: "(int \<Rightarrow> int \<Rightarrow> int \<times> string) \<Rightarrow> (int \<times> int) set \<Rightarrow> local_tables \<Rightarrow> bool" where
  "holds_history attr K t \<longleftrightarrow> local_inv t \<and> agreed attr t \<and> (\<forall>(thread, i)\<in>K. known t thread i)"

lemma holds_less:
  assumes "holds_history attr K t" "local_inv t'" "confirmed t' \<subseteq> confirmed t"
    "\<And>thread i. suppressed t thread i \<Longrightarrow> suppressed t' thread i"
    "\<And>thread i a u. (thread, i, a, u) \<in> confirmed t \<Longrightarrow> (thread, i, a, u) \<notin> confirmed t' \<Longrightarrow> suppressed t' thread i"
  shows "holds_history attr K t'"
  using assms by (fastforce simp: holds_history_def agreed_def known_confirmed)

lemma holds_aside:
  assumes h: "holds_history attr K t" "messages t' = messages t" "conversations t' = conversations t" "deleted_messages t' = deleted_messages t"
  shows "holds_history attr K t'"
proof -
  from h have "local_inv t'" "confirmed t' = confirmed t" using inv_frame [of t t'] by (auto simp: holds_history_def confirmed_def)
  then show ?thesis using suppressed_aside [OF h(3,4)] by (intro holds_less [OF h(1)]) auto
qed

lemma history_law:
  assumes "server_names attr"
  shows "store_law (holds_history attr K) label (named_by attr)"
proof
  fix m s out and s' :: lite
  assume "m \<in> named_by attr" "yields (saveMessage label m) s out s'" "holds_history attr K (local s)"
  then show "holds_history attr K (local s')"
    using assms saveMessage_inv [of label m s out s'] saveMessage_agreed [of label m s out s' attr] saveMessage_known [of label m s out s' attr]
    by (auto simp: holds_history_def)
next
  fix t t' :: local_tables
  assume h: "holds_history attr K t" "messages t' = messages t" "conversations t' = conversations t" "deleted_messages t' = deleted_messages t"
  show "holds_history attr K t'" by (rule holds_aside [OF h])
next
  fix t x
  assume h: "holds_history attr K t"
  show "holds_history attr K (t\<lparr>sync_state := x\<rparr>)" by (rule holds_aside [OF h]) simp_all
next
  fix t v
  assume h: "holds_history attr K t"
  moreover have "confirmed (put_conversation v t) = confirmed t" by (simp add: confirmed_def put_conversation_def)
  ultimately show "holds_history attr K (put_conversation v t)"
    using inv_put_conversation suppressed_put by (intro holds_less [OF h]) (auto simp: holds_history_def)
next
  fix t f
  assume h: "holds_history attr K t" "same_keys f"
  moreover have "confirmed (t\<lparr>messages := map f (messages t)\<rparr>) = confirmed t" using h(2) by (intro confirmed_map) (auto simp: same_keys_def)
  ultimately show "holds_history attr K (t\<lparr>messages := map f (messages t)\<rparr>)"
    using inv.marked by (intro holds_less [OF h(1)]) (auto simp: holds_history_def)
next
  fix t thread
  assume h: "holds_history attr K t"
  let ?t = "drop_confirmed thread (hide_history thread t)"
  have ms: "messages ?t = filter (\<lambda>r. \<not> (m_thread r = thread \<and> m_server r \<noteq> None)) (messages t)" by (simp add: drop_confirmed_def hide_history_def)
  have "suppressed ?t k i" if r: "r \<in> set (messages t)" "m_thread r = k" "m_server r = Some i" and "k = thread" for k i r
  proof -
    from h r have "row_ok t r" by (simp add: holds_history_def local_inv_def)
    then obtain c where c: "find_conversation t k = Some c" using r(2) by (auto simp: row_ok_def)
    then show ?thesis
      using boundary_covers(3) [of r t thread i c] r found_thread [OF c] that(4) by (auto simp: suppressed_case drop_confirmed_def find_hide_history)
  qed
  then show "holds_history attr K ?t"
    using inv.cleared suppressed_clear h by (intro holds_less [OF h]) (auto simp: holds_history_def confirmed_iff ms)
next
  fix t shown thread i
  assume h: "holds_history attr K t"
  let ?t = "deleted_summary shown thread i (drop_message thread i (bury thread i t))"
  have ms: "messages ?t = filter (\<lambda>r. \<not> (m_thread r = thread \<and> m_server r = Some i)) (messages t)" by (simp add: deleted_summary_def drop_message_def bury_def)
  show "holds_history attr K ?t"
    using inv.buried h by (intro holds_less [OF h]) (auto simp: holds_history_def confirmed_iff ms suppressed_bury)
qed

end
