(* ===== verification/LocalSync.thy ===== *)
theory LocalSync
  imports LocalHistory
begin

text \<open>
  The promises of the client's store to the rest of the client: sound rows, removal for good, announcements, complete synchronisation and
  pages of history.
\<close>

section \<open>A batch of messages\<close>

definition server_keys :: "stored_message list \<Rightarrow> (int \<times> int) set" where
  "server_keys ms = {(s_thread m, s_server m) | m. m \<in> set ms \<and> 0 < s_server m}"

lemma server_keys_simps [simp]:
  "server_keys [] = {}" "server_keys (m # ms) = (if 0 < s_server m then insert (s_thread m, s_server m) (server_keys ms) else server_keys ms)"
  by (auto simp: server_keys_def)

lemma keys_of_simps [simp]:
  "keys_of [] outs kind = {}" "keys_of (m # ms) (q # outs) kind = (if q = kind then insert (s_thread m, s_server m) (keys_of ms outs kind) else keys_of ms outs kind)"
  by (auto simp: keys_of_def)

lemma batch_effect:
  assumes "yields (lite_each (saveMessage label) ms) s outs s'" "holds_history attr K (local s)" "server_names attr" "set ms \<subseteq> named_by attr"
  shows "known (local s') thread i \<longleftrightarrow> known (local s) thread i \<or> (thread, i) \<in> server_keys ms"
    and "suppressed (local s') thread i = suppressed (local s) thread i"
    and "{k \<in> keys_of ms outs New. 0 < snd k} = {k \<in> server_keys ms. \<not> known (local s) (fst k) (snd k)}"
    and "keys_of ms outs Suppressed = {k \<in> server_keys ms. suppressed (local s) (fst k) (snd k)}"
    and "holds_history attr K (local s')"
proof -
  have "(\<forall>thread i. known (local s') thread i \<longleftrightarrow> known (local s) thread i \<or> (thread, i) \<in> server_keys ms) \<and>
      (\<forall>thread i. suppressed (local s') thread i = suppressed (local s) thread i) \<and>
      {k \<in> keys_of ms outs New. 0 < snd k} = {k \<in> server_keys ms. \<not> known (local s) (fst k) (snd k)} \<and>
      keys_of ms outs Suppressed = {k \<in> server_keys ms. suppressed (local s) (fst k) (snd k)} \<and> holds_history attr K (local s')"
    using assms(1,2,4)
  proof (induction ms arbitrary: s outs)
    case (Cons m ms)
    then obtain q s1 outs' where y: "yields (saveMessage label m) s q s1" "yields (lite_each (saveMessage label) ms) s1 outs' s'" "outs = q # outs'" by auto
    have h: "local_inv (local s)" "agreed attr (local s)" "m \<in> named_by attr" using Cons.prems by (auto simp: holds_history_def)
    note effect = saveMessage_effect [OF y(1) h(1,2) assms(3) h(3)] and knows = saveMessage_known [OF y(1) h(1,2) assms(3) h(3)]
    have "holds_history attr K (local s1)" using store_law.saved [OF history_law [OF assms(3)] h(3) y(1) Cons.prems(2)] .
    from Cons.IH [OF y(2) this] Cons.prems(3)
    have ih: "\<And>thread i. known (local s') thread i \<longleftrightarrow> known (local s1) thread i \<or> (thread, i) \<in> server_keys ms"
      "\<And>thread i. suppressed (local s') thread i = suppressed (local s1) thread i"
      "{k \<in> keys_of ms outs' New. 0 < snd k} = {k \<in> server_keys ms. \<not> known (local s1) (fst k) (snd k)}"
      "keys_of ms outs' Suppressed = {k \<in> server_keys ms. suppressed (local s1) (fst k) (snd k)}" "holds_history attr K (local s')" by auto
    show ?case
    proof (cases "0 < s_server m")
      case True
      have "{k \<in> keys_of (m # ms) outs New. 0 < snd k} =
          (if q = New then {(s_thread m, s_server m)} else {}) \<union> {k \<in> keys_of ms outs' New. 0 < snd k}" using True y(3) by auto
      also have "\<dots> = {k \<in> server_keys (m # ms). \<not> known (local s) (fst k) (snd k)}"
      proof (rule set_eqI)
        fix k :: "int \<times> int"
        obtain th i where k: "k = (th, i)" by (cases k)
        show "k \<in> (if q = New then {(s_thread m, s_server m)} else {}) \<union> {k \<in> keys_of ms outs' New. 0 < snd k} \<longleftrightarrow>
            k \<in> {k \<in> server_keys (m # ms). \<not> known (local s) (fst k) (snd k)}"
          unfolding ih(3) k by (cases "th = s_thread m \<and> i = s_server m") (auto simp: knows effect(4) [OF True] True)
      qed
      finally have new: "{k \<in> keys_of (m # ms) outs New. 0 < snd k} = {k \<in> server_keys (m # ms). \<not> known (local s) (fst k) (snd k)}" .
      have "keys_of (m # ms) outs Suppressed = {k \<in> server_keys (m # ms). suppressed (local s) (fst k) (snd k)}"
        using True y(3) effect(2,3) ih(4) by auto
      with new show ?thesis using True ih(1,2,5) knows effect(2) by auto
    next
      case False
      have "{k \<in> keys_of (m # ms) outs New. 0 < snd k} = {k \<in> keys_of ms outs' New. 0 < snd k}" using False y(3) by auto
      then have new: "{k \<in> keys_of (m # ms) outs New. 0 < snd k} = {k \<in> server_keys (m # ms). \<not> known (local s) (fst k) (snd k)}"
        using False ih(3) knows by simp
      have "keys_of (m # ms) outs Suppressed = {k \<in> server_keys (m # ms). suppressed (local s) (fst k) (snd k)}"
        using False y(3) effect(2,5) ih(4) by auto
      with new show ?thesis using False ih(1,2,5) knows effect(2) by auto
    qed
  qed simp
  then show "known (local s') thread i \<longleftrightarrow> known (local s) thread i \<or> (thread, i) \<in> server_keys ms"
    and "suppressed (local s') thread i = suppressed (local s) thread i"
    and "{k \<in> keys_of ms outs New. 0 < snd k} = {k \<in> server_keys ms. \<not> known (local s) (fst k) (snd k)}"
    and "keys_of ms outs Suppressed = {k \<in> server_keys ms. suppressed (local s) (fst k) (snd k)}"
    and "holds_history attr K (local s')" by blast+
qed

section \<open>Announcements\<close>

lemma fresh_holds: "holds_history attr {} (local (fresh_store bs))"
  by (simp add: holds_history_def agreed_def confirmed_def fresh_store_def inv_no_local_tables) (simp add: no_local_tables_def)

lemma fresh_inv: "local_inv (local (snd (run_locals label ps (fresh_store bs))))"
  by (rule inv.run_locals_kept) (simp_all add: fresh_store_def inv_no_local_tables)

lemma run_holds:
  "server_names attr \<Longrightarrow> \<forall>p\<in>set ps. messages_of p \<subseteq> named_by attr \<Longrightarrow> holds_history attr {} (local (snd (run_locals label ps (fresh_store bs))))"
  by (rule store_law.run_locals_kept [OF history_law]) (simp_all add: fresh_holds)

lemma holds_known: "holds_history attr K t \<longleftrightarrow> holds_history attr {} t \<and> (\<forall>(thread, i)\<in>K. known t thread i)"
  by (auto simp: holds_history_def)

lemma known_after_batch [simp]:
  "known (after_batch thread cursor clear t) k i = known t k i" "suppressed (after_batch thread cursor clear t) k i = suppressed t k i"
  by (simp_all add: known_def suppressed_def find_conversation_def)

lemma saved_effect:
  assumes "SaveMessages label ms thread cursor clear s = (Some k, s')" "holds_history attr K (local s)" "server_names attr" "set ms \<subseteq> named_by attr"
  shows "new_keys k = {k \<in> server_keys ms. \<not> known (local s) (fst k) (snd k)}"
    and "suppressed_keys k = {k \<in> server_keys ms. suppressed (local s) (fst k) (snd k)}"
    and "known (local s') th i \<longleftrightarrow> known (local s) th i \<or> (th, i) \<in> server_keys ms"
proof -
  have "new_keys k = {k \<in> server_keys ms. \<not> known (local s) (fst k) (snd k)} \<and> suppressed_keys k = {k \<in> server_keys ms. suppressed (local s) (fst k) (snd k)} \<and>
      (\<forall>th i. known (local s') th i \<longleftrightarrow> known (local s) th i \<or> (th, i) \<in> server_keys ms)"
  proof (cases rule: SaveMessages_cases [of label ms thread cursor clear s])
    case failed
    then show ?thesis using assms(1) by simp
  next
    case (committed s3 outcomes s4)
    have h: "holds_history attr K (local s3)" using committed(1) assms(2) by simp
    show ?thesis using batch_effect [OF committed(2) h assms(3,4)] committed(1,4,5) assms(1) by simp
  qed
  then show "new_keys k = {k \<in> server_keys ms. \<not> known (local s) (fst k) (snd k)}"
    and "suppressed_keys k = {k \<in> server_keys ms. suppressed (local s) (fst k) (snd k)}"
    and "known (local s') th i \<longleftrightarrow> known (local s) th i \<or> (th, i) \<in> server_keys ms" by auto
qed

lemma unannounced_none: "unannounced x = (A, s') \<Longrightarrow> A = {}"
  by (cases x) (simp add: unannounced_def)

lemma announce_step:
  assumes "holds_history attr K (local s)" "server_names attr" "messages_of p \<subseteq> named_by attr" "run_local label p s = (A, s')"
  shows "A \<inter> K = {}" "holds_history attr (K \<union> A) (local s')"
proof -
  have h: "holds_history attr K (local s')" using store_law.run_local_kept [OF history_law [OF assms(2)], of K s p label] assms by simp
  have "A \<inter> K = {} \<and> (\<forall>(thread, i)\<in>A. known (local s') thread i)"
  proof (cases "\<exists>ms thread cursor clear k. p = Save_messages ms thread cursor clear \<and> SaveMessages label ms thread cursor clear s = (Some k, s')")
    case True
    then obtain ms thread cursor clear k where p: "p = Save_messages ms thread cursor clear" "SaveMessages label ms thread cursor clear s = (Some k, s')" by blast
    note e = saved_effect [OF p(2) assms(1,2)]
    have "A = new_keys k" using assms(4) p by simp
    then show ?thesis using e assms(1,3) p(1) by (auto simp: holds_history_def)
  next
    case False
    then have "A = {}" using assms(4) by (cases p) (auto split: prod.splits option.splits dest: unannounced_none)
    then show ?thesis by simp
  qed
  then show "A \<inter> K = {}" "holds_history attr (K \<union> A) (local s')" using h by (auto simp: holds_history_def)
qed

lemma announcements:
  assumes "holds_history attr K (local s)" "server_names attr" "\<forall>p\<in>set ps. messages_of p \<subseteq> named_by attr"
  shows "(\<forall>A\<in>set (fst (run_locals label ps s)). A \<inter> K = {}) \<and> sorted_wrt (\<lambda>A B. A \<inter> B = {}) (fst (run_locals label ps s))"
  using assms(1,3)
proof (induction ps arbitrary: s K)
  case (Cons p ps)
  obtain A s1 where a: "run_local label p s = (A, s1)" by fastforce
  note st = announce_step [OF Cons.prems(1) assms(2) _ a]
  have "holds_history attr (K \<union> A) (local s1)" using st(2) Cons.prems(2) by simp
  from Cons.IH [OF this] Cons.prems(2) have "\<forall>B\<in>set (fst (run_locals label ps s1)). B \<inter> (K \<union> A) = {}"
    "sorted_wrt (\<lambda>A B. A \<inter> B = {}) (fst (run_locals label ps s1))" by auto
  then show ?case using st(1) Cons.prems(2) a by (auto simp: Let_def split: prod.splits)
qed simp

text \<open>C37: However often the server's messages arrive, at the reply to a sender, by a push or in a page of history, and whatever the user
  deletes in between, no message is announced as new by two operations of an account.\<close>

theorem announced_once:
  assumes "server_names attr" "\<forall>p\<in>set ps. messages_of p \<subseteq> named_by attr"
  shows "sorted_wrt (\<lambda>A B. A \<inter> B = {}) (fst (run_locals label ps (fresh_store bs)))"
  using announcements [OF fresh_holds assms] by simp

section \<open>Synchronisation\<close>

lemma cursor_advance: "0 \<le> cursor \<Longrightarrow> confirmed_cursor (advance_cursor thread cursor t) k =
    (if k = thread then max (confirmed_cursor t thread) cursor else confirmed_cursor t k)"
proof -
  have m: "map_of (map (\<lambda>(k, v). (k, if k = thread then max v cursor else v)) xs) k = map_option (\<lambda>v. if k = thread then max v cursor else v) (map_of xs k)"
    for xs :: "(int \<times> int) list" and k by (induction xs) auto
  assume "0 \<le> cursor"
  then show ?thesis by (auto simp: confirmed_cursor_def advance_cursor_def m map_add_def split: option.splits)
qed

lemma cursor_after_batch: "confirmed_cursor (after_batch thread cursor clear t) k =
    (if 0 < thread \<and> 0 \<le> cursor \<and> k = thread then max (confirmed_cursor t thread) cursor else confirmed_cursor t k)"
  using cursor_advance [of cursor thread t k]
  by (auto simp: after_batch_def Let_def clear_draft_def) (simp_all add: confirmed_cursor_def)

lemma saveMessage_sync:
  assumes "yields (saveMessage label m) s out s'"
  shows "sync_state (local s') = sync_state (local s)"
  using assms
proof (cases rule: saveMessage_cases)
  case (written c s1)
  have w: "sync_state t' = sync_state t" if "write_row m found t = (Some (), t')" for found t t'
    using that by (cases found) (auto simp: write_row_def insert_row_def update_row_def Let_def split: if_splits)
  have u: "sync_state t' = sync_state t" if "update_summary label m t = (Some (), t')" for t t'
    using that by (auto simp: update_summary_def Let_def split: if_splits)
  from written(5) show ?thesis
  proof (cases rule: write_message_cases)
    case (stored t2 t3)
    then show ?thesis using w [OF stored(2)] u [of t3 "local s'"] written(4) by (auto simp: without_rows_def release_image_def split: if_splits)
  qed (simp add: written)
qed (simp_all add: drop_pending_def)

lemma page_end_le: "page_end thread previous ms = Some cursor \<Longrightarrow> previous \<le> cursor"
  by (induction ms arbitrary: previous) (force split: if_splits)+

lemma saved_cursor: "confirmed_cursor (local (snd (SaveMessages label ms thread cursor clear s))) k =
    (if fst (SaveMessages label ms thread cursor clear s) \<noteq> None \<and> 0 < thread \<and> 0 \<le> cursor \<and> k = thread
     then max (confirmed_cursor (local s) thread) cursor else confirmed_cursor (local s) k)"
proof (cases rule: SaveMessages_cases [of label ms thread cursor clear s])
  case (committed s3 outcomes s4)
  have "sync_state (local s4) = sync_state (local s)"
    using yields_each [OF committed(2), of "\<lambda>t. sync_state t = sync_state (local s)"] saveMessage_sync committed(1) by metis
  then have "confirmed_cursor (local s4) k = confirmed_cursor (local s) k" for k by (simp add: confirmed_cursor_def)
  then show ?thesis using committed(4,5) by (simp add: cursor_after_batch)
qed simp

lemma page_threads: "page_end thread previous ms = Some cursor \<Longrightarrow> 0 \<le> previous \<Longrightarrow> m \<in> set ms \<Longrightarrow> s_thread m = thread \<and> 0 < s_server m"
  by (induction ms arbitrary: previous) (force split: if_splits)+

text \<open>A page of a conversation is complete when it has all of the server's messages between the position here and the position it leads to.\<close>

fun page_complete :: "(int \<Rightarrow> int list) \<Rightarrow> local_op \<Rightarrow> lite \<Rightarrow> bool" where
  "page_complete H (Save_messages ms thread cursor clear) s \<longleftrightarrow> 0 < thread \<longrightarrow>
     (\<forall>i\<in>set (H thread). confirmed_cursor (local s) thread < i \<and> i \<le> cursor \<longrightarrow> i \<in> s_server ` set ms)"
| "page_complete H p s \<longleftrightarrow> True"

primrec complete_run :: "(int \<Rightarrow> int list) \<Rightarrow> (int \<Rightarrow> string) \<Rightarrow> local_op list \<Rightarrow> lite \<Rightarrow> bool" where
  "complete_run H label [] s \<longleftrightarrow> True"
| "complete_run H label (p # ps) s \<longleftrightarrow> page_complete H p s \<and> complete_run H label ps (snd (run_local label p s))"

definition synchronised :: "(int \<Rightarrow> int list) \<Rightarrow> local_tables \<Rightarrow> bool" where
  "synchronised H t \<longleftrightarrow> (\<forall>thread. \<forall>i\<in>set (H thread). 0 < i \<and> i \<le> confirmed_cursor t thread \<longrightarrow> known t thread i) \<and> (\<forall>thread. 0 \<le> confirmed_cursor t thread)"

lemma synchronised_less:
  assumes "synchronised H t" "\<And>thread. confirmed_cursor t' thread = confirmed_cursor t thread \<or> confirmed_cursor t' thread = 0"
    "\<And>thread i. known t thread i \<Longrightarrow> known t' thread i"
  shows "synchronised H t'"
  using assms(1,3) unfolding synchronised_def by (metis assms(2) not_less order.refl)

lemma run_local_known:
  assumes "holds_history attr {} (local s)" "server_names attr" "messages_of p \<subseteq> named_by attr" "known (local s) thread i"
  shows "known (local (snd (run_local label p s))) thread i"
  using store_law.run_local_kept [OF history_law [OF assms(2)], of "{(thread, i)}" s p label] assms by (simp add: holds_history_def)

lemma refetched_cursor: "confirmed_cursor (refetch_voice placeholder t) k \<in> {confirmed_cursor t k, 0}"
proof -
  have "map_of (map (\<lambda>(k, v). (k, if b k then 0 else v)) xs) k = map_option (\<lambda>v. if b k then 0 else v) (map_of xs k)"
    for b and xs :: "(int \<times> int) list" by (induction xs) auto
  then show ?thesis by (simp add: confirmed_cursor_def refetch_voice_def split: option.split)
qed

lemma open_cursor: "confirmed_cursor (local (snd (OpenAccount prior placeholder s))) k \<in> {confirmed_cursor (local s) k, 0}"
proof (cases rule: lite_transaction_cases [of "lite_then (lite_when (prior < 4) (lite_change (refetch_voice placeholder)))
    (lite_change (\<lambda>t. t\<lparr>messages := map (\<lambda>r. if m_server r = None \<and> m_state r = 0 then r\<lparr>m_state := 2\<rparr> else r) (messages t)\<rparr>))" s])
  case failed
  then show ?thesis by (simp add: OpenAccount_def)
next
  case (committed x s1 s2)
  have "local s2 = mark (local s) \<or> local s2 = mark (refetch_voice placeholder (local s))"
    if "mark = (\<lambda>t. t\<lparr>messages := map (\<lambda>r. if m_server r = None \<and> m_state r = 0 then r\<lparr>m_state := 2\<rparr> else r) (messages t)\<rparr>)" for mark
    using committed(1,2) by (auto simp: that yields_when split: if_splits dest!: yields_change)
  then have "sync_state (local s2) = sync_state (local s) \<or> sync_state (local s2) = sync_state (refetch_voice placeholder (local s))" by fastforce
  then have "confirmed_cursor (local s2) k \<in> {confirmed_cursor (local s) k, 0}"
    using refetched_cursor [of placeholder "local s" k] by (elim disjE) (simp_all add: confirmed_cursor_def)
  then show ?thesis using committed(4) by (simp add: OpenAccount_def)
qed

lemma other_cursor:
  assumes "\<And>ms thread cursor clear. p \<noteq> Save_messages ms thread cursor clear"
  shows "confirmed_cursor (local (snd (run_local label p s))) k = confirmed_cursor (local s) k \<or> confirmed_cursor (local (snd (run_local label p s))) k = 0"
proof (cases p)
  case (Open_account prior placeholder)
  then show ?thesis using open_cursor [of prior placeholder s k] by (simp add: unannounced_def)
qed (use assms in \<open>simp_all add: unannounced_def confirmed_cursor_def cursor.kept_conversations cursor.kept_clear cursor.kept_delete
  cursor.kept_draft cursor.kept_attachment cursor.kept_mark cursor.kept_forget\<close>)

lemma synchronised_step:
  assumes "holds_history attr {} (local s)" "server_names attr" "messages_of p \<subseteq> named_by attr" "synchronised H (local s)" "page_complete H p s"
  shows "synchronised H (local (snd (run_local label p s)))"
proof (cases "\<exists>ms thread cursor clear. p = Save_messages ms thread cursor clear")
  case False
  then show ?thesis using synchronised_less [OF assms(4)] other_cursor run_local_known [OF assms(1-3)] by blast
next
  case True
  then obtain ms thread cursor clear where p: "p = Save_messages ms thread cursor clear" by blast
  have r: "local (snd (run_local label p s)) = local (snd (SaveMessages label ms thread cursor clear s))" by (simp add: p split: prod.split option.split)
  show ?thesis
  proof (cases rule: SaveMessages_cases [of label ms thread cursor clear s])
    case failed
    then show ?thesis using assms(4) r by simp
  next
    case (committed s3 outcomes s4)
    have h: "holds_history attr {} (local s3)" "set ms \<subseteq> named_by attr" using committed(1) assms(1,3) p by simp_all
    have kn: "known (local (snd (run_local label p s))) th i \<longleftrightarrow> known (local s) th i \<or> (th, i) \<in> server_keys ms" for th i
      using batch_effect(1) [OF committed(2) h(1) assms(2) h(2)] by (simp add: r committed(4,1))
    have cur: "confirmed_cursor (local (snd (run_local label p s))) k = (if 0 < thread \<and> 0 \<le> cursor \<and> k = thread
        then max (confirmed_cursor (local s) thread) cursor else confirmed_cursor (local s) k)" for k
      using saved_cursor [of label ms thread cursor clear s k] committed(5) by (simp add: r)
    have "known (local (snd (run_local label p s))) k i"
      if i: "i \<in> set (H k)" "0 < i" "i \<le> confirmed_cursor (local (snd (run_local label p s))) k" for k i
    proof (cases "i \<le> confirmed_cursor (local s) k")
      case True
      then show ?thesis using assms(4) i kn by (simp add: synchronised_def)
    next
      case False
      then have k: "k = thread" "0 < thread" "i \<le> cursor" "confirmed_cursor (local s) thread < i" using i(3) by (auto simp: cur split: if_splits)
      then obtain m where m: "m \<in> set ms" "s_server m = i" using assms(5) i(1) p by auto
      have "s_thread m = thread" using page_threads [of thread _ ms cursor m] committed(3) k(2) m(1) assms(4) by (auto simp: synchronised_def)
      then show ?thesis using kn m k(1) i(2) by (auto simp: server_keys_def)
    qed
    then show ?thesis using assms(4) by (auto simp: synchronised_def cur)
  qed
qed

lemma synchronised_run:
  assumes "server_names attr" "holds_history attr {} (local s)" "\<forall>p\<in>set ps. messages_of p \<subseteq> named_by attr" "synchronised H (local s)" "complete_run H label ps s"
  shows "synchronised H (local (snd (run_locals label ps s)))"
  using assms(2-)
proof (induction ps arbitrary: s)
  case (Cons p ps)
  have "holds_history attr {} (local (snd (run_local label p s)))"
    using store_law.run_local_kept [OF history_law [OF assms(1)], of "{}" s p label] Cons.prems by simp
  moreover have "synchronised H (local (snd (run_local label p s)))"
    using synchronised_step [OF Cons.prems(1) assms(1) _ Cons.prems(3), of p label] Cons.prems by simp
  ultimately show ?case using Cons by (simp add: Let_def split: prod.splits) (metis snd_conv)
qed simp

text \<open>When the pages of history that were saved are complete, a conversation lacks no message of the server up to the position it is
  synchronised to: each is stored, unless it was removed here.\<close>

theorem synchronisation_complete:
  assumes "server_names attr" "\<forall>p\<in>set ps. messages_of p \<subseteq> named_by attr" "complete_run H label ps (fresh_store bs)"
    "t = local (snd (run_locals label ps (fresh_store bs)))" "i \<in> set (H thread)" "0 < i" "i \<le> confirmed_cursor t thread"
  shows "(\<exists>r\<in>set (messages t). m_thread r = thread \<and> m_server r = Some i) \<noteq> suppressed t thread i"
proof -
  have "synchronised H (local (fresh_store bs))" by (auto simp: synchronised_def fresh_store_def no_local_tables_def confirmed_cursor_def)
  from synchronised_run [OF assms(1) fresh_holds assms(2) this assms(3)] have "known t thread i" using assms(4-) by (simp add: synchronised_def)
  moreover have "\<not> suppressed t (m_thread r) j" if "r \<in> set (messages t)" "m_server r = Some j" for r j
    using fresh_inv [of label ps bs, folded assms(4)] that by (auto simp: local_inv_def row_ok_def)
  ultimately show ?thesis by (auto simp: known_def)
qed

section \<open>Rows and removals\<close>

text \<open>Whatever an account's operations and whichever of their statements fail, no two rows of a message carry the same identifier or client key, a
  row is marked confirmed exactly when it has the server's identifier, and a confirmed row is no newer than its conversation's newest
  message, lies above its hidden history and is none that was deleted.\<close>

lemma local_rows_sound:
  assumes "t = local (snd (run_locals label ps (fresh_store bs)))" "r \<in> set (messages t)"
  shows "(\<forall>q\<in>set (messages t). m_local q = m_local r \<or> same_server r q \<or> same_unique r q \<longrightarrow> q = r) \<and>
    (m_state r = 1 \<longleftrightarrow> m_server r \<noteq> None) \<and>
    (\<exists>c. find_conversation t (m_thread r) = Some c \<and> (\<forall>i. m_server r = Some i \<longrightarrow>
      0 < i \<and> i \<le> c_last c \<and> c_hidden c < i \<and> (m_thread r, i) \<notin> set (deleted_messages t)))"
proof -
  have inv: "local_inv t" unfolding assms(1) by (rule fresh_inv)
  have "q = r" if "q \<in> set (messages t)" "m_local q = m_local r \<or> same_server r q \<or> same_unique r q" for q
    using that matches_once [OF inv assms(2) that(1)] distinct_rows [OF inv that(1) assms(2)] by blast
  moreover have ok: "row_ok t r" using inv assms(2) by (simp add: local_inv_def)
  then have "m_state r = 1 \<longleftrightarrow> m_server r \<noteq> None" by (simp add: row_ok_def)
  moreover from ok obtain c where c: "find_conversation t (m_thread r) = Some c" by (auto simp: row_ok_def)
  moreover have "\<forall>i. m_server r = Some i \<longrightarrow> 0 < i \<and> i \<le> c_last c \<and> c_hidden c < i \<and> (m_thread r, i) \<notin> set (deleted_messages t)"
    using ok c by (auto simp: row_ok_def suppressed_def)
  ultimately show ?thesis by blast
qed

text \<open>What a successful operation removes: the messages the user deletes, and a conversation's history up to the boundary it returns.\<close>

fun removed_by :: "local_op \<Rightarrow> lite \<Rightarrow> int \<Rightarrow> int \<Rightarrow> bool" where
  "removed_by (Delete_messages shown thread ids) s k i \<longleftrightarrow> k = thread \<and> i \<in> set ids \<and> fst (DeleteLocalMessages shown thread ids s) \<noteq> None"
| "removed_by (Clear_history thread confirmed_only) s k i \<longleftrightarrow> k = thread \<and> (case fst (ClearLocalHistory thread confirmed_only s) of None \<Rightarrow> False
     | Some boundary \<Rightarrow> i \<le> boundary \<or> (\<exists>r\<in>set (messages (local s)). m_thread r = thread \<and> m_server r = Some i))"
| "removed_by p s k i \<longleftrightarrow> False"

lemma yields_each_all:
  assumes "yields (lite_each f xs) s ys s'" "x \<in> set xs" "\<And>s y s1. yields (f x) s y s1 \<Longrightarrow> Q (local s1)"
    "\<And>z s y s1. yields (f z) s y s1 \<Longrightarrow> Q (local s) \<Longrightarrow> Q (local s1)"
  shows "Q (local s')"
  using assms(1,2)
proof (induction xs arbitrary: s ys)
  case (Cons z xs)
  then obtain y s1 zs where y: "yields (f z) s y s1" "yields (lite_each f xs) s1 zs s'" by auto
  show ?case
  proof (cases "x \<in> set xs")
    case True
    then show ?thesis using Cons.IH [OF y(2)] by simp
  next
    case False
    then have "Q (local s1)" using assms(3) y(1) Cons.prems(2) by simp
    then show ?thesis using yields_each [OF y(2), of Q] assms(4) by blast
  qed
qed simp

lemma delete_suppresses:
  assumes "fst (DeleteLocalMessages shown thread ids s) \<noteq> None" "i \<in> set ids"
  shows "suppressed (local (snd (DeleteLocalMessages shown thread ids s))) thread i"
proof -
  let ?f = "\<lambda>i. lite_then (lite_change (bury thread i)) (lite_then (lite_change (drop_message thread i)) (lite_change (deleted_summary shown thread i)))"
  let ?body = "lite_bind (lite_select (\<lambda>t. find_conversation t thread \<noteq> None)) (\<lambda>exists.
      lite_then (lite_checked exists) (lite_then (lite_each ?f (remdups ids)) (lite_return ())))"
  have f: "local s1 = deleted_summary shown thread j (drop_message thread j (bury thread j (local s)))" if "yields (?f j) s y s1" for j s y s1
    using that by (auto dest!: yields_change)
  have d: "DeleteLocalMessages shown thread ids s = lite_transaction ?body s"
    using assms(1) by (auto simp: DeleteLocalMessages_def lite_bind_def lite_checked_def split: if_splits)
  show ?thesis
  proof (cases rule: lite_transaction_cases [of ?body s])
    case failed
    then show ?thesis using assms(1) d by simp
  next
    case (committed x s1 s2)
    then obtain s3 us where e: "yields (lite_each ?f (remdups ids)) s3 us s2" by auto
    have "suppressed (local s2) thread i"
    proof (rule yields_each_all [OF e, of i "\<lambda>t. suppressed t thread i"])
      show "i \<in> set (remdups ids)" using assms(2) by simp
      show "suppressed (local s1) thread i" if "yields (?f i) s y s1" for s y s1 using f [OF that] by (simp add: suppressed_bury)
      show "suppressed (local s1) thread i" if "yields (?f z) s y s1" "suppressed (local s) thread i" for z s y s1
        using f [OF that(1)] that(2) by (simp add: suppressed_bury)
    qed
    then show ?thesis using d committed(4) by simp
  qed
qed

lemma clear_yields:
  assumes "fst (ClearLocalHistory thread confirmed_only s) = Some b"
  obtains c where "find_conversation (local s) thread = Some c"
    "local (snd (ClearLocalHistory thread confirmed_only s)) = drop_confirmed thread (hide_history thread (local s))" "b = hidden_boundary thread (local s) c"
proof -
  let ?check = "if confirmed_only then lite_bind (lite_select (\<lambda>t. \<exists>r\<in>set (messages t). m_thread r = thread \<and> m_server r = None)) (\<lambda>pending. lite_checked (\<not> pending))
    else lite_return ()"
  let ?body = "lite_then (lite_checked (0 < thread)) (lite_bind (lite_select (\<lambda>t. find_conversation t thread \<noteq> None)) (\<lambda>exists.
     lite_then (lite_checked exists) (lite_then ?check (lite_then (lite_change (hide_history thread)) (lite_then (lite_change (drop_confirmed thread))
       (lite_select (\<lambda>t. case find_conversation t thread of None \<Rightarrow> 0 | Some c \<Rightarrow> c_hidden c)))))))"
  have d: "ClearLocalHistory thread confirmed_only s = lite_transaction ?body s" by (simp add: ClearLocalHistory_def)
  show thesis
  proof (cases rule: lite_transaction_cases [of ?body s])
    case failed
    then show thesis using assms d by simp
  next
    case (committed x s1 s2)
    then obtain s3 e u s4 s5 s6 u1 u2 where g: "yields (lite_select (\<lambda>t. find_conversation t thread \<noteq> None)) s1 e s3" e "yields ?check s3 u s4"
        "yields (lite_change (hide_history thread)) s4 u1 s5" "yields (lite_change (drop_confirmed thread)) s5 u2 s6"
        "yields (lite_select (\<lambda>t. case find_conversation t thread of None \<Rightarrow> 0 | Some c \<Rightarrow> c_hidden c)) s6 x s2"
      by (elim yields_bindE) auto
    have "local s4 = local s" using g(1,3) committed(2) by (auto split: if_splits dest!: yields_select)
    then have s6: "local s6 = drop_confirmed thread (hide_history thread (local s))" using yields_change [OF g(4)] yields_change [OF g(5)] by simp
    obtain c where c: "find_conversation (local s) thread = Some c" using yields_select [OF g(1)] g(2) committed(2) by auto
    have "x = hidden_boundary thread (local s) c"
      using yields_select [OF g(6)] c found_thread [OF c] by (simp add: s6 drop_confirmed_def find_hide_history)
    then show thesis using that [OF c] yields_select [OF g(6)] s6 d committed(3,4) assms by simp
  qed
qed

lemma removed_suppressed: "removed_by p s thread i \<Longrightarrow> suppressed (local (snd (run_local label p s))) thread i"
proof (cases p)
  case (Delete_messages shown k ids)
  then show "removed_by p s thread i \<Longrightarrow> suppressed (local (snd (run_local label p s))) thread i"
    using delete_suppresses [of shown k ids s i] by (auto simp: unannounced_def)
next
  case (Clear_history k confirmed_only)
  assume "removed_by p s thread i"
  with Clear_history obtain b where b: "thread = k" "fst (ClearLocalHistory k confirmed_only s) = Some b"
      "i \<le> b \<or> (\<exists>r\<in>set (messages (local s)). m_thread r = k \<and> m_server r = Some i)" by (auto split: option.splits)
  from clear_yields [OF b(2)] obtain c where c: "find_conversation (local s) k = Some c"
    "local (snd (ClearLocalHistory k confirmed_only s)) = drop_confirmed k (hide_history k (local s))" "b = hidden_boundary k (local s) c" by blast
  have "i \<le> hidden_boundary k (local s) c" using b(3) c(3) boundary_covers(3) [of _ "local s" k i c] by auto
  then show ?thesis using Clear_history c found_thread [OF c(1)] b(1)
    by (simp add: unannounced_def suppressed_case drop_confirmed_def find_hide_history)
qed auto

lemma batch_not_suppressed:
  assumes "yields (lite_each (saveMessage label) ms) s outs s'" "suppressed (local s) thread i" "0 < i"
  shows "(thread, i) \<notin> keys_of ms outs New"
  using assms(1,2)
proof (induction ms arbitrary: s outs)
  case (Cons m ms)
  then obtain q s1 outs' where y: "yields (saveMessage label m) s q s1" "yields (lite_each (saveMessage label) ms) s1 outs' s'" "outs = q # outs'" by auto
  have "q \<noteq> New" if "(thread, i) = (s_thread m, s_server m)"
    using y(1) that Cons.prems(2) assms(3) by (cases rule: saveMessage_cases) auto
  then show ?case using Cons.IH [OF y(2) saveMessage_suppressed [OF y(1) Cons.prems(2)]] y(3) by auto
qed simp

lemma never_announced:
  assumes "suppressed (local s) thread i" "A \<in> set (fst (run_locals label ps s))" "0 < i"
  shows "(thread, i) \<notin> A"
  using assms(1,2)
proof (induction ps arbitrary: s)
  case (Cons p ps)
  obtain B s1 where b: "run_local label p s = (B, s1)" by fastforce
  have s1: "suppressed (local s1) thread i" using gone.run_local_kept [where k = thread and i = i and s = s and p = p and label = label] Cons.prems(1) b by simp
  have "(thread, i) \<notin> B"
  proof (cases p)
    case (Save_messages ms th cursor clear)
    show ?thesis
    proof (cases rule: SaveMessages_cases [of label ms th cursor clear s])
      case failed
      then show ?thesis using b Save_messages by (auto split: prod.splits option.splits)
    next
      case (committed s3 outs s4)
      then have "(thread, i) \<notin> keys_of ms outs New" using batch_not_suppressed [OF committed(2) _ assms(3)] Cons.prems(1) by simp
      then show ?thesis using b Save_messages committed(5) by (auto split: prod.splits option.splits)
    qed
  qed (use b in \<open>auto dest: unannounced_none\<close>)
  then show ?case using Cons.IH [OF s1] Cons.prems(2) b by (auto simp: Let_def split: prod.splits)
qed simp


section \<open>Pages\<close>

lemma visible_sorted:
  assumes "local_inv t"
  shows "sorted_wrt (<) (map server_id (sort_key server_id (filter (\<lambda>r. visible t thread r \<and> P r) (messages t))))"
proof -
  let ?rs = "filter (\<lambda>r. visible t thread r \<and> P r) (messages t)"
  have "r = q" if "r \<in> set ?rs" "q \<in> set ?rs" "server_id r = server_id q" for r q
    using that matches_once [OF assms, of r q] by (auto simp: visible_def same_server_def server_id_def split: option.splits)
  moreover have "distinct ?rs" using assms by (auto simp: local_inv_def distinct_map)
  ultimately have "distinct (map server_id ?rs)" by (auto simp: distinct_map inj_on_def)
  then have "distinct (map server_id (sort_key server_id ?rs))" by (simp add: distinct_map)
  then show ?thesis by (simp add: strict_sorted_iff)
qed

text \<open>C40: A page of an account's history is the newest visible messages before an identifier, at most as many as asked for, each once and in the
  server's order, and says whether older ones remain; the first page also has the messages not confirmed yet, in the order they were
  written.\<close>

theorem loaded_pages_exact:
  assumes "s = snd (run_locals label ps (fresh_store bs))" "LoadMessages thread before limit s = (Some (shown, further, summary), s')" "t = local s"
  shows "\<exists>older page. sort_key server_id (filter (\<lambda>r. visible t thread r \<and> (before = 0 \<or> server_id r < before)) (messages t)) = older @ page \<and>
    sorted_wrt (<) (map server_id (older @ page)) \<and> length page \<le> limit \<and> (further \<longleftrightarrow> older \<noteq> []) \<and> (older \<noteq> [] \<longrightarrow> length page = limit) \<and>
    shown = map readMessage (page @ (if before = 0 then sort_key m_local (filter (\<lambda>r. m_thread r = thread \<and> m_server r = None) (messages t)) else []))"
proof -
  let ?xs = "sort_key server_id (filter (\<lambda>r. visible t thread r \<and> (before = 0 \<or> server_id r < before)) (messages t))"
  let ?pending = "sort_key m_local (filter (\<lambda>r. m_thread r = thread \<and> m_server r = None) (messages t))"
  let ?page = "drop (length ?xs - limit) ?xs" and ?older = "take (length ?xs - limit) ?xs"
  have y: "yields (LoadMessages thread before limit) s (shown, further, summary) s'" using assms(2) by (simp add: yields_def)
  then obtain found s1 where f: "yields (lite_select (\<lambda>t. take (Suc limit) (page_rows t thread before))) s found s1"
      "yields (let page = rev (take limit found); more = limit < length found in
       if before = 0
       then lite_bind (lite_select (\<lambda>t. sort_key m_local (filter (\<lambda>r. m_thread r = thread \<and> m_server r = None) (messages t)))) (\<lambda>pending.
         lite_bind (lite_select (\<lambda>t. find_conversation t thread)) (\<lambda>summary. lite_return (map readMessage (page @ pending), more, summary)))
       else lite_return (map readMessage page, more, None)) s1 (shown, further, summary) s'" unfolding LoadMessages_def by (rule yields_bindE)
  have found: "found = take (Suc limit) (rev ?xs)" "local s1 = t" using yields_select [OF f(1)] assms(3) by (simp_all add: page_rows_def)
  have "take limit found = take limit (rev ?xs)" by (simp add: found(1) min_def)
  then have "rev (take limit found) = ?page" by (simp add: take_rev)
  moreover have "limit < length found \<longleftrightarrow> ?older \<noteq> []"
    unfolding length_greater_0_conv [symmetric] by (auto simp: found(1) simp del: length_greater_0_conv)
  moreover have "shown = map readMessage (rev (take limit found) @ (if before = 0 then ?pending else [])) \<and> further = (limit < length found)"
    using f(2) found(2) by (auto simp: Let_def split: if_splits dest!: yields_select)
  ultimately have r: "shown = map readMessage (?page @ (if before = 0 then ?pending else []))" "further = (?older \<noteq> [])" by simp_all
  moreover have "sorted_wrt (<) (map server_id (?older @ ?page))"
    using visible_sorted [of t thread] fresh_inv [of label ps bs, folded assms(1)] assms(3) by simp
  moreover have "?older \<noteq> [] \<longrightarrow> length ?page = limit" by simp
  moreover have "length ?page \<le> limit" by simp
  ultimately show ?thesis by (intro exI [of _ ?older] exI [of _ ?page]) simp
qed

section \<open>An account\<close>

definition demo_label :: "int \<Rightarrow> string" where
  "demo_label kind = (if kind = 1 then ''[Picture]'' else ''[File]'')"

definition demo_note :: "int \<Rightarrow> int \<Rightarrow> string \<Rightarrow> stored_message" where
  "demo_note sender i unique = \<lparr>s_thread = 7, s_sender = sender, s_server = i, s_unique = unique, s_content = Some ''hi'', s_time = Some ''noon'',
     s_type = 0, s_status = 0, s_image = [], s_local = 0\<rparr>"

definition demo_ops :: "local_op list" where
  "demo_ops = [Save_conversations [\<lparr>v_thread = 7, v_other = 3, v_last = 0, v_time = [], v_summary = [], v_group = []\<rparr>],
     Save_messages [demo_note 2 0 ''u''] 0 (- 1) 7, Save_messages [demo_note 2 5 ''u''] 0 (- 1) 0,
     Save_messages [demo_note 2 5 ''u'', demo_note 3 6 ''v''] 7 6 0]"

definition demo_names :: "int \<Rightarrow> int \<Rightarrow> int \<times> string" where
  "demo_names thread i = (if i = 5 then (2, ''u'') else if i = 6 then (3, ''v'') else (0, []))"

lemma demo_server: "server_names demo_names" "\<forall>p\<in>set demo_ops. messages_of p \<subseteq> named_by demo_names"
  by (auto simp: server_names_def demo_names_def demo_ops_def named_by_def demo_note_def split: if_splits)

lemma demo_run: "fst (run_locals demo_label demo_ops (fresh_store [])) = [{}, {}, {(7, 5)}, {(7, 6)}]"
  by code_simp

theorem announced_once_witness: "sorted_wrt (\<lambda>A B. A \<inter> B = {}) (fst (run_locals demo_label demo_ops (fresh_store [])))"
  by (rule announced_once [OF demo_server])

definition demo_store :: lite where
  "demo_store = snd (run_locals demo_label demo_ops (fresh_store []))"

definition demo_history :: "int \<Rightarrow> int list" where
  "demo_history thread = (if thread = 7 then [5, 6] else [])"

lemma demo_complete: "complete_run demo_history demo_label demo_ops (fresh_store [])" "confirmed_cursor (local demo_store) 7 = 6"
  by code_simp+

theorem synchronisation_complete_witness:
  "(\<exists>r\<in>set (messages (local demo_store)). m_thread r = 7 \<and> m_server r = Some 6) \<noteq> suppressed (local demo_store) 7 6"
  using synchronisation_complete [OF demo_server demo_complete(1), of "local demo_store" 6 7] demo_complete(2)
  by (simp add: demo_store_def demo_history_def)

lemma demo_removal: "removed_by (Delete_messages ''gone'' 7 [5]) demo_store 7 5"
  by code_simp


lemma demo_page: "fst (LoadMessages 7 0 1 demo_store) \<noteq> None"
  by code_simp

theorem loaded_pages_exact_witness:
  "\<exists>shown further summary s'. LoadMessages 7 0 1 demo_store = (Some (shown, further, summary), s') \<and> (\<exists>older page.
     sort_key server_id (filter (\<lambda>r. visible (local demo_store) 7 r) (messages (local demo_store))) = older @ page \<and> (further \<longleftrightarrow> older \<noteq> []))"
proof -
  obtain shown further summary s' where l: "LoadMessages 7 0 1 demo_store = (Some (shown, further, summary), s')"
    using demo_page by (cases "LoadMessages 7 0 1 demo_store") fastforce
  from loaded_pages_exact [OF demo_store_def l refl] l show ?thesis by auto
qed

end
