(* ===== verification/ClientSync.thy ===== *)
theory ClientSync
  imports LocalSync StorageFacts
begin

text \<open>
  How the desktop client catches up with its conversations (the history half of \<^verbatim>\<open>CppChat/services/chatsyncservice.cpp\<close>), composed with the
  server's \<^const>\<open>LoadChatMsg\<close> and the client's store. The service runs on one thread; the store's operations run in order on another, and
  their results come back in order. Requests may fail, be answered late, twice or never; the store may be used by the rest of the client in
  between. The server's messages do not change while the client catches up.
\<close>

section \<open>The service\<close>

datatype store_job =
    Save_page nat nat "stored_message list" int int bool
  | Open_store nat
  | Other_job local_op

datatype store_result =
    Page_saved nat nat int int bool bool
  | Opened nat "(int \<times> int) list option"

record history_sync =
  sy_ready :: bool
  sy_connected :: bool
  sy_threads :: "int list"
  sy_thread :: int
  sy_cursor :: int
  sy_queue :: "int list"
  sy_complete :: "int list"
  sy_cursors :: "int \<rightharpoonup> int"
  sy_operation :: nat
  sy_revision :: nat
  sy_requests :: "(int \<times> int) list"
  sy_jobs :: "store_job list"
  sy_results :: "store_result list"
  sy_disk :: lite

definition SendHistoryRequest :: "history_sync \<Rightarrow> history_sync" where
  "SendHistoryRequest s = s\<lparr>sy_requests := sy_requests s @ [(sy_thread s, sy_cursor s)]\<rparr>"

definition cursor_value :: "(int \<rightharpoonup> int) \<Rightarrow> int \<Rightarrow> int" where
  "cursor_value m thread = (case m thread of None \<Rightarrow> 0 | Some i \<Rightarrow> i)"

definition LoadNextHistory :: "history_sync \<Rightarrow> history_sync" where
  "LoadNextHistory s =
     (if \<not> sy_ready s \<or> sy_thread s \<noteq> 0 \<or> sy_queue s = [] \<or> \<not> sy_connected s then s
      else SendHistoryRequest (s\<lparr>sy_operation := sy_operation s + 1, sy_thread := hd (sy_queue s), sy_queue := tl (sy_queue s),
        sy_cursor := cursor_value (sy_cursors s) (hd (sy_queue s))\<rparr>))"

definition QueueHistory :: "int \<Rightarrow> bool \<Rightarrow> history_sync \<Rightarrow> history_sync" where
  "QueueHistory thread prioritize s =
     (if thread \<in> set (sy_complete s) \<or> sy_thread s = thread then s
      else if thread \<in> set (sy_queue s) \<and> \<not> prioritize then s
      else let q = removeAll thread (sy_queue s) in LoadNextHistory (s\<lparr>sy_queue := (if prioritize then thread # q else q @ [thread])\<rparr>))"

definition forget_complete :: "int \<Rightarrow> history_sync \<Rightarrow> history_sync" where
  "forget_complete thread s = s\<lparr>sy_complete := removeAll thread (sy_complete s)\<rparr>"

definition RefreshAllHistory :: "bool \<Rightarrow> history_sync \<Rightarrow> history_sync" where
  "RefreshAllHistory force s = (if \<not> sy_ready s \<or> \<not> sy_connected s then s
     else foldl (\<lambda>s thread. QueueHistory thread False (if force then forget_complete thread s else s)) s (sy_threads s))"

text \<open>The failure of a request for history; the next conversation is loaded by a timer.\<close>

definition RequestFailed :: "history_sync \<Rightarrow> history_sync" where
  "RequestFailed s = (if \<not> sy_ready s then s else s\<lparr>sy_operation := sy_operation s + 1, sy_thread := 0\<rparr>)"

definition RemoveThread :: "int \<Rightarrow> history_sync \<Rightarrow> history_sync" where
  "RemoveThread thread s =
     (let s1 = s\<lparr>sy_cursors := (sy_cursors s)(thread := None), sy_queue := removeAll thread (sy_queue s), sy_complete := removeAll thread (sy_complete s)\<rparr>
      in if sy_thread s = thread then s1\<lparr>sy_operation := sy_operation s + 1, sy_thread := 0, sy_cursor := 0\<rparr> else s1)"

text \<open>A reply as \<^verbatim>\<open>TcpMgr\<close> reads it, and as the service takes it: in order after the position, ending at its cursor.\<close>

definition readMessages :: "ChatMessage list \<Rightarrow> stored_message list option" where
  "readMessages ms = (if list_all (\<lambda>m. 0 < cm_message_id m \<and> 0 < cm_thread_id m \<and> 0 < cm_sender_id m \<and> cm_msg_type m \<in> {0, 1, 2, 3}) ms
     then Some (map (\<lambda>m. \<lparr>s_thread = cm_thread_id m, s_sender = cm_sender_id m, s_server = cm_message_id m, s_unique = cm_unique_id m,
       s_content = Some (cm_content m), s_time = Some (cm_chat_time m), s_type = cm_msg_type m, s_status = cm_status m, s_image = [], s_local = 0\<rparr>) ms)
     else None)"

definition ReceiveHistory :: "int \<Rightarrow> int \<Rightarrow> bool \<Rightarrow> stored_message list \<Rightarrow> history_sync \<Rightarrow> history_sync" where
  "ReceiveHistory thread message_id more_pages ms s =
     (if thread \<noteq> sy_thread s then s
      else if thread \<notin> set (sy_threads s) then LoadNextHistory (s\<lparr>sy_thread := 0\<rparr>)
      else if page_end thread (sy_cursor s) ms \<noteq> Some message_id \<or> more_pages \<and> ms = [] then RequestFailed s
      else s\<lparr>sy_jobs := sy_jobs s @ [Save_page (sy_revision s) (sy_operation s) ms thread message_id more_pages]\<rparr>)"

definition ReceivePage :: "int \<Rightarrow> ChatMessage list \<times> bool \<times> int \<Rightarrow> history_sync \<Rightarrow> history_sync" where
  "ReceivePage thread page s = (case page of (ms, more_pages, message_id) \<Rightarrow>
     (case readMessages ms of None \<Rightarrow> RequestFailed s | Some records \<Rightarrow> ReceiveHistory thread message_id more_pages records s))"

text \<open>What the service does with a result of the store.\<close>

fun StoreResult :: "store_result \<Rightarrow> history_sync \<Rightarrow> history_sync" where
  "StoreResult (Page_saved revision operation thread message_id more_pages success) s =
     (if sy_revision s \<noteq> revision \<or> \<not> sy_ready s \<or> sy_operation s \<noteq> operation \<or> sy_thread s \<noteq> thread then s
      else if \<not> success then RequestFailed s
      else let s1 = s\<lparr>sy_cursors := (sy_cursors s)(thread \<mapsto> message_id), sy_cursor := message_id\<rparr> in
        if more_pages then SendHistoryRequest s1
        else LoadNextHistory (s1\<lparr>sy_complete := List.insert thread (sy_complete s1), sy_thread := 0\<rparr>))"
| "StoreResult (Opened revision cursors) s =
     (if sy_revision s \<noteq> revision then s
      else case cursors of None \<Rightarrow> s | Some cs \<Rightarrow> LoadNextHistory (s\<lparr>sy_ready := True, sy_cursors := map_of cs\<rparr>))"

definition ResetSession :: "history_sync \<Rightarrow> history_sync" where
  "ResetSession s = s\<lparr>sy_revision := sy_revision s + 1, sy_operation := sy_operation s + 1, sy_ready := False, sy_cursors := Map.empty,
     sy_queue := [], sy_complete := [], sy_thread := 0, sy_cursor := 0\<rparr>"

definition StartSession :: "history_sync \<Rightarrow> history_sync" where
  "StartSession s = (let s1 = ResetSession s in s1\<lparr>sy_jobs := sy_jobs s1 @ [Open_store (sy_revision s1)]\<rparr>)"

text \<open>The store's thread. An account that was opened before has the current version.\<close>

fun run_job :: "(int \<Rightarrow> string) \<Rightarrow> string \<Rightarrow> store_job \<Rightarrow> lite \<Rightarrow> store_result list \<times> lite" where
  "run_job label placeholder (Save_page revision operation ms thread message_id more_pages) d =
     (let (r, d1) = SaveMessages label ms thread message_id 0 d in ([Page_saved revision operation thread message_id more_pages (r \<noteq> None)], d1))"
| "run_job label placeholder (Open_store revision) d =
     (let (r, d1) = lite_then (OpenAccount 5 placeholder) (lite_then (lite_select conversations) (lite_select sync_state)) d in ([Opened revision r], d1))"
| "run_job label placeholder (Other_job p) d = ([], snd (run_local label p d))"

definition work :: "(int \<Rightarrow> string) \<Rightarrow> string \<Rightarrow> history_sync \<Rightarrow> history_sync" where
  "work label placeholder s = (case sy_jobs s of [] \<Rightarrow> s
     | j # js \<Rightarrow> let (rs, d) = run_job label placeholder j (sy_disk s) in s\<lparr>sy_jobs := js, sy_results := sy_results s @ rs, sy_disk := d\<rparr>)"

text \<open>The operations that the rest of the client queues: none of them moves a position.\<close>

fun elsewhere :: "local_op \<Rightarrow> bool" where
  "elsewhere (Save_messages ms thread cursor clear) \<longleftrightarrow> thread \<le> 0"
| "elsewhere (Open_account prior placeholder) \<longleftrightarrow> False"
| "elsewhere p \<longleftrightarrow> True"

text \<open>The sender and client key of each message of the server.\<close>

definition server_attr :: "mysql \<Rightarrow> int \<Rightarrow> int \<Rightarrow> int \<times> string" where
  "server_attr c thread i = (case find (\<lambda>m. ms_thread m = thread \<and> ms_id m = i) (messages_t (tbl c)) of
     None \<Rightarrow> (0, []) | Some m \<Rightarrow> (ms_sender m, ms_unique m))"

inductive sync_step :: "mysql \<Rightarrow> (int \<Rightarrow> string) \<Rightarrow> string \<Rightarrow> history_sync \<Rightarrow> history_sync \<Rightarrow> bool" for c label placeholder where
  queue: "thread \<in> set (sy_threads s) \<Longrightarrow> sync_step c label placeholder s (QueueHistory thread prioritize s)"
| refresh: "sync_step c label placeholder s (RefreshAllHistory force s)"
| timer: "sync_step c label placeholder s (LoadNextHistory s)"
| failed: "sync_step c label placeholder s (RequestFailed s)"
| leave: "sync_step c label placeholder s ((RemoveThread thread s)\<lparr>sy_threads := removeAll thread (sy_threads s)\<rparr>)"
| join: "0 < thread \<Longrightarrow> sync_step c label placeholder s (s\<lparr>sy_threads := List.insert thread (sy_threads s)\<rparr>)"
| link: "sync_step c label placeholder s (s\<lparr>sy_connected := b\<rparr>)"
| reset: "sync_step c label placeholder s (ResetSession s)"
| start: "sync_step c label placeholder s (StartSession s)"
| receive: "(thread, k) \<in> set (sy_requests s) \<Longrightarrow> sync_step c label placeholder s (ReceivePage thread (history_page c thread 10 k) s)"
| store: "sync_step c label placeholder s (work label placeholder s)"
| result: "sy_results s = r # rs \<Longrightarrow> sync_step c label placeholder s (StoreResult r (s\<lparr>sy_results := rs\<rparr>))"
| elsewhere: "elsewhere p \<Longrightarrow> messages_of p \<subseteq> named_by (server_attr c) \<Longrightarrow>
    sync_step c label placeholder s (s\<lparr>sy_jobs := sy_jobs s @ [Other_job p]\<rparr>)"

end
