(* ===== verification/ClientSyncFacts.thy ===== *)
theory ClientSyncFacts
  imports ClientSync
begin

text \<open>
  A conversation that the client counts as complete has every message the server has, and no position of the client ever passes a message
  that it lacks.
\<close>

section \<open>The server's pages\<close>

definition server_history :: "mysql \<Rightarrow> int \<Rightarrow> int list" where
  "server_history c thread = map ms_id (filter (\<lambda>m. ms_thread m = thread) (messages_t (tbl c)))"

lemma server_row:
  assumes "distinct (map ms_id (messages_t (tbl c)))" "m \<in> set (messages_t (tbl c))"
  shows "server_attr c (ms_thread m) (ms_id m) = (ms_sender m, ms_unique m)"
proof -
  have "find (\<lambda>x. ms_thread x = ms_thread m \<and> ms_id x = ms_id m) (messages_t (tbl c)) \<noteq> None" using assms(2) by (auto simp: find_None_iff)
  then obtain x where x: "find (\<lambda>x. ms_thread x = ms_thread m \<and> ms_id x = ms_id m) (messages_t (tbl c)) = Some x" by blast
  then have "x \<in> set (messages_t (tbl c))" "ms_id x = ms_id m" by (auto simp: find_Some_iff)
  then have "x = m" using assms by (auto simp: distinct_map dest: inj_onD)
  then show ?thesis using x by (simp add: server_attr_def)
qed

lemma server_attr_row:
  assumes "snd (server_attr c thread i) \<noteq> []"
  obtains m where "m \<in> set (messages_t (tbl c))" "ms_thread m = thread" "ms_id m = i" "server_attr c thread i = (ms_sender m, ms_unique m)"
proof (cases "find (\<lambda>m. ms_thread m = thread \<and> ms_id m = i) (messages_t (tbl c))")
  case None
  then show thesis using assms by (simp add: server_attr_def)
next
  case (Some m)
  then have "m \<in> set (messages_t (tbl c)) \<and> ms_thread m = thread \<and> ms_id m = i" by (auto simp: find_Some_iff)
  then show thesis using that [of m] Some by (simp add: server_attr_def)
qed

lemma server_names_stored:
  assumes "stored J ssl c"
  shows "server_names (server_attr c)"
proof -
  note ok = stored_parts(6) [OF assms]
  have "i = j" if e: "server_attr c thread i = server_attr c thread j" "snd (server_attr c thread i) \<noteq> []" for thread i j
  proof -
    obtain m where m: "m \<in> set (messages_t (tbl c))" "ms_thread m = thread" "ms_id m = i" "server_attr c thread i = (ms_sender m, ms_unique m)"
      using server_attr_row [OF e(2)] .
    obtain q where q: "q \<in> set (messages_t (tbl c))" "ms_thread q = thread" "ms_id q = j" "server_attr c thread j = (ms_sender q, ms_unique q)"
      using server_attr_row [of c thread j] e by metis
    have s: "sorted_wrt (\<lambda>x y. ms_unique x \<noteq> [] \<and> ms_unique y \<noteq> [] \<longrightarrow>
       \<not> (ms_thread x = ms_thread y \<and> ms_sender x = ms_sender y \<and> weight (db c) (ms_unique x) = weight (db c) (ms_unique y))) (messages_t (tbl c))"
      using ok by (simp add: messages_ok_def)
    have same: "ms_thread m = ms_thread q" "ms_sender m = ms_sender q" "ms_unique m = ms_unique q" "ms_unique m \<noteq> []" using e m q by auto
    have "m = q" using sorted_wrt_incomparable [OF s m(1) q(1)] same by simp
    then show "i = j" using m(3) q(3) by simp
  qed
  then show ?thesis unfolding server_names_def by blast
qed

lemma page_rows_of:
  assumes "0 < thread"
  shows "history_page c thread 10 k = (let rs = history_rows (tbl c) thread k in
    (map read_message (take 10 rs), 10 < length rs, if take 10 rs = [] then k else ms_id (last (take 10 rs))))"
  using history_page_at [OF assms, of 10 c k] cut_page_take [of 10 "history_rows (tbl c) thread k"]
  by (simp add: page_at_def Let_def)

text \<open>A page has all of the thread's messages between its position and its cursor; the last page has the newest.\<close>

lemma page_covers:
  assumes d: "distinct (map ms_id (messages_t (tbl c)))" and th: "0 < thread" and p: "history_page c thread 10 k = (ms, more_pages, cursor)"
  shows "j \<in> set (server_history c thread) \<Longrightarrow> k < j \<Longrightarrow> j \<le> cursor \<Longrightarrow> j \<in> cm_message_id ` set ms"
    and "\<not> more_pages \<Longrightarrow> j \<in> set (server_history c thread) \<Longrightarrow> j \<le> cursor \<or> j \<le> k"
    and "m \<in> set ms \<Longrightarrow> \<exists>r\<in>set (messages_t (tbl c)). m = read_message r"
proof -
  let ?rs = "history_rows (tbl c) thread k"
  have ms: "ms = map read_message (take 10 ?rs)" and more: "more_pages = (10 < length ?rs)"
    and cur: "cursor = (if take 10 ?rs = [] then k else ms_id (last (take 10 ?rs)))"
    using p page_rows_of [OF th, of c k] by (auto simp: Let_def)
  have sorted: "sorted_wrt (<) (map ms_id (take 10 ?rs @ drop 10 ?rs))"
    unfolding append_take_drop_id history_rows_def by (rule sort_key_strict) (simp add: d distinct_map_filter)
  have rows: "j \<in> ms_id ` set ?rs" if "j \<in> set (server_history c thread)" "k < j" for j
    using that by (auto simp: history_rows_def server_history_def)
  have low: "ms_id r \<le> cursor" if "r \<in> set (take 10 ?rs)" for r
  proof -
    have "map ms_id (take 10 ?rs) \<noteq> []" "ms_id r \<in> set (map ms_id (take 10 ?rs))" using that by auto
    moreover have "sorted (map ms_id (take 10 ?rs))" 
      using sorted unfolding map_append sorted_wrt_append strict_sorted_iff by blast
    ultimately have "ms_id r \<le> last (map ms_id (take 10 ?rs))" by (metis append_butlast_last_id set_ConsD append_Nil2 Un_iff last_in_set order_refl
          set_append sorted_append list.set_intros(1))
    then show ?thesis using that cur by (auto simp: last_map)
  qed
  have high: "cursor < ms_id r" if "r \<in> set (drop 10 ?rs)" for r
  proof -
    have "take 10 ?rs \<noteq> []" using that by (cases ?rs) auto
    then have "cursor \<in> ms_id ` set (take 10 ?rs)" using cur by simp
    then show ?thesis using sorted that unfolding map_append sorted_wrt_append by auto
  qed
  show "j \<in> cm_message_id ` set ms" if j: "j \<in> set (server_history c thread)" "k < j" "j \<le> cursor"
  proof -
    obtain r where r: "r \<in> set ?rs" "j = ms_id r" using rows [OF j(1,2)] by blast
    then have "r \<in> set (take 10 ?rs)" using high [of r] j(3) by (metis Un_iff append_take_drop_id linorder_not_le set_append)
    then show ?thesis using r(2) by (auto simp: ms read_message_def image_iff intro!: bexI [of _ r])
  qed
  show "j \<le> cursor \<or> j \<le> k" if j: "\<not> more_pages" "j \<in> set (server_history c thread)"
  proof (cases "k < j")
    case True
    then obtain r where "r \<in> set ?rs" "j = ms_id r" using rows [OF j(2)] by blast
    then show ?thesis using low [of r] j(1) more by simp
  qed simp
  show "\<exists>r\<in>set (messages_t (tbl c)). m = read_message r" if "m \<in> set ms"
    using that by (auto simp: ms history_rows_def dest!: in_set_takeD)
qed

lemma readMessages_named:
  assumes "readMessages ms = Some records" "distinct (map ms_id (messages_t (tbl c)))" "\<And>m. m \<in> set ms \<Longrightarrow> \<exists>r\<in>set (messages_t (tbl c)). m = read_message r"
  shows "set records \<subseteq> named_by (server_attr c)" "s_server ` set records = cm_message_id ` set ms"
proof -
  have r: "records = map (\<lambda>m. \<lparr>s_thread = cm_thread_id m, s_sender = cm_sender_id m, s_server = cm_message_id m, s_unique = cm_unique_id m,
       s_content = Some (cm_content m), s_time = Some (cm_chat_time m), s_type = cm_msg_type m, s_status = cm_status m, s_image = [], s_local = 0\<rparr>) ms"
    using assms(1) by (simp add: readMessages_def split: if_splits)
  show "set records \<subseteq> named_by (server_attr c)"
    using assms(3) server_row [OF assms(2)] by (fastforce simp: r named_by_def read_message_def)
  show "s_server ` set records = cm_message_id ` set ms" by (simp add: r image_image)
qed

section \<open>The invariant\<close>

fun job_ok :: "mysql \<Rightarrow> local_tables \<Rightarrow> store_job \<Rightarrow> bool" where
  "job_ok c t (Save_page revision operation ms thread i more_pages) \<longleftrightarrow> 0 < thread \<and> set ms \<subseteq> named_by (server_attr c) \<and>
     (\<forall>j\<in>set (server_history c thread). (confirmed_cursor t thread < j \<and> j \<le> i \<longrightarrow> j \<in> s_server ` set ms) \<and>
        (\<not> more_pages \<longrightarrow> j \<le> i \<or> j \<le> confirmed_cursor t thread))"
| "job_ok c t (Open_store revision) \<longleftrightarrow> True"
| "job_ok c t (Other_job p) \<longleftrightarrow> elsewhere p \<and> messages_of p \<subseteq> named_by (server_attr c)"

fun result_ok :: "mysql \<Rightarrow> local_tables \<Rightarrow> store_result \<Rightarrow> bool" where
  "result_ok c t (Page_saved revision operation thread i more_pages success) \<longleftrightarrow> (success \<longrightarrow> i \<le> confirmed_cursor t thread \<and>
     (\<not> more_pages \<longrightarrow> (\<forall>j\<in>set (server_history c thread). j \<le> confirmed_cursor t thread)))"
| "result_ok c t (Opened revision cursors) \<longleftrightarrow> (case cursors of None \<Rightarrow> True | Some cs \<Rightarrow> \<forall>thread. cursor_value (map_of cs) thread \<le> confirmed_cursor t thread)"

definition service_ok :: "mysql \<Rightarrow> local_tables \<Rightarrow> history_sync \<Rightarrow> bool" where
  "service_ok c t s \<longleftrightarrow> (\<forall>thread\<in>set (sy_threads s). 0 < thread) \<and> (\<forall>(thread, k)\<in>set (sy_requests s). k \<le> confirmed_cursor t thread) \<and>
     (\<forall>thread. cursor_value (sy_cursors s) thread \<le> confirmed_cursor t thread) \<and> (sy_thread s \<noteq> 0 \<longrightarrow> sy_cursor s \<le> confirmed_cursor t (sy_thread s)) \<and>
     (\<forall>thread\<in>set (sy_complete s). \<forall>j\<in>set (server_history c thread). j \<le> confirmed_cursor t thread)"

definition store_ok :: "mysql \<Rightarrow> local_tables \<Rightarrow> bool" where
  "store_ok c t \<longleftrightarrow> holds_history (server_attr c) {} t \<and> synchronised (server_history c) t"

definition sync_ok :: "mysql \<Rightarrow> history_sync \<Rightarrow> bool" where
  "sync_ok c s \<longleftrightarrow> (let t = local (sy_disk s) in store_ok c t \<and> service_ok c t s \<and> (\<forall>j\<in>set (sy_jobs s). job_ok c t j) \<and> (\<forall>r\<in>set (sy_results s). result_ok c t r))"

definition same_store :: "history_sync \<Rightarrow> history_sync \<Rightarrow> bool" where
  "same_store s s' \<longleftrightarrow> sy_disk s' = sy_disk s \<and> set (sy_results s') \<subseteq> set (sy_results s)"

lemma sync_service:
  assumes "sync_ok c s" "same_store s s'" "service_ok c (local (sy_disk s)) s'" "\<forall>j\<in>set (sy_jobs s'). j \<in> set (sy_jobs s) \<or> job_ok c (local (sy_disk s)) j"
  shows "sync_ok c s'"
  using assms by (auto simp: sync_ok_def same_store_def Let_def)

lemma store_cursor: "store_ok c t \<Longrightarrow> 0 \<le> confirmed_cursor t thread"
  by (simp add: store_ok_def synchronised_def)

text \<open>The service's operations.\<close>

lemma ok_send:
  assumes "service_ok c t s" "sy_cursor s \<le> confirmed_cursor t (sy_thread s)"
  shows "service_ok c t (SendHistoryRequest s)"
  using assms by (auto simp: service_ok_def SendHistoryRequest_def)

lemma ok_next:
  assumes "service_ok c t s"
  shows "service_ok c t (LoadNextHistory s)"
proof (cases "\<not> sy_ready s \<or> sy_thread s \<noteq> 0 \<or> sy_queue s = [] \<or> \<not> sy_connected s")
  case False
  then show ?thesis unfolding LoadNextHistory_def if_not_P [OF False] by (intro ok_send) (use assms in \<open>auto simp: service_ok_def\<close>)
qed (use assms in \<open>simp add: LoadNextHistory_def\<close>)

lemma ok_idle: "service_ok c t s \<Longrightarrow> service_ok c t (s\<lparr>sy_thread := 0\<rparr>)"
  by (simp add: service_ok_def)

lemma send_same [simp]:
  "sy_disk (SendHistoryRequest s) = sy_disk s" "sy_jobs (SendHistoryRequest s) = sy_jobs s" "sy_results (SendHistoryRequest s) = sy_results s"
  by (simp_all add: SendHistoryRequest_def)

lemma next_same [simp]:
  "sy_disk (LoadNextHistory s) = sy_disk s" "sy_jobs (LoadNextHistory s) = sy_jobs s" "sy_results (LoadNextHistory s) = sy_results s"
  by (simp_all add: LoadNextHistory_def SendHistoryRequest_def)

lemma ok_queue: "service_ok c t s \<Longrightarrow> service_ok c t (QueueHistory thread prioritize s)"
  unfolding QueueHistory_def by (auto simp: Let_def intro!: ok_next) (simp_all add: service_ok_def)

lemma queue_same [simp]:
  "sy_disk (QueueHistory thread prioritize s) = sy_disk s" "sy_jobs (QueueHistory thread prioritize s) = sy_jobs s"
  "sy_results (QueueHistory thread prioritize s) = sy_results s"
  by (simp_all add: QueueHistory_def Let_def)

lemma ok_refresh:
  assumes "service_ok c t s"
  shows "service_ok c t (RefreshAllHistory force s) \<and> sy_disk (RefreshAllHistory force s) = sy_disk s \<and> sy_jobs (RefreshAllHistory force s) = sy_jobs s \<and>
    sy_results (RefreshAllHistory force s) = sy_results s"
proof -
  have "service_ok c t (foldl (\<lambda>s thread. QueueHistory thread False (if force then forget_complete thread s else s)) s ts) \<and>
      sy_disk (foldl (\<lambda>s thread. QueueHistory thread False (if force then forget_complete thread s else s)) s ts) = sy_disk s \<and>
      sy_jobs (foldl (\<lambda>s thread. QueueHistory thread False (if force then forget_complete thread s else s)) s ts) = sy_jobs s \<and>
      sy_results (foldl (\<lambda>s thread. QueueHistory thread False (if force then forget_complete thread s else s)) s ts) = sy_results s" for ts
    using assms
  proof (induction ts arbitrary: s)
    case (Cons thread ts)
    let ?s = "if force then forget_complete thread s else s"
    have "service_ok c t ?s" using Cons.prems by (auto simp: service_ok_def forget_complete_def)
    from Cons.IH [OF ok_queue [OF this, of thread False]] show ?case by (simp add: forget_complete_def)
  qed simp
  then show ?thesis using assms by (simp add: RefreshAllHistory_def)
qed

lemma ok_failed: "service_ok c t s \<Longrightarrow> service_ok c t (RequestFailed s)"
  by (auto simp: service_ok_def RequestFailed_def)

lemma failed_same [simp]:
  "sy_disk (RequestFailed s) = sy_disk s" "sy_jobs (RequestFailed s) = sy_jobs s" "sy_results (RequestFailed s) = sy_results s"
  by (simp_all add: RequestFailed_def)

lemma ok_remove:
  assumes "service_ok c t s" "store_ok c t"
  shows "service_ok c t (RemoveThread thread s)"
  using assms(1) store_cursor [OF assms(2)] by (auto simp: service_ok_def RemoveThread_def Let_def cursor_value_def)

lemma remove_same [simp]:
  "sy_disk (RemoveThread thread s) = sy_disk s" "sy_jobs (RemoveThread thread s) = sy_jobs s" "sy_results (RemoveThread thread s) = sy_results s"
  "sy_threads (RemoveThread thread s) = sy_threads s"
  by (simp_all add: RemoveThread_def Let_def)

lemma ok_reset: "service_ok c t s \<Longrightarrow> store_ok c t \<Longrightarrow> service_ok c t (ResetSession s)"
  using store_cursor by (auto simp: service_ok_def ResetSession_def cursor_value_def)

lemma reset_same [simp]:
  "sy_disk (ResetSession s) = sy_disk s" "sy_jobs (ResetSession s) = sy_jobs s" "sy_results (ResetSession s) = sy_results s"
  by (simp_all add: ResetSession_def)

lemma ok_receive:
  assumes ok: "sync_ok c s" and d: "distinct (map ms_id (messages_t (tbl c)))" and k: "(thread, k) \<in> set (sy_requests s)"
  shows "sync_ok c (ReceivePage thread (history_page c thread 10 k) s)"
proof -
  let ?t = "local (sy_disk s)"
  have sv: "service_ok c ?t s" and st: "store_ok c ?t" using ok by (simp_all add: sync_ok_def Let_def)
  obtain ms more_pages i where p: "history_page c thread 10 k = (ms, more_pages, i)" by (rule prod_cases3)
  have f: "sync_ok c (RequestFailed s)"
    by (rule sync_service [OF ok]) (simp_all add: same_store_def ok_failed [OF sv])
  show ?thesis
  proof (cases "readMessages ms")
    case None
    then show ?thesis using f by (simp add: ReceivePage_def p)
  next
    case (Some records)
    have n: "sync_ok c (LoadNextHistory (s\<lparr>sy_thread := 0\<rparr>))"
      by (rule sync_service [OF ok]) (simp_all add: same_store_def ok_next [OF ok_idle [OF sv]])
    have j: "sync_ok c (s\<lparr>sy_jobs := sy_jobs s @ [Save_page (sy_revision s) (sy_operation s) records thread i more_pages]\<rparr>)"
      if "thread \<in> set (sy_threads s)"
    proof (rule sync_service [OF ok])
      have th: "0 < thread" using that sv by (auto simp: service_ok_def)
      note pc = page_covers [OF d th p]
      have "k \<le> confirmed_cursor ?t thread" using k sv by (auto simp: service_ok_def)
      then have "job_ok c ?t (Save_page (sy_revision s) (sy_operation s) records thread i more_pages)"
        using th pc(1,2) readMessages_named [OF Some d pc(3)] by force
      then show "\<forall>j\<in>set (sy_jobs (s\<lparr>sy_jobs := sy_jobs s @ [Save_page (sy_revision s) (sy_operation s) records thread i more_pages]\<rparr>)).
          j \<in> set (sy_jobs s) \<or> job_ok c ?t j" by auto
    qed (use sv in \<open>auto simp: same_store_def service_ok_def\<close>)
    show ?thesis using ok f n j by (auto simp: ReceivePage_def p Some ReceiveHistory_def)
  qed
qed

lemma ok_result:
  assumes ok: "sync_ok c s" and r: "sy_results s = r # rs"
  shows "sync_ok c (StoreResult r (s\<lparr>sy_results := rs\<rparr>))"
proof -
  let ?t = "local (sy_disk s)" and ?s = "s\<lparr>sy_results := rs\<rparr>"
  have sv: "service_ok c ?t ?s" and st: "store_ok c ?t" and res: "result_ok c ?t r" using ok r by (auto simp: sync_ok_def Let_def service_ok_def)
  have same: "same_store s s'" if "sy_disk s' = sy_disk s" "sy_results s' = rs" for s' using that r by (auto simp: same_store_def)
  have base: "sync_ok c ?s" by (rule sync_service [OF ok same sv]) simp_all
  show ?thesis
  proof (cases r)
    case (Page_saved revision operation thread i more_pages success)
    let ?s1 = "?s\<lparr>sy_cursors := (sy_cursors ?s)(thread \<mapsto> i), sy_cursor := i\<rparr>"
    have f: "sync_ok c (RequestFailed ?s)" by (rule sync_service [OF ok same]) (simp_all add: ok_failed [OF sv])
    have s1: "service_ok c ?t ?s1" if "success" "sy_thread s = thread"
      using that res sv Page_saved by (auto simp: service_ok_def cursor_value_def)
    have a: "sync_ok c (SendHistoryRequest ?s1)" if "success" "sy_thread s = thread"
    proof (rule sync_service [OF ok same])
      show "service_ok c ?t (SendHistoryRequest ?s1)" by (rule ok_send [OF s1 [OF that]]) (use that res Page_saved in simp)
    qed simp_all
    have b: "sync_ok c (LoadNextHistory (?s1\<lparr>sy_complete := List.insert thread (sy_complete ?s1), sy_thread := 0\<rparr>))"
      if "success" "sy_thread s = thread" "\<not> more_pages"
    proof (rule sync_service [OF ok same])
      show "service_ok c ?t (LoadNextHistory (?s1\<lparr>sy_complete := List.insert thread (sy_complete ?s1), sy_thread := 0\<rparr>))"
        by (rule ok_next) (use s1 that res Page_saved in \<open>auto simp: service_ok_def\<close>)
    qed simp_all
    show ?thesis using base f a b Page_saved by (simp add: Let_def)
  next
    case (Opened revision cursors)
    show ?thesis
    proof (cases cursors)
      case None
      then show ?thesis using base Opened by simp
    next
      case (Some cs)
      have "sync_ok c (LoadNextHistory (?s\<lparr>sy_ready := True, sy_cursors := map_of cs\<rparr>))"
      proof (rule sync_service [OF ok same])
        show "service_ok c ?t (LoadNextHistory (?s\<lparr>sy_ready := True, sy_cursors := map_of cs\<rparr>))"
          by (rule ok_next) (use sv res Opened Some in \<open>auto simp: service_ok_def\<close>)
      qed simp_all
      then show ?thesis using base Opened Some by simp
    qed
  qed
qed

section \<open>The store's thread\<close>

lemma select_same [simp]: "local (snd (lite_select q s)) = local s"
proof (cases "lite_select q s")
  case (Pair r s')
  then show ?thesis using yields_select [of q s _ s'] unsuccessful [of "\<lambda>t. (Some (q t), t)" s]
    by (cases r) (auto simp: yields_def lite_select_def)
qed

lemma selects_same: "local (snd (lite_then m (lite_then (lite_select q) (lite_select r)) s)) = local (snd (m s))"
proof -
  have s: "local (snd (lite_then (lite_select q) (lite_select r) s1)) = local s1" for s1
    using select_same [of q s1] select_same [of r "snd (lite_select q s1)"] unfolding lite_bind_def
    by (cases "lite_select q s1"; cases "fst (lite_select q s1)") auto
  show ?thesis unfolding lite_bind_def [of m] using s by (cases "m s"; cases "fst (m s)") auto
qed

lemma reopened_cursors: "sync_state (local (snd (OpenAccount 5 placeholder s))) = sync_state (local s)"
proof (cases rule: lite_transaction_cases [of "lite_then (lite_when (5 < (4::nat)) (lite_change (refetch_voice placeholder)))
    (lite_change (\<lambda>t. t\<lparr>messages := map (\<lambda>r. if m_server r = None \<and> m_state r = 0 then r\<lparr>m_state := 2\<rparr> else r) (messages t)\<rparr>))" s])
  case failed
  then show ?thesis by (simp add: OpenAccount_def)
next
  case (committed x s1 s2)
  then have "sync_state (local s2) = sync_state (local s)" by (auto simp: yields_when dest!: yields_change)
  then show ?thesis using committed(4) by (simp add: OpenAccount_def)
qed

lemma elsewhere_cursor:
  assumes "elsewhere p"
  shows "confirmed_cursor (local (snd (run_local label p s))) k = confirmed_cursor (local s) k"
proof (cases p)
  case (Save_messages ms thread cursor clear)
  then show ?thesis using assms saved_cursor [of label ms thread cursor clear s k] by (auto split: prod.split option.split)
qed (use assms in \<open>simp_all add: unannounced_def confirmed_cursor_def cursor.kept_conversations cursor.kept_clear cursor.kept_delete
  cursor.kept_draft cursor.kept_attachment cursor.kept_mark cursor.kept_forget\<close>)

lemma store_run:
  assumes "stored J ssl c" "store_ok c (local d)" "messages_of p \<subseteq> named_by (server_attr c)" "page_complete (server_history c) p d"
  shows "store_ok c (local (snd (run_local label p d)))"
  using assms(2-) synchronised_step [OF _ server_names_stored [OF assms(1)], of d p "server_history c" label]
    store_law.run_local_kept [OF history_law [OF server_names_stored [OF assms(1)]], of "{}" d p label]
  by (simp add: store_ok_def)

lemma store_job:
  assumes c: "stored J ssl c" and t: "store_ok c (local d)" and j: "job_ok c (local d) j" and r: "run_job label placeholder j d = (rs, d')"
  shows "store_ok c (local d') \<and> (\<forall>k. confirmed_cursor (local d) k \<le> confirmed_cursor (local d') k) \<and> (\<forall>q\<in>set rs. result_ok c (local d') q)"
proof (cases j)
  case (Save_page revision operation ms thread i more_pages)
  let ?p = "Save_messages ms thread i 0"
  obtain x where x: "SaveMessages label ms thread i 0 d = (x, d')" "rs = [Page_saved revision operation thread i more_pages (x \<noteq> None)]"
    using r Save_page by (auto split: prod.splits)
  have p: "snd (run_local label ?p d) = d'" using x(1) by (simp split: option.split)
  have "page_complete (server_history c) ?p d" "messages_of ?p \<subseteq> named_by (server_attr c)" using j Save_page by auto
  then have s: "store_ok c (local d')" using store_run [OF c t, of ?p label] p by simp
  have cur: "confirmed_cursor (local d') k = (if x \<noteq> None \<and> 0 < thread \<and> 0 \<le> i \<and> k = thread
     then max (confirmed_cursor (local d) thread) i else confirmed_cursor (local d) k)" for k
    using saved_cursor [of label ms thread i 0 d k] x(1) by simp
  have i: "0 \<le> i" if "x \<noteq> None"
  proof (cases rule: SaveMessages_cases [of label ms thread i 0 d])
    case failed
    then show ?thesis using that x(1) by simp
  next
    case (committed s3 outcomes s4)
    then have "confirmed_cursor (local d) thread \<le> i" using page_end_le j Save_page by auto
    then show ?thesis using store_cursor [OF t, of thread] by simp
  qed
  have "result_ok c (local d') (Page_saved revision operation thread i more_pages (x \<noteq> None))"
  proof (cases "x = None")
    case False
    have "0 < thread" "\<not> more_pages \<Longrightarrow> \<forall>q\<in>set (server_history c thread). q \<le> i \<or> q \<le> confirmed_cursor (local d) thread"
      using j Save_page by simp_all
    moreover from this(1) have "confirmed_cursor (local d') thread = max (confirmed_cursor (local d) thread) i" using cur [of thread] i False by simp
    ultimately show ?thesis by (auto simp: le_max_iff_disj)
  qed simp
  then show ?thesis using s cur x(2) by simp
next
  case (Open_store revision)
  let ?p = "Open_account 5 placeholder"
  obtain x where x: "lite_then (OpenAccount 5 placeholder) (lite_then (lite_select conversations) (lite_select sync_state)) d = (x, d')" "rs = [Opened revision x]"
    using r Open_store by (auto split: prod.splits)
  have l: "local d' = local (snd (OpenAccount 5 placeholder d))" using selects_same [of "OpenAccount 5 placeholder" conversations sync_state d] x(1) by simp
  then have "local d' = local (snd (run_local label ?p d))" by (simp add: unannounced_def)
  then have s: "store_ok c (local d')" using store_run [OF c t, of ?p label] by simp
  have st: "sync_state (local d') = sync_state (local d)" using reopened_cursors l by simp
  have "x = None \<or> x = Some (sync_state (local d'))"
  proof (cases x)
    case (Some cs)
    then have "yields (lite_then (OpenAccount 5 placeholder) (lite_then (lite_select conversations) (lite_select sync_state))) d cs d'"
      using x(1) by (simp add: yields_def)
    then obtain s1 where "yields (lite_select sync_state) s1 cs d'" by auto
    then show ?thesis using Some yields_select [of sync_state s1 cs d'] by simp
  qed simp
  then have "result_ok c (local d') (Opened revision x)" by (auto simp: cursor_value_def confirmed_cursor_def)
  then show ?thesis using s st x(2) by (simp add: confirmed_cursor_def)
next
  case (Other_job p)
  then have d': "d' = snd (run_local label p d)" "rs = []" "elsewhere p" "messages_of p \<subseteq> named_by (server_attr c)" using r j by auto
  have "page_complete (server_history c) p d" using d'(3) by (cases p) auto
  then show ?thesis using store_run [OF c t d'(4)] elsewhere_cursor [OF d'(3)] d' by simp
qed

lemma later_store:
  assumes "\<And>k. confirmed_cursor t k \<le> confirmed_cursor t' k"
  shows "job_ok c t j \<Longrightarrow> job_ok c t' j" and "result_ok c t r \<Longrightarrow> result_ok c t' r" and "service_ok c t s \<Longrightarrow> service_ok c t' s"
proof -
  have le: "i \<le> confirmed_cursor t k \<Longrightarrow> i \<le> confirmed_cursor t' k" for i k using assms [of k] by simp
  show "job_ok c t' j" if h: "job_ok c t j"
  proof (cases j)
    case (Save_page revision operation ms thread i more_pages)
    have "confirmed_cursor t thread < q" if "confirmed_cursor t' thread < q" for q using that assms [of thread] by simp
    then show ?thesis using h le Save_page by simp blast
  qed (use h in simp_all)
  show "result_ok c t' r" if h: "result_ok c t r"
  proof (cases r)
    case (Page_saved revision operation thread i more_pages success)
    then show ?thesis using h le by simp
  next
    case (Opened revision cursors)
    then show ?thesis using h le by (cases cursors) simp_all
  qed
  show "service_ok c t' s" if h: "service_ok c t s"
    unfolding service_ok_def
  proof (intro conjI)
    show "\<forall>(thread, k)\<in>set (sy_requests s). k \<le> confirmed_cursor t' thread" using h le unfolding service_ok_def by blast
  qed (use h le in \<open>simp_all add: service_ok_def\<close>)
qed

lemma ok_work:
  assumes c: "stored J ssl c" and ok: "sync_ok c s"
  shows "sync_ok c (work label placeholder s)"
proof (cases "sy_jobs s")
  case (Cons j js)
  obtain rs d where r: "run_job label placeholder j (sy_disk s) = (rs, d)" by fastforce
  have t: "store_ok c (local (sy_disk s))" and j: "job_ok c (local (sy_disk s)) j" using ok Cons by (simp_all add: sync_ok_def Let_def)
  note e = store_job [OF c t j r]
  then have mono: "\<And>k. confirmed_cursor (local (sy_disk s)) k \<le> confirmed_cursor (local d) k" by simp
  note later = later_store [OF mono]
  have w: "work label placeholder s = s\<lparr>sy_jobs := js, sy_results := sy_results s @ rs, sy_disk := d\<rparr>" using Cons r by (simp add: work_def)
  have "service_ok c (local d) s" "\<forall>j\<in>set js. job_ok c (local d) j" "\<forall>r\<in>set (sy_results s). result_ok c (local d) r"
    using ok Cons later by (simp_all add: sync_ok_def Let_def)
  moreover have "service_ok c (local d) (work label placeholder s) = service_ok c (local d) s" by (simp add: w service_ok_def)
  ultimately show ?thesis using e by (auto simp: sync_ok_def Let_def) (auto simp: w)
qed (use ok in \<open>simp add: work_def\<close>)

section \<open>Catching up\<close>

lemma ok_step:
  assumes c: "stored J ssl c" and step: "sync_step c label placeholder s s'" and ok: "sync_ok c s"
  shows "sync_ok c s'"
  using step
proof cases
  case (queue thread prioritize)
  show ?thesis unfolding queue by (rule sync_service [OF ok]) (use ok in \<open>auto simp: same_store_def sync_ok_def Let_def intro: ok_queue\<close>)
next
  case (refresh force)
  have "service_ok c (local (sy_disk s)) s" using ok by (simp add: sync_ok_def Let_def)
  then show ?thesis unfolding refresh using ok_refresh [of c "local (sy_disk s)" s force] by (intro sync_service [OF ok]) (simp_all add: same_store_def)
next
  case timer
  show ?thesis unfolding timer by (rule sync_service [OF ok]) (use ok in \<open>auto simp: same_store_def sync_ok_def Let_def intro: ok_next\<close>)
next
  case failed
  show ?thesis unfolding failed by (rule sync_service [OF ok]) (use ok in \<open>auto simp: same_store_def sync_ok_def Let_def intro: ok_failed\<close>)
next
  case (leave thread)
  have "service_ok c (local (sy_disk s)) (RemoveThread thread s)" using ok ok_remove by (simp add: sync_ok_def Let_def)
  then show ?thesis unfolding leave by (intro sync_service [OF ok]) (auto simp: same_store_def service_ok_def)
next
  case (join thread)
  show ?thesis unfolding join(1) by (rule sync_service [OF ok]) (use ok join(2) in \<open>auto simp: same_store_def sync_ok_def Let_def service_ok_def\<close>)
next
  case (link b)
  show ?thesis unfolding link by (rule sync_service [OF ok]) (use ok in \<open>auto simp: same_store_def sync_ok_def Let_def service_ok_def\<close>)
next
  case reset
  show ?thesis unfolding reset by (rule sync_service [OF ok]) (use ok in \<open>auto simp: same_store_def sync_ok_def Let_def intro: ok_reset\<close>)
next
  case start
  have "service_ok c (local (sy_disk s)) (ResetSession s)" using ok ok_reset by (simp add: sync_ok_def Let_def)
  then show ?thesis unfolding start
    by (intro sync_service [OF ok]) (auto simp: same_store_def StartSession_def Let_def service_ok_def)
next
  case (receive thread k)
  have "distinct (map ms_id (messages_t (tbl c)))" using stored_parts(6) [OF c] by (simp add: messages_ok_def)
  then show ?thesis unfolding receive(1) using ok_receive [OF ok _ receive(2)] by simp
next
  case store
  show ?thesis unfolding store by (rule ok_work [OF c ok])
next
  case (result r rs)
  show ?thesis unfolding result(1) by (rule ok_result [OF ok result(2)])
next
  case (elsewhere p)
  show ?thesis unfolding elsewhere(1) by (rule sync_service [OF ok]) (use ok elsewhere(2,3) in \<open>auto simp: same_store_def sync_ok_def Let_def service_ok_def\<close>)
qed

text \<open>The client before its first session in this run: its account's store has had a life of complete pages.\<close>

definition before_session :: "mysql \<Rightarrow> (int \<Rightarrow> string) \<Rightarrow> history_sync \<Rightarrow> bool" where
  "before_session c label s \<longleftrightarrow> (\<exists>ps bs. (\<forall>p\<in>set ps. messages_of p \<subseteq> named_by (server_attr c)) \<and> complete_run (server_history c) label ps (fresh_store bs) \<and>
     s = \<lparr>sy_ready = False, sy_connected = False, sy_threads = [], sy_thread = 0, sy_cursor = 0, sy_queue = [], sy_complete = [], sy_cursors = Map.empty,
       sy_operation = 0, sy_revision = 0, sy_requests = [], sy_jobs = [], sy_results = [], sy_disk = snd (run_locals label ps (fresh_store bs))\<rparr>)"

lemma ok_before:
  assumes c: "stored J ssl c" and "before_session c label s"
  shows "sync_ok c s"
proof -
  obtain ps bs where p: "\<forall>p\<in>set ps. messages_of p \<subseteq> named_by (server_attr c)" "complete_run (server_history c) label ps (fresh_store bs)"
      "local (sy_disk s) = local (snd (run_locals label ps (fresh_store bs)))" and s: "sy_threads s = []" "sy_thread s = 0" "sy_complete s = []"
      "sy_cursors s = Map.empty" "sy_requests s = []" "sy_jobs s = []" "sy_results s = []"
    using assms(2) by (auto simp: before_session_def)
  note names = server_names_stored [OF c]
  have "synchronised (server_history c) (local (fresh_store bs))" by (auto simp: synchronised_def fresh_store_def no_local_tables_def confirmed_cursor_def)
  then have t: "store_ok c (local (sy_disk s))"
    using synchronised_run [OF names fresh_holds p(1) _ p(2)] run_holds [OF names p(1)] by (simp add: store_ok_def p(3))
  then show ?thesis using s store_cursor [OF t] by (simp add: sync_ok_def Let_def service_ok_def cursor_value_def)
qed


end
