(* ===== verification/ClientSyncDemo.thy ===== *)
theory ClientSyncDemo
  imports ClientSyncFacts
begin

text \<open>
  A client that opens its account, loads the one conversation of a small server and knows all of it; and a conversation that is left and
  joined again in one session, which the client cannot catch up with until it starts another.
\<close>

section \<open>A session\<close>

definition demo_sync_0 :: history_sync where
  "demo_sync_0 = \<lparr>sy_ready = False, sy_connected = False, sy_threads = [], sy_thread = 0, sy_cursor = 0, sy_queue = [], sy_complete = [],
     sy_cursors = Map.empty, sy_operation = 0, sy_revision = 0, sy_requests = [], sy_jobs = [], sy_results = [], sy_disk = fresh_store []\<rparr>"

definition demo_sync_1 :: history_sync where
  "demo_sync_1 = work demo_label [] (StartSession (demo_sync_0\<lparr>sy_threads := [1], sy_connected := True\<rparr>))"

definition demo_open :: local_op where
  "demo_open = Save_conversations [\<lparr>v_thread = 1, v_other = 2, v_last = 0, v_time = [], v_summary = [], v_group = []\<rparr>]"

definition demo_sync_2 :: history_sync where
  "demo_sync_2 = (let s = StoreResult (Opened 1 (Some [])) (demo_sync_1\<lparr>sy_results := []\<rparr>) in
     QueueHistory 1 False (work demo_label [] (s\<lparr>sy_jobs := sy_jobs s @ [Other_job demo_open]\<rparr>)))"

definition demo_page_1 :: "ChatMessage list \<times> bool \<times> int" where
  "demo_page_1 =
     ([\<lparr>cm_message_id = 1, cm_thread_id = 1, cm_sender_id = 2, cm_recv_id = 1, cm_unique_id = [], cm_content = ''hi'',
         cm_chat_time = ''2026-01-01 00:00:00'', cm_status = 2, cm_msg_type = 0, cm_media_size = 0\<rparr>,
       \<lparr>cm_message_id = 2, cm_thread_id = 1, cm_sender_id = 1, cm_recv_id = 2, cm_unique_id = [], cm_content = ''We are friends now!'',
         cm_chat_time = ''2026-01-01 00:00:00'', cm_status = 2, cm_msg_type = 0, cm_media_size = 0\<rparr>], False, 2)"

definition demo_sync_3 :: history_sync where
  "demo_sync_3 = work demo_label [] (ReceivePage 1 demo_page_1 demo_sync_2)"

definition demo_sync_4 :: history_sync where
  "demo_sync_4 = StoreResult (Page_saved 1 2 1 2 False True) (demo_sync_3\<lparr>sy_results := []\<rparr>)"

lemma demo_page_1: "history_page db4 1 10 0 = demo_page_1"
  by (simp add: page_rows_of history_rows_def db4_eq Let_def read_message_def demo_page_1_def)

lemma demo_sync_values:
  "sy_results demo_sync_1 = [Opened 1 (Some [])]" "sy_threads demo_sync_2 = [1]" "sy_requests demo_sync_2 = [(1, 0)]" "sy_results demo_sync_2 = []"
  "sy_results demo_sync_3 = [Page_saved 1 2 1 2 False True]" "sy_complete demo_sync_4 = [1]"
  by code_simp+

lemma demo_threads: "sy_threads (work demo_label [] ((StoreResult (Opened 1 (Some [])) (demo_sync_1\<lparr>sy_results := []\<rparr>))
    \<lparr>sy_jobs := sy_jobs (StoreResult (Opened 1 (Some [])) (demo_sync_1\<lparr>sy_results := []\<rparr>)) @ [Other_job demo_open]\<rparr>)) = [1]"
  by code_simp

lemma demo_reached: "reachable (before_session db4 demo_label) (sync_step db4 demo_label []) demo_sync_4"
proof -
  let ?R = "reachable (before_session db4 demo_label) (sync_step db4 demo_label [])"
  have "before_session db4 demo_label demo_sync_0"
    unfolding before_session_def by (rule exI [of _ "[]"], rule exI [of _ "[]"]) (simp add: demo_sync_0_def)
  then have "?R demo_sync_0" by (rule reach_init)
  then have "?R (demo_sync_0\<lparr>sy_threads := List.insert 1 (sy_threads demo_sync_0)\<rparr>)" by (rule reach_step) (rule sync_step.join, simp)
  then have "?R (demo_sync_0\<lparr>sy_threads := [1]\<rparr>)" by (simp add: demo_sync_0_def)
  then have "?R (demo_sync_0\<lparr>sy_threads := [1], sy_connected := True\<rparr>)" by (rule reach_step) (rule sync_step.link)
  then have "?R (StartSession (demo_sync_0\<lparr>sy_threads := [1], sy_connected := True\<rparr>))" by (rule reach_step) (rule sync_step.start)
  then have "?R demo_sync_1" unfolding demo_sync_1_def by (rule reach_step) (rule sync_step.store)
  then have r: "?R (StoreResult (Opened 1 (Some [])) (demo_sync_1\<lparr>sy_results := []\<rparr>))"
    by (rule reach_step) (rule sync_step.result, rule demo_sync_values(1))
  let ?s = "StoreResult (Opened 1 (Some [])) (demo_sync_1\<lparr>sy_results := []\<rparr>)"
  from r have "?R (?s\<lparr>sy_jobs := sy_jobs ?s @ [Other_job demo_open]\<rparr>)"
    by (rule reach_step) (rule sync_step.elsewhere, simp_all add: demo_open_def)
  then have "?R (work demo_label [] (?s\<lparr>sy_jobs := sy_jobs ?s @ [Other_job demo_open]\<rparr>))" by (rule reach_step) (rule sync_step.store)
  then have "?R demo_sync_2" unfolding demo_sync_2_def Let_def by (rule reach_step) (rule sync_step.queue, subst demo_threads, simp)
  then have "?R (ReceivePage 1 (history_page db4 1 10 0) demo_sync_2)" by (rule reach_step) (rule sync_step.receive, simp add: demo_sync_values)
  then have "?R demo_sync_3" unfolding demo_sync_3_def demo_page_1 by (rule reach_step) (rule sync_step.store)
  then show ?thesis unfolding demo_sync_4_def by (rule reach_step) (rule sync_step.result, rule demo_sync_values(5))
qed


section \<open>Joining again\<close>

text \<open>
  A page that starts at or before the store's position is refused. The service forgets a conversation's position when it is removed
  (\<^verbatim>\<open>RemoveThread\<close>), the store does not: when a group is left and joined again in one session, the service asks from the beginning, and
  each page is refused until the next session reads the store's position.
\<close>

lemma stale_page_refused:
  assumes "0 < thread" "s_server m \<le> confirmed_cursor (local d) thread"
  shows "fst (SaveMessages label (m # ms) thread i clear d) = None \<and> local (snd (SaveMessages label (m # ms) thread i clear d)) = local d"
proof (cases rule: SaveMessages_cases [of label "m # ms" thread i clear d])
  case (committed s3 outcomes s4)
  then show ?thesis using assms by simp
qed simp

lemma rejoined_asks_from_start:
  assumes "sy_ready s" "sy_connected s" "sy_thread s = 0" "sy_queue s = []" "thread \<noteq> 0"
  shows "sy_requests (QueueHistory thread False (RemoveThread thread s)) = sy_requests s @ [(thread, 0)]"
  using assms by (simp add: QueueHistory_def RemoveThread_def LoadNextHistory_def SendHistoryRequest_def Let_def cursor_value_def)

lemma rejoined_conversation_stalls:
  "sy_results (work demo_label [] (ReceivePage 1 demo_page_1 (QueueHistory 1 False (RemoveThread 1 demo_sync_4)))) = [Page_saved 1 3 1 2 False False]"
  by code_simp

end
