(* ===== verification/Spec2Isabelle.thy ===== *)
theory Spec2Isabelle
  imports Session Executor Logins ContactLists UploadDemo GateDemo HttpConnection ClientSyncDemo
begin

text \<open>
  The servers of CppChat and the store of its desktop client, modelled and verified.

  \<^bold>\<open>The program.\<close> CppChat is a chat system with desktop and mobile clients. Its servers are in C++: a gate
  (\<^verbatim>\<open>GateServer\<close>, HTTP: registration, password reset, login), a status server (\<^verbatim>\<open>StatusServer\<close>: chooses a chat node and
  issues tokens), chat nodes (\<^verbatim>\<open>ChatServer\<close> and \<^verbatim>\<open>ChatServer2\<close>, both built from \<^verbatim>\<open>ChatServerShared\<close>: contacts, groups,
  messages, calls) and a resource server (\<^verbatim>\<open>ResourceServer\<close>: pictures, files and voice messages). They share one MySQL database
  and one Redis; chat nodes call each other, the status server and, from the resource server, are called over gRPC.

  \<^bold>\<open>Vocabulary.\<close> \<^theory_text>\<open>Prelude\<close> has the enumerations and limits of \<^verbatim>\<open>const.h\<close>, the C++ library functions used, and the two
  general contracts of step relations, \<open>reachable\<close> and the locale \<open>invariant_system\<close>. \<^theory_text>\<open>Json\<close> has the documents jsoncpp works on;
  its parser and serialisers are parameters. \<^theory_text>\<open>Contract\<close> has the header-only policies \<^verbatim>\<open>RequestContract.h\<close>,
  \<^verbatim>\<open>ServicePolicy.h\<close> and \<^verbatim>\<open>ContactTags.h\<close>.

  \<^bold>\<open>Connections of a chat node.\<close> \<^theory_text>\<open>Wire\<close>: the nodes of \<^verbatim>\<open>MsgNode.cpp\<close> at their 16-bit widths and the reader of
  \<^verbatim>\<open>CSession.cpp\<close>; the reader refines the stream of frames however TCP cuts it, and stays inside its buffers. \<^theory_text>\<open>Session\<close>: the
  sending and closing half of \<^verbatim>\<open>CSession.cpp\<close> as a step relation of other threads and the strand; order, bounds, one cleanup,
  completion of closing and draining. \<^theory_text>\<open>Executor\<close>: \<^verbatim>\<open>BusinessExecutor.cpp\<close>; order per key, bounds, draining.
  \<^theory_text>\<open>LoginSnapshot\<close>: \<^verbatim>\<open>LoginSnapshot.h\<close>; the frames of a login reply fit and lose nothing.

  \<^bold>\<open>Redis.\<close> \<^theory_text>\<open>Redis\<close>: the keyspace and the commands of \<^verbatim>\<open>RedisMgr.cpp\<close>, each with a delivery (it ran, its reply was lost, it
  never ran). \<^theory_text>\<open>Leases\<close>: the locks of \<^verbatim>\<open>DistLock.cpp\<close> and node health records; both satisfy the locale \<open>owner_lease\<close>.
  \<^theory_text>\<open>Credentials\<close>: device slots and tokens, with the Lua scripts of \<^verbatim>\<open>RegisterSession\<close>, \<^verbatim>\<open>RefreshSession\<close>,
  \<^verbatim>\<open>ReleaseSession\<close>. \<^theory_text>\<open>Voice\<close>: the Lua state machine of calls. \<^theory_text>\<open>StatusServer\<close>: \<^verbatim>\<open>StatusServiceImpl.cpp\<close>.

  \<^bold>\<open>The database.\<close> \<^theory_text>\<open>Database\<close>: the tables of \<^verbatim>\<open>schema.sql\<close>, statements with faults, the transaction guard of
  \<^verbatim>\<open>MysqlDaoSupport.h\<close>. \<^theory_text>\<open>Contacts\<close>, \<^theory_text>\<open>Messages\<close>, \<^theory_text>\<open>GroupChats\<close>, \<^theory_text>\<open>Users\<close>: the four files
  \<^verbatim>\<open>MysqlDaoContacts.cpp\<close>, \<^verbatim>\<open>MysqlDaoMessages.cpp\<close>, \<^verbatim>\<open>MysqlDaoGroups.cpp\<close> and \<^verbatim>\<open>MysqlDaoUsers.cpp\<close>, one definition per operation.
  \<^theory_text>\<open>Storage\<close> has the invariant of the rows under every sequence of calls with any faults, \<^theory_text>\<open>StorageFacts\<close> what follows from it:
  symmetric friendships, confined messages, groups that refine their abstract rules, complete histories and thread lists.

  \<^bold>\<open>A chat node.\<close> \<^theory_text>\<open>Node\<close>: the state a service sees (database, Redis, open sessions, the slots of \<^verbatim>\<open>UserMgr.cpp\<close>, what is
  sent to sessions and other nodes) and the state monad over it. \<^theory_text>\<open>UserService\<close>, \<^theory_text>\<open>MessageService\<close>, \<^theory_text>\<open>FriendService\<close>,
  \<^theory_text>\<open>VoiceService\<close>, \<^theory_text>\<open>SessionService\<close>: the service files of those names. \<^theory_text>\<open>Handlers\<close>: \<^verbatim>\<open>LogicSystem.cpp\<close>, every request
  handler. \<^theory_text>\<open>PeerService\<close>: \<^verbatim>\<open>ChatServiceImpl.cpp\<close> and \<^verbatim>\<open>MediaAuthorizationService.cpp\<close>. \<^theory_text>\<open>Authority\<close>: no request changes rows
  but on behalf of its session's user. \<^theory_text>\<open>Logins\<close> and \<^theory_text>\<open>ContactLists\<close>: what a login does and which lists it carries.

  \<^bold>\<open>The resource server.\<close> \<^theory_text>\<open>ResourceStore\<close>: \<^verbatim>\<open>ResourceStore.cpp\<close>, \<^verbatim>\<open>ResourceAuthorizer.cpp\<close>, and the worker's part of
  \<^verbatim>\<open>ResourceServerApp.cpp\<close>, over a disk whose operations may fail or be cut short. \<^theory_text>\<open>Media\<close>: \<^verbatim>\<open>pcmwave.h\<close>. \<^theory_text>\<open>Uploads\<close>: a Hoare
  logic for these jobs and the invariant of files, metadata and ready keys. \<^theory_text>\<open>MediaMessages\<close>: with the chat nodes, every media
  message that is stored refers to a file that can be downloaded. \<^theory_text>\<open>UploadDemo\<close>: the life of one file.

  \<^bold>\<open>The gate.\<close> \<^theory_text>\<open>UrlQuery\<close>: percent encoding and parameters of \<^verbatim>\<open>HttpConnection.cpp\<close>. \<^theory_text>\<open>Gate\<close>: accounts (\<^verbatim>\<open>MysqlDao.cpp\<close>), the
  lease on a verification code (\<^verbatim>\<open>VerificationLease.h\<close>, \<^verbatim>\<open>RedisMgr.cpp\<close>) and every handler of \<^verbatim>\<open>LogicSystem.cpp\<close>. \<^theory_text>\<open>GateFacts\<close>:
  codes work once, resets change one account, and a registered user gets a token that the status server and the chat nodes
  accept. \<^theory_text>\<open>GateDemo\<close>: concrete accounts. \<^theory_text>\<open>HttpConnection\<close>: the connection's state machine with its deadline; one request gets
  one answer, and every connection ends in time.

  \<^bold>\<open>The desktop client's store.\<close> \<^theory_text>\<open>LocalStore\<close>: the SQLite tables of \<^verbatim>\<open>CppChat/common/chatstore.cpp\<close> and every operation that
  changes them, over statements and commits that may fail. \<^theory_text>\<open>LocalStoreFacts\<close>: the invariant of rows and keys; the locales \<open>store_part\<close>
  and \<open>store_law\<close> say what a promise has to survive, and each promise is an interpretation. \<^theory_text>\<open>LocalHistory\<close>: what is known of the
  server's messages, exactly. \<^theory_text>\<open>LocalSync\<close>: messages are announced once, stay removed, and a synchronised conversation misses none.
  \<^theory_text>\<open>ClientSync\<close>: the history half of \<^verbatim>\<open>CppChat/services/chatsyncservice.cpp\<close> as a step relation over the store's thread and the
  server's \<^verbatim>\<open>LoadChatMsg\<close>; \<^theory_text>\<open>ClientSyncFacts\<close>: what the client counts as complete is complete. \<^theory_text>\<open>ClientSyncDemo\<close>: a session, and a
  group that is joined again and stalls.

  \<^bold>\<open>Parameters and what is assumed of them.\<close> jsoncpp, cjson (\<open>faithful\<close>: everything but the digits of numbers is decoded as it was
  encoded), OpenSSL (\<open>sound_openssl\<close>: keys have the length asked for), the random bytes, tokens and identifiers drawn, hash
  functions and the orders of hash maps, MySQL's collation, Redis' rounding of a time to live (\<open>counts_seconds\<close>), the digest of a
  file, the disk (\<open>faithful_files\<close>), the verification server. Lost connections, failing statements, lost replies and failing or short file
  operations are lists of faults in the state, over which the theorems quantify.

  \<^bold>\<open>Bounds and granularity.\<close> No model runs on fuel: every loop is structural or has a measure. A MySQL transaction and a Lua script are
  one step, as their documentation promises; a request of the resource server is one step, because it holds the lock of its file; a
  service of a chat node runs without interference from other threads of its node, while sessions, the executor and the gate's
  connections are interleaved in full. Database and message identifiers are unbounded integers; lengths, headers and sizes that may wrap are
  words. Wall clock and steady clock are integers or rationals in the state.

  \<^bold>\<open>Not modelled.\<close> The rest of the clients (\<^verbatim>\<open>CppChat\<close>, \<^verbatim>\<open>CppChatAndroid\<close>: Qt user interfaces and their other services; of the store, searching,
  the files of attachments, their encryption, and moving an old account's folder), the JavaScript servers
  \<^verbatim>\<open>VerifyServer\<close> and \<^verbatim>\<open>GatewayGuard\<close>, generated protobuf code, connection pools, configuration files, logging, the accept loops and start-up
  code of the servers. Log lines are left out everywhere.
\<close>

end
